(* ===== verification/Gateway_Base.thy ===== *)
theory Gateway_Base
  imports Main "HOL-Library.Word"
begin

text \<open>
  Shared base of the development: the names of the machine integers, the C idioms that
  several components use (splitting a 16-bit register into its big-endian bytes and
  joining it again, \<^verbatim>\<open>strcmp\<close> on NUL-terminated strings) and the generic lemmas on words
  and lists that the component theories rely on.

  C conventions used by every theory: \<^verbatim>\<open>uint8_t\<close>, \<^verbatim>\<open>uint16_t\<close> and \<^verbatim>\<open>uint32_t\<close> are words of
  their width, \<^verbatim>\<open>int\<close> return codes are \<^typ>\<open>int\<close>, \<^verbatim>\<open>size_t\<close> counters of in-memory arrays
  are \<^typ>\<open>nat\<close>, a pointer that may be NULL is an \<open>option\<close>, and a C string is the
  list of its characters without the terminator.
\<close>

unbundle bit_operations_syntax

type_synonym u8 = "8 word"
type_synonym u16 = "16 word"
type_synonym u32 = "32 word"

text \<open>Facts that unfold an operation of a component, and facts that say it keeps an invariant.\<close>

named_theorems gw_defs
named_theorems gw_inv

section \<open>Big-endian bytes of a register\<close>

definition be_hi :: "u16 \<Rightarrow> u8" where
  "be_hi v = ucast (drop_bit 8 v)"

definition be_lo :: "u16 \<Rightarrow> u8" where
  "be_lo v = ucast (v AND 0xFF)"

definition be_join :: "u8 \<Rightarrow> u8 \<Rightarrow> u16" where
  "be_join h l = push_bit 8 (ucast h) OR ucast l"

lemma mask_255_u16: "(255 :: u16) = mask 8"
  by (simp add: mask_eq_exp_minus_1)

lemma be_join_split [simp]: "be_join (be_hi v) (be_lo v) = v"
  unfolding be_join_def be_hi_def be_lo_def mask_255_u16
  by (rule bit_word_eqI) (auto simp: bit_simps)

lemma be_hi_join [simp]: "be_hi (be_join h l) = h"
  unfolding be_join_def be_hi_def
  by (rule bit_word_eqI) (auto simp: bit_simps dest: bit_imp_le_length)

lemma be_lo_join [simp]: "be_lo (be_join h l) = l"
  unfolding be_join_def be_lo_def mask_255_u16
  by (rule bit_word_eqI) (auto simp: bit_simps dest: bit_imp_le_length)

lemma be_join_inject: "be_join h l = be_join h' l' \<longleftrightarrow> h = h' \<and> l = l'"
  by (metis be_hi_join be_lo_join)

text \<open>The bytes of a list of registers, high byte first, and the inverse.\<close>

fun regs_to_bytes :: "u16 list \<Rightarrow> u8 list" where
  "regs_to_bytes [] = []"
| "regs_to_bytes (v # vs) = be_hi v # be_lo v # regs_to_bytes vs"

lemma length_regs_to_bytes [simp]: "length (regs_to_bytes vs) = 2 * length vs"
  by (induction vs) auto

lemma regs_to_bytes_append: "regs_to_bytes (xs @ ys) = regs_to_bytes xs @ regs_to_bytes ys"
  by (induction xs) auto

lemma regs_to_bytes_nth:
  assumes "i < length vs"
  shows "regs_to_bytes vs ! (2 * i) = be_hi (vs ! i)"
    and "regs_to_bytes vs ! (2 * i + 1) = be_lo (vs ! i)"
proof -
  have "regs_to_bytes vs ! (2 * i) = be_hi (vs ! i) \<and>
        regs_to_bytes vs ! (2 * i + 1) = be_lo (vs ! i)"
    using assms
  proof (induction vs arbitrary: i)
    case Nil
    then show ?case by simp
  next
    case (Cons v vs)
    then show ?case by (cases i) auto
  qed
  then show "regs_to_bytes vs ! (2 * i) = be_hi (vs ! i)"
    and "regs_to_bytes vs ! (2 * i + 1) = be_lo (vs ! i)" by auto
qed

section \<open>Small word facts\<close>

lemma unat_u16_lt [simp]: "unat (w :: u16) < 65536"
  using unsigned_less [of w] by simp

lemma unat_u8_lt [simp]: "unat (w :: u8) < 256"
  using unsigned_less [of w] by simp

lemma unat_of_nat_u16 [simp]: "n < 65536 \<Longrightarrow> unat (of_nat n :: u16) = n"
  by (simp add: unat_of_nat)

lemma of_nat_u16_inj: "m < 65536 \<Longrightarrow> n < 65536 \<Longrightarrow> (of_nat m :: u16) = of_nat n \<longleftrightarrow> m = n"
  by (metis unat_of_nat_u16)

section \<open>Bounded list search\<close>

text \<open>\<^const>\<open>find\<close> returns the first match, as the C loops with an early return do.\<close>

lemma find_SomeD: "List.find P xs = Some x \<Longrightarrow> x \<in> set xs \<and> P x"
  by (induction xs) (auto split: if_splits)

lemma find_None_ball: "List.find P xs = None \<longleftrightarrow> (\<forall>x\<in>set xs. \<not> P x)"
  by (induction xs) auto

lemma find_sorted_unique:
  assumes "sorted_wrt (<) (map f xs)" and "x \<in> set xs"
  shows "List.find (\<lambda>y. f y = (f x :: 'a :: linorder)) xs = Some x"
  using assms by (induction xs) (auto simp: image_iff)

lemma fold_inv: "P s \<Longrightarrow> (\<And>x s. x \<in> set xs \<Longrightarrow> P s \<Longrightarrow> P (f x s)) \<Longrightarrow> P (fold f xs s)"
  by (induction xs arbitrary: s) auto

text \<open>The parts before and behind the first of a character.\<close>

lemma char_split_unique:
  "b @ d # x = c @ d # y \<Longrightarrow> d \<notin> set b \<Longrightarrow> d \<notin> set c \<Longrightarrow> b = c \<and> x = y"
proof (induction b arbitrary: c)
  case Nil
  then show ?case by (cases c) auto
next
  case (Cons h b)
  then show ?case by (cases c) auto
qed

section \<open>Descriptors\<close>

text \<open>A call that gives a descriptor that was not open, or fails and opens none.\<close>

definition opens_fresh :: "('e \<Rightarrow> int set) \<Rightarrow> 'e \<Rightarrow> int \<times> 'e \<Rightarrow> bool" where
  "opens_fresh opens e r =
     (if fst r < 0 then opens (snd r) = opens e
      else fst r \<notin> opens e \<and> opens (snd r) = insert (fst r) (opens e))"

end
