(* ===== verification/Modbus_Defs.thy ===== *)
theory Modbus_Defs
  imports Gateway_Base
begin

text \<open>
  \<^verbatim>\<open>lib/modbus/modbus_defines.h\<close>: the function codes, frame lengths, register limits and
  exception codes. A \<^verbatim>\<open>#define\<close> is an abbreviation, so it needs no unfolding in proofs.
  Lengths and limits, which the code compares with \<^verbatim>\<open>size_t\<close> counters or with a
  promoted quantity, are natural numbers; bytes of a frame are \<^typ>\<open>u8\<close>.
\<close>

abbreviation MODBUS_FUNC_READ_HOLDING_REGISTERS :: u8 where
  "MODBUS_FUNC_READ_HOLDING_REGISTERS \<equiv> 0x03"

abbreviation MODBUS_FUNC_WRITE_SINGLE_REGISTER :: u8 where
  "MODBUS_FUNC_WRITE_SINGLE_REGISTER \<equiv> 0x06"

abbreviation MODBUS_FUNC_WRITE_MULTIPLE_REGISTERS :: u8 where
  "MODBUS_FUNC_WRITE_MULTIPLE_REGISTERS \<equiv> 0x10"

abbreviation MODBUS_TCP_MBAP_HEADER_LEN :: nat where
  "MODBUS_TCP_MBAP_HEADER_LEN \<equiv> 6"

abbreviation MODBUS_TCP_MBAP_LEN_STANDARD_REQ :: u8 where
  "MODBUS_TCP_MBAP_LEN_STANDARD_REQ \<equiv> 6"

abbreviation MODBUS_TCP_MIN_READ_REQ_LENGTH :: nat where
  "MODBUS_TCP_MIN_READ_REQ_LENGTH \<equiv> 12"

abbreviation MODBUS_TCP_MAX_ADU_LENGTH :: nat where
  "MODBUS_TCP_MAX_ADU_LENGTH \<equiv> 260"

abbreviation MODBUS_RTU_CRC_LEN :: nat where
  "MODBUS_RTU_CRC_LEN \<equiv> 2"

abbreviation MODBUS_RTU_MAX_ADU_LENGTH :: nat where
  "MODBUS_RTU_MAX_ADU_LENGTH \<equiv> 256"

abbreviation MODBUS_MAX_READ_REGISTERS :: u16 where
  "MODBUS_MAX_READ_REGISTERS \<equiv> 125"

abbreviation MODBUS_MAX_WRITE_REGISTERS :: u16 where
  "MODBUS_MAX_WRITE_REGISTERS \<equiv> 123"

abbreviation MODBUS_EXCEPTION_FLAG :: u8 where
  "MODBUS_EXCEPTION_FLAG \<equiv> 0x80"

abbreviation MODBUS_EX_ILLEGAL_FUNCTION :: u8 where
  "MODBUS_EX_ILLEGAL_FUNCTION \<equiv> 0x01"

abbreviation MODBUS_EX_ILLEGAL_DATA_ADDRESS :: u8 where
  "MODBUS_EX_ILLEGAL_DATA_ADDRESS \<equiv> 0x02"

end
