(* ===== verification/Gateway_Interfaces.thy ===== *)
theory Gateway_Interfaces
  imports Gateway_Base
begin

text \<open>
  The contracts between components, as locales. Each names the operations a client calls
  and the laws the provider promises; the client's lemmas are proved once from the laws,
  and the providing theory interprets the locale on its own definitions.
\<close>

section \<open>A store of registers with a range check\<close>

text \<open>
  The shared pool as its users see it: a write to a valid address succeeds and is read
  back, touches no other address, and an invalid address is refused on both sides.
\<close>

locale register_store =
  fixes rd :: "'s \<Rightarrow> 'a \<Rightarrow> 'v option"
    and wr :: "'s \<Rightarrow> 'a \<Rightarrow> 'v \<Rightarrow> bool \<times> 's"
    and ok :: "'a \<Rightarrow> bool"
  assumes rd_bad: "\<not> ok a \<Longrightarrow> rd s a = None"
    and wr_bad: "\<not> ok a \<Longrightarrow> wr s a v = (False, s)"
    and wr_ok: "ok a \<Longrightarrow> fst (wr s a v)"
    and rd_wr: "ok a \<Longrightarrow> rd (snd (wr s a v)) b = (if b = a then Some v else rd s b)"
begin

lemma rd_wr_any: "rd (snd (wr s a v)) b = (if ok a \<and> b = a then Some v else rd s b)"
  by (cases "ok a") (simp_all add: rd_wr wr_bad)

lemma wr_True_iff: "fst (wr s a v) \<longleftrightarrow> ok a"
  using wr_bad wr_ok by fastforce

lemma rd_writes_other:
  "b \<notin> fst ` set ws \<Longrightarrow> rd (fold (\<lambda>(a, v) s. snd (wr s a v)) ws s) b = rd s b"
  by (induction ws arbitrary: s) (auto simp: rd_wr_any)

lemma rd_writes_distinct:
  assumes "distinct (map fst ws)" and "(a, v) \<in> set ws" and "ok a"
  shows "rd (fold (\<lambda>(a, v) s. snd (wr s a v)) ws s) a = Some v"
  using assms
proof (induction ws arbitrary: s)
  case Nil
  then show ?case by simp
next
  case (Cons w ws)
  show ?case
  proof (cases "w = (a, v)")
    case True
    with Cons.prems have "a \<notin> fst ` set ws" by auto
    with True Cons.prems show ?thesis by (simp add: rd_writes_other rd_wr)
  next
    case False
    with Cons show ?thesis by (cases w) auto
  qed
qed

lemma rd_writes_const:
  assumes "ok a"
  shows "rd (fold (\<lambda>a s. snd (wr s a v)) as s) a = (if a \<in> set as then Some v else rd s a)"
  by (induction as arbitrary: s) (auto simp: rd_wr_any assms)

lemma rd_writes_const_other:
  "b \<notin> set as \<Longrightarrow> rd (fold (\<lambda>a s. snd (wr s a v)) as s) b = rd s b"
  by (induction as arbitrary: s) (auto simp: rd_wr_any)

end

section \<open>Lookup of a row by its key\<close>

text \<open>
  A table searched by key: what is found is a row of the table with that key, and in a
  well-formed table every row is found under its own key.
\<close>

locale keyed_lookup =
  fixes lookup :: "'t \<Rightarrow> 'k \<Rightarrow> 'v option"
    and entries :: "'t \<Rightarrow> 'v list"
    and key :: "'v \<Rightarrow> 'k"
    and wf :: "'t \<Rightarrow> bool"
  assumes lookup_sound: "lookup t k = Some v \<Longrightarrow> v \<in> set (entries t) \<and> key v = k"
    and lookup_complete: "wf t \<Longrightarrow> v \<in> set (entries t) \<Longrightarrow> lookup t (key v) = Some v"
begin

lemma lookup_key_unique:
  "wf t \<Longrightarrow> v \<in> set (entries t) \<Longrightarrow> w \<in> set (entries t) \<Longrightarrow> key v = key w \<Longrightarrow> v = w"
  by (metis lookup_complete option.inject)

lemma lookup_Some_iff: "wf t \<Longrightarrow> lookup t k = Some v \<longleftrightarrow> v \<in> set (entries t) \<and> key v = k"
  using lookup_complete lookup_sound by blast

lemma lookup_None_iff: "wf t \<Longrightarrow> lookup t k = None \<longleftrightarrow> k \<notin> key ` set (entries t)"
  by (metis (no_types, lifting) image_iff lookup_complete lookup_sound not_None_eq)

end

section \<open>A reentrant lock per key\<close>

text \<open>
  What the users of the bus coordinator rely on. An acquire that would wait is \<^const>\<open>None\<close>;
  \<open>holder\<close> is the abstract state: who holds a key and how often. \<open>inv\<close> is the provider's
  own invariant together with its capacity, \<open>keys\<close> the keys it can coordinate, \<open>limit\<close> the
  largest nesting depth.
\<close>

locale reentrant_lock =
  fixes acq :: "'t \<Rightarrow> 'p \<Rightarrow> 's \<Rightarrow> 's option"
    and rel :: "'t \<Rightarrow> 'p \<Rightarrow> 's \<Rightarrow> 's"
    and holder :: "'s \<Rightarrow> 'p \<Rightarrow> ('t \<times> nat) option"
    and inv :: "'s \<Rightarrow> bool"
    and keys :: "'p set"
    and limit :: nat
  assumes holder_pos: "inv s \<Longrightarrow> holder s p = Some (t, d) \<Longrightarrow> 0 < d"
    and acq_free: "inv s \<Longrightarrow> p \<in> keys \<Longrightarrow> holder s p = None \<Longrightarrow>
      \<exists>s'. acq t p s = Some s' \<and> inv s' \<and> holder s' = (holder s)(p \<mapsto> (t, 1))"
    and acq_own: "inv s \<Longrightarrow> p \<in> keys \<Longrightarrow> holder s p = Some (t, d) \<Longrightarrow> d < limit \<Longrightarrow>
      \<exists>s'. acq t p s = Some s' \<and> inv s' \<and> holder s' = (holder s)(p \<mapsto> (t, Suc d))"
    and acq_other: "inv s \<Longrightarrow> p \<in> keys \<Longrightarrow> holder s p = Some (u, d) \<Longrightarrow> u \<noteq> t \<Longrightarrow> acq t p s = None"
    and rel_own: "inv s \<Longrightarrow> p \<in> keys \<Longrightarrow> holder s p = Some (t, Suc d) \<Longrightarrow>
      inv (rel t p s) \<and> holder (rel t p s) = (holder s)(p := if d = 0 then None else Some (t, d))"
    and rel_other: "inv s \<Longrightarrow> p \<in> keys \<Longrightarrow> map_option fst (holder s p) \<noteq> Some t \<Longrightarrow> rel t p s = s"
begin

text \<open>The ghost count of each thread's acquires minus its releases agrees with the holder.\<close>

definition agree :: "'s \<Rightarrow> ('t \<Rightarrow> 'p \<Rightarrow> nat) \<Rightarrow> bool" where
  "agree s h \<longleftrightarrow> inv s \<and> (\<forall>p t. h t p =
     (case holder s p of Some (u, d) \<Rightarrow> if u = t then d else 0 | None \<Rightarrow> 0))"

lemma agree_exclusive:
  assumes "agree s h" and "0 < h t p" and "0 < h u p"
  shows "t = u"
proof -
  have h: "h x p = (case holder s p of Some (u, d) \<Rightarrow> if u = x then d else 0 | None \<Rightarrow> 0)" for x
    using assms(1) unfolding agree_def by blast
  show ?thesis
    using assms(2,3) unfolding h by (auto split: option.splits if_splits)
qed

lemma agree_acquire:
  assumes "agree s h" and "p \<in> keys" and "h t p < limit" and "acq t p s = Some s'"
  shows "agree s' (h(t := (h t)(p := Suc (h t p))))"
proof (cases "holder s p")
  case None
  with assms acq_free [of s p t] have "inv s'" "holder s' = (holder s)(p \<mapsto> (t, 1))"
    unfolding agree_def by auto
  with assms None show ?thesis unfolding agree_def by auto
next
  case (Some x)
  obtain u d where x: "x = (u, d)" by (cases x)
  with Some assms acq_other [of s p u d t] have "u = t" unfolding agree_def by auto
  with Some x assms(1) have "h t p = d" unfolding agree_def by auto
  with Some x assms \<open>u = t\<close> acq_own [of s p t d]
  have "inv s'" "holder s' = (holder s)(p \<mapsto> (t, Suc d))" unfolding agree_def by auto
  with assms Some x \<open>u = t\<close> show ?thesis unfolding agree_def by auto
qed

lemma agree_release:
  assumes "agree s h" and "p \<in> keys"
  shows "agree (rel t p s) (h(t := (h t)(p := h t p - 1)))"
proof (cases "map_option fst (holder s p) = Some t")
  case True
  then obtain d where d: "holder s p = Some (t, d)" by auto
  with assms holder_pos [of s p t d] obtain k where k: "d = Suc k"
    unfolding agree_def by (cases d) auto
  with d assms rel_own [of s p t k] have "inv (rel t p s)"
    "holder (rel t p s) = (holder s)(p := if k = 0 then None else Some (t, k))"
    unfolding agree_def by auto
  with assms d k show ?thesis unfolding agree_def by auto
next
  case False
  with assms have "rel t p s = s" by (intro rel_other) (auto simp: agree_def)
  moreover have "h t p = 0"
    using assms(1) False unfolding agree_def by (auto split: option.split)
  ultimately show ?thesis using assms(1) by (simp add: fun_upd_idem)
qed

lemma agree_enabled:
  assumes "agree s h" and "p \<in> keys" and "h t p < limit"
  shows "acq t p s \<noteq> None \<longleftrightarrow> (\<forall>u. u \<noteq> t \<longrightarrow> h u p = 0)"
proof (cases "holder s p")
  case None
  with assms acq_free [of s p t] show ?thesis unfolding agree_def by auto
next
  case (Some x)
  obtain u d where x: "x = (u, d)" by (cases x)
  show ?thesis
  proof (cases "u = t")
    case True
    with Some x assms have "h t p = d" unfolding agree_def by auto
    with True Some x assms acq_own [of s p t d] show ?thesis unfolding agree_def by auto
  next
    case False
    with Some x assms have "h u p = d" "0 < d" using holder_pos [of s p u d] unfolding agree_def by auto
    with False Some x assms acq_other [of s p u d t] show ?thesis unfolding agree_def by fastforce
  qed
qed

end

section \<open>A bounded first-in first-out queue that may merge\<close>

text \<open>
  The write-command queue of a unit as the producers and the poll thread see it. \<open>items\<close> is
  the list the queue stands for, oldest first; \<open>merge l c\<close> is the list after \<open>c\<close> has been
  folded into an element of \<open>l\<close>, when the provider does that; \<open>norm c\<close> is the element
  stored for \<open>c\<close>.
\<close>

locale cmd_fifo =
  fixes push :: "'q \<Rightarrow> 'c \<Rightarrow> bool \<times> 'q"
    and pop :: "'q \<Rightarrow> ('c \<times> 'q) option"
    and items :: "'q \<Rightarrow> 'c list"
    and inv :: "'q \<Rightarrow> bool"
    and accept :: "'c \<Rightarrow> bool"
    and merge :: "'c list \<Rightarrow> 'c \<Rightarrow> 'c list option"
    and norm :: "'c \<Rightarrow> 'c"
    and cap :: nat
  assumes items_cap: "inv q \<Longrightarrow> length (items q) \<le> cap"
    and merge_length: "merge l c = Some l' \<Longrightarrow> length l' = length l"
    and push_inv: "inv q \<Longrightarrow> inv (snd (push q c))"
    and push_refused: "inv q \<Longrightarrow> \<not> accept c \<Longrightarrow> push q c = (False, q)"
    and push_merged: "inv q \<Longrightarrow> accept c \<Longrightarrow> merge (items q) c = Some l \<Longrightarrow>
      fst (push q c) \<and> items (snd (push q c)) = l"
    and push_appended: "inv q \<Longrightarrow> accept c \<Longrightarrow> merge (items q) c = None \<Longrightarrow> length (items q) < cap \<Longrightarrow>
      fst (push q c) \<and> items (snd (push q c)) = items q @ [norm c]"
    and push_full: "inv q \<Longrightarrow> accept c \<Longrightarrow> merge (items q) c = None \<Longrightarrow> length (items q) = cap \<Longrightarrow>
      push q c = (False, q)"
    and pop_empty: "inv q \<Longrightarrow> items q = [] \<Longrightarrow> pop q = None"
    and pop_first: "inv q \<Longrightarrow> items q = c # cs \<Longrightarrow> \<exists>q'. pop q = Some (c, q') \<and> inv q' \<and> items q' = cs"
begin

lemma pop_None_iff: "inv q \<Longrightarrow> pop q = None \<longleftrightarrow> items q = []"
  using pop_empty pop_first by (cases "items q") fastforce+

lemma pop_SomeD: "inv q \<Longrightarrow> pop q = Some (c, q') \<Longrightarrow> inv q' \<and> items q = c # items q'"
  using pop_empty pop_first by (cases "items q") fastforce+

lemma push_items_cases:
  assumes "inv q"
  obtains (refused) "\<not> accept c" and "push q c = (False, q)"
  | (merged) l where "accept c" and "merge (items q) c = Some l" and "fst (push q c)"
      and "items (snd (push q c)) = l"
  | (appended) "accept c" and "merge (items q) c = None" and "length (items q) < cap"
      and "fst (push q c)" and "items (snd (push q c)) = items q @ [norm c]"
  | (full) "accept c" and "merge (items q) c = None" and "length (items q) = cap"
      and "push q c = (False, q)"
proof (cases "accept c")
  case False
  then show ?thesis using push_refused [OF assms False] refused by blast
next
  case True
  show ?thesis
  proof (cases "merge (items q) c")
    case None
    consider "length (items q) < cap" | "length (items q) = cap"
      using items_cap [OF assms] by linarith
    then show ?thesis
      using push_appended [OF assms True None] push_full [OF assms True None] appended full
        True None by cases blast+
  next
    case (Some l)
    then show ?thesis using push_merged [OF assms True Some] merged [OF True Some] by blast
  qed
qed

lemma push_ok_iff:
  assumes "inv q"
  shows "fst (push q c) \<longleftrightarrow> accept c \<and> (merge (items q) c \<noteq> None \<or> length (items q) < cap)"
  using assms by (rule push_items_cases [of q c]) auto

text \<open>Popping until the queue is empty yields the items in order, within \<open>cap\<close> pops.\<close>

fun pops :: "nat \<Rightarrow> 'q \<Rightarrow> 'c list \<times> 'q" where
  "pops 0 q = ([], q)"
| "pops (Suc n) q = (case pop q of None \<Rightarrow> ([], q)
     | Some (c, q') \<Rightarrow> (let (cs, q'') = pops n q' in (c # cs, q'')))"

lemma pops_items:
  "inv q \<Longrightarrow> length (items q) \<le> n \<Longrightarrow> fst (pops n q) = items q \<and> items (snd (pops n q)) = []"
proof (induction n arbitrary: q)
  case 0
  then show ?case by simp
next
  case (Suc n)
  show ?case
  proof (cases "items q")
    case Nil
    with Suc.prems show ?thesis by (simp add: pop_empty)
  next
    case (Cons c cs)
    with Suc.prems obtain q' where q': "pop q = Some (c, q')" "inv q'" "items q' = cs"
      using pop_first by blast
    with Suc Cons show ?thesis by (auto split: prod.split) (metis Suc_le_mono fst_conv length_Cons snd_conv)+
  qed
qed

lemma pops_all: "inv q \<Longrightarrow> fst (pops cap q) = items q"
  using pops_items items_cap by blast

text \<open>A property of item lists that merging and appending keep holds after any pushes.\<close>

lemma pushes_keep:
  assumes "inv q" and "I (items q)"
    and "\<And>l c l'. I l \<Longrightarrow> accept c \<Longrightarrow> merge l c = Some l' \<Longrightarrow> I l'"
    and "\<And>l c. I l \<Longrightarrow> accept c \<Longrightarrow> merge l c = None \<Longrightarrow> I (l @ [norm c])"
  shows "inv (fold (\<lambda>c q. snd (push q c)) cs q) \<and> I (items (fold (\<lambda>c q. snd (push q c)) cs q))"
  using assms(1,2)
proof (induction cs arbitrary: q)
  case Nil
  then show ?case by simp
next
  case (Cons c cs)
  from Cons.prems(1) have "I (items (snd (push q c)))"
  proof (rule push_items_cases [of q c])
    show "I (items (snd (push q c)))" if "push q c = (False, q)"
      using that Cons.prems by simp
    show "I (items (snd (push q c)))" if "push q c = (False, q)"
      using that Cons.prems by simp
  qed (use Cons.prems assms(3,4) in auto)
  with Cons push_inv show ?case by simp
qed

end

end
