(* ===== verification/Device_Map.thy ===== *)
theory Device_Map
  imports Modbus_Defs Gateway_Interfaces
begin

text \<open>
  \<^verbatim>\<open>lib/device_map/device_register_map.{h,c}\<close>: the profile tables, the shared register
  pool, the start-up collision check and the access check.

  The pool is a function from the 16-bit index to the slot's value; the code's bounds test
  against \<^verbatim>\<open>INTERNAL_POOL_SIZE\<close> (65535, so index 0xFFFF has no slot) is kept wherever the
  code has it. Profile pointers may be NULL (\<^typ>\<open>'a option\<close>); a NULL \<^verbatim>\<open>table\<close> is
  \<^const>\<open>None\<close>, and \<^verbatim>\<open>table_count\<close> is the length of the table it points to, as every
  profile of the program sets it with \<^verbatim>\<open>ARRAY_SIZE\<close>. Out-parameters are never NULL in the
  program; a read that returns true with \<^verbatim>\<open>*out = v\<close> is \<open>Some v\<close>, false is \<open>None\<close>.
  The reader/writer lock makes each single slot access atomic and is otherwise not visible.
\<close>

section \<open>Data\<close>

abbreviation INTERNAL_POOL_SIZE :: u16 where
  "INTERNAL_POOL_SIZE \<equiv> 65535"

abbreviation DEVICE_REGISTER_MAP_MAX_PROFILES :: nat where
  "DEVICE_REGISTER_MAP_MAX_PROFILES \<equiv> 32"

datatype register_access = ACCESS_RO | ACCESS_RW | ACCESS_WO

record device_register_mapping =
  device_address :: u16
  pool_address :: u16
  access :: register_access
  description :: string

record device_map_profile =
  profile_name :: string
  table :: "device_register_mapping list option"
  read_chunk :: u16

definition rows :: "device_map_profile \<Rightarrow> device_register_mapping list" where
  "rows p = (case table p of None \<Rightarrow> [] | Some t \<Rightarrow> t)"

definition table_count :: "device_map_profile \<Rightarrow> nat" where
  "table_count p = length (rows p)"

type_synonym pool = "u16 \<Rightarrow> u16"

text \<open>The file-scope state: the shared region (\<^const>\<open>None\<close> before the first init) and the
  profiles registered so far, oldest first.\<close>

record device_map_state =
  region :: "pool option"
  registered_profiles :: "device_map_profile list"

section \<open>Lifecycle\<close>

text \<open>\<^verbatim>\<open>mmap\<close> and \<^verbatim>\<open>pthread_rwlock_init\<close> may fail on the first call; the process then
  exits, which is \<^const>\<open>None\<close>.\<close>

definition device_register_map_init ::
  "bool \<Rightarrow> bool \<Rightarrow> device_map_state \<Rightarrow> device_map_state option" where
  "device_register_map_init mmap_ok rwlock_ok s =
     (case region s of
        None \<Rightarrow>
          if \<not> mmap_ok then None
          else if \<not> rwlock_ok then None
          else Some (s\<lparr>region := Some (\<lambda>_. 0), registered_profiles := []\<rparr>)
      | Some _ \<Rightarrow> Some (s\<lparr>region := Some (\<lambda>_. 0), registered_profiles := []\<rparr>))"

text \<open>The three nested loops of the collision check only ever set the flag, so the flag is
  the existence of a colliding pair.\<close>

definition profile_collides :: "device_map_profile list \<Rightarrow> device_map_profile \<Rightarrow> bool" where
  "profile_collides regs p =
     list_ex (\<lambda>m. list_ex (\<lambda>other. list_ex (\<lambda>m'. pool_address m' = pool_address m) (rows other)) regs)
       (rows p)"

definition device_register_map_register_profile ::
  "device_map_profile option \<Rightarrow> device_map_state \<Rightarrow> int \<times> device_map_state" where
  "device_register_map_register_profile profile s =
     (case profile of
        None \<Rightarrow> (-1, s)
      | Some p \<Rightarrow>
          if table p = None then (-1, s)
          else if profile_collides (registered_profiles s) p then (-1, s)
          else if length (registered_profiles s) \<ge> DEVICE_REGISTER_MAP_MAX_PROFILES then (-1, s)
          else (0, s\<lparr>registered_profiles := registered_profiles s @ [p]\<rparr>))"

section \<open>Core mapping\<close>

text \<open>The binary search of \<^verbatim>\<open>device_find_slot\<close>: \<^verbatim>\<open>low\<close> and \<^verbatim>\<open>high\<close> as in the code.\<close>

function find_slot_loop ::
  "device_register_mapping list \<Rightarrow> u16 \<Rightarrow> nat \<Rightarrow> nat \<Rightarrow> device_register_mapping option" where
  "find_slot_loop t a low high =
     (if low < high then
        let mid = low + (high - low) div 2; addr = device_address (t ! mid)
        in if addr = a then Some (t ! mid)
           else if addr < a then find_slot_loop t a (mid + 1) high
           else find_slot_loop t a low mid
      else None)"
  by pat_completeness auto
termination
  by (relation "measure (\<lambda>(t, a, low, high). high - low)") auto

declare find_slot_loop.simps [simp del]

definition device_find_slot ::
  "device_map_profile option \<Rightarrow> u16 \<Rightarrow> device_register_mapping option" where
  "device_find_slot profile a =
     (case profile of
        None \<Rightarrow> None
      | Some p \<Rightarrow>
          if table p = None \<or> table_count p = 0 then None
          else find_slot_loop (rows p) a 0 (table_count p))"

definition pool_read_register :: "pool \<Rightarrow> u16 \<Rightarrow> u16 option" where
  "pool_read_register pl a = (if a \<ge> INTERNAL_POOL_SIZE then None else Some (pl a))"

definition pool_write_register :: "pool \<Rightarrow> u16 \<Rightarrow> u16 \<Rightarrow> bool \<times> pool" where
  "pool_write_register pl a v =
     (if a \<ge> INTERNAL_POOL_SIZE then (False, pl) else (True, pl(a := v)))"

text \<open>The loop of \<^verbatim>\<open>device_map_read_to_pool\<close>: iteration \<open>i\<close> with \<open>k\<close> registers left.\<close>

fun read_to_pool_loop ::
  "device_map_profile \<Rightarrow> u16 list \<Rightarrow> u16 \<Rightarrow> nat \<Rightarrow> nat \<Rightarrow> pool \<Rightarrow> pool" where
  "read_to_pool_loop p buf start i 0 pl = pl"
| "read_to_pool_loop p buf start i (Suc k) pl =
     (let dev_addr = start + of_nat i
      in case device_find_slot (Some p) dev_addr of
           None \<Rightarrow> read_to_pool_loop p buf start (Suc i) k pl
         | Some m \<Rightarrow>
             if pool_address m \<ge> INTERNAL_POOL_SIZE
             then read_to_pool_loop p buf start (Suc i) k pl
             else read_to_pool_loop p buf start (Suc i) k (pl(pool_address m := buf ! i)))"

definition device_map_read_to_pool ::
  "device_map_profile option \<Rightarrow> u16 list option \<Rightarrow> u16 \<Rightarrow> int \<Rightarrow> pool \<Rightarrow> pool" where
  "device_map_read_to_pool profile read_buffer start read_count pl =
     (case (profile, read_buffer) of
        (Some p, Some buf) \<Rightarrow>
          if read_count \<le> 0 \<or> table p = None \<or> table_count p = 0 then pl
          else read_to_pool_loop p buf start 0 (nat read_count) pl
      | _ \<Rightarrow> pl)"

section \<open>Profile-assisted access\<close>

definition pool_read_by_device_addr ::
  "device_map_profile option \<Rightarrow> pool \<Rightarrow> u16 \<Rightarrow> u16 option" where
  "pool_read_by_device_addr profile pl a =
     (case profile of
        None \<Rightarrow> None
      | Some _ \<Rightarrow>
          (case device_find_slot profile a of
             None \<Rightarrow> None
           | Some m \<Rightarrow> pool_read_register pl (pool_address m)))"

definition pool_read_masked_by_device_addr ::
  "device_map_profile option \<Rightarrow> pool \<Rightarrow> u16 \<Rightarrow> u16 \<Rightarrow> u16 option" where
  "pool_read_masked_by_device_addr profile pl a msk =
     (case profile of
        None \<Rightarrow> None
      | Some _ \<Rightarrow>
          (case pool_read_by_device_addr profile pl a of
             None \<Rightarrow> None
           | Some raw \<Rightarrow> Some (raw AND msk)))"

definition pool_write_by_device_addr ::
  "device_map_profile option \<Rightarrow> pool \<Rightarrow> u16 \<Rightarrow> u16 \<Rightarrow> bool \<times> pool" where
  "pool_write_by_device_addr profile pl a v =
     (case profile of
        None \<Rightarrow> (False, pl)
      | Some _ \<Rightarrow>
          (case device_find_slot profile a of
             None \<Rightarrow> (False, pl)
           | Some m \<Rightarrow> pool_write_register pl (pool_address m) v))"

section \<open>Access check\<close>

text \<open>
  The loop over \<^verbatim>\<open>uint16_t pa\<close> runs while \<^verbatim>\<open>pa <= pool_end\<close> and increments a 16-bit
  counter, so it need not end: the loop is a partial function whose \<^const>\<open>None\<close> is "does
  not return". The inner loop stops at the first row of the pool address.
\<close>

partial_function (option) access_loop ::
  "device_register_mapping list \<Rightarrow> register_access \<Rightarrow> u16 \<Rightarrow> u16 \<Rightarrow> u8 option" where
  "access_loop t req pool_end pa =
     (if pa \<le> pool_end then
        (case List.find (\<lambda>m. pool_address m = pa) t of
           None \<Rightarrow> Some MODBUS_EX_ILLEGAL_DATA_ADDRESS
         | Some m \<Rightarrow>
             if req = ACCESS_RO \<and> access m = ACCESS_WO then Some MODBUS_EX_ILLEGAL_FUNCTION
             else if req = ACCESS_WO \<and> access m = ACCESS_RO then Some MODBUS_EX_ILLEGAL_FUNCTION
             else access_loop t req pool_end (pa + 1))
      else Some 0)"

definition check_register_access_range ::
  "device_map_profile option \<Rightarrow> u16 \<Rightarrow> u16 \<Rightarrow> register_access \<Rightarrow> u8 option" where
  "check_register_access_range profile pool_start count req =
     (case profile of
        None \<Rightarrow> Some MODBUS_EX_ILLEGAL_DATA_ADDRESS
      | Some p \<Rightarrow>
          if table p = None \<or> count = 0 then Some MODBUS_EX_ILLEGAL_DATA_ADDRESS
          else access_loop (rows p) req (pool_start + count - 1) pool_start)"


section \<open>The binary search finds exactly the rows of a sorted table\<close>

definition map_sorted :: "device_map_profile \<Rightarrow> bool" where
  "map_sorted p \<longleftrightarrow> sorted_wrt (<) (map device_address (rows p))"

lemma find_slot_loop_sound:
  "high \<le> length t \<Longrightarrow> find_slot_loop t a low high = Some m \<Longrightarrow> m \<in> set t \<and> device_address m = a"
proof (induction t a low high rule: find_slot_loop.induct)
  case (1 t a low high)
  let ?mid = "low + (high - low) div 2"
  show ?case
  proof (cases "low < high")
    case True
    then have "?mid < high" by linarith
    with "1.prems" have mid: "?mid < length t" by linarith
    show ?thesis
      using "1.IH" "1.prems" True mid \<open>?mid < high\<close>
      by (auto simp: find_slot_loop.simps [of t a low high] Let_def split: if_splits)
  next
    case False
    with "1.prems" show ?thesis by (simp add: find_slot_loop.simps [of t a low high])
  qed
qed

lemma find_slot_loop_complete:
  "sorted_wrt (<) (map device_address t) \<Longrightarrow> high \<le> length t \<Longrightarrow> low \<le> i \<Longrightarrow> i < high \<Longrightarrow>
   device_address (t ! i) = a \<Longrightarrow> find_slot_loop t a low high = Some (t ! i)"
proof (induction t a low high rule: find_slot_loop.induct)
  case (1 t a low high)
  let ?mid = "low + (high - low) div 2"
  have mono: "j < k \<Longrightarrow> k < length t \<Longrightarrow> device_address (t ! j) < device_address (t ! k)" for j k
    using "1.prems"(1) by (simp add: sorted_wrt_iff_nth_less)
  from "1.prems" have lh: "low < high" and mid: "?mid < high" "low \<le> ?mid" by linarith+
  consider "i < ?mid" | "i = ?mid" | "?mid < i" by linarith
  then show ?case
  proof cases
    case 1
    then have "a < device_address (t ! ?mid)"
      using mono mid "1.prems" by auto
    with lh 1 "1.IH"(2) "1.prems" mid show ?thesis
      by (subst find_slot_loop.simps) (auto simp: Let_def)
  next
    case 2
    with lh "1.prems" show ?thesis by (subst find_slot_loop.simps) (simp add: Let_def)
  next
    case 3
    then have "device_address (t ! ?mid) < a"
      using mono "1.prems" by auto
    with lh 3 "1.IH"(1) "1.prems" mid show ?thesis
      by (subst find_slot_loop.simps) (auto simp: Let_def)
  qed
qed

lemma rows_not_Nil: "rows p \<noteq> [] \<Longrightarrow> table p \<noteq> None \<and> table_count p \<noteq> 0"
  by (auto simp: rows_def table_count_def split: option.splits)

lemma device_find_slot_sound:
  "device_find_slot (Some p) a = Some m \<Longrightarrow> m \<in> set (rows p) \<and> device_address m = a"
  using find_slot_loop_sound [of "length (rows p)" "rows p" a 0 m]
  by (auto simp: device_find_slot_def table_count_def split: if_splits)

lemma device_find_slot_row:
  assumes "map_sorted p" and "m \<in> set (rows p)"
  shows "device_find_slot (Some p) (device_address m) = Some m"
proof -
  from assms(2) obtain i where "i < length (rows p)" and "rows p ! i = m"
    by (auto simp: in_set_conv_nth)
  moreover from this have "rows p \<noteq> []" by auto
  ultimately show ?thesis
    using assms find_slot_loop_complete [of "rows p" "length (rows p)" 0 i] rows_not_Nil [of p]
    by (auto simp: device_find_slot_def map_sorted_def table_count_def)
qed

interpretation slots: keyed_lookup
  "\<lambda>p. device_find_slot (Some p)" rows device_address map_sorted
  by unfold_locales (fact device_find_slot_sound, fact device_find_slot_row)

interpretation pool_store: register_store
  pool_read_register pool_write_register "\<lambda>a. a < INTERNAL_POOL_SIZE"
  by unfold_locales (auto simp: pool_read_register_def pool_write_register_def)

text \<open>
  C22. On a table sorted by device address the binary search of device_find_slot returns
  what a linear scan for the first matching row returns, for every address.
\<close>

theorem device_find_slot_linear:
  assumes "map_sorted p"
  shows "device_find_slot (Some p) a = List.find (\<lambda>m. device_address m = a) (rows p)"
proof (cases "device_find_slot (Some p) a")
  case None
  with assms have "a \<notin> device_address ` set (rows p)" by (simp add: slots.lookup_None_iff)
  then have "List.find (\<lambda>m. device_address m = a) (rows p) = None"
    by (auto simp: find_None_ball)
  with None show ?thesis by simp
next
  case (Some m)
  then have "m \<in> set (rows p)" and "device_address m = a"
    by (auto dest: device_find_slot_sound)
  with assms Some show ?thesis
    using find_sorted_unique [of device_address "rows p" m] by (simp add: map_sorted_def)
qed

section \<open>Ingest of a read buffer\<close>

text \<open>A profile whose rows are sorted, use distinct pool slots and stay inside the pool.\<close>

definition profile_wf :: "device_map_profile \<Rightarrow> bool" where
  "profile_wf p \<longleftrightarrow> map_sorted p \<and> distinct (map pool_address (rows p)) \<and>
     list_all (\<lambda>m. pool_address m < INTERNAL_POOL_SIZE) (rows p)"

lemma profile_wf_sorted [simp]: "profile_wf p \<Longrightarrow> map_sorted p"
  by (simp add: profile_wf_def)

lemma profile_wf_pool: "profile_wf p \<Longrightarrow> m \<in> set (rows p) \<Longrightarrow> pool_address m < INTERNAL_POOL_SIZE"
  by (simp add: profile_wf_def list_all_iff)

lemma profile_wf_inj:
  "profile_wf p \<Longrightarrow> m \<in> set (rows p) \<Longrightarrow> m' \<in> set (rows p) \<Longrightarrow> pool_address m = pool_address m' \<Longrightarrow> m = m'"
  by (auto simp: profile_wf_def distinct_map inj_on_def)

text \<open>The row, if any, that iteration \<open>j\<close> of the ingest loop stores into.\<close>

definition ingest_row :: "device_map_profile \<Rightarrow> u16 \<Rightarrow> nat \<Rightarrow> device_register_mapping option" where
  "ingest_row p start j = device_find_slot (Some p) (start + of_nat j)"

definition ingest_writes :: "device_map_profile \<Rightarrow> u16 list \<Rightarrow> u16 \<Rightarrow> nat \<Rightarrow> nat \<Rightarrow> (u16 \<times> u16) list" where
  "ingest_writes p buf start i k =
     map (\<lambda>j. (pool_address (the (ingest_row p start j)), buf ! j))
       (filter (\<lambda>j. ingest_row p start j \<noteq> None) [i..<i + k])"

lemma read_to_pool_loop_writes:
  "read_to_pool_loop p buf start i k pl =
     fold (\<lambda>(a, v) s. snd (pool_write_register s a v)) (ingest_writes p buf start i k) pl"
proof (induction k arbitrary: i pl)
  case 0
  then show ?case by (simp add: ingest_writes_def)
next
  case (Suc k)
  have "ingest_writes p buf start i (Suc k) =
      (if ingest_row p start i \<noteq> None
       then [(pool_address (the (ingest_row p start i)), buf ! i)] else []) @
      ingest_writes p buf start (Suc i) k"
    by (simp add: ingest_writes_def upt_conv_Cons del: upt_Suc)
  with Suc show ?case
    by (auto simp: ingest_row_def pool_write_register_def Let_def fun_upd_def
        split: option.splits)
qed

lemma ingest_writes_addr:
  "w \<in> set (ingest_writes p buf start i k) \<longleftrightarrow>
     (\<exists>j m. i \<le> j \<and> j < i + k \<and> ingest_row p start j = Some m \<and> w = (pool_address m, buf ! j))"
  by (force simp: ingest_writes_def image_iff)

lemma ingest_row_iff:
  "map_sorted p \<Longrightarrow> ingest_row p start j = Some m \<longleftrightarrow>
     m \<in> set (rows p) \<and> device_address m = start + of_nat j"
  by (auto simp: ingest_row_def slots.lookup_Some_iff)

lemma ingest_writes_distinct:
  assumes "profile_wf p" and "k \<le> 65536"
  shows "distinct (map fst (ingest_writes p buf start 0 k))"
proof -
  have "inj_on (\<lambda>j. pool_address (the (ingest_row p start j)))
          {j. j < k \<and> ingest_row p start j \<noteq> None}"
  proof (rule inj_onI, clarsimp)
    fix j j' m m'
    assume j: "j < k" "j' < k" "ingest_row p start j = Some m" "ingest_row p start j' = Some m'"
      and "pool_address m = pool_address m'"
    with assms have "m = m'" by (auto simp: ingest_row_iff intro: profile_wf_inj)
    with j assms have "(of_nat j :: u16) = of_nat j'" by (auto simp: ingest_row_iff)
    with j assms show "j = j'" by (simp add: of_nat_u16_inj)
  qed
  then show ?thesis
    by (auto simp: ingest_writes_def distinct_map comp_def intro!: inj_on_subset)
qed

lemma read_to_pool_exact:
  assumes wf: "profile_wf p" and n: "n < 65536" and buf: "n \<le> length buf"
  shows "device_map_read_to_pool (Some p) (Some buf) start (int n) pl a =
    (case List.find (\<lambda>m. pool_address m = a) (rows p) of
       None \<Rightarrow> pl a
     | Some m \<Rightarrow>
         if unat (device_address m - start) < n then buf ! unat (device_address m - start)
         else pl a)"
proof -
  let ?ws = "ingest_writes p buf start 0 n"
  let ?r = "device_map_read_to_pool (Some p) (Some buf) start (int n) pl"
  have r: "?r = fold (\<lambda>(a, v) s. snd (pool_write_register s a v)) ?ws pl"
  proof (cases "n = 0 \<or> rows p = []")
    case True
    then have "?ws = []" by (auto simp: ingest_writes_def ingest_row_def device_find_slot_def table_count_def)
    with True show ?thesis
      by (auto simp: device_map_read_to_pool_def table_count_def)
  next
    case False
    then show ?thesis using rows_not_Nil [of p]
      by (auto simp: device_map_read_to_pool_def read_to_pool_loop_writes)
  qed
  have other: "?r a = pl a" if "a \<notin> fst ` set ?ws"
    using pool_store.rd_writes_other [OF that, of pl]
    by (cases "a < INTERNAL_POOL_SIZE")
      (auto simp: r pool_read_register_def ingest_writes_addr pool_write_register_def
        not_le intro!: fold_inv [where P = "\<lambda>s. s a = pl a"] split: if_splits)
  show ?thesis
  proof (cases "List.find (\<lambda>m. pool_address m = a) (rows p)")
    case None
    then have "a \<notin> fst ` set ?ws"
      using wf by (auto simp: ingest_writes_addr ingest_row_iff find_None_ball)
    with None other show ?thesis by simp
  next
    case (Some m)
    then have m: "m \<in> set (rows p)" "pool_address m = a" by (auto dest: find_SomeD)
    let ?j = "unat (device_address m - start)"
    show ?thesis
    proof (cases "?j < n")
      case True
      have "ingest_row p start ?j = Some m"
        using wf m by (simp add: ingest_row_iff)
      with True m have "(a, buf ! ?j) \<in> set ?ws" by (auto simp: ingest_writes_addr)
      then have "pool_read_register ?r a = Some (buf ! ?j)"
        unfolding r using wf m n
        by (intro pool_store.rd_writes_distinct ingest_writes_distinct)
          (auto dest: profile_wf_pool)
      with Some True show ?thesis by (simp add: pool_read_register_def split: if_splits)
    next
      case False
      have "a \<notin> fst ` set ?ws"
      proof
        assume "a \<in> fst ` set ?ws"
        then obtain j m' where j: "j < n" "ingest_row p start j = Some m'" "pool_address m' = a"
          by (auto simp: ingest_writes_addr)
        with wf m have "m' = m" by (auto simp: ingest_row_iff intro: profile_wf_inj)
        with j wf have "device_address m - start = of_nat j" by (simp add: ingest_row_iff)
        with j n False show False by simp
      qed
      with Some False other show ?thesis by simp
    qed
  qed
qed

text \<open>
  device_map_read_to_pool stores register i of the buffer in the slot of the row whose
  device address is start + i (with the 16-bit wrap-around of the address), for every row
  of the profile in the window, and changes no other slot of the pool.
\<close>

theorem device_map_read_to_pool_exact:
  assumes "profile_wf p" and "n < 65536" and "n \<le> length buf"
  shows "device_map_read_to_pool (Some p) (Some buf) start (int n) pl a =
    (case List.find (\<lambda>m. pool_address m = a) (rows p) of
       None \<Rightarrow> pl a
     | Some m \<Rightarrow>
         if unat (device_address m - start) < n then buf ! unat (device_address m - start)
         else pl a)"
  using assms by (rule read_to_pool_exact)

section \<open>Access check\<close>

text \<open>What the check says about one pool address: 0, or the exception of the first row.\<close>

definition access_verdict :: "device_map_profile \<Rightarrow> register_access \<Rightarrow> u16 \<Rightarrow> u8" where
  "access_verdict p req pa =
     (case List.find (\<lambda>m. pool_address m = pa) (rows p) of
        None \<Rightarrow> MODBUS_EX_ILLEGAL_DATA_ADDRESS
      | Some m \<Rightarrow>
          if req = ACCESS_RO \<and> access m = ACCESS_WO \<or> req = ACCESS_WO \<and> access m = ACCESS_RO
          then MODBUS_EX_ILLEGAL_FUNCTION else 0)"

fun first_bad :: "device_map_profile \<Rightarrow> register_access \<Rightarrow> u16 \<Rightarrow> nat \<Rightarrow> u8" where
  "first_bad p req pa 0 = 0"
| "first_bad p req pa (Suc k) =
     (if access_verdict p req pa \<noteq> 0 then access_verdict p req pa
      else first_bad p req (pa + 1) k)"

lemma first_bad_0_iff: "first_bad p req pa k = 0 \<longleftrightarrow> (\<forall>j<k. access_verdict p req (pa + of_nat j) = 0)"
proof (induction k arbitrary: pa)
  case (Suc k)
  have "(\<forall>j<Suc k. access_verdict p req (pa + of_nat j) = 0) \<longleftrightarrow>
      access_verdict p req pa = 0 \<and> (\<forall>j<k. access_verdict p req (pa + 1 + of_nat j) = 0)"
    by (auto simp: All_less_Suc2 algebra_simps)
  with Suc show ?case by simp
qed simp

lemma access_loop_unfold:
  "access_loop (rows p) req e pa =
     (if pa \<le> e then
        if access_verdict p req pa \<noteq> 0 then Some (access_verdict p req pa)
        else access_loop (rows p) req e (pa + 1)
      else Some 0)"
  by (subst access_loop.simps) (auto simp: access_verdict_def split: option.splits)

lemma access_loop_first_bad:
  assumes "unat pa + k \<le> 65535" and "unat e + 1 = unat pa + k"
  shows "access_loop (rows p) req e pa = Some (first_bad p req pa k)"
  using assms
proof (induction k arbitrary: pa)
  case 0
  then have "\<not> pa \<le> e" by (simp add: word_le_nat_alt)
  then show ?case by (simp add: access_loop_unfold [of p req e pa])
next
  case (Suc k)
  have "unat (pa + 1) = unat pa + 1"
    using Suc.prems by (simp add: unat_word_ariths)
  moreover have "pa \<le> e" using Suc.prems by (simp add: word_le_nat_alt)
  ultimately show ?case
    using Suc.IH [of "pa + 1"] Suc.prems by (simp add: access_loop_unfold [of p req e pa])
qed

lemma unat_range_end:
  assumes "count \<noteq> (0 :: u16)"
  shows "unat (start + count - 1) = (unat start + unat count - 1) mod 65536"
proof -
  from assms have "0 < unat count" by (simp add: unat_gt_0)
  have "unat (start + (count - 1)) = (unat start + unat (count - 1)) mod 65536"
    using unat_word_ariths(1) [of start "count - 1"] by simp
  also have "unat (count - 1) = unat count - 1"
    using assms by (rule unat_minus_one)
  finally show ?thesis
    using \<open>0 < unat count\<close> by (simp add: add_diff_eq)
qed

lemma unat_u16_pos: "count \<noteq> (0 :: u16) \<Longrightarrow> 0 < unat count"
  by (simp add: unat_gt_0)

text \<open>
  For a range that ends below pool index 0xFFFF, check_register_access_range returns,
  and its result is the exception code of the first offending register in the range, or 0
  when every register is mapped and permits the operation.
\<close>

theorem check_register_access_range_first_bad:
  assumes "table p \<noteq> None" and "count \<noteq> 0" and "unat start + unat count \<le> 65535"
  shows "check_register_access_range (Some p) start count req =
    Some (first_bad p req start (unat count))"
proof -
  have "unat (start + count - 1) + 1 = unat start + unat count"
    using assms(2,3) unat_u16_pos [of count] by (simp add: unat_range_end)
  with assms show ?thesis
    by (auto simp: check_register_access_range_def access_loop_first_bad)
qed

text \<open>
  A range whose last address wraps around 16 bits is accepted without any register
  being looked at: the loop bound is below the start, so the check answers 0 although
  none of the addresses need be mapped.
\<close>

theorem check_register_access_range_wrap:
  assumes "table p \<noteq> None" and "unat start + unat count > 65536"
  shows "check_register_access_range (Some p) start count req = Some 0"
proof -
  have c: "count \<noteq> 0"
  proof
    assume "count = 0"
    with assms(2) have "65536 < unat start" by simp
    with unat_u16_lt [of start] show False by linarith
  qed
  have "(unat start + unat count - 1) mod 65536 < unat start"
  proof -
    have "(A + B - 1) mod 65536 < A" if "A < 65536" "B < 65536" "A + B > 65536" for A B :: nat
    proof -
      have "(A + B - 1) mod 65536 = (A + B - 1 - 65536) mod 65536"
        using that by (intro le_mod_geq) linarith
      also have "\<dots> = A + B - 1 - 65536"
        using that by (intro mod_less) linarith
      finally show ?thesis using that by linarith
    qed
    then show ?thesis using assms(2) by simp
  qed
  with c have "\<not> start \<le> start + count - 1"
    by (simp add: word_le_nat_alt unat_range_end)
  with assms c show ?thesis
    by (simp add: check_register_access_range_def access_loop.simps)
qed

section \<open>The collision check\<close>

definition profiles_disjoint :: "device_map_profile \<Rightarrow> device_map_profile \<Rightarrow> bool" where
  "profiles_disjoint p q \<longleftrightarrow>
     pool_address ` set (rows p) \<inter> pool_address ` set (rows q) = {}"

definition registry_ok :: "device_map_state \<Rightarrow> bool" where
  "registry_ok s \<longleftrightarrow> length (registered_profiles s) \<le> DEVICE_REGISTER_MAP_MAX_PROFILES \<and>
     sorted_wrt profiles_disjoint (registered_profiles s)"

lemma profile_collides_iff:
  "profile_collides regs p \<longleftrightarrow> (\<exists>q\<in>set regs. \<not> profiles_disjoint q p)"
  by (auto simp: profile_collides_def profiles_disjoint_def list_ex_iff)

lemma registry_ok_init:
  "device_register_map_init m r s = Some s' \<Longrightarrow> registry_ok s' \<and> region s' = Some (\<lambda>_. 0)"
  by (auto simp: device_register_map_init_def registry_ok_def split: option.splits if_splits)

text \<open>
  Registering a profile succeeds exactly when it has a table, its pool addresses are
  disjoint from those of every profile registered before, and a tracking slot is free;
  otherwise the result is -1 and the registry is unchanged. The registered profiles thus
  stay pairwise disjoint.
\<close>

theorem register_profile_disjoint:
  assumes ok: "registry_ok s"
    and reg: "device_register_map_register_profile (Some p) s = (r, s')"
  shows "registry_ok s' \<and>
    (r = 0 \<longleftrightarrow> table p \<noteq> None \<and> (\<forall>q\<in>set (registered_profiles s). profiles_disjoint q p) \<and>
       length (registered_profiles s) < DEVICE_REGISTER_MAP_MAX_PROFILES) \<and>
    (r = 0 \<longrightarrow> registered_profiles s' = registered_profiles s @ [p]) \<and>
    (r \<noteq> 0 \<longrightarrow> r = -1 \<and> s' = s)"
  using assms
  by (auto simp: device_register_map_register_profile_def registry_ok_def profile_collides_iff
      sorted_wrt_append split: if_splits)

lemma register_profile_twice:
  assumes "p \<in> set (registered_profiles s)" and "rows p \<noteq> []"
  shows "device_register_map_register_profile (Some p) s = (-1, s)"
  using assms
  by (auto simp: device_register_map_register_profile_def profile_collides_iff profiles_disjoint_def)

end
