(* ===== verification/Device_Profiles.thy ===== *)
theory Device_Profiles
  imports Device_Map
begin

text \<open>
  \<^verbatim>\<open>devices/inverter/inverter_map.{h,c}\<close> and \<^verbatim>\<open>devices/ups/ups_map.{h,c}\<close>: the two register
  tables, their profiles, the register constants the modules and bridges use, and the
  merge whitelists of the command queues. The lemmas state what the generic mapping
  engine needs of the tables, by evaluation of the tables themselves.
\<close>

abbreviation map_row ::
  "u16 \<Rightarrow> u16 \<Rightarrow> register_access \<Rightarrow> string \<Rightarrow> device_register_mapping" where
  "map_row d p a s \<equiv>
     \<lparr>device_address = d, pool_address = p, access = a, description = s\<rparr>"

section \<open>Inverter1\<close>

definition inverter1_mapping_table :: "device_register_mapping list" where
  "inverter1_mapping_table = [
     map_row 0x0006 0xA000 ACCESS_RO ''firmware_version'',
     map_row 0x0014 0xA100 ACCESS_RW ''frequency_cmd_source'',
     map_row 0x0015 0xA101 ACCESS_RW ''run_cmd_source'',
     map_row 0x010A 0xA102 ACCESS_RW ''frequency_upper_limit'',
     map_row 0x010B 0xA103 ACCESS_RW ''frequency_lower_limit'',
     map_row 0x010C 0xA104 ACCESS_RW ''acceleration_1'',
     map_row 0x010D 0xA105 ACCESS_RW ''deceleration_1'',
     map_row 0x0118 0xA10E ACCESS_RW ''s_speed_start'',
     map_row 0x0119 0xA10F ACCESS_RW ''s_speed_end'',
     map_row 0x011A 0xA110 ACCESS_RW ''s_deceleration_start'',
     map_row 0x011B 0xA111 ACCESS_RW ''s_deceleration_end'',
     map_row 0x0900 0xA106 ACCESS_RW ''slave_id'',
     map_row 0x0901 0xA107 ACCESS_RW ''baud_rate'',
     map_row 0x0902 0xA108 ACCESS_RW ''modbust_error_handle'',
     map_row 0x0903 0xA109 ACCESS_RW ''modbust_timeout_setting'',
     map_row 0x0904 0xA10A ACCESS_RW ''modbus_serial_format'',
     map_row 0x0D00 0xA112 ACCESS_RW ''parameter_mode'',
     map_row 0x2000 0xA10B ACCESS_RW ''operation_commands'',
     map_row 0x2001 0xA10C ACCESS_RW ''frequency_write_commands'',
     map_row 0x2002 0xA10D ACCESS_RW ''fault_control_commands'',
     map_row 0x2100 0xA002 ACCESS_RO ''fault_warning_code'',
     map_row 0x2101 0xA003 ACCESS_RO ''inverter_operating_status'',
     map_row 0x2102 0xA004 ACCESS_RO ''frequency_read_command'',
     map_row 0x2103 0xA005 ACCESS_RO ''output_frequency'',
     map_row 0x2104 0xA006 ACCESS_RO ''output_current'',
     map_row 0x2105 0xA007 ACCESS_RO ''dc_bus_voltage'',
     map_row 0x210C 0xA008 ACCESS_RO ''motor_actual_speed'',
     map_row 0x220A 0xA009 ACCESS_RO ''pid_feedback_value'']"

definition inverter1_profile :: device_map_profile where
  "inverter1_profile = \<lparr>profile_name = ''Inverter1'', table = Some inverter1_mapping_table, read_chunk = 20\<rparr>"

abbreviation int_frequency_cmd_source_reg :: u16 where
  "int_frequency_cmd_source_reg \<equiv> 0xA100"

abbreviation int_run_cmd_source_reg :: u16 where
  "int_run_cmd_source_reg \<equiv> 0xA101"

abbreviation int_frequency_upper_limit_reg :: u16 where
  "int_frequency_upper_limit_reg \<equiv> 0xA102"

abbreviation int_frequency_lower_limit_reg :: u16 where
  "int_frequency_lower_limit_reg \<equiv> 0xA103"

abbreviation int_acceleration_1_reg :: u16 where
  "int_acceleration_1_reg \<equiv> 0xA104"

abbreviation int_deceleration_1_reg :: u16 where
  "int_deceleration_1_reg \<equiv> 0xA105"

abbreviation int_slave_id_reg :: u16 where
  "int_slave_id_reg \<equiv> 0xA106"

abbreviation int_baud_rate_reg :: u16 where
  "int_baud_rate_reg \<equiv> 0xA107"

abbreviation int_modbust_error_handle_reg :: u16 where
  "int_modbust_error_handle_reg \<equiv> 0xA108"

abbreviation int_modbust_timeout_setting_reg :: u16 where
  "int_modbust_timeout_setting_reg \<equiv> 0xA109"

abbreviation int_modbus_serial_format_reg :: u16 where
  "int_modbus_serial_format_reg \<equiv> 0xA10A"

abbreviation int_operation_cmd_reg :: u16 where
  "int_operation_cmd_reg \<equiv> 0xA10B"

abbreviation int_frequency_write_cmd_reg :: u16 where
  "int_frequency_write_cmd_reg \<equiv> 0xA10C"

abbreviation int_fault_control_cmd_reg :: u16 where
  "int_fault_control_cmd_reg \<equiv> 0xA10D"

abbreviation int_firmware_version_reg :: u16 where
  "int_firmware_version_reg \<equiv> 0xA000"

abbreviation int_fault_warning_code_reg :: u16 where
  "int_fault_warning_code_reg \<equiv> 0xA002"

abbreviation int_operation_status_reg :: u16 where
  "int_operation_status_reg \<equiv> 0xA003"

abbreviation int_frequency_read_cmd_reg :: u16 where
  "int_frequency_read_cmd_reg \<equiv> 0xA004"

abbreviation int_out_frequency_reg :: u16 where
  "int_out_frequency_reg \<equiv> 0xA005"

abbreviation int_out_current_reg :: u16 where
  "int_out_current_reg \<equiv> 0xA006"

abbreviation int_dc_bus_voltage_reg :: u16 where
  "int_dc_bus_voltage_reg \<equiv> 0xA007"

abbreviation int_motor_actual_speed_reg :: u16 where
  "int_motor_actual_speed_reg \<equiv> 0xA008"

abbreviation int_pid_feedback_value_reg :: u16 where
  "int_pid_feedback_value_reg \<equiv> 0xA009"

abbreviation int_inverter_init_flag_reg :: u16 where
  "int_inverter_init_flag_reg \<equiv> 0xA0F0"

abbreviation int_inverter_connection_status_reg :: u16 where
  "int_inverter_connection_status_reg \<equiv> 0xA0F1"

abbreviation dev_frequency_cmd_source_reg :: u16 where
  "dev_frequency_cmd_source_reg \<equiv> 0x0014"

abbreviation dev_run_cmd_source_reg :: u16 where
  "dev_run_cmd_source_reg \<equiv> 0x0015"

abbreviation dev_frequency_upper_limit_reg :: u16 where
  "dev_frequency_upper_limit_reg \<equiv> 0x010A"

abbreviation dev_frequency_lower_limit_reg :: u16 where
  "dev_frequency_lower_limit_reg \<equiv> 0x010B"

abbreviation dev_acceleration_reg :: u16 where
  "dev_acceleration_reg \<equiv> 0x010C"

abbreviation dev_deceleration_reg :: u16 where
  "dev_deceleration_reg \<equiv> 0x010D"

abbreviation dev_s_speed_start_reg :: u16 where
  "dev_s_speed_start_reg \<equiv> 0x0118"

abbreviation dev_s_speed_end_reg :: u16 where
  "dev_s_speed_end_reg \<equiv> 0x0119"

abbreviation dev_s_deceleration_start_reg :: u16 where
  "dev_s_deceleration_start_reg \<equiv> 0x011A"

abbreviation dev_s_deceleration_end_reg :: u16 where
  "dev_s_deceleration_end_reg \<equiv> 0x011B"

abbreviation dev_slave_id :: u16 where
  "dev_slave_id \<equiv> 0x0900"

abbreviation dev_baud_rate :: u16 where
  "dev_baud_rate \<equiv> 0x0901"

abbreviation dev_mb_error_handle_reg :: u16 where
  "dev_mb_error_handle_reg \<equiv> 0x0902"

abbreviation dev_mb_timeout_reg :: u16 where
  "dev_mb_timeout_reg \<equiv> 0x0903"

abbreviation dev_mb_serial_setting_reg :: u16 where
  "dev_mb_serial_setting_reg \<equiv> 0x0904"

abbreviation dev_operation_cmd_reg :: u16 where
  "dev_operation_cmd_reg \<equiv> 0x2000"

abbreviation dev_frequency_cmd_reg :: u16 where
  "dev_frequency_cmd_reg \<equiv> 0x2001"

abbreviation dev_fault_control_cmd_reg :: u16 where
  "dev_fault_control_cmd_reg \<equiv> 0x2002"

text \<open>The bits of the operation (0x2000) and fault control (0x2002) registers.\<close>

abbreviation INVERTER_STOP_BIT :: u16 where
  "INVERTER_STOP_BIT \<equiv> 1"

abbreviation INVERTER_RUN_BIT :: u16 where
  "INVERTER_RUN_BIT \<equiv> 2"

abbreviation INVERTER_ENABLE_ACCELERATION_BIT :: u16 where
  "INVERTER_ENABLE_ACCELERATION_BIT \<equiv> 4096"

abbreviation INVERTER_EF_BIT :: u16 where
  "INVERTER_EF_BIT \<equiv> 1"

abbreviation INVERTER_RESET_BIT :: u16 where
  "INVERTER_RESET_BIT \<equiv> 2"

abbreviation INVERTER_BB_BIT :: u16 where
  "INVERTER_BB_BIT \<equiv> 4"

abbreviation INVERTER_FIRE_MODE_BIT :: u16 where
  "INVERTER_FIRE_MODE_BIT \<equiv> 32"

text \<open>The merge whitelist of the inverter's command queue.\<close>

definition inverter_queue_merge_addrs :: "u16 list" where
  "inverter_queue_merge_addrs = [dev_operation_cmd_reg, dev_frequency_cmd_reg]"

definition inverter_queue_merge_allowed :: "u16 \<Rightarrow> bool" where
  "inverter_queue_merge_allowed a = list_ex (\<lambda>x. x = a) inverter_queue_merge_addrs"

section \<open>UPS1\<close>

definition ups1_mapping_table :: "device_register_mapping list" where
  "ups1_mapping_table = [
     map_row 0x0000 0xA200 ACCESS_RO ''ups_warning_information_1'',
     map_row 0x0001 0xA201 ACCESS_RO ''ups_warning_information_2'',
     map_row 0x0002 0xA202 ACCESS_RO ''ups_warning_information_3'',
     map_row 0x0003 0xA203 ACCESS_RO ''ups_warning_information_4'',
     map_row 0x00BC 0xA204 ACCESS_RO ''ups_p_battery_voltage'',
     map_row 0x00BD 0xA205 ACCESS_RO ''ups_p_battery_discharging_current'',
     map_row 0x00BE 0xA206 ACCESS_RO ''ups_p_battery_charging_current'',
     map_row 0x00BF 0xA207 ACCESS_RO ''ups_battery_capacity'',
     map_row 0x00C0 0xA208 ACCESS_RO ''ups_battery_remain_time'',
     map_row 0x00C1 0xA209 ACCESS_RO ''ups_n_battery_voltage'',
     map_row 0x00C3 0xA20A ACCESS_RO ''ups_n_battery_charging_current'',
     map_row 0x00CB 0xA20B ACCESS_RO ''ups_battery_temperature'',
     map_row 0x00CC 0xA20C ACCESS_RO ''ups_temperature_pfc'',
     map_row 0x00CD 0xA20D ACCESS_RO ''ups_temperature_inv'',
     map_row 0x00CE 0xA20E ACCESS_RO ''ups_temperature_bypass'',
     map_row 0x00CF 0xA20F ACCESS_RO ''ups_max_temperature'',
     map_row 0x00D0 0xA210 ACCESS_RO ''ups_mode_information'',
     map_row 0x00DE 0xA211 ACCESS_RO ''ups_over_temperature_fault_recovery_value'',
     map_row 0x00DF 0xA212 ACCESS_RO ''ups_over_temperature_warning_trigger_value'',
     map_row 0x00E0 0xA213 ACCESS_RO ''ups_over_temperature_warning_recovery_value'',
     map_row 0x02A2 0xA214 ACCESS_RO ''ups_fault_information'',
     map_row 0x0364 0xA215 ACCESS_RO ''ups_battery_shutdown_voltage'',
     map_row 0x036A 0xA216 ACCESS_RO ''ups_battery_low_voltage'',
     map_row 0x03E1 0xA217 ACCESS_RO ''ups_pfc_fw_version_1'',
     map_row 0x03E2 0xA218 ACCESS_RO ''ups_pfc_fw_version_2'',
     map_row 0x03E3 0xA219 ACCESS_RO ''ups_pfc_fw_version_3'',
     map_row 0x03E4 0xA21A ACCESS_RO ''ups_pfc_fw_version_4'',
     map_row 0x03E5 0xA21B ACCESS_RO ''ups_pfc_fw_version_5'',
     map_row 0x03E6 0xA21C ACCESS_RO ''ups_inv_fw_version_1'',
     map_row 0x03E7 0xA21D ACCESS_RO ''ups_inv_fw_version_2'',
     map_row 0x03E8 0xA21E ACCESS_RO ''ups_inv_fw_version_3'',
     map_row 0x03E9 0xA21F ACCESS_RO ''ups_inv_fw_version_4'',
     map_row 0x03EA 0xA220 ACCESS_RO ''ups_inv_fw_version_5'',
     map_row 0x0403 0xA221 ACCESS_RO ''ups_com_fw_version_1'',
     map_row 0x0404 0xA222 ACCESS_RO ''ups_com_fw_version_2'',
     map_row 0x0405 0xA223 ACCESS_RO ''ups_com_fw_version_3'',
     map_row 0x0406 0xA224 ACCESS_RO ''ups_com_fw_version_4'',
     map_row 0x0407 0xA225 ACCESS_RO ''ups_com_fw_version_5'',
     map_row 0x0408 0xA226 ACCESS_RO ''ups_lcd_fw_version_1'',
     map_row 0x0409 0xA227 ACCESS_RO ''ups_lcd_fw_version_2'',
     map_row 0x040A 0xA228 ACCESS_RO ''ups_lcd_fw_version_3'',
     map_row 0x040B 0xA229 ACCESS_RO ''ups_lcd_fw_version_4'',
     map_row 0x040C 0xA22A ACCESS_RO ''ups_lcd_fw_version_5'',
     map_row 0x0412 0xA22B ACCESS_RO ''ups_fbpn_1'',
     map_row 0x0413 0xA22C ACCESS_RO ''ups_fbpn_2'',
     map_row 0x0414 0xA22D ACCESS_RO ''ups_fbpn_3'',
     map_row 0x0415 0xA22E ACCESS_RO ''ups_fbpn_4'',
     map_row 0x0416 0xA22F ACCESS_RO ''ups_fbpn_5'',
     map_row 0x05B0 0xA230 ACCESS_RO ''ups_battery_high_voltage'']"

definition ups1_profile :: device_map_profile where
  "ups1_profile = \<lparr>profile_name = ''UPS1'', table = Some ups1_mapping_table, read_chunk = 50\<rparr>"

abbreviation int_ups_init_flag_reg :: u16 where
  "int_ups_init_flag_reg \<equiv> 0xA2F0"

abbreviation int_ups_connection_status_reg :: u16 where
  "int_ups_connection_status_reg \<equiv> 0xA2F1"

abbreviation dev_ups_shutdown_reg :: u16 where
  "dev_ups_shutdown_reg \<equiv> 0x03AB"

abbreviation dev_ups_restart_reg :: u16 where
  "dev_ups_restart_reg \<equiv> 0x03AE"

abbreviation dev_ups_reboot_verify_reg :: u16 where
  "dev_ups_reboot_verify_reg \<equiv> 0x03DA"

definition ups_queue_merge_allowed :: "u16 \<Rightarrow> bool" where
  "ups_queue_merge_allowed a = False"

section \<open>The tables meet the engine's requirements\<close>

lemma inverter1_rows: "rows inverter1_profile = inverter1_mapping_table"
  by (simp add: rows_def inverter1_profile_def)

lemma ups1_rows: "rows ups1_profile = ups1_mapping_table"
  by (simp add: rows_def ups1_profile_def)

lemma inverter1_table: "table inverter1_profile \<noteq> None"
  by (simp add: inverter1_profile_def)

lemma inverter1_wf: "profile_wf inverter1_profile"
  by (simp add: profile_wf_def map_sorted_def inverter1_rows inverter1_mapping_table_def)

lemma ups1_wf: "profile_wf ups1_profile"
  by (simp add: profile_wf_def map_sorted_def ups1_rows ups1_mapping_table_def)

lemma inverter1_ups1_disjoint: "profiles_disjoint inverter1_profile ups1_profile"
  by (simp add: profiles_disjoint_def inverter1_rows ups1_rows
      inverter1_mapping_table_def ups1_mapping_table_def)

text \<open>Slots of the pool that hold software flags and belong to no register table.\<close>

definition flag_slots :: "u16 list" where
  "flag_slots = [int_inverter_init_flag_reg, int_inverter_connection_status_reg,
     int_ups_init_flag_reg, int_ups_connection_status_reg]"

lemma flag_slots_apart:
  "set flag_slots \<inter> (pool_address ` set (rows inverter1_profile) \<union>
      pool_address ` set (rows ups1_profile)) = {}"
  by (simp add: flag_slots_def inverter1_rows ups1_rows
      inverter1_mapping_table_def ups1_mapping_table_def)

text \<open>
  C33. The two shipped tables are sorted by device address, use distinct pool slots inside
  the pool, share no pool slot with each other or with the software flags, and their read
  chunks are between 1 and the Modbus limit of 125 registers.
\<close>

theorem shipped_profiles_sound:
  "profile_wf inverter1_profile \<and> profile_wf ups1_profile \<and>
   profiles_disjoint inverter1_profile ups1_profile \<and>
   distinct flag_slots \<and>
   set flag_slots \<inter> (pool_address ` set (rows inverter1_profile) \<union>
      pool_address ` set (rows ups1_profile)) = {} \<and>
   0 < read_chunk inverter1_profile \<and> read_chunk inverter1_profile \<le> MODBUS_MAX_READ_REGISTERS \<and>
   0 < read_chunk ups1_profile \<and> read_chunk ups1_profile \<le> MODBUS_MAX_READ_REGISTERS"
  using inverter1_wf ups1_wf inverter1_ups1_disjoint flag_slots_apart
  by (simp add: flag_slots_def inverter1_profile_def ups1_profile_def)

text \<open>Witnesses of the engine's properties on the shipped tables.\<close>

theorem device_find_slot_linear_witness:
  "map_sorted inverter1_profile \<and>
   device_find_slot (Some inverter1_profile) 0x2001 =
     Some (map_row 0x2001 0xA10C ACCESS_RW ''frequency_write_commands'')"
  using inverter1_wf device_find_slot_linear [of inverter1_profile "0x2001"]
  by (simp add: inverter1_rows inverter1_mapping_table_def)

theorem device_map_read_to_pool_exact_witness:
  "device_map_read_to_pool (Some inverter1_profile) (Some [11, 22, 33]) 0x0014 (int 3) (\<lambda>_. 7) 0xA101 = 22"
  using device_map_read_to_pool_exact [OF inverter1_wf, of 3 "[11, 22, 33]" "0x0014" "\<lambda>_. 7" "0xA101"]
  by (simp add: inverter1_rows inverter1_mapping_table_def)

theorem check_register_access_range_first_bad_witness:
  "check_register_access_range (Some inverter1_profile) 0xA100 3 ACCESS_WO = Some 0 \<and>
   check_register_access_range (Some inverter1_profile) 0xA002 2 ACCESS_WO =
     Some MODBUS_EX_ILLEGAL_FUNCTION"
proof -
  have u: "unat (3 :: u16) = Suc (Suc (Suc 0))" "unat (2 :: u16) = Suc (Suc 0)" by simp_all
  have "first_bad inverter1_profile ACCESS_WO 0xA100 (unat (3 :: u16)) = 0"
    unfolding u by (simp add: access_verdict_def inverter1_rows inverter1_mapping_table_def)
  moreover have "first_bad inverter1_profile ACCESS_WO 0xA002 (unat (2 :: u16)) =
      MODBUS_EX_ILLEGAL_FUNCTION"
    unfolding u by (simp add: access_verdict_def inverter1_rows inverter1_mapping_table_def)
  ultimately show ?thesis
    using check_register_access_range_first_bad [of inverter1_profile 3 "0xA100" ACCESS_WO]
      check_register_access_range_first_bad [of inverter1_profile 2 "0xA002" ACCESS_WO]
    by (simp add: inverter1_table)
qed

theorem check_register_access_range_wrap_witness:
  "device_find_slot (Some inverter1_profile) 0xFFFF = None \<and>
   check_register_access_range (Some inverter1_profile) 0xFFFF 2 ACCESS_WO = Some 0"
proof
  have "0xFFFF \<notin> device_address ` set (rows inverter1_profile)"
    by (simp add: inverter1_rows inverter1_mapping_table_def)
  then show "device_find_slot (Some inverter1_profile) 0xFFFF = None"
    using slots.lookup_None_iff [OF profile_wf_sorted [OF inverter1_wf]] by blast
  show "check_register_access_range (Some inverter1_profile) 0xFFFF 2 ACCESS_WO = Some 0"
    using check_register_access_range_wrap [of inverter1_profile "0xFFFF" 2 ACCESS_WO]
    by (simp add: inverter1_table)
qed

theorem register_profile_disjoint_witness:
  "\<exists>s s'. registry_ok s \<and>
     device_register_map_register_profile (Some ups1_profile) s = (0, s') \<and>
     registered_profiles s' = [inverter1_profile, ups1_profile] \<and> registry_ok s'"
proof -
  let ?s = "\<lparr>region = Some (\<lambda>_. 0), registered_profiles = [inverter1_profile]\<rparr>"
  let ?p = "device_register_map_register_profile (Some ups1_profile) ?s"
  have ok: "registry_ok ?s" by (simp add: registry_ok_def)
  have "table ups1_profile \<noteq> None" by (simp add: ups1_profile_def)
  with inverter1_ups1_disjoint register_profile_disjoint [OF ok, of ups1_profile "fst ?p" "snd ?p"]
  have "registry_ok (snd ?p) \<and> fst ?p = 0 \<and>
      registered_profiles (snd ?p) = [inverter1_profile, ups1_profile]" by simp
  with ok show ?thesis by (metis prod.collapse)
qed

end
