(* ===== verification/Gateway_Config.thy ===== *)
theory Gateway_Config
  imports Gateway_Base
begin

text \<open>
  The configuration types of \<^verbatim>\<open>include/config_loader.h\<close> and the timing policy of
  \<^verbatim>\<open>include/modbus_defaults.h\<close>. The RTU and TCP fields of a module entry share union
  storage in the code; every use reads the arm selected by \<^verbatim>\<open>format\<close>, so the record keeps
  the two arms as separate fields.
\<close>

abbreviation MAX_INVERTER_COUNT :: nat where "MAX_INVERTER_COUNT \<equiv> 10"
abbreviation MAX_UPS_COUNT :: nat where "MAX_UPS_COUNT \<equiv> 10"

datatype modbus_format = MODBUS_FORMAT_RTU | MODBUS_FORMAT_TCP

record module_config =
  cfg_name :: string
  enabled :: bool
  modbus_uid :: int
  cfg_format :: modbus_format
  cfg_path :: string
  cfg_baud_rate :: int
  cfg_ip :: string
  cfg_port :: int

text \<open>The zeroed entry of \<^verbatim>\<open>global_config\<close>.\<close>

definition zero_module_config :: module_config where
  "zero_module_config = \<lparr>cfg_name = [], enabled = False, modbus_uid = 0,
     cfg_format = MODBUS_FORMAT_RTU, cfg_path = [], cfg_baud_rate = 0, cfg_ip = [], cfg_port = 0\<rparr>"

text \<open>\<^verbatim>\<open>inverter_count\<close> and \<^verbatim>\<open>ups_count\<close> are the lengths of the two lists.\<close>

record system_config =
  inverter :: "module_config list"
  ups :: "module_config list"

section \<open>Timing and capacity policy\<close>

abbreviation MODBUS_DEFAULT_RECONNECT_DELAY_MS :: u32 where
  "MODBUS_DEFAULT_RECONNECT_DELAY_MS \<equiv> 5000"
abbreviation MODBUS_DEFAULT_COMM_FAIL_THRESHOLD :: int where
  "MODBUS_DEFAULT_COMM_FAIL_THRESHOLD \<equiv> 5"
abbreviation MODBUS_DEFAULT_INTER_SEGMENT_DELAY_US :: nat where
  "MODBUS_DEFAULT_INTER_SEGMENT_DELAY_US \<equiv> 40000"
abbreviation MODBUS_DEFAULT_POST_WRITE_SETTLE_US :: nat where
  "MODBUS_DEFAULT_POST_WRITE_SETTLE_US \<equiv> 70000"
abbreviation MODBUS_DEFAULT_SHUTDOWN_CHECK_INTERVAL_MS :: u32 where
  "MODBUS_DEFAULT_SHUTDOWN_CHECK_INTERVAL_MS \<equiv> 100"
abbreviation MODBUS_DEFAULT_CMD_QUEUE_CAPACITY :: nat where
  "MODBUS_DEFAULT_CMD_QUEUE_CAPACITY \<equiv> 16"
abbreviation MODBUS_DEFAULT_POLL_CYCLE_INTERVAL_MS :: nat where
  "MODBUS_DEFAULT_POLL_CYCLE_INTERVAL_MS \<equiv> 200"

end
