(* ===== verification/Cmd_Queue.thy ===== *)
theory Cmd_Queue
  imports Gateway_Interfaces Gateway_Config Modbus_Defs
begin

text \<open>
  The per-unit write-command queue of \<^verbatim>\<open>src/inverter_module.c\<close> and \<^verbatim>\<open>src/ups_module.c\<close>
  (\<^verbatim>\<open>queue_init\<close>, \<^verbatim>\<open>queue_push\<close>, \<^verbatim>\<open>queue_pop\<close>; the two files have the same code): a
  ring of 16 entries in which a single-register write to an address of the family's merge
  list replaces an entry that is still waiting. Each operation runs under the queue's mutex.
  An entry's \<^verbatim>\<open>values\<close> are the first \<^verbatim>\<open>count\<close> of its array, the only ones ever read.
\<close>

section \<open>Data\<close>

datatype write_mode = WRITE_MODE_AUTO | WRITE_MODE_FC06 | WRITE_MODE_FC16

record write_cmd =
  cmd_addr :: u16
  cmd_values :: "u16 list"
  cmd_count :: u16
  cmd_mode :: write_mode

record cmd_queue =
  entries :: "write_cmd list"
  q_head :: nat
  q_tail :: nat
  q_count :: nat

abbreviation CMD_QUEUE_CAPACITY :: nat where
  "CMD_QUEUE_CAPACITY \<equiv> MODBUS_DEFAULT_CMD_QUEUE_CAPACITY"

section \<open>Operations\<close>

definition queue_init :: cmd_queue where
  "queue_init = \<lparr>entries = replicate CMD_QUEUE_CAPACITY
       \<lparr>cmd_addr = 0, cmd_values = [], cmd_count = 0, cmd_mode = WRITE_MODE_AUTO\<rparr>,
     q_head = 0, q_tail = 0, q_count = 0\<rparr>"

text \<open>The search of \<^verbatim>\<open>queue_push\<close> for a waiting entry of the same address, from \<^verbatim>\<open>head\<close>,
  with the number of entries left to look at.\<close>

definition same_register :: "u16 \<Rightarrow> write_cmd \<Rightarrow> bool" where
  "same_register a e = (cmd_addr e = a \<and> cmd_count e = 1)"

definition replace_value :: "write_mode \<Rightarrow> u16 \<Rightarrow> write_cmd \<Rightarrow> write_cmd" where
  "replace_value m v e = e\<lparr>cmd_mode := m, cmd_values := (cmd_values e)[0 := v]\<rparr>"

fun merge_loop :: "u16 \<Rightarrow> u16 \<Rightarrow> write_mode \<Rightarrow> write_cmd list \<Rightarrow> nat \<Rightarrow> nat \<Rightarrow> write_cmd list option" where
  "merge_loop a v m es idx 0 = None"
| "merge_loop a v m es idx (Suc k) =
     (if same_register a (es ! idx) then Some (es[idx := replace_value m v (es ! idx)])
      else merge_loop a v m es ((idx + 1) mod CMD_QUEUE_CAPACITY) k)"

text \<open>The result is 0 or -1 as in the code. The caller's array holds at least \<open>count\<close>
  values.\<close>

definition queue_push ::
  "(u16 \<Rightarrow> bool) \<Rightarrow> cmd_queue \<Rightarrow> u16 \<Rightarrow> u16 list option \<Rightarrow> u16 \<Rightarrow> write_mode \<Rightarrow> int \<times> cmd_queue" where
  "queue_push merge_allowed q a values count mode =
     (case values of
        None \<Rightarrow> (-1, q)
      | Some vs \<Rightarrow>
          if count = 0 \<or> count > MODBUS_MAX_WRITE_REGISTERS then (-1, q)
          else
            (case (if count = 1 \<and> merge_allowed a
                   then merge_loop a (vs ! 0) mode (entries q) (q_head q) (q_count q) else None) of
               Some es \<Rightarrow> (0, q\<lparr>entries := es\<rparr>)
             | None \<Rightarrow>
                 if q_count q \<ge> CMD_QUEUE_CAPACITY then (-1, q)
                 else (0, q\<lparr>entries := (entries q)[q_tail q :=
                              \<lparr>cmd_addr = a, cmd_values = take (unat count) vs, cmd_count = count,
                               cmd_mode = mode\<rparr>],
                            q_tail := (q_tail q + 1) mod CMD_QUEUE_CAPACITY,
                            q_count := q_count q + 1\<rparr>)))"

text \<open>\<^const>\<open>None\<close> is the result -1 of an empty queue.\<close>

definition queue_pop :: "cmd_queue \<Rightarrow> (write_cmd \<times> cmd_queue) option" where
  "queue_pop q =
     (if q_count q = 0 then None
      else Some (entries q ! q_head q,
             q\<lparr>q_head := (q_head q + 1) mod CMD_QUEUE_CAPACITY, q_count := q_count q - 1\<rparr>))"

section \<open>The list the ring stands for\<close>

definition queue_items :: "cmd_queue \<Rightarrow> write_cmd list" where
  "queue_items q = map (\<lambda>i. entries q ! ((q_head q + i) mod CMD_QUEUE_CAPACITY)) [0..<q_count q]"

definition queue_inv :: "cmd_queue \<Rightarrow> bool" where
  "queue_inv q \<longleftrightarrow> length (entries q) = CMD_QUEUE_CAPACITY \<and> q_head q < CMD_QUEUE_CAPACITY \<and>
     q_count q \<le> CMD_QUEUE_CAPACITY \<and> q_tail q = (q_head q + q_count q) mod CMD_QUEUE_CAPACITY"

fun list_merge :: "u16 \<Rightarrow> u16 \<Rightarrow> write_mode \<Rightarrow> write_cmd list \<Rightarrow> write_cmd list option" where
  "list_merge a v m [] = None"
| "list_merge a v m (e # es) =
     (if same_register a e then Some (replace_value m v e # es)
      else map_option ((#) e) (list_merge a v m es))"

lemma length_queue_items [simp]: "length (queue_items q) = q_count q"
  by (simp add: queue_items_def)

lemma queue_inv_init [gw_inv]: "queue_inv queue_init"
  by (simp add: queue_inv_def queue_init_def)

lemma queue_items_init [simp]: "queue_items queue_init = []"
  by (simp add: queue_items_def queue_init_def)

text \<open>Distinct offsets below the capacity address distinct ring slots.\<close>

lemma ring_inj:
  assumes "(h + i) mod n = (h + j) mod n" and "i < n" and "j < (n :: nat)"
  shows "i = j"
proof (cases "i \<le> j")
  case True
  with assms have "n dvd (h + j) - (h + i)" by (metis mod_eq_dvd_iff_nat add_le_cancel_left)
  with True assms show ?thesis by (auto dest: dvd_imp_le)
next
  case False
  with assms have "n dvd (h + i) - (h + j)" by (metis mod_eq_dvd_iff_nat nat_le_linear add_le_cancel_left)
  with False assms show ?thesis by (auto dest: dvd_imp_le)
qed

definition ring_window :: "write_cmd list \<Rightarrow> nat \<Rightarrow> nat \<Rightarrow> write_cmd list" where
  "ring_window es h k = map (\<lambda>i. es ! ((h + i) mod CMD_QUEUE_CAPACITY)) [0..<k]"

lemma queue_items_window: "queue_items q = ring_window (entries q) (q_head q) (q_count q)"
  by (simp add: queue_items_def ring_window_def)

lemma ring_window_Suc:
  assumes "h < CMD_QUEUE_CAPACITY"
  shows "ring_window es h (Suc k) = es ! h # ring_window es ((h + 1) mod CMD_QUEUE_CAPACITY) k"
proof -
  have "[0..<Suc k] = 0 # map Suc [0..<k]" by (simp add: upt_conv_Cons map_Suc_upt)
  moreover have "(Suc h mod CMD_QUEUE_CAPACITY + i) mod CMD_QUEUE_CAPACITY = Suc (h + i) mod CMD_QUEUE_CAPACITY"
    for i by (simp add: mod_simps)
  ultimately show ?thesis using assms by (simp add: ring_window_def del: upt_Suc)
qed

lemma ring_window_update:
  assumes "length es = CMD_QUEUE_CAPACITY" and "i < k" and "k \<le> CMD_QUEUE_CAPACITY"
  shows "ring_window (es[(h + i) mod CMD_QUEUE_CAPACITY := e]) h k = (ring_window es h k)[i := e]"
proof (rule nth_equalityI)
  fix j assume "j < length (ring_window (es[(h + i) mod CMD_QUEUE_CAPACITY := e]) h k)"
  then have j: "j < k" by (simp add: ring_window_def)
  have "(h + i) mod CMD_QUEUE_CAPACITY = (h + j) mod CMD_QUEUE_CAPACITY \<longleftrightarrow> i = j"
    using ring_inj [of h i CMD_QUEUE_CAPACITY j] j assms by fastforce
  with j assms show "ring_window (es[(h + i) mod CMD_QUEUE_CAPACITY := e]) h k ! j =
      (ring_window es h k)[i := e] ! j"
    by (simp add: ring_window_def nth_list_update)
qed (simp add: ring_window_def)

lemma ring_window_update_other:
  assumes "j < CMD_QUEUE_CAPACITY" and "h < CMD_QUEUE_CAPACITY"
    and "\<forall>i<k. (h + i) mod CMD_QUEUE_CAPACITY \<noteq> j"
  shows "ring_window (es[j := e]) h k = ring_window es h k"
  using assms by (auto simp: ring_window_def)

text \<open>The ring search is the list search on the window it looks at.\<close>

lemma merge_loop_index:
  assumes "idx < CMD_QUEUE_CAPACITY"
  shows "(list_merge a v m (ring_window es idx k) = None \<and> merge_loop a v m es idx k = None) \<or>
    (\<exists>i<k. merge_loop a v m es idx k = Some (es[(idx + i) mod CMD_QUEUE_CAPACITY :=
        replace_value m v (es ! ((idx + i) mod CMD_QUEUE_CAPACITY))]) \<and>
      list_merge a v m (ring_window es idx k) =
        Some ((ring_window es idx k)[i := replace_value m v (es ! ((idx + i) mod CMD_QUEUE_CAPACITY))]))"
  using assms
proof (induction k arbitrary: idx)
  case 0
  then show ?case by (simp add: ring_window_def)
next
  case (Suc k)
  let ?idx = "(idx + 1) mod CMD_QUEUE_CAPACITY"
  show ?case
  proof (cases "same_register a (es ! idx)")
    case True
    with Suc.prems show ?thesis by (intro disjI2 exI [of _ 0]) (simp add: ring_window_Suc)
  next
    case False
    have "?idx < CMD_QUEUE_CAPACITY" by simp
    from Suc.IH [OF this] show ?thesis
    proof (elim disjE exE conjE)
      assume "list_merge a v m (ring_window es ?idx k) = None" "merge_loop a v m es ?idx k = None"
      with False Suc.prems show ?thesis by (simp add: ring_window_Suc)
    next
      fix i
      assume i: "i < k" and "merge_loop a v m es ?idx k = Some (es[(?idx + i) mod CMD_QUEUE_CAPACITY :=
            replace_value m v (es ! ((?idx + i) mod CMD_QUEUE_CAPACITY))])"
        and "list_merge a v m (ring_window es ?idx k) =
            Some ((ring_window es ?idx k)[i := replace_value m v (es ! ((?idx + i) mod CMD_QUEUE_CAPACITY))])"
      moreover have "(?idx + i) mod CMD_QUEUE_CAPACITY = (idx + Suc i) mod CMD_QUEUE_CAPACITY"
        by (simp add: mod_simps)
      ultimately show ?thesis using False Suc.prems i
        by (intro disjI2 exI [of _ "Suc i"]) (simp add: ring_window_Suc)
    qed
  qed
qed

lemma merge_loop_window:
  assumes "length es = CMD_QUEUE_CAPACITY" and "idx < CMD_QUEUE_CAPACITY" and "k \<le> CMD_QUEUE_CAPACITY"
  shows "map_option (\<lambda>es'. ring_window es' idx k) (merge_loop a v m es idx k) =
      list_merge a v m (ring_window es idx k)"
    and "merge_loop a v m es idx k = Some es' \<Longrightarrow> length es' = CMD_QUEUE_CAPACITY"
  using merge_loop_index [OF assms(2), of a v m es k] assms
  by (auto simp: ring_window_update)

lemma list_merge_length: "list_merge a v m l = Some l' \<Longrightarrow> length l' = length l"
  by (induction l arbitrary: l') (auto split: if_splits)

section \<open>The contract\<close>

text \<open>Commands as values, as the queue's contract speaks of them.\<close>

definition push_cmd :: "(u16 \<Rightarrow> bool) \<Rightarrow> cmd_queue \<Rightarrow> write_cmd \<Rightarrow> bool \<times> cmd_queue" where
  "push_cmd ma q c =
     (let (r, q') = queue_push ma q (cmd_addr c) (Some (cmd_values c)) (cmd_count c) (cmd_mode c)
      in (r = 0, q'))"

definition cmd_accepted :: "write_cmd \<Rightarrow> bool" where
  "cmd_accepted c \<longleftrightarrow> cmd_count c \<noteq> 0 \<and> cmd_count c \<le> MODBUS_MAX_WRITE_REGISTERS"

definition merge_into :: "(u16 \<Rightarrow> bool) \<Rightarrow> write_cmd list \<Rightarrow> write_cmd \<Rightarrow> write_cmd list option" where
  "merge_into ma l c =
     (if cmd_count c = 1 \<and> ma (cmd_addr c)
      then list_merge (cmd_addr c) (cmd_values c ! 0) (cmd_mode c) l else None)"

definition stored_cmd :: "write_cmd \<Rightarrow> write_cmd" where
  "stored_cmd c = c\<lparr>cmd_values := take (unat (cmd_count c)) (cmd_values c)\<rparr>"

lemma push_merge_case:
  assumes "queue_inv q" and "cmd_accepted c" and "merge_into ma (queue_items q) c = Some l"
  shows "fst (push_cmd ma q c) \<and> queue_items (snd (push_cmd ma q c)) = l \<and>
    queue_inv (snd (push_cmd ma q c))"
proof -
  let ?ml = "merge_loop (cmd_addr c) (cmd_values c ! 0) (cmd_mode c) (entries q) (q_head q) (q_count q)"
  from assms(3) have g: "cmd_count c = 1 \<and> ma (cmd_addr c)"
    and lm: "list_merge (cmd_addr c) (cmd_values c ! 0) (cmd_mode c) (queue_items q) = Some l"
    by (auto simp: merge_into_def split: if_splits)
  note w = merge_loop_window [of "entries q" "q_head q" "q_count q" "cmd_addr c"
      "cmd_values c ! 0" "cmd_mode c"]
  from w(1) lm assms(1) obtain es where es: "?ml = Some es" "ring_window es (q_head q) (q_count q) = l"
    by (auto simp: queue_inv_def queue_items_window)
  with w(2) [of es] g assms(1,2) show ?thesis
    by (auto simp: push_cmd_def queue_push_def cmd_accepted_def queue_items_window queue_inv_def)
qed

lemma push_append_case:
  assumes "queue_inv q" and "cmd_accepted c" and "merge_into ma (queue_items q) c = None"
  shows "if q_count q < CMD_QUEUE_CAPACITY
    then fst (push_cmd ma q c) \<and> queue_items (snd (push_cmd ma q c)) = queue_items q @ [stored_cmd c] \<and>
      queue_inv (snd (push_cmd ma q c))
    else push_cmd ma q c = (False, q)"
proof -
  let ?ml = "if cmd_count c = 1 \<and> ma (cmd_addr c)
    then merge_loop (cmd_addr c) (cmd_values c ! 0) (cmd_mode c) (entries q) (q_head q) (q_count q) else None"
  note w = merge_loop_window(1) [of "entries q" "q_head q" "q_count q" "cmd_addr c"
      "cmd_values c ! 0" "cmd_mode c"]
  from w assms(1,3) have ml: "?ml = None"
    by (auto simp: queue_inv_def queue_items_window merge_into_def split: if_splits)
  have c: "\<lparr>cmd_addr = cmd_addr c, cmd_values = take (unat (cmd_count c)) (cmd_values c),
      cmd_count = cmd_count c, cmd_mode = cmd_mode c\<rparr> = stored_cmd c"
    by (simp add: stored_cmd_def)
  show ?thesis
  proof (cases "q_count q < CMD_QUEUE_CAPACITY")
    case True
    let ?q = "q\<lparr>entries := (entries q)[q_tail q := stored_cmd c],
        q_tail := (q_tail q + 1) mod CMD_QUEUE_CAPACITY, q_count := q_count q + 1\<rparr>"
    have p: "push_cmd ma q c = (True, ?q)"
      using ml assms(2) True c by (simp add: push_cmd_def queue_push_def cmd_accepted_def not_less)
    have t: "q_tail q = (q_head q + q_count q) mod CMD_QUEUE_CAPACITY"
      "length (entries q) = CMD_QUEUE_CAPACITY" "q_head q < CMD_QUEUE_CAPACITY"
      using assms(1) by (simp_all add: queue_inv_def)
    have "ring_window ((entries q)[q_tail q := stored_cmd c]) (q_head q) (q_count q) =
        ring_window (entries q) (q_head q) (q_count q)"
    proof (rule ring_window_update_other)
      show "\<forall>i<q_count q. (q_head q + i) mod CMD_QUEUE_CAPACITY \<noteq> q_tail q"
        using ring_inj [of "q_head q" _ CMD_QUEUE_CAPACITY "q_count q"] True unfolding t(1)
        by fastforce
    qed (use t in auto)
    then have "queue_items ?q = queue_items q @ [stored_cmd c]"
      using t by (simp add: queue_items_window ring_window_def)
    moreover have "queue_inv ?q"
      using assms(1) True by (simp add: queue_inv_def mod_simps)
    ultimately show ?thesis using p True by simp
  next
    case False
    with ml assms(2) show ?thesis by (simp add: push_cmd_def queue_push_def cmd_accepted_def)
  qed
qed

lemma push_refuse_case: "\<not> cmd_accepted c \<Longrightarrow> push_cmd ma q c = (False, q)"
  by (auto simp: push_cmd_def queue_push_def cmd_accepted_def not_le)

lemma push_cmd_inv:
  assumes "queue_inv q"
  shows "queue_inv (snd (push_cmd ma q c))"
proof (cases "cmd_accepted c")
  case True
  with push_merge_case [OF assms True] push_append_case [OF assms True] assms show ?thesis
    by (cases "merge_into ma (queue_items q) c") (fastforce split: if_splits)+
qed (use assms in \<open>simp add: push_refuse_case\<close>)

lemma pop_case:
  assumes "queue_inv q" and "queue_items q = c # cs"
  shows "\<exists>q'. queue_pop q = Some (c, q') \<and> queue_inv q' \<and> queue_items q' = cs"
proof -
  from assms(2) have "q_count q = Suc (length cs)"
    by (metis length_Cons length_queue_items)
  then have n: "q_count q = Suc (q_count q - 1)" by simp
  let ?q = "q\<lparr>q_head := (q_head q + 1) mod CMD_QUEUE_CAPACITY, q_count := q_count q - 1\<rparr>"
  have h: "q_head q < CMD_QUEUE_CAPACITY" using assms(1) by (simp add: queue_inv_def)
  have "queue_items q = entries q ! q_head q # queue_items ?q"
    using ring_window_Suc [OF h, of "entries q" "q_count q - 1"] n
    by (simp add: queue_items_window)
  with assms(2) have "entries q ! q_head q = c" "queue_items ?q = cs" by auto
  moreover have "queue_inv ?q"
  proof -
    have "q_tail q = (q_head q + 1 + (q_count q - 1)) mod CMD_QUEUE_CAPACITY"
      using assms(1) n by (simp add: queue_inv_def)
    also have "\<dots> = ((q_head q + 1) mod CMD_QUEUE_CAPACITY + (q_count q - 1)) mod CMD_QUEUE_CAPACITY"
      by (simp add: mod_add_left_eq)
    finally show ?thesis using assms(1) unfolding queue_inv_def by (simp add: le_diff_conv)
  qed
  moreover have "queue_pop q = Some (entries q ! q_head q, ?q)"
    using n by (simp add: queue_pop_def)
  ultimately show ?thesis by blast
qed

interpretation cmds: cmd_fifo
  "push_cmd ma" queue_pop queue_items queue_inv cmd_accepted "merge_into ma" stored_cmd
  CMD_QUEUE_CAPACITY for ma
proof
  show "length (queue_items q) \<le> CMD_QUEUE_CAPACITY" if "queue_inv q" for q
    using that by (simp add: queue_inv_def)
  show "length l' = length l" if "merge_into ma l c = Some l'" for l c l'
    using that by (auto simp: merge_into_def list_merge_length split: if_splits)
  show "queue_inv (snd (push_cmd ma q c))" if "queue_inv q" for q c
    using that by (rule push_cmd_inv)
  show "push_cmd ma q c = (False, q)" if "\<not> cmd_accepted c" for q c
    using that by (rule push_refuse_case)
  show "fst (push_cmd ma q c) \<and> queue_items (snd (push_cmd ma q c)) = l"
    if "queue_inv q" "cmd_accepted c" "merge_into ma (queue_items q) c = Some l" for q c l
    using push_merge_case [OF that] by simp
  show "fst (push_cmd ma q c) \<and> queue_items (snd (push_cmd ma q c)) = queue_items q @ [stored_cmd c]"
    if "queue_inv q" "cmd_accepted c" "merge_into ma (queue_items q) c = None"
      "length (queue_items q) < CMD_QUEUE_CAPACITY" for q c
    using push_append_case [OF that(1-3)] that(4) by simp
  show "push_cmd ma q c = (False, q)"
    if "queue_inv q" "cmd_accepted c" "merge_into ma (queue_items q) c = None"
      "length (queue_items q) = CMD_QUEUE_CAPACITY" for q c
    using push_append_case [OF that(1-3)] that(4) by simp
  show "queue_pop q = None" if "queue_inv q" "queue_items q = []" for q
    using that by (metis length_queue_items list.size(3) queue_pop_def)
  show "\<exists>q'. queue_pop q = Some (c, q') \<and> queue_inv q' \<and> queue_items q' = cs"
    if "queue_inv q" "queue_items q = c # cs" for q c cs
    using that by (rule pop_case)
qed

section \<open>Properties\<close>

text \<open>
  C10. Seen as a list, the ring is a queue of at most 16 commands: a push that the code
  accepts either replaces mode and value of the oldest waiting single-register write to the
  same mergeable address or appends the command, it is refused exactly when the count is
  not between 1 and 123 or the queue is full with nothing to merge into, and a refused push
  changes nothing; a pop takes the oldest command.
\<close>

theorem cmd_queue_refines_list:
  assumes "queue_inv q"
  shows "(case push_cmd ma q c of (ok, q') \<Rightarrow> queue_inv q' \<and>
      (ok \<longleftrightarrow> cmd_accepted c \<and>
        (merge_into ma (queue_items q) c \<noteq> None \<or> length (queue_items q) < CMD_QUEUE_CAPACITY)) \<and>
      queue_items q' =
        (if ok then (case merge_into ma (queue_items q) c of Some l \<Rightarrow> l
                     | None \<Rightarrow> queue_items q @ [stored_cmd c])
         else queue_items q)) \<and>
    (case queue_items q of [] \<Rightarrow> queue_pop q = None
     | d # ds \<Rightarrow> \<exists>q'. queue_pop q = Some (d, q') \<and> queue_inv q' \<and> queue_items q' = ds)"
proof -
  obtain ok q' where p: "push_cmd ma q c = (ok, q')" by fastforce
  have "queue_items q' = (if ok then (case merge_into ma (queue_items q) c of Some l \<Rightarrow> l
                     | None \<Rightarrow> queue_items q @ [stored_cmd c])
         else queue_items q)"
    using p by (cases rule: cmds.push_items_cases [OF assms, where ma = ma and c = c]) auto
  with p cmds.push_inv [OF assms, where ma = ma and c = c] cmds.push_ok_iff [OF assms, where ma = ma and c = c]
    cmds.pop_empty [OF assms] cmds.pop_first [OF assms]
  show ?thesis by (auto split: list.split)
qed

text \<open>The queues a unit can reach by pushes and pops in any order; a producer's array holds
  at least \<open>count\<close> values.\<close>

inductive queue_reach :: "(u16 \<Rightarrow> bool) \<Rightarrow> cmd_queue \<Rightarrow> bool" for ma where
  queue_reach_init: "queue_reach ma queue_init"
| queue_reach_push: "queue_reach ma q \<Longrightarrow> unat (cmd_count c) \<le> length (cmd_values c) \<Longrightarrow>
    queue_reach ma (snd (push_cmd ma q c))"
| queue_reach_pop: "queue_reach ma q \<Longrightarrow> queue_pop q = Some (c, q') \<Longrightarrow> queue_reach ma q'"

definition merge_unique :: "(u16 \<Rightarrow> bool) \<Rightarrow> write_cmd list \<Rightarrow> bool" where
  "merge_unique ma l \<longleftrightarrow> (\<forall>a. ma a \<longrightarrow> length (filter (same_register a) l) \<le> 1)"

lemma same_register_replace: "same_register b (replace_value m v e) = same_register b e"
  by (simp add: same_register_def replace_value_def)

lemma same_register_stored: "same_register b (stored_cmd c) = same_register b c"
  by (simp add: same_register_def stored_cmd_def)

lemma list_merge_filter_length:
  "list_merge a v m l = Some l' \<Longrightarrow> length (filter (same_register b) l') = length (filter (same_register b) l)"
  by (induction l arbitrary: l') (auto simp: same_register_replace split: if_splits)

lemma list_merge_None: "list_merge a v m l = None \<longleftrightarrow> filter (same_register a) l = []"
  by (induction l) auto

lemma list_merge_hit:
  "list_merge a v m l = Some l' \<Longrightarrow> length (filter (same_register a) l) \<le> 1 \<Longrightarrow>
   \<exists>e. filter (same_register a) l = [e] \<and> filter (same_register a) l' = [replace_value m v e]"
proof (induction l arbitrary: l')
  case (Cons e l)
  then show ?case
    by (cases "same_register a e") (auto simp: same_register_replace)
qed simp

lemma merge_unique_push:
  assumes "queue_inv q" and "merge_unique ma (queue_items q)"
  shows "merge_unique ma (queue_items (snd (push_cmd ma q c)))"
  using assms(1)
proof (cases rule: cmds.push_items_cases [where ma = ma and c = c])
  case refused
  with assms(2) show ?thesis by simp
next
  case (merged l)
  then show ?thesis
    using assms(2) by (auto simp: merge_unique_def merge_into_def list_merge_filter_length split: if_splits)
next
  case appended
  show ?thesis
    unfolding merge_unique_def appended(5)
  proof (intro allI impI)
    fix a assume a: "ma a"
    show "length (filter (same_register a) (queue_items q @ [stored_cmd c])) \<le> 1"
    proof (cases "same_register a c")
      case True
      with a appended(2) have "filter (same_register a) (queue_items q) = []"
        by (auto simp: merge_into_def list_merge_None same_register_def)
      then show ?thesis by simp
    next
      case False
      with a assms(2) show ?thesis by (simp add: merge_unique_def same_register_stored)
    qed
  qed
next
  case full
  with assms(2) show ?thesis by simp
qed

definition cmd_sized :: "write_cmd \<Rightarrow> bool" where
  "cmd_sized c \<longleftrightarrow> length (cmd_values c) = unat (cmd_count c)"

lemma list_merge_sized:
  "list_all cmd_sized l \<Longrightarrow> list_merge a v m l = Some l' \<Longrightarrow> list_all cmd_sized l'"
  by (induction l arbitrary: l') (auto simp: cmd_sized_def replace_value_def split: if_splits)

lemma sized_push:
  assumes "queue_inv q" and "list_all cmd_sized (queue_items q)" and "unat (cmd_count c) \<le> length (cmd_values c)"
  shows "list_all cmd_sized (queue_items (snd (push_cmd ma q c)))"
  using assms(1)
proof (cases rule: cmds.push_items_cases [where ma = ma and c = c])
  case (merged l)
  with assms(2) show ?thesis by (auto simp: merge_into_def list_merge_sized split: if_splits)
qed (use assms in \<open>auto simp: cmd_sized_def stored_cmd_def\<close>)

lemma queue_reach_inv:
  "queue_reach ma q \<Longrightarrow>
   queue_inv q \<and> merge_unique ma (queue_items q) \<and> list_all cmd_sized (queue_items q)"
proof (induction rule: queue_reach.induct)
  case queue_reach_init
  then show ?case by (simp add: queue_inv_init merge_unique_def)
next
  case (queue_reach_push q c)
  then show ?case by (simp add: push_cmd_inv merge_unique_push sized_push)
next
  case (queue_reach_pop q c q')
  then have i: "queue_inv q'" "queue_items q = c # queue_items q'"
    using cmds.pop_SomeD by blast+
  with queue_reach_pop have "merge_unique ma (c # queue_items q')" "list_all cmd_sized (queue_items q')"
    by simp_all
  with i(1) show ?case unfolding merge_unique_def by (fastforce split: if_splits)
qed

lemma accepted_push_last:
  assumes inv: "queue_inv q" and "length (filter (same_register a) (queue_items q)) \<le> 1"
    and sized: "list_all cmd_sized (queue_items q)"
    and c: "ma a" "cmd_addr c = a" "cmd_count c = 1" "cmd_values c = [v]" and ok: "fst (push_cmd ma q c)"
  shows "filter (same_register a) (queue_items (snd (push_cmd ma q c))) = [c]"
proof -
  have st: "stored_cmd c = c" "same_register a c" "cmd_accepted c"
    using c by (simp_all add: stored_cmd_def same_register_def cmd_accepted_def)
  have mi: "merge_into ma (queue_items q) c = list_merge a v (cmd_mode c) (queue_items q)"
    using c by (simp add: merge_into_def)
  show ?thesis
    using inv
  proof (cases rule: cmds.push_items_cases [where ma = ma and c = c])
    case (merged l)
    with mi assms(2) list_merge_hit [of a v "cmd_mode c" "queue_items q" l] obtain e where
      e: "filter (same_register a) (queue_items q) = [e]"
      "filter (same_register a) l = [replace_value (cmd_mode c) v e]" by auto
    have "e \<in> set (filter (same_register a) (queue_items q))" by (simp add: e(1))
    then have "e \<in> set (queue_items q)" "same_register a e" by simp_all
    with sized have "length (cmd_values e) = 1" "cmd_addr e = a" "cmd_count e = 1"
      by (auto simp: list_all_iff cmd_sized_def same_register_def)
    then have "replace_value (cmd_mode c) v e = c"
      using c by (cases e; cases c) (auto simp: replace_value_def length_Suc_conv)
    with e merged show ?thesis by simp
  next
    case appended
    then have "filter (same_register a) (queue_items q) = []"
      using mi by (simp add: list_merge_None [of a v "cmd_mode c", symmetric])
    with appended st show ?thesis by simp
  qed (use st ok in auto)
qed

text \<open>The commands for other registers stay as they are.\<close>

lemma list_merge_other:
  "list_merge a v m l = Some l' \<Longrightarrow> b \<noteq> a \<Longrightarrow> filter (same_register b) l' = filter (same_register b) l"
  by (induction l arbitrary: l') (auto simp: same_register_def replace_value_def split: if_splits)

lemma push_other:
  assumes "queue_inv q" and "b \<noteq> cmd_addr c"
  shows "filter (same_register b) (queue_items (snd (push_cmd ma q c))) = filter (same_register b) (queue_items q)"
  using assms(1)
proof (cases rule: cmds.push_items_cases [where ma = ma and c = c])
  case (merged l)
  with assms(2) show ?thesis by (auto simp: merge_into_def list_merge_other split: if_splits)
next
  case appended
  with assms(2) show ?thesis by (simp add: same_register_stored) (simp add: same_register_def)
qed simp_all

text \<open>
  C12. In every queue a unit can reach, at most one waiting single-register write exists per
  mergeable address; when a push of such a write is accepted, the one that waits for this
  address carries the pushed value and mode, so the last write wins, and an address that
  already waits is accepted even when the ring is full.
\<close>

theorem cmd_queue_last_write_wins:
  assumes "queue_reach ma q" and "ma a" and "cmd_addr c = a" and "cmd_count c = 1" and "cmd_values c = [v]"
  shows "length (filter (same_register a) (queue_items q)) \<le> 1 \<and>
    (case push_cmd ma q c of (ok, q') \<Rightarrow>
       (ok \<longleftrightarrow> filter (same_register a) (queue_items q) \<noteq> [] \<or> length (queue_items q) < CMD_QUEUE_CAPACITY) \<and>
       (ok \<longrightarrow> filter (same_register a) (queue_items q') = [c]))"
proof -
  have inv: "queue_inv q" and uniq: "merge_unique ma (queue_items q)"
    and sized: "list_all cmd_sized (queue_items q)"
    using queue_reach_inv [OF assms(1)] by auto
  have u: "length (filter (same_register a) (queue_items q)) \<le> 1"
    using uniq assms(2) by (simp add: merge_unique_def)
  have st: "stored_cmd c = c" "same_register a c" "cmd_accepted c"
    using assms by (simp_all add: stored_cmd_def same_register_def cmd_accepted_def)
  have mi: "merge_into ma (queue_items q) c = list_merge a v (cmd_mode c) (queue_items q)"
    using assms by (simp add: merge_into_def)
  obtain ok q' where p: "push_cmd ma q c = (ok, q')" by fastforce
  have "ok \<longleftrightarrow> filter (same_register a) (queue_items q) \<noteq> [] \<or> length (queue_items q) < CMD_QUEUE_CAPACITY"
    using cmds.push_ok_iff [OF inv, where ma = ma and c = c] p st(3) by (auto simp: mi list_merge_None)
  moreover have "filter (same_register a) (queue_items q') = [c]" if ok
    using accepted_push_last [where ma = ma, OF inv u sized assms(2-5)] p that by simp
  ultimately show ?thesis using u p by simp
qed

section \<open>Witnesses\<close>

definition even_addr :: "u16 \<Rightarrow> bool" where
  "even_addr a = (a AND 1 = 0)"

definition single_write :: "u16 \<Rightarrow> u16 \<Rightarrow> write_cmd" where
  "single_write a v = \<lparr>cmd_addr = a, cmd_values = [v], cmd_count = 1, cmd_mode = WRITE_MODE_FC06\<rparr>"

lemma single_push:
  "fst (push_cmd even_addr queue_init (single_write 2 7)) \<and>
   queue_items (snd (push_cmd even_addr queue_init (single_write 2 7))) = [single_write 2 7]"
  using cmds.push_appended [OF queue_inv_init, where c = "single_write 2 7" and ma = even_addr]
  by (simp add: merge_into_def cmd_accepted_def single_write_def stored_cmd_def)

theorem cmd_queue_refines_list_witness:
  "queue_pop (snd (push_cmd even_addr queue_init (single_write 2 7))) \<noteq> None"
proof -
  have "queue_inv (snd (push_cmd even_addr queue_init (single_write 2 7)))"
    by (simp add: push_cmd_inv queue_inv_init)
  from cmd_queue_refines_list [OF this, where ma = even_addr and c = "single_write 2 7"]
  show ?thesis by (auto simp: single_push)
qed

theorem cmd_queue_last_write_wins_witness:
  "let q = snd (push_cmd even_addr queue_init (single_write 2 7))
   in filter (same_register 2) (queue_items (snd (push_cmd even_addr q (single_write 2 9)))) =
      [single_write 2 9]"
proof -
  let ?q = "snd (push_cmd even_addr queue_init (single_write 2 7))"
  have "queue_reach even_addr ?q"
    by (intro queue_reach_push queue_reach_init) (simp add: single_write_def)
  moreover have "filter (same_register 2) (queue_items ?q) \<noteq> []"
    by (simp add: single_push) (simp add: same_register_def single_write_def)
  ultimately have "filter (same_register 2) (queue_items (snd (push_cmd even_addr ?q (single_write 2 9)))) =
      [single_write 2 9]"
    using cmd_queue_last_write_wins [of even_addr ?q 2 "single_write 2 9" 9]
    by (auto simp: even_addr_def single_write_def split: prod.splits)
  then show ?thesis by (simp add: Let_def)
qed

end
