(* ===== verification/Bus_Coord.thy ===== *)
theory Bus_Coord
  imports Gateway_Interfaces
begin

text \<open>
  \<^verbatim>\<open>src/bus_coord.c\<close>: the re-entrant mutex per serial path. Every function runs under
  \<^verbatim>\<open>g_lock\<close>, so each is one atomic step, except that an acquire waits while another thread
  owns the slot: a waiting acquire is \<^const>\<open>None\<close> and takes its step once the wait
  condition is false (the slot it waits on is never freed while the daemon runs). Threads
  are numbers. The depth is the 32-bit counter of the code.
\<close>

section \<open>Slots\<close>

abbreviation BUS_COORD_MAX_BUSES :: nat where "BUS_COORD_MAX_BUSES \<equiv> 8"
abbreviation BUS_COORD_PATH_MAX :: nat where "BUS_COORD_PATH_MAX \<equiv> 256"

record bus_slot =
  bus_path :: string
  allocated :: bool
  depth :: nat
  owner :: nat

type_synonym bus_slots = "bus_slot list"

text \<open>\<^verbatim>\<open>bus_coord_init\<close> zeroes every slot.\<close>

definition bus_coord_init :: bus_slots where
  "bus_coord_init = replicate BUS_COORD_MAX_BUSES
     \<lparr>bus_path = [], allocated = False, depth = 0, owner = 0\<rparr>"

definition path_is_empty :: "string option \<Rightarrow> bool" where
  "path_is_empty p = (case p of None \<Rightarrow> True | Some s \<Rightarrow> s = [])"

definition find_slot_locked :: "string \<Rightarrow> bus_slots \<Rightarrow> nat option" where
  "find_slot_locked p s =
     List.find (\<lambda>i. allocated (s ! i) \<and> bus_path (s ! i) = p) [0..<BUS_COORD_MAX_BUSES]"

text \<open>The path is stored with \<^verbatim>\<open>strncpy\<close> into 256 bytes that end in a NUL.\<close>

definition alloc_slot_locked :: "string \<Rightarrow> bus_slots \<Rightarrow> (nat \<times> bus_slots) option" where
  "alloc_slot_locked p s =
     (case List.find (\<lambda>i. \<not> allocated (s ! i)) [0..<BUS_COORD_MAX_BUSES] of
        None \<Rightarrow> None
      | Some i \<Rightarrow> Some (i, s[i := (s ! i)\<lparr>bus_path := take (BUS_COORD_PATH_MAX - 1) p,
                                        allocated := True, depth := 0\<rparr>]))"

section \<open>Acquire and release\<close>

definition depth_inc :: "nat \<Rightarrow> nat" where
  "depth_inc d = (d + 1) mod 2 ^ 32"

text \<open>The rest of an acquire, once the slot is known.\<close>

definition take_slot :: "nat \<Rightarrow> nat \<Rightarrow> bus_slots \<Rightarrow> bus_slots option" where
  "take_slot self i s =
     (if depth (s ! i) > 0 \<and> owner (s ! i) \<noteq> self then None
      else
        let sl = (if depth (s ! i) = 0 then (s ! i)\<lparr>owner := self\<rparr> else s ! i)
        in Some (s[i := sl\<lparr>depth := depth_inc (depth sl)\<rparr>]))"

definition bus_coord_acquire :: "nat \<Rightarrow> string option \<Rightarrow> bus_slots \<Rightarrow> bus_slots option" where
  "bus_coord_acquire self path s =
     (if path_is_empty path then Some s
      else
        let p = the path
        in case find_slot_locked p s of
             Some i \<Rightarrow> take_slot self i s
           | None \<Rightarrow>
               (case alloc_slot_locked p s of
                  None \<Rightarrow> Some s
                | Some (i, s1) \<Rightarrow> take_slot self i s1))"

definition bus_coord_release :: "nat \<Rightarrow> string option \<Rightarrow> bus_slots \<Rightarrow> bus_slots" where
  "bus_coord_release self path s =
     (if path_is_empty path then s
      else
        case find_slot_locked (the path) s of
          None \<Rightarrow> s
        | Some i \<Rightarrow>
            if depth (s ! i) = 0 then s
            else if owner (s ! i) \<noteq> self then s
            else s[i := (s ! i)\<lparr>depth := depth (s ! i) - 1\<rparr>])"

section \<open>The lock the slots implement\<close>

definition bus_holder :: "bus_slots \<Rightarrow> string \<Rightarrow> (nat \<times> nat) option" where
  "bus_holder s p =
     (case find_slot_locked p s of
        None \<Rightarrow> None
      | Some i \<Rightarrow> if depth (s ! i) = 0 then None else Some (owner (s ! i), depth (s ! i)))"

definition bus_keys_ok :: "string set \<Rightarrow> bool" where
  "bus_keys_ok P \<longleftrightarrow> finite P \<and> card P \<le> BUS_COORD_MAX_BUSES \<and>
     (\<forall>p\<in>P. p \<noteq> [] \<and> length p < BUS_COORD_PATH_MAX)"

text \<open>At most the paths of \<open>P\<close> have been allocated, each once.\<close>

definition bus_inv :: "string set \<Rightarrow> bus_slots \<Rightarrow> bool" where
  "bus_inv P s \<longleftrightarrow> length s = BUS_COORD_MAX_BUSES \<and>
     (\<forall>i<BUS_COORD_MAX_BUSES. allocated (s ! i) \<longrightarrow> bus_path (s ! i) \<in> P) \<and>
     (\<forall>i<BUS_COORD_MAX_BUSES. \<forall>j<BUS_COORD_MAX_BUSES. allocated (s ! i) \<and> allocated (s ! j) \<and>
        bus_path (s ! i) = bus_path (s ! j) \<longrightarrow> i = j)"

lemma bus_inv_init: "bus_inv P bus_coord_init"
  by (simp add: bus_inv_def bus_coord_init_def)

lemma find_slot_Some:
  "find_slot_locked p s = Some i \<Longrightarrow> i < BUS_COORD_MAX_BUSES \<and> allocated (s ! i) \<and> bus_path (s ! i) = p"
  unfolding find_slot_locked_def by (drule find_SomeD) simp

lemma find_slot_None:
  "find_slot_locked p s = None \<longleftrightarrow> (\<forall>i<BUS_COORD_MAX_BUSES. allocated (s ! i) \<longrightarrow> bus_path (s ! i) \<noteq> p)"
  unfolding find_slot_locked_def find_None_ball by auto

lemma find_slot_iff:
  assumes "bus_inv P s"
  shows "find_slot_locked p s = Some i \<longleftrightarrow>
    i < BUS_COORD_MAX_BUSES \<and> allocated (s ! i) \<and> bus_path (s ! i) = p"
proof
  assume r: "i < BUS_COORD_MAX_BUSES \<and> allocated (s ! i) \<and> bus_path (s ! i) = p"
  then obtain j where j: "find_slot_locked p s = Some j"
    using find_slot_None [of p s] by blast
  with find_slot_Some [OF j] r assms have "j = i" unfolding bus_inv_def by blast
  with j show "find_slot_locked p s = Some i" by simp
qed (rule find_slot_Some)

lemma find_slot_update:
  assumes "bus_inv P s" and "i < BUS_COORD_MAX_BUSES" and "allocated (s ! i)"
    and "allocated sl" and "bus_path sl = bus_path (s ! i)"
  shows "bus_inv P (s[i := sl])" and "find_slot_locked q (s[i := sl]) = find_slot_locked q s"
proof -
  have nth: "s[i := sl] ! j = (if j = i then sl else s ! j)" if "j < BUS_COORD_MAX_BUSES" for j
    using that assms(1) by (simp add: bus_inv_def)
  have same: "allocated (s[i := sl] ! j) = allocated (s ! j)" "bus_path (s[i := sl] ! j) = bus_path (s ! j)"
    if "j < BUS_COORD_MAX_BUSES" for j
    using assms nth [OF that] by auto
  show inv: "bus_inv P (s[i := sl])"
    using assms(1) unfolding bus_inv_def by (simp add: same)
  show "find_slot_locked q (s[i := sl]) = find_slot_locked q s"
  proof (rule option.expand)
    show "(find_slot_locked q (s[i := sl]) = None) = (find_slot_locked q s = None)"
      using same unfolding find_slot_None by auto
  next
    assume "find_slot_locked q (s[i := sl]) \<noteq> None" "find_slot_locked q s \<noteq> None"
    then obtain k where k: "find_slot_locked q s = Some k" by blast
    then have "find_slot_locked q (s[i := sl]) = Some k"
      using same unfolding find_slot_iff [OF inv] find_slot_iff [OF assms(1)] by auto
    with k show "the (find_slot_locked q (s[i := sl])) = the (find_slot_locked q s)" by simp
  qed
qed

lemma bus_holder_update:
  assumes "bus_inv P s" and "i < BUS_COORD_MAX_BUSES" and "allocated (s ! i)"
    and "allocated sl" and "bus_path sl = bus_path (s ! i)"
  shows "bus_holder (s[i := sl]) = (bus_holder s)
    (bus_path sl := if depth sl = 0 then None else Some (owner sl, depth sl))"
proof
  fix q
  have len: "length s = BUS_COORD_MAX_BUSES" using assms(1) by (simp add: bus_inv_def)
  note f = find_slot_update(2) [OF assms]
  show "bus_holder (s[i := sl]) q = ((bus_holder s)
      (bus_path sl := if depth sl = 0 then None else Some (owner sl, depth sl))) q"
  proof (cases "q = bus_path sl")
    case True
    then have "find_slot_locked q s = Some i"
      using assms by (simp add: find_slot_iff [OF assms(1)])
    with True f len assms(2) show ?thesis by (simp add: bus_holder_def)
  next
    case False
    then have "find_slot_locked q s \<noteq> Some i"
      using assms by (auto simp: find_slot_iff [OF assms(1)])
    with False f show ?thesis by (auto simp: bus_holder_def split: option.split)
  qed
qed

text \<open>A path of \<open>P\<close> that has no slot yet finds a free one.\<close>

lemma free_slot_exists:
  assumes "bus_inv P s" and "bus_keys_ok P" and "p \<in> P" and "find_slot_locked p s = None"
  shows "\<exists>i<BUS_COORD_MAX_BUSES. \<not> allocated (s ! i)"
proof (rule ccontr)
  let ?I = "{0..<BUS_COORD_MAX_BUSES}"
  assume "\<not> ?thesis"
  then have all: "\<forall>i\<in>?I. allocated (s ! i)" by auto
  have "inj_on (\<lambda>i. bus_path (s ! i)) ?I"
    using assms(1) all unfolding bus_inv_def inj_on_def by auto
  then have "card ((\<lambda>i. bus_path (s ! i)) ` ?I) = card ?I" by (rule card_image)
  moreover have sub: "(\<lambda>i. bus_path (s ! i)) ` ?I \<subseteq> P - {p}"
  proof
    fix q assume "q \<in> (\<lambda>i. bus_path (s ! i)) ` ?I"
    then obtain i where i: "i < BUS_COORD_MAX_BUSES" "q = bus_path (s ! i)" by auto
    with all assms(1) have "q \<in> P" unfolding bus_inv_def by auto
    moreover have "q \<noteq> p" using i all assms(4) unfolding find_slot_None by auto
    ultimately show "q \<in> P - {p}" by simp
  qed
  moreover have "card (P - {p}) < BUS_COORD_MAX_BUSES"
    using assms(2,3) unfolding bus_keys_ok_def by (metis card_Diff1_less order_less_le_trans)
  moreover have "card ((\<lambda>i. bus_path (s ! i)) ` ?I) \<le> card (P - {p})"
    using assms(2) sub unfolding bus_keys_ok_def by (intro card_mono) auto
  ultimately show False by simp
qed

lemma alloc_slot_inv:
  assumes "bus_inv P s" and "bus_keys_ok P" and "p \<in> P" and "find_slot_locked p s = None"
  obtains i s1 where "alloc_slot_locked p s = Some (i, s1)" and "bus_inv P s1"
    and "i < BUS_COORD_MAX_BUSES" and "allocated (s1 ! i)" and "bus_path (s1 ! i) = p"
    and "depth (s1 ! i) = 0" and "bus_holder s1 = bus_holder s"
proof -
  from free_slot_exists [OF assms] obtain i where
    fi: "List.find (\<lambda>i. \<not> allocated (s ! i)) [0..<BUS_COORD_MAX_BUSES] = Some i"
    by (metis atLeast0LessThan find_None_ball lessThan_iff not_None_eq set_upt)
  from find_SomeD [OF fi] have i: "i < BUS_COORD_MAX_BUSES" "\<not> allocated (s ! i)" by auto
  let ?sl = "(s ! i)\<lparr>bus_path := p, allocated := True, depth := 0\<rparr>"
  let ?s1 = "s[i := ?sl]"
  have "take (BUS_COORD_PATH_MAX - 1) p = p"
    using assms(2,3) unfolding bus_keys_ok_def by auto
  with fi have al: "alloc_slot_locked p s = Some (i, ?s1)" by (simp add: alloc_slot_locked_def)
  have nth: "?s1 ! j = (if j = i then ?sl else s ! j)" if "j < BUS_COORD_MAX_BUSES" for j
    using that assms(1) by (simp add: bus_inv_def)
  have p: "allocated (s ! j) \<Longrightarrow> bus_path (s ! j) \<noteq> p" if "j < BUS_COORD_MAX_BUSES" for j
    using that assms(4) unfolding find_slot_None by blast
  have "bus_path (?s1 ! j) \<in> P" if "j < BUS_COORD_MAX_BUSES" "allocated (?s1 ! j)" for j
    using that assms(1,3) nth [of j] unfolding bus_inv_def by (cases "j = i") auto
  moreover have "j = k" if jk: "j < BUS_COORD_MAX_BUSES" "k < BUS_COORD_MAX_BUSES"
      "allocated (?s1 ! j)" "allocated (?s1 ! k)" "bus_path (?s1 ! j) = bus_path (?s1 ! k)" for j k
    using jk assms(1) p [of j] p [of k] nth [of j] nth [of k]
    unfolding bus_inv_def by (cases "j = i"; cases "k = i") auto
  ultimately have inv: "bus_inv P ?s1"
    using assms(1) unfolding bus_inv_def by auto
  have "bus_holder ?s1 q = bus_holder s q" for q
  proof (cases "find_slot_locked q s")
    case None
    show ?thesis
    proof (cases "q = p")
      case True
      then have "find_slot_locked q ?s1 = Some i" using i nth by (simp add: find_slot_iff [OF inv])
      with None i nth show ?thesis by (simp add: bus_holder_def)
    next
      case False
      with None nth have "find_slot_locked q ?s1 = None" unfolding find_slot_None by auto
      with None show ?thesis by (simp add: bus_holder_def)
    qed
  next
    case (Some k)
    with i have "k \<noteq> i" "k < BUS_COORD_MAX_BUSES" using find_slot_Some [OF Some] by auto
    with Some nth have "find_slot_locked q ?s1 = Some k"
      using find_slot_Some [OF Some] by (simp add: find_slot_iff [OF inv])
    with Some \<open>k \<noteq> i\<close> show ?thesis by (simp add: bus_holder_def)
  qed
  then have "bus_holder ?s1 = bus_holder s" by blast
  with that al inv i nth show thesis by simp
qed

text \<open>Taking a known slot.\<close>

lemma take_slot_holder:
  assumes "bus_inv P s" and "i < BUS_COORD_MAX_BUSES" and "allocated (s ! i)"
    and "depth (s ! i) = 0 \<or> owner (s ! i) = t" and "depth (s ! i) < 2 ^ 32 - 1"
  shows "\<exists>s'. take_slot t i s = Some s' \<and> bus_inv P s' \<and>
    bus_holder s' = (bus_holder s)(bus_path (s ! i) \<mapsto> (t, Suc (depth (s ! i))))"
proof -
  let ?sl = "(s ! i)\<lparr>owner := t, depth := Suc (depth (s ! i))\<rparr>"
  have "(if depth (s ! i) = 0 then (s ! i)\<lparr>owner := t\<rparr> else s ! i) = (s ! i)\<lparr>owner := t\<rparr>"
    using assms(4) by (cases "s ! i") auto
  moreover have "depth_inc (depth (s ! i)) = Suc (depth (s ! i))"
    using assms(5) by (simp add: depth_inc_def)
  ultimately have "take_slot t i s = Some (s[i := ?sl])"
    using assms(4) by (auto simp: take_slot_def Let_def)
  with find_slot_update(1) [OF assms(1-3), of ?sl] bus_holder_update [OF assms(1-3), of ?sl] assms(3)
  show ?thesis by simp
qed

section \<open>The contract\<close>

lemma bus_lock_laws:
  assumes "bus_keys_ok P"
  shows "reentrant_lock (\<lambda>t p. bus_coord_acquire t (Some p)) (\<lambda>t p. bus_coord_release t (Some p))
    bus_holder (bus_inv P) P (2 ^ 32 - 1)"
proof
  fix s p t d
  assume "bus_inv P s" "bus_holder s p = Some (t, d)"
  then show "0 < d" by (auto simp: bus_holder_def split: option.splits if_splits)
next
  fix s p t
  assume a: "bus_inv P s" "p \<in> P" "bus_holder s p = None"
  then have ne: "\<not> path_is_empty (Some p)"
    using assms by (auto simp: path_is_empty_def bus_keys_ok_def)
  show "\<exists>s'. bus_coord_acquire t (Some p) s = Some s' \<and> bus_inv P s' \<and>
      bus_holder s' = (bus_holder s)(p \<mapsto> (t, 1))"
  proof (cases "find_slot_locked p s")
    case None
    from alloc_slot_inv [OF a(1) assms a(2) None] obtain i s1 where
      s1: "alloc_slot_locked p s = Some (i, s1)" "bus_inv P s1" "i < BUS_COORD_MAX_BUSES"
        "allocated (s1 ! i)" "bus_path (s1 ! i) = p" "depth (s1 ! i) = 0" "bus_holder s1 = bus_holder s"
      by blast
    with take_slot_holder [OF s1(2-4), of t] None ne show ?thesis
      by (simp add: bus_coord_acquire_def)
  next
    case (Some i)
    with a(3) have "depth (s ! i) = 0" by (auto simp: bus_holder_def split: if_splits)
    with find_slot_Some [OF Some] take_slot_holder [OF a(1), of i t] Some ne show ?thesis
      by (simp add: bus_coord_acquire_def)
  qed
next
  fix s p t d
  assume a: "bus_inv P s" "p \<in> P" "bus_holder s p = Some (t, d)" "d < 2 ^ 32 - 1"
  then have ne: "\<not> path_is_empty (Some p)"
    using assms by (auto simp: path_is_empty_def bus_keys_ok_def)
  from a(3) obtain i where i: "find_slot_locked p s = Some i" "owner (s ! i) = t" "depth (s ! i) = d"
    by (auto simp: bus_holder_def split: option.splits if_splits)
  with find_slot_Some [OF i(1)] take_slot_holder [OF a(1), of i t] a(4) ne
  show "\<exists>s'. bus_coord_acquire t (Some p) s = Some s' \<and> bus_inv P s' \<and>
      bus_holder s' = (bus_holder s)(p \<mapsto> (t, Suc d))"
    by (simp add: bus_coord_acquire_def)
next
  fix s p t u d
  assume a: "bus_inv P s" "p \<in> P" "bus_holder s p = Some (u, d)" "u \<noteq> t"
  then have "\<not> path_is_empty (Some p)"
    using assms by (auto simp: path_is_empty_def bus_keys_ok_def)
  with a(3,4) show "bus_coord_acquire t (Some p) s = None"
    by (auto simp: bus_coord_acquire_def bus_holder_def take_slot_def split: option.splits if_splits)
next
  fix s p t d
  assume a: "bus_inv P s" "p \<in> P" "bus_holder s p = Some (t, Suc d)"
  then have ne: "\<not> path_is_empty (Some p)"
    using assms by (auto simp: path_is_empty_def bus_keys_ok_def)
  from a(3) obtain i where i: "find_slot_locked p s = Some i" "owner (s ! i) = t" "depth (s ! i) = Suc d"
    by (auto simp: bus_holder_def split: option.splits if_splits)
  let ?sl = "(s ! i)\<lparr>depth := d\<rparr>"
  from i ne have "bus_coord_release t (Some p) s = s[i := ?sl]"
    by (simp add: bus_coord_release_def)
  with find_slot_Some [OF i(1)] i find_slot_update(1) [OF a(1), of i ?sl] bus_holder_update [OF a(1), of i ?sl]
  show "bus_inv P (bus_coord_release t (Some p) s) \<and> bus_holder (bus_coord_release t (Some p) s) =
      (bus_holder s)(p := if d = 0 then None else Some (t, d))" by simp
next
  fix s p t
  assume a: "bus_inv P s" "p \<in> P" "map_option fst (bus_holder s p) \<noteq> Some t"
  then show "bus_coord_release t (Some p) s = s"
    by (auto simp: bus_coord_release_def bus_holder_def split: option.splits if_splits)
qed

text \<open>The paths coordinated: those of \<open>P\<close> when they fit the table.\<close>

definition bus_keys :: "string set \<Rightarrow> string set" where
  "bus_keys P = (if bus_keys_ok P then P else {})"

interpretation bus: reentrant_lock
  "\<lambda>t p. bus_coord_acquire t (Some p)" "\<lambda>t p. bus_coord_release t (Some p)"
  bus_holder "bus_inv P" "bus_keys P" "2 ^ 32 - 1" for P
proof (cases "bus_keys_ok P")
  case True
  then show "reentrant_lock (\<lambda>t p. bus_coord_acquire t (Some p)) (\<lambda>t p. bus_coord_release t (Some p))
      bus_holder (bus_inv P) (bus_keys P) (2 ^ 32 - 1)"
    using bus_lock_laws by (simp add: bus_keys_def)
next
  case False
  then show "reentrant_lock (\<lambda>t p. bus_coord_acquire t (Some p)) (\<lambda>t p. bus_coord_release t (Some p))
      bus_holder (bus_inv P) (bus_keys P) (2 ^ 32 - 1)"
    by unfold_locales (auto simp: bus_keys_def bus_holder_def split: option.splits if_splits)
qed

text \<open>
  C19. For up to eight distinct non-empty paths shorter than 256 characters the slot table
  is a re-entrant lock per path: a free path is taken by whoever asks, its holder nests, any
  other thread waits; a release undoes one level and, at the last, frees the path; a release
  by a thread that does not hold the path changes nothing. Operations on one path never
  affect another.
\<close>

theorem bus_coord_refines_lock:
  assumes "bus_keys_ok P" and "bus_inv P s" and "p \<in> P"
  shows "(bus_holder s p = None \<longrightarrow> (\<exists>s'. bus_coord_acquire t (Some p) s = Some s' \<and> bus_inv P s' \<and>
      bus_holder s' = (bus_holder s)(p \<mapsto> (t, 1)))) \<and>
    (\<forall>d. bus_holder s p = Some (t, d) \<and> d < 2 ^ 32 - 1 \<longrightarrow>
      (\<exists>s'. bus_coord_acquire t (Some p) s = Some s' \<and> bus_inv P s' \<and>
        bus_holder s' = (bus_holder s)(p \<mapsto> (t, Suc d)))) \<and>
    (\<forall>u d. bus_holder s p = Some (u, d) \<and> u \<noteq> t \<longrightarrow>
      bus_coord_acquire t (Some p) s = None \<and> bus_coord_release t (Some p) s = s) \<and>
    (\<forall>d. bus_holder s p = Some (t, Suc d) \<longrightarrow> bus_inv P (bus_coord_release t (Some p) s) \<and>
      bus_holder (bus_coord_release t (Some p) s) =
        (bus_holder s)(p := if d = 0 then None else Some (t, d))) \<and>
    (bus_holder s p = None \<longrightarrow> bus_coord_release t (Some p) s = s)"
proof -
  have p: "p \<in> bus_keys P" using assms by (simp add: bus_keys_def)
  note b = assms(2) p
  show ?thesis
    using bus.acq_free [OF b, of t] bus.acq_own [OF b, of t] bus.acq_other [OF b, of _ _ t]
      bus.rel_own [OF b, of t] bus.rel_other [OF b, of t]
    by (intro conjI allI impI) auto
qed

section \<open>Any interleaving of threads\<close>

text \<open>The threads' steps in any order; \<open>h t p\<close> counts how often \<open>t\<close> holds \<open>p\<close>. A
  nesting of \<open>2 ^ 32\<close> levels, where the counter would wrap, is excluded.\<close>

inductive bus_reach :: "string set \<Rightarrow> bus_slots \<Rightarrow> (nat \<Rightarrow> string \<Rightarrow> nat) \<Rightarrow> bool" for P where
  bus_start: "bus_reach P bus_coord_init (\<lambda>_ _. 0)"
| bus_acquired: "bus_reach P s h \<Longrightarrow> p \<in> P \<Longrightarrow> h t p < 2 ^ 32 - 1 \<Longrightarrow>
    bus_coord_acquire t (Some p) s = Some s' \<Longrightarrow>
    bus_reach P s' (h(t := (h t)(p := Suc (h t p))))"
| bus_released: "bus_reach P s h \<Longrightarrow> p \<in> P \<Longrightarrow>
    bus_reach P (bus_coord_release t (Some p) s) (h(t := (h t)(p := h t p - 1)))"
| bus_no_path: "bus_reach P s h \<Longrightarrow> path_is_empty p \<Longrightarrow> bus_coord_acquire t p s = Some s' \<Longrightarrow>
    bus_reach P (bus_coord_release u p s') h"

lemma bus_holder_init: "bus_holder bus_coord_init p = None"
proof -
  have "find_slot_locked p bus_coord_init = None"
    unfolding find_slot_None by (simp add: bus_coord_init_def)
  then show ?thesis by (simp add: bus_holder_def)
qed

lemma bus_reach_agree:
  assumes "bus_keys_ok P" and "bus_reach P s h"
  shows "bus.agree P s h"
  using assms(2)
proof (induction rule: bus_reach.induct)
  case bus_start
  have "bus_holder bus_coord_init p = None" for p by (simp add: bus_holder_init)
  then show ?case by (simp add: bus.agree_def bus_inv_init)
next
  case (bus_acquired s h p t s')
  with assms(1) have "p \<in> bus_keys P" by (simp add: bus_keys_def)
  from bus.agree_acquire [OF bus_acquired.IH this bus_acquired.hyps(3,4)] show ?case .
next
  case (bus_released s h p t)
  with assms(1) have "p \<in> bus_keys P" by (simp add: bus_keys_def)
  from bus.agree_release [OF bus_released.IH this] show ?case .
next
  case (bus_no_path s h p t s' u)
  then show ?case by (simp add: bus_coord_acquire_def bus_coord_release_def)
qed

text \<open>
  C4. In every interleaving no two threads hold the same serial path at once, and an acquire
  proceeds exactly when no other thread holds the path: nobody waits for a free bus, and a
  nested acquire of the holder never waits.
\<close>

theorem bus_mutual_exclusion:
  assumes "bus_keys_ok P" and "bus_reach P s h"
  shows "(\<forall>p t u. 0 < h t p \<and> 0 < h u p \<longrightarrow> t = u) \<and>
    (\<forall>p\<in>P. \<forall>t. h t p < 2 ^ 32 - 1 \<longrightarrow>
       (bus_coord_acquire t (Some p) s \<noteq> None \<longleftrightarrow> (\<forall>u. u \<noteq> t \<longrightarrow> h u p = 0)))"
proof -
  have a: "bus.agree P s h" using assms by (rule bus_reach_agree)
  have "t = u" if "0 < h t p" "0 < h u p" for t u p
    using bus.agree_exclusive [OF a that] .
  moreover have "bus_coord_acquire t (Some p) s \<noteq> None \<longleftrightarrow> (\<forall>u. u \<noteq> t \<longrightarrow> h u p = 0)"
    if "p \<in> P" "h t p < 2 ^ 32 - 1" for t p
    using bus.agree_enabled [OF a _ that(2)] that(1) assms(1) by (simp add: bus_keys_def)
  ultimately show ?thesis by blast
qed

text \<open>
  Once eight other paths have been used, a further path is not coordinated at all: an
  acquire of it returns at once for every thread and leaves the table unchanged.
\<close>

theorem bus_ninth_path_uncoordinated:
  assumes "\<forall>i<BUS_COORD_MAX_BUSES. allocated (s ! i) \<and> bus_path (s ! i) \<noteq> p"
  shows "bus_coord_acquire t (Some p) s = Some s \<and> bus_coord_release t (Some p) s = s"
proof -
  have "find_slot_locked p s = None" using assms by (simp add: find_slot_None)
  moreover have "alloc_slot_locked p s = None"
    using assms by (auto simp: alloc_slot_locked_def find_None_ball split: option.split
        dest!: find_SomeD)
  ultimately show ?thesis by (simp add: bus_coord_acquire_def bus_coord_release_def)
qed

section \<open>Witnesses\<close>

definition two_paths :: "string set" where
  "two_paths = {''/dev/ttyS1'', ''/dev/ttyS2''}"

lemma two_paths_ok: "bus_keys_ok two_paths"
  by (simp add: bus_keys_ok_def two_paths_def)

theorem bus_coord_refines_lock_witness:
  "\<exists>s. bus_coord_acquire 1 (Some ''/dev/ttyS1'') bus_coord_init = Some s \<and>
     bus_holder s = (bus_holder bus_coord_init)(''/dev/ttyS1'' \<mapsto> (1, 1))"
  using bus_coord_refines_lock [OF two_paths_ok bus_inv_init, of "''/dev/ttyS1''" 1]
  by (auto simp: two_paths_def bus_holder_init)

theorem bus_mutual_exclusion_witness:
  "\<exists>s. bus_coord_acquire 1 (Some ''/dev/ttyS1'') bus_coord_init = Some s \<and>
     bus_coord_acquire 2 (Some ''/dev/ttyS1'') s = None \<and>
     bus_coord_acquire 2 (Some ''/dev/ttyS2'') s \<noteq> None"
proof -
  have p: "''/dev/ttyS1'' \<in> bus_keys two_paths"
    using two_paths_ok by (simp add: bus_keys_def two_paths_def)
  obtain s where s: "bus_coord_acquire 1 (Some ''/dev/ttyS1'') bus_coord_init = Some s"
    using bus.acq_free [OF bus_inv_init p bus_holder_init, of 1] by blast
  let ?h = "(\<lambda>(_ :: nat) (_ :: string). 0 :: nat)(1 := ((\<lambda>_. 0)(''/dev/ttyS1'' := Suc 0)))"
  have "bus_reach two_paths s ?h"
    using bus_acquired [OF bus_start _ _ s, of two_paths] by (simp add: two_paths_def)
  note m = bus_mutual_exclusion [OF two_paths_ok this, THEN conjunct2, rule_format]
  have h: "?h 2 q = 0" "?h u ''/dev/ttyS2'' = 0" "?h 1 ''/dev/ttyS1'' = 1" for q u by simp_all
  have "bus_coord_acquire 2 (Some ''/dev/ttyS1'') s = None"
  proof (rule ccontr)
    assume "bus_coord_acquire 2 (Some ''/dev/ttyS1'') s \<noteq> None"
    moreover have "''/dev/ttyS1'' \<in> two_paths" by (simp add: two_paths_def)
    moreover have "?h 2 ''/dev/ttyS1'' < 2 ^ 32 - 1" by simp
    ultimately have "\<forall>u. u \<noteq> 2 \<longrightarrow> ?h u ''/dev/ttyS1'' = 0" using m by blast
    from spec [OF this, of 1] show False by simp
  qed
  moreover have "bus_coord_acquire 2 (Some ''/dev/ttyS2'') s \<noteq> None"
    using m [of "''/dev/ttyS2''" 2] h(1,2) by (simp add: two_paths_def)
  ultimately show ?thesis using s by blast
qed

theorem bus_ninth_path_uncoordinated_witness:
  "let s = map (\<lambda>i. \<lparr>bus_path = replicate (Suc i) CHR ''x'', allocated = True, depth = 1, owner = 5\<rparr>) [0..<8]
   in bus_coord_acquire 1 (Some ''ninth'') s = Some s \<and> bus_coord_acquire 2 (Some ''ninth'') s = Some s"
proof -
  let ?s = "map (\<lambda>i. \<lparr>bus_path = replicate (Suc i) CHR ''x'', allocated = True, depth = 1, owner = 5\<rparr>) [0..<8]"
  have "\<forall>i<BUS_COORD_MAX_BUSES. allocated (?s ! i) \<and> bus_path (?s ! i) \<noteq> ''ninth''"
    by (auto simp del: upt_Suc)
  from bus_ninth_path_uncoordinated [OF this] show ?thesis by (simp add: Let_def)
qed

end
