(* ===== verification/Rtu_Frame.thy ===== *)
theory Rtu_Frame
  imports Modbus_Defs
begin

text \<open>
  The frame level of \<^verbatim>\<open>lib/modbus/modbus_rtu_client.c\<close>: the CRC, the append helpers, the
  verification of a response and the request ADUs the three operations build. A buffer
  being filled at \<^verbatim>\<open>pos\<close> is the list of the bytes written so far.
\<close>

section \<open>CRC16\<close>

definition crc_bit :: "u16 \<Rightarrow> u16" where
  "crc_bit crc = (if crc AND 1 \<noteq> 0 then drop_bit 1 crc XOR 0xA001 else drop_bit 1 crc)"

text \<open>The body of the outer loop for one byte of data.\<close>

definition crc_byte :: "u16 \<Rightarrow> u8 \<Rightarrow> u16" where
  "crc_byte crc b = (crc_bit ^^ 8) (crc XOR ucast b)"

definition mb_rtu_compute_crc16 :: "u8 list \<Rightarrow> u16" where
  "mb_rtu_compute_crc16 data = foldl crc_byte 0xFFFF data"

definition append_uint16_be :: "u8 list \<Rightarrow> u16 \<Rightarrow> u8 list" where
  "append_uint16_be buf v = buf @ [be_hi v, be_lo v]"

definition append_crc :: "u8 list \<Rightarrow> u8 list" where
  "append_crc buf = (let crc = mb_rtu_compute_crc16 buf in buf @ [be_lo crc, be_hi crc])"

definition verify_response_crc :: "u8 list \<Rightarrow> nat \<Rightarrow> bool" where
  "verify_response_crc buf len =
     (if len < MODBUS_RTU_CRC_LEN then False
      else
        let computed = mb_rtu_compute_crc16 (take (len - MODBUS_RTU_CRC_LEN) buf);
            received = ucast (buf ! (len - 2)) OR push_bit 8 (ucast (buf ! (len - 1)))
        in computed = received)"

section \<open>Request ADUs\<close>

definition rtu_read_request :: "u8 \<Rightarrow> u16 \<Rightarrow> u16 \<Rightarrow> u8 list" where
  "rtu_read_request uid a qty =
     append_crc (append_uint16_be (append_uint16_be [uid, MODBUS_FUNC_READ_HOLDING_REGISTERS] a) qty)"

definition rtu_write_single_request :: "u8 \<Rightarrow> u16 \<Rightarrow> u16 \<Rightarrow> u8 list" where
  "rtu_write_single_request uid a v =
     append_crc (append_uint16_be (append_uint16_be [uid, MODBUS_FUNC_WRITE_SINGLE_REGISTER] a) v)"

definition rtu_write_multiple_request :: "u8 \<Rightarrow> u16 \<Rightarrow> u16 \<Rightarrow> u16 list \<Rightarrow> u8 list" where
  "rtu_write_multiple_request uid a qty data =
     append_crc (foldl append_uint16_be
       (append_uint16_be (append_uint16_be [uid, MODBUS_FUNC_WRITE_MULTIPLE_REGISTERS] a) qty @
          [ucast (qty * 2)])
       (take (unat qty) data))"

text \<open>The loop that copies the registers of a response, big-endian pairs from byte 3.\<close>

definition response_registers :: "u8 list \<Rightarrow> nat \<Rightarrow> u16 list" where
  "response_registers resp qty = map (\<lambda>i. be_join (resp ! (3 + i * 2)) (resp ! (3 + i * 2 + 1))) [0..<qty]"

section \<open>The CRC is injective in its state and in each byte\<close>

lemma A001_top: "bit (0xA001 :: u16) 15"
  by simp

lemma crc_bit_nth:
  "bit (crc_bit c) n \<longleftrightarrow> n < 16 \<and> (bit c (Suc n) \<noteq> (bit c 0 \<and> bit (0xA001 :: u16) n))"
  unfolding crc_bit_def and_one_eq mod2_eq_if bit_0
  by (auto simp: bit_simps dest: bit_imp_le_length)

lemma crc_bit_inj: "inj crc_bit"
proof (rule injI)
  fix c d :: u16
  assume eq: "crc_bit c = crc_bit d"
  have b: "bit (crc_bit c) n = bit (crc_bit d) n" for n by (simp add: eq)
  have "\<not> bit c 16" "\<not> bit d 16" by (auto dest: bit_imp_le_length)
  with b [of 15] have b0: "bit c 0 = bit d 0"
    unfolding crc_bit_nth using A001_top by (simp add: eval_nat_numeral)
  show "c = d"
  proof (rule bit_word_eqI)
    fix n assume "n < LENGTH(16)"
    then show "bit c n = bit d n"
    proof (cases n)
      case 0
      then show ?thesis using b0 by simp
    next
      case (Suc m)
      with b [of m] b0 \<open>n < LENGTH(16)\<close> show ?thesis unfolding crc_bit_nth by auto
    qed
  qed
qed

lemma crc_bits_inj: "inj (crc_bit ^^ n)"
  using crc_bit_inj by (rule inj_fn)

lemma xor_cancel_left: "(a :: u16) XOR b = a XOR c \<longleftrightarrow> b = c"
proof
  assume "a XOR b = a XOR c"
  then have "a XOR (a XOR b) = a XOR (a XOR c)" by simp
  then show "b = c" by (simp only: xor.assoc [symmetric] xor_self_eq xor.left_neutral)
qed simp

lemma crc_byte_inj_crc: "crc_byte c b = crc_byte d b \<longleftrightarrow> c = d"
proof -
  have "crc_byte c b = crc_byte d b \<longleftrightarrow> c XOR ucast b = d XOR ucast b"
    unfolding crc_byte_def by (simp only: inj_eq [OF crc_bits_inj])
  then show ?thesis
    by (simp only: xor.commute [of c "ucast b"] xor.commute [of d "ucast b"] xor_cancel_left)
qed

lemma ucast_u8_u16_inj: "(ucast (a :: u8) :: u16) = ucast b \<longleftrightarrow> a = b"
proof
  assume "(ucast a :: u16) = ucast b"
  then have "be_join 0 a = be_join 0 b" by (simp add: be_join_def)
  then show "a = b" by (simp only: be_join_inject)
qed simp

lemma crc_byte_inj_byte: "crc_byte c a = crc_byte c b \<longleftrightarrow> a = b"
proof -
  have "crc_byte c a = crc_byte c b \<longleftrightarrow> c XOR ucast a = c XOR ucast b"
    unfolding crc_byte_def by (simp only: inj_eq [OF crc_bits_inj])
  then show ?thesis by (simp only: xor_cancel_left ucast_u8_u16_inj)
qed

lemma crc_fold_inj: "foldl crc_byte c data = foldl crc_byte d data \<longleftrightarrow> c = d"
  by (induction data arbitrary: c d) (auto simp: crc_byte_inj_crc)

lemma crc_change_one_byte:
  assumes "i < length data"
  shows "mb_rtu_compute_crc16 (data[i := b]) = mb_rtu_compute_crc16 data \<longleftrightarrow> b = data ! i"
proof -
  have "data[i := b] = take i data @ b # drop (Suc i) data"
    using assms by (rule upd_conv_take_nth_drop)
  moreover have "data = take i data @ data ! i # drop (Suc i) data"
    using assms by (rule id_take_nth_drop)
  then have "foldl crc_byte 0xFFFF data =
      foldl crc_byte (crc_byte (foldl crc_byte 0xFFFF (take i data)) (data ! i)) (drop (Suc i) data)"
    by (metis foldl_Cons foldl_append)
  ultimately show ?thesis
    by (simp only: mb_rtu_compute_crc16_def foldl_append foldl_Cons crc_fold_inj crc_byte_inj_byte)
qed

section \<open>Verification of received frames\<close>

lemma crc_received:
  "ucast lo OR push_bit 8 (ucast hi) = be_join hi (lo :: u8)"
  by (simp add: be_join_def or.commute)

lemma verify_split:
  "verify_response_crc (body @ [lo, hi]) (length body + 2) \<longleftrightarrow> mb_rtu_compute_crc16 body = be_join hi lo"
  by (simp add: verify_response_crc_def crc_received nth_append del: be_join_split)

lemma append_crc_length [simp]: "length (append_crc buf) = length buf + 2"
  by (simp add: append_crc_def Let_def)

lemma verify_append_crc: "verify_response_crc (append_crc body) (length body + 2)"
  unfolding append_crc_def Let_def verify_split by simp

lemma verify_iff:
  assumes "length buf = len"
  shows "verify_response_crc buf len \<longleftrightarrow> (\<exists>body. buf = append_crc body)"
proof
  assume v: "verify_response_crc buf len"
  then have "2 \<le> len" by (auto simp: verify_response_crc_def split: if_splits)
  let ?body = "take (len - 2) buf"
  have "drop (len - 2) buf = [buf ! (len - 2), buf ! (len - 1)]"
  proof -
    have "drop (len - 2) buf = buf ! (len - 2) # drop (len - 1) buf"
      using assms \<open>2 \<le> len\<close> Cons_nth_drop_Suc [of "len - 2" buf] by (simp add: Suc_diff_le [symmetric])
    moreover have "drop (len - 1) buf = [buf ! (len - 1)]"
      using assms \<open>2 \<le> len\<close> Cons_nth_drop_Suc [of "len - 1" buf] by simp
    ultimately show ?thesis by simp
  qed
  then have b: "buf = ?body @ [buf ! (len - 2), buf ! (len - 1)]"
    by (metis append_take_drop_id)
  have "length ?body + 2 = len" using assms \<open>2 \<le> len\<close> by simp
  with v b have "mb_rtu_compute_crc16 ?body = be_join (buf ! (len - 1)) (buf ! (len - 2))"
    using verify_split [of ?body "buf ! (len - 2)" "buf ! (len - 1)"] by metis
  with b have "buf = append_crc ?body" by (simp add: append_crc_def)
  then show "\<exists>body. buf = append_crc body" by blast
next
  assume "\<exists>body. buf = append_crc body"
  with assms verify_append_crc show "verify_response_crc buf len" by fastforce
qed

text \<open>
  C30. The response check accepts exactly the buffers that append_crc produces, and a frame
  it accepts is rejected after any one byte of it, data or checksum, has been changed.
\<close>

theorem crc_detects_byte_errors:
  assumes "length frame = len"
  shows "(verify_response_crc frame len \<longleftrightarrow> (\<exists>body. frame = append_crc body)) \<and>
    (verify_response_crc frame len \<longrightarrow>
      (\<forall>i<len. \<forall>b. b \<noteq> frame ! i \<longrightarrow> \<not> verify_response_crc (frame[i := b]) len))"
proof -
  have "\<not> verify_response_crc (frame[i := b]) len"
    if v: "verify_response_crc frame len" and i: "i < len" and b: "b \<noteq> frame ! i" for i b
  proof
    assume v': "verify_response_crc (frame[i := b]) len"
    from v assms obtain body where f: "frame = append_crc body" by (auto simp: verify_iff)
    with assms have len: "len = length body + 2" by simp
    from v' assms obtain body' where f': "frame[i := b] = append_crc body'"
      by (auto simp: verify_iff)
    then have "length body' = length body"
      by (metis append_crc_length add_right_cancel assms f length_list_update)
    show False
    proof (cases "i < length body")
      case True
      with f f' \<open>length body' = length body\<close> have "body' = body[i := b]"
        and "mb_rtu_compute_crc16 body = mb_rtu_compute_crc16 body'"
        by (auto simp: append_crc_def Let_def list_update_append) (metis be_join_split)+
      with True have "b = body ! i" by (simp add: crc_change_one_byte [symmetric])
      with True b f show False by (simp add: append_crc_def Let_def nth_append)
    next
      case False
      with f f' \<open>length body' = length body\<close> have "body' = body"
        by (auto simp: append_crc_def Let_def list_update_append)
      with f f' have "frame[i := b] = frame" by simp
      with b i assms show False by (metis nth_list_update_eq)
    qed
  qed
  with assms show ?thesis by (auto simp: verify_iff)
qed

lemma append_regs: "foldl append_uint16_be buf vs = buf @ regs_to_bytes vs"
  by (induction vs arbitrary: buf) (simp_all add: append_uint16_be_def)

lemma rtu_read_request_body:
  "rtu_read_request uid a qty = append_crc [uid, 3, be_hi a, be_lo a, be_hi qty, be_lo qty]"
  by (simp add: rtu_read_request_def append_uint16_be_def)

lemma rtu_write_single_request_body:
  "rtu_write_single_request uid a v = append_crc [uid, 6, be_hi a, be_lo a, be_hi v, be_lo v]"
  by (simp add: rtu_write_single_request_def append_uint16_be_def)

lemma rtu_write_multiple_request_body:
  "rtu_write_multiple_request uid a qty data = append_crc
     ([uid, 16, be_hi a, be_lo a, be_hi qty, be_lo qty, ucast (qty * 2)] @
      regs_to_bytes (take (unat qty) data))"
  by (simp add: rtu_write_multiple_request_def append_uint16_be_def append_regs)

lemma response_registers_append:
  "response_registers ([u, f, c] @ regs_to_bytes vs @ rest) (length vs) = vs"
proof (rule nth_equalityI)
  fix i assume "i < length (response_registers ([u, f, c] @ regs_to_bytes vs @ rest) (length vs))"
  then have i: "i < length vs" by (simp add: response_registers_def)
  have "([u, f, c] @ regs_to_bytes vs @ rest) ! (3 + 2 * i) = be_hi (vs ! i)"
    "([u, f, c] @ regs_to_bytes vs @ rest) ! (3 + 2 * i + 1) = be_lo (vs ! i)"
    using i regs_to_bytes_nth [OF i] by (simp_all add: nth_append numeral_3_eq_3)
  then show "response_registers ([u, f, c] @ regs_to_bytes vs @ rest) (length vs) ! i = vs ! i"
    using i by (simp add: response_registers_def mult.commute [of i 2])
qed (simp add: response_registers_def)

lemma even_bytes_regs:
  "length bs = 2 * q \<Longrightarrow> \<exists>vs. length vs = q \<and> bs = regs_to_bytes vs"
proof (induction q arbitrary: bs)
  case 0
  then show ?case by simp
next
  case (Suc q)
  then obtain h l bs' where bs: "bs = h # l # bs'" "length bs' = 2 * q"
    by (metis (no_types, opaque_lifting) length_Suc_conv mult_Suc_right add_2_eq_Suc)
  with Suc.IH obtain vs where "length vs = q" "bs' = regs_to_bytes vs" by blast
  with bs show ?case by (intro exI [of _ "be_join h l # vs"]) simp
qed

text \<open>
  The FC03 and FC06 requests are the eight bytes of the Modbus frame; an FC16 request
  for 1 to 123 registers carries twice that many data bytes in order, with the byte count
  not truncated, and stays within the 256-byte ADU buffer; every request passes the check
  its receiver applies.
\<close>

theorem rtu_request_format:
  assumes "qty \<le> MODBUS_MAX_WRITE_REGISTERS" and "length data = unat qty"
  shows "length (rtu_read_request uid a v) = 8 \<and> length (rtu_write_single_request uid a v) = 8 \<and>
    take 6 (rtu_read_request uid a v) = [uid, 3, be_hi a, be_lo a, be_hi v, be_lo v] \<and>
    take 6 (rtu_write_single_request uid a v) = [uid, 6, be_hi a, be_lo a, be_hi v, be_lo v] \<and>
    length (rtu_write_multiple_request uid a qty data) = 9 + 2 * unat qty \<and>
    length (rtu_write_multiple_request uid a qty data) \<le> MODBUS_RTU_MAX_ADU_LENGTH \<and>
    unat (rtu_write_multiple_request uid a qty data ! 6) = 2 * unat qty \<and>
    drop 7 (take (7 + 2 * unat qty) (rtu_write_multiple_request uid a qty data)) = regs_to_bytes data \<and>
    verify_response_crc (rtu_read_request uid a v) 8 \<and>
    verify_response_crc (rtu_write_multiple_request uid a qty data) (9 + 2 * unat qty)"
proof -
  have q: "unat qty \<le> 123"
    using assms(1) by (simp add: word_le_nat_alt)
  have len: "length (rtu_write_multiple_request uid a qty data) = 9 + 2 * unat qty"
    using assms(2) by (simp add: rtu_write_multiple_request_body)
  have "unat (ucast (qty * 2) :: u8) = 2 * unat qty"
    using q by (simp add: unsigned_ucast_eq unat_word_ariths take_bit_eq_mod)
  then have bc: "unat (rtu_write_multiple_request uid a qty data ! 6) = 2 * unat qty"
    by (simp add: rtu_write_multiple_request_body append_crc_def Let_def nth_append)
  have "verify_response_crc (rtu_write_multiple_request uid a qty data) (9 + 2 * unat qty)"
    using len by (subst verify_iff) (auto simp: rtu_write_multiple_request_body)
  moreover have "verify_response_crc (rtu_read_request uid a v) 8"
    by (subst verify_iff) (auto simp: rtu_read_request_body)
  moreover have "drop 7 (take (7 + 2 * unat qty) (rtu_write_multiple_request uid a qty data)) =
      regs_to_bytes data"
  proof -
    let ?h = "[uid, 16, be_hi a, be_lo a, be_hi qty, be_lo qty, ucast (qty * 2)]"
    obtain c where "rtu_write_multiple_request uid a qty data = ?h @ regs_to_bytes data @ c"
      using assms(2) by (simp add: rtu_write_multiple_request_body append_crc_def Let_def)
    moreover have "length ?h = 7" by simp
    moreover have "drop 7 (take (7 + 2 * unat qty) (h @ regs_to_bytes data @ c)) = regs_to_bytes data"
      if "length h = 7" for h
      using that assms(2) by simp
    ultimately show ?thesis by metis
  qed
  ultimately show ?thesis using len bc q
    by (simp add: rtu_read_request_body rtu_write_single_request_body append_crc_def Let_def)
qed

section \<open>Witnesses\<close>

theorem crc_detects_byte_errors_witness:
  "verify_response_crc (rtu_read_request 1 0x2100 2) 8 \<and>
   \<not> verify_response_crc ((rtu_read_request 1 0x2100 2)[3 := 0x77]) 8"
proof -
  have len: "length (rtu_read_request 1 0x2100 2) = 8" by (simp add: rtu_read_request_body)
  note t = crc_detects_byte_errors [OF len]
  have v: "verify_response_crc (rtu_read_request 1 0x2100 2) 8"
    using t rtu_read_request_body by metis
  have "rtu_read_request 1 0x2100 2 ! 3 = be_lo 0x2100"
    by (simp add: rtu_read_request_body append_crc_def Let_def)
  then have "(0x77 :: u8) \<noteq> rtu_read_request 1 0x2100 2 ! 3"
    by (simp add: be_lo_def)
  with t v show ?thesis by auto
qed

theorem rtu_request_format_witness:
  "length (rtu_write_multiple_request 1 0x10 2 [7, 8]) = 13 \<and>
   take 4 (drop 7 (rtu_write_multiple_request 1 0x10 2 [7, 8])) = [0, 7, 0, 8]"
  using rtu_request_format [of 2 "[7, 8]" 1 "0x10" 0]
  by (simp add: be_hi_def be_lo_def drop_take)

lemma crc_byte_8:
  "crc_byte c b = crc_bit (crc_bit (crc_bit (crc_bit (crc_bit (crc_bit (crc_bit (crc_bit (c XOR ucast b))))))))"
  by (simp add: crc_byte_def eval_nat_numeral)

lemma crc_bit_numeral:
  "crc_bit (numeral n) = (if numeral n AND 1 \<noteq> (0 :: u16) then drop_bit 1 (numeral n) XOR 0xA001
     else drop_bit 1 (numeral n))"
  by (rule crc_bit_def)

text \<open>The published check value of this CRC for the characters 1 to 9.\<close>

lemma crc_reference_value:
  "mb_rtu_compute_crc16 [0x31, 0x32, 0x33, 0x34, 0x35, 0x36, 0x37, 0x38, 0x39] = 0x4B37"
  by (simp add: mb_rtu_compute_crc16_def crc_byte_8 crc_bit_numeral)

end
