(* ===== verification/Rtu_Client.thy ===== *)
theory Rtu_Client
  imports Rtu_Frame "HOL-Library.Signed_Division"
begin

text \<open>
  \<^verbatim>\<open>lib/modbus/modbus_rtu_client.c\<close>: the serial port configuration, the registry of shared
  buses with its reference counts, the hand-off silence, the request/response transaction
  and the client operations.

  The operating system is a parameter: \<open>serial_os\<close> has one function per call the code makes,
  over an environment \<open>'e\<close>. \<open>os_wait\<close> is \<^verbatim>\<open>wait_for_data\<close> with the restart after EINTR,
  \<open>os_read\<close> is \<^const>\<open>None\<close> when \<^verbatim>\<open>read\<close> returns 0 or an error. Mutexes make every
  operation on a bus atomic and are otherwise not visible; the hex dump of a failed
  transaction goes to the log only. Output buffers are never NULL in the program.
\<close>

section \<open>Return codes and constants\<close>

abbreviation MB_RTU_CLIENT_OK :: int where "MB_RTU_CLIENT_OK \<equiv> 0"
abbreviation MB_RTU_CLIENT_ERR_ARG :: int where "MB_RTU_CLIENT_ERR_ARG \<equiv> -1"
abbreviation MB_RTU_CLIENT_ERR_NOT_OPEN :: int where "MB_RTU_CLIENT_ERR_NOT_OPEN \<equiv> -2"
abbreviation MB_RTU_CLIENT_ERR_TRANSPORT :: int where "MB_RTU_CLIENT_ERR_TRANSPORT \<equiv> -3"
abbreviation MB_RTU_CLIENT_ERR_TIMEOUT :: int where "MB_RTU_CLIENT_ERR_TIMEOUT \<equiv> -4"
abbreviation MB_RTU_CLIENT_ERR_FRAME :: int where "MB_RTU_CLIENT_ERR_FRAME \<equiv> -5"
abbreviation MB_RTU_CLIENT_ERR_CRC :: int where "MB_RTU_CLIENT_ERR_CRC \<equiv> -6"

abbreviation RTU_DEFAULT_TIMEOUT_MS :: u32 where "RTU_DEFAULT_TIMEOUT_MS \<equiv> 1000"
abbreviation RTU_INTER_FRAME_DELAY_US :: nat where "RTU_INTER_FRAME_DELAY_US \<equiv> 5000"
abbreviation RTU_MIN_BUS_HANDOFF_SILENCE_MS :: int where "RTU_MIN_BUS_HANDOFF_SILENCE_MS \<equiv> 30"
abbreviation MB_RTU_MAX_SHARED_BUSES :: nat where "MB_RTU_MAX_SHARED_BUSES \<equiv> 8"

section \<open>Data\<close>

datatype speed = B1200 | B2400 | B4800 | B9600 | B19200 | B38400 | B57600 | B115200

text \<open>\<^verbatim>\<open>struct termios\<close> as far as the code sets it.\<close>

record termios =
  c_iflag :: u32
  c_oflag :: u32
  c_cflag :: u32
  c_lflag :: u32
  c_ispeed :: speed
  c_ospeed :: speed
  c_vmin :: u8
  c_vtime :: u8

record 'e serial_os =
  os_open :: "string \<Rightarrow> 'e \<Rightarrow> int \<times> 'e"
  os_clear_ndelay :: "int \<Rightarrow> 'e \<Rightarrow> 'e"
  os_close :: "int \<Rightarrow> 'e \<Rightarrow> 'e"
  os_tcgetattr :: "int \<Rightarrow> 'e \<Rightarrow> termios option \<times> 'e"
  os_tcsetattr :: "int \<Rightarrow> termios \<Rightarrow> 'e \<Rightarrow> bool \<times> 'e"
  os_tcflush :: "int \<Rightarrow> 'e \<Rightarrow> 'e"
  os_write :: "int \<Rightarrow> u8 list \<Rightarrow> 'e \<Rightarrow> int \<times> 'e"
  os_wait :: "int \<Rightarrow> u32 \<Rightarrow> 'e \<Rightarrow> int \<times> 'e"
  os_read :: "int \<Rightarrow> nat \<Rightarrow> 'e \<Rightarrow> u8 list option \<times> 'e"
  os_clock :: "'e \<Rightarrow> int \<times> int"
  os_usleep :: "nat \<Rightarrow> 'e \<Rightarrow> 'e"

record shared_bus =
  sb_path :: string
  in_use :: bool
  sb_fd :: int
  refcnt :: nat
  sb_baud_rate :: u32
  has_last_transaction :: bool
  last_unit_id :: u8
  last_release_time :: "int \<times> int"

record rtu_config =
  serial_path :: "string option"
  rtu_baud_rate :: u32
  rtu_unit_id :: u8
  rtu_response_timeout_ms :: u32

text \<open>\<^verbatim>\<open>shared_bus\<close> is the index of the record in \<^verbatim>\<open>shared_buses\<close>.\<close>

record rtu_ctx =
  rtu_fd :: int
  rtu_bus :: "nat option"
  rtu_cfg :: rtu_config

record 'e rtu_world =
  rw_buses :: "shared_bus list"
  rw_env :: 'e

definition zero_bus :: shared_bus where
  "zero_bus = \<lparr>sb_path = [], in_use = False, sb_fd = 0, refcnt = 0, sb_baud_rate = 0,
     has_last_transaction = False, last_unit_id = 0, last_release_time = (0, 0)\<rparr>"

section \<open>Serial port configuration\<close>

definition map_baud_rate :: "u32 \<Rightarrow> speed" where
  "map_baud_rate b =
     (if b = 1200 then B1200 else if b = 2400 then B2400 else if b = 4800 then B4800
      else if b = 9600 then B9600 else if b = 19200 then B19200 else if b = 38400 then B38400
      else if b = 57600 then B57600 else if b = 115200 then B115200 else B9600)"

text \<open>The flag values of \<^verbatim>\<open>termios.h\<close>.\<close>

abbreviation CSIZE :: u32 where "CSIZE \<equiv> 0x30"
abbreviation CS8 :: u32 where "CS8 \<equiv> 0x30"
abbreviation CSTOPB :: u32 where "CSTOPB \<equiv> 0x40"
abbreviation CREAD :: u32 where "CREAD \<equiv> 0x80"
abbreviation PARENB :: u32 where "PARENB \<equiv> 0x100"
abbreviation CLOCAL :: u32 where "CLOCAL \<equiv> 0x800"
abbreviation CRTSCTS :: u32 where "CRTSCTS \<equiv> 0x80000000"
abbreviation raw_lflags :: u32 where "raw_lflags \<equiv> 0x1B"
abbreviation OPOST :: u32 where "OPOST \<equiv> 0x1"
abbreviation soft_flow_iflags :: u32 where "soft_flow_iflags \<equiv> 0x1C00"
abbreviation byte_map_iflags :: u32 where "byte_map_iflags \<equiv> 0x1EB"

definition rtu_termios :: "u32 \<Rightarrow> u32 \<Rightarrow> termios \<Rightarrow> termios" where
  "rtu_termios baud timeout_ms tty =
     tty\<lparr>c_ispeed := map_baud_rate baud, c_ospeed := map_baud_rate baud,
         c_cflag := ((((((c_cflag tty AND NOT PARENB) AND NOT CSTOPB) AND NOT CSIZE) OR CS8)
                       AND NOT CRTSCTS) OR (CREAD OR CLOCAL)),
         c_lflag := c_lflag tty AND NOT raw_lflags,
         c_oflag := c_oflag tty AND NOT OPOST,
         c_iflag := (c_iflag tty AND NOT soft_flow_iflags) AND NOT byte_map_iflags,
         c_vmin := 0,
         c_vtime := ucast (timeout_ms div 100 + 1)\<rparr>"

definition configure_serial_port ::
  "'e serial_os \<Rightarrow> int \<Rightarrow> u32 \<Rightarrow> u32 \<Rightarrow> 'e \<Rightarrow> int \<times> 'e" where
  "configure_serial_port os fd baud timeout_ms e =
     (case os_tcgetattr os fd e of
        (None, e1) \<Rightarrow> (-1, e1)
      | (Some tty, e1) \<Rightarrow>
          let (ok, e2) = os_tcsetattr os fd (rtu_termios baud timeout_ms tty) e1
          in (if ok then 0 else -1, e2))"

section \<open>The registry of shared buses\<close>

text \<open>The two scans of the registry take the first record that satisfies a test.\<close>

definition search_bus :: "(nat \<Rightarrow> bool) \<Rightarrow> nat option" where
  "search_bus P = List.find P [0..<MB_RTU_MAX_SHARED_BUSES]"

definition acquire_shared_bus :: "string \<Rightarrow> shared_bus list \<Rightarrow> nat option \<times> shared_bus list" where
  "acquire_shared_bus path bs =
     (case search_bus (\<lambda>i. in_use (bs ! i) \<and> sb_path (bs ! i) = path) of
        Some i \<Rightarrow> (Some i, bs)
      | None \<Rightarrow>
          (case search_bus (\<lambda>i. \<not> in_use (bs ! i)) of
             Some i \<Rightarrow> (Some i, bs[i := zero_bus\<lparr>sb_path := take 255 path, in_use := True, sb_fd := -1\<rparr>])
           | None \<Rightarrow> (None, bs)))"

text \<open>The descriptor is the out-parameter; \<^const>\<open>None\<close> is the result -1.\<close>

definition shared_bus_attach_port ::
  "'e serial_os \<Rightarrow> nat \<Rightarrow> u32 \<Rightarrow> u32 \<Rightarrow> 'e rtu_world \<Rightarrow> int option \<times> 'e rtu_world" where
  "shared_bus_attach_port os i baud timeout_ms w =
     (let bus = rw_buses w ! i;
          attach = (\<lambda>b e. (Some (sb_fd b),
                      \<lparr>rw_buses = (rw_buses w)[i := b\<lparr>refcnt := refcnt b + 1\<rparr>], rw_env = e\<rparr>))
      in if sb_fd bus < 0 then
           (let (fd, e1) = os_open os (sb_path bus) (rw_env w)
            in if fd < 0 then (None, w\<lparr>rw_env := e1\<rparr>)
               else
                 let (rc, e2) = configure_serial_port os fd baud timeout_ms (os_clear_ndelay os fd e1)
                 in if rc \<noteq> 0 then (None, w\<lparr>rw_env := os_close os fd e2\<rparr>)
                    else attach (bus\<lparr>sb_fd := fd, sb_baud_rate := baud, refcnt := 0,
                                     has_last_transaction := False\<rparr>) e2)
         else if sb_baud_rate bus \<noteq> baud then (None, w)
         else attach bus (rw_env w))"

definition shared_bus_detach_port :: "'e serial_os \<Rightarrow> nat \<Rightarrow> 'e rtu_world \<Rightarrow> 'e rtu_world" where
  "shared_bus_detach_port os i w =
     (let b = rw_buses w ! i;
          b1 = (if refcnt b > 0 then b\<lparr>refcnt := refcnt b - 1\<rparr> else b)
      in if refcnt b1 = 0 \<and> sb_fd b1 \<ge> 0
         then \<lparr>rw_buses = (rw_buses w)[i := b1\<lparr>sb_fd := -1, has_last_transaction := False\<rparr>],
               rw_env = os_close os (sb_fd b1) (rw_env w)\<rparr>
         else w\<lparr>rw_buses := (rw_buses w)[i := b1]\<rparr>)"

text \<open>Division of C \<^verbatim>\<open>long\<close> truncates.\<close>

definition elapsed_ms :: "int \<times> int \<Rightarrow> int \<times> int \<Rightarrow> int" where
  "elapsed_ms now t0 = (fst now - fst t0) * 1000 + (snd now - snd t0) sdiv 1000000"

definition enforce_bus_handoff_silence ::
  "'e serial_os \<Rightarrow> shared_bus \<Rightarrow> u8 \<Rightarrow> 'e \<Rightarrow> 'e" where
  "enforce_bus_handoff_silence os bus uid e =
     (if \<not> has_last_transaction bus \<or> last_unit_id bus = uid then e
      else
        let el = elapsed_ms (os_clock os e) (last_release_time bus)
        in if el \<ge> 0 \<and> el < RTU_MIN_BUS_HANDOFF_SILENCE_MS
           then os_usleep os (nat (RTU_MIN_BUS_HANDOFF_SILENCE_MS - el) * 1000) e
           else e)"

section \<open>The transaction\<close>

text \<open>
  \<^verbatim>\<open>read_exact\<close>, with the bytes received so far. A \<^verbatim>\<open>read\<close> that returns no byte is an error,
  so every turn of the loop brings the end nearer.
\<close>

function read_exact ::
  "'e serial_os \<Rightarrow> int \<Rightarrow> nat \<Rightarrow> u32 \<Rightarrow> u8 list \<Rightarrow> 'e \<Rightarrow> int \<times> u8 list \<times> 'e" where
  "read_exact os fd n timeout_ms got e =
     (if length got < n then
        (case os_wait os fd timeout_ms e of
           (ready, e1) \<Rightarrow>
             if ready = 0 then (0, got, e1)
             else if ready < 0 then (-1, got, e1)
             else
               (case os_read os fd (n - length got) e1 of
                  (None, e2) \<Rightarrow> (-1, got, e2)
                | (Some bs, e2) \<Rightarrow>
                    if bs = [] then (-1, got, e2)
                    else read_exact os fd n timeout_ms (got @ bs) e2))
      else (int (length got), got, e))"
  by pat_completeness auto
termination
  by (relation "measure (\<lambda>(os, fd, n, t, got, e). n - length got)")
    (auto intro!: diff_less_mono2)

declare read_exact.simps [simp del]

text \<open>What the code concludes from a complete response of the expected length.\<close>

definition response_verdict :: "u8 \<Rightarrow> u8 list \<Rightarrow> nat \<Rightarrow> int" where
  "response_verdict uid resp resp_len =
     (if \<not> verify_response_crc resp resp_len then MB_RTU_CLIENT_ERR_CRC
      else if resp ! 0 \<noteq> uid then MB_RTU_CLIENT_ERR_FRAME
      else if resp ! 1 AND MODBUS_EXCEPTION_FLAG \<noteq> 0
      then (if resp_len \<ge> 3 + MODBUS_RTU_CRC_LEN then uint (resp ! 2) else MB_RTU_CLIENT_ERR_FRAME)
      else MB_RTU_CLIENT_OK)"

definition rtu_timeout :: "rtu_config \<Rightarrow> u32" where
  "rtu_timeout cfg =
     (if rtu_response_timeout_ms cfg > 0 then rtu_response_timeout_ms cfg else RTU_DEFAULT_TIMEOUT_MS)"

definition exchange ::
  "'e serial_os \<Rightarrow> rtu_ctx \<Rightarrow> u8 list \<Rightarrow> nat \<Rightarrow> 'e \<Rightarrow> int \<times> u8 list \<times> 'e" where
  "exchange os ctx req resp_len e =
     (let (written, e1) = os_write os (rtu_fd ctx) req (os_tcflush os (rtu_fd ctx) e)
      in if written \<noteq> int (length req) then (MB_RTU_CLIENT_ERR_TRANSPORT, [], e1)
         else
           let (received, resp, e2) = read_exact os (rtu_fd ctx) resp_len (rtu_timeout (rtu_cfg ctx)) []
                  (os_usleep os RTU_INTER_FRAME_DELAY_US e1)
           in (if received = 0 then MB_RTU_CLIENT_ERR_TIMEOUT
               else if received < 0 then MB_RTU_CLIENT_ERR_TRANSPORT
               else response_verdict (rtu_unit_id (rtu_cfg ctx)) resp resp_len, resp, e2))"

definition do_transaction ::
  "'e serial_os \<Rightarrow> rtu_ctx \<Rightarrow> u8 list \<Rightarrow> nat \<Rightarrow> 'e rtu_world \<Rightarrow> int \<times> u8 list \<times> 'e rtu_world" where
  "do_transaction os ctx req resp_len w =
     (case rtu_bus ctx of
        None \<Rightarrow> (let (r, resp, e) = exchange os ctx req resp_len (rw_env w) in (r, resp, w\<lparr>rw_env := e\<rparr>))
      | Some i \<Rightarrow>
          let e0 = enforce_bus_handoff_silence os (rw_buses w ! i) (rtu_unit_id (rtu_cfg ctx)) (rw_env w);
              (r, resp, e) = exchange os ctx req resp_len e0
          in (r, resp, w\<lparr>rw_env := e, rw_buses := (rw_buses w)[i := (rw_buses w ! i)
                 \<lparr>last_release_time := os_clock os e, last_unit_id := rtu_unit_id (rtu_cfg ctx),
                  has_last_transaction := True\<rparr>]\<rparr>))"

section \<open>Client operations\<close>

text \<open>The context pointer may be NULL; then the caller's object is not touched.\<close>

definition mb_rtu_client_connect ::
  "'e serial_os \<Rightarrow> rtu_config \<Rightarrow> rtu_ctx \<Rightarrow> 'e rtu_world \<Rightarrow> int \<times> rtu_ctx \<times> 'e rtu_world" where
  "mb_rtu_client_connect os cfg old w =
     (case serial_path cfg of
        None \<Rightarrow> (-1, old, w)
      | Some path \<Rightarrow>
          let ctx = \<lparr>rtu_fd = -1, rtu_bus = None, rtu_cfg = cfg\<rparr>
          in case acquire_shared_bus path (rw_buses w) of
               (None, bs) \<Rightarrow> (-1, ctx, w\<lparr>rw_buses := bs\<rparr>)
             | (Some i, bs) \<Rightarrow>
                 (case shared_bus_attach_port os i (rtu_baud_rate cfg) (rtu_timeout cfg)
                         (w\<lparr>rw_buses := bs\<rparr>) of
                    (None, w1) \<Rightarrow> (-1, ctx, w1)
                  | (Some fd, w1) \<Rightarrow> (0, ctx\<lparr>rtu_fd := fd, rtu_bus := Some i\<rparr>, w1)))"

definition mb_rtu_client_disconnect ::
  "'e serial_os \<Rightarrow> rtu_ctx \<Rightarrow> 'e rtu_world \<Rightarrow> rtu_ctx \<times> 'e rtu_world" where
  "mb_rtu_client_disconnect os ctx w =
     (case rtu_bus ctx of
        Some i \<Rightarrow>
          if rtu_fd ctx \<ge> 0 then (ctx\<lparr>rtu_fd := -1\<rparr>, shared_bus_detach_port os i w) else (ctx, w)
      | None \<Rightarrow> (ctx, w))"

text \<open>The registers a read delivers are \<^const>\<open>None\<close> unless it stored them.\<close>

definition mb_rtu_client_read_holding_registers ::
  "'e serial_os \<Rightarrow> rtu_ctx option \<Rightarrow> u16 \<Rightarrow> u16 \<Rightarrow> 'e rtu_world \<Rightarrow> int \<times> u16 list option \<times> 'e rtu_world" where
  "mb_rtu_client_read_holding_registers os ctx addr qty w =
     (case ctx of
        None \<Rightarrow> (MB_RTU_CLIENT_ERR_ARG, None, w)
      | Some c \<Rightarrow>
          if qty = 0 \<or> qty > MODBUS_MAX_READ_REGISTERS then (MB_RTU_CLIENT_ERR_ARG, None, w)
          else if rtu_fd c < 0 then (MB_RTU_CLIENT_ERR_NOT_OPEN, None, w)
          else
            let (result, resp, w1) = do_transaction os c (rtu_read_request (rtu_unit_id (rtu_cfg c)) addr qty)
                   (3 + unat qty * 2 + MODBUS_RTU_CRC_LEN) w
            in if result = MB_RTU_CLIENT_OK then
                 (if resp ! 1 \<noteq> MODBUS_FUNC_READ_HOLDING_REGISTERS \<or> resp ! 2 \<noteq> ucast (qty * 2)
                  then (MB_RTU_CLIENT_ERR_FRAME, None, w1)
                  else (result, Some (response_registers resp (unat qty)), w1))
               else (result, None, w1))"

definition mb_rtu_client_write_single_register ::
  "'e serial_os \<Rightarrow> rtu_ctx option \<Rightarrow> u16 \<Rightarrow> u16 \<Rightarrow> 'e rtu_world \<Rightarrow> int \<times> 'e rtu_world" where
  "mb_rtu_client_write_single_register os ctx addr v w =
     (case ctx of
        None \<Rightarrow> (MB_RTU_CLIENT_ERR_ARG, w)
      | Some c \<Rightarrow>
          if rtu_fd c < 0 then (MB_RTU_CLIENT_ERR_NOT_OPEN, w)
          else
            let req = rtu_write_single_request (rtu_unit_id (rtu_cfg c)) addr v;
                (result, resp, w1) = do_transaction os c req (length req) w
            in (if result = MB_RTU_CLIENT_OK \<and> resp ! 1 \<noteq> MODBUS_FUNC_WRITE_SINGLE_REGISTER
                then MB_RTU_CLIENT_ERR_FRAME else result, w1))"

definition mb_rtu_client_probe_device ::
  "'e serial_os \<Rightarrow> rtu_ctx option \<Rightarrow> u16 \<Rightarrow> u16 \<Rightarrow> 'e rtu_world \<Rightarrow> int \<times> 'e rtu_world" where
  "mb_rtu_client_probe_device os ctx addr qty w =
     (if qty = 0 \<or> qty > MODBUS_MAX_READ_REGISTERS then (MB_RTU_CLIENT_ERR_ARG, w)
      else let (r, _, w1) = mb_rtu_client_read_holding_registers os ctx addr qty w in (r, w1))"

definition mb_rtu_client_write_multiple_registers ::
  "'e serial_os \<Rightarrow> rtu_ctx option \<Rightarrow> u16 \<Rightarrow> u16 \<Rightarrow> u16 list option \<Rightarrow> 'e rtu_world \<Rightarrow> int \<times> 'e rtu_world" where
  "mb_rtu_client_write_multiple_registers os ctx addr qty data w =
     (case (ctx, data) of
        (Some c, Some vs) \<Rightarrow>
          if qty = 0 \<or> qty > MODBUS_MAX_WRITE_REGISTERS then (MB_RTU_CLIENT_ERR_ARG, w)
          else if rtu_fd c < 0 then (MB_RTU_CLIENT_ERR_NOT_OPEN, w)
          else
            let (result, resp, w1) = do_transaction os c
                   (rtu_write_multiple_request (rtu_unit_id (rtu_cfg c)) addr qty vs)
                   (1 + 1 + 2 + 2 + MODBUS_RTU_CRC_LEN) w
            in (if result = MB_RTU_CLIENT_OK \<and> resp ! 1 \<noteq> MODBUS_FUNC_WRITE_MULTIPLE_REGISTERS
                then MB_RTU_CLIENT_ERR_FRAME else result, w1)
      | _ \<Rightarrow> (MB_RTU_CLIENT_ERR_ARG, w))"

section \<open>What a transaction returns\<close>

text \<open>The one law of \<^verbatim>\<open>read\<close> the code relies on for memory safety: it stores at most the
  number of bytes asked for.\<close>

definition os_read_bounded :: "'e serial_os \<Rightarrow> bool" where
  "os_read_bounded os \<longleftrightarrow> (\<forall>fd n e bs e'. os_read os fd n e = (Some bs, e') \<longrightarrow> length bs \<le> n)"

lemma read_exact_step:
  assumes "length got < n" and "os_wait os fd t e = (ready, e1)"
    and "os_read os fd (n - length got) e1 = (ob, e2)"
  shows "read_exact os fd n t got e =
    (if ready = 0 then (0, got, e1) else if ready < 0 then (-1, got, e1)
     else case ob of None \<Rightarrow> (-1, got, e2)
        | Some bs \<Rightarrow> if bs = [] then (-1, got, e2) else read_exact os fd n t (got @ bs) e2)"
  using assms by (simp add: read_exact.simps [of os fd n t got e])

lemma read_exact_result:
  assumes "os_read_bounded os" and "length got \<le> n" and "read_exact os fd n t got e = (r, resp, e')"
  shows "length resp \<le> n \<and> (r = int n \<and> length resp = n \<or> (r = 0 \<or> r = -1) \<and> length resp < n)"
  using assms(2,3)
proof (induction "n - length got" arbitrary: got e rule: less_induct)
  case less
  show ?case
  proof (cases "length got < n")
    case False
    with less.prems show ?thesis by (simp add: read_exact.simps [of os fd n t got e])
  next
    case True
    obtain ready e1 where w: "os_wait os fd t e = (ready, e1)" by fastforce
    obtain ob e2 where rd: "os_read os fd (n - length got) e1 = (ob, e2)" by fastforce
    note step = read_exact_step [OF True w rd]
    show ?thesis
    proof (cases "ready > 0 \<and> (\<exists>bs. ob = Some bs \<and> bs \<noteq> [])")
      case True
      then obtain bs where bs: "ob = Some bs" "bs \<noteq> []" "ready > 0" by blast
      with rd assms(1) have "length bs \<le> n - length got" unfolding os_read_bounded_def by blast
      then have "length (got @ bs) \<le> n" "n - length (got @ bs) < n - length got"
        using \<open>length got < n\<close> bs(2) by (auto intro!: diff_less_mono2)
      moreover have "read_exact os fd n t (got @ bs) e2 = (r, resp, e')"
        using step less.prems(2) bs by simp
      ultimately show ?thesis using less.hyps by blast
    next
      case False
      with step less.prems True show ?thesis
        by (cases ob) (auto split: if_splits)
    qed
  qed
qed

text \<open>The answer of \<^const>\<open>exchange\<close> and of a transaction is that of a complete read.\<close>

lemma exchange_ok:
  assumes "os_read_bounded os" and "exchange os ctx req n e = (r, resp, e')" and "r \<ge> 0" and "0 < n"
  shows "length resp = n \<and> r = response_verdict (rtu_unit_id (rtu_cfg ctx)) resp n"
proof -
  obtain wr e1 where w: "os_write os (rtu_fd ctx) req (os_tcflush os (rtu_fd ctx) e) = (wr, e1)" by fastforce
  obtain rc bs e2 where x: "read_exact os (rtu_fd ctx) n (rtu_timeout (rtu_cfg ctx)) []
      (os_usleep os RTU_INTER_FRAME_DELAY_US e1) = (rc, bs, e2)" by (metis prod.exhaust)
  have wr: "wr = int (length req)" using assms(2,3) w by (simp add: exchange_def split: if_splits)
  with assms(2) w x have r: "resp = bs" "r = (if rc = 0 then MB_RTU_CLIENT_ERR_TIMEOUT
      else if rc < 0 then MB_RTU_CLIENT_ERR_TRANSPORT
      else response_verdict (rtu_unit_id (rtu_cfg ctx)) bs n)" by (auto simp: exchange_def)
  from read_exact_result [OF assms(1) _ x] r assms(3,4) show ?thesis by (auto split: if_splits)
qed

lemma do_transaction_ok:
  assumes "os_read_bounded os" and "do_transaction os ctx req n w = (r, resp, w')" and "r \<ge> 0" and "0 < n"
  shows "length resp = n \<and> r = response_verdict (rtu_unit_id (rtu_cfg ctx)) resp n"
  using assms by (auto simp: do_transaction_def Let_def split: option.splits prod.splits dest: exchange_ok)

lemma response_verdict_ok:
  assumes "length resp = n" and "response_verdict uid resp n = 0" and "5 \<le> n" and "uint (resp ! 2) \<noteq> 0"
  shows "(\<exists>body. resp = append_crc body) \<and> resp ! 0 = uid \<and> resp ! 1 AND MODBUS_EXCEPTION_FLAG = 0"
  using assms by (auto simp: response_verdict_def verify_iff split: if_splits)

text \<open>
  C14. When a read of holding registers succeeds, the registers it delivers are the
  \<open>qty\<close> big-endian register values of one received frame of the expected length that
  carries this unit's address, function code 3, the matching byte count and a correct CRC;
  on any other outcome no register is delivered.
\<close>

theorem rtu_read_sound:
  assumes "os_read_bounded os"
    and "mb_rtu_client_read_holding_registers os (Some ctx) addr qty w = (r, out, w')"
  shows "(r = MB_RTU_CLIENT_OK \<longleftrightarrow> out \<noteq> None) \<and>
    (\<forall>regs. out = Some regs \<longrightarrow> length regs = unat qty \<and> 1 \<le> qty \<and> qty \<le> MODBUS_MAX_READ_REGISTERS \<and>
      (\<exists>resp w1. do_transaction os ctx (rtu_read_request (rtu_unit_id (rtu_cfg ctx)) addr qty)
           (5 + 2 * unat qty) w = (MB_RTU_CLIENT_OK, resp, w1) \<and>
         resp = append_crc ([rtu_unit_id (rtu_cfg ctx), MODBUS_FUNC_READ_HOLDING_REGISTERS,
           ucast (qty * 2)] @ regs_to_bytes regs)))"
proof -
  let ?n = "5 + 2 * unat qty" and ?uid = "rtu_unit_id (rtu_cfg ctx)"
  obtain t resp w1 where t: "do_transaction os ctx (rtu_read_request ?uid addr qty) ?n w = (t, resp, w1)"
    by (metis prod.exhaust)
  have n: "3 + unat qty * 2 + MODBUS_RTU_CRC_LEN = ?n" by simp
  have "resp = append_crc ([?uid, MODBUS_FUNC_READ_HOLDING_REGISTERS, ucast (qty * 2)] @ regs_to_bytes regs) \<and>
      length regs = unat qty \<and> t = 0 \<and> 1 \<le> qty \<and> qty \<le> MODBUS_MAX_READ_REGISTERS" if "out = Some regs" for regs
  proof -
    from that assms(2) t have g: "t = 0" "resp ! 1 = 3" "resp ! 2 = ucast (qty * 2)"
      "regs = response_registers resp (unat qty)" "qty \<noteq> 0" "qty \<le> MODBUS_MAX_READ_REGISTERS"
      unfolding mb_rtu_client_read_holding_registers_def n
      by (auto simp: Let_def split: if_splits)
    from do_transaction_ok [OF assms(1) t] g(1) have v: "length resp = ?n" "response_verdict ?uid resp ?n = 0"
      by auto
    then obtain body where body: "resp = append_crc body" "resp ! 0 = ?uid"
      by (auto simp: response_verdict_def verify_iff split: if_splits)
    with v(1) have lb: "length body = 3 + 2 * unat qty" by simp
    then obtain a b c data where abc: "body = a # b # c # data" "length data = 2 * unat qty"
      by (auto simp: numeral_3_eq_3 length_Suc_conv)
    from even_bytes_regs [OF abc(2)] obtain vs where vs: "length vs = unat qty" "data = regs_to_bytes vs"
      by blast
    from body abc g have "a = ?uid" "b = 3" "c = ucast (qty * 2)"
      by (auto simp: append_crc_def Let_def)
    moreover have "regs = vs"
      using response_registers_append [of a b c vs] g(4) body(1) abc(1) vs
      by (simp add: append_crc_def Let_def)
    moreover have "1 \<le> qty"
      using g(5) unat_gt_0 [of qty] by (simp add: word_le_nat_alt)
    ultimately show ?thesis using body(1) abc(1) vs g by simp
  qed
  moreover have "r = MB_RTU_CLIENT_OK \<longleftrightarrow> out \<noteq> None"
    using assms(2) unfolding mb_rtu_client_read_holding_registers_def
    by (auto simp: Let_def split: if_splits prod.splits)
  ultimately show ?thesis using t by auto
qed

section \<open>A line with a slave on it\<close>

text \<open>
  The documented behaviour of a serial descriptor, with \<open>inbuf e\<close> the bytes waiting to be
  read: waiting reports whether there are any, a read takes some of them from the front, a
  complete write makes the slave's reply arrive, a flush drops what waits.
\<close>

definition line_ok :: "'e serial_os \<Rightarrow> int \<Rightarrow> ('e \<Rightarrow> u8 list) \<Rightarrow> (u8 list \<Rightarrow> u8 list) \<Rightarrow> bool" where
  "line_ok os fd inbuf reply \<longleftrightarrow>
     (\<forall>t e. fst (os_wait os fd t e) = (if inbuf e = [] then 0 else 1) \<and>
        inbuf (snd (os_wait os fd t e)) = inbuf e) \<and>
     (\<forall>n e. 0 < n \<and> inbuf e \<noteq> [] \<longrightarrow> (\<exists>k. 0 < k \<and> k \<le> n \<and>
        fst (os_read os fd n e) = Some (take k (inbuf e)) \<and>
        inbuf (snd (os_read os fd n e)) = drop k (inbuf e))) \<and>
     (\<forall>e. inbuf (os_tcflush os fd e) = []) \<and>
     (\<forall>req e. fst (os_write os fd req e) = int (length req) \<and>
        inbuf (snd (os_write os fd req e)) = inbuf e @ reply req) \<and>
     (\<forall>k e. inbuf (os_usleep os k e) = inbuf e)"

lemma read_exact_line:
  assumes "line_ok os fd inbuf reply" and "length got \<le> n"
  shows "\<exists>e'. read_exact os fd n t got e =
    (if length got + length (inbuf e) < n then (0, got @ inbuf e, e')
     else (int n, got @ take (n - length got) (inbuf e), e'))"
  using assms(2)
proof (induction "n - length got" arbitrary: got e rule: less_induct)
  case less
  show ?case
  proof (cases "length got < n")
    case False
    with less.prems show ?thesis by (simp add: read_exact.simps [of os fd n t got e])
  next
    case True
    obtain ready e1 where w: "os_wait os fd t e = (ready, e1)" by fastforce
    obtain ob e2 where rd: "os_read os fd (n - length got) e1 = (ob, e2)" by fastforce
    note step = read_exact_step [OF True w rd]
    have w': "ready = (if inbuf e = [] then 0 else 1)" "inbuf e1 = inbuf e"
      using assms(1) w unfolding line_ok_def by (metis fst_conv, metis snd_conv)
    show ?thesis
    proof (cases "inbuf e = []")
      case True
      with step w' \<open>length got < n\<close> show ?thesis by simp
    next
      case False
      have "0 < n - length got" using True by simp
      with assms(1) w'(2) False obtain k where k: "0 < k" "k \<le> n - length got"
          "fst (os_read os fd (n - length got) e1) = Some (take k (inbuf e))"
          "inbuf (snd (os_read os fd (n - length got) e1)) = drop k (inbuf e)"
        unfolding line_ok_def by metis
      with rd have ob: "ob = Some (take k (inbuf e))" and e2: "inbuf e2 = drop k (inbuf e)" by simp_all
      let ?got = "got @ take k (inbuf e)"
      have ne: "take k (inbuf e) \<noteq> []" using k(1) False by simp
      have lt: "n - length ?got < n - length got" and le: "length ?got \<le> n"
        using k True ne by (auto intro!: diff_less_mono2)
      from less.hyps [OF lt le, of e2] obtain e' where r: "read_exact os fd n t ?got e2 =
          (if length ?got + length (inbuf e2) < n then (0, ?got @ inbuf e2, e')
           else (int n, ?got @ take (n - length ?got) (inbuf e2), e'))" by blast
      have q1: "?got @ inbuf e2 = got @ inbuf e" by (simp add: e2)
      have q2: "length ?got + length (inbuf e2) = length got + length (inbuf e)"
        by (simp add: e2)
      have q3: "?got @ take (n - length ?got) (inbuf e2) = got @ take (n - length got) (inbuf e)"
      proof -
        have "take k (inbuf e) @ take (n - length got - length (take k (inbuf e))) (drop k (inbuf e)) =
            take (n - length got) (inbuf e)"
        proof (cases "k \<le> length (inbuf e)")
          case True
          with k(2) take_add [of k "n - length got - k" "inbuf e"] show ?thesis
            by (simp del: diff_diff_left)
        next
          case False
          with k(2) show ?thesis by simp
        qed
        then show ?thesis by (simp add: e2 diff_diff_eq)
      qed
      have "read_exact os fd n t got e = read_exact os fd n t ?got e2"
        using step w' False ob ne by simp
      then show ?thesis by (intro exI [of _ e']) (simp only: r q1 q2 q3)
    qed
  qed
qed

lemma exchange_line:
  assumes "line_ok os (rtu_fd ctx) inbuf reply"
  shows "\<exists>resp e'. exchange os ctx req n e =
    (if length (reply req) < n then (if 0 < n then MB_RTU_CLIENT_ERR_TIMEOUT else 0, reply req, e')
     else if n = 0 then (MB_RTU_CLIENT_ERR_TIMEOUT, [], e')
     else (response_verdict (rtu_unit_id (rtu_cfg ctx)) (take n (reply req)) n, take n (reply req), e'))"
proof -
  let ?fd = "rtu_fd ctx"
  obtain wr e1 where w: "os_write os ?fd req (os_tcflush os ?fd e) = (wr, e1)" by fastforce
  have "wr = int (length req)" "inbuf e1 = reply req"
    using assms w unfolding line_ok_def by (metis fst_conv, metis append_Nil snd_conv)
  moreover have "inbuf (os_usleep os RTU_INTER_FRAME_DELAY_US e1) = inbuf e1"
    using assms unfolding line_ok_def by blast
  ultimately show ?thesis
    using w read_exact_line [OF assms, of "[]" n "rtu_timeout (rtu_cfg ctx)"
        "os_usleep os RTU_INTER_FRAME_DELAY_US e1"]
    by (auto simp: exchange_def)
qed

lemma do_transaction_line:
  assumes "line_ok os (rtu_fd ctx) inbuf reply" and "0 < n"
    and "do_transaction os ctx req n w = (r, resp, w')"
  shows "(r, resp) =
    (if length (reply req) < n then (MB_RTU_CLIENT_ERR_TIMEOUT, reply req)
     else (response_verdict (rtu_unit_id (rtu_cfg ctx)) (take n (reply req)) n, take n (reply req)))"
proof -
  obtain e where "exchange os ctx req n e = (r, resp, rw_env w')"
    using assms(3) by (auto simp: do_transaction_def Let_def split: option.splits prod.splits)
  with exchange_line [OF assms(1), of req n e] assms(2) show ?thesis by (auto split: if_splits)
qed

lemma verdict_append_crc:
  "response_verdict uid (append_crc (uid # f # x # body)) (length body + 5) =
     (if f AND MODBUS_EXCEPTION_FLAG \<noteq> 0 then uint x else MB_RTU_CLIENT_OK)"
proof -
  have "verify_response_crc (append_crc (uid # f # x # body)) (length body + 5)"
    by (subst verify_iff) auto
  then show ?thesis by (simp add: response_verdict_def append_crc_def Let_def)
qed

text \<open>
  On a line that behaves as documented, a read returns the register values of a slave
  that answers with them, a timeout when the slave stays silent, and also a timeout when the
  slave answers with a Modbus exception: the five bytes of an exception frame are fewer
  than the client waits for, so the exception code is never reported.
\<close>

theorem rtu_read_replies:
  assumes "line_ok os (rtu_fd ctx) inbuf reply" and "0 \<le> rtu_fd ctx"
    and "1 \<le> qty" and "qty \<le> MODBUS_MAX_READ_REGISTERS"
    and "mb_rtu_client_read_holding_registers os (Some ctx) addr qty w = (r, out, w')"
  defines "uid \<equiv> rtu_unit_id (rtu_cfg ctx)"
  defines "ans \<equiv> reply (rtu_read_request uid addr qty)"
  shows "(ans = append_crc ([uid, MODBUS_FUNC_READ_HOLDING_REGISTERS, ucast (qty * 2)] @ regs_to_bytes regs) \<and>
        length regs = unat qty \<longrightarrow> (r, out) = (MB_RTU_CLIENT_OK, Some regs)) \<and>
    (ans = [] \<longrightarrow> (r, out) = (MB_RTU_CLIENT_ERR_TIMEOUT, None)) \<and>
    (ans = append_crc [uid, MODBUS_FUNC_READ_HOLDING_REGISTERS OR MODBUS_EXCEPTION_FLAG, code] \<longrightarrow>
      (r, out) = (MB_RTU_CLIENT_ERR_TIMEOUT, None))"
proof -
  let ?n = "5 + 2 * unat qty"
  have q: "qty \<noteq> 0" "0 < unat qty" using assms(3) by (auto simp: word_le_nat_alt)
  obtain t resp w1 where t: "do_transaction os ctx (rtu_read_request uid addr qty) ?n w = (t, resp, w1)"
    by (metis prod.exhaust)
  have n: "3 + unat qty * 2 + MODBUS_RTU_CRC_LEN = ?n" by simp
  have tr: "(t, resp) = (if length ans < ?n then (MB_RTU_CLIENT_ERR_TIMEOUT, ans)
      else (response_verdict uid (take ?n ans) ?n, take ?n ans))"
    using do_transaction_line [OF assms(1) _ t] by (simp add: uid_def ans_def)
  have out: "(r, out) = (if t = 0 then (if resp ! 1 \<noteq> MODBUS_FUNC_READ_HOLDING_REGISTERS \<or>
        resp ! 2 \<noteq> ucast (qty * 2) then (MB_RTU_CLIENT_ERR_FRAME, None)
      else (0, Some (response_registers resp (unat qty)))) else (t, None))"
    using assms(5) t assms(2,4) q(1) unfolding mb_rtu_client_read_holding_registers_def n
    by (auto simp: Let_def uid_def not_less split: if_splits)
  have "(r, out) = (MB_RTU_CLIENT_OK, Some regs)"
    if a: "ans = append_crc ([uid, MODBUS_FUNC_READ_HOLDING_REGISTERS, ucast (qty * 2)] @ regs_to_bytes regs)"
      "length regs = unat qty"
  proof -
    have "length ans = ?n" using a by simp
    moreover have "response_verdict uid ans ?n = 0"
      using verdict_append_crc [of uid 3 "ucast (qty * 2)" "regs_to_bytes regs"] a by (simp add: add.commute)
    ultimately have "t = 0" "resp = ans" using tr by auto
    moreover obtain c where "ans = [uid, 3, ucast (qty * 2)] @ regs_to_bytes regs @ c"
      using a by (simp add: append_crc_def Let_def)
    then have "response_registers ans (unat qty) = regs"
      using response_registers_append [of uid 3 "ucast (qty * 2)" regs] a(2) by metis
    ultimately show ?thesis using out a by (simp add: append_crc_def Let_def)
  qed
  moreover have "length ans < ?n \<Longrightarrow> (r, out) = (MB_RTU_CLIENT_ERR_TIMEOUT, None)"
    using tr out by simp
  ultimately show ?thesis using q(2) by auto
qed

section \<open>Hand-off silence\<close>

definition nanoseconds :: "int \<times> int \<Rightarrow> int" where
  "nanoseconds t = fst t * 1000000000 + snd t"

lemma sdiv_bounds:
  assumes "(0 :: int) < m"
  shows "x - m < (x sdiv m) * m \<and> (x sdiv m) * m < x + m \<and> (0 \<le> x \<longrightarrow> (x sdiv m) * m \<le> x)"
proof (cases "0 \<le> x")
  case True
  have "x sdiv m = x div m" using True assms by (simp add: signed_divide_int_def sgn_if)
  moreover have "x div m * m \<le> x" using assms by (simp add: minus_mod_eq_div_mult [symmetric])
  moreover have "x - m < x div m * m"
    using assms pos_mod_bound [of m x] by (simp add: minus_mod_eq_div_mult [symmetric])
  ultimately show ?thesis using assms by simp
next
  case False
  have "x sdiv m = - (- x div m)" using False assms by (simp add: signed_divide_int_def sgn_if)
  moreover have "- x div m * m \<le> - x" using assms by (simp add: minus_mod_eq_div_mult [symmetric])
  moreover have "- x - m < - x div m * m"
    using assms pos_mod_bound [of m "- x"] by (simp add: minus_mod_eq_div_mult [symmetric])
  ultimately show ?thesis using assms False by simp
qed

text \<open>
  When the previous transaction on the bus was with another unit and the clock has not
  run backwards, more than 29 ms lie between its end and the first byte of the next request,
  provided a sleep lasts at least as long as asked. The 30 ms the code aims at are not
  guaranteed: truncating the negative nanosecond difference overestimates the elapsed time
  by up to a millisecond.
\<close>

theorem handoff_silence:
  assumes "has_last_transaction bus" and "last_unit_id bus \<noteq> uid"
    and "nanoseconds (last_release_time bus) \<le> nanoseconds (os_clock os e)"
    and "\<forall>us e. nanoseconds (os_clock os e) + int us * 1000 \<le> nanoseconds (os_clock os (os_usleep os us e))"
  shows "29000000 < nanoseconds (os_clock os (enforce_bus_handoff_silence os bus uid e)) -
    nanoseconds (last_release_time bus)"
proof -
  let ?now = "os_clock os e" and ?t0 = "last_release_time bus"
  let ?el = "elapsed_ms ?now ?t0"
  let ?R = "nanoseconds ?now - nanoseconds ?t0"
  have R: "?R = (fst ?now - fst ?t0) * 1000000000 + (snd ?now - snd ?t0)"
    by (simp add: nanoseconds_def algebra_simps)
  have el: "?el * 1000000 = (fst ?now - fst ?t0) * 1000000000 +
      ((snd ?now - snd ?t0) sdiv 1000000) * 1000000"
    by (simp add: elapsed_ms_def algebra_simps)
  have b: "?R - 1000000 < ?el * 1000000" "?el * 1000000 < ?R + 1000000"
    using sdiv_bounds [of 1000000 "snd ?now - snd ?t0"] unfolding R el by linarith+
  have pos: "0 \<le> ?el" using b(1) assms(3) by linarith
  show ?thesis
  proof (cases "?el < RTU_MIN_BUS_HANDOFF_SILENCE_MS")
    case True
    let ?us = "nat (RTU_MIN_BUS_HANDOFF_SILENCE_MS - ?el) * 1000"
    have eq: "enforce_bus_handoff_silence os bus uid e = os_usleep os ?us e"
      using assms(1,2) True pos by (simp add: enforce_bus_handoff_silence_def Let_def)
    have "nanoseconds ?now + int ?us * 1000 \<le> nanoseconds (os_clock os (os_usleep os ?us e))"
      using assms(4) by blast
    moreover have "int ?us * 1000 = 30000000 - ?el * 1000000" using True by simp
    ultimately show ?thesis unfolding eq using b(2) by linarith
  next
    case False
    then have "enforce_bus_handoff_silence os bus uid e = e"
      by (simp add: enforce_bus_handoff_silence_def Let_def)
    then show ?thesis using False b(2) by (simp only:)
  qed
qed

text \<open>The overestimate happens: one nanosecond apart across a second boundary counts as 1 ms.\<close>

lemma elapsed_ms_overestimates: "elapsed_ms (1, 0) (0, 999999999) = 1"
  by (simp add: elapsed_ms_def signed_divide_int_def)

section \<open>Port mode\<close>

text \<open>
  Whatever mode the port was in, the configuration selects 8 data bits without parity
  and with one stop bit, receiver on, no hardware or software flow control, no line
  discipline processing in either direction, and reads that never wait for a minimum.
\<close>

theorem rtu_termios_raw_8n1:
  "let t = rtu_termios baud timeout_ms tty
   in c_cflag t AND CSIZE = CS8 \<and> c_cflag t AND PARENB = 0 \<and> c_cflag t AND CSTOPB = 0 \<and>
      c_cflag t AND CRTSCTS = 0 \<and> c_cflag t AND (CREAD OR CLOCAL) = CREAD OR CLOCAL \<and>
      c_lflag t AND raw_lflags = 0 \<and> c_oflag t AND OPOST = 0 \<and>
      c_iflag t AND soft_flow_iflags = 0 \<and> c_iflag t AND byte_map_iflags = 0 \<and>
      c_vmin t = 0 \<and> c_ispeed t = map_baud_rate baud \<and> c_ospeed t = map_baud_rate baud"
  by (simp add: rtu_termios_def Let_def word_bw_assocs bit.conj_disj_distrib2 bit.conj_disj_distrib)

section \<open>Reference counts of the shared ports\<close>

definition attached :: "rtu_ctx \<Rightarrow> nat \<Rightarrow> bool" where
  "attached c i \<longleftrightarrow> 0 \<le> rtu_fd c \<and> rtu_bus c = Some i"

definition detached_ctx :: "rtu_config \<Rightarrow> rtu_ctx" where
  "detached_ctx cfg = \<lparr>rtu_fd = -1, rtu_bus = None, rtu_cfg = cfg\<rparr>"

text \<open>The client contexts \<open>0 .. N - 1\<close> of the daemon, each connecting only when detached, as
  the poll threads do, and doing transactions while attached.\<close>

inductive rtu_sessions :: "'e serial_os \<Rightarrow> nat \<Rightarrow> (nat \<Rightarrow> rtu_ctx) \<Rightarrow> 'e rtu_world \<Rightarrow> bool"
  for os N where
  sessions_start: "rtu_sessions os N (\<lambda>k. detached_ctx cfg)
     \<lparr>rw_buses = replicate MB_RTU_MAX_SHARED_BUSES zero_bus, rw_env = e\<rparr>"
| sessions_connect: "rtu_sessions os N cs w \<Longrightarrow> k < N \<Longrightarrow> rtu_fd (cs k) < 0 \<Longrightarrow>
     mb_rtu_client_connect os cfg (cs k) w = (r, c', w') \<Longrightarrow> rtu_sessions os N (cs(k := c')) w'"
| sessions_disconnect: "rtu_sessions os N cs w \<Longrightarrow> k < N \<Longrightarrow>
     mb_rtu_client_disconnect os (cs k) w = (c', w') \<Longrightarrow> rtu_sessions os N (cs(k := c')) w'"
| sessions_transaction: "rtu_sessions os N cs w \<Longrightarrow> k < N \<Longrightarrow> 0 \<le> rtu_fd (cs k) \<Longrightarrow>
     do_transaction os (cs k) req n w = (r, resp, w') \<Longrightarrow> rtu_sessions os N cs w'"

definition users :: "nat \<Rightarrow> (nat \<Rightarrow> rtu_ctx) \<Rightarrow> nat \<Rightarrow> nat set" where
  "users N cs i = {k. k < N \<and> attached (cs k) i}"

definition bus_ok :: "nat \<Rightarrow> (nat \<Rightarrow> rtu_ctx) \<Rightarrow> nat \<Rightarrow> shared_bus \<Rightarrow> bool" where
  "bus_ok N cs i b \<longleftrightarrow> refcnt b = card (users N cs i) \<and>
     (in_use b \<longrightarrow> (0 \<le> sb_fd b \<longleftrightarrow> 0 < refcnt b)) \<and> (\<not> in_use b \<longrightarrow> refcnt b = 0) \<and>
     (\<forall>k\<in>users N cs i. rtu_fd (cs k) = sb_fd b)"

definition sessions_inv :: "nat \<Rightarrow> (nat \<Rightarrow> rtu_ctx) \<Rightarrow> shared_bus list \<Rightarrow> bool" where
  "sessions_inv N cs bs \<longleftrightarrow> length bs = MB_RTU_MAX_SHARED_BUSES \<and>
     (\<forall>i<MB_RTU_MAX_SHARED_BUSES. bus_ok N cs i (bs ! i)) \<and>
     (\<forall>k<N. \<forall>i. attached (cs k) i \<longrightarrow> i < MB_RTU_MAX_SHARED_BUSES)"

lemma finite_users [simp]: "finite (users N cs i)"
  by (simp add: users_def)

lemma users_detach: "rtu_fd c < 0 \<Longrightarrow> users N (cs(k := c)) i = users N cs i - {k}"
  by (auto simp: users_def attached_def)

lemma users_attach:
  "k < N \<Longrightarrow> 0 \<le> rtu_fd c \<Longrightarrow> rtu_bus c = Some j \<Longrightarrow>
   users N (cs(k := c)) i = (if i = j then insert k (users N cs i) else users N cs i - {k})"
  by (auto simp: users_def attached_def)

lemma users_not_member: "rtu_fd (cs k) < 0 \<Longrightarrow> k \<notin> users N cs i"
  by (auto simp: users_def attached_def)

lemma bus_ok_idle:
  assumes "bus_ok N cs i b" and "rtu_fd (cs k) < 0" and "rtu_fd c < 0"
  shows "bus_ok N (cs(k := c)) i b"
  using assms users_not_member [of cs k N i]
  by (auto simp: bus_ok_def users_detach)

lemma sessions_inv_idle:
  assumes "sessions_inv N cs bs" and "rtu_fd (cs k) < 0" and "rtu_fd c < 0"
  shows "sessions_inv N (cs(k := c)) bs"
proof -
  show ?thesis
    unfolding sessions_inv_def
  proof (intro conjI allI impI)
    show "length bs = MB_RTU_MAX_SHARED_BUSES" using assms(1) by (simp add: sessions_inv_def)
  next
    fix i :: nat assume "i < MB_RTU_MAX_SHARED_BUSES"
    with assms(1) have "bus_ok N cs i (bs ! i)" by (simp add: sessions_inv_def)
    then show "bus_ok N (cs(k := c)) i (bs ! i)" using assms(2,3) by (rule bus_ok_idle)
  next
    fix x i :: nat assume "x < N" and a: "attached ((cs(k := c)) x) i"
    with assms(3) have "x \<noteq> k" by (auto simp: attached_def)
    with a \<open>x < N\<close> assms(1) show "i < MB_RTU_MAX_SHARED_BUSES" by (simp add: sessions_inv_def)
  qed
qed

lemma search_bus_Some: "search_bus P = Some i \<Longrightarrow> i < MB_RTU_MAX_SHARED_BUSES \<and> P i"
  unfolding search_bus_def by (drule find_SomeD) (simp only: set_upt atLeastLessThan_iff simp_thms)

lemma acquire_shared_bus_cases:
  assumes "acquire_shared_bus p bs = (r, bs')"
  obtains "r = None" and "bs' = bs"
  | i where "r = Some i" and "i < MB_RTU_MAX_SHARED_BUSES" and "in_use (bs ! i)" and "bs' = bs"
  | i where "r = Some i" and "i < MB_RTU_MAX_SHARED_BUSES" and "\<not> in_use (bs ! i)"
      and "bs' = bs[i := zero_bus\<lparr>sb_path := take 255 p, in_use := True, sb_fd := -1\<rparr>]"
proof (cases "search_bus (\<lambda>i. in_use (bs ! i) \<and> sb_path (bs ! i) = p)")
  case (Some i)
  then have "r = Some i" "bs' = bs" using assms by (simp_all add: acquire_shared_bus_def)
  with search_bus_Some [OF Some] show ?thesis using that(2) by blast
next
  case None
  note n = this
  show ?thesis
  proof (cases "search_bus (\<lambda>i. \<not> in_use (bs ! i))")
    case (Some i)
    then have "r = Some i"
      "bs' = bs[i := zero_bus\<lparr>sb_path := take 255 p, in_use := True, sb_fd := -1\<rparr>]"
      using n assms by (simp_all add: acquire_shared_bus_def)
    with search_bus_Some [OF Some] show ?thesis using that(3) by blast
  next
    case None
    then have "r = None" "bs' = bs" using n assms by (simp_all add: acquire_shared_bus_def)
    then show ?thesis by (rule that(1))
  qed
qed

lemma sessions_inv_acquire:
  assumes "sessions_inv N cs bs" and "acquire_shared_bus p bs = (r, bs')"
  shows "sessions_inv N cs bs' \<and> (\<forall>i. r = Some i \<longrightarrow> i < MB_RTU_MAX_SHARED_BUSES \<and> in_use (bs' ! i))"
proof -
  have len: "length bs = MB_RTU_MAX_SHARED_BUSES" using assms(1) by (simp add: sessions_inv_def)
  show ?thesis
    using assms(2)
  proof (cases rule: acquire_shared_bus_cases)
    case 1
    with assms show ?thesis by simp
  next
    case (2 i)
    with assms show ?thesis by simp
  next
    case (3 i)
    with assms(1) have "refcnt (bs ! i) = 0" "refcnt (bs ! i) = card (users N cs i)"
      by (auto simp: sessions_inv_def bus_ok_def)
    then have u: "users N cs i = {}" by simp
    have "bus_ok N cs j (bs' ! j)" if "j < MB_RTU_MAX_SHARED_BUSES" for j
    proof (cases "j = i")
      case True
      with 3 len u show ?thesis by (simp add: bus_ok_def zero_bus_def)
    next
      case False
      with 3 that assms(1) show ?thesis by (simp add: sessions_inv_def)
    qed
    with 3 assms(1) len show ?thesis by (auto simp: sessions_inv_def)
  qed
qed

text \<open>Attaching: a failure leaves the registry as it was, a success counts the new user.\<close>

lemma attach_port_cases:
  assumes "shared_bus_attach_port os i baud t w = (r, w')"
  obtains "r = None" and "rw_buses w' = rw_buses w"
  | fd where "r = Some fd" and "0 \<le> fd" and "\<not> 0 \<le> sb_fd (rw_buses w ! i)"
      and "rw_buses w' = (rw_buses w)[i := (rw_buses w ! i)\<lparr>sb_fd := fd, sb_baud_rate := baud,
             has_last_transaction := False, refcnt := 1\<rparr>]"
  | "r = Some (sb_fd (rw_buses w ! i))" and "0 \<le> sb_fd (rw_buses w ! i)"
      and "sb_baud_rate (rw_buses w ! i) = baud"
      and "rw_buses w' = (rw_buses w)[i := (rw_buses w ! i)\<lparr>refcnt := refcnt (rw_buses w ! i) + 1\<rparr>]"
  using assms
  by (auto simp: shared_bus_attach_port_def Let_def not_less not_le split: if_splits prod.splits)

lemma sessions_inv_attach:
  assumes inv: "sessions_inv N cs (rw_buses w)" and i: "i < MB_RTU_MAX_SHARED_BUSES" "in_use (rw_buses w ! i)"
    and k: "k < N" "rtu_fd (cs k) < 0" and a: "shared_bus_attach_port os i baud t w = (Some fd, w')"
  shows "sessions_inv N (cs(k := \<lparr>rtu_fd = fd, rtu_bus = Some i, rtu_cfg = cfg\<rparr>)) (rw_buses w') \<and> 0 \<le> fd"
proof -
  let ?c = "\<lparr>rtu_fd = fd, rtu_bus = Some i, rtu_cfg = cfg\<rparr>" and ?b = "rw_buses w ! i"
  have len: "length (rw_buses w) = MB_RTU_MAX_SHARED_BUSES" using inv by (simp add: sessions_inv_def)
  have b: "bus_ok N cs i ?b" using inv i(1) by (simp add: sessions_inv_def)
  have nk: "k \<notin> users N cs j" for j using k(2) by (rule users_not_member)
  from a have fd: "0 \<le> fd" by (rule attach_port_cases) auto
  have u: "users N (cs(k := ?c)) j = (if j = i then insert k (users N cs j) else users N cs j)" for j
    using users_attach [of k N ?c i cs j] k(1) fd nk by simp
  obtain b' where w': "rw_buses w' = (rw_buses w)[i := b']"
    and b': "refcnt b' = refcnt ?b + 1" "sb_fd b' = fd" "in_use b'"
    and same: "users N cs i \<noteq> {} \<Longrightarrow> sb_fd ?b = fd"
  proof (rule attach_port_cases [OF a])
    fix x assume "Some fd = Some x" "\<not> 0 \<le> sb_fd ?b"
      "rw_buses w' = (rw_buses w)[i := ?b\<lparr>sb_fd := x, sb_baud_rate := baud,
             has_last_transaction := False, refcnt := 1\<rparr>]"
    moreover from this(2) b i(2) have "refcnt ?b = 0" by (auto simp: bus_ok_def)
    moreover from this b have "users N cs i = {}" by (simp add: bus_ok_def)
    ultimately show thesis
      using i(2) that [of "?b\<lparr>sb_fd := x, sb_baud_rate := baud, has_last_transaction := False,
        refcnt := 1\<rparr>"] by auto
  next
    assume "Some fd = Some (sb_fd ?b)" "rw_buses w' = (rw_buses w)[i := ?b\<lparr>refcnt := refcnt ?b + 1\<rparr>]"
    then show thesis using i(2) that [of "?b\<lparr>refcnt := refcnt ?b + 1\<rparr>"] by auto
  qed simp
  have "bus_ok N (cs(k := ?c)) j (rw_buses w' ! j)" if j: "j < MB_RTU_MAX_SHARED_BUSES" for j
  proof (cases "j = i")
    case True
    have "card (users N (cs(k := ?c)) i) = refcnt b'"
      using b b' nk [of i] by (simp add: u bus_ok_def)
    moreover have "\<forall>x\<in>users N (cs(k := ?c)) i. rtu_fd ((cs(k := ?c)) x) = fd"
      using b same by (auto simp: u bus_ok_def)
    ultimately show ?thesis using True w' len i(1) b' fd by (simp add: bus_ok_def)
  next
    case False
    then have "rw_buses w' ! j = rw_buses w ! j" by (simp add: w')
    moreover have "bus_ok N cs j (rw_buses w ! j)" using inv j by (simp add: sessions_inv_def)
    ultimately show ?thesis using False nk [of j] by (auto simp: bus_ok_def u)
  qed
  moreover have "\<forall>x<N. \<forall>j. attached ((cs(k := ?c)) x) j \<longrightarrow> j < MB_RTU_MAX_SHARED_BUSES"
    using inv i(1) by (auto simp: sessions_inv_def attached_def)
  ultimately show ?thesis using len w' fd by (simp add: sessions_inv_def)
qed

lemma sessions_inv_connect:
  assumes "sessions_inv N cs (rw_buses w)" and "k < N" and "rtu_fd (cs k) < 0"
    and "mb_rtu_client_connect os cfg (cs k) w = (r, c', w')"
  shows "sessions_inv N (cs(k := c')) (rw_buses w')"
proof (cases "serial_path cfg")
  case None
  with assms(4) have "c' = cs k" "w' = w" by (auto simp: mb_rtu_client_connect_def)
  with assms(1) show ?thesis by (simp only: fun_upd_triv)
next
  case (Some p)
  obtain oi bs where ac: "acquire_shared_bus p (rw_buses w) = (oi, bs)" by fastforce
  note inv = sessions_inv_acquire [OF assms(1) ac]
  show ?thesis
  proof (cases oi)
    case None
    with assms Some ac inv show ?thesis
      by (auto simp: mb_rtu_client_connect_def Let_def intro: sessions_inv_idle)
  next
    case (Some i)
    obtain ofd w1 where at: "shared_bus_attach_port os i (rtu_baud_rate cfg) (rtu_timeout cfg)
        (w\<lparr>rw_buses := bs\<rparr>) = (ofd, w1)" by fastforce
    show ?thesis
    proof (cases ofd)
      case None
      with at have "rw_buses w1 = bs" by (auto elim: attach_port_cases)
      with assms \<open>serial_path cfg = Some p\<close> ac Some at None inv show ?thesis
        by (auto simp: mb_rtu_client_connect_def Let_def intro: sessions_inv_idle)
    next
      case (Some fd)
      with at \<open>oi = Some i\<close> inv assms(2,3) have "sessions_inv N
          (cs(k := \<lparr>rtu_fd = fd, rtu_bus = Some i, rtu_cfg = cfg\<rparr>)) (rw_buses w1)"
        using sessions_inv_attach [of N cs "w\<lparr>rw_buses := bs\<rparr>" i k os _ _ fd w1 cfg] by simp
      with assms(4) \<open>serial_path cfg = Some p\<close> ac \<open>oi = Some i\<close> at Some show ?thesis
        by (simp add: mb_rtu_client_connect_def Let_def)
    qed
  qed
qed

lemma sessions_inv_disconnect:
  assumes inv: "sessions_inv N cs (rw_buses w)" and k: "k < N"
    and d: "mb_rtu_client_disconnect os (cs k) w = (c', w')"
  shows "sessions_inv N (cs(k := c')) (rw_buses w')"
proof (cases "\<exists>i. attached (cs k) i")
  case False
  with d have "c' = cs k" "w' = w"
    by (auto simp: mb_rtu_client_disconnect_def attached_def split: option.splits if_splits)
  with inv show ?thesis by (simp only: fun_upd_triv)
next
  case True
  then obtain i where a: "attached (cs k) i" by blast
  with d have c': "c' = (cs k)\<lparr>rtu_fd := -1\<rparr>" and w': "w' = shared_bus_detach_port os i w"
    by (simp_all add: mb_rtu_client_disconnect_def attached_def)
  have len: "length (rw_buses w) = MB_RTU_MAX_SHARED_BUSES" using inv by (simp add: sessions_inv_def)
  have i: "i < MB_RTU_MAX_SHARED_BUSES" using inv k a unfolding sessions_inv_def by blast
  let ?b = "rw_buses w ! i"
  have b: "bus_ok N cs i ?b" using inv i unfolding sessions_inv_def by blast
  have ku: "k \<in> users N cs i" using a k by (simp add: users_def)
  then have pos: "0 < card (users N cs i)" by (metis card_gt_0_iff empty_iff finite_users)
  have in_use: "in_use ?b" using b pos by (auto simp: bus_ok_def)
  have fd: "0 \<le> sb_fd ?b" using b pos in_use by (simp add: bus_ok_def)
  have u: "users N (cs(k := c')) j = users N cs j - {k}" for j
    by (rule users_detach) (simp add: c')
  obtain b' where bs: "rw_buses w' = (rw_buses w)[i := b']" and b': "refcnt b' = refcnt ?b - 1"
    "in_use b'" "sb_fd b' = (if refcnt ?b = 1 then -1 else sb_fd ?b)"
  proof (cases "refcnt ?b = 1")
    case True
    with fd b pos in_use show thesis
      by (intro that [of "?b\<lparr>refcnt := 0, sb_fd := -1, has_last_transaction := False\<rparr>"])
        (simp_all add: w' shared_bus_detach_port_def Let_def bus_ok_def)
  next
    case False
    with fd b pos in_use show thesis
      by (intro that [of "?b\<lparr>refcnt := refcnt ?b - 1\<rparr>"])
        (simp_all add: w' shared_bus_detach_port_def Let_def bus_ok_def)
  qed
  have card: "card (users N cs i - {k}) = refcnt b'"
    using b b'(1) ku by (simp add: bus_ok_def)
  have ok_i: "bus_ok N (cs(k := c')) i b'"
  proof -
    have "0 \<le> sb_fd b' \<longleftrightarrow> 0 < refcnt b'" using b' b pos fd by (auto simp: bus_ok_def)
    moreover have "rtu_fd ((cs(k := c')) x) = sb_fd b'" if x: "x \<in> users N cs i - {k}" for x
    proof -
      have "0 < refcnt b'" using card x by (metis card_gt_0_iff empty_iff finite_Diff finite_users)
      with b' b x show ?thesis by (auto simp: bus_ok_def)
    qed
    ultimately show ?thesis using card b'(2) unfolding bus_ok_def u by auto
  qed
  have "bus_ok N (cs(k := c')) j (rw_buses w' ! j)" if j: "j < MB_RTU_MAX_SHARED_BUSES" for j
  proof (cases "j = i")
    case True
    with ok_i bs len i show ?thesis by simp
  next
    case False
    then have "k \<notin> users N cs j" using a by (auto simp: users_def attached_def)
    moreover have "bus_ok N cs j (rw_buses w ! j)" using inv j unfolding sessions_inv_def by blast
    ultimately show ?thesis using False bs by (auto simp: bus_ok_def u)
  qed
  moreover have "j < MB_RTU_MAX_SHARED_BUSES" if "x < N" "attached ((cs(k := c')) x) j" for x j
    using inv that unfolding sessions_inv_def by (cases "x = k") (auto simp: c' attached_def)
  ultimately show ?thesis using len bs unfolding sessions_inv_def by simp
qed

lemma sessions_inv_transaction:
  assumes inv: "sessions_inv N cs (rw_buses w)"
    and t: "do_transaction os c req n w = (r, resp, w')"
  shows "sessions_inv N cs (rw_buses w')"
proof (cases "rtu_bus c")
  case None
  with t inv show ?thesis by (auto simp: do_transaction_def split: prod.splits)
next
  case (Some i)
  let ?b = "rw_buses w ! i"
  obtain b' where bs: "rw_buses w' = (rw_buses w)[i := b']"
    and b': "refcnt b' = refcnt ?b" "in_use b' = in_use ?b" "sb_fd b' = sb_fd ?b"
    using t Some by (auto simp: do_transaction_def Let_def split: prod.splits)
  have same: "bus_ok N cs i b' = bus_ok N cs i ?b" by (simp add: bus_ok_def b')
  have "bus_ok N cs j (rw_buses w' ! j)" if "j < MB_RTU_MAX_SHARED_BUSES" for j
  proof -
    have ok: "bus_ok N cs j (rw_buses w ! j)" "length (rw_buses w) = MB_RTU_MAX_SHARED_BUSES"
      using inv that unfolding sessions_inv_def by blast+
    then show ?thesis using same that by (cases "j = i") (simp_all add: bs)
  qed
  with inv bs show ?thesis unfolding sessions_inv_def by simp
qed

lemma sessions_inv_reach: "rtu_sessions os N cs w \<Longrightarrow> sessions_inv N cs (rw_buses w)"
proof (induction rule: rtu_sessions.induct)
  case (sessions_start cfg e)
  have "users N (\<lambda>k. detached_ctx cfg) i = {}" for i
    by (auto simp: users_def attached_def detached_ctx_def)
  then have "bus_ok N (\<lambda>k. detached_ctx cfg) i zero_bus" for i
    by (simp add: bus_ok_def zero_bus_def)
  then show ?case
    unfolding sessions_inv_def by (simp add: attached_def detached_ctx_def)
next
  case (sessions_connect cs w k cfg r c' w')
  then show ?case by (blast intro: sessions_inv_connect)
next
  case (sessions_disconnect cs w k c' w')
  then show ?case by (blast intro: sessions_inv_disconnect)
next
  case (sessions_transaction cs w k req n r resp w')
  then show ?case by (blast intro: sessions_inv_transaction)
qed

text \<open>
  C17. However the clients connect, disconnect and exchange frames, a port's reference count
  is the number of clients attached to it, the port of a bus in use is open exactly while
  somebody is attached, and every attached client holds the descriptor of the open port:
  none is left with a descriptor that has been closed.
\<close>

theorem shared_port_refcount:
  assumes "rtu_sessions os N cs w" and "i < MB_RTU_MAX_SHARED_BUSES"
  shows "refcnt (rw_buses w ! i) = card {k. k < N \<and> attached (cs k) i} \<and>
    (in_use (rw_buses w ! i) \<longrightarrow>
       (0 \<le> sb_fd (rw_buses w ! i) \<longleftrightarrow> (\<exists>k<N. attached (cs k) i))) \<and>
    (\<forall>k<N. attached (cs k) i \<longrightarrow>
       in_use (rw_buses w ! i) \<and> rtu_fd (cs k) = sb_fd (rw_buses w ! i) \<and> 0 \<le> sb_fd (rw_buses w ! i))"
proof -
  let ?b = "rw_buses w ! i"
  have ok: "bus_ok N cs i ?b"
    using sessions_inv_reach [OF assms(1)] assms(2) unfolding sessions_inv_def by blast
  have pos: "0 < refcnt ?b \<longleftrightarrow> (\<exists>k<N. attached (cs k) i)"
  proof -
    have "0 < refcnt ?b \<longleftrightarrow> users N cs i \<noteq> {}" using ok by (simp add: bus_ok_def card_gt_0_iff)
    then show ?thesis by (auto simp: users_def)
  qed
  have m: "k \<in> users N cs i \<longleftrightarrow> k < N \<and> attached (cs k) i" for k by (simp add: users_def)
  show ?thesis
    using ok pos unfolding bus_ok_def users_def by auto
qed

section \<open>Witnesses\<close>

text \<open>An instance of the parameter: the environment is the input buffer and a nanosecond clock.\<close>

definition test_os :: "(u8 list \<Rightarrow> u8 list) \<Rightarrow> (u8 list \<times> int) serial_os" where
  "test_os reply = \<lparr>os_open = \<lambda>p e. (3, e), os_clear_ndelay = \<lambda>fd e. e, os_close = \<lambda>fd e. e,
     os_tcgetattr = \<lambda>fd e. (Some \<lparr>c_iflag = 0, c_oflag = 0, c_cflag = 0, c_lflag = 0,
        c_ispeed = B9600, c_ospeed = B9600, c_vmin = 1, c_vtime = 0\<rparr>, e),
     os_tcsetattr = \<lambda>fd t e. (True, e),
     os_tcflush = \<lambda>fd (b, t). ([], t),
     os_write = \<lambda>fd req (b, t). (int (length req), (b @ reply req, t)),
     os_wait = \<lambda>fd t (b, c). (if b = [] then 0 else 1, (b, c)),
     os_read = \<lambda>fd n (b, c). (if b = [] then None else Some (take n b), (drop n b, c)),
     os_clock = \<lambda>(b, t). (t div 1000000000, t mod 1000000000),
     os_usleep = \<lambda>us (b, t). (b, t + int us * 1000)\<rparr>"

lemma test_os_line: "line_ok (test_os reply) fd fst reply"
proof -
  have "\<exists>k. 0 < k \<and> k \<le> n \<and> Some (take n b) = Some (take k b) \<and> drop n b = drop k b"
    if "0 < n" for n and b :: "u8 list" using that by blast
  then show ?thesis by (auto simp: line_ok_def test_os_def)
qed

lemma test_os_bounded: "os_read_bounded (test_os reply)"
  by (auto simp: os_read_bounded_def test_os_def split: if_splits)

definition test_ctx :: rtu_ctx where
  "test_ctx = \<lparr>rtu_fd = 3, rtu_bus = None, rtu_cfg = \<lparr>serial_path = Some ''/dev/ttyS1'',
     rtu_baud_rate = 9600, rtu_unit_id = 1, rtu_response_timeout_ms = 1000\<rparr>\<rparr>"

definition two_registers :: "u8 list \<Rightarrow> u8 list" where
  "two_registers req = append_crc ([1, 3, 4] @ regs_to_bytes [0x1234, 7])"

theorem rtu_read_replies_witness:
  "(case mb_rtu_client_read_holding_registers (test_os two_registers) (Some test_ctx) 0x2100 2
      \<lparr>rw_buses = [], rw_env = ([], 0)\<rparr> of (r, out, _) \<Rightarrow> (r, out) = (0, Some [0x1234, 7])) \<and>
   (case mb_rtu_client_read_holding_registers (test_os (\<lambda>_. append_crc [1, 0x83, 2])) (Some test_ctx) 0x2100 2
      \<lparr>rw_buses = [], rw_env = ([], 0)\<rparr> of (r, out, _) \<Rightarrow> (r, out) = (MB_RTU_CLIENT_ERR_TIMEOUT, None))"
proof -
  let ?w = "\<lparr>rw_buses = [], rw_env = ([], 0)\<rparr> :: (u8 list \<times> int) rtu_world"
  obtain r out w' where a: "mb_rtu_client_read_holding_registers (test_os two_registers)
      (Some test_ctx) 0x2100 2 ?w = (r, out, w')" by (metis prod.exhaust)
  obtain r2 out2 w2 where b: "mb_rtu_client_read_holding_registers (test_os (\<lambda>_. append_crc [1, 0x83, 2]))
      (Some test_ctx) 0x2100 2 ?w = (r2, out2, w2)" by (metis prod.exhaust)
  have h: "0 \<le> rtu_fd test_ctx" "rtu_unit_id (rtu_cfg test_ctx) = 1" "(1 :: u16) \<le> 2"
    "(2 :: u16) \<le> MODBUS_MAX_READ_REGISTERS" by (simp_all add: test_ctx_def)
  have "(r, out) = (0, Some [0x1234, 7])"
    using rtu_read_replies [OF test_os_line h(1,3,4) a, of "[0x1234, 7]"]
    by (simp add: h two_registers_def)
  moreover have "(r2, out2) = (MB_RTU_CLIENT_ERR_TIMEOUT, None)"
    using rtu_read_replies [OF test_os_line h(1,3,4) b, where code = 2] by (simp add: h)
  ultimately show ?thesis using a b by simp
qed

theorem rtu_read_sound_witness:
  "fst (snd (mb_rtu_client_read_holding_registers (test_os (\<lambda>_. [1, 3, 4, 0])) (Some test_ctx) 0x2100 2
      \<lparr>rw_buses = [], rw_env = ([], 0)\<rparr>)) = None"
proof -
  let ?w = "\<lparr>rw_buses = [], rw_env = ([], 0)\<rparr> :: (u8 list \<times> int) rtu_world"
  let ?os = "test_os (\<lambda>_. [1, 3, 4, 0])"
  obtain r out w' where a: "mb_rtu_client_read_holding_registers ?os (Some test_ctx) 0x2100 2 ?w =
      (r, out, w')" by (metis prod.exhaust)
  have "out = None"
  proof (rule ccontr)
    assume "out \<noteq> None"
    with rtu_read_sound [OF test_os_bounded a] obtain resp w1 where
      t: "do_transaction ?os test_ctx (rtu_read_request (rtu_unit_id (rtu_cfg test_ctx)) 0x2100 2)
         (5 + 2 * unat (2 :: u16)) ?w = (0, resp, w1)" by blast
    from do_transaction_line [OF test_os_line _ t] show False by (simp split: if_splits)
  qed
  with a show ?thesis by simp
qed

theorem handoff_silence_witness:
  "29000000 < nanoseconds (os_clock (test_os id) (enforce_bus_handoff_silence (test_os id)
      (zero_bus\<lparr>has_last_transaction := True, last_unit_id := 2\<rparr>) 1 ([], 5000000))) - 0"
  using handoff_silence [of "zero_bus\<lparr>has_last_transaction := True, last_unit_id := 2\<rparr>" 1 "test_os id"
      "([], 5000000)"]
  by (simp add: zero_bus_def test_os_def nanoseconds_def)

theorem shared_port_refcount_witness:
  "\<exists>cs w. rtu_sessions (test_os id) 2 cs w \<and>
     refcnt (rw_buses w ! 0) = card {k. k < 2 \<and> attached (cs k) 0} \<and> attached (cs 1) 0"
proof -
  let ?cfg = "rtu_cfg test_ctx"
  let ?w = "\<lparr>rw_buses = replicate MB_RTU_MAX_SHARED_BUSES zero_bus, rw_env = ([], 0)\<rparr>
    :: (u8 list \<times> int) rtu_world"
  let ?cs = "\<lambda>k :: nat. detached_ctx ?cfg"
  obtain r c w where c: "mb_rtu_client_connect (test_os id) ?cfg (?cs 1) ?w = (r, c, w)"
    by (metis prod.exhaust)
  have at: "attached c 0"
    using c by (simp add: mb_rtu_client_connect_def test_ctx_def acquire_shared_bus_def search_bus_def
        zero_bus_def shared_bus_attach_port_def configure_serial_port_def test_os_def
        upt_rec_numeral numeral_nat attached_def Let_def)
       (auto simp: attached_def)
  have s: "rtu_sessions (test_os id) 2 (?cs(1 := c)) w"
    by (rule sessions_connect [OF sessions_start _ _ c]) (simp_all add: detached_ctx_def)
  have "refcnt (rw_buses w ! 0) = card {k. k < 2 \<and> attached ((?cs(1 := c)) k) 0}"
    by (rule conjunct1 [OF shared_port_refcount [OF s]]) simp
  moreover have "attached ((?cs(1 := c)) 1) 0" using at by simp
  ultimately show ?thesis using s by blast
qed

end
