(* ===== verification/Tcp_Codec.thy ===== *)
theory Tcp_Codec
  imports Modbus_Defs
begin

text \<open>
  The codec of \<^verbatim>\<open>lib/modbus/modbus_tcp.c\<close>: the request builders with their transaction
  counter, the request parser and the read-response builder. A builder returns its result
  code together with the bytes it stored from the start of the caller's buffer; the caller's
  capacity is a separate argument, so that a store past it is visible.
\<close>

abbreviation MODBUS_TCP_MBAP_PREFIX_LEN :: nat where
  "MODBUS_TCP_MBAP_PREFIX_LEN \<equiv> MODBUS_TCP_MBAP_HEADER_LEN"

section \<open>Transaction identifiers\<close>

text \<open>The same step stands in every builder and in \<^verbatim>\<open>next_tid\<close> of the client.\<close>

definition tid_step :: "u16 \<Rightarrow> u16" where
  "tid_step tid = (if tid < 0xFFFF then tid + 1 else 1)"

section \<open>Builders\<close>

definition mb_tcp_build_request_basis ::
  "u16 \<Rightarrow> u8 \<Rightarrow> int \<Rightarrow> int \<Rightarrow> u16 \<Rightarrow> nat \<Rightarrow> int \<times> u16 \<times> u8 list" where
  "mb_tcp_build_request_basis tid0 uid func addr nb req_cap =
     (if req_cap < MODBUS_TCP_MIN_READ_REQ_LENGTH then (-1, tid0, [])
      else if func < 0 \<or> func > 255 \<or> addr < 0 \<or> addr > 65535 then (-1, tid0, [])
      else
        let tid = tid_step tid0; mbap_len = 1 + 5; a = (of_int addr :: u16)
        in (0, tid, [be_hi tid, be_lo tid, 0, 0, be_hi mbap_len, be_lo mbap_len, uid,
              of_int func, be_hi a, be_lo a, be_hi nb, be_lo nb]))"

definition mb_tcp_build_fc06_request ::
  "u16 \<Rightarrow> u8 \<Rightarrow> u16 \<Rightarrow> u16 \<Rightarrow> nat \<Rightarrow> int \<times> u16 \<times> u8 list" where
  "mb_tcp_build_fc06_request tid0 uid addr v req_cap =
     (if req_cap < MODBUS_TCP_MIN_READ_REQ_LENGTH then (-1, tid0, [])
      else
        let tid = tid_step tid0
        in (0, tid, [be_hi tid, be_lo tid, 0, 0, 0, MODBUS_TCP_MBAP_LEN_STANDARD_REQ, uid,
              MODBUS_FUNC_WRITE_SINGLE_REGISTER, be_hi addr, be_lo addr, be_hi v, be_lo v]))"

text \<open>\<^verbatim>\<open>byte_count\<close> is an 8-bit value: twice the number of registers, truncated.\<close>

definition mb_tcp_build_fc16_request ::
  "u16 \<Rightarrow> u8 \<Rightarrow> u16 \<Rightarrow> u16 \<Rightarrow> u16 list option \<Rightarrow> nat \<Rightarrow> int \<times> u16 \<times> u8 list" where
  "mb_tcp_build_fc16_request tid0 uid addr num values req_cap =
     (case values of
        None \<Rightarrow> (-1, tid0, [])
      | Some vs \<Rightarrow>
          if num = 0 then (-1, tid0, [])
          else
            let byte_count = (ucast (num * 2) :: u8);
                mbap_len = (7 + ucast byte_count :: u16);
                total_len = MODBUS_TCP_MBAP_HEADER_LEN + unat mbap_len
            in if req_cap < total_len then (-1, tid0, [])
               else
                 let tid = tid_step tid0
                 in (int total_len, tid,
                     [be_hi tid, be_lo tid, 0, 0, be_hi mbap_len, be_lo mbap_len, uid,
                      MODBUS_FUNC_WRITE_MULTIPLE_REGISTERS, be_hi addr, be_lo addr, be_hi num, be_lo num,
                      byte_count] @ regs_to_bytes (take (unat num) vs)))"

section \<open>Parser\<close>

definition mb_tcp_parse_request :: "u8 list option \<Rightarrow> nat \<Rightarrow> (u8 \<times> u16 \<times> u16) option" where
  "mb_tcp_parse_request request len =
     (case request of
        None \<Rightarrow> None
      | Some r \<Rightarrow>
          if len < MODBUS_TCP_MBAP_PREFIX_LEN then None
          else
            let mbap_len = be_join (r ! 4) (r ! 5)
            in if mbap_len < 6 then None
               else if mbap_len > of_nat (MODBUS_TCP_MAX_ADU_LENGTH - MODBUS_TCP_MBAP_PREFIX_LEN) then None
               else if len < MODBUS_TCP_MBAP_PREFIX_LEN + unat mbap_len then None
               else Some (r ! 7, be_join (r ! 8) (r ! 9),
                      if r ! 7 = MODBUS_FUNC_WRITE_SINGLE_REGISTER then 1
                      else be_join (r ! 10) (r ! 11)))"

section \<open>Read response\<close>

definition mb_tcp_build_read_registers_response ::
  "u16 \<Rightarrow> u8 \<Rightarrow> u8 \<Rightarrow> u16 list option \<Rightarrow> u16 \<Rightarrow> nat \<Rightarrow> int \<times> u8 list" where
  "mb_tcp_build_read_registers_response tid fc uid data qty cap =
     (case data of
        None \<Rightarrow> (-1, [])
      | Some vs \<Rightarrow>
          if qty > 125 then (-1, [])
          else
            let pdu_len = 1 + 1 + unat qty * 2; mbap_len = 1 + pdu_len;
                total = MODBUS_TCP_MBAP_PREFIX_LEN + mbap_len; ml = (of_nat mbap_len :: u16)
            in if cap < total then (-1, [])
               else (int total, [be_hi tid, be_lo tid, 0, 0, be_hi ml, be_lo ml, uid, fc,
                       ucast (qty * 2)] @ regs_to_bytes (take (unat qty) vs)))"

section \<open>Properties\<close>

lemma tid_step_nonzero [simp]: "tid_step t \<noteq> 0"
proof (cases "t < 0xFFFF")
  case True
  then have "unat t < 65535" by (simp add: word_less_nat_alt)
  then have "unat (t + 1) \<noteq> 0" by (simp add: unat_word_ariths)
  then have "t + 1 \<noteq> 0" by (metis unsigned_0)
  with True show ?thesis by (simp add: tid_step_def)
qed (simp add: tid_step_def)

lemma tid_step_neq [simp]: "tid_step t \<noteq> t"
proof (cases "t < 0xFFFF")
  case True
  have "t + 1 \<noteq> t" by simp
  with True show ?thesis by (simp add: tid_step_def)
next
  case False
  then have "t \<noteq> 1" by auto
  with False show ?thesis by (simp add: tid_step_def)
qed

lemma tid_step_unat: "unat (tid_step t) = (if unat t < 65535 then unat t + 1 else 1)"
  by (auto simp: tid_step_def word_less_nat_alt unat_word_ariths)

text \<open>
  Transaction identifiers are never 0 and repeat only after 65535 requests: any two of
  at most 65535 consecutive identifiers differ.
\<close>

theorem tid_period:
  assumes "t \<noteq> 0" and "i < 65535" and "j < 65535" and "i \<noteq> j"
  shows "(tid_step ^^ i) t \<noteq> (tid_step ^^ j) t \<and> (tid_step ^^ i) t \<noteq> 0"
proof -
  have val: "unat ((tid_step ^^ n) t) = (unat t - 1 + n) mod 65535 + 1" for n
  proof (induction n)
    case 0
    have "0 < unat t" using assms(1) by (simp add: unat_gt_0)
    moreover have "unat t < 65536" by simp
    ultimately have "unat t - 1 < 65535" by linarith
    with \<open>0 < unat t\<close> show ?case by simp
  next
    case (Suc n)
    let ?m = "unat t - 1 + n"
    have "Suc ?m mod 65535 = (if Suc (?m mod 65535) = 65535 then 0 else Suc (?m mod 65535))"
      by (rule mod_Suc)
    moreover have "?m mod 65535 < 65535" by simp
    ultimately show ?case using Suc
      by (cases "?m mod 65535 = 65534") (simp_all add: tid_step_unat, linarith)
  qed
  have "(unat t - 1 + i) mod 65535 \<noteq> (unat t - 1 + j) mod 65535"
  proof
    assume eq: "(unat t - 1 + i) mod 65535 = (unat t - 1 + j) mod 65535"
    have "a = b" if "(x + a) mod m = (x + b) mod m" "a < m" "b < m" "a \<le> b" for x a b m :: nat
    proof -
      have "m dvd (x + b) - (x + a)" using that(1,4) by (metis mod_eq_dvd_iff_nat nat_add_left_cancel_le)
      then have "m dvd b - a" by simp
      with that(2,3,4) show ?thesis by (cases "b - a = 0") (auto dest: dvd_imp_le)
    qed
    from this [of "unat t - 1" i 65535 j] this [of "unat t - 1" j 65535 i] eq assms
    show False by (metis nat_le_linear)
  qed
  then have "(tid_step ^^ i) t \<noteq> (tid_step ^^ j) t"
    using val by (metis add_right_cancel)
  moreover have "(tid_step ^^ i) t \<noteq> 0"
    using val [of i] by (metis Suc_eq_plus1 nat.distinct(1) unsigned_0)
  ultimately show ?thesis by simp
qed

theorem tid_period_witness: "(tid_step ^^ 3) 0xFFFF \<noteq> 0xFFFF"
  using tid_period [of "0xFFFF" 3 0] by simp

lemma be_small: "unat v < 256 \<Longrightarrow> be_hi v = 0 \<and> be_join 0 (be_lo v) = v"
proof -
  assume "unat v < 256"
  then have "unat (drop_bit 8 v) = 0"
    by (simp only: unsigned_drop_bit_eq) (simp add: drop_bit_eq_div take_bit_eq_mod)
  then have "drop_bit 8 v = 0" by (simp only: unsigned_eq_0_iff)
  then have "be_hi v = 0" by (simp add: be_hi_def)
  then show ?thesis using be_join_split [of v] by simp
qed

text \<open>
  The parser recovers function code, address and quantity from every request the
  builders produce for 1 to 123 registers; for a single-register write the quantity is 1.
\<close>

theorem tcp_request_roundtrip:
  assumes "length vs = unat num" and "1 \<le> num" and "num \<le> MODBUS_MAX_WRITE_REGISTERS"
  shows "(case mb_tcp_build_request_basis tid uid (uint fc) (uint a) nb 12 of (rc, _, req) \<Rightarrow>
       rc = 0 \<and> length req = 12 \<and>
       mb_tcp_parse_request (Some req) 12 =
         Some (fc, a, if fc = MODBUS_FUNC_WRITE_SINGLE_REGISTER then 1 else nb)) \<and>
    (case mb_tcp_build_fc06_request tid uid a nb 12 of (rc, _, req) \<Rightarrow>
       rc = 0 \<and> length req = 12 \<and>
       mb_tcp_parse_request (Some req) 12 = Some (MODBUS_FUNC_WRITE_SINGLE_REGISTER, a, 1)) \<and>
    (case mb_tcp_build_fc16_request tid uid a num (Some vs) MODBUS_TCP_MAX_ADU_LENGTH of (rc, _, req) \<Rightarrow>
       rc = int (length req) \<and> length req = 13 + 2 * unat num \<and>
       mb_tcp_parse_request (Some req) (length req) =
         Some (MODBUS_FUNC_WRITE_MULTIPLE_REGISTERS, a, num))"
proof -
  have n: "unat num \<le> 123" "0 < unat num" using assms by (simp_all add: word_le_nat_alt)
  have bc: "unat (ucast (num * 2) :: u8) = 2 * unat num"
    using n by (simp add: unsigned_ucast_eq unat_word_ariths take_bit_eq_mod)
  let ?ml = "7 + ucast (ucast (num * 2) :: u8) :: u16"
  have ml: "unat ?ml = 7 + 2 * unat num"
    using n bc by (simp add: unat_word_ariths unsigned_ucast_eq take_bit_eq_mod)
  have mlb: "\<not> ?ml < 6" "\<not> 254 < ?ml"
    using ml n by (simp_all add: word_less_nat_alt)
  have "num \<noteq> 0" using n by auto
  have c16: "mb_tcp_build_fc16_request tid uid a num (Some vs) MODBUS_TCP_MAX_ADU_LENGTH =
     (int (13 + 2 * unat num), tid_step tid, [be_hi (tid_step tid), be_lo (tid_step tid), 0, 0,
       be_hi ?ml, be_lo ?ml, uid, 16, be_hi a, be_lo a, be_hi num, be_lo num, ucast (num * 2)] @
       regs_to_bytes vs)"
    using ml n assms(1) \<open>num \<noteq> 0\<close> by (simp add: mb_tcp_build_fc16_request_def Let_def)
  have six: "be_join 0 6 = 6" by (simp add: be_join_def)
  have r: "\<not> 255 < uint fc" "\<not> 65535 < uint a"
    using unsigned_less [of fc, where ?'a = int] unsigned_less [of a, where ?'a = int] by simp_all
  show ?thesis
    unfolding c16
    using ml mlb assms(1) six r
    by (simp add: mb_tcp_build_request_basis_def mb_tcp_build_fc06_request_def Let_def
        mb_tcp_parse_request_def uint_lt_0 be_small)
qed

text \<open>Fields of the built frames that the transports rely on.\<close>

theorem tcp_request_roundtrip_witness:
  "(case mb_tcp_build_fc16_request 0xFFFF 1 0x2000 2 (Some [7, 8]) MODBUS_TCP_MAX_ADU_LENGTH of
      (rc, _, req) \<Rightarrow> rc = 17 \<and> mb_tcp_parse_request (Some req) (length req) = Some (16, 0x2000, 2))"
  using tcp_request_roundtrip [where vs = "[7, 8]" and num = 2 and tid = "0xFFFF" and uid = 1 and fc = 3 and a = "0x2000" and nb = 0]
  by (auto split: prod.splits)

text \<open>
  The FC16 builder checks the capacity against a byte count truncated to 8 bits: with
  128 registers it accepts a buffer of 13 bytes, reports 13 bytes, and has stored 269. For at
  most 127 registers it never stores more than the capacity it was given.
\<close>

theorem fc16_capacity_check:
  assumes "length vs = unat num"
    and "mb_tcp_build_fc16_request tid uid a num (Some vs) cap = (rc, tid', req)"
  shows "(num \<le> 127 \<and> 0 < rc \<longrightarrow> length req \<le> cap \<and> rc = int (length req)) \<and>
    (num = 128 \<and> cap = 13 \<longrightarrow> rc = 13 \<and> length req = 269)"
proof -
  let ?ml = "7 + ucast (ucast (num * 2) :: u8) :: u16"
  have "length req \<le> cap \<and> rc = int (length req)" if "num \<le> 127" "0 < rc"
  proof -
    have n: "unat num \<le> 127" using that(1) by (simp add: word_le_nat_alt)
    have "unat (ucast (num * 2) :: u8) = 2 * unat num"
      using n by (simp add: unsigned_ucast_eq unat_word_ariths take_bit_eq_mod)
    then have "unat ?ml = 7 + 2 * unat num"
      using n by (simp add: unat_word_ariths unsigned_ucast_eq take_bit_eq_mod)
    with that assms show ?thesis
      by (auto simp: mb_tcp_build_fc16_request_def Let_def split: if_splits)
  qed
  moreover have "rc = 13 \<and> length req = 269" if "num = 128" "cap = 13"
    using assms that by (auto simp: mb_tcp_build_fc16_request_def Let_def split: if_splits)
  ultimately show ?thesis by blast
qed

theorem fc16_capacity_check_witness:
  "fst (mb_tcp_build_fc16_request 5 1 0 128 (Some (replicate 128 0)) 13) = 13 \<and>
   length (snd (snd (mb_tcp_build_fc16_request 5 1 0 128 (Some (replicate 128 0)) 13))) = 269"
proof -
  obtain rc t req where r: "mb_tcp_build_fc16_request 5 1 0 128 (Some (replicate 128 0)) 13 = (rc, t, req)"
    by (metis prod.exhaust)
  have "length (replicate 128 (0 :: u16)) = unat (128 :: u16)" by (simp only: length_replicate) simp
  from fc16_capacity_check [OF this r] r show ?thesis by simp
qed

end
