(* ===== verification/Tcp_Client.thy ===== *)
theory Tcp_Client
  imports Tcp_Codec
begin

text \<open>
  \<^verbatim>\<open>lib/modbus/modbus_tcp_client.c\<close> and the connection helpers \<^verbatim>\<open>mb_tcp_connect\<close> and
  \<^verbatim>\<open>mb_tcp_close\<close> of \<^verbatim>\<open>modbus_tcp.c\<close>. The socket calls are a parameter over an environment
  \<open>'e\<close>. A buffer on the stack starts with whatever is there: \<open>sk_stack\<close>; the received bytes
  are stored over its beginning.
\<close>

section \<open>Return codes and constants\<close>

abbreviation MB_TCP_CLIENT_OK :: int where "MB_TCP_CLIENT_OK \<equiv> 0"
abbreviation MB_TCP_CLIENT_ERR_ARG :: int where "MB_TCP_CLIENT_ERR_ARG \<equiv> -1"
abbreviation MB_TCP_CLIENT_ERR_NOT_CONNECTED :: int where "MB_TCP_CLIENT_ERR_NOT_CONNECTED \<equiv> -2"
abbreviation MB_TCP_CLIENT_ERR_TRANSPORT :: int where "MB_TCP_CLIENT_ERR_TRANSPORT \<equiv> -3"
abbreviation MB_TCP_CLIENT_ERR_TIMEOUT :: int where "MB_TCP_CLIENT_ERR_TIMEOUT \<equiv> -4"
abbreviation MB_TCP_CLIENT_ERR_FRAME :: int where "MB_TCP_CLIENT_ERR_FRAME \<equiv> -5"
abbreviation MB_TCP_CLIENT_ERR_TID :: int where "MB_TCP_CLIENT_ERR_TID \<equiv> -6"

abbreviation DEFAULT_CONNECT_TIMEOUT_SEC :: u32 where "DEFAULT_CONNECT_TIMEOUT_SEC \<equiv> 5"
abbreviation DEFAULT_RESPONSE_TIMEOUT_MS :: u32 where "DEFAULT_RESPONSE_TIMEOUT_MS \<equiv> 1000"
abbreviation FC16_RESPONSE_LEN :: nat where "FC16_RESPONSE_LEN \<equiv> 12"
abbreviation MIN_RESPONSE_LEN :: nat where "MIN_RESPONSE_LEN \<equiv> 9"
abbreviation FC03_RESPONSE_HEADER_LEN :: nat where "FC03_RESPONSE_HEADER_LEN \<equiv> 9"
abbreviation FC03_RESPONSE_BYTE_COUNT_OFFSET :: nat where "FC03_RESPONSE_BYTE_COUNT_OFFSET \<equiv> 8"

section \<open>Data\<close>

datatype recv_result = Recv_bytes "u8 list" | Recv_timeout | Recv_error
datatype connect_result = Connect_ok | Connect_in_progress | Connect_failed
datatype sock_option = SO_SNDTIMEO u32 | SO_RCVTIMEO u32 | SO_RCVTIMEO_MS u32 | SO_BINDTODEVICE string
  | SO_REUSEADDR | SO_KEEPALIVE | TCP_KEEPIDLE u32 | TCP_KEEPINTVL u32 | TCP_KEEPCNT u32

text \<open>\<open>sk_recv\<close> answers \<open>Recv_timeout\<close> when \<^verbatim>\<open>recv\<close> returns 0 or less with a timeout
  \<^verbatim>\<open>errno\<close>, \<open>Recv_error\<close> when it does with another one.\<close>

record 'e socket_os =
  sk_socket :: "'e \<Rightarrow> int \<times> 'e"
  sk_setsockopt :: "int \<Rightarrow> sock_option \<Rightarrow> 'e \<Rightarrow> bool \<times> 'e"
  sk_inet_pton :: "string \<Rightarrow> bool"
  sk_set_nonblock :: "int \<Rightarrow> bool \<Rightarrow> 'e \<Rightarrow> 'e"
  sk_connect :: "int \<Rightarrow> string \<Rightarrow> u16 \<Rightarrow> 'e \<Rightarrow> connect_result \<times> 'e"
  sk_wait_writable :: "int \<Rightarrow> u32 \<Rightarrow> 'e \<Rightarrow> bool \<times> 'e"
  sk_so_error :: "int \<Rightarrow> 'e \<Rightarrow> int \<times> 'e"
  sk_shutdown :: "int \<Rightarrow> 'e \<Rightarrow> 'e"
  sk_close :: "int \<Rightarrow> 'e \<Rightarrow> 'e"
  sk_send :: "int \<Rightarrow> u8 list \<Rightarrow> 'e \<Rightarrow> int \<times> 'e"
  sk_recv :: "int \<Rightarrow> nat \<Rightarrow> 'e \<Rightarrow> recv_result \<times> 'e"
  sk_stack :: "'e \<Rightarrow> u8 list"
  sk_mutex_ok :: "'e \<Rightarrow> bool"

record tcp_config =
  remote_host :: "string option"
  tcp_port :: u16
  bind_iface :: "string option"
  tcp_unit_id :: u8
  connect_timeout_sec :: u32
  tcp_response_timeout_ms :: u32

record tcp_ctx =
  sock :: int
  tid :: u16
  tcp_cfg :: tcp_config

section \<open>Connecting and closing\<close>

definition mb_tcp_connect ::
  "'e socket_os \<Rightarrow> int \<Rightarrow> string option \<Rightarrow> string option \<Rightarrow> u16 \<Rightarrow> u32 \<Rightarrow> 'e \<Rightarrow> int \<times> int \<times> 'e" where
  "mb_tcp_connect os old iface host port timeout0 e =
     (case host of
        None \<Rightarrow> (-22, old, e)
      | Some h \<Rightarrow>
          if h = [] \<or> port = 0 then (-22, old, e)
          else
            let timeout = (if timeout0 = 0 then 5 else timeout0);
                (fd, e1) = sk_socket os e;
                fail = (\<lambda>e. (-1, -1, sk_close os fd e))
            in if fd < 0 then (-1, fd, e1)
               else case sk_setsockopt os fd (SO_SNDTIMEO timeout) e1 of
                 (False, e2) \<Rightarrow> fail e2
               | (True, e2) \<Rightarrow>
                 (case sk_setsockopt os fd (SO_RCVTIMEO timeout) e2 of
                    (False, e3) \<Rightarrow> fail e3
                  | (True, e3) \<Rightarrow>
                    (case (case iface of
                             None \<Rightarrow> (True, e3)
                           | Some i \<Rightarrow> if i = [] then (True, e3)
                                       else sk_setsockopt os fd (SO_BINDTODEVICE i) e3) of
                       (False, e4) \<Rightarrow> fail e4
                     | (True, e4) \<Rightarrow>
                       (case sk_setsockopt os fd SO_REUSEADDR e4 of
                          (False, e5) \<Rightarrow> fail e5
                        | (True, e5) \<Rightarrow>
                          if \<not> sk_inet_pton os h then fail e5
                          else
                            (case sk_connect os fd h port (sk_set_nonblock os fd True e5) of
                               (Connect_ok, e6) \<Rightarrow> (0, fd, sk_set_nonblock os fd False e6)
                             | (Connect_failed, e6) \<Rightarrow> fail e6
                             | (Connect_in_progress, e6) \<Rightarrow>
                                 (case sk_wait_writable os fd timeout e6 of
                                    (False, e7) \<Rightarrow> fail e7
                                  | (True, e7) \<Rightarrow>
                                      (case sk_so_error os fd e7 of
                                         (err, e8) \<Rightarrow>
                                           if err = 0 then (0, fd, sk_set_nonblock os fd False e8)
                                           else fail e8)))))))"

definition mb_tcp_close :: "'e socket_os \<Rightarrow> int \<Rightarrow> 'e \<Rightarrow> int \<times> 'e" where
  "mb_tcp_close os fd e = (if fd \<ge> 0 then (-1, sk_close os fd (sk_shutdown os fd e)) else (fd, e))"

definition mb_tcp_client_connect ::
  "'e socket_os \<Rightarrow> tcp_config \<Rightarrow> tcp_ctx \<Rightarrow> 'e \<Rightarrow> int \<times> tcp_ctx \<times> 'e" where
  "mb_tcp_client_connect os cfg old e =
     (case remote_host cfg of
        None \<Rightarrow> (-1, old, e)
      | Some h \<Rightarrow>
          if h = [] \<or> tcp_port cfg = 0 then (-1, old, e)
          else
            let ctx = \<lparr>sock = -1, tid = 0, tcp_cfg = cfg\<rparr>
            in if \<not> sk_mutex_ok os e then (-1, ctx, e)
               else
                 let sec = (if connect_timeout_sec cfg \<noteq> 0 then connect_timeout_sec cfg
                            else DEFAULT_CONNECT_TIMEOUT_SEC);
                     (rc, fd, e1) = mb_tcp_connect os (-1) (bind_iface cfg) (remote_host cfg) (tcp_port cfg) sec e
                 in if rc \<noteq> 0 then (-1, ctx\<lparr>sock := -1\<rparr>, e1)
                    else
                      let ms = (if tcp_response_timeout_ms cfg \<noteq> 0 then tcp_response_timeout_ms cfg
                                else DEFAULT_RESPONSE_TIMEOUT_MS)
                      in (0, ctx\<lparr>sock := fd\<rparr>, snd (sk_setsockopt os fd (SO_RCVTIMEO_MS ms) e1)))"

definition mb_tcp_client_disconnect :: "'e socket_os \<Rightarrow> tcp_ctx \<Rightarrow> 'e \<Rightarrow> tcp_ctx \<times> 'e" where
  "mb_tcp_client_disconnect os ctx e =
     (let (fd, e1) = mb_tcp_close os (sock ctx) e in (ctx\<lparr>sock := fd\<rparr>, e1))"

section \<open>Receiving\<close>

function recv_exact ::
  "'e socket_os \<Rightarrow> int \<Rightarrow> nat \<Rightarrow> u8 list \<Rightarrow> 'e \<Rightarrow> int \<times> u8 list \<times> 'e" where
  "recv_exact os fd n got e =
     (if length got < n then
        (case sk_recv os fd (n - length got) e of
           (Recv_timeout, e1) \<Rightarrow> (-2, got, e1)
         | (Recv_error, e1) \<Rightarrow> (-1, got, e1)
         | (Recv_bytes bs, e1) \<Rightarrow>
             if bs = [] then (-1, got, e1) else recv_exact os fd n (got @ bs) e1)
      else (0, got, e))"
  by pat_completeness auto
termination
  by (relation "measure (\<lambda>(os, fd, n, got, e). n - length got)") (auto intro!: diff_less_mono2)

declare recv_exact.simps [simp del]

definition recv_err_to_client_err :: "int \<Rightarrow> int" where
  "recv_err_to_client_err rc =
     (if rc = -2 then MB_TCP_CLIENT_ERR_TIMEOUT else MB_TCP_CLIENT_ERR_TRANSPORT)"

text \<open>The result code with the bytes received, whose number is \<^verbatim>\<open>total_len\<close> on success.\<close>

definition recv_response :: "'e socket_os \<Rightarrow> int \<Rightarrow> nat \<Rightarrow> 'e \<Rightarrow> int \<times> u8 list \<times> 'e" where
  "recv_response os fd buf_cap e =
     (case recv_exact os fd MODBUS_TCP_MBAP_HEADER_LEN [] e of
        (rc, hdr, e1) \<Rightarrow>
          if rc \<noteq> 0 then (rc, hdr, e1)
          else
            let remaining = unat (be_join (hdr ! 4) (hdr ! 5))
            in if remaining = 0 \<or> remaining > buf_cap - MODBUS_TCP_MBAP_HEADER_LEN then (-1, hdr, e1)
               else
                 (case recv_exact os fd remaining [] e1 of
                    (rc2, body, e2) \<Rightarrow> (rc2, hdr @ body, e2)))"

section \<open>Requests\<close>

definition next_tid :: "tcp_ctx \<Rightarrow> tcp_ctx" where
  "next_tid ctx = ctx\<lparr>tid := tid_step (tid ctx)\<rparr>"

definition build_fc03_request :: "u16 \<Rightarrow> u8 \<Rightarrow> u16 \<Rightarrow> u16 \<Rightarrow> u8 list" where
  "build_fc03_request t uid addr qty =
     [be_hi t, be_lo t, 0, 0, 0, MODBUS_TCP_MBAP_LEN_STANDARD_REQ, uid,
      MODBUS_FUNC_READ_HOLDING_REGISTERS, be_hi addr, be_lo addr, be_hi qty, be_lo qty]"

definition build_fc06_request :: "u16 \<Rightarrow> u8 \<Rightarrow> u16 \<Rightarrow> u16 \<Rightarrow> u8 list" where
  "build_fc06_request t uid addr v =
     [be_hi t, be_lo t, 0, 0, 0, MODBUS_TCP_MBAP_LEN_STANDARD_REQ, uid,
      MODBUS_FUNC_WRITE_SINGLE_REGISTER, be_hi addr, be_lo addr, be_hi v, be_lo v]"

text \<open>The returned length is \<open>6 + mbap_len\<close>; the bytes are those stored.\<close>

definition build_fc16_request :: "u16 \<Rightarrow> u8 \<Rightarrow> u16 \<Rightarrow> u16 \<Rightarrow> u16 list \<Rightarrow> nat \<times> u8 list" where
  "build_fc16_request t uid addr qty data =
     (let byte_count = (ucast (qty * 2) :: u8); mbap_len = (7 + ucast byte_count :: u16)
      in (MODBUS_TCP_MBAP_HEADER_LEN + unat mbap_len,
          [be_hi t, be_lo t, 0, 0, be_hi mbap_len, be_lo mbap_len, uid,
           MODBUS_FUNC_WRITE_MULTIPLE_REGISTERS, be_hi addr, be_lo addr, be_hi qty, be_lo qty,
           byte_count] @ regs_to_bytes (take (unat qty) data)))"

definition validate_write_response :: "u8 list \<Rightarrow> u8 list \<Rightarrow> nat \<Rightarrow> u16 \<Rightarrow> int" where
  "validate_write_response req resp total_len expected_tid =
     (if total_len < MIN_RESPONSE_LEN then MB_TCP_CLIENT_ERR_FRAME
      else if be_join (resp ! 0) (resp ! 1) \<noteq> expected_tid then MB_TCP_CLIENT_ERR_TID
      else if resp ! 7 AND MODBUS_EXCEPTION_FLAG \<noteq> 0 then uint (resp ! 8)
      else if total_len < FC16_RESPONSE_LEN then MB_TCP_CLIENT_ERR_FRAME
      else if resp ! 7 \<noteq> req ! 7 then MB_TCP_CLIENT_ERR_FRAME
      else MB_TCP_CLIENT_OK)"

section \<open>Client operations\<close>

text \<open>The buffer after a reception: the received bytes over the stack's old contents.\<close>

definition resp_buffer :: "u8 list \<Rightarrow> u8 list \<Rightarrow> u8 list" where
  "resp_buffer stack received = received @ drop (length received) stack"

text \<open>What the code reads off the buffer of an FC03 response; the registers are
  \<^const>\<open>None\<close> when none are stored.\<close>

definition parse_fc03_response :: "u8 list \<Rightarrow> nat \<Rightarrow> u16 \<Rightarrow> u16 \<Rightarrow> int \<times> u16 list option" where
  "parse_fc03_response resp total_len t qty =
     (if be_join (resp ! 0) (resp ! 1) \<noteq> t then (MB_TCP_CLIENT_ERR_TID, None)
      else if resp ! 7 AND MODBUS_EXCEPTION_FLAG \<noteq> 0 then (uint (resp ! 8), None)
      else if resp ! 7 \<noteq> MODBUS_FUNC_READ_HOLDING_REGISTERS then (MB_TCP_CLIENT_ERR_FRAME, None)
      else if total_len < FC03_RESPONSE_HEADER_LEN then (MB_TCP_CLIENT_ERR_FRAME, None)
      else if resp ! FC03_RESPONSE_BYTE_COUNT_OFFSET \<noteq> ucast (qty * 2) then (MB_TCP_CLIENT_ERR_FRAME, None)
      else (MB_TCP_CLIENT_OK,
            Some (map (\<lambda>i. be_join (resp ! (FC03_RESPONSE_HEADER_LEN + i * 2))
                              (resp ! (FC03_RESPONSE_HEADER_LEN + i * 2 + 1))) [0..<unat qty])))"

definition mb_tcp_client_read_holding_registers ::
  "'e socket_os \<Rightarrow> tcp_ctx \<Rightarrow> u16 \<Rightarrow> u16 \<Rightarrow> 'e \<Rightarrow> int \<times> u16 list option \<times> tcp_ctx \<times> 'e" where
  "mb_tcp_client_read_holding_registers os ctx addr qty e =
     (if qty = 0 \<or> qty > MODBUS_MAX_READ_REGISTERS then (MB_TCP_CLIENT_ERR_ARG, None, ctx, e)
      else if sock ctx < 0 then (MB_TCP_CLIENT_ERR_NOT_CONNECTED, None, ctx, e)
      else
        let ctx1 = next_tid ctx;
            req = build_fc03_request (tid ctx1) (tcp_unit_id (tcp_cfg ctx1)) addr qty;
            (sent, e1) = sk_send os (sock ctx1) req e
        in if sent \<noteq> int (length req) then (MB_TCP_CLIENT_ERR_TRANSPORT, None, ctx1, e1)
           else
             (case recv_response os (sock ctx1) MODBUS_TCP_MAX_ADU_LENGTH e1 of
                (rc, received, e2) \<Rightarrow>
                  if rc \<noteq> 0 then (recv_err_to_client_err rc, None, ctx1, e2)
                  else
                    let (r, out) = parse_fc03_response (resp_buffer (sk_stack os e) received)
                           (length received) (tid ctx1) qty
                    in (r, out, ctx1, e2)))"

text \<open>The common part of the two write functions.\<close>

definition tcp_write_transaction ::
  "'e socket_os \<Rightarrow> tcp_ctx \<Rightarrow> nat \<Rightarrow> u8 list \<Rightarrow> 'e \<Rightarrow> int \<times> tcp_ctx \<times> 'e" where
  "tcp_write_transaction os ctx1 req_len req e =
     (let (sent, e1) = sk_send os (sock ctx1) (take req_len req) e
      in if sent \<noteq> int req_len then (MB_TCP_CLIENT_ERR_TRANSPORT, ctx1, e1)
         else
           (case recv_response os (sock ctx1) MODBUS_TCP_MAX_ADU_LENGTH e1 of
              (rc, received, e2) \<Rightarrow>
                if rc \<noteq> 0 then (recv_err_to_client_err rc, ctx1, e2)
                else (validate_write_response req (resp_buffer (sk_stack os e) received)
                        (length received) (tid ctx1), ctx1, e2)))"

definition mb_tcp_client_write_single_register ::
  "'e socket_os \<Rightarrow> tcp_ctx \<Rightarrow> u16 \<Rightarrow> u16 \<Rightarrow> 'e \<Rightarrow> int \<times> tcp_ctx \<times> 'e" where
  "mb_tcp_client_write_single_register os ctx addr v e =
     (if sock ctx < 0 then (MB_TCP_CLIENT_ERR_NOT_CONNECTED, ctx, e)
      else
        let ctx1 = next_tid ctx
        in tcp_write_transaction os ctx1 12
             (build_fc06_request (tid ctx1) (tcp_unit_id (tcp_cfg ctx1)) addr v) e)"

definition mb_tcp_client_write_multiple_registers ::
  "'e socket_os \<Rightarrow> tcp_ctx \<Rightarrow> u16 \<Rightarrow> u16 \<Rightarrow> u16 list option \<Rightarrow> 'e \<Rightarrow> int \<times> tcp_ctx \<times> 'e" where
  "mb_tcp_client_write_multiple_registers os ctx addr qty data e =
     (case data of
        None \<Rightarrow> (MB_TCP_CLIENT_ERR_ARG, ctx, e)
      | Some vs \<Rightarrow>
          if qty = 0 \<or> qty > MODBUS_MAX_WRITE_REGISTERS then (MB_TCP_CLIENT_ERR_ARG, ctx, e)
          else if sock ctx < 0 then (MB_TCP_CLIENT_ERR_NOT_CONNECTED, ctx, e)
          else
            let ctx1 = next_tid ctx;
                (req_len, req) = build_fc16_request (tid ctx1) (tcp_unit_id (tcp_cfg ctx1)) addr qty vs
            in tcp_write_transaction os ctx1 req_len req e)"

section \<open>The client's builders are those of the codec\<close>

lemma be_six: "be_hi 6 = 0" "be_lo 6 = 6"
  by (simp_all add: be_hi_def be_lo_def)

text \<open>
  The three request builders the client has of its own produce, byte for byte, what the
  builders of modbus_tcp.c produce with the same transaction identifier, for up to 123
  registers.
\<close>

theorem tcp_builders_agree:
  assumes "1 \<le> num" and "num \<le> MODBUS_MAX_WRITE_REGISTERS"
  shows "mb_tcp_build_request_basis t uid 3 (uint a) v 12 =
      (0, tid_step t, build_fc03_request (tid_step t) uid a v) \<and>
    mb_tcp_build_fc06_request t uid a v 12 = (0, tid_step t, build_fc06_request (tid_step t) uid a v) \<and>
    mb_tcp_build_fc16_request t uid a num (Some vs) MODBUS_TCP_MAX_ADU_LENGTH =
      (int (fst (build_fc16_request (tid_step t) uid a num vs)), tid_step t,
       snd (build_fc16_request (tid_step t) uid a num vs))"
proof -
  have n: "unat num \<le> 123" "0 < unat num" using assms by (simp_all add: word_le_nat_alt)
  have "unat (ucast (num * 2) :: u8) = 2 * unat num"
    using n by (simp add: unsigned_ucast_eq unat_word_ariths take_bit_eq_mod)
  then have "unat (7 + ucast (ucast (num * 2) :: u8) :: u16) = 7 + 2 * unat num"
    using n by (simp add: unat_word_ariths unsigned_ucast_eq take_bit_eq_mod)
  moreover have "num \<noteq> 0" using n by auto
  moreover have "\<not> 65535 < uint a" using unsigned_less [of a, where ?'a = int] by simp
  ultimately show ?thesis
    using n by (simp add: mb_tcp_build_request_basis_def mb_tcp_build_fc06_request_def
        mb_tcp_build_fc16_request_def build_fc03_request_def build_fc06_request_def
        build_fc16_request_def Let_def be_six uint_lt_0)
qed

theorem tcp_builders_agree_witness:
  "mb_tcp_build_fc16_request 4 1 0 2 (Some [7, 8]) MODBUS_TCP_MAX_ADU_LENGTH =
     (17, 5, snd (build_fc16_request 5 1 0 2 [7, 8]))"
  using tcp_builders_agree [of 2 4 1 0 0 "[7, 8]"]
  by (simp add: tid_step_def build_fc16_request_def)

section \<open>Receiving from a byte stream\<close>

text \<open>
  What TCP gives the client: \<open>pending\<close> is the queue of bytes the peer has sent and the client
  has not read; a \<^verbatim>\<open>recv\<close> while it is not empty takes a non-empty prefix of it, as long as the
  kernel likes. Nothing is said of a \<^verbatim>\<open>recv\<close> on an empty queue.
\<close>

definition byte_stream :: "'e socket_os \<Rightarrow> int \<Rightarrow> ('e \<Rightarrow> u8 list) \<Rightarrow> bool" where
  "byte_stream os fd pending \<longleftrightarrow>
     (\<forall>n e. 0 < n \<longrightarrow> pending e \<noteq> [] \<longrightarrow>
        (\<exists>bs e'. sk_recv os fd n e = (Recv_bytes bs, e') \<and> bs \<noteq> [] \<and> length bs \<le> n \<and>
                 pending e = bs @ pending e'))"

lemma byte_streamE:
  assumes "byte_stream os fd pending" and "0 < n" and "pending e \<noteq> []"
  obtains bs e' where "sk_recv os fd n e = (Recv_bytes bs, e')" and "bs \<noteq> []" and "length bs \<le> n"
    and "pending e = bs @ pending e'"
  using assms unfolding byte_stream_def by blast

lemma recv_exact_stream:
  assumes "byte_stream os fd pending" and "length got \<le> n" and "n - length got \<le> length (pending e)"
  shows "\<exists>e'. recv_exact os fd n got e = (0, got @ take (n - length got) (pending e), e') \<and>
              pending e' = drop (n - length got) (pending e)"
  using assms(2,3)
proof (induction "n - length got" arbitrary: got e rule: less_induct)
  case less
  show ?case
  proof (cases "length got < n")
    case False
    with less.prems show ?thesis by (simp add: recv_exact.simps)
  next
    case True
    with less.prems have "0 < n - length got" "pending e \<noteq> []" by auto
    then obtain bs e1 where bs: "sk_recv os fd (n - length got) e = (Recv_bytes bs, e1)" "bs \<noteq> []"
      "length bs \<le> n - length got" "pending e = bs @ pending e1"
      using byte_streamE [OF assms(1)] by metis
    have pos: "0 < length bs" "length (pending e) = length bs + length (pending e1)"
      using bs(2,4) by simp_all
    have len: "n - length (got @ bs) < n - length got" "length (got @ bs) \<le> n"
      "n - length (got @ bs) \<le> length (pending e1)"
      "n - length got = length bs + (n - length (got @ bs))"
      using True pos bs(3) less.prems unfolding length_append by linarith+
    from less.hyps [OF len(1,2,3)] obtain e2 where
      e2: "recv_exact os fd n (got @ bs) e1 =
             (0, (got @ bs) @ take (n - length (got @ bs)) (pending e1), e2)"
          "pending e2 = drop (n - length (got @ bs)) (pending e1)" by blast
    have "recv_exact os fd n got e = recv_exact os fd n (got @ bs) e1"
      by (subst recv_exact.simps) (simp add: True bs(1,2))
    with e2 bs(4) len(4) show ?thesis by simp
  qed
qed

text \<open>A well-formed ADU: its length field is right and it fits the buffer.\<close>

definition adu_ok :: "u8 list \<Rightarrow> bool" where
  "adu_ok f \<longleftrightarrow> 7 \<le> length f \<and> length f \<le> MODBUS_TCP_MAX_ADU_LENGTH \<and>
     unat (be_join (f ! 4) (f ! 5)) = length f - 6"

lemma recv_response_stream:
  assumes "byte_stream os fd pending" and "pending e = f @ rest" and "adu_ok f"
  shows "\<exists>e'. recv_response os fd MODBUS_TCP_MAX_ADU_LENGTH e = (0, f, e') \<and> pending e' = rest"
proof -
  have f: "7 \<le> length f" "length f \<le> 260" "unat (be_join (f ! 4) (f ! 5)) = length f - 6"
    using assms(3) by (auto simp: adu_ok_def)
  obtain e1 where e1: "recv_exact os fd 6 [] e = (0, take 6 f, e1)" "pending e1 = drop 6 f @ rest"
    using recv_exact_stream [OF assms(1), of "[]" 6 e] assms(2) f by auto
  obtain e2 where e2: "recv_exact os fd (length f - 6) [] e1 = (0, drop 6 f, e2)" "pending e2 = rest"
  proof -
    have "length f - 6 \<le> length (pending e1)" using e1(2) by simp
    then have "\<exists>e'. recv_exact os fd (length f - 6) [] e1 = (0, drop 6 f, e') \<and> pending e' = rest"
      using recv_exact_stream [OF assms(1), of "[]" "length f - 6" e1] e1(2) by simp
    then show thesis using that by blast
  qed
  have "recv_response os fd 260 e = (0, f, e2)"
    using f by (simp add: recv_response_def e1 e2 Let_def)
  with e2(2) show ?thesis by blast
qed

text \<open>A read whose request is sent completely and whose answer is one well-formed ADU.\<close>

lemma tcp_read_on_stream:
  assumes "byte_stream os (sock ctx) pending" and "0 < qty" and "qty \<le> MODBUS_MAX_READ_REGISTERS"
    and "0 \<le> sock ctx"
    and "sk_send os (sock ctx) (build_fc03_request (tid_step (tid ctx)) (tcp_unit_id (tcp_cfg ctx)) addr qty) e
           = (12, e1)"
    and "pending e1 = f @ rest" and "adu_ok f"
  shows "\<exists>e2. mb_tcp_client_read_holding_registers os ctx addr qty e =
      (fst (parse_fc03_response (resp_buffer (sk_stack os e) f) (length f) (tid_step (tid ctx)) qty),
       snd (parse_fc03_response (resp_buffer (sk_stack os e) f) (length f) (tid_step (tid ctx)) qty),
       next_tid ctx, e2) \<and> pending e2 = rest"
proof -
  obtain e2 where e2: "recv_response os (sock ctx) 260 e1 = (0, f, e2)" "pending e2 = rest"
    using recv_response_stream [OF assms(1,6,7)] by blast
  have q: "qty \<noteq> 0" "\<not> 125 < qty" using assms(2,3) by auto
  have l: "length (build_fc03_request t u a q) = 12" for t u a q by (simp add: build_fc03_request_def)
  show ?thesis
    using assms(4,5) q e2
    by (auto simp: mb_tcp_client_read_holding_registers_def next_tid_def Let_def l split: prod.splits)
qed

section \<open>What a read delivers\<close>

text \<open>A peer for the witnesses: it answers every request with the next frame of its script.\<close>

definition script_os :: "u8 list \<Rightarrow> (u8 list \<times> u8 list list) socket_os" where
  "script_os stack =
     \<lparr>sk_socket = (\<lambda>e. (3, e)), sk_setsockopt = (\<lambda>fd opt e. (True, e)), sk_inet_pton = (\<lambda>h. True),
      sk_set_nonblock = (\<lambda>fd b e. e), sk_connect = (\<lambda>fd h p e. (Connect_ok, e)),
      sk_wait_writable = (\<lambda>fd t e. (True, e)), sk_so_error = (\<lambda>fd e. (0, e)),
      sk_shutdown = (\<lambda>fd e. e), sk_close = (\<lambda>fd e. e),
      sk_send = (\<lambda>fd req (p, s). (int (length req), (p @ concat (take 1 s), drop 1 s))),
      sk_recv = (\<lambda>fd n (p, s). if p = [] then (Recv_timeout, (p, s))
                 else (Recv_bytes (take n p), (drop n p, s))),
      sk_stack = (\<lambda>e. stack), sk_mutex_ok = (\<lambda>e. True)\<rparr>"

lemma script_os_simps [simp]:
  "sk_send (script_os stack) fd req (p, s) = (int (length req), (p @ concat (take 1 s), drop 1 s))"
  "sk_stack (script_os stack) e = stack"
  by (simp_all add: script_os_def)

lemma script_os_stream: "byte_stream (script_os stack) fd fst"
  by (auto simp: byte_stream_def script_os_def)

lemma regs_of_bytes:
  assumes "n \<le> length vs"
  shows "map (\<lambda>i. be_join (regs_to_bytes vs ! (i * 2)) (regs_to_bytes vs ! (i * 2 + 1))) [0..<n] = take n vs"
proof (rule nth_equalityI)
  fix i assume i: "i < length (map (\<lambda>i. be_join (regs_to_bytes vs ! (i * 2)) (regs_to_bytes vs ! (i * 2 + 1))) [0..<n])"
  then have "i < length vs" using assms by simp
  from regs_to_bytes_nth [OF this] i
  show "map (\<lambda>i. be_join (regs_to_bytes vs ! (i * 2)) (regs_to_bytes vs ! (i * 2 + 1))) [0..<n] ! i = take n vs ! i"
    by (simp add: mult.commute)
qed (use assms in simp)

lemma tcp_read_response:
  assumes "byte_stream os (sock ctx) pending" and "0 \<le> sock ctx"
    and "0 < qty" and "qty \<le> MODBUS_MAX_READ_REGISTERS" and "length vs = unat qty"
    and "sk_send os (sock ctx) (build_fc03_request (tid_step (tid ctx)) (tcp_unit_id (tcp_cfg ctx)) addr qty) e
           = (12, e1)"
    and "mb_tcp_build_read_registers_response (tid_step (tid ctx)) MODBUS_FUNC_READ_HOLDING_REGISTERS uid
           (Some vs) qty MODBUS_TCP_MAX_ADU_LENGTH = (rc, f)"
    and "pending e1 = f @ rest"
  shows "rc = int (length f) \<and>
    (\<exists>e2. mb_tcp_client_read_holding_registers os ctx addr qty e =
            (MB_TCP_CLIENT_OK, Some vs, ctx\<lparr>tid := tid_step (tid ctx)\<rparr>, e2) \<and> pending e2 = rest)"
proof -
  let ?t = "tid_step (tid ctx)"
  have q: "unat qty \<le> 125" "0 < unat qty" using assms(3,4) by (simp_all add: word_le_nat_alt unat_gt_0)
  let ?ml = "of_nat (3 + 2 * unat qty) :: u16"
  have fr: "rc = int (9 + 2 * unat qty)"
    "f = [be_hi ?t, be_lo ?t, 0, 0, be_hi ?ml, be_lo ?ml, uid, 3, ucast (qty * 2)] @ regs_to_bytes vs"
    using assms(5,7) q
    by (auto simp: mb_tcp_build_read_registers_response_def Let_def word_less_nat_alt mult.commute)
  have "unat (3 + 2 * qty) = 3 + 2 * unat qty"
    using q by (simp add: unat_word_ariths)
  then have ok: "adu_ok f"
    using q assms(5) unfolding fr(2) adu_ok_def by simp
  have at: "resp_buffer stack f ! (9 + k) = regs_to_bytes vs ! k" if "k < 2 * unat qty" for stack k
    using that assms(5) by (simp add: resp_buffer_def fr(2) nth_append)
  have regs: "map (\<lambda>i. be_join (resp_buffer stack f ! (9 + i * 2)) (resp_buffer stack f ! (9 + i * 2 + 1)))
      [0..<unat qty] = vs" (is "?m = vs") for stack
  proof -
    have "?m = map (\<lambda>i. be_join (regs_to_bytes vs ! (i * 2)) (regs_to_bytes vs ! (i * 2 + 1))) [0..<unat qty]"
      using at [of "_ * 2"] at [of "_ * 2 + 1"] by (auto simp: add.assoc)
    also have "\<dots> = take (unat qty) vs" by (rule regs_of_bytes) (use assms(5) in simp)
    also have "\<dots> = vs" using assms(5) by simp
    finally show ?thesis .
  qed
  have parse: "parse_fc03_response (resp_buffer stack f) (length f) ?t qty = (0, Some vs)" for stack
    using regs [of stack] by (simp add: parse_fc03_response_def) (simp add: resp_buffer_def fr(2))
  from tcp_read_on_stream [OF assms(1,3,4,2,6,8) ok] parse fr assms(5)
  show ?thesis by (auto simp: next_tid_def)
qed

text \<open>
  C38. A read that gets the response the codec builds for its transaction identifier and a list
  of registers delivers exactly the first \<open>qty\<close> of them, however the transport splits the
  frame, and leaves what follows the frame in the socket.
\<close>

theorem tcp_read_delivers:
  assumes "byte_stream os (sock ctx) pending" and "0 \<le> sock ctx"
    and "0 < qty" and "qty \<le> MODBUS_MAX_READ_REGISTERS" and "length vs = unat qty"
    and "sk_send os (sock ctx) (build_fc03_request (tid_step (tid ctx)) (tcp_unit_id (tcp_cfg ctx)) addr qty) e
           = (12, e1)"
    and "mb_tcp_build_read_registers_response (tid_step (tid ctx)) MODBUS_FUNC_READ_HOLDING_REGISTERS uid
           (Some vs) qty MODBUS_TCP_MAX_ADU_LENGTH = (rc, f)"
    and "pending e1 = f @ rest"
  shows "rc = int (length f) \<and>
    (\<exists>e2. mb_tcp_client_read_holding_registers os ctx addr qty e =
            (MB_TCP_CLIENT_OK, Some vs, ctx\<lparr>tid := tid_step (tid ctx)\<rparr>, e2) \<and> pending e2 = rest)"
  using assms by (rule tcp_read_response)

theorem tcp_read_delivers_witness:
  "\<exists>e2. mb_tcp_client_read_holding_registers (script_os (replicate 260 0))
      \<lparr>sock = 3, tid = 0xFFFF, tcp_cfg = \<lparr>remote_host = Some ''10.0.0.7'', tcp_port = 502, bind_iface = None,
         tcp_unit_id = 1, connect_timeout_sec = 5, tcp_response_timeout_ms = 1000\<rparr>\<rparr> 0x2000 2
      ([], [[0, 1, 0, 0, 0, 7, 1, 3, 4, 0x12, 0x34, 0, 7]]) =
    (0, Some [0x1234, 7],
      \<lparr>sock = 3, tid = 1, tcp_cfg = \<lparr>remote_host = Some ''10.0.0.7'', tcp_port = 502, bind_iface = None,
         tcp_unit_id = 1, connect_timeout_sec = 5, tcp_response_timeout_ms = 1000\<rparr>\<rparr>, e2)"
proof -
  define cfg where "cfg = \<lparr>remote_host = Some ''10.0.0.7'', tcp_port = 502, bind_iface = None,
         tcp_unit_id = 1, connect_timeout_sec = 5, tcp_response_timeout_ms = 1000\<rparr>"
  define c where "c = \<lparr>sock = 3, tid = 0xFFFF, tcp_cfg = cfg\<rparr>"
  have "tid_step (tid c) = 1" by (simp add: c_def tid_step_def)
  moreover have "mb_tcp_build_read_registers_response 1 3 1 (Some [0x1234, 7]) 2 260 =
      (13, [0, 1, 0, 0, 0, 7, 1, 3, 4, 0x12, 0x34, 0, 7])"
    by (simp add: mb_tcp_build_read_registers_response_def be_hi_def be_lo_def)
  ultimately show ?thesis
    using tcp_read_delivers [where os = "script_os (replicate 260 0)" and ctx = c and pending = fst
        and qty = 2 and vs = "[0x1234, 7]" and addr = "0x2000" and e = "([], [[0, 1, 0, 0, 0, 7, 1, 3, 4, 0x12, 0x34, 0, 7]])"
        and ?e1.0 = "([0, 1, 0, 0, 0, 7, 1, 3, 4, 0x12, 0x34, 0, 7], [])" and uid = 1 and rc = 13
        and f = "[0, 1, 0, 0, 0, 7, 1, 3, 4, 0x12, 0x34, 0, 7]" and rest = "[]"]
    by (auto simp: script_os_stream c_def cfg_def build_fc03_request_def)
qed

text \<open>
  The length of an FC03 answer is not compared with its byte count: a 9-byte frame that
  announces \<open>2 * qty\<close> bytes and carries none is reported as a successful read, whose registers
  are what the stack held after the frame.
\<close>

theorem tcp_short_frame_leaks_stack:
  assumes "byte_stream os (sock ctx) pending" and "0 \<le> sock ctx"
    and "0 < qty" and "qty \<le> MODBUS_MAX_READ_REGISTERS" and "9 \<le> length (sk_stack os e)"
    and "sk_send os (sock ctx) (build_fc03_request (tid_step (tid ctx)) (tcp_unit_id (tcp_cfg ctx)) addr qty) e
           = (12, e1)"
    and "pending e1 = [be_hi (tid_step (tid ctx)), be_lo (tid_step (tid ctx)), 0, 0, 0, 3, uid, 3, ucast (qty * 2)]"
  shows "\<exists>e2. mb_tcp_client_read_holding_registers os ctx addr qty e =
      (MB_TCP_CLIENT_OK,
       Some (map (\<lambda>i. be_join (sk_stack os e ! (9 + i * 2)) (sk_stack os e ! (9 + i * 2 + 1))) [0..<unat qty]),
       ctx\<lparr>tid := tid_step (tid ctx)\<rparr>, e2)"
proof -
  let ?t = "tid_step (tid ctx)"
  let ?f = "[be_hi ?t, be_lo ?t, 0, 0, 0, 3, uid, 3, ucast (qty * 2)] :: u8 list"
  have ok: "adu_ok ?f" by (simp add: adu_ok_def be_join_def)
  have at: "resp_buffer (sk_stack os e) ?f ! (9 + k) = sk_stack os e ! (9 + k)" for k
  proof -
    have lf: "length ?f = 9" by simp
    have "resp_buffer (sk_stack os e) ?f ! (9 + k) = (?f @ drop 9 (sk_stack os e)) ! (length ?f + k)"
      by (simp only: resp_buffer_def lf)
    also have "\<dots> = drop 9 (sk_stack os e) ! k" by (rule nth_append_length_plus)
    also have "\<dots> = sk_stack os e ! (9 + k)" using assms(5) by simp
    finally show ?thesis .
  qed
  have "parse_fc03_response (resp_buffer (sk_stack os e) ?f) (length ?f) ?t qty =
      (0, Some (map (\<lambda>i. be_join (sk_stack os e ! (9 + i * 2)) (sk_stack os e ! (9 + i * 2 + 1))) [0..<unat qty]))"
    using at [of "_ * 2"] at [of "_ * 2 + 1"]
    by (simp add: parse_fc03_response_def add.assoc) (simp add: resp_buffer_def)
  with tcp_read_on_stream [OF assms(1,3,4,2,6) _ ok, of "[]"] assms(7)
  show ?thesis by (auto simp: next_tid_def)
qed

theorem tcp_short_frame_leaks_stack_witness:
  "fst (snd (mb_tcp_client_read_holding_registers (script_os (replicate 260 0xAA))
      \<lparr>sock = 3, tid = 4, tcp_cfg = \<lparr>remote_host = Some ''10.0.0.7'', tcp_port = 502, bind_iface = None,
         tcp_unit_id = 1, connect_timeout_sec = 5, tcp_response_timeout_ms = 1000\<rparr>\<rparr> 0x2000 2
      ([], [[0, 5, 0, 0, 0, 3, 1, 3, 4]]))) = Some [0xAAAA, 0xAAAA]"
proof -
  define cfg where "cfg = \<lparr>remote_host = Some ''10.0.0.7'', tcp_port = 502, bind_iface = None,
         tcp_unit_id = 1, connect_timeout_sec = 5, tcp_response_timeout_ms = 1000\<rparr>"
  define c where "c = \<lparr>sock = 3, tid = 4, tcp_cfg = cfg\<rparr>"
  have t: "tid_step (tid c) = 5" by (simp add: c_def tid_step_def)
  have b: "be_hi 5 = 0" "be_lo 5 = 5" by (simp_all add: be_hi_def be_lo_def)
  have v: "be_join 0xAA 0xAA = 0xAAAA" by (simp add: be_join_def)
  have r: "replicate 260 (0xAA :: u8) ! n = 0xAA" if "n < 260" for n using that by (rule nth_replicate)
  from tcp_short_frame_leaks_stack [where os = "script_os (replicate 260 0xAA)" and ctx = c and pending = fst
        and qty = 2 and addr = "0x2000" and e = "([], [[0, 5, 0, 0, 0, 3, 1, 3, 4]])"
        and ?e1.0 = "([0, 5, 0, 0, 0, 3, 1, 3, 4], [])" and uid = 1]
  have "\<exists>e2. mb_tcp_client_read_holding_registers (script_os (replicate 260 0xAA)) c 0x2000 2
      ([], [[0, 5, 0, 0, 0, 3, 1, 3, 4]]) = (0, Some [0xAAAA, 0xAAAA], c\<lparr>tid := 5\<rparr>, e2)"
    unfolding t b by (simp add: script_os_stream c_def build_fc03_request_def upt_rec r v)
  then show ?thesis by (auto simp: c_def cfg_def)
qed

section \<open>A late answer\<close>

text \<open>Reads one after the other on the same connection, as the segments of a poll cycle do.\<close>

primrec read_repeatedly :: "'e socket_os \<Rightarrow> u16 \<Rightarrow> u16 \<Rightarrow> nat \<Rightarrow> tcp_ctx \<Rightarrow> 'e \<Rightarrow> int list" where
  "read_repeatedly os addr qty 0 ctx e = []"
| "read_repeatedly os addr qty (Suc n) ctx e =
     (case mb_tcp_client_read_holding_registers os ctx addr qty e of
        (rc, out, ctx', e') \<Rightarrow> rc # read_repeatedly os addr qty n ctx' e')"

text \<open>A prompt peer: every request is sent whole and its answer, a well-formed ADU with the
  request's transaction identifier, joins the queue.\<close>

definition answers_all :: "'e socket_os \<Rightarrow> int \<Rightarrow> ('e \<Rightarrow> u8 list) \<Rightarrow> (u8 list \<Rightarrow> u8 list) \<Rightarrow> bool" where
  "answers_all os fd pending answer \<longleftrightarrow>
     (\<forall>req e. 12 \<le> length req \<longrightarrow> adu_ok (answer req) \<and> take 2 (answer req) = take 2 req \<and>
        (\<exists>e'. sk_send os fd req e = (int (length req), e') \<and> pending e' = pending e @ answer req))"

text \<open>
  One answer that arrives after its read timed out is never drained: from then on every
  read, of any number of reads to a peer that answers each request promptly and correctly,
  takes the previous request's answer and fails with a transaction identifier mismatch.
\<close>

theorem tcp_late_answer_desynchronises:
  assumes "byte_stream os (sock ctx) pending" and "answers_all os (sock ctx) pending answer"
    and "0 \<le> sock ctx" and "0 < qty" and "qty \<le> MODBUS_MAX_READ_REGISTERS"
    and "adu_ok (pending e)" and "take 2 (pending e) = [be_hi (tid ctx), be_lo (tid ctx)]"
  shows "read_repeatedly os addr qty n ctx e = replicate n MB_TCP_CLIENT_ERR_TID"
  using assms(1-3,6,7)
proof (induction n arbitrary: ctx e)
  case 0
  then show ?case by simp
next
  case (Suc n)
  let ?req = "build_fc03_request (tid_step (tid ctx)) (tcp_unit_id (tcp_cfg ctx)) addr qty"
  let ?ctx = "next_tid ctx" and ?f = "pending e"
  have r: "length ?req = 12" "take 2 ?req = [be_hi (tid ?ctx), be_lo (tid ?ctx)]"
    by (simp_all add: build_fc03_request_def next_tid_def)
  have "adu_ok (answer ?req) \<and> take 2 (answer ?req) = take 2 ?req \<and>
      (\<exists>e'. sk_send os (sock ctx) ?req e = (int (length ?req), e') \<and> pending e' = ?f @ answer ?req)"
    using Suc.prems(2) r(1) unfolding answers_all_def by (metis order_refl)
  then obtain e1 where e1: "sk_send os (sock ctx) ?req e = (12, e1)" "pending e1 = ?f @ answer ?req"
    and ans: "adu_ok (answer ?req)" "take 2 (answer ?req) = [be_hi (tid ?ctx), be_lo (tid ?ctx)]"
    using r by auto
  have "7 \<le> length ?f" using Suc.prems(4) by (simp add: adu_ok_def)
  then obtain a b r where "?f = a # b # r" by (cases ?f; cases "tl ?f") auto
  with Suc.prems(5) have "?f = be_hi (tid ctx) # be_lo (tid ctx) # r" by simp
  then have "fst (parse_fc03_response (resp_buffer s ?f) (length ?f) (tid_step (tid ctx)) qty) =
      MB_TCP_CLIENT_ERR_TID" for s
    by (simp add: parse_fc03_response_def resp_buffer_def not_sym [OF tid_step_neq])
  with tcp_read_on_stream [OF Suc.prems(1) assms(4,5) Suc.prems(3) e1 Suc.prems(4)]
  obtain out e2 where rd: "mb_tcp_client_read_holding_registers os ctx addr qty e =
      (MB_TCP_CLIENT_ERR_TID, out, ?ctx, e2)" "pending e2 = answer ?req" by auto
  have "read_repeatedly os addr qty n ?ctx e2 = replicate n MB_TCP_CLIENT_ERR_TID"
    using Suc.IH [of ?ctx e2] Suc.prems(1-3) ans rd(2) by (simp add: next_tid_def)
  with rd(1) show ?case by simp
qed

text \<open>The peer of the witness: it acknowledges every request with an exception frame.\<close>

definition echo_os :: "u8 list socket_os" where
  "echo_os =
     \<lparr>sk_socket = (\<lambda>e. (3, e)), sk_setsockopt = (\<lambda>fd opt e. (True, e)), sk_inet_pton = (\<lambda>h. True),
      sk_set_nonblock = (\<lambda>fd b e. e), sk_connect = (\<lambda>fd h p e. (Connect_ok, e)),
      sk_wait_writable = (\<lambda>fd t e. (True, e)), sk_so_error = (\<lambda>fd e. (0, e)),
      sk_shutdown = (\<lambda>fd e. e), sk_close = (\<lambda>fd e. e),
      sk_send = (\<lambda>fd req e. (int (length req), e @ [req ! 0, req ! 1, 0, 0, 0, 3, 1, 0x83, 2])),
      sk_recv = (\<lambda>fd n e. if e = [] then (Recv_timeout, e) else (Recv_bytes (take n e), drop n e)),
      sk_stack = (\<lambda>e. replicate 260 0), sk_mutex_ok = (\<lambda>e. True)\<rparr>"

lemma echo_os_stream: "byte_stream echo_os fd (\<lambda>e. e)"
  by (auto simp: byte_stream_def echo_os_def)

theorem tcp_late_answer_desynchronises_witness:
  "read_repeatedly echo_os 0x2000 2 4
      \<lparr>sock = 3, tid = 4, tcp_cfg = \<lparr>remote_host = Some ''10.0.0.7'', tcp_port = 502, bind_iface = None,
         tcp_unit_id = 1, connect_timeout_sec = 5, tcp_response_timeout_ms = 1000\<rparr>\<rparr>
      [0, 4, 0, 0, 0, 3, 1, 0x83, 2] = [-6, -6, -6, -6]"
proof -
  have "answers_all echo_os 3 (\<lambda>e. e) (\<lambda>req. [req ! 0, req ! 1, 0, 0, 0, 3, 1, 0x83, 2])"
  proof -
    have "take 2 [req ! 0, req ! 1, 0, 0, 0, 3, 1, 0x83, 2] = take 2 (req :: u8 list)" if "12 \<le> length req" for req
    proof -
      from that obtain a b r where "req = a # b # r" by (cases req; cases "tl req") auto
      then show ?thesis by simp
    qed
    then show ?thesis by (simp add: answers_all_def adu_ok_def be_join_def echo_os_def)
  qed
  moreover have "replicate 4 (-6 :: int) = [-6, -6, -6, -6]" by (simp add: numeral_eq_Suc)
  ultimately show ?thesis
    using tcp_late_answer_desynchronises [where os = echo_os and pending = "\<lambda>e. e" and n = 4
       and ctx = "\<lparr>sock = 3, tid = 4, tcp_cfg = \<lparr>remote_host = Some ''10.0.0.7'', tcp_port = 502, bind_iface = None,
         tcp_unit_id = 1, connect_timeout_sec = 5, tcp_response_timeout_ms = 1000\<rparr>\<rparr>"
       and e = "[0, 4, 0, 0, 0, 3, 1, 0x83, 2]" and qty = 2 and addr = "0x2000"]
    by (simp add: echo_os_stream adu_ok_def be_join_def be_hi_def be_lo_def del: read_repeatedly.simps)
qed

end
