(* ===== verification/Unit_Core.thy ===== *)
theory Unit_Core
  imports Device_Profiles Cmd_Queue Bus_Coord Rtu_Client Tcp_Client
begin

text \<open>
  What \<^verbatim>\<open>src/inverter_module.c\<close> and \<^verbatim>\<open>src/ups_module.c\<close> have in common: the unit, its
  transport operations under the bus coordinator, the scan of a profile into the pool, the
  drain of the command queue, the registration and look-up of units and the poll thread. The
  two files contain the same text for these up to the family's register names, which are
  arguments here; \<open>Inverter_Module\<close> and \<open>Ups_Module\<close> give each file's own functions.

  One unit's thread runs over \<open>unit_world\<close>: the register pool, the slots of the bus
  coordinator, the shared serial buses and the environment \<open>'e\<close> of the operating system.
  \<open>uw_trace\<close> logs the calls in program order, and \<open>uw_line\<close> the calls on a serial line with the
  slots of the coordinator as they are at the call; no definition reads either. Other threads
  appear through the \<open>platform\<close>: what they do before an acquire proceeds, the commands they queue
  before a pop, and whether \<^verbatim>\<open>stop_*_modules\<close> has cleared \<^verbatim>\<open>running\<close>.
\<close>

section \<open>Data\<close>

abbreviation CONNECTION_DISCONNECTED :: int where "CONNECTION_DISCONNECTED \<equiv> 0"
abbreviation CONNECTION_CONNECTED :: int where "CONNECTION_CONNECTED \<equiv> 1"

text \<open>\<^verbatim>\<open>reboot_requested\<close> exists in the UPS unit only.\<close>

record gw_unit =
  u_cfg :: module_config
  u_profile :: device_map_profile
  u_tcp :: tcp_ctx
  u_rtu :: rtu_ctx
  running :: bool
  comm_fail_count :: int
  connection_state :: int
  u_queue :: cmd_queue
  init_requested :: bool
  reboot_requested :: bool

datatype io_call =
    Call_connect
  | Call_disconnect
  | Call_probe u16 u16
  | Call_read u16 u16
  | Call_write u16 u16
  | Call_write_many u16 "u16 list"

datatype io_event =
    Ev_acquire "string option"
  | Ev_release "string option"
  | Ev_rtu io_call int
  | Ev_tcp io_call int
  | Ev_sleep nat

record 'e platform =
  pf_serial :: "'e serial_os"
  pf_socket :: "'e socket_os"
  pf_self :: nat
  pf_bus_wait :: "string option \<Rightarrow> bus_slots \<Rightarrow> 'e \<Rightarrow> bus_slots \<times> 'e"
  pf_pushes :: "'e \<Rightarrow> (u16 \<times> u16 list \<times> u16 \<times> write_mode) list \<times> 'e"
  pf_stopped :: "'e \<Rightarrow> bool"

record 'e unit_world =
  uw_pool :: pool
  uw_bus :: bus_slots
  uw_rtu :: "shared_bus list"
  uw_env :: 'e
  uw_trace :: "io_event list"
  uw_line :: "(io_call \<times> bus_slots) list"

section \<open>Calls to the other components\<close>

definition log_event :: "io_event \<Rightarrow> 'e unit_world \<Rightarrow> 'e unit_world" where
  "log_event ev w = w\<lparr>uw_trace := uw_trace w @ [ev]\<rparr>"

text \<open>\<^verbatim>\<open>bus_coord_acquire\<close>: the other threads run before the call gets \<^verbatim>\<open>g_lock\<close> and while it
  sleeps on the condition variable; \<open>pf_bus_wait\<close> is the state they leave when the loop ends, in
  which the slot is free or this thread's own. The trace logs the call, whether or not the path
  is coordinated.\<close>

definition unit_acquire :: "'e platform \<Rightarrow> string option \<Rightarrow> 'e unit_world \<Rightarrow> 'e unit_world" where
  "unit_acquire pf path w =
     log_event (Ev_acquire path)
       (case pf_bus_wait pf path (uw_bus w) (uw_env w) of
          (s, e) \<Rightarrow>
            (case bus_coord_acquire (pf_self pf) path s of
               Some s' \<Rightarrow> w\<lparr>uw_bus := s', uw_env := e\<rparr>
             | None \<Rightarrow> w\<lparr>uw_bus := s, uw_env := e\<rparr>))"

definition unit_release :: "'e platform \<Rightarrow> string option \<Rightarrow> 'e unit_world \<Rightarrow> 'e unit_world" where
  "unit_release pf path w =
     log_event (Ev_release path) (w\<lparr>uw_bus := bus_coord_release (pf_self pf) path (uw_bus w)\<rparr>)"

definition unit_usleep :: "'e platform \<Rightarrow> nat \<Rightarrow> 'e unit_world \<Rightarrow> 'e unit_world" where
  "unit_usleep pf us w =
     log_event (Ev_sleep us) (w\<lparr>uw_env := os_usleep (pf_serial pf) us (uw_env w)\<rparr>)"

definition pool_write :: "u16 \<Rightarrow> u16 \<Rightarrow> 'e unit_world \<Rightarrow> 'e unit_world" where
  "pool_write a v w = w\<lparr>uw_pool := snd (pool_write_register (uw_pool w) a v)\<rparr>"

definition rtu_view :: "'e unit_world \<Rightarrow> 'e rtu_world" where
  "rtu_view w = \<lparr>rw_buses = uw_rtu w, rw_env = uw_env w\<rparr>"

definition rtu_done :: "io_call \<Rightarrow> int \<Rightarrow> 'e rtu_world \<Rightarrow> 'e unit_world \<Rightarrow> 'e unit_world" where
  "rtu_done c rc rw w =
     log_event (Ev_rtu c rc)
       (w\<lparr>uw_rtu := rw_buses rw, uw_env := rw_env rw, uw_line := uw_line w @ [(c, uw_bus w)]\<rparr>)"

definition tcp_done :: "io_call \<Rightarrow> int \<Rightarrow> 'e \<Rightarrow> 'e unit_world \<Rightarrow> 'e unit_world" where
  "tcp_done c rc e w = log_event (Ev_tcp c rc) (w\<lparr>uw_env := e\<rparr>)"

definition bus_path_of :: "module_config \<Rightarrow> string option" where
  "bus_path_of cfg = (if cfg_format cfg \<noteq> MODBUS_FORMAT_RTU then None else Some (cfg_path cfg))"

section \<open>Transport operations\<close>

definition read_device_value ::
  "'e platform \<Rightarrow> gw_unit \<Rightarrow> u16 \<Rightarrow> u16 \<Rightarrow> 'e unit_world \<Rightarrow> int \<times> u16 list option \<times> gw_unit \<times> 'e unit_world" where
  "read_device_value pf u addr count w =
     (if cfg_format (u_cfg u) = MODBUS_FORMAT_TCP then
        (case mb_tcp_client_read_holding_registers (pf_socket pf) (u_tcp u) addr count (uw_env w) of
           (rc, out, ctx, e) \<Rightarrow> (rc, out, u\<lparr>u_tcp := ctx\<rparr>, tcp_done (Call_read addr count) rc e w))
      else
        let path = bus_path_of (u_cfg u); w1 = unit_acquire pf path w
        in case mb_rtu_client_read_holding_registers (pf_serial pf) (Some (u_rtu u)) addr count (rtu_view w1) of
             (rc, out, rw) \<Rightarrow>
               (rc, out, u, unit_release pf path (rtu_done (Call_read addr count) rc rw w1)))"

definition write_single ::
  "'e platform \<Rightarrow> gw_unit \<Rightarrow> u16 \<Rightarrow> u16 \<Rightarrow> 'e unit_world \<Rightarrow> int \<times> gw_unit \<times> 'e unit_world" where
  "write_single pf u addr v w =
     (if cfg_format (u_cfg u) = MODBUS_FORMAT_TCP then
        (case mb_tcp_client_write_single_register (pf_socket pf) (u_tcp u) addr v (uw_env w) of
           (rc, ctx, e) \<Rightarrow> (rc, u\<lparr>u_tcp := ctx\<rparr>, tcp_done (Call_write addr v) rc e w))
      else
        (case mb_rtu_client_write_single_register (pf_serial pf) (Some (u_rtu u)) addr v (rtu_view w) of
           (rc, rw) \<Rightarrow> (rc, u, rtu_done (Call_write addr v) rc rw w)))"

definition write_multiple ::
  "'e platform \<Rightarrow> gw_unit \<Rightarrow> u16 \<Rightarrow> u16 \<Rightarrow> u16 list \<Rightarrow> 'e unit_world \<Rightarrow> int \<times> gw_unit \<times> 'e unit_world" where
  "write_multiple pf u addr count vs w =
     (if cfg_format (u_cfg u) = MODBUS_FORMAT_TCP then
        (case mb_tcp_client_write_multiple_registers (pf_socket pf) (u_tcp u) addr count (Some vs) (uw_env w) of
           (rc, ctx, e) \<Rightarrow>
             (rc, u\<lparr>u_tcp := ctx\<rparr>, tcp_done (Call_write_many addr (take (unat count) vs)) rc e w))
      else
        (case mb_rtu_client_write_multiple_registers (pf_serial pf) (Some (u_rtu u)) addr count (Some vs)
                (rtu_view w) of
           (rc, rw) \<Rightarrow> (rc, u, rtu_done (Call_write_many addr (take (unat count) vs)) rc rw w)))"

text \<open>The result is 0 or -1.\<close>

definition write_registers_locked ::
  "'e platform \<Rightarrow> gw_unit \<Rightarrow> u16 \<Rightarrow> u16 list \<Rightarrow> u16 \<Rightarrow> write_mode \<Rightarrow> 'e unit_world \<Rightarrow>
     int \<times> gw_unit \<times> 'e unit_world" where
  "write_registers_locked pf u addr vs count mode w =
     (let finish = (\<lambda>(rc, u, w). (if rc \<noteq> 0 then -1 else 0, u, w))
      in case mode of
           WRITE_MODE_FC06 \<Rightarrow>
             if count \<noteq> 1 then (-1, u, w) else finish (write_single pf u addr (vs ! 0) w)
         | WRITE_MODE_FC16 \<Rightarrow> finish (write_multiple pf u addr count vs w)
         | WRITE_MODE_AUTO \<Rightarrow>
             if count = 1 then finish (write_single pf u addr (vs ! 0) w)
             else finish (write_multiple pf u addr count vs w))"

definition write_registers_to_device ::
  "'e platform \<Rightarrow> gw_unit \<Rightarrow> u16 \<Rightarrow> u16 list \<Rightarrow> u16 \<Rightarrow> write_mode \<Rightarrow> 'e unit_world \<Rightarrow>
     int \<times> gw_unit \<times> 'e unit_world" where
  "write_registers_to_device pf u addr vs count mode w =
     (let path = bus_path_of (u_cfg u)
      in case write_registers_locked pf u addr vs count mode (unit_acquire pf path w) of
           (rc, u1, w1) \<Rightarrow>
             (rc, u1, unit_release pf path
                (if rc = 0 then unit_usleep pf MODBUS_DEFAULT_POST_WRITE_SETTLE_US w1 else w1)))"

definition close_rtu :: "'e platform \<Rightarrow> gw_unit \<Rightarrow> 'e unit_world \<Rightarrow> gw_unit \<times> 'e unit_world" where
  "close_rtu pf u w =
     (case mb_rtu_client_disconnect (pf_serial pf) (u_rtu u) (rtu_view w) of
        (ctx, rw) \<Rightarrow> (u\<lparr>u_rtu := ctx\<rparr>, rtu_done Call_disconnect 0 rw w))"

definition unit_disconnect :: "'e platform \<Rightarrow> gw_unit \<Rightarrow> 'e unit_world \<Rightarrow> gw_unit \<times> 'e unit_world" where
  "unit_disconnect pf u w =
     (if cfg_format (u_cfg u) = MODBUS_FORMAT_TCP then
        (case mb_tcp_client_disconnect (pf_socket pf) (u_tcp u) (uw_env w) of
           (ctx, e) \<Rightarrow> (u\<lparr>u_tcp := ctx\<rparr>, tcp_done Call_disconnect 0 e w))
      else close_rtu pf u w)"

text \<open>The transport part of \<^verbatim>\<open>unit_connect\<close>, before the probe.\<close>

definition open_tcp :: "'e platform \<Rightarrow> gw_unit \<Rightarrow> 'e unit_world \<Rightarrow> int \<times> gw_unit \<times> 'e unit_world" where
  "open_tcp pf u w =
     (let cfg = u_cfg u
      in case mb_tcp_client_connect (pf_socket pf)
                \<lparr>remote_host = Some (cfg_ip cfg), tcp_port = of_int (cfg_port cfg), bind_iface = None,
                 tcp_unit_id = of_int (modbus_uid cfg), connect_timeout_sec = 5,
                 tcp_response_timeout_ms = 1000\<rparr> (u_tcp u) (uw_env w) of
           (rc, ctx, e) \<Rightarrow>
             (if rc \<noteq> 0 then -1 else 0, u\<lparr>u_tcp := ctx\<rparr>, tcp_done Call_connect rc e w))"

definition open_rtu :: "'e platform \<Rightarrow> gw_unit \<Rightarrow> 'e unit_world \<Rightarrow> int \<times> gw_unit \<times> 'e unit_world" where
  "open_rtu pf u w =
     (let cfg = u_cfg u
      in case mb_rtu_client_connect (pf_serial pf)
                \<lparr>serial_path = Some (cfg_path cfg), rtu_baud_rate = of_int (cfg_baud_rate cfg),
                 rtu_unit_id = of_int (modbus_uid cfg), rtu_response_timeout_ms = 1000\<rparr>
                (u_rtu u) (rtu_view w) of
           (rc, ctx, rw) \<Rightarrow>
             (if rc \<noteq> 0 then -1 else 0, u\<lparr>u_rtu := ctx\<rparr>, rtu_done Call_connect rc rw w))"

definition probe_unit ::
  "'e platform \<Rightarrow> gw_unit \<Rightarrow> u16 \<Rightarrow> 'e unit_world \<Rightarrow> int \<times> 'e unit_world" where
  "probe_unit pf u addr w =
     (case mb_rtu_client_probe_device (pf_serial pf) (Some (u_rtu u)) addr 1 (rtu_view w) of
        (rc, rw) \<Rightarrow> (rc, rtu_done (Call_probe addr 1) rc rw w))"

section \<open>The scan of a profile\<close>

text \<open>\<^verbatim>\<open>buf\<close> keeps what an earlier segment left where a read stores nothing.\<close>

definition store_into :: "u16 list option \<Rightarrow> u16 list \<Rightarrow> u16 list" where
  "store_into out buf = (case out of None \<Rightarrow> buf | Some vs \<Rightarrow> vs @ drop (length vs) buf)"

definition mark_unreachable :: "device_map_profile \<Rightarrow> 'e unit_world \<Rightarrow> 'e unit_world" where
  "mark_unreachable p w = fold (\<lambda>m. pool_write (pool_address m) 0xFFFF) (rows p) w"

text \<open>The body of the scan for one segment. The flag of the result says whether the scan goes
  on; if it does not, \<^verbatim>\<open>rc\<close> is -1.\<close>

definition scan_segment ::
  "'e platform \<Rightarrow> bool \<Rightarrow> nat \<Rightarrow> nat \<Rightarrow> u16 list \<Rightarrow> gw_unit \<Rightarrow> 'e unit_world \<Rightarrow>
     bool \<times> u16 list \<times> gw_unit \<times> 'e unit_world" where
  "scan_segment pf track seg_start seg_len buf u w =
     (let p = u_profile u; start = device_address (rows p ! seg_start); count = of_nat seg_len
      in case read_device_value pf u start count w of
           (result, out, u1, w1) \<Rightarrow>
             if result \<noteq> 0 then
               (if \<not> track then (False, buf, u1, w1)
                else
                  let u2 = u1\<lparr>comm_fail_count := comm_fail_count u1 + 1\<rparr>
                  in if comm_fail_count u2 \<ge> MODBUS_DEFAULT_COMM_FAIL_THRESHOLD
                     then (False, buf, u2, mark_unreachable p w1)
                     else (True, buf, u2, unit_usleep pf MODBUS_DEFAULT_INTER_SEGMENT_DELAY_US w1))
             else
               let u2 = (if track then u1\<lparr>comm_fail_count := 0\<rparr> else u1);
                   buf1 = store_into out buf;
                   w2 = w1\<lparr>uw_pool := device_map_read_to_pool (Some p) (Some buf1) start (int (unat count))
                             (uw_pool w1)\<rparr>
               in (True, buf1, u2, unit_usleep pf MODBUS_DEFAULT_INTER_SEGMENT_DELAY_US w2))"

text \<open>The loop over \<open>i\<close>, with the number of turns left. C compares the two addresses as
  \<^verbatim>\<open>int\<close>, so 0xFFFF is followed by no row.\<close>

definition row_follows :: "device_map_profile \<Rightarrow> nat \<Rightarrow> bool" where
  "row_follows p i \<longleftrightarrow> i < table_count p \<and>
     unat (device_address (rows p ! i)) = unat (device_address (rows p ! (i - 1))) + 1"

fun scan_loop ::
  "'e platform \<Rightarrow> bool \<Rightarrow> nat \<Rightarrow> nat \<Rightarrow> nat \<Rightarrow> nat \<Rightarrow> u16 list \<Rightarrow> gw_unit \<Rightarrow> 'e unit_world \<Rightarrow>
     int \<times> gw_unit \<times> 'e unit_world" where
  "scan_loop pf track 0 i seg_start seg_len buf u w = (0, u, w)"
| "scan_loop pf track (Suc k) i seg_start seg_len buf u w =
     (if row_follows (u_profile u) i \<and> \<not> seg_len \<ge> unat (read_chunk (u_profile u))
      then scan_loop pf track k (Suc i) seg_start (Suc seg_len) buf u w
      else
        (case scan_segment pf track seg_start seg_len buf u w of
           (go_on, buf1, u1, w1) \<Rightarrow>
             if go_on then scan_loop pf track k (Suc i) i 1 buf1 u1 w1 else (-1, u1, w1)))"

definition read_profile_to_pool ::
  "'e platform \<Rightarrow> bool \<Rightarrow> gw_unit \<Rightarrow> 'e unit_world \<Rightarrow> int \<times> gw_unit \<times> 'e unit_world" where
  "read_profile_to_pool pf track u w =
     (let n = table_count (u_profile u); path = bus_path_of (u_cfg u)
      in if n = 0 then (0, u, w)
         else
           (case scan_loop pf track n 1 0 1 (replicate 125 0) u (unit_acquire pf path w) of
              (rc, u1, w1) \<Rightarrow> (rc, u1, unit_release pf path w1)))"

section \<open>The drain of the command queue\<close>

text \<open>\<open>settle_pushes\<close>: the pushes of other threads before the next \<^verbatim>\<open>queue_pop\<close>; a rejected
  push leaves the queue as it is.\<close>

definition apply_push :: "(u16 \<Rightarrow> bool) \<Rightarrow> u16 \<times> u16 list \<times> u16 \<times> write_mode \<Rightarrow> cmd_queue \<Rightarrow> cmd_queue" where
  "apply_push merge_allowed c q = (case c of (a, vs, n, m) \<Rightarrow> snd (queue_push merge_allowed q a (Some vs) n m))"

definition settle_pushes ::
  "'e platform \<Rightarrow> (u16 \<Rightarrow> bool) \<Rightarrow> gw_unit \<Rightarrow> 'e unit_world \<Rightarrow> gw_unit \<times> 'e unit_world" where
  "settle_pushes pf merge_allowed u w =
     (case pf_pushes pf (uw_env w) of
        (cs, e) \<Rightarrow> (u\<lparr>u_queue := fold (apply_push merge_allowed) cs (u_queue u)\<rparr>, w\<lparr>uw_env := e\<rparr>))"

definition unit_pop ::
  "'e platform \<Rightarrow> (u16 \<Rightarrow> bool) \<Rightarrow> gw_unit \<Rightarrow> 'e unit_world \<Rightarrow> write_cmd option \<times> gw_unit \<times> 'e unit_world" where
  "unit_pop pf merge_allowed u0 w0 =
     (let (u, w) = settle_pushes pf merge_allowed u0 w0
      in case queue_pop (u_queue u) of
           None \<Rightarrow> (None, u, w)
         | Some (c, q) \<Rightarrow> (Some c, u\<lparr>u_queue := q\<rparr>, w))"

definition write_queued ::
  "'e platform \<Rightarrow> write_cmd \<Rightarrow> gw_unit \<Rightarrow> 'e unit_world \<Rightarrow> gw_unit \<times> 'e unit_world" where
  "write_queued pf c u w =
     (case write_registers_locked pf u (cmd_addr c) (cmd_values c) (cmd_count c) (cmd_mode c) w of
        (rc, u1, w1) \<Rightarrow>
          (u1, if rc \<noteq> 0 then w1 else unit_usleep pf MODBUS_DEFAULT_INTER_SEGMENT_DELAY_US w1))"

text \<open>The do-while loop, entered with the command popped last. It ends when a pop finds the
  queue empty, which a producer may prevent for ever: then it is \<^const>\<open>None\<close>.\<close>

partial_function (option) drain_loop ::
  "'e platform \<Rightarrow> (u16 \<Rightarrow> bool) \<Rightarrow> write_cmd \<Rightarrow> gw_unit \<Rightarrow> 'e unit_world \<Rightarrow>
     (gw_unit \<times> 'e unit_world) option" where
  "drain_loop pf merge_allowed c u w =
     (let (u1, w1) = write_queued pf c u w
      in case unit_pop pf merge_allowed u1 w1 of
           (None, u2, w2) \<Rightarrow> Some (u2, w2)
         | (Some c', u2, w2) \<Rightarrow> drain_loop pf merge_allowed c' u2 w2)"

definition drain_queue ::
  "'e platform \<Rightarrow> (u16 \<Rightarrow> bool) \<Rightarrow> gw_unit \<Rightarrow> 'e unit_world \<Rightarrow> (gw_unit \<times> 'e unit_world) option" where
  "drain_queue pf merge_allowed u w =
     (case unit_pop pf merge_allowed u w of
        (None, u1, w1) \<Rightarrow> Some (u1, w1)
      | (Some c, u1, w1) \<Rightarrow>
          let path = bus_path_of (u_cfg u1)
          in case drain_loop pf merge_allowed c u1 (unit_acquire pf path w1) of
               None \<Rightarrow> None
             | Some (u2, w2) \<Rightarrow>
                 Some (u2, unit_release pf path (unit_usleep pf MODBUS_DEFAULT_POST_WRITE_SETTLE_US w2)))"

text \<open>The end of \<^verbatim>\<open>process_callback\<close>, the same in both families: drain, then scan.\<close>

definition drain_and_scan ::
  "'e platform \<Rightarrow> (u16 \<Rightarrow> bool) \<Rightarrow> gw_unit \<Rightarrow> 'e unit_world \<Rightarrow> (int \<times> gw_unit \<times> 'e unit_world) option" where
  "drain_and_scan pf merge_allowed u w =
     (case drain_queue pf merge_allowed u w of
        None \<Rightarrow> None
      | Some (u1, w1) \<Rightarrow>
          Some (if table_count (u_profile u1) = 0 then (0, u1, w1)
                else
                  (case read_profile_to_pool pf True u1 w1 of
                     (rc, u2, w2) \<Rightarrow>
                       if rc \<noteq> 0 then (-1, u2, w2)
                       else (0, u2, unit_usleep pf (MODBUS_DEFAULT_POLL_CYCLE_INTERVAL_MS * 1000) w2))))"

section \<open>Waiting and the connection state\<close>

definition still_running :: "'e platform \<Rightarrow> gw_unit \<Rightarrow> 'e unit_world \<Rightarrow> bool" where
  "still_running pf u w \<longleftrightarrow> running u \<and> \<not> pf_stopped pf (uw_env w)"

text \<open>The counter is 32 bits wide, so for a duration above \<open>2 ^ 32 - 100\<close> the loop may not end.\<close>

partial_function (option) sleep_loop ::
  "'e platform \<Rightarrow> gw_unit \<Rightarrow> u32 \<Rightarrow> u32 \<Rightarrow> 'e unit_world \<Rightarrow> 'e unit_world option" where
  "sleep_loop pf u duration elapsed w =
     (if elapsed < duration \<and> still_running pf u w
      then sleep_loop pf u duration (elapsed + MODBUS_DEFAULT_SHUTDOWN_CHECK_INTERVAL_MS)
             (unit_usleep pf (unat (MODBUS_DEFAULT_SHUTDOWN_CHECK_INTERVAL_MS * 1000)) w)
      else Some w)"

definition interruptible_sleep_ms ::
  "'e platform \<Rightarrow> gw_unit \<Rightarrow> u32 \<Rightarrow> 'e unit_world \<Rightarrow> 'e unit_world option" where
  "interruptible_sleep_ms pf u duration w = sleep_loop pf u duration 0 w"

definition unit_set_connection ::
  "u16 \<Rightarrow> int \<Rightarrow> gw_unit \<Rightarrow> 'e unit_world \<Rightarrow> gw_unit \<times> 'e unit_world" where
  "unit_set_connection reg state u w = (u\<lparr>connection_state := state\<rparr>, pool_write reg (of_int state) w)"

definition error_callback ::
  "'e platform \<Rightarrow> u16 \<Rightarrow> int \<Rightarrow> gw_unit \<Rightarrow> 'e unit_world \<Rightarrow> (gw_unit \<times> 'e unit_world) option" where
  "error_callback pf reg state u w =
     (let (u1, w1) = unit_disconnect pf u w;
          (u2, w2) = unit_set_connection reg state (u1\<lparr>comm_fail_count := 0\<rparr>) w1
      in case interruptible_sleep_ms pf u2 MODBUS_DEFAULT_RECONNECT_DELAY_MS w2 of
           None \<Rightarrow> None
         | Some w3 \<Rightarrow> Some (u2, w3))"

definition init_callback ::
  "('e platform \<Rightarrow> gw_unit \<Rightarrow> 'e unit_world \<Rightarrow> int \<times> gw_unit \<times> 'e unit_world) \<Rightarrow> 'e platform \<Rightarrow> u16 \<Rightarrow>
     gw_unit \<Rightarrow> 'e unit_world \<Rightarrow> int \<times> gw_unit \<times> 'e unit_world" where
  "init_callback connect pf reg u w =
     (case connect pf u w of
        (rc, u1, w1) \<Rightarrow>
          if rc \<noteq> 0 then (-1, u1, w1)
          else
            let (u2, w2) = unit_set_connection reg CONNECTION_CONNECTED (u1\<lparr>comm_fail_count := 0\<rparr>) w1
            in (0, u2, w2))"

definition msg_callback ::
  "'e platform \<Rightarrow> u16 \<Rightarrow> u16 list option \<Rightarrow> nat \<Rightarrow> gw_unit \<Rightarrow> 'e unit_world \<Rightarrow> int \<times> gw_unit \<times> 'e unit_world" where
  "msg_callback pf addr values count u w =
     (case values of
        None \<Rightarrow> (-1, u, w)
      | Some vs \<Rightarrow>
          if count = 0 then (-1, u, w)
          else write_registers_to_device pf u addr vs (of_nat count) WRITE_MODE_AUTO w)"

section \<open>The poll thread\<close>

record 'e unit_callbacks =
  cb_init :: "gw_unit \<Rightarrow> 'e unit_world \<Rightarrow> int \<times> gw_unit \<times> 'e unit_world"
  cb_process :: "gw_unit \<Rightarrow> 'e unit_world \<Rightarrow> (int \<times> gw_unit \<times> 'e unit_world) option"
  cb_error :: "int \<Rightarrow> gw_unit \<Rightarrow> 'e unit_world \<Rightarrow> (gw_unit \<times> 'e unit_world) option"

text \<open>The two nested loops: \<open>connected\<close> says which of the two tests of \<^verbatim>\<open>running\<close> comes next.\<close>

partial_function (option) thread_loop ::
  "'e platform \<Rightarrow> 'e unit_callbacks \<Rightarrow> bool \<Rightarrow> gw_unit \<Rightarrow> 'e unit_world \<Rightarrow>
     (gw_unit \<times> 'e unit_world) option" where
  "thread_loop pf cb connected u w =
     (if connected then
        (if still_running pf u w then
           (case cb_process cb u w of
              None \<Rightarrow> None
            | Some (rc, u1, w1) \<Rightarrow>
                if rc \<noteq> 0 then
                  (case cb_error cb CONNECTION_DISCONNECTED u1 w1 of
                     None \<Rightarrow> None
                   | Some (u2, w2) \<Rightarrow> thread_loop pf cb False u2 w2)
                else thread_loop pf cb True u1 w1)
         else thread_loop pf cb False u w)
      else if still_running pf u w then
        (case cb_init cb u w of
           (rc, u1, w1) \<Rightarrow>
             if rc \<noteq> 0 then
               (case interruptible_sleep_ms pf u1 MODBUS_DEFAULT_RECONNECT_DELAY_MS w1 of
                  None \<Rightarrow> None
                | Some w2 \<Rightarrow> thread_loop pf cb False u1 w2)
             else thread_loop pf cb True u1 w1)
      else Some (u, w))"

definition unit_thread ::
  "'e platform \<Rightarrow> 'e unit_callbacks \<Rightarrow> gw_unit \<Rightarrow> 'e unit_world \<Rightarrow> (gw_unit \<times> 'e unit_world) option" where
  "unit_thread pf cb u w =
     (case thread_loop pf cb False u w of
        None \<Rightarrow> None
      | Some (u1, w1) \<Rightarrow> Some (unit_disconnect pf u1 w1))"

section \<open>Starting, finding and stopping units\<close>

text \<open>\<^verbatim>\<open>inverter_units\<close> with \<^verbatim>\<open>inverter_unit_count\<close> (and their UPS twins): the units started
  so far.\<close>

definition zeroed_tcp_ctx :: tcp_ctx where
  "zeroed_tcp_ctx = \<lparr>sock = 0, tid = 0, tcp_cfg = \<lparr>remote_host = None, tcp_port = 0, bind_iface = None,
     tcp_unit_id = 0, connect_timeout_sec = 0, tcp_response_timeout_ms = 0\<rparr>\<rparr>"

definition closed_rtu_ctx :: rtu_ctx where
  "closed_rtu_ctx = \<lparr>rtu_fd = -1, rtu_bus = None, rtu_cfg = \<lparr>serial_path = None, rtu_baud_rate = 0,
     rtu_unit_id = 0, rtu_response_timeout_ms = 0\<rparr>\<rparr>"

definition fresh_unit :: "device_map_profile \<Rightarrow> module_config \<Rightarrow> gw_unit" where
  "fresh_unit p cfg =
     \<lparr>u_cfg = cfg, u_profile = p, u_tcp = zeroed_tcp_ctx, u_rtu = closed_rtu_ctx, running = True,
      comm_fail_count = 0, connection_state = CONNECTION_DISCONNECTED, u_queue = queue_init,
      init_requested = False, reboot_requested = False\<rparr>"

text \<open>\<open>thread_ok\<close> tells for which entries \<^verbatim>\<open>pthread_create\<close> succeeds.\<close>

record start_state =
  ss_map :: device_map_state
  ss_pool :: pool
  ss_units :: "gw_unit list"
  ss_status :: int

definition start_one ::
  "device_map_profile \<Rightarrow> u16 \<Rightarrow> (nat \<Rightarrow> bool) \<Rightarrow> nat \<times> module_config \<Rightarrow> start_state \<Rightarrow> start_state" where
  "start_one p reg thread_ok icfg s =
     (case icfg of
        (i, cfg) \<Rightarrow>
          if \<not> enabled cfg then s
          else
            (case device_register_map_register_profile (Some p) (ss_map s) of
               (rc, m) \<Rightarrow>
                 if rc \<noteq> 0 then s\<lparr>ss_map := m, ss_status := -1\<rparr>
                 else
                   let s1 = s\<lparr>ss_map := m,
                              ss_pool := snd (pool_write_register (ss_pool s) reg (of_int CONNECTION_DISCONNECTED))\<rparr>
                   in if thread_ok i then s1\<lparr>ss_units := ss_units s @ [fresh_unit p cfg]\<rparr>
                      else s1\<lparr>ss_status := -1\<rparr>))"

definition start_modules ::
  "device_map_profile \<Rightarrow> u16 \<Rightarrow> (nat \<Rightarrow> bool) \<Rightarrow> int \<Rightarrow> module_config list \<Rightarrow> device_map_state \<Rightarrow> pool \<Rightarrow>
     start_state" where
  "start_modules p reg thread_ok bridge_rc cfgs m pl =
     (let s = fold (start_one p reg thread_ok) (enumerate 0 cfgs)
                \<lparr>ss_map = m, ss_pool = pl, ss_units = [], ss_status = 0\<rparr>
      in if bridge_rc \<noteq> 0 then s\<lparr>ss_status := -1\<rparr> else s)"

text \<open>\<^verbatim>\<open>stop_*_modules\<close> after the bridge has stopped: every thread sees \<^verbatim>\<open>running\<close> 0, is
  joined, and the array is empty again.\<close>

definition stop_modules :: "gw_unit list \<Rightarrow> int \<times> gw_unit list \<times> gw_unit list" where
  "stop_modules us = (0, map (\<lambda>u. u\<lparr>running := False\<rparr>) us, [])"

definition unit_from_uid :: "gw_unit list \<Rightarrow> u8 \<Rightarrow> nat option" where
  "unit_from_uid us uid = List.find (\<lambda>i. of_int (modbus_uid (u_cfg (us ! i))) = uid) [0..<length us]"

definition get_primary_uid :: "gw_unit list \<Rightarrow> u8 option" where
  "get_primary_uid us = (case us of [] \<Rightarrow> None | u # _ \<Rightarrow> Some (of_int (modbus_uid (u_cfg u))))"

definition cmd_push ::
  "(u16 \<Rightarrow> bool) \<Rightarrow> gw_unit list \<Rightarrow> u8 \<Rightarrow> u16 \<Rightarrow> u16 list option \<Rightarrow> u16 \<Rightarrow> write_mode \<Rightarrow> int \<times> gw_unit list" where
  "cmd_push merge_allowed us uid addr values count mode =
     (if values = None \<or> count = 0 \<or> count > MODBUS_MAX_WRITE_REGISTERS then (-1, us)
      else
        (case unit_from_uid us uid of
           None \<Rightarrow> (-1, us)
         | Some i \<Rightarrow>
             (case queue_push merge_allowed (u_queue (us ! i)) addr values count mode of
                (rc, q) \<Rightarrow> if rc \<noteq> 0 then (-1, us) else (0, us[i := (us ! i)\<lparr>u_queue := q\<rparr>]))))"

definition init_request :: "gw_unit list \<Rightarrow> u8 \<Rightarrow> int \<times> gw_unit list" where
  "init_request us uid =
     (case unit_from_uid us uid of
        None \<Rightarrow> (-1, us)
      | Some i \<Rightarrow> (0, us[i := (us ! i)\<lparr>init_requested := True\<rparr>]))"

end
