(* ===== verification/Unit_Scan.thy ===== *)
theory Unit_Scan
  imports Unit_Core
begin

text \<open>
  Properties of the operations of \<open>Unit_Core\<close>: what they leave alone, the segments a scan
  reads, what a scan leaves in the pool, the failure counter, the drain of the queue, the
  bracketing of bus transactions and the waiting loops.
\<close>

section \<open>What the operations leave alone\<close>

text \<open>Same unit up to its transport contexts.\<close>

definition same_unit :: "gw_unit \<Rightarrow> gw_unit \<Rightarrow> bool" where
  "same_unit u u' \<longleftrightarrow> (\<exists>t r. u' = u\<lparr>u_tcp := t, u_rtu := r\<rparr>)"

lemma same_unit_refl [simp, intro]: "same_unit u u"
  unfolding same_unit_def by (rule exI [of _ "u_tcp u"], rule exI [of _ "u_rtu u"]) simp

lemma same_unit_tcp [simp]: "same_unit u (u\<lparr>u_tcp := t\<rparr>)"
  unfolding same_unit_def by (rule exI [of _ t], rule exI [of _ "u_rtu u"]) simp

lemma same_unit_rtu [simp]: "same_unit u (u\<lparr>u_rtu := t\<rparr>)"
  unfolding same_unit_def by (rule exI [of _ "u_tcp u"], rule exI [of _ t]) simp

lemma same_unit_trans: "same_unit u v \<Longrightarrow> same_unit v w \<Longrightarrow> same_unit u w"
proof -
  assume "same_unit u v" "same_unit v w"
  then obtain t r t' r' where "v = u\<lparr>u_tcp := t, u_rtu := r\<rparr>" "w = v\<lparr>u_tcp := t', u_rtu := r'\<rparr>"
    unfolding same_unit_def by blast
  then have "w = u\<lparr>u_tcp := t', u_rtu := r'\<rparr>" by simp
  then show ?thesis unfolding same_unit_def by blast
qed

lemma same_unitD:
  assumes "same_unit u u'"
  shows "u_cfg u' = u_cfg u" "u_profile u' = u_profile u" "running u' = running u"
    "comm_fail_count u' = comm_fail_count u" "connection_state u' = connection_state u"
    "u_queue u' = u_queue u" "init_requested u' = init_requested u" "reboot_requested u' = reboot_requested u"
  using assms by (auto simp: same_unit_def)

lemma uw_pool_log [simp]: "uw_pool (log_event ev w) = uw_pool w"
  by (simp add: log_event_def)

lemma uw_pool_acquire [simp]: "uw_pool (unit_acquire pf p w) = uw_pool w"
  by (simp add: unit_acquire_def split: option.split prod.split)

lemma uw_pool_release [simp]: "uw_pool (unit_release pf p w) = uw_pool w"
  by (simp add: unit_release_def)

lemma uw_pool_usleep [simp]: "uw_pool (unit_usleep pf us w) = uw_pool w"
  by (simp add: unit_usleep_def)

lemma uw_pool_done [simp]:
  "uw_pool (rtu_done c rc rw w) = uw_pool w" "uw_pool (tcp_done c rc e w) = uw_pool w"
  by (simp_all add: rtu_done_def tcp_done_def)

lemma uw_trace_log [simp]: "uw_trace (log_event ev w) = uw_trace w @ [ev]"
  by (simp add: log_event_def)

lemma uw_trace_acquire [simp]: "uw_trace (unit_acquire pf p w) = uw_trace w @ [Ev_acquire p]"
  by (simp add: unit_acquire_def split: option.split prod.split)

lemma uw_trace_release [simp]: "uw_trace (unit_release pf p w) = uw_trace w @ [Ev_release p]"
  by (simp add: unit_release_def)

lemma uw_trace_usleep [simp]: "uw_trace (unit_usleep pf us w) = uw_trace w @ [Ev_sleep us]"
  by (simp add: unit_usleep_def)

lemma uw_trace_done [simp]:
  "uw_trace (rtu_done c rc rw w) = uw_trace w @ [Ev_rtu c rc]"
  "uw_trace (tcp_done c rc e w) = uw_trace w @ [Ev_tcp c rc]"
  by (simp_all add: rtu_done_def tcp_done_def)

lemma uw_trace_pool_write [simp]: "uw_trace (pool_write a v w) = uw_trace w"
  by (simp add: pool_write_def)

lemma uw_trace_mark [simp]: "uw_trace (mark_unreachable p w) = uw_trace w"
proof -
  have "uw_trace (fold (\<lambda>m. pool_write (pool_address m) 0xFFFF) ms w) = uw_trace w"
    for ms :: "device_register_mapping list"
    by (induction ms arbitrary: w) auto
  then show ?thesis by (simp add: mark_unreachable_def)
qed

text \<open>The events of one read and of one write, by transport.\<close>

definition rtu_unit :: "gw_unit \<Rightarrow> bool" where
  "rtu_unit u \<longleftrightarrow> cfg_format (u_cfg u) = MODBUS_FORMAT_RTU"

definition unit_path :: "gw_unit \<Rightarrow> string option" where
  "unit_path u = bus_path_of (u_cfg u)"

definition read_events :: "gw_unit \<Rightarrow> u16 \<Rightarrow> u16 \<Rightarrow> int \<Rightarrow> io_event list" where
  "read_events u a n rc =
     (if rtu_unit u then [Ev_acquire (unit_path u), Ev_rtu (Call_read a n) rc, Ev_release (unit_path u)]
      else [Ev_tcp (Call_read a n) rc])"

definition plain_event :: "gw_unit \<Rightarrow> io_call \<Rightarrow> int \<Rightarrow> io_event" where
  "plain_event u c rc = (if rtu_unit u then Ev_rtu c rc else Ev_tcp c rc)"

lemma not_tcp [simp]: "cfg_format c \<noteq> MODBUS_FORMAT_TCP \<longleftrightarrow> cfg_format c = MODBUS_FORMAT_RTU"
  by (cases "cfg_format c") auto

lemma read_device_value_frame:
  assumes "read_device_value pf u a n w = (rc, out, u', w')"
  shows "same_unit u u' \<and> uw_pool w' = uw_pool w \<and> uw_trace w' = uw_trace w @ read_events u a n rc"
  using assms
  by (auto simp: read_device_value_def Let_def read_events_def rtu_unit_def unit_path_def
      split: if_splits prod.splits)

lemma write_single_frame:
  assumes "write_single pf u a v w = (rc, u', w')"
  shows "same_unit u u' \<and> uw_pool w' = uw_pool w \<and>
    uw_trace w' = uw_trace w @ [plain_event u (Call_write a v) rc]"
  using assms by (auto simp: write_single_def plain_event_def rtu_unit_def split: if_splits prod.splits)

lemma write_multiple_frame:
  assumes "write_multiple pf u a n vs w = (rc, u', w')"
  shows "same_unit u u' \<and> uw_pool w' = uw_pool w \<and>
    uw_trace w' = uw_trace w @ [plain_event u (Call_write_many a (take (unat n) vs)) rc]"
  using assms by (auto simp: write_multiple_def plain_event_def rtu_unit_def split: if_splits prod.splits)

text \<open>The call a write command makes, if any.\<close>

definition write_call :: "u16 \<Rightarrow> u16 list \<Rightarrow> u16 \<Rightarrow> write_mode \<Rightarrow> io_call option" where
  "write_call a vs n m =
     (case m of
        WRITE_MODE_FC06 \<Rightarrow> if n = 1 then Some (Call_write a (vs ! 0)) else None
      | WRITE_MODE_FC16 \<Rightarrow> Some (Call_write_many a (take (unat n) vs))
      | WRITE_MODE_AUTO \<Rightarrow>
          Some (if n = 1 then Call_write a (vs ! 0) else Call_write_many a (take (unat n) vs)))"

lemma write_registers_locked_frame:
  assumes "write_registers_locked pf u a vs n m w = (rc, u', w')"
  shows "same_unit u u' \<and> uw_pool w' = uw_pool w \<and>
    (case write_call a vs n m of
       None \<Rightarrow> rc = -1 \<and> w' = w \<and> u' = u
     | Some c \<Rightarrow> \<exists>r. uw_trace w' = uw_trace w @ [plain_event u c r] \<and> rc = (if r = 0 then 0 else -1))"
proof -
  obtain r1 u1 w1 where s: "write_single pf u a (vs ! 0) w = (r1, u1, w1)" by (metis prod.exhaust)
  obtain r2 u2 w2 where m: "write_multiple pf u a n vs w = (r2, u2, w2)" by (metis prod.exhaust)
  from assms s m write_single_frame [OF s] write_multiple_frame [OF m] show ?thesis
    by (cases m; cases "n = 1") (auto simp: write_registers_locked_def write_call_def)
qed

lemma read_device_value_same:
  "read_device_value pf u a n w = (rc, out, u', w') \<Longrightarrow> same_unit u u'"
  using read_device_value_frame by blast

section \<open>The segments of a scan\<close>

text \<open>The bounds of the segments, each a first row and a length, without the I/O.\<close>

fun segments_from :: "device_map_profile \<Rightarrow> nat \<Rightarrow> nat \<Rightarrow> nat \<Rightarrow> nat \<Rightarrow> (nat \<times> nat) list" where
  "segments_from p 0 i s l = []"
| "segments_from p (Suc k) i s l =
     (if row_follows p i \<and> \<not> l \<ge> unat (read_chunk p) then segments_from p k (Suc i) s (Suc l)
      else (s, l) # segments_from p k (Suc i) i 1)"

definition profile_segments :: "device_map_profile \<Rightarrow> (nat \<times> nat) list" where
  "profile_segments p = segments_from p (table_count p) 1 0 1"

primrec run_segments ::
  "'e platform \<Rightarrow> bool \<Rightarrow> (nat \<times> nat) list \<Rightarrow> u16 list \<Rightarrow> gw_unit \<Rightarrow> 'e unit_world \<Rightarrow>
     int \<times> gw_unit \<times> 'e unit_world" where
  "run_segments pf track [] buf u w = (0, u, w)"
| "run_segments pf track (s # ss) buf u w =
     (case scan_segment pf track (fst s) (snd s) buf u w of
        (go_on, buf1, u1, w1) \<Rightarrow> if go_on then run_segments pf track ss buf1 u1 w1 else (-1, u1, w1))"

text \<open>What a segment leaves of the unit.\<close>

lemma scan_segment_cases:
  assumes "scan_segment pf track s l buf u w = (go, buf', u', w')"
  obtains (ok) out u1 w1 where
      "read_device_value pf u (device_address (rows (u_profile u) ! s)) (of_nat l) w = (0, out, u1, w1)"
      and "go" and "buf' = store_into out buf" and "u' = (if track then u1\<lparr>comm_fail_count := 0\<rparr> else u1)"
      and "w' = unit_usleep pf 40000 (w1\<lparr>uw_pool := device_map_read_to_pool (Some (u_profile u))
              (Some (store_into out buf)) (device_address (rows (u_profile u) ! s))
              (int (unat (of_nat l :: u16))) (uw_pool w1)\<rparr>)"
  | (failed) rc out u1 w1 where
      "read_device_value pf u (device_address (rows (u_profile u) ! s)) (of_nat l) w = (rc, out, u1, w1)"
      and "rc \<noteq> 0" and "go" and "track" and "buf' = buf"
      and "u' = u1\<lparr>comm_fail_count := comm_fail_count u + 1\<rparr>" and "comm_fail_count u + 1 < 5"
      and "w' = unit_usleep pf 40000 w1"
  | (gave_up) rc out u1 w1 where
      "read_device_value pf u (device_address (rows (u_profile u) ! s)) (of_nat l) w = (rc, out, u1, w1)"
      and "rc \<noteq> 0" and "\<not> go" and "track" and "u' = u1\<lparr>comm_fail_count := comm_fail_count u + 1\<rparr>"
      and "5 \<le> comm_fail_count u + 1" and "w' = mark_unreachable (u_profile u) w1"
  | (aborted) rc out where
      "read_device_value pf u (device_address (rows (u_profile u) ! s)) (of_nat l) w = (rc, out, u', w')"
      and "rc \<noteq> 0" and "\<not> go" and "\<not> track"
proof -
  obtain rc out u1 w1 where r:
    "read_device_value pf u (device_address (rows (u_profile u) ! s)) (of_nat l) w = (rc, out, u1, w1)"
    by (metis prod.exhaust)
  have c: "comm_fail_count u1 = comm_fail_count u"
    using read_device_value_same [OF r] by (rule same_unitD)
  consider "rc = 0" | "rc \<noteq> 0" "\<not> track" | "rc \<noteq> 0" "track" "5 \<le> comm_fail_count u + 1"
    | "rc \<noteq> 0" "track" "comm_fail_count u + 1 < 5" by linarith
  then show ?thesis
  proof cases
    case 1
    show ?thesis by (rule ok [of out u1 w1]) (use assms r 1 in \<open>auto simp: scan_segment_def Let_def\<close>)
  next
    case 2
    show ?thesis by (rule aborted [of rc out]) (use assms r 2 in \<open>auto simp: scan_segment_def Let_def\<close>)
  next
    case 3
    show ?thesis by (rule gave_up [of rc out u1 w1]) (use assms r c 3 in \<open>auto simp: scan_segment_def Let_def\<close>)
  next
    case 4
    show ?thesis by (rule failed [of rc out u1 w1]) (use assms r c 4 in \<open>auto simp: scan_segment_def Let_def\<close>)
  qed
qed

text \<open>Same unit up to its transport contexts and the failure counter.\<close>

definition same_link :: "gw_unit \<Rightarrow> gw_unit \<Rightarrow> bool" where
  "same_link u u' \<longleftrightarrow> (\<exists>t r n. u' = u\<lparr>u_tcp := t, u_rtu := r, comm_fail_count := n\<rparr>)"

lemma same_link_refl [simp, intro]: "same_link u u"
  unfolding same_link_def by (intro exI [of _ "u_tcp u"] exI [of _ "u_rtu u"] exI [of _ "comm_fail_count u"]) simp

lemma same_link_same: "same_unit u u' \<Longrightarrow> same_link u u'"
proof -
  assume "same_unit u u'"
  then obtain t r where "u' = u\<lparr>u_tcp := t, u_rtu := r\<rparr>" unfolding same_unit_def by blast
  then have "u' = u\<lparr>u_tcp := t, u_rtu := r, comm_fail_count := comm_fail_count u\<rparr>" by simp
  then show ?thesis unfolding same_link_def by blast
qed

lemma same_link_count: "same_unit u u' \<Longrightarrow> same_link u (u'\<lparr>comm_fail_count := n\<rparr>)"
  unfolding same_unit_def same_link_def by auto

lemma same_link_trans: "same_link u v \<Longrightarrow> same_link v w \<Longrightarrow> same_link u w"
proof -
  assume "same_link u v" "same_link v w"
  then obtain t r n t' r' n' where "v = u\<lparr>u_tcp := t, u_rtu := r, comm_fail_count := n\<rparr>"
    "w = v\<lparr>u_tcp := t', u_rtu := r', comm_fail_count := n'\<rparr>"
    unfolding same_link_def by blast
  then have "w = u\<lparr>u_tcp := t', u_rtu := r', comm_fail_count := n'\<rparr>" by simp
  then show ?thesis unfolding same_link_def by blast
qed

lemma same_linkD:
  assumes "same_link u u'"
  shows "u_cfg u' = u_cfg u" "u_profile u' = u_profile u" "running u' = running u"
    "connection_state u' = connection_state u" "u_queue u' = u_queue u"
    "init_requested u' = init_requested u" "reboot_requested u' = reboot_requested u"
    "rtu_unit u' = rtu_unit u" "unit_path u' = unit_path u"
  using assms by (auto simp: same_link_def rtu_unit_def unit_path_def)

lemma scan_segment_same:
  assumes "scan_segment pf track s l buf u w = (go, buf', u', w')"
  shows "same_link u u'"
  using assms
proof (cases rule: scan_segment_cases)
  case (ok out u1 w1)
  with same_link_count [OF read_device_value_same [OF ok(1)]] same_link_same [OF read_device_value_same [OF ok(1)]]
  show ?thesis by auto
next
  case (failed rc out u1 w1)
  with same_link_count [OF read_device_value_same [OF failed(1)]] show ?thesis by auto
next
  case (gave_up rc out u1 w1)
  with same_link_count [OF read_device_value_same [OF gave_up(1)]] show ?thesis by auto
next
  case (aborted rc out)
  with same_link_same [OF read_device_value_same [OF aborted(1)]] show ?thesis by auto
qed

text \<open>The loop of the code runs the segments one after the other.\<close>

lemma scan_loop_segments:
  "scan_loop pf track k i s l buf u w = run_segments pf track (segments_from (u_profile u) k i s l) buf u w"
proof (induction k arbitrary: i s l buf u w)
  case 0
  then show ?case by simp
next
  case (Suc k)
  show ?case
  proof (cases "row_follows (u_profile u) i \<and> \<not> l \<ge> unat (read_chunk (u_profile u))")
    case True
    then show ?thesis using Suc [of "Suc i" s "Suc l" buf u w] by simp
  next
    case False
    obtain go buf1 u1 w1 where seg: "scan_segment pf track s l buf u w = (go, buf1, u1, w1)"
      by (metis prod.exhaust)
    have "u_profile u1 = u_profile u" using same_linkD(2) [OF scan_segment_same [OF seg]] .
    with False seg Suc [of "Suc i" i 1 buf1 u1 w1] show ?thesis by auto
  qed
qed

text \<open>Where segments lie.\<close>

lemma segments_from_partition:
  assumes "1 \<le> l" and "i = s + l" and "k + i = table_count p + 1" and "k = 0 \<longrightarrow> s = table_count p"
  shows "concat (map (\<lambda>(s, l). [s..<s + l]) (segments_from p k i s l)) = [s..<table_count p]"
  using assms
proof (induction p k i s l rule: segments_from.induct)
  case (1 p i s l)
  then show ?case by simp
next
  case (2 p k i s l)
  show ?case
  proof (cases "row_follows p i \<and> \<not> l \<ge> unat (read_chunk p)")
    case True
    then have "i < table_count p" by (simp add: row_follows_def)
    then have "k \<noteq> 0" using "2.prems"(3) by simp
    with True 2 show ?thesis by simp
  next
    case False
    have "i \<le> table_count p" using "2.prems"(3) by simp
    have "concat (map (\<lambda>(s, l). [s..<s + l]) (segments_from p k (Suc i) i 1)) = [i..<table_count p]"
      using False "2.prems" by (intro "2.IH"(2)) auto
    moreover have "[s..<i] @ [i..<table_count p] = [s..<table_count p]"
      using "2.prems"(2) \<open>i \<le> table_count p\<close>
      by (metis upt_add_eq_append le_add1 le_add_diff_inverse)
    moreover have "segments_from p (Suc k) i s l = (s, l) # segments_from p k (Suc i) i 1"
      using False by (simp only: segments_from.simps if_False)
    ultimately show ?thesis using "2.prems"(2) by simp
  qed
qed

definition segment_ok :: "device_map_profile \<Rightarrow> nat \<times> nat \<Rightarrow> bool" where
  "segment_ok p sl \<longleftrightarrow> (case sl of (s, l) \<Rightarrow>
     1 \<le> l \<and> l \<le> max 1 (unat (read_chunk p)) \<and> s + l \<le> table_count p \<and>
     (\<forall>j<l. unat (device_address (rows p ! (s + j))) = unat (device_address (rows p ! s)) + j) \<and>
     (\<not> row_follows p (s + l) \<or> unat (read_chunk p) \<le> l))"

lemma segments_from_ok:
  assumes "1 \<le> l" and "i = s + l" and "k + i = table_count p + 1" and "k = 0 \<longrightarrow> s = table_count p"
    and "l \<le> max 1 (unat (read_chunk p))"
    and "\<forall>j<l. unat (device_address (rows p ! (s + j))) = unat (device_address (rows p ! s)) + j"
  shows "\<forall>sl\<in>set (segments_from p k i s l). segment_ok p sl"
  using assms
proof (induction p k i s l rule: segments_from.induct)
  case (1 p i s l)
  then show ?case by simp
next
  case (2 p k i s l)
  show ?case
  proof (cases "row_follows p i \<and> \<not> l \<ge> unat (read_chunk p)")
    case True
    then have f: "i < table_count p"
      "unat (device_address (rows p ! i)) = unat (device_address (rows p ! (i - 1))) + 1"
      by (simp_all add: row_follows_def)
    have "unat (device_address (rows p ! (s + j))) = unat (device_address (rows p ! s)) + j" if "j < Suc l" for j
    proof (cases "j = l")
      case True
      have "i - 1 = s + (l - 1)" "l - 1 < l" using "2.prems"(1,2) by simp_all
      with f(2) "2.prems"(6) have "unat (device_address (rows p ! i)) = unat (device_address (rows p ! s)) + (l - 1) + 1"
        by metis
      with True "2.prems"(1,2) show ?thesis by simp
    next
      case False
      with that "2.prems"(6) show ?thesis by simp
    qed
    moreover have "k \<noteq> 0" using f(1) "2.prems"(3) by simp
    ultimately have "\<forall>sl\<in>set (segments_from p k (Suc i) s (Suc l)). segment_ok p sl"
      using True "2.prems" by (intro "2.IH"(1)) auto
    with True show ?thesis by simp
  next
    case False
    have le: "i \<le> table_count p" using "2.prems"(3) by simp
    have "segment_ok p (s, l)"
      using False "2.prems" le unfolding segment_ok_def by auto
    moreover have "\<forall>sl\<in>set (segments_from p k (Suc i) i 1). segment_ok p sl"
      using False "2.prems" by (intro "2.IH"(2)) auto
    moreover have "segments_from p (Suc k) i s l = (s, l) # segments_from p k (Suc i) i 1"
      using False by (simp only: segments_from.simps if_False)
    ultimately show ?thesis by simp
  qed
qed

lemma profile_segments_ok: "sl \<in> set (profile_segments p) \<Longrightarrow> segment_ok p sl"
  using segments_from_ok [of 1 1 0 "table_count p" p] by (auto simp: profile_segments_def)

lemma profile_segments_partition:
  "concat (map (\<lambda>(s, l). [s..<s + l]) (profile_segments p)) = [0..<table_count p]"
  using segments_from_partition [of 1 1 0 "table_count p" p] by (simp add: profile_segments_def)

lemma profile_segments_cover:
  assumes "r < table_count p"
  shows "\<exists>(s, l)\<in>set (profile_segments p). s \<le> r \<and> r < s + l"
proof -
  have "r \<in> set (concat (map (\<lambda>(s, l). [s..<s + l]) (profile_segments p)))"
    using assms unfolding profile_segments_partition by simp
  then show ?thesis by fastforce
qed

lemma read_profile_to_pool_segments:
  "read_profile_to_pool pf track u w =
     (if table_count (u_profile u) = 0 then (0, u, w)
      else (case run_segments pf track (profile_segments (u_profile u)) (replicate 125 0) u
                   (unit_acquire pf (unit_path u) w) of
              (rc, u1, w1) \<Rightarrow> (rc, u1, unit_release pf (unit_path u) w1)))"
  by (simp add: read_profile_to_pool_def scan_loop_segments profile_segments_def unit_path_def Let_def)

section \<open>The reads of a scan\<close>

definition event_call :: "io_event \<Rightarrow> io_call option" where
  "event_call ev = (case ev of Ev_rtu c _ \<Rightarrow> Some c | Ev_tcp c _ \<Rightarrow> Some c | _ \<Rightarrow> None)"

definition io_calls :: "io_event list \<Rightarrow> io_call list" where
  "io_calls tr = List.map_filter event_call tr"

lemma io_calls_append [simp]: "io_calls (a @ b) = io_calls a @ io_calls b"
  by (simp add: io_calls_def map_filter_def)

lemma io_calls_simps [simp]:
  "io_calls [] = []"
  "io_calls (Ev_acquire p # tr) = io_calls tr" "io_calls (Ev_release p # tr) = io_calls tr"
  "io_calls (Ev_sleep n # tr) = io_calls tr" "io_calls (Ev_rtu c r # tr) = c # io_calls tr"
  "io_calls (Ev_tcp c r # tr) = c # io_calls tr"
  by (simp_all add: io_calls_def map_filter_def event_call_def)

lemma io_calls_read [simp]: "io_calls (read_events u a n rc) = [Call_read a n]"
  by (simp add: read_events_def)

lemma io_calls_plain [simp]: "io_calls [plain_event u c rc] = [c]"
  by (simp add: plain_event_def)

definition segment_call :: "device_map_profile \<Rightarrow> nat \<times> nat \<Rightarrow> io_call" where
  "segment_call p sl = Call_read (device_address (rows p ! fst sl)) (of_nat (snd sl))"

lemma scan_segment_events:
  assumes "scan_segment pf track s l buf u w = (go, buf', u', w')"
  shows "\<exists>rc. uw_trace w' = uw_trace w @
      read_events u (device_address (rows (u_profile u) ! s)) (of_nat l) rc @ (if go then [Ev_sleep 40000] else [])"
  using assms
proof (cases rule: scan_segment_cases)
  case (ok out u1 w1)
  with read_device_value_frame [OF ok(1)] show ?thesis by auto
next
  case (failed rc out u1 w1)
  with read_device_value_frame [OF failed(1)] show ?thesis by auto
next
  case (gave_up rc out u1 w1)
  with read_device_value_frame [OF gave_up(1)] show ?thesis by auto
next
  case (aborted rc out)
  with read_device_value_frame [OF aborted(1)] show ?thesis by auto
qed

lemma run_segments_calls:
  assumes "run_segments pf track segs buf u w = (rc, u', w')"
  shows "(rc = 0 \<or> rc = -1) \<and> same_link u u' \<and>
    (\<exists>tr k. uw_trace w' = uw_trace w @ tr \<and> k \<le> length segs \<and> (rc = 0 \<longrightarrow> k = length segs) \<and>
       (segs \<noteq> [] \<longrightarrow> 0 < k) \<and> io_calls tr = map (segment_call (u_profile u)) (take k segs))"
  using assms
proof (induction segs arbitrary: buf u w)
  case Nil
  then show ?case by auto
next
  case (Cons sl segs)
  obtain go buf1 u1 w1 where seg: "scan_segment pf track (fst sl) (snd sl) buf u w = (go, buf1, u1, w1)"
    by (metis prod.exhaust)
  obtain r where tr1: "uw_trace w1 = uw_trace w @
      read_events u (device_address (rows (u_profile u) ! fst sl)) (of_nat (snd sl)) r @ (if go then [Ev_sleep 40000] else [])"
    using scan_segment_events [OF seg] by blast
  let ?t1 = "read_events u (device_address (rows (u_profile u) ! fst sl)) (of_nat (snd sl)) r @
      (if go then [Ev_sleep 40000] else [])"
  have c1: "io_calls ?t1 = [segment_call (u_profile u) sl]" by (simp add: segment_call_def)
  note same = scan_segment_same [OF seg]
  show ?case
  proof (cases go)
    case True
    with Cons.prems seg have "run_segments pf track segs buf1 u1 w1 = (rc, u', w')" by simp
    from Cons.IH [OF this] same_linkD(2) [OF same] obtain tr k where
      ih: "rc = 0 \<or> rc = -1" "same_link u1 u'" "uw_trace w' = uw_trace w1 @ tr" "k \<le> length segs"
        "rc = 0 \<longrightarrow> k = length segs" "io_calls tr = map (segment_call (u_profile u)) (take k segs)" by auto
    have "uw_trace w' = uw_trace w @ (?t1 @ tr)" using tr1 ih(3) by simp
    moreover have "io_calls (?t1 @ tr) = map (segment_call (u_profile u)) (take (Suc k) (sl # segs))"
      using c1 ih(6) by simp
    ultimately show ?thesis using ih same same_link_trans [of u u1 u']
      by (metis Suc_le_mono length_Cons zero_less_Suc)
  next
    case False
    with Cons.prems seg have r: "rc = -1" "u' = u1" "w' = w1" by auto
    have "io_calls ?t1 = map (segment_call (u_profile u)) (take (Suc 0) (sl # segs))" using c1 by simp
    moreover have "uw_trace w' = uw_trace w @ ?t1" using tr1 r(3) by simp
    moreover have "Suc 0 \<le> length (sl # segs)" by simp
    ultimately show ?thesis using r same by (metis zero_less_Suc zero_neq_neg_one)
  qed
qed

lemma read_profile_to_pool_frame:
  assumes "read_profile_to_pool pf track u w = (rc, u', w')"
  shows "(rc = 0 \<or> rc = -1) \<and> same_link u u' \<and> (\<exists>tr. uw_trace w' = uw_trace w @ tr)"
proof (cases "table_count (u_profile u) = 0")
  case True
  with assms show ?thesis by (auto simp: read_profile_to_pool_segments)
next
  case False
  obtain r u1 w1 where run: "run_segments pf track (profile_segments (u_profile u)) (replicate 125 0) u
      (unit_acquire pf (unit_path u) w) = (r, u1, w1)" by (metis prod.exhaust)
  from run_segments_calls [OF run] False assms run show ?thesis
    by (auto simp: read_profile_to_pool_segments)
qed

text \<open>
  A scan that succeeds issues exactly one read per segment, in table order, and nothing
  else; a scan that fails has issued a non-empty prefix of these reads. The segments cover the
  rows of the table one after the other without gap or overlap, each is a run of consecutive
  device addresses of at most the profile's chunk length, and none could have been longer.
\<close>

theorem scan_covers_profile:
  assumes "read_profile_to_pool pf track u w = (rc, u', w')" and "table_count (u_profile u) > 0"
  shows "(\<exists>tr k. uw_trace w' = uw_trace w @ tr \<and> 0 < k \<and> k \<le> length (profile_segments (u_profile u)) \<and>
      (rc = 0 \<longrightarrow> k = length (profile_segments (u_profile u))) \<and>
      io_calls tr = map (segment_call (u_profile u)) (take k (profile_segments (u_profile u)))) \<and>
    concat (map (\<lambda>(s, l). [s..<s + l]) (profile_segments (u_profile u))) = [0..<table_count (u_profile u)] \<and>
    (\<forall>sl\<in>set (profile_segments (u_profile u)). segment_ok (u_profile u) sl)"
proof -
  let ?segs = "profile_segments (u_profile u)"
  obtain r u1 w1 where run: "run_segments pf track ?segs (replicate 125 0) u
      (unit_acquire pf (unit_path u) w) = (r, u1, w1)" by (metis prod.exhaust)
  have "?segs \<noteq> []" using profile_segments_cover [OF assms(2)] by auto
  with run_segments_calls [OF run] obtain tr k where
    t: "uw_trace w1 = uw_trace w @ Ev_acquire (unit_path u) # tr" "0 < k" "k \<le> length ?segs"
      "r = 0 \<longrightarrow> k = length ?segs" "io_calls tr = map (segment_call (u_profile u)) (take k ?segs)" by auto
  from assms run have "rc = r" "w' = unit_release pf (unit_path u) w1"
    by (auto simp: read_profile_to_pool_segments)
  with t have "uw_trace w' = uw_trace w @ (Ev_acquire (unit_path u) # tr @ [Ev_release (unit_path u)])" by simp
  moreover have "io_calls (Ev_acquire (unit_path u) # tr @ [Ev_release (unit_path u)]) =
      map (segment_call (u_profile u)) (take k ?segs)" using t(5) by simp
  ultimately show ?thesis
    using t(2-4) \<open>rc = r\<close> profile_segments_partition profile_segments_ok by blast
qed

section \<open>Failing reads\<close>

lemma mark_unreachable_pool:
  "uw_pool (mark_unreachable p w) a =
     (if a < INTERNAL_POOL_SIZE \<and> (\<exists>m\<in>set (rows p). pool_address m = a) then 0xFFFF else uw_pool w a)"
proof -
  have "uw_pool (fold (\<lambda>m. pool_write (pool_address m) 0xFFFF) ms w) a =
      (if a < INTERNAL_POOL_SIZE \<and> (\<exists>m\<in>set ms. pool_address m = a) then 0xFFFF else uw_pool w a)"
    for ms :: "device_register_mapping list"
    by (induction ms arbitrary: w) (auto simp: pool_write_def pool_write_register_def not_le)
  then show ?thesis by (simp add: mark_unreachable_def)
qed

text \<open>The result codes of the calls, and the counter they lead to.\<close>

definition event_result :: "io_event \<Rightarrow> int option" where
  "event_result ev = (case ev of Ev_rtu _ rc \<Rightarrow> Some rc | Ev_tcp _ rc \<Rightarrow> Some rc | _ \<Rightarrow> None)"

definition io_results :: "io_event list \<Rightarrow> int list" where
  "io_results tr = List.map_filter event_result tr"

lemma io_results_append [simp]: "io_results (a @ b) = io_results a @ io_results b"
  by (simp add: io_results_def map_filter_def)

lemma io_results_simps [simp]:
  "io_results [] = []"
  "io_results (Ev_acquire p # tr) = io_results tr" "io_results (Ev_release p # tr) = io_results tr"
  "io_results (Ev_sleep n # tr) = io_results tr" "io_results (Ev_rtu c r # tr) = r # io_results tr"
  "io_results (Ev_tcp c r # tr) = r # io_results tr"
  by (simp_all add: io_results_def map_filter_def event_result_def)

lemma io_results_read [simp]: "io_results (read_events u a n rc) = [rc]"
  by (simp add: read_events_def)

definition failures_after :: "int list \<Rightarrow> int \<Rightarrow> int" where
  "failures_after rcs n = fold (\<lambda>r c. if r \<noteq> 0 then c + 1 else 0) rcs n"

lemma failures_after_simps [simp]:
  "failures_after [] n = n"
  "failures_after (r # rs) n = failures_after rs (if r \<noteq> 0 then n + 1 else 0)"
  by (simp_all add: failures_after_def)

lemma scan_segment_counter:
  assumes "scan_segment pf True s l buf u w = (go, buf', u', w')" and "comm_fail_count u < 5"
  shows "\<exists>tr r. uw_trace w' = uw_trace w @ tr \<and> io_results tr = [r] \<and>
    comm_fail_count u' = failures_after [r] (comm_fail_count u) \<and> (go \<longleftrightarrow> comm_fail_count u' < 5) \<and>
    (go \<or> (\<forall>a. uw_pool w' a = (if a < INTERNAL_POOL_SIZE \<and> (\<exists>m\<in>set (rows (u_profile u)). pool_address m = a)
                                then 0xFFFF else uw_pool w a)))"
  using assms(1)
proof (cases rule: scan_segment_cases)
  case (ok out u1 w1)
  with read_device_value_frame [OF ok(1)] show ?thesis by auto
next
  case (failed rc out u1 w1)
  with read_device_value_frame [OF failed(1)] show ?thesis by auto
next
  case (gave_up rc out u1 w1)
  with read_device_value_frame [OF gave_up(1)] assms(2) show ?thesis
    by (auto simp: mark_unreachable_pool)
next
  case (aborted rc out)
  then show ?thesis by simp
qed

lemma ingest_other:
  assumes "\<And>m. m \<in> set (rows p) \<Longrightarrow> pool_address m \<noteq> a"
  shows "device_map_read_to_pool (Some p) (Some buf) start n pl a = pl a"
proof -
  have "read_to_pool_loop p buf start i k pl a = pl a" for i k
    using assms by (induction k arbitrary: i pl)
      (auto simp: Let_def split: option.split dest!: device_find_slot_sound)
  then show ?thesis by (simp add: device_map_read_to_pool_def)
qed

text \<open>A scan, successful or not, stores in slots of the profile only.\<close>

lemma scan_segment_other:
  assumes "scan_segment pf track s l buf u w = (go, buf', u', w')"
    and "\<And>m. m \<in> set (rows (u_profile u)) \<Longrightarrow> pool_address m \<noteq> a"
  shows "uw_pool w' a = uw_pool w a"
  using assms(1)
proof (cases rule: scan_segment_cases)
  case (ok out u1 w1)
  with read_device_value_frame [OF ok(1)] show ?thesis using assms(2) by (simp add: ingest_other)
next
  case (failed rc out u1 w1)
  with read_device_value_frame [OF failed(1)] show ?thesis by simp
next
  case (gave_up rc out u1 w1)
  with read_device_value_frame [OF gave_up(1)] show ?thesis using assms(2) by (auto simp: mark_unreachable_pool)
next
  case (aborted rc out)
  with read_device_value_frame [OF aborted(1)] show ?thesis by simp
qed

lemma run_segments_other:
  assumes "run_segments pf track segs buf u w = (rc, u', w')"
    and "\<And>m. m \<in> set (rows (u_profile u)) \<Longrightarrow> pool_address m \<noteq> a"
  shows "uw_pool w' a = uw_pool w a"
  using assms
proof (induction segs arbitrary: buf u w)
  case Nil
  then show ?case by simp
next
  case (Cons sl segs)
  obtain go buf1 u1 w1 where seg: "scan_segment pf track (fst sl) (snd sl) buf u w = (go, buf1, u1, w1)"
    by (metis prod.exhaust)
  note p = same_linkD(2) [OF scan_segment_same [OF seg]]
  show ?case
    using Cons.IH [of buf1 u1 w1] Cons.prems seg p scan_segment_other [OF seg Cons.prems(2)]
    by (auto split: if_splits)
qed

lemma run_segments_counter:
  assumes "run_segments pf True segs buf u w = (rc, u', w')" and "comm_fail_count u < 5"
  shows "\<exists>tr. uw_trace w' = uw_trace w @ tr \<and>
    comm_fail_count u' = failures_after (io_results tr) (comm_fail_count u) \<and>
    (rc = 0 \<longleftrightarrow> comm_fail_count u' < 5) \<and>
    (rc \<noteq> 0 \<longrightarrow> (\<forall>m\<in>set (rows (u_profile u)). pool_address m < INTERNAL_POOL_SIZE \<longrightarrow>
        uw_pool w' (pool_address m) = 0xFFFF))"
  using assms
proof (induction segs arbitrary: buf u w)
  case Nil
  then show ?case by auto
next
  case (Cons sl segs)
  obtain go buf1 u1 w1 where seg: "scan_segment pf True (fst sl) (snd sl) buf u w = (go, buf1, u1, w1)"
    by (metis prod.exhaust)
  obtain t1 r where s: "uw_trace w1 = uw_trace w @ t1" "io_results t1 = [r]"
      "comm_fail_count u1 = failures_after [r] (comm_fail_count u)" "go \<longleftrightarrow> comm_fail_count u1 < 5"
      "go \<or> (\<forall>a. uw_pool w1 a = (if a < INTERNAL_POOL_SIZE \<and>
         (\<exists>m\<in>set (rows (u_profile u)). pool_address m = a) then 0xFFFF else uw_pool w a))"
    using scan_segment_counter [OF seg Cons.prems(2)] by blast
  note p = same_linkD(2) [OF scan_segment_same [OF seg]]
  show ?case
  proof (cases go)
    case True
    with Cons.prems seg have "run_segments pf True segs buf1 u1 w1 = (rc, u', w')" by simp
    from Cons.IH [OF this] s(4) True obtain tr where tr: "uw_trace w' = uw_trace w1 @ tr"
      "comm_fail_count u' = failures_after (io_results tr) (comm_fail_count u1)"
      "rc = 0 \<longleftrightarrow> comm_fail_count u' < 5"
      "rc \<noteq> 0 \<longrightarrow> (\<forall>m\<in>set (rows (u_profile u1)). pool_address m < INTERNAL_POOL_SIZE \<longrightarrow>
        uw_pool w' (pool_address m) = 0xFFFF)" by blast
    have "uw_trace w' = uw_trace w @ (t1 @ tr)" using s(1) tr(1) by simp
    moreover have "comm_fail_count u' = failures_after (io_results (t1 @ tr)) (comm_fail_count u)"
      using s(2,3) tr(2) by simp
    ultimately show ?thesis using tr(3,4) p by (metis (no_types, lifting))
  next
    case False
    with Cons.prems seg have r: "rc = -1" "u' = u1" "w' = w1" by auto
    have "comm_fail_count u' = failures_after (io_results t1) (comm_fail_count u)"
      using s(2,3) r by simp
    with s False r show ?thesis by auto
  qed
qed

text \<open>
  C27. The failure counter after a scan is the number of failing reads since the last successful
  one, over scans; the scan fails exactly when the counter has reached 5, and then every slot
  of the profile holds the marker 0xFFFF. So a segment that fails in every scan is never
  reported as long as another one succeeds at least once in any five reads. Slots outside the
  profile are not touched.
\<close>

theorem scan_failure_counter:
  assumes "read_profile_to_pool pf True u w = (rc, u', w')" and "comm_fail_count u < 5"
  shows "\<exists>tr. uw_trace w' = uw_trace w @ tr \<and>
    comm_fail_count u' = failures_after (io_results tr) (comm_fail_count u) \<and>
    (rc = 0 \<longleftrightarrow> comm_fail_count u' < 5) \<and>
    (rc \<noteq> 0 \<longrightarrow> (\<forall>m\<in>set (rows (u_profile u)). pool_address m < INTERNAL_POOL_SIZE \<longrightarrow>
        uw_pool w' (pool_address m) = 0xFFFF)) \<and>
    (\<forall>a. a \<notin> pool_address ` set (rows (u_profile u)) \<longrightarrow> uw_pool w' a = uw_pool w a)"
proof (cases "table_count (u_profile u) = 0")
  case True
  with assms show ?thesis by (auto simp: read_profile_to_pool_segments)
next
  case False
  obtain r u1 w1 where run: "run_segments pf True (profile_segments (u_profile u)) (replicate 125 0) u
      (unit_acquire pf (unit_path u) w) = (r, u1, w1)" by (metis prod.exhaust)
  from False assms run have eq: "rc = r" "u' = u1" "w' = unit_release pf (unit_path u) w1"
    by (auto simp: read_profile_to_pool_segments)
  from run_segments_counter [OF run assms(2)] obtain tr where
    tr: "uw_trace w1 = uw_trace w @ Ev_acquire (unit_path u) # tr"
      "comm_fail_count u1 = failures_after (io_results tr) (comm_fail_count u)"
      "r = 0 \<longleftrightarrow> comm_fail_count u1 < 5"
      "r \<noteq> 0 \<longrightarrow> (\<forall>m\<in>set (rows (u_profile u)). pool_address m < INTERNAL_POOL_SIZE \<longrightarrow>
        uw_pool w1 (pool_address m) = 0xFFFF)" by auto
  have "uw_pool w' a = uw_pool w a" if "a \<notin> pool_address ` set (rows (u_profile u))" for a
    using run_segments_other [OF run, of a] that eq(3) by (auto simp: image_iff)
  moreover have "uw_trace w' = uw_trace w @ (Ev_acquire (unit_path u) # tr @ [Ev_release (unit_path u)])"
    using tr(1) eq(3) by simp
  moreover have "io_results (Ev_acquire (unit_path u) # tr @ [Ev_release (unit_path u)]) = io_results tr"
    by simp
  ultimately show ?thesis using tr(2-4) eq by (metis uw_pool_release)
qed

section \<open>What a scan delivers\<close>

text \<open>A device with register contents \<open>dev\<close> answers every read, in the states \<open>P\<close>, which no
  operation of a scan leaves.\<close>

definition dev_regs :: "(u16 \<Rightarrow> u16) \<Rightarrow> u16 \<Rightarrow> u16 \<Rightarrow> u16 list" where
  "dev_regs dev a n = map (\<lambda>i. dev (a + of_nat i)) [0..<unat n]"

definition serves :: "'e platform \<Rightarrow> (u16 \<Rightarrow> u16) \<Rightarrow> (gw_unit \<Rightarrow> 'e unit_world \<Rightarrow> bool) \<Rightarrow> bool" where
  "serves pf dev P \<longleftrightarrow>
     (\<forall>u w a n. P u w \<longrightarrow> 0 < n \<longrightarrow> n \<le> MODBUS_MAX_READ_REGISTERS \<longrightarrow>
        (\<exists>u' w'. read_device_value pf u a n w = (0, Some (dev_regs dev a n), u', w') \<and> P u' w')) \<and>
     (\<forall>u w k pl. P u w \<longrightarrow> P (u\<lparr>comm_fail_count := k\<rparr>) w \<and> P u (w\<lparr>uw_pool := pl\<rparr>)) \<and>
     (\<forall>u w us p. P u w \<longrightarrow> P u (unit_usleep pf us w) \<and> P u (unit_acquire pf p w))"

lemma ingest_served:
  assumes wf: "profile_wf p" and r: "r < table_count p" and l: "l < 65536"
    and len: "length buf = 125" and l': "l \<le> 125"
  shows "device_map_read_to_pool (Some p) (Some (store_into (Some (dev_regs dev a (of_nat l))) buf)) a (int l) pl
           (pool_address (rows p ! r)) =
     (if unat (device_address (rows p ! r) - a) < l then dev (device_address (rows p ! r))
      else pl (pool_address (rows p ! r)))"
proof -
  let ?m = "rows p ! r" and ?b = "store_into (Some (dev_regs dev a (of_nat l))) buf"
  have m: "?m \<in> set (rows p)" using r by (simp add: table_count_def)
  have lb: "l \<le> length ?b" using l by (simp add: store_into_def dev_regs_def)
  have "List.find (\<lambda>m'. pool_address m' = pool_address ?m) (rows p) = Some ?m"
  proof (cases "List.find (\<lambda>m'. pool_address m' = pool_address ?m) (rows p)")
    case None
    with m show ?thesis by (auto simp: find_None_ball)
  next
    case (Some m')
    then have "m' \<in> set (rows p)" "pool_address m' = pool_address ?m" by (auto dest: find_SomeD)
    with profile_wf_inj [OF wf this(1) m] Some show ?thesis by simp
  qed
  with read_to_pool_exact [OF wf l lb, of a pl "pool_address ?m"]
  have "device_map_read_to_pool (Some p) (Some ?b) a (int l) pl (pool_address ?m) =
      (if unat (device_address ?m - a) < l then ?b ! unat (device_address ?m - a) else pl (pool_address ?m))" by simp
  moreover have "?b ! unat (device_address ?m - a) = dev (device_address ?m)"
    if "unat (device_address ?m - a) < l"
    using that l by (simp add: store_into_def dev_regs_def nth_append)
  ultimately show ?thesis by simp
qed

lemma segment_row_offset:
  assumes "segment_ok p (s, l)" and "s \<le> r" and "r < s + l" and "l < 65536"
  shows "unat (device_address (rows p ! r) - device_address (rows p ! s)) < l"
proof -
  define d where "d = r - s"
  have d: "d < l" "r = s + d" using assms(2,3) by (simp_all add: d_def)
  from assms(1) d have e: "unat (device_address (rows p ! r)) = unat (device_address (rows p ! s)) + d"
    unfolding segment_ok_def by auto
  then have "of_nat (unat (device_address (rows p ! r))) =
      (of_nat (unat (device_address (rows p ! s)) + d) :: u16)" by (simp only:)
  then have "device_address (rows p ! r) - device_address (rows p ! s) = of_nat d" by simp
  with d assms(4) show ?thesis by simp
qed

lemma run_segments_serves:
  assumes "serves pf dev P" and "P u w" and "profile_wf (u_profile u)"
    and "\<forall>sl\<in>set segs. segment_ok (u_profile u) sl" and "read_chunk (u_profile u) \<le> 125"
    and "length buf = 125" and "run_segments pf track segs buf u w = (rc, u', w')"
  shows "rc = 0 \<and> P u' w' \<and> (track \<and> segs \<noteq> [] \<longrightarrow> comm_fail_count u' = 0) \<and>
    (\<forall>r<table_count (u_profile u).
       uw_pool w' (pool_address (rows (u_profile u) ! r)) = dev (device_address (rows (u_profile u) ! r)) \<or>
       uw_pool w' (pool_address (rows (u_profile u) ! r)) = uw_pool w (pool_address (rows (u_profile u) ! r)) \<and>
       \<not> (\<exists>(s, l)\<in>set segs. s \<le> r \<and> r < s + l))"
  using assms(2-7)
proof (induction segs arbitrary: buf u w)
  case Nil
  then show ?case by auto
next
  case (Cons sl segs)
  let ?p = "u_profile u"
  obtain s l where sl: "sl = (s, l)" by fastforce
  let ?a = "device_address (rows ?p ! s)"
  have ok: "segment_ok ?p (s, l)" using Cons.prems(3) sl by simp
  have "unat (read_chunk ?p) \<le> 125" using Cons.prems(4) by (simp add: word_le_nat_alt)
  with ok have l: "0 < l" "l \<le> 125" unfolding segment_ok_def by auto
  then have n: "unat (of_nat l :: u16) = l" "0 < (of_nat l :: u16)" "of_nat l \<le> (125 :: u16)"
    by (simp_all add: word_less_nat_alt word_le_nat_alt)
  from assms(1) Cons.prems(1) n obtain u1 w1 where rd:
    "read_device_value pf u ?a (of_nat l) w = (0, Some (dev_regs dev ?a (of_nat l)), u1, w1)" "P u1 w1"
    unfolding serves_def by blast
  let ?b = "store_into (Some (dev_regs dev ?a (of_nat l))) buf"
  let ?u2 = "if track then u1\<lparr>comm_fail_count := 0\<rparr> else u1"
  let ?w2 = "unit_usleep pf 40000 (w1\<lparr>uw_pool := device_map_read_to_pool (Some ?p) (Some ?b) ?a (int l) (uw_pool w1)\<rparr>)"
  have same: "same_unit u u1" "uw_pool w1 = uw_pool w" using read_device_value_frame [OF rd(1)] by auto
  have seg: "scan_segment pf track s l buf u w = (True, ?b, ?u2, ?w2)"
    using rd(1) n(1) by (simp add: scan_segment_def Let_def)
  have "P ?u2 ?w2" using assms(1) rd(2) unfolding serves_def by (cases track) simp_all
  moreover have prof: "u_profile ?u2 = ?p" using same(1) by (auto dest: same_unitD)
  moreover have "length ?b = 125" using Cons.prems(5) l(2) n(1) by (simp add: store_into_def dev_regs_def)
  moreover have "run_segments pf track segs ?b ?u2 ?w2 = (rc, u', w')"
    using Cons.prems(6) sl seg by simp
  ultimately have ih: "rc = 0 \<and> P u' w' \<and> (track \<and> segs \<noteq> [] \<longrightarrow> comm_fail_count u' = 0) \<and>
    (\<forall>r<table_count ?p.
       uw_pool w' (pool_address (rows ?p ! r)) = dev (device_address (rows ?p ! r)) \<or>
       uw_pool w' (pool_address (rows ?p ! r)) = uw_pool ?w2 (pool_address (rows ?p ! r)) \<and>
       \<not> (\<exists>(s, l)\<in>set segs. s \<le> r \<and> r < s + l))"
    using Cons.IH [of ?u2 ?w2 ?b] Cons.prems(2-4) by simp
  have "segs = [] \<longrightarrow> u' = ?u2" using \<open>run_segments pf track segs ?b ?u2 ?w2 = (rc, u', w')\<close> by auto
  then have cnt: "track \<longrightarrow> comm_fail_count u' = 0" using ih by (cases "segs = []") auto
  have pool: "uw_pool ?w2 (pool_address (rows ?p ! r)) =
      (if unat (device_address (rows ?p ! r) - ?a) < l then dev (device_address (rows ?p ! r))
       else uw_pool w (pool_address (rows ?p ! r)))" if "r < table_count ?p" for r
    using ingest_served [OF Cons.prems(2) that _ Cons.prems(5) l(2), of dev ?a "uw_pool w"] l(2) same(2) by simp
  have off: "unat (device_address (rows ?p ! r) - ?a) < l" if "s \<le> r" "r < s + l" for r
    using segment_row_offset [OF ok that] l(2) by simp
  show ?case
  proof (intro conjI allI impI)
    fix r assume r: "r < table_count ?p"
    show "uw_pool w' (pool_address (rows ?p ! r)) = dev (device_address (rows ?p ! r)) \<or>
       uw_pool w' (pool_address (rows ?p ! r)) = uw_pool w (pool_address (rows ?p ! r)) \<and>
       \<not> (\<exists>(s, l)\<in>set (sl # segs). s \<le> r \<and> r < s + l)"
      using ih r pool [OF r] off [of r] sl by (cases "unat (device_address (rows ?p ! r) - ?a) < l") auto
  qed (use ih cnt in auto)
qed

lemma scan_served:
  assumes "serves pf dev P" and "P u w" and "profile_wf (u_profile u)" and "0 < table_count (u_profile u)"
    and "read_chunk (u_profile u) \<le> MODBUS_MAX_READ_REGISTERS"
    and "read_profile_to_pool pf True u w = (rc, u', w')"
  shows "rc = 0 \<and> comm_fail_count u' = 0 \<and>
    (\<forall>a. uw_pool w' a = (case List.find (\<lambda>m. pool_address m = a) (rows (u_profile u)) of
       None \<Rightarrow> uw_pool w a | Some m \<Rightarrow> dev (device_address m)))"
proof -
  let ?p = "u_profile u" and ?w0 = "unit_acquire pf (unit_path u) w"
  obtain r u1 w1 where run: "run_segments pf True (profile_segments ?p) (replicate 125 0) u ?w0 = (r, u1, w1)"
    by (metis prod.exhaust)
  have "P u ?w0" using assms(1,2) unfolding serves_def by simp
  from run_segments_serves [OF assms(1) this assms(3) _ assms(5) _ run] profile_segments_ok
  have s: "r = 0" "profile_segments ?p \<noteq> [] \<longrightarrow> comm_fail_count u1 = 0"
    "\<And>r. r < table_count ?p \<Longrightarrow> uw_pool w1 (pool_address (rows ?p ! r)) = dev (device_address (rows ?p ! r)) \<or>
       \<not> (\<exists>(s, l)\<in>set (profile_segments ?p). s \<le> r \<and> r < s + l)" by auto
  have ne: "profile_segments ?p \<noteq> []" using profile_segments_cover [OF assms(4)] by auto
  from assms(4,6) run have eq: "rc = r" "u' = u1" "uw_pool w' = uw_pool w1"
    by (auto simp: read_profile_to_pool_segments)
  have "uw_pool w1 a = (case List.find (\<lambda>m. pool_address m = a) (rows ?p) of
       None \<Rightarrow> uw_pool w a | Some m \<Rightarrow> dev (device_address m))" for a
  proof (cases "List.find (\<lambda>m. pool_address m = a) (rows ?p)")
    case None
    then have "\<And>m. m \<in> set (rows ?p) \<Longrightarrow> pool_address m \<noteq> a" by (auto simp: find_None_ball)
    with run_segments_other [OF run, of a] None show ?thesis by simp
  next
    case (Some m)
    then have m: "m \<in> set (rows ?p)" "pool_address m = a" by (auto dest: find_SomeD)
    then obtain i where i: "i < table_count ?p" "rows ?p ! i = m" by (auto simp: in_set_conv_nth table_count_def)
    with s(3) [OF i(1)] profile_segments_cover [OF i(1)] Some m show ?thesis by auto
  qed
  with s ne eq show ?thesis by simp
qed

text \<open>
  C2. When the device answers, a scan of a well-formed profile succeeds and resets the failure
  counter, every row's pool slot then holds the device's register at the row's address, and
  every other slot is unchanged.
\<close>

theorem scan_delivers_device_state:
  assumes "serves pf dev P" and "P u w" and "profile_wf (u_profile u)" and "0 < table_count (u_profile u)"
    and "read_chunk (u_profile u) \<le> MODBUS_MAX_READ_REGISTERS"
    and "read_profile_to_pool pf True u w = (rc, u', w')"
  shows "rc = 0 \<and> comm_fail_count u' = 0 \<and>
    (\<forall>a. uw_pool w' a = (case List.find (\<lambda>m. pool_address m = a) (rows (u_profile u)) of
       None \<Rightarrow> uw_pool w a | Some m \<Rightarrow> dev (device_address m)))"
  by (rule scan_served [OF assms])

section \<open>A scan that does not count failures\<close>

lemma scan_segment_untracked:
  assumes "scan_segment pf False s l buf u w = (go, buf', u', w')"
  shows "same_unit u u' \<and> (\<exists>r tr. uw_trace w' = uw_trace w @ tr \<and> io_results tr = [r] \<and>
    io_calls tr = [segment_call (u_profile u) (s, l)] \<and> (go \<longleftrightarrow> r = 0))"
  using assms
proof (cases rule: scan_segment_cases)
  case (ok out u1 w1)
  let ?t = "read_events u (device_address (rows (u_profile u) ! s)) (of_nat l) 0 @ [Ev_sleep 40000]"
  have "uw_trace w' = uw_trace w @ ?t" using ok read_device_value_frame [OF ok(1)] by simp
  moreover have "same_unit u u'" using ok read_device_value_frame [OF ok(1)] by simp
  moreover have "io_results ?t = [0]" "io_calls ?t = [segment_call (u_profile u) (s, l)]"
    by (simp_all add: segment_call_def)
  ultimately show ?thesis using ok(2) by blast
next
  case (aborted rc out)
  have "io_calls (read_events u (device_address (rows (u_profile u) ! s)) (of_nat l) rc) =
      [segment_call (u_profile u) (s, l)]" by (simp add: segment_call_def)
  with aborted read_device_value_frame [OF aborted(1)] show ?thesis by (metis io_results_read)
qed simp_all

lemma run_segments_untracked:
  assumes "run_segments pf False segs buf u w = (rc, u', w')"
  shows "same_unit u u' \<and>
    (\<exists>tr k. uw_trace w' = uw_trace w @ tr \<and> k \<le> length segs \<and> (segs \<noteq> [] \<longrightarrow> 0 < k) \<and>
       io_calls tr = map (segment_call (u_profile u)) (take k segs) \<and>
       (rc = 0 \<longleftrightarrow> k = length segs \<and> (\<forall>r\<in>set (io_results tr). r = 0)))"
  using assms
proof (induction segs arbitrary: buf u w)
  case Nil
  then show ?case by auto
next
  case (Cons sl segs)
  obtain go buf1 u1 w1 where seg: "scan_segment pf False (fst sl) (snd sl) buf u w = (go, buf1, u1, w1)"
    by (metis prod.exhaust)
  from scan_segment_untracked [OF seg] obtain r t1 where s: "same_unit u u1" "uw_trace w1 = uw_trace w @ t1"
    "io_results t1 = [r]" "io_calls t1 = [segment_call (u_profile u) sl]" "go \<longleftrightarrow> r = 0" by auto
  show ?case
  proof (cases go)
    case True
    with Cons.prems seg have "run_segments pf False segs buf1 u1 w1 = (rc, u', w')" by simp
    from Cons.IH [OF this] same_unitD(2) [OF s(1)] obtain tr k where ih: "same_unit u1 u'"
      "uw_trace w' = uw_trace w1 @ tr" "k \<le> length segs"
      "io_calls tr = map (segment_call (u_profile u)) (take k segs)"
      "rc = 0 \<longleftrightarrow> k = length segs \<and> (\<forall>r\<in>set (io_results tr). r = 0)" by auto
    have "same_unit u u'" using s(1) ih(1) by (rule same_unit_trans)
    moreover have "uw_trace w' = uw_trace w @ (t1 @ tr)" using s(2) ih(2) by simp
    moreover have "io_calls (t1 @ tr) = map (segment_call (u_profile u)) (take (Suc k) (sl # segs))"
      using s(4) ih(4) by simp
    ultimately show ?thesis using ih(3,5) s(3,5) True
      by (intro conjI exI [of _ "t1 @ tr"] exI [of _ "Suc k"]) simp_all
  next
    case False
    with Cons.prems seg have "rc = -1" "u' = u1" "w' = w1" by auto
    with s False show ?thesis
      by (intro conjI exI [of _ t1] exI [of _ "Suc 0"]) auto
  qed
qed

end
