(* ===== verification/Unit_Bus.thy ===== *)
theory Unit_Bus
  imports Unit_Scan
begin

text \<open>
  The bus discipline of a unit's thread: every exchange on a serial line happens between an
  acquire and the matching release of the line's path, and every operation gives the bus back.
  The discipline is a predicate on the events an operation adds; it composes over sequences
  and brackets, so each operation of \<open>Unit_Core\<close> and of the two families needs one lemma.
\<close>

section \<open>Bracketed events\<close>

definition on_wire :: "io_call \<Rightarrow> bool" where
  "on_wire c = (case c of Call_connect \<Rightarrow> False | Call_disconnect \<Rightarrow> False | _ \<Rightarrow> True)"

text \<open>How deep the thread holds path \<open>p\<close> after the events; \<^const>\<open>None\<close> if it used the line
  without holding it or released what it did not hold.\<close>

fun bus_depth :: "string option \<Rightarrow> io_event list \<Rightarrow> nat \<Rightarrow> nat option" where
  "bus_depth p [] d = Some d"
| "bus_depth p (Ev_acquire q # tr) d = bus_depth p tr (if q = p then d + 1 else d)"
| "bus_depth p (Ev_release q # tr) d =
     (if q = p then (if d = 0 then None else bus_depth p tr (d - 1)) else bus_depth p tr d)"
| "bus_depth p (Ev_rtu c rc # tr) d = (if on_wire c \<and> d = 0 then None else bus_depth p tr d)"
| "bus_depth p (Ev_tcp c rc # tr) d = bus_depth p tr d"
| "bus_depth p (Ev_sleep n # tr) d = bus_depth p tr d"

definition balanced :: "string option \<Rightarrow> io_event list \<Rightarrow> bool" where
  "balanced p tr \<longleftrightarrow> (\<forall>d. bus_depth p tr d = Some d)"

definition inside :: "string option \<Rightarrow> io_event list \<Rightarrow> bool" where
  "inside p tr \<longleftrightarrow> (\<forall>d>0. bus_depth p tr d = Some d)"

lemma bus_depth_append:
  "bus_depth p (a @ b) d = (case bus_depth p a d of None \<Rightarrow> None | Some d' \<Rightarrow> bus_depth p b d')"
  by (induction p a d rule: bus_depth.induct) auto

lemma balanced_inside: "balanced p tr \<Longrightarrow> inside p tr"
  by (simp add: balanced_def inside_def)

lemma balanced_append: "balanced p a \<Longrightarrow> balanced p b \<Longrightarrow> balanced p (a @ b)"
  by (simp add: balanced_def bus_depth_append)

lemma inside_append: "inside p a \<Longrightarrow> inside p b \<Longrightarrow> inside p (a @ b)"
  by (simp add: inside_def bus_depth_append)

lemma balanced_bracket: "inside p tr \<Longrightarrow> balanced p (Ev_acquire p # tr @ [Ev_release p])"
  by (simp add: balanced_def inside_def bus_depth_append)

lemma balanced_simps [simp]:
  "balanced p []" "balanced p [Ev_sleep n]" "balanced p [Ev_tcp c rc]"
  "balanced p [Ev_rtu Call_connect rc]" "balanced p [Ev_rtu Call_disconnect rc]"
  by (simp_all add: balanced_def on_wire_def)

lemma inside_simps [simp]: "inside p []" "inside p [Ev_rtu c rc]" "inside p [Ev_tcp c rc]" "inside p [Ev_sleep n]"
  by (auto simp: inside_def)

lemma inside_plain [simp]: "inside p [plain_event u c rc]"
  by (simp add: plain_event_def)

lemma balanced_read: "balanced (unit_path u) (read_events u a n rc)"
  by (simp add: read_events_def balanced_def)

section \<open>Disciplined operations\<close>

definition traced :: "(io_event list \<Rightarrow> bool) \<Rightarrow> 'e unit_world \<Rightarrow> 'e unit_world \<Rightarrow> bool" where
  "traced Q w w' \<longleftrightarrow> (\<exists>tr. uw_trace w' = uw_trace w @ tr \<and> Q tr)"

lemma tracedI: "uw_trace w' = uw_trace w @ tr \<Longrightarrow> Q tr \<Longrightarrow> traced Q w w'"
  unfolding traced_def by blast

lemma traced_refl [simp]: "traced (balanced p) w w" "traced (inside p) w w"
  by (auto intro!: tracedI [of _ _ "[]"])

lemma traced_balanced_trans:
  assumes "traced (balanced p) w w1" and "traced (balanced p) w1 w2"
  shows "traced (balanced p) w w2"
proof -
  from assms obtain a b where "uw_trace w1 = uw_trace w @ a" "uw_trace w2 = uw_trace w1 @ b"
    "balanced p a" "balanced p b" unfolding traced_def by blast
  then show ?thesis by (intro tracedI [of _ _ "a @ b"] balanced_append) simp_all
qed

lemma traced_inside_trans:
  assumes "traced (inside p) w w1" and "traced (inside p) w1 w2"
  shows "traced (inside p) w w2"
proof -
  from assms obtain a b where "uw_trace w1 = uw_trace w @ a" "uw_trace w2 = uw_trace w1 @ b"
    "inside p a" "inside p b" unfolding traced_def by blast
  then show ?thesis by (intro tracedI [of _ _ "a @ b"] inside_append) simp_all
qed

lemma traced_inside: "traced (balanced p) w w' \<Longrightarrow> traced (inside p) w w'"
  unfolding traced_def using balanced_inside by blast

lemma traced_bracket:
  assumes "traced (inside p) (unit_acquire pf p w) w1"
  shows "traced (balanced p) w (unit_release pf p w1)"
proof -
  from assms obtain tr where "uw_trace w1 = uw_trace w @ Ev_acquire p # tr" "inside p tr"
    unfolding traced_def by auto
  with balanced_bracket [of p tr] show ?thesis
    by (intro tracedI [where tr = "Ev_acquire p # tr @ [Ev_release p]"]) simp_all
qed

lemma traced_sleep [simp]:
  "traced (balanced p) w (unit_usleep pf us w)" "traced (inside p) w (unit_usleep pf us w)"
  by (auto intro!: tracedI [of _ _ "[Ev_sleep us]"])

lemma traced_sleep_after:
  "traced (balanced p) w w1 \<Longrightarrow> traced (balanced p) w (unit_usleep pf us w1)"
  "traced (inside p) w w1 \<Longrightarrow> traced (inside p) w (unit_usleep pf us w1)"
  using traced_balanced_trans traced_inside_trans traced_sleep by blast+

lemma traced_pool [simp]:
  "traced Q w (pool_write a v w') \<longleftrightarrow> traced Q w w'"
  "traced Q (pool_write a v w) w' \<longleftrightarrow> traced Q w w'"
  "traced Q w (w'\<lparr>uw_pool := pl\<rparr>) \<longleftrightarrow> traced Q w w'"
  "traced Q (w\<lparr>uw_pool := pl\<rparr>) w' \<longleftrightarrow> traced Q w w'"
  "traced Q w (mark_unreachable p w') \<longleftrightarrow> traced Q w w'"
  by (simp_all add: traced_def)

text \<open>Operations keep the unit's configuration and profile.\<close>

definition keeps :: "gw_unit \<Rightarrow> gw_unit \<Rightarrow> bool" where
  "keeps u u' \<longleftrightarrow> u_cfg u' = u_cfg u \<and> u_profile u' = u_profile u \<and> running u' = running u"

lemma keeps_refl [simp]: "keeps u u" by (simp add: keeps_def)
lemma keeps_trans: "keeps u v \<Longrightarrow> keeps v w \<Longrightarrow> keeps u w" by (simp add: keeps_def)
lemma keeps_path: "keeps u u' \<Longrightarrow> unit_path u' = unit_path u" by (simp add: keeps_def unit_path_def)
lemma keeps_link: "same_link u u' \<Longrightarrow> keeps u u'" by (simp add: keeps_def same_linkD)
lemma keeps_same: "same_unit u u' \<Longrightarrow> keeps u u'" by (simp add: keeps_def same_unitD)

lemma keeps_simps [simp]:
  "keeps u (u'\<lparr>u_tcp := t\<rparr>) = keeps u u'" "keeps u (u'\<lparr>u_rtu := r\<rparr>) = keeps u u'"
  "keeps u (u'\<lparr>comm_fail_count := n\<rparr>) = keeps u u'" "keeps u (u'\<lparr>connection_state := s\<rparr>) = keeps u u'"
  "keeps u (u'\<lparr>u_queue := q\<rparr>) = keeps u u'" "keeps u (u'\<lparr>init_requested := b\<rparr>) = keeps u u'"
  "keeps u (u'\<lparr>reboot_requested := b\<rparr>) = keeps u u'"
  by (auto simp: keeps_def)

lemma read_device_value_bus:
  assumes "read_device_value pf u a n w = (rc, out, u', w')"
  shows "keeps u u' \<and> traced (balanced (unit_path u)) w w'"
  using read_device_value_frame [OF assms] balanced_read keeps_same by (auto intro: tracedI)

lemma write_registers_locked_bus:
  assumes "write_registers_locked pf u a vs n m w = (rc, u', w')"
  shows "keeps u u' \<and> traced (inside (unit_path u)) w w'"
  using write_registers_locked_frame [OF assms] keeps_same
  by (cases "write_call a vs n m") (auto intro: tracedI)

lemma write_registers_to_device_bus:
  assumes "write_registers_to_device pf u a vs n m w = (rc, u', w')"
  shows "keeps u u' \<and> traced (balanced (unit_path u)) w w'"
proof -
  let ?p = "unit_path u"
  obtain r u1 w1 where l: "write_registers_locked pf u a vs n m (unit_acquire pf ?p w) = (r, u1, w1)"
    by (metis prod.exhaust)
  note b = write_registers_locked_bus [OF l]
  have "traced (inside ?p) (unit_acquire pf ?p w) (if r = 0 then unit_usleep pf 70000 w1 else w1)"
    using b by (simp add: traced_sleep_after)
  from traced_bracket [OF this] b l assms show ?thesis
    by (auto simp: write_registers_to_device_def Let_def unit_path_def)
qed

lemma scan_segment_bus:
  assumes "scan_segment pf track s l buf u w = (go, buf', u', w')"
  shows "keeps u u' \<and> traced (balanced (unit_path u)) w w'"
proof
  show "keeps u u'" using scan_segment_same [OF assms] by (rule keeps_link)
  obtain rc where "uw_trace w' = uw_trace w @
      read_events u (device_address (rows (u_profile u) ! s)) (of_nat l) rc @ (if go then [Ev_sleep 40000] else [])"
    using scan_segment_events [OF assms] by blast
  then show "traced (balanced (unit_path u)) w w'"
    by (rule tracedI) (auto intro: balanced_append balanced_read)
qed

lemma run_segments_bus:
  assumes "run_segments pf track segs buf u w = (rc, u', w')"
  shows "keeps u u' \<and> traced (balanced (unit_path u)) w w'"
  using assms
proof (induction segs arbitrary: buf u w)
  case Nil
  then show ?case by simp
next
  case (Cons sl segs)
  obtain go buf1 u1 w1 where seg: "scan_segment pf track (fst sl) (snd sl) buf u w = (go, buf1, u1, w1)"
    by (metis prod.exhaust)
  note b = scan_segment_bus [OF seg]
  show ?case
  proof (cases go)
    case True
    with Cons.prems seg have "run_segments pf track segs buf1 u1 w1 = (rc, u', w')" by simp
    from Cons.IH [OF this] b show ?thesis
      by (auto simp: keeps_path intro: keeps_trans traced_balanced_trans)
  next
    case False
    with Cons.prems seg b show ?thesis by auto
  qed
qed

lemma read_profile_to_pool_bus:
  assumes "read_profile_to_pool pf track u w = (rc, u', w')"
  shows "keeps u u' \<and> traced (balanced (unit_path u)) w w'"
proof (cases "table_count (u_profile u) = 0")
  case True
  with assms show ?thesis by (simp add: read_profile_to_pool_segments)
next
  case False
  let ?p = "unit_path u"
  obtain r u1 w1 where run: "run_segments pf track (profile_segments (u_profile u)) (replicate 125 0) u
      (unit_acquire pf ?p w) = (r, u1, w1)" by (metis prod.exhaust)
  note b = run_segments_bus [OF run]
  from False assms run have "u' = u1" "w' = unit_release pf ?p w1"
    by (simp_all add: read_profile_to_pool_segments)
  with b traced_bracket [OF traced_inside] show ?thesis by blast
qed

lemma write_queued_bus:
  assumes "write_queued pf c u w = (u', w')"
  shows "keeps u u' \<and> traced (inside (unit_path u)) w w'"
proof -
  obtain rc u1 w1 where l:
    "write_registers_locked pf u (cmd_addr c) (cmd_values c) (cmd_count c) (cmd_mode c) w = (rc, u1, w1)"
    by (metis prod.exhaust)
  from write_registers_locked_bus [OF l] assms l show ?thesis
    by (auto simp: write_queued_def traced_sleep_after)
qed

lemma unit_pop_bus:
  assumes "unit_pop pf ma u w = (oc, u', w')"
  shows "keeps u u' \<and> uw_trace w' = uw_trace w \<and> uw_pool w' = uw_pool w"
  using assms by (auto simp: unit_pop_def settle_pushes_def split: prod.splits option.splits)

lemma drain_loop_bus:
  fixes w :: "'e unit_world"
  assumes "drain_loop pf ma c u w = Some (u', w')"
  shows "keeps u u' \<and> traced (inside (unit_path u)) w w'"
proof -
  have "keeps u (fst (u', w')) \<and> traced (inside (unit_path u)) w (snd (u', w'))"
  proof (rule drain_loop.raw_induct [OF _ assms,
        where P = "\<lambda>pf ma c u w r. keeps u (fst r) \<and> traced (inside (unit_path u)) w (snd r)"])
    fix rec :: "'e platform \<Rightarrow> (u16 \<Rightarrow> bool) \<Rightarrow> write_cmd \<Rightarrow> gw_unit \<Rightarrow> 'e unit_world \<Rightarrow>
          (gw_unit \<times> 'e unit_world) option"
      and pf ma c u w r
    assume IH: "\<And>pf ma c u w r. rec pf ma c u w = Some r \<Longrightarrow>
        keeps u (fst r) \<and> traced (inside (unit_path u)) w (snd r)"
    assume body: "(let (u1, w1) = write_queued pf c u w
      in case unit_pop pf ma u1 w1 of (None, u2, w2) \<Rightarrow> Some (u2, w2)
         | (Some c', u2, w2) \<Rightarrow> rec pf ma c' u2 w2) = Some r"
    obtain u1 w1 where q: "write_queued pf c u w = (u1, w1)" by fastforce
    obtain oc u2 w2 where p: "unit_pop pf ma u1 w1 = (oc, u2, w2)" by (metis prod.exhaust)
    note b = write_queued_bus [OF q] unit_pop_bus [OF p]
    then have b2: "keeps u u2" "traced (inside (unit_path u)) w w2"
      by (auto intro: keeps_trans simp: traced_def)
    show "keeps u (fst r) \<and> traced (inside (unit_path u)) w (snd r)"
    proof (cases oc)
      case None
      with body q p b2 show ?thesis by auto
    next
      case (Some c')
      with body q p have "rec pf ma c' u2 w2 = Some r" by simp
      from IH [OF this] b2 show ?thesis
        by (auto simp: keeps_path intro: keeps_trans traced_inside_trans)
    qed
  qed
  then show ?thesis by simp
qed

lemma drain_queue_bus:
  assumes "drain_queue pf ma u w = Some (u', w')"
  shows "keeps u u' \<and> traced (balanced (unit_path u)) w w'"
proof -
  obtain oc u1 w1 where p: "unit_pop pf ma u w = (oc, u1, w1)" by (metis prod.exhaust)
  note b = unit_pop_bus [OF p]
  show ?thesis
  proof (cases oc)
    case None
    with assms p b show ?thesis by (auto simp: drain_queue_def traced_def intro: exI [of _ "[]"])
  next
    case (Some c)
    let ?p = "unit_path u"
    have path: "bus_path_of (u_cfg u1) = ?p" using b by (simp add: keeps_def unit_path_def)
    with assms p Some obtain u2 w2 where d: "drain_loop pf ma c u1 (unit_acquire pf ?p w1) = Some (u2, w2)"
      and eq: "u' = u2" "w' = unit_release pf ?p (unit_usleep pf 70000 w2)"
      by (auto simp: drain_queue_def Let_def split: option.splits)
    from drain_loop_bus [OF d] b have k: "keeps u1 u2"
      "traced (inside ?p) (unit_acquire pf ?p w1) (unit_usleep pf 70000 w2)"
      by (auto simp: keeps_path traced_sleep_after)
    from traced_bracket [OF k(2)] k(1) b eq show ?thesis
      by (auto simp: traced_def intro: keeps_trans)
  qed
qed

lemma drain_and_scan_bus:
  assumes "drain_and_scan pf ma u w = Some (rc, u', w')"
  shows "keeps u u' \<and> traced (balanced (unit_path u)) w w'"
proof -
  from assms obtain u1 w1 where d: "drain_queue pf ma u w = Some (u1, w1)"
    by (auto simp: drain_and_scan_def split: option.splits)
  obtain r u2 w2 where s: "read_profile_to_pool pf True u1 w1 = (r, u2, w2)" by (metis prod.exhaust)
  note b = drain_queue_bus [OF d]
  have k: "keeps u u2" "traced (balanced (unit_path u)) w w2"
    using b read_profile_to_pool_bus [OF s] by (auto simp: keeps_path intro: keeps_trans traced_balanced_trans)
  with assms d s b show ?thesis
    by (auto simp: drain_and_scan_def traced_sleep_after split: if_splits)
qed

lemma close_rtu_bus:
  assumes "close_rtu pf u w = (u', w')"
  shows "keeps u u' \<and> traced (balanced (unit_path u)) w w' \<and> uw_pool w' = uw_pool w \<and>
    comm_fail_count u' = comm_fail_count u \<and> connection_state u' = connection_state u"
  using assms by (auto simp: close_rtu_def split: prod.splits intro!: tracedI)

lemma unit_disconnect_bus:
  assumes "unit_disconnect pf u w = (u', w')"
  shows "keeps u u' \<and> traced (balanced (unit_path u)) w w' \<and> uw_pool w' = uw_pool w \<and>
    comm_fail_count u' = comm_fail_count u \<and> connection_state u' = connection_state u"
  using assms close_rtu_bus [of pf u w u' w']
  by (auto simp: unit_disconnect_def split: if_splits prod.splits intro!: tracedI)

lemma open_tcp_bus:
  assumes "open_tcp pf u w = (rc, u', w')"
  shows "keeps u u' \<and> traced (balanced (unit_path u)) w w' \<and> (rc = 0 \<or> rc = -1)"
  using assms by (auto simp: open_tcp_def Let_def split: prod.splits if_splits intro!: tracedI)

lemma open_rtu_bus:
  assumes "open_rtu pf u w = (rc, u', w')"
  shows "keeps u u' \<and> traced (balanced (unit_path u)) w w' \<and> (rc = 0 \<or> rc = -1)"
  using assms by (auto simp: open_rtu_def Let_def split: prod.splits if_splits intro!: tracedI)

lemma probe_unit_bus:
  assumes "probe_unit pf u a w = (rc, w')"
  shows "traced (inside p) w w'"
  using assms by (auto simp: probe_unit_def split: prod.splits intro!: tracedI)

end
