(* ===== verification/Unit_Life.thy ===== *)
theory Unit_Life
  imports Unit_Bus
begin

text \<open>
  The waiting loop, the callbacks and the poll thread, the contents of a drain of the command
  queue, and the start of a family's units.
\<close>

section \<open>Waiting\<close>

text \<open>The number of sleeps a full delay of \<open>d\<close> ms takes.\<close>

definition delay_steps :: "u32 \<Rightarrow> nat" where
  "delay_steps d = (unat d + 99) div 100"

lemma unat_hundreds: "100 * j \<le> 4294967200 \<Longrightarrow> unat (of_nat (100 * j) :: u32) = 100 * j"
  by (simp add: unat_of_nat del: of_nat_mult)

lemma unat_interval: "unat (100 * 1000 :: u32) = 100000"
  by simp

lemma hundreds_step: "of_nat (100 * j) + 100 = (of_nat (100 * Suc j) :: u32)"
  by simp

lemma hundreds_less:
  assumes "unat d \<le> 4294967200" and "j \<le> delay_steps d"
  shows "(of_nat (100 * j) :: u32) < d \<longleftrightarrow> j < delay_steps d"
proof -
  have "100 * j \<le> 4294967200" using assms by (simp add: delay_steps_def)
  from unat_hundreds [OF this] have "(of_nat (100 * j) :: u32) < d \<longleftrightarrow> 100 * j < unat d"
    by (simp add: word_less_nat_alt del: of_nat_mult)
  then show ?thesis by (auto simp: delay_steps_def)
qed

lemma sleep_loop_steps:
  assumes "unat d \<le> 4294967200" and "j \<le> delay_steps d"
  shows "\<exists>w' k. sleep_loop pf u d (of_nat (100 * j)) w = Some w' \<and> j + k \<le> delay_steps d \<and>
     (j + k < delay_steps d \<longrightarrow> \<not> still_running pf u w') \<and> uw_pool w' = uw_pool w \<and>
     uw_trace w' = uw_trace w @ replicate k (Ev_sleep 100000)"
  using assms(2)
proof (induction "delay_steps d - j" arbitrary: j w)
  case 0
  then have "\<not> (of_nat (100 * j) :: u32) < d" using hundreds_less [OF assms(1), of j] by simp
  moreover have "j = delay_steps d" using 0 by simp
  ultimately show ?case by (subst sleep_loop.simps) (simp del: of_nat_mult)
next
  case (Suc n)
  show ?case
  proof (cases "still_running pf u w")
    case True
    let ?w = "unit_usleep pf 100000 w"
    have lt: "(of_nat (100 * j) :: u32) < d"
      using Suc.hyps(2) Suc.prems hundreds_less [OF assms(1), of j] by simp
    have "sleep_loop pf u d (of_nat (100 * j)) w = sleep_loop pf u d (of_nat (100 * Suc j)) ?w"
      using True lt by (subst sleep_loop.simps) (simp only: unat_interval hundreds_step simp_thms if_True)
    moreover have "n = delay_steps d - Suc j" "Suc j \<le> delay_steps d" using Suc.hyps(2) by simp_all
    ultimately obtain w' k where "sleep_loop pf u d (of_nat (100 * j)) w = Some w'" "Suc j + k \<le> delay_steps d"
      "Suc j + k < delay_steps d \<longrightarrow> \<not> still_running pf u w'" "uw_pool w' = uw_pool ?w"
      "uw_trace w' = uw_trace ?w @ replicate k (Ev_sleep 100000)"
      using Suc.hyps(1) [of "Suc j" ?w] by auto
    then show ?thesis by (intro exI [of _ w'] exI [of _ "Suc k"]) auto
  next
    case False
    then show ?thesis using Suc.prems by (intro exI [of _ w] exI [of _ 0]) (subst sleep_loop.simps, simp)
  qed
qed

lemma interruptible_sleep_result:
  "\<exists>w' k. interruptible_sleep_ms pf u MODBUS_DEFAULT_RECONNECT_DELAY_MS w = Some w' \<and> k \<le> 50 \<and>
     uw_pool w' = uw_pool w \<and> uw_trace w' = uw_trace w @ replicate k (Ev_sleep 100000)"
  using sleep_loop_steps [of 5000 0 pf u w] by (auto simp: interruptible_sleep_ms_def delay_steps_def)

text \<open>
  An interruptible wait of up to 4294967200 ms always ends: it sleeps 100 ms at a time, as
  often as the duration rounded up asks for unless the unit is being stopped, and it sleeps no
  more once it has seen the stop.
\<close>

theorem interruptible_sleep_bounded:
  assumes "unat d \<le> 4294967200"
  shows "\<exists>w' k. interruptible_sleep_ms pf u d w = Some w' \<and> k \<le> delay_steps d \<and>
     (k < delay_steps d \<longrightarrow> \<not> still_running pf u w') \<and> uw_pool w' = uw_pool w \<and>
     uw_trace w' = uw_trace w @ replicate k (Ev_sleep 100000)"
  using sleep_loop_steps [OF assms, of 0 pf u w] by (simp add: interruptible_sleep_ms_def)

lemma balanced_sleeps: "balanced p (replicate k (Ev_sleep n))"
  by (induction k) (simp_all add: balanced_def)

lemma interruptible_sleep_bus:
  assumes "interruptible_sleep_ms pf u MODBUS_DEFAULT_RECONNECT_DELAY_MS w = Some w'"
  shows "traced (balanced p) w w' \<and> uw_pool w' = uw_pool w"
  using interruptible_sleep_result [of pf u w] assms balanced_sleeps by (auto intro: tracedI)

section \<open>Callbacks\<close>

lemma error_callback_returns: "error_callback pf reg st u w \<noteq> None"
proof -
  obtain u1 w1 where d: "unit_disconnect pf u w = (u1, w1)" by fastforce
  obtain u2 w2 where s: "unit_set_connection reg st (u1\<lparr>comm_fail_count := 0\<rparr>) w1 = (u2, w2)" by fastforce
  obtain w3 where "interruptible_sleep_ms pf u2 MODBUS_DEFAULT_RECONNECT_DELAY_MS w2 = Some w3"
    using interruptible_sleep_result by blast
  with d s show ?thesis by (simp add: error_callback_def)
qed

lemma error_callback_result:
  assumes "error_callback pf reg st u w = Some (u', w')"
  shows "keeps u u' \<and> traced (balanced (unit_path u)) w w' \<and> comm_fail_count u' = 0 \<and>
    connection_state u' = st \<and> uw_pool w' = snd (pool_write_register (uw_pool w) reg (of_int st))"
proof -
  obtain u1 w1 where d: "unit_disconnect pf u w = (u1, w1)" by fastforce
  note b = unit_disconnect_bus [OF d]
  let ?u2 = "u1\<lparr>comm_fail_count := 0, connection_state := st\<rparr>" and ?w2 = "pool_write reg (of_int st) w1"
  from assms d have s: "interruptible_sleep_ms pf ?u2 MODBUS_DEFAULT_RECONNECT_DELAY_MS ?w2 = Some w'" "u' = ?u2"
    by (auto simp: error_callback_def unit_set_connection_def split: option.splits)
  from interruptible_sleep_bus [OF s(1), of "unit_path u"] b s(2) show ?thesis
    by (auto simp: pool_write_def intro: traced_balanced_trans)
qed

lemma init_callback_result:
  assumes "init_callback connect pf reg u w = (rc, u', w')"
    and "\<forall>r u1 w1. connect pf u w = (r, u1, w1) \<longrightarrow> keeps u u1 \<and> traced (balanced (unit_path u)) w w1"
  shows "keeps u u' \<and> traced (balanced (unit_path u)) w w' \<and> (rc = 0 \<or> rc = -1) \<and>
    (rc = 0 \<longrightarrow> comm_fail_count u' = 0 \<and> connection_state u' = CONNECTION_CONNECTED \<and>
       (reg < INTERNAL_POOL_SIZE \<longrightarrow> uw_pool w' reg = 1))"
proof -
  obtain r u1 w1 where c: "connect pf u w = (r, u1, w1)" by (metis prod.exhaust)
  from assms c show ?thesis
    by (auto simp: init_callback_def unit_set_connection_def pool_write_def pool_write_register_def
        split: if_splits)
qed

section \<open>The poll thread\<close>

text \<open>What a family's callbacks guarantee.\<close>

definition disciplined_callbacks :: "'e unit_callbacks \<Rightarrow> bool" where
  "disciplined_callbacks cb \<longleftrightarrow>
     (\<forall>u w rc u' w'. cb_init cb u w = (rc, u', w') \<longrightarrow>
        keeps u u' \<and> traced (balanced (unit_path u)) w w') \<and>
     (\<forall>u w rc u' w'. cb_process cb u w = Some (rc, u', w') \<longrightarrow>
        keeps u u' \<and> traced (balanced (unit_path u)) w w') \<and>
     (\<forall>u w st u' w'. cb_error cb st u w = Some (u', w') \<longrightarrow>
        keeps u u' \<and> traced (balanced (unit_path u)) w w')"

lemma traced_keeps_step:
  assumes "keeps u u1 \<and> traced (balanced (unit_path u)) w w1"
    and "keeps u1 u2 \<and> traced (balanced (unit_path u1)) w1 w2"
  shows "keeps u u2 \<and> traced (balanced (unit_path u)) w w2"
  using assms by (auto simp: keeps_path intro: keeps_trans traced_balanced_trans)

lemma thread_loop_bus:
  fixes w :: "'e unit_world" and pf :: "'e platform"
  assumes "thread_loop pf cb c u w = Some (u', w')" and "disciplined_callbacks cb"
  shows "keeps u u' \<and> traced (balanced (unit_path u)) w w'"
proof -
  let ?Q = "\<lambda>u w r. keeps u (fst r) \<and> traced (balanced (unit_path u)) w (snd r)"
  have "disciplined_callbacks cb \<longrightarrow> ?Q u w (u', w')"
  proof (rule thread_loop.raw_induct [OF _ assms(1),
        where P = "\<lambda>pf cb c u w r. disciplined_callbacks cb \<longrightarrow>
           keeps u (fst r) \<and> traced (balanced (unit_path u)) w (snd r)"], rule impI)
    fix rec :: "'e platform \<Rightarrow> 'e unit_callbacks \<Rightarrow> bool \<Rightarrow> gw_unit \<Rightarrow> 'e unit_world \<Rightarrow>
          (gw_unit \<times> 'e unit_world) option"
      and pf :: "'e platform" and cb :: "'e unit_callbacks" and c u and w :: "'e unit_world" and r
    assume IH: "\<And>pf cb c u w r. rec pf cb c u w = Some r \<Longrightarrow> disciplined_callbacks cb \<longrightarrow>
        keeps u (fst r) \<and> traced (balanced (unit_path u)) w (snd r)"
    assume cb: "disciplined_callbacks cb"
    assume body: "(if c
        then if still_running pf u w
             then case cb_process cb u w of None \<Rightarrow> None
                  | Some (rc, u1, w1) \<Rightarrow>
                      if rc \<noteq> 0
                      then case cb_error cb 0 u1 w1 of None \<Rightarrow> None
                           | Some (u2, w2) \<Rightarrow> rec pf cb False u2 w2
                      else rec pf cb True u1 w1
             else rec pf cb False u w
        else if still_running pf u w
             then case cb_init cb u w of
                  (rc, u1, w1) \<Rightarrow>
                    if rc \<noteq> 0
                    then case interruptible_sleep_ms pf u1 5000 w1 of None \<Rightarrow> None
                         | Some w2 \<Rightarrow> rec pf cb False u1 w2
                    else rec pf cb True u1 w1
             else Some (u, w)) = Some r"
    have go: "?Q u w r" if "keeps u u1 \<and> traced (balanced (unit_path u)) w w1" "rec pf cb b u1 w1 = Some r"
      for b u1 w1
      using IH [OF that(2)] cb that(1) traced_keeps_step [of u u1 w w1 "fst r" "snd r"] by blast
    show "?Q u w r"
    proof (cases "still_running pf u w")
      case False
      with body go [of u w] show ?thesis by (cases c) auto
    next
      case run: True
      show ?thesis
      proof (cases c)
        case True
        with body run obtain rc u1 w1 where p: "cb_process cb u w = Some (rc, u1, w1)"
          by (auto split: option.splits)
        then have k1: "keeps u u1 \<and> traced (balanced (unit_path u)) w w1"
          using cb unfolding disciplined_callbacks_def by blast
        show ?thesis
        proof (cases "rc = 0")
          case True
          with body run p \<open>c\<close> k1 go [of u1 w1 True] show ?thesis by simp
        next
          case False
          with body run p \<open>c\<close> obtain u2 w2 where e: "cb_error cb 0 u1 w1 = Some (u2, w2)"
            "rec pf cb False u2 w2 = Some r" by (auto split: option.splits)
          then have "keeps u1 u2 \<and> traced (balanced (unit_path u1)) w1 w2"
            using cb unfolding disciplined_callbacks_def by blast
          from go [OF traced_keeps_step [OF k1 this] e(2)] show ?thesis .
        qed
      next
        case False
        obtain rc u1 w1 where p: "cb_init cb u w = (rc, u1, w1)" by (metis prod.exhaust)
        then have k1: "keeps u u1 \<and> traced (balanced (unit_path u)) w w1"
          using cb unfolding disciplined_callbacks_def by blast
        show ?thesis
        proof (cases "rc = 0")
          case True
          with body run p False k1 go [of u1 w1 True] show ?thesis by simp
        next
          case rc: False
          with body run p False obtain w2 where e: "interruptible_sleep_ms pf u1 5000 w1 = Some w2"
            "rec pf cb False u1 w2 = Some r" by (auto split: option.splits)
          have "keeps u1 u1 \<and> traced (balanced (unit_path u1)) w1 w2"
            using interruptible_sleep_bus [OF e(1)] by simp
          from go [OF traced_keeps_step [OF k1 this] e(2)] show ?thesis .
        qed
      qed
    qed
  qed
  with assms(2) show ?thesis by simp
qed

lemma unit_thread_bus:
  assumes "unit_thread pf cb u w = Some (u', w')" and "disciplined_callbacks cb"
  shows "keeps u u' \<and> traced (balanced (unit_path u)) w w'"
proof -
  from assms(1) obtain u1 w1 where t: "thread_loop pf cb False u w = Some (u1, w1)"
    and d: "unit_disconnect pf u1 w1 = (u', w')"
    by (auto simp: unit_thread_def split: option.splits)
  have "keeps u1 u' \<and> traced (balanced (unit_path u1)) w1 w'" using unit_disconnect_bus [OF d] by blast
  from traced_keeps_step [OF thread_loop_bus [OF t assms(2)] this] show ?thesis .
qed

lemma thread_stops:
  assumes "\<not> still_running pf u w"
  shows "unit_thread pf cb u w = Some (unit_disconnect pf u w)"
  using assms by (simp add: unit_thread_def thread_loop.simps [of pf cb False u w])

text \<open>
  A TCP unit that is stopped before its first connection attempt shuts down and closes file
  descriptor 0: the zeroed context it disconnects has socket 0, not -1.
\<close>

theorem early_stop_closes_descriptor_0:
  assumes "cfg_format cfg = MODBUS_FORMAT_TCP" and "pf_stopped pf (uw_env w)"
  shows "\<exists>u' w'. unit_thread pf cb (fresh_unit p cfg) w = Some (u', w') \<and>
    uw_env w' = sk_close (pf_socket pf) 0 (sk_shutdown (pf_socket pf) 0 (uw_env w))"
proof -
  have "\<not> still_running pf (fresh_unit p cfg) w" using assms(2) by (simp add: still_running_def)
  moreover have "uw_env (snd (unit_disconnect pf (fresh_unit p cfg) w)) =
      sk_close (pf_socket pf) 0 (sk_shutdown (pf_socket pf) 0 (uw_env w))"
    using assms(1) by (simp add: unit_disconnect_def fresh_unit_def zeroed_tcp_ctx_def
        mb_tcp_client_disconnect_def mb_tcp_close_def tcp_done_def log_event_def)
  ultimately show ?thesis by (simp add: thread_stops) (metis prod.collapse)
qed

section \<open>The drain of the queue\<close>

definition command_call :: "write_cmd \<Rightarrow> io_call option" where
  "command_call c = write_call (cmd_addr c) (cmd_values c) (cmd_count c) (cmd_mode c)"

definition quiet :: "'e platform \<Rightarrow> bool" where
  "quiet pf \<longleftrightarrow> (\<forall>e. pf_pushes pf e = ([], e))"

lemma unit_pop_quiet:
  assumes "quiet pf" and "queue_inv (u_queue u)"
  shows "(case queue_items (u_queue u) of
      [] \<Rightarrow> unit_pop pf ma u w = (None, u, w)
    | c # cs \<Rightarrow> \<exists>q. unit_pop pf ma u w = (Some c, u\<lparr>u_queue := q\<rparr>, w) \<and> queue_inv q \<and> queue_items q = cs)"
proof -
  have s: "settle_pushes pf ma u w = (u, w)"
    using assms(1) by (simp add: settle_pushes_def quiet_def)
  show ?thesis
  proof (cases "queue_items (u_queue u)")
    case Nil
    with cmds.pop_empty [OF assms(2) Nil] s show ?thesis by (simp add: unit_pop_def)
  next
    case (Cons c cs)
    with cmds.pop_first [OF assms(2) Cons] s show ?thesis by (auto simp: unit_pop_def)
  qed
qed

lemma write_queued_calls:
  assumes "write_queued pf c u w = (u', w')"
  shows "u_queue u' = u_queue u \<and> (\<exists>tr. uw_trace w' = uw_trace w @ tr \<and>
    io_calls tr = (case command_call c of None \<Rightarrow> [] | Some x \<Rightarrow> [x])) \<and> uw_pool w' = uw_pool w"
proof -
  obtain rc u1 w1 where l:
    "write_registers_locked pf u (cmd_addr c) (cmd_values c) (cmd_count c) (cmd_mode c) w = (rc, u1, w1)"
    by (metis prod.exhaust)
  note f = write_registers_locked_frame [OF l]
  then have q: "u_queue u1 = u_queue u" by (auto dest: same_unitD)
  show ?thesis
  proof (cases "command_call c")
    case None
    with f q assms l show ?thesis by (auto simp: write_queued_def command_call_def)
  next
    case (Some x)
    with f obtain r where "uw_trace w1 = uw_trace w @ [plain_event u x r]" "uw_pool w1 = uw_pool w"
      by (auto simp: command_call_def)
    with Some q assms l show ?thesis
      by (auto simp: write_queued_def plain_event_def)
  qed
qed

lemma drain_loop_quiet:
  assumes "quiet pf" and "queue_inv (u_queue u)"
  shows "\<exists>u' w' tr. drain_loop pf ma c u w = Some (u', w') \<and> queue_inv (u_queue u') \<and>
    queue_items (u_queue u') = [] \<and> uw_trace w' = uw_trace w @ tr \<and> uw_pool w' = uw_pool w \<and>
    io_calls tr = List.map_filter command_call (c # queue_items (u_queue u))"
  using assms(2)
proof (induction "queue_items (u_queue u)" arbitrary: c u w)
  case Nil
  obtain u1 w1 where q: "write_queued pf c u w = (u1, w1)" by fastforce
  note f = write_queued_calls [OF q]
  have "unit_pop pf ma u1 w1 = (None, u1, w1)"
    using unit_pop_quiet [OF assms(1), of u1 ma w1] f Nil by simp
  with q have "drain_loop pf ma c u w = Some (u1, w1)" by (subst drain_loop.simps) simp
  with f Nil show ?case by (auto simp: map_filter_def split: option.splits)
next
  case (Cons d ds)
  obtain u1 w1 where q: "write_queued pf c u w = (u1, w1)" by fastforce
  from write_queued_calls [OF q] obtain t where f: "u_queue u1 = u_queue u" "uw_trace w1 = uw_trace w @ t"
    "io_calls t = (case command_call c of None \<Rightarrow> [] | Some x \<Rightarrow> [x])" "uw_pool w1 = uw_pool w" by blast
  obtain qq where p: "unit_pop pf ma u1 w1 = (Some d, u1\<lparr>u_queue := qq\<rparr>, w1)" "queue_inv qq" "queue_items qq = ds"
    using unit_pop_quiet [OF assms(1), of u1 ma w1] f(1) Cons.hyps(2) Cons.prems by (auto split: list.splits)
  let ?u = "u1\<lparr>u_queue := qq\<rparr>"
  have "drain_loop pf ma c u w = drain_loop pf ma d ?u w1"
    using q p(1) by (subst drain_loop.simps) simp
  moreover have "ds = queue_items (u_queue ?u)" "queue_inv (u_queue ?u)" using p(2,3) by simp_all
  from Cons.hyps(1) [OF this, of d w1] obtain u' w' tr where
    ih: "drain_loop pf ma d ?u w1 = Some (u', w')" "queue_inv (u_queue u')" "queue_items (u_queue u') = []"
      "uw_trace w' = uw_trace w1 @ tr" "uw_pool w' = uw_pool w1"
      "io_calls tr = List.map_filter command_call (d # ds)" using p(3) by auto
  moreover have "io_calls (t @ tr) = List.map_filter command_call (c # d # ds)"
    using f(3) ih(6) by (auto simp: map_filter_def split: option.splits)
  ultimately show ?case using f(2,4) Cons.hyps(2) by (metis append.assoc)
qed

lemma drain_queue_quiet:
  assumes "quiet pf" and "queue_inv (u_queue u)"
  shows "\<exists>u' w' tr. drain_queue pf ma u w = Some (u', w') \<and> queue_inv (u_queue u') \<and>
    queue_items (u_queue u') = [] \<and> uw_trace w' = uw_trace w @ tr \<and> uw_pool w' = uw_pool w \<and>
    io_calls tr = List.map_filter command_call (queue_items (u_queue u))"
proof (cases "queue_items (u_queue u)")
  case Nil
  with unit_pop_quiet [OF assms, of ma w] assms(2) show ?thesis
    by (auto simp: drain_queue_def map_filter_def)
next
  case (Cons c cs)
  with unit_pop_quiet [OF assms, of ma w] obtain q where
    p: "unit_pop pf ma u w = (Some c, u\<lparr>u_queue := q\<rparr>, w)" "queue_inv q" "queue_items q = cs" by auto
  let ?p = "bus_path_of (u_cfg u)" and ?u = "u\<lparr>u_queue := q\<rparr>"
  from drain_loop_quiet [OF assms(1), of ?u ma c "unit_acquire pf ?p w"] p(2,3)
  obtain u' w' tr where d: "drain_loop pf ma c ?u (unit_acquire pf ?p w) = Some (u', w')" "queue_inv (u_queue u')"
    "queue_items (u_queue u') = []" "uw_trace w' = uw_trace w @ Ev_acquire ?p # tr" "uw_pool w' = uw_pool w"
    "io_calls tr = List.map_filter command_call (c # cs)" by auto
  let ?w = "unit_release pf ?p (unit_usleep pf 70000 w')"
  have "drain_queue pf ma u w = Some (u', ?w)"
    using p(1) d(1) by (simp add: drain_queue_def Let_def)
  moreover have "uw_trace ?w = uw_trace w @ (Ev_acquire ?p # tr @ [Ev_sleep 70000, Ev_release ?p])"
    using d(4) by simp
  moreover have "io_calls (Ev_acquire ?p # tr @ [Ev_sleep 70000, Ev_release ?p]) =
      List.map_filter command_call (queue_items (u_queue u))" using d(6) Cons by simp
  ultimately show ?thesis using d(2,3,5) by (metis uw_pool_release uw_pool_usleep)
qed

text \<open>
  C28. When no command is queued meanwhile, a drain empties the queue and makes one call for
  each waiting command in the order of the queue, whatever the calls return, with the function
  code the mode selects; only a command whose mode demands a single register and that holds
  several makes none. The pool is not touched.
\<close>

theorem drain_writes_queue_in_order:
  assumes "quiet pf" and "queue_inv (u_queue u)"
  shows "\<exists>u' w' tr. drain_queue pf ma u w = Some (u', w') \<and> queue_inv (u_queue u') \<and>
    queue_items (u_queue u') = [] \<and> uw_trace w' = uw_trace w @ tr \<and> uw_pool w' = uw_pool w \<and>
    io_calls tr = List.map_filter command_call (queue_items (u_queue u))"
  by (rule drain_queue_quiet [OF assms])

text \<open>A producer that has a new command ready before every pop.\<close>

definition keeps_pace :: "'e platform \<Rightarrow> bool" where
  "keeps_pace pf \<longleftrightarrow> (\<forall>e. \<exists>a v vs n m cs e'. pf_pushes pf e = ((a, v # vs, n, m) # cs, e') \<and>
     n \<noteq> 0 \<and> n \<le> MODBUS_MAX_WRITE_REGISTERS)"

lemma merge_loop_0: "merge_loop a v m es i k = Some es' \<Longrightarrow> 0 < k"
  by (cases k) auto

lemma push_not_empty:
  assumes "n \<noteq> 0" and "n \<le> MODBUS_MAX_WRITE_REGISTERS"
  shows "0 < q_count (snd (queue_push ma q a (Some vs) n m))"
  using assms by (auto simp: queue_push_def not_less split: option.splits if_splits dest: merge_loop_0)

lemma push_keeps_nonempty:
  assumes "0 < q_count q"
  shows "0 < q_count (apply_push ma c q)"
  using assms by (auto simp: apply_push_def queue_push_def split: option.splits prod.splits if_splits)

lemma unit_pop_keeps_pace:
  assumes "keeps_pace pf"
  shows "\<exists>c u' w'. unit_pop pf ma u w = (Some c, u', w')"
proof -
  obtain a v vs n m cs e' where p: "pf_pushes pf (uw_env w) = ((a, v # vs, n, m) # cs, e')" "n \<noteq> 0"
    "n \<le> MODBUS_MAX_WRITE_REGISTERS"
    using assms unfolding keeps_pace_def by meson
  have "0 < q_count (apply_push ma (a, v # vs, n, m) (u_queue u))"
    using push_not_empty [OF p(2,3)] by (simp add: apply_push_def)
  then have "0 < q_count (fold (apply_push ma) cs (apply_push ma (a, v # vs, n, m) (u_queue u)))"
    by (rule fold_inv [where P = "\<lambda>q. 0 < q_count q"]) (rule push_keeps_nonempty)
  then have "q_count (fold (apply_push ma) cs (apply_push ma (a, v # vs, n, m) (u_queue u))) \<noteq> 0"
    by simp
  with p(1) show ?thesis by (simp add: unit_pop_def settle_pushes_def queue_pop_def del: neq0_conv)
qed

text \<open>
  C40. The drain holds the bus until a pop finds the queue empty: with a producer that always
  has the next command ready, the drain, and with it the process callback, never returns, so
  the unit is no longer polled and no other unit gets the line.
\<close>

theorem busy_producer_starves_poll:
  assumes "keeps_pace pf"
  shows "drain_queue pf ma u w = None \<and> drain_and_scan pf ma u w = None"
proof -
  have none: "drain_loop pf ma c u w = None" for c u w
  proof (rule ccontr)
    assume "drain_loop pf ma c u w \<noteq> None"
    then obtain r where r: "drain_loop pf ma c u w = Some r" by blast
    have "keeps_pace pf \<longrightarrow> False"
    proof (rule drain_loop.raw_induct [OF _ r, where P = "\<lambda>pf ma c u w r. keeps_pace pf \<longrightarrow> False"], rule impI)
      fix rec :: "'a platform \<Rightarrow> (u16 \<Rightarrow> bool) \<Rightarrow> write_cmd \<Rightarrow> gw_unit \<Rightarrow> 'a unit_world \<Rightarrow>
          (gw_unit \<times> 'a unit_world) option"
        and pf :: "'a platform" and ma c u and w :: "'a unit_world" and r
      assume IH: "\<And>pf ma c u w r. rec pf ma c u w = Some r \<Longrightarrow> keeps_pace pf \<longrightarrow> False"
      assume body: "(let (u1, w1) = write_queued pf c u w
        in case unit_pop pf ma u1 w1 of (None, u2, w2) \<Rightarrow> Some (u2, w2)
           | (Some c', u2, w2) \<Rightarrow> rec pf ma c' u2 w2) = Some r"
      assume k: "keeps_pace pf"
      obtain u1 w1 where q: "write_queued pf c u w = (u1, w1)" by fastforce
      obtain c' u2 w2 where "unit_pop pf ma u1 w1 = (Some c', u2, w2)"
        using unit_pop_keeps_pace [OF k] by blast
      with body q have "rec pf ma c' u2 w2 = Some r" by simp
      with IH k show False by blast
    qed
    with assms show False by simp
  qed
  obtain c u1 w1 where "unit_pop pf ma u w = (Some c, u1, w1)"
    using unit_pop_keeps_pace [OF assms] by blast
  with none have "drain_queue pf ma u w = None" by (simp add: drain_queue_def Let_def)
  then show ?thesis by (simp add: drain_and_scan_def)
qed

section \<open>Starting the units of a family\<close>

lemma register_rejects: "device_register_map_register_profile (Some p) m = (rc, m') \<Longrightarrow> rc \<noteq> 0 \<Longrightarrow> rc = -1 \<and> m' = m"
  by (auto simp: device_register_map_register_profile_def split: if_splits)

lemma register_accepts:
  "device_register_map_register_profile (Some p) m = (0, m') \<Longrightarrow> p \<in> set (registered_profiles m')"
  by (auto simp: device_register_map_register_profile_def split: if_splits)

lemma start_one_disabled: "\<not> enabled c \<Longrightarrow> start_one p reg ok (i, c) s = s"
  by (simp add: start_one_def)

lemma start_rest:
  assumes "device_register_map_register_profile (Some p) (ss_map s) = (-1, ss_map s)"
  shows "fold (start_one p reg ok) (enumerate n cs) s =
    (if filter enabled cs \<noteq> [] then s\<lparr>ss_status := -1\<rparr> else s)"
  using assms
proof (induction cs arbitrary: s n)
  case Nil
  then show ?case by simp
next
  case (Cons c cs)
  show ?case
  proof (cases "enabled c")
    case True
    then have "start_one p reg ok (n, c) s = s\<lparr>ss_status := -1\<rparr>"
      using Cons.prems by (simp add: start_one_def)
    with True Cons.IH [of "s\<lparr>ss_status := -1\<rparr>" "Suc n"] Cons.prems show ?thesis by simp
  next
    case False
    with Cons.IH [of s "Suc n"] Cons.prems show ?thesis by (simp add: start_one_disabled)
  qed
qed

text \<open>What the first enabled entry leads to.\<close>

lemma start_one_first:
  assumes "rows p \<noteq> []" and "enabled c" and "ss_units s = []"
  obtains s1 where "start_one p reg ok (i, c) s = s1"
    and "device_register_map_register_profile (Some p) (ss_map s1) = (-1, ss_map s1)"
    and "ss_units s1 = [] \<or> ss_units s1 = [fresh_unit p c]"
proof -
  obtain rc m where r: "device_register_map_register_profile (Some p) (ss_map s) = (rc, m)" by fastforce
  show ?thesis
  proof (cases "rc = 0")
    case True
    with r have "device_register_map_register_profile (Some p) m = (-1, m)"
      using register_profile_twice [OF register_accepts assms(1)] by simp
    then show ?thesis
      using r True assms by (intro that [OF refl]) (auto simp: start_one_def Let_def)
  next
    case False
    with register_rejects [OF r] r assms show ?thesis
      by (intro that [OF refl]) (auto simp: start_one_def)
  qed
qed

lemma start_all:
  assumes "rows p \<noteq> []" and "ss_units s0 = []"
    and "s = fold (start_one p reg ok) (enumerate n cfgs) s0"
  shows "length (ss_units s) \<le> 1 \<and> (\<forall>u\<in>set (ss_units s). List.find enabled cfgs = Some (u_cfg u)) \<and>
      (length (filter enabled cfgs) \<ge> 2 \<longrightarrow> ss_status s = -1)"
  using assms(2,3)
proof (induction cfgs arbitrary: n s0)
  case Nil
  then show ?case by simp
next
  case (Cons c cs)
  show ?case
  proof (cases "enabled c")
    case False
    with Cons.IH [of s0 "Suc n"] Cons.prems show ?thesis by (simp add: start_one_disabled)
  next
    case True
    obtain s1 where s1: "start_one p reg ok (n, c) s0 = s1"
      "device_register_map_register_profile (Some p) (ss_map s1) = (-1, ss_map s1)"
      "ss_units s1 = [] \<or> ss_units s1 = [fresh_unit p c]"
      by (rule start_one_first [OF assms(1) True Cons.prems(1)])
    have "s = (if filter enabled cs \<noteq> [] then s1\<lparr>ss_status := -1\<rparr> else s1)"
      using Cons.prems(2) s1(1) start_rest [OF s1(2), of reg ok "Suc n" cs] by simp
    with s1(3) True show ?thesis by (auto simp: fresh_unit_def)
  qed
qed

lemma one_unit_of_profile:
  assumes "rows p \<noteq> []"
  shows "length (ss_units (start_modules p reg ok bridge_rc cfgs m pl)) \<le> 1 \<and>
    (\<forall>u\<in>set (ss_units (start_modules p reg ok bridge_rc cfgs m pl)).
       List.find enabled cfgs = Some (u_cfg u)) \<and>
    (length (filter enabled cfgs) \<ge> 2 \<longrightarrow> ss_status (start_modules p reg ok bridge_rc cfgs m pl) = -1)"
proof -
  let ?s = "fold (start_one p reg ok) (enumerate 0 cfgs) \<lparr>ss_map = m, ss_pool = pl, ss_units = [], ss_status = 0\<rparr>"
  have "start_modules p reg ok bridge_rc cfgs m pl = ?s \<or>
      start_modules p reg ok bridge_rc cfgs m pl = ?s\<lparr>ss_status := -1\<rparr>"
    by (simp add: start_modules_def Let_def)
  moreover have "length (ss_units ?s) \<le> 1 \<and> (\<forall>u\<in>set (ss_units ?s). List.find enabled cfgs = Some (u_cfg u)) \<and>
      (length (filter enabled cfgs) \<ge> 2 \<longrightarrow> ss_status ?s = -1)"
    by (rule start_all [OF assms _ refl]) simp
  ultimately show ?thesis by (elim disjE) simp_all
qed

end
