(* ===== verification/Inverter_Module.thy ===== *)
theory Inverter_Module
  imports Unit_Life
begin

text \<open>
  \<^verbatim>\<open>src/inverter_module.c\<close>: the inverter family's own functions on top of \<open>Unit_Core\<close>: the
  two register programs, the connection, the callbacks and the start of the units.
\<close>

section \<open>Family instances of the shared functions\<close>

definition inverter_bus_path :: "gw_unit \<Rightarrow> string option" where
  "inverter_bus_path u = bus_path_of (u_cfg u)"

definition inverter_set_connection :: "int \<Rightarrow> gw_unit \<Rightarrow> 'e unit_world \<Rightarrow> gw_unit \<times> 'e unit_world" where
  "inverter_set_connection state u w = unit_set_connection int_inverter_connection_status_reg state u w"

definition inverter_queue_push ::
  "cmd_queue \<Rightarrow> u16 \<Rightarrow> u16 list option \<Rightarrow> u16 \<Rightarrow> write_mode \<Rightarrow> int \<times> cmd_queue" where
  "inverter_queue_push q addr values count mode = queue_push inverter_queue_merge_allowed q addr values count mode"

definition inverter_unit_from_uid :: "gw_unit list \<Rightarrow> u8 \<Rightarrow> nat option" where
  "inverter_unit_from_uid us uid = unit_from_uid us uid"

definition inverter_get_primary_uid :: "gw_unit list \<Rightarrow> u8 option" where
  "inverter_get_primary_uid us = get_primary_uid us"

definition inverter_cmd_push ::
  "gw_unit list \<Rightarrow> u8 \<Rightarrow> u16 \<Rightarrow> u16 list option \<Rightarrow> u16 \<Rightarrow> write_mode \<Rightarrow> int \<times> gw_unit list" where
  "inverter_cmd_push us uid addr values count mode =
     cmd_push inverter_queue_merge_allowed us uid addr values count mode"

definition inverter_init_request :: "gw_unit list \<Rightarrow> u8 \<Rightarrow> int \<times> gw_unit list" where
  "inverter_init_request us uid = init_request us uid"

section \<open>Register programs\<close>

definition inverter_baud_convert :: "u32 \<Rightarrow> u16 option" where
  "inverter_baud_convert b =
     (if b < 4800 \<or> b > 115200 \<or> b mod 100 \<noteq> 0 then None
      else let code = b div 100 in if code > 0xFFFF then None else Some (ucast code))"

text \<open>The table \<^verbatim>\<open>writes\<close> of \<^verbatim>\<open>init_inverter_reg\<close>; without a valid baud code its entry is
  skipped.\<close>

definition inverter_init_table :: "module_config \<Rightarrow> (u16 \<times> u16) list" where
  "inverter_init_table cfg =
     (let baud = inverter_baud_convert (of_int (cfg_baud_rate cfg))
      in filter (\<lambda>(a, v). \<not> (a = dev_baud_rate \<and> baud = None))
        [(dev_frequency_cmd_source_reg, 0x0001),
         (dev_run_cmd_source_reg, 0x0002),
         (dev_frequency_upper_limit_reg, 0x1766),
         (dev_frequency_lower_limit_reg, 0x06F4),
         (dev_acceleration_reg, 0x03E8),
         (dev_deceleration_reg, 0x03E8),
         (dev_slave_id, of_int (modbus_uid cfg)),
         (dev_baud_rate, case baud of None \<Rightarrow> 0 | Some c \<Rightarrow> c),
         (dev_mb_error_handle_reg, 0x0001),
         (dev_mb_serial_setting_reg, 0x000C),
         (dev_s_speed_start_reg, 0x0096),
         (dev_s_speed_end_reg, 0x0096),
         (dev_s_deceleration_start_reg, 0x0096),
         (dev_s_deceleration_end_reg, 0x0096),
         (dev_frequency_cmd_reg, 0x0000),
         (dev_operation_cmd_reg, INVERTER_STOP_BIT OR INVERTER_ENABLE_ACCELERATION_BIT)])"

text \<open>A failing write does not stop the program.\<close>

fun init_write_loop ::
  "'e platform \<Rightarrow> (u16 \<times> u16) list \<Rightarrow> gw_unit \<Rightarrow> 'e unit_world \<Rightarrow> gw_unit \<times> 'e unit_world" where
  "init_write_loop pf [] u w = (u, w)"
| "init_write_loop pf ((a, v) # ws) u w =
     (case write_registers_locked pf u a [v] 1 WRITE_MODE_FC06 w of
        (rc, u1, w1) \<Rightarrow>
          init_write_loop pf ws u1
            (if rc = 0 then unit_usleep pf MODBUS_DEFAULT_INTER_SEGMENT_DELAY_US w1 else w1))"

definition init_inverter_reg :: "'e platform \<Rightarrow> gw_unit \<Rightarrow> 'e unit_world \<Rightarrow> gw_unit \<times> 'e unit_world" where
  "init_inverter_reg pf u w = init_write_loop pf (inverter_init_table (u_cfg u)) u w"

text \<open>The loop of \<^verbatim>\<open>run_init_sequence\<close> stops at the first failing write.\<close>

fun sequence_loop ::
  "'e platform \<Rightarrow> (u16 \<times> u16) list \<Rightarrow> gw_unit \<Rightarrow> 'e unit_world \<Rightarrow> bool \<times> gw_unit \<times> 'e unit_world" where
  "sequence_loop pf [] u w = (True, u, w)"
| "sequence_loop pf ((a, v) # ws) u w =
     (case write_registers_locked pf u a [v] 1 WRITE_MODE_FC06 w of
        (rc, u1, w1) \<Rightarrow>
          if rc \<noteq> 0 then (False, u1, w1)
          else sequence_loop pf ws u1 (unit_usleep pf MODBUS_DEFAULT_INTER_SEGMENT_DELAY_US w1))"

definition inverter_run_init_sequence ::
  "'e platform \<Rightarrow> gw_unit \<Rightarrow> 'e unit_world \<Rightarrow> gw_unit \<times> 'e unit_world" where
  "inverter_run_init_sequence pf u w =
     (let path = inverter_bus_path u;
          w1 = unit_acquire pf path (pool_write int_inverter_init_flag_reg 0 w)
      in case sequence_loop pf
                [(dev_frequency_cmd_reg, 0),
                 (dev_operation_cmd_reg, INVERTER_STOP_BIT OR INVERTER_ENABLE_ACCELERATION_BIT)] u w1 of
           (writes_ok, u2, w2) \<Rightarrow>
             let w3 = unit_release pf path (unit_usleep pf MODBUS_DEFAULT_POST_WRITE_SETTLE_US w2)
             in (u2, if writes_ok then pool_write int_inverter_init_flag_reg 1 w3 else w3))"

section \<open>Connection and callbacks\<close>

definition inverter_unit_connect ::
  "'e platform \<Rightarrow> gw_unit \<Rightarrow> 'e unit_world \<Rightarrow> int \<times> gw_unit \<times> 'e unit_world" where
  "inverter_unit_connect pf u w =
     (if cfg_format (u_cfg u) = MODBUS_FORMAT_TCP then open_tcp pf u w
      else
        (case open_rtu pf u w of
           (rc, u1, w1) \<Rightarrow>
             if rc \<noteq> 0 then (-1, u1, w1)
             else
               let path = inverter_bus_path u1; w2 = unit_acquire pf path w1;
                   (probe_rc, w3) =
                     (if table_count (u_profile u1) > 0
                      then probe_unit pf u1 (device_address (rows (u_profile u1) ! 0)) w2 else (0, w2))
               in if probe_rc \<noteq> MB_RTU_CLIENT_OK then
                    (case close_rtu pf u1 (unit_release pf path w3) of (u4, w4) \<Rightarrow> (-1, u4, w4))
                  else
                    (case init_inverter_reg pf u1 w3 of
                       (u4, w4) \<Rightarrow>
                         (0, u4, unit_release pf path (unit_usleep pf MODBUS_DEFAULT_POST_WRITE_SETTLE_US w4)))))"

definition inverter_init_callback ::
  "'e platform \<Rightarrow> gw_unit \<Rightarrow> 'e unit_world \<Rightarrow> int \<times> gw_unit \<times> 'e unit_world" where
  "inverter_init_callback pf u w =
     init_callback inverter_unit_connect pf int_inverter_connection_status_reg u w"

definition inverter_process_callback ::
  "'e platform \<Rightarrow> gw_unit \<Rightarrow> 'e unit_world \<Rightarrow> (int \<times> gw_unit \<times> 'e unit_world) option" where
  "inverter_process_callback pf u w =
     (let (u1, w1) = (if init_requested u then inverter_run_init_sequence pf (u\<lparr>init_requested := False\<rparr>) w
                      else (u\<lparr>init_requested := False\<rparr>, w))
      in drain_and_scan pf inverter_queue_merge_allowed u1 w1)"

definition inverter_error_callback ::
  "'e platform \<Rightarrow> int \<Rightarrow> gw_unit \<Rightarrow> 'e unit_world \<Rightarrow> (gw_unit \<times> 'e unit_world) option" where
  "inverter_error_callback pf state u w = error_callback pf int_inverter_connection_status_reg state u w"

definition inverter_msg_callback ::
  "'e platform \<Rightarrow> u16 \<Rightarrow> u16 list option \<Rightarrow> nat \<Rightarrow> gw_unit \<Rightarrow> 'e unit_world \<Rightarrow> int \<times> gw_unit \<times> 'e unit_world" where
  "inverter_msg_callback pf addr values count u w = msg_callback pf addr values count u w"

definition inverter_callbacks :: "'e platform \<Rightarrow> 'e unit_callbacks" where
  "inverter_callbacks pf =
     \<lparr>cb_init = inverter_init_callback pf, cb_process = inverter_process_callback pf,
      cb_error = inverter_error_callback pf\<rparr>"

definition inverter_thread :: "'e platform \<Rightarrow> gw_unit \<Rightarrow> 'e unit_world \<Rightarrow> (gw_unit \<times> 'e unit_world) option" where
  "inverter_thread pf u w = unit_thread pf (inverter_callbacks pf) u w"

section \<open>Start and stop\<close>

text \<open>\<open>bridge_rc\<close> is the result of \<^verbatim>\<open>inverter_cmos_bridge_start\<close>.\<close>

definition start_inverter_modules ::
  "(nat \<Rightarrow> bool) \<Rightarrow> int \<Rightarrow> module_config list \<Rightarrow> device_map_state \<Rightarrow> pool \<Rightarrow> start_state" where
  "start_inverter_modules thread_ok bridge_rc inverters m pl =
     start_modules inverter1_profile int_inverter_connection_status_reg thread_ok bridge_rc inverters m pl"

definition stop_inverter_modules :: "gw_unit list \<Rightarrow> int \<times> gw_unit list \<times> gw_unit list" where
  "stop_inverter_modules us = stop_modules us"

section \<open>Bus discipline\<close>

lemma write_one_call: "write_call a [v] 1 WRITE_MODE_FC06 = Some (Call_write a v)"
  by (simp add: write_call_def)

lemma write_one:
  assumes "write_registers_locked pf u a [v] 1 WRITE_MODE_FC06 w = (rc, u', w')"
  shows "same_unit u u' \<and> uw_pool w' = uw_pool w \<and>
    (\<exists>r. uw_trace w' = uw_trace w @ [plain_event u (Call_write a v) r] \<and> rc = (if r = 0 then 0 else -1))"
  using write_registers_locked_frame [OF assms] unfolding write_one_call by auto

lemma traced_plain: "uw_trace w1 = uw_trace w @ [plain_event u c r] \<Longrightarrow> traced (inside p) w w1"
  by (erule tracedI) simp

lemma same_unit_plain: "same_unit u u' \<Longrightarrow> plain_event u' = plain_event u"
  by (auto simp: plain_event_def rtu_unit_def fun_eq_iff dest: same_unitD)

lemma init_write_loop_result:
  assumes "init_write_loop pf ws u w = (u', w')"
  shows "same_unit u u' \<and> uw_pool w' = uw_pool w \<and> traced (inside p) w w' \<and>
    (\<exists>tr. uw_trace w' = uw_trace w @ tr \<and> io_calls tr = map (\<lambda>(a, v). Call_write a v) ws)"
  using assms
proof (induction ws arbitrary: u w)
  case Nil
  then show ?case by auto
next
  case (Cons av ws)
  obtain a v where av: "av = (a, v)" by fastforce
  obtain rc u1 w1 where l: "write_registers_locked pf u a [v] 1 WRITE_MODE_FC06 w = (rc, u1, w1)"
    by (metis prod.exhaust)
  from write_one [OF l] obtain r where f: "same_unit u u1" "uw_pool w1 = uw_pool w"
    "uw_trace w1 = uw_trace w @ [plain_event u (Call_write a v) r]" by blast
  let ?w2 = "if rc = 0 then unit_usleep pf 40000 w1 else w1"
  have t2: "traced (inside p) w ?w2"
    using traced_plain [OF f(3)] traced_sleep_after(2) [OF traced_plain [OF f(3)]] by simp
  from Cons.prems av l have "init_write_loop pf ws u1 ?w2 = (u', w')" by simp
  from Cons.IH [OF this] obtain tr where ih: "same_unit u1 u'" "uw_pool w' = uw_pool ?w2"
    "traced (inside p) ?w2 w'" "uw_trace w' = uw_trace ?w2 @ tr" "io_calls tr = map (\<lambda>(a, v). Call_write a v) ws"
    by blast
  let ?t = "plain_event u (Call_write a v) r # (if rc = 0 then [Ev_sleep 40000] else []) @ tr"
  have "uw_trace w' = uw_trace w @ ?t" using f(3) ih(4) by simp
  moreover have "io_calls ?t = map (\<lambda>(a, v). Call_write a v) (av # ws)"
    using ih(5) av by (simp add: plain_event_def)
  moreover have "same_unit u u'" using f(1) ih(1) by (rule same_unit_trans)
  moreover have "traced (inside p) w w'" by (rule traced_inside_trans [OF t2 ih(3)])
  moreover have "uw_pool w' = uw_pool w" using f(2) ih(2) by simp
  ultimately show ?case by (intro conjI exI [of _ ?t])
qed

lemma sequence_loop_result:
  assumes "sequence_loop pf ws u w = (ok, u', w')"
  shows "same_unit u u' \<and> uw_pool w' = uw_pool w \<and> traced (inside p) w w' \<and>
    (\<exists>tr k. uw_trace w' = uw_trace w @ tr \<and> k \<le> length ws \<and>
       io_calls tr = map (\<lambda>(a, v). Call_write a v) (take k ws) \<and>
       (ok \<longleftrightarrow> k = length ws \<and> (\<forall>r\<in>set (io_results tr). r = 0)))"
  using assms
proof (induction ws arbitrary: u w)
  case Nil
  then show ?case by auto
next
  case (Cons av ws)
  obtain a v where av: "av = (a, v)" by fastforce
  obtain rc u1 w1 where l: "write_registers_locked pf u a [v] 1 WRITE_MODE_FC06 w = (rc, u1, w1)"
    by (metis prod.exhaust)
  from write_one [OF l] obtain r where f: "same_unit u u1" "uw_pool w1 = uw_pool w"
    "uw_trace w1 = uw_trace w @ [plain_event u (Call_write a v) r]" "rc = (if r = 0 then 0 else -1)" by blast
  show ?case
  proof (cases "rc = 0")
    case False
    with Cons.prems av l have e: "ok = False" "u' = u1" "w' = w1" by auto
    have "io_calls [plain_event u (Call_write a v) r] = map (\<lambda>(a, v). Call_write a v) (take 1 (av # ws))"
      using av by simp
    moreover have "io_results [plain_event u (Call_write a v) r] = [r]" by (simp add: plain_event_def)
    moreover have "r \<noteq> 0" using False f(4) by auto
    ultimately show ?thesis using e f
      by (intro conjI exI [of _ "[plain_event u (Call_write a v) r]"] exI [of _ 1]) (auto intro: tracedI)
  next
    case True
    let ?w2 = "unit_usleep pf 40000 w1"
    have t2: "traced (inside p) w ?w2" by (rule traced_sleep_after(2) [OF traced_plain [OF f(3)]])
    from Cons.prems av l True have "sequence_loop pf ws u1 ?w2 = (ok, u', w')" by simp
    from Cons.IH [OF this] obtain tr k where ih: "same_unit u1 u'" "uw_pool w' = uw_pool ?w2"
      "traced (inside p) ?w2 w'" "uw_trace w' = uw_trace ?w2 @ tr" "k \<le> length ws"
      "io_calls tr = map (\<lambda>(a, v). Call_write a v) (take k ws)"
      "ok \<longleftrightarrow> k = length ws \<and> (\<forall>r\<in>set (io_results tr). r = 0)" by blast
    let ?t = "plain_event u (Call_write a v) r # Ev_sleep 40000 # tr"
    have "uw_trace w' = uw_trace w @ ?t" using f(3) ih(4) by simp
    moreover have "io_calls ?t = map (\<lambda>(a, v). Call_write a v) (take (Suc k) (av # ws))"
      using ih(6) av by (simp add: plain_event_def)
    moreover have "io_results ?t = r # io_results tr" by (simp add: plain_event_def)
    moreover have "r = 0" using True f(4) by (auto split: if_splits)
    moreover have "same_unit u u'" using f(1) ih(1) by (rule same_unit_trans)
    moreover have "traced (inside p) w w'" by (rule traced_inside_trans [OF t2 ih(3)])
    moreover have "uw_pool w' = uw_pool w" using f(2) ih(2) by simp
    ultimately show ?thesis using ih(5,7)
      by (intro conjI exI [of _ ?t] exI [of _ "Suc k"]) auto
  qed
qed

lemma inverter_run_init_sequence_bus:
  assumes "inverter_run_init_sequence pf u w = (u', w')"
  shows "same_unit u u' \<and> traced (balanced (unit_path u)) w w' \<and>
    (\<forall>a. a \<noteq> int_inverter_init_flag_reg \<longrightarrow> uw_pool w' a = uw_pool w a)"
proof -
  let ?p = "unit_path u" and ?w0 = "pool_write int_inverter_init_flag_reg 0 w"
  obtain ok u2 w2 where l: "sequence_loop pf
      [(dev_frequency_cmd_reg, 0), (dev_operation_cmd_reg, INVERTER_STOP_BIT OR INVERTER_ENABLE_ACCELERATION_BIT)]
      u (unit_acquire pf ?p ?w0) = (ok, u2, w2)" by (metis prod.exhaust)
  from sequence_loop_result [OF l, of ?p] have f: "same_unit u u2" "uw_pool w2 = uw_pool ?w0"
    "traced (inside ?p) (unit_acquire pf ?p ?w0) w2" by auto
  let ?w3 = "unit_release pf ?p (unit_usleep pf 70000 w2)"
  have t: "traced (balanced ?p) w ?w3"
    using traced_bracket [OF traced_sleep_after(2) [OF f(3)]] by simp
  have "(u', w') = (u2, if ok then pool_write int_inverter_init_flag_reg 1 ?w3 else ?w3)"
    using assms l by (simp add: inverter_run_init_sequence_def inverter_bus_path_def unit_path_def [symmetric] Let_def)
  with f t show ?thesis by (auto simp: pool_write_def pool_write_register_def)
qed

lemma inverter_unit_connect_bus:
  assumes "inverter_unit_connect pf u w = (rc, u', w')"
  shows "keeps u u' \<and> traced (balanced (unit_path u)) w w'"
proof (cases "cfg_format (u_cfg u) = MODBUS_FORMAT_TCP")
  case True
  with assms have "open_tcp pf u w = (rc, u', w')" by (simp add: inverter_unit_connect_def)
  from open_tcp_bus [OF this] show ?thesis by blast
next
  case False
  let ?p = "unit_path u"
  obtain r1 u1 w1 where o: "open_rtu pf u w = (r1, u1, w1)" by (metis prod.exhaust)
  note b1 = open_rtu_bus [OF o]
  then have p1: "inverter_bus_path u1 = ?p" by (simp add: inverter_bus_path_def unit_path_def keeps_def)
  show ?thesis
  proof (cases "r1 = 0")
    case False
    with assms o \<open>cfg_format (u_cfg u) \<noteq> MODBUS_FORMAT_TCP\<close> b1 show ?thesis
      by (auto simp: inverter_unit_connect_def)
  next
    case True
    let ?w2 = "unit_acquire pf ?p w1"
    obtain pr w3 where pb: "(if table_count (u_profile u1) > 0
        then probe_unit pf u1 (device_address (rows (u_profile u1) ! 0)) ?w2 else (0, ?w2)) = (pr, w3)" by fastforce
    then have t3: "traced (inside ?p) ?w2 w3" by (auto split: if_splits dest: probe_unit_bus)
    show ?thesis
    proof (cases "pr = 0")
      case False
      obtain u4 w4 where c: "close_rtu pf u1 (unit_release pf ?p w3) = (u4, w4)" by fastforce
      have e: "u' = u4" "w' = w4"
        using assms o True \<open>cfg_format (u_cfg u) \<noteq> MODBUS_FORMAT_TCP\<close> p1 pb False c
        by (cases "0 < table_count (u_profile u1)"; simp add: inverter_unit_connect_def Let_def)+
      have "keeps u1 u4 \<and> traced (balanced (unit_path u1)) (unit_release pf ?p w3) w4"
        using close_rtu_bus [OF c] by blast
      with b1 traced_bracket [OF t3] e show ?thesis
        by (auto simp: keeps_path intro: keeps_trans traced_balanced_trans)
    next
      case pr: True
      obtain u4 w4 where i: "init_inverter_reg pf u1 w3 = (u4, w4)" by fastforce
      have e: "u' = u4" "w' = unit_release pf ?p (unit_usleep pf 70000 w4)"
        using assms o True \<open>cfg_format (u_cfg u) \<noteq> MODBUS_FORMAT_TCP\<close> p1 pb pr i
        by (cases "0 < table_count (u_profile u1)"; simp add: inverter_unit_connect_def Let_def)+
      from init_write_loop_result [OF i [unfolded init_inverter_reg_def], of ?p]
      have k: "same_unit u1 u4" "traced (inside ?p) w3 w4" by auto
      have "traced (inside ?p) ?w2 (unit_usleep pf 70000 w4)"
        using traced_sleep_after(2) [OF traced_inside_trans [OF t3 k(2)]] .
      from traced_bracket [OF this] b1 k(1) e show ?thesis
        by (auto simp: keeps_same intro: keeps_trans traced_balanced_trans)
    qed
  qed
qed

lemma inverter_process_callback_bus:
  assumes "inverter_process_callback pf u w = Some (rc, u', w')"
  shows "keeps u u' \<and> traced (balanced (unit_path u)) w w'"
proof -
  let ?u = "u\<lparr>init_requested := False\<rparr>"
  obtain u1 w1 where i: "(if init_requested u then inverter_run_init_sequence pf ?u w else (?u, w)) = (u1, w1)"
    by fastforce
  have "keeps u ?u" "unit_path ?u = unit_path u" by (simp_all add: unit_path_def)
  moreover have "keeps ?u u1 \<and> traced (balanced (unit_path ?u)) w w1"
    using i inverter_run_init_sequence_bus [of pf ?u w u1 w1] by (auto simp: keeps_same split: if_splits)
  ultimately have b: "keeps u u1 \<and> traced (balanced (unit_path u)) w w1" by (auto simp: keeps_def)
  from assms i have "drain_and_scan pf inverter_queue_merge_allowed u1 w1 = Some (rc, u', w')"
    by (auto simp: inverter_process_callback_def)
  from traced_keeps_step [OF b drain_and_scan_bus [OF this]] show ?thesis .
qed

lemma inverter_callbacks_disciplined: "disciplined_callbacks (inverter_callbacks pf)"
  unfolding disciplined_callbacks_def
proof (intro conjI allI impI)
  fix u w rc u' w'
  assume "cb_init (inverter_callbacks pf) u w = (rc, u', w')"
  then have "init_callback inverter_unit_connect pf int_inverter_connection_status_reg u w = (rc, u', w')"
    by (simp add: inverter_callbacks_def inverter_init_callback_def)
  moreover have "\<forall>r u1 w1. inverter_unit_connect pf u w = (r, u1, w1) \<longrightarrow>
      keeps u u1 \<and> traced (balanced (unit_path u)) w w1"
    using inverter_unit_connect_bus by blast
  ultimately have "keeps u u' \<and> traced (balanced (unit_path u)) w w'"
    using init_callback_result by blast
  then show "keeps u u'" "traced (balanced (unit_path u)) w w'" by blast+
next
  fix u w rc u' w'
  assume "cb_process (inverter_callbacks pf) u w = Some (rc, u', w')"
  then have "inverter_process_callback pf u w = Some (rc, u', w')" by (simp add: inverter_callbacks_def)
  from inverter_process_callback_bus [OF this]
  show "keeps u u'" "traced (balanced (unit_path u)) w w'" by blast+
next
  fix u w st u' w'
  assume "cb_error (inverter_callbacks pf) st u w = Some (u', w')"
  then have "error_callback pf int_inverter_connection_status_reg st u w = Some (u', w')"
    by (simp add: inverter_callbacks_def inverter_error_callback_def)
  from error_callback_result [OF this]
  show "keeps u u'" "traced (balanced (unit_path u)) w w'" by blast+
qed

text \<open>
  The calls of the bus coordinator around the exchanges on a line: whatever the devices answer,
  in the init and process callbacks and in the whole thread they are bracketed, and what returns
  has made a release for every acquire. \<open>Unit_Hold\<close> shows what the coordinator's slots are at
  the exchanges.
\<close>

theorem inverter_bus_discipline:
  "(\<forall>rc u' w'. inverter_init_callback pf u w = (rc, u', w') \<longrightarrow>
      (\<exists>tr. uw_trace w' = uw_trace w @ tr \<and> (\<forall>d. bus_depth (inverter_bus_path u) tr d = Some d))) \<and>
   (\<forall>rc u' w'. inverter_process_callback pf u w = Some (rc, u', w') \<longrightarrow>
      (\<exists>tr. uw_trace w' = uw_trace w @ tr \<and> (\<forall>d. bus_depth (inverter_bus_path u) tr d = Some d))) \<and>
   (\<forall>u' w'. inverter_thread pf u w = Some (u', w') \<longrightarrow>
      (\<exists>tr. uw_trace w' = uw_trace w @ tr \<and> (\<forall>d. bus_depth (inverter_bus_path u) tr d = Some d)))"
proof -
  have p: "inverter_bus_path u = unit_path u" by (simp add: inverter_bus_path_def unit_path_def)
  have t: "(\<exists>tr. uw_trace w' = uw_trace w @ tr \<and> (\<forall>d. bus_depth (unit_path u) tr d = Some d)) \<longleftrightarrow>
      traced (balanced (unit_path u)) w w'" for w'
    by (simp add: traced_def balanced_def)
  have cb: "cb_init (inverter_callbacks pf) = inverter_init_callback pf"
    "cb_process (inverter_callbacks pf) = inverter_process_callback pf"
    by (simp_all add: inverter_callbacks_def)
  show ?thesis
    unfolding p t inverter_thread_def
    using inverter_callbacks_disciplined [of pf, unfolded disciplined_callbacks_def cb]
      unit_thread_bus [OF _ inverter_callbacks_disciplined [of pf], of pf u w]
    by (intro conjI allI impI) blast+
qed

section \<open>The register programs\<close>

text \<open>
  A host speed that the device's register can hold is programmed as its hundredth, and the
  device's value stands for exactly that speed. But the host port is opened at that speed only
  for the eight rates the serial layer knows: for every other speed that passes, such as 14400,
  the device is told to switch to it while the host stays at 9600.
\<close>

theorem inverter_baud_program:
  assumes "inverter_baud_convert b = Some c"
  shows "100 * unat c = unat b \<and> 4800 \<le> unat b \<and> unat b \<le> 115200 \<and>
    (b \<notin> {4800, 9600, 19200, 38400, 57600, 115200} \<longrightarrow>
       map_baud_rate b = B9600 \<and> c \<noteq> 96)"
proof -
  from assms have b: "\<not> b < 4800" "\<not> b > 115200" "b mod 100 = 0" "c = ucast (b div 100)"
    by (auto simp: inverter_baud_convert_def Let_def split: if_splits)
  have r: "4800 \<le> unat b" "unat b \<le> 115200" using b(1,2) by (simp_all add: word_less_nat_alt)
  have "unat (b mod 100) = 0" using b(3) by simp
  then have m: "unat b mod 100 = 0" by (simp add: unat_mod_distrib)
  have "unat (b div 100) = unat b div 100" by (simp add: unat_div_distrib)
  moreover have "unat b div 100 < 65536" using r(2) by simp
  ultimately have c: "unat c = unat b div 100"
    using b(4) by (simp add: unsigned_ucast_eq take_bit_eq_mod)
  have e: "100 * unat c = unat b"
    using m mult_div_mod_eq [of 100 "unat b"] unfolding c by linarith
  have "c \<noteq> 96" if "b \<noteq> 9600"
  proof
    assume "c = 96"
    with e have "unat b = unat (9600 :: u32)" by simp
    with that show False by (simp only: word_unat_eq_iff)
  qed
  moreover have "map_baud_rate b = B9600" if "b \<notin> {4800, 9600, 19200, 38400, 57600, 115200}"
    using that r by (auto simp: map_baud_rate_def)
  ultimately show ?thesis using e r by auto
qed

theorem inverter_baud_program_witness:
  "inverter_baud_convert 14400 = Some 144 \<and> map_baud_rate 14400 = B9600"
  using inverter_baud_program [of 14400 144]
  by (simp add: inverter_baud_convert_def)

text \<open>
  Connecting a responding inverter over RTU succeeds after the probe and one attempt at each
  entry of the register program, in its order, and does so even when every one of these writes
  fails; the program has 16 entries, or 15 without a valid speed code.
\<close>

theorem inverter_connect_programs_device:
  assumes "cfg_format (u_cfg u) = MODBUS_FORMAT_RTU" and "open_rtu pf u w = (0, u1, w1)"
    and "0 < table_count (u_profile u)"
    and "probe_unit pf u1 (device_address (rows (u_profile u) ! 0)) (unit_acquire pf (inverter_bus_path u) w1)
           = (MB_RTU_CLIENT_OK, w2)"
  shows "\<exists>u' w' tr. inverter_unit_connect pf u w = (0, u', w') \<and> uw_trace w' = uw_trace w @ tr \<and>
    io_calls tr = [Call_connect, Call_probe (device_address (rows (u_profile u) ! 0)) 1] @
      map (\<lambda>(a, v). Call_write a v) (inverter_init_table (u_cfg u)) \<and>
    length (inverter_init_table (u_cfg u)) =
      (if inverter_baud_convert (of_int (cfg_baud_rate (u_cfg u))) = None then 15 else 16)"
proof -
  let ?p = "inverter_bus_path u" and ?a = "device_address (rows (u_profile u) ! 0)"
  have k: "u_cfg u1 = u_cfg u" "u_profile u1 = u_profile u" using open_rtu_bus [OF assms(2)] by (auto simp: keeps_def)
  then have p1: "inverter_bus_path u1 = ?p" by (simp add: inverter_bus_path_def)
  obtain u3 w3 where i: "init_inverter_reg pf u1 w2 = (u3, w3)" by fastforce
  from init_write_loop_result [OF i [unfolded init_inverter_reg_def], of ?p] k obtain t3 where
    t3: "uw_trace w3 = uw_trace w2 @ t3" "io_calls t3 = map (\<lambda>(a, v). Call_write a v) (inverter_init_table (u_cfg u))"
    by auto
  obtain r where t1: "uw_trace w1 = uw_trace w @ [Ev_rtu Call_connect r]"
    using assms(2) by (auto simp: open_rtu_def Let_def split: prod.splits)
  obtain r2 where t2: "uw_trace w2 = uw_trace w1 @ [Ev_acquire ?p, Ev_rtu (Call_probe ?a 1) r2]"
    using assms(4) by (auto simp: probe_unit_def split: prod.splits)
  let ?w = "unit_release pf ?p (unit_usleep pf 70000 w3)"
  have "inverter_unit_connect pf u w = (0, u3, ?w)"
    using assms k p1 i by (simp add: inverter_unit_connect_def Let_def)
  moreover have "uw_trace ?w = uw_trace w @
      (Ev_rtu Call_connect r # Ev_acquire ?p # Ev_rtu (Call_probe ?a 1) r2 # t3 @ [Ev_sleep 70000, Ev_release ?p])"
    using t1 t2 t3(1) by simp
  moreover have "length (inverter_init_table (u_cfg u)) =
      (if inverter_baud_convert (of_int (cfg_baud_rate (u_cfg u))) = None then 15 else 16)"
    by (simp add: inverter_init_table_def Let_def)
  ultimately show ?thesis using t3(2)
    by (intro exI conjI) (assumption | simp)+
qed

text \<open>
  The init sequence attempts the two writes in order and stops at the first failure; the
  flag slot is 1 afterwards exactly when both succeeded and 0 otherwise, and no other slot of
  the pool changes.
\<close>

theorem inverter_init_flag:
  assumes "inverter_run_init_sequence pf u w = (u', w')"
  shows "\<exists>tr k. uw_trace w' = uw_trace w @ tr \<and> k \<le> 2 \<and>
    io_calls tr = take k [Call_write dev_frequency_cmd_reg 0, Call_write dev_operation_cmd_reg 0x1001] \<and>
    uw_pool w' int_inverter_init_flag_reg = (if k = 2 \<and> (\<forall>r\<in>set (io_results tr). r = 0) then 1 else 0) \<and>
    (\<forall>a. a \<noteq> int_inverter_init_flag_reg \<longrightarrow> uw_pool w' a = uw_pool w a)"
proof -
  let ?p = "unit_path u" and ?w0 = "pool_write int_inverter_init_flag_reg 0 w"
  let ?ws = "[(dev_frequency_cmd_reg, 0), (dev_operation_cmd_reg, INVERTER_STOP_BIT OR INVERTER_ENABLE_ACCELERATION_BIT)]"
  obtain ok u2 w2 where l: "sequence_loop pf ?ws u (unit_acquire pf ?p ?w0) = (ok, u2, w2)" by (metis prod.exhaust)
  from sequence_loop_result [OF l, of ?p] obtain tr k where f: "uw_pool w2 = uw_pool ?w0"
    "uw_trace w2 = uw_trace w @ Ev_acquire ?p # tr" "k \<le> 2" "io_calls tr = map (\<lambda>(a, v). Call_write a v) (take k ?ws)"
    "ok \<longleftrightarrow> k = 2 \<and> (\<forall>r\<in>set (io_results tr). r = 0)" by (auto simp: numeral_2_eq_2)
  let ?w3 = "unit_release pf ?p (unit_usleep pf 70000 w2)"
  let ?t = "Ev_acquire ?p # tr @ [Ev_sleep 70000, Ev_release ?p]"
  have w': "w' = (if ok then pool_write int_inverter_init_flag_reg 1 ?w3 else ?w3)"
    using assms l by (simp add: inverter_run_init_sequence_def inverter_bus_path_def unit_path_def [symmetric] Let_def)
  have "io_calls ?t = take k [Call_write dev_frequency_cmd_reg 0, Call_write dev_operation_cmd_reg 0x1001]"
    using f(4) by (simp add: take_map [symmetric])
  moreover have "uw_trace w' = uw_trace w @ ?t" using w' f(2) by simp
  moreover have "io_results ?t = io_results tr" by simp
  moreover have "uw_pool w' int_inverter_init_flag_reg = (if ok then 1 else 0)"
    "\<forall>a. a \<noteq> int_inverter_init_flag_reg \<longrightarrow> uw_pool w' a = uw_pool w a"
    using w' f(1) by (simp_all add: pool_write_def pool_write_register_def)
  ultimately show ?thesis using f(3,5) by (intro exI [of _ ?t] exI [of _ k]) simp
qed

end
