(* ===== verification/Ups_Module.thy ===== *)
theory Ups_Module
  imports Unit_Life
begin

text \<open>
  \<^verbatim>\<open>src/ups_module.c\<close>: the UPS family's own functions on top of \<open>Unit_Core\<close>. The functions
  whose text is that of the inverter module are instances of the shared definitions; the UPS
  module's own are its connection (no register program), its init sequence (a scan) and the
  reboot sequence with its two verified writes.
\<close>

section \<open>Family instances of the shared functions\<close>

definition ups_bus_path :: "gw_unit \<Rightarrow> string option" where
  "ups_bus_path u = bus_path_of (u_cfg u)"

definition ups_read_device_value ::
  "'e platform \<Rightarrow> gw_unit \<Rightarrow> u16 \<Rightarrow> u16 \<Rightarrow> 'e unit_world \<Rightarrow> int \<times> u16 list option \<times> gw_unit \<times> 'e unit_world" where
  "ups_read_device_value pf u addr count w = read_device_value pf u addr count w"

definition ups_write_registers_locked ::
  "'e platform \<Rightarrow> gw_unit \<Rightarrow> u16 \<Rightarrow> u16 list \<Rightarrow> u16 \<Rightarrow> write_mode \<Rightarrow> 'e unit_world \<Rightarrow>
     int \<times> gw_unit \<times> 'e unit_world" where
  "ups_write_registers_locked pf u addr vs count mode w = write_registers_locked pf u addr vs count mode w"

definition ups_write_registers_to_device ::
  "'e platform \<Rightarrow> gw_unit \<Rightarrow> u16 \<Rightarrow> u16 list \<Rightarrow> u16 \<Rightarrow> write_mode \<Rightarrow> 'e unit_world \<Rightarrow>
     int \<times> gw_unit \<times> 'e unit_world" where
  "ups_write_registers_to_device pf u addr vs count mode w = write_registers_to_device pf u addr vs count mode w"

definition ups_read_profile_to_pool ::
  "'e platform \<Rightarrow> bool \<Rightarrow> gw_unit \<Rightarrow> 'e unit_world \<Rightarrow> int \<times> gw_unit \<times> 'e unit_world" where
  "ups_read_profile_to_pool pf track u w = read_profile_to_pool pf track u w"

definition ups_unit_disconnect :: "'e platform \<Rightarrow> gw_unit \<Rightarrow> 'e unit_world \<Rightarrow> gw_unit \<times> 'e unit_world" where
  "ups_unit_disconnect pf u w = unit_disconnect pf u w"

definition ups_interruptible_sleep_ms ::
  "'e platform \<Rightarrow> gw_unit \<Rightarrow> u32 \<Rightarrow> 'e unit_world \<Rightarrow> 'e unit_world option" where
  "ups_interruptible_sleep_ms pf u duration w = interruptible_sleep_ms pf u duration w"

definition ups_set_connection :: "int \<Rightarrow> gw_unit \<Rightarrow> 'e unit_world \<Rightarrow> gw_unit \<times> 'e unit_world" where
  "ups_set_connection state u w = unit_set_connection int_ups_connection_status_reg state u w"

definition ups_queue_init :: cmd_queue where
  "ups_queue_init = queue_init"

definition ups_queue_push ::
  "cmd_queue \<Rightarrow> u16 \<Rightarrow> u16 list option \<Rightarrow> u16 \<Rightarrow> write_mode \<Rightarrow> int \<times> cmd_queue" where
  "ups_queue_push q addr values count mode = queue_push ups_queue_merge_allowed q addr values count mode"

definition ups_queue_pop :: "cmd_queue \<Rightarrow> (write_cmd \<times> cmd_queue) option" where
  "ups_queue_pop q = queue_pop q"

definition ups_unit_from_uid :: "gw_unit list \<Rightarrow> u8 \<Rightarrow> nat option" where
  "ups_unit_from_uid us uid = unit_from_uid us uid"

definition ups_get_primary_uid :: "gw_unit list \<Rightarrow> u8 option" where
  "ups_get_primary_uid us = get_primary_uid us"

definition ups_cmd_push ::
  "gw_unit list \<Rightarrow> u8 \<Rightarrow> u16 \<Rightarrow> u16 list option \<Rightarrow> u16 \<Rightarrow> write_mode \<Rightarrow> int \<times> gw_unit list" where
  "ups_cmd_push us uid addr values count mode = cmd_push ups_queue_merge_allowed us uid addr values count mode"

definition ups_init_request :: "gw_unit list \<Rightarrow> u8 \<Rightarrow> int \<times> gw_unit list" where
  "ups_init_request us uid = init_request us uid"

definition ups_reboot_request :: "gw_unit list \<Rightarrow> u8 \<Rightarrow> int \<times> gw_unit list" where
  "ups_reboot_request us uid =
     (case ups_unit_from_uid us uid of
        None \<Rightarrow> (-1, us)
      | Some i \<Rightarrow> (0, us[i := (us ! i)\<lparr>reboot_requested := True\<rparr>]))"

section \<open>Sequences\<close>

definition ups_run_init_sequence :: "'e platform \<Rightarrow> gw_unit \<Rightarrow> 'e unit_world \<Rightarrow> gw_unit \<times> 'e unit_world" where
  "ups_run_init_sequence pf u w =
     (case ups_read_profile_to_pool pf False u (pool_write int_ups_init_flag_reg 0 w) of
        (rc, u1, w1) \<Rightarrow> (u1, if rc \<noteq> 0 then w1 else pool_write int_ups_init_flag_reg 1 w1))"

text \<open>\<^verbatim>\<open>read_value\<close> is 0 when a read reports success without storing a register.\<close>

definition read_register_value :: "u16 list option \<Rightarrow> u16" where
  "read_register_value out = (case out of Some (v # _) \<Rightarrow> v | _ \<Rightarrow> 0)"

definition ups_restart_cmd :: "'e platform \<Rightarrow> gw_unit \<Rightarrow> 'e unit_world \<Rightarrow> int \<times> gw_unit \<times> 'e unit_world" where
  "ups_restart_cmd pf u w =
     (case ups_write_registers_to_device pf u dev_ups_restart_reg [0x3030, 0x3031] 2 WRITE_MODE_FC16 w of
        (result, u1, w1) \<Rightarrow>
          if result \<noteq> 0 then (-1, u1, w1)
          else
            (case ups_read_device_value pf u1 dev_ups_reboot_verify_reg 1 w1 of
               (result, out, u2, w2) \<Rightarrow>
                 if result \<noteq> 0 then (-1, u2, w2)
                 else if read_register_value out AND push_bit 13 1 = 0 then (-1, u2, w2)
                 else (0, u2, w2)))"

definition ups_shutdown_cmd :: "'e platform \<Rightarrow> gw_unit \<Rightarrow> 'e unit_world \<Rightarrow> int \<times> gw_unit \<times> 'e unit_world" where
  "ups_shutdown_cmd pf u w =
     (case ups_write_registers_to_device pf u dev_ups_shutdown_reg [0x3031] 1 WRITE_MODE_FC16 w of
        (result, u1, w1) \<Rightarrow>
          if result \<noteq> 0 then (-1, u1, w1)
          else
            (case ups_read_device_value pf u1 dev_ups_reboot_verify_reg 1 w1 of
               (result, out, u2, w2) \<Rightarrow>
                 if result \<noteq> 0 then (-1, u2, w2)
                 else if read_register_value out AND push_bit 15 1 = 0 then (-1, u2, w2)
                 else (0, u2, w2)))"

definition ups_run_reboot_sequence :: "'e platform \<Rightarrow> gw_unit \<Rightarrow> 'e unit_world \<Rightarrow> gw_unit \<times> 'e unit_world" where
  "ups_run_reboot_sequence pf u w =
     (case ups_restart_cmd pf u w of
        (rc, u1, w1) \<Rightarrow>
          if rc \<noteq> 0 then (u1, w1)
          else
            (case ups_shutdown_cmd pf u1 (unit_usleep pf MODBUS_DEFAULT_INTER_SEGMENT_DELAY_US w1) of
               (rc2, u2, w2) \<Rightarrow> (u2, w2)))"

section \<open>Connection and callbacks\<close>

definition ups_unit_connect ::
  "'e platform \<Rightarrow> gw_unit \<Rightarrow> 'e unit_world \<Rightarrow> int \<times> gw_unit \<times> 'e unit_world" where
  "ups_unit_connect pf u w =
     (if cfg_format (u_cfg u) = MODBUS_FORMAT_TCP then open_tcp pf u w
      else
        (case open_rtu pf u w of
           (rc, u1, w1) \<Rightarrow>
             if rc \<noteq> 0 then (-1, u1, w1)
             else if table_count (u_profile u1) > 0 then
               let path = ups_bus_path u1;
                   (probe_rc, w2) = probe_unit pf u1 (device_address (rows (u_profile u1) ! 0)) (unit_acquire pf path w1);
                   w3 = unit_release pf path w2
               in if probe_rc \<noteq> MB_RTU_CLIENT_OK then (case close_rtu pf u1 w3 of (u4, w4) \<Rightarrow> (-1, u4, w4))
                  else (0, u1, w3)
             else (0, u1, w1)))"

definition ups_init_callback ::
  "'e platform \<Rightarrow> gw_unit \<Rightarrow> 'e unit_world \<Rightarrow> int \<times> gw_unit \<times> 'e unit_world" where
  "ups_init_callback pf u w = init_callback ups_unit_connect pf int_ups_connection_status_reg u w"

definition ups_process_callback ::
  "'e platform \<Rightarrow> gw_unit \<Rightarrow> 'e unit_world \<Rightarrow> (int \<times> gw_unit \<times> 'e unit_world) option" where
  "ups_process_callback pf u w =
     (let (u1, w1) = (if init_requested u then ups_run_init_sequence pf (u\<lparr>init_requested := False\<rparr>) w
                      else (u\<lparr>init_requested := False\<rparr>, w));
          (u2, w2) = (if reboot_requested u1 then ups_run_reboot_sequence pf (u1\<lparr>reboot_requested := False\<rparr>) w1
                      else (u1\<lparr>reboot_requested := False\<rparr>, w1))
      in drain_and_scan pf ups_queue_merge_allowed u2 w2)"

definition ups_error_callback ::
  "'e platform \<Rightarrow> int \<Rightarrow> gw_unit \<Rightarrow> 'e unit_world \<Rightarrow> (gw_unit \<times> 'e unit_world) option" where
  "ups_error_callback pf state u w = error_callback pf int_ups_connection_status_reg state u w"

definition ups_msg_callback ::
  "'e platform \<Rightarrow> u16 \<Rightarrow> u16 list option \<Rightarrow> nat \<Rightarrow> gw_unit \<Rightarrow> 'e unit_world \<Rightarrow> int \<times> gw_unit \<times> 'e unit_world" where
  "ups_msg_callback pf addr values count u w = msg_callback pf addr values count u w"

definition ups_callbacks :: "'e platform \<Rightarrow> 'e unit_callbacks" where
  "ups_callbacks pf =
     \<lparr>cb_init = ups_init_callback pf, cb_process = ups_process_callback pf, cb_error = ups_error_callback pf\<rparr>"

definition ups_thread :: "'e platform \<Rightarrow> gw_unit \<Rightarrow> 'e unit_world \<Rightarrow> (gw_unit \<times> 'e unit_world) option" where
  "ups_thread pf u w = unit_thread pf (ups_callbacks pf) u w"

section \<open>Start and stop\<close>

definition start_ups_modules ::
  "(nat \<Rightarrow> bool) \<Rightarrow> int \<Rightarrow> module_config list \<Rightarrow> device_map_state \<Rightarrow> pool \<Rightarrow> start_state" where
  "start_ups_modules thread_ok bridge_rc ups_cfgs m pl =
     start_modules ups1_profile int_ups_connection_status_reg thread_ok bridge_rc ups_cfgs m pl"

definition stop_ups_modules :: "gw_unit list \<Rightarrow> int \<times> gw_unit list \<times> gw_unit list" where
  "stop_ups_modules us = stop_modules us"

lemmas ups_shared_defs = ups_bus_path_def ups_read_device_value_def ups_write_registers_locked_def
  ups_write_registers_to_device_def ups_read_profile_to_pool_def ups_unit_disconnect_def

section \<open>Bus discipline\<close>

lemma write_to_device_calls:
  assumes "write_registers_to_device pf u a vs n WRITE_MODE_FC16 w = (rc, u', w')"
  shows "same_unit u u' \<and> uw_pool w' = uw_pool w \<and> (\<exists>tr r. uw_trace w' = uw_trace w @ tr \<and>
    io_calls tr = [Call_write_many a (take (unat n) vs)] \<and> io_results tr = [r] \<and> (rc = 0 \<longleftrightarrow> r = 0))"
proof -
  let ?p = "unit_path u"
  obtain r u1 w1 where l: "write_registers_locked pf u a vs n WRITE_MODE_FC16 (unit_acquire pf ?p w) = (r, u1, w1)"
    by (metis prod.exhaust)
  from write_registers_locked_frame [OF l] obtain r1 where f: "same_unit u u1" "uw_pool w1 = uw_pool w"
    "uw_trace w1 = uw_trace w @ [Ev_acquire ?p, plain_event u (Call_write_many a (take (unat n) vs)) r1]"
    "r = (if r1 = 0 then 0 else -1)" by (auto simp: write_call_def)
  have e: "rc = r" "u' = u1" "w' = unit_release pf ?p (if r = 0 then unit_usleep pf 70000 w1 else w1)"
    using assms l by (auto simp: write_registers_to_device_def unit_path_def)
  let ?t = "Ev_acquire ?p # plain_event u (Call_write_many a (take (unat n) vs)) r1 #
      (if r = 0 then [Ev_sleep 70000] else []) @ [Ev_release ?p]"
  have "uw_trace w' = uw_trace w @ ?t" using e(3) f(3) by simp
  moreover have "io_calls ?t = [Call_write_many a (take (unat n) vs)]" "io_results ?t = [r1]"
    by (simp_all add: plain_event_def)
  moreover have "uw_pool w' = uw_pool w" using e(3) f(2) by simp
  moreover have "rc = 0 \<longleftrightarrow> r1 = 0" using e(1) f(4) by simp
  ultimately show ?thesis using e(2) f(1) by blast
qed

lemma verified_write_bus:
  assumes "write_registers_to_device pf u a vs n m w = (r1, u1, w1)"
    and "read_device_value pf u1 b k w1 = (r2, out, u2, w2)"
  shows "keeps u u1 \<and> traced (balanced (unit_path u)) w w1 \<and> keeps u u2 \<and> traced (balanced (unit_path u)) w w2"
  using write_registers_to_device_bus [OF assms(1)] read_device_value_bus [OF assms(2)]
  by (auto simp: keeps_path intro: keeps_trans traced_balanced_trans)

lemma ups_restart_cmd_bus:
  assumes "ups_restart_cmd pf u w = (rc, u', w')"
  shows "keeps u u' \<and> traced (balanced (unit_path u)) w w'"
proof -
  obtain r1 u1 w1 where a: "write_registers_to_device pf u dev_ups_restart_reg [0x3030, 0x3031] 2 WRITE_MODE_FC16 w
      = (r1, u1, w1)" by (metis prod.exhaust)
  obtain r2 out u2 w2 where b: "read_device_value pf u1 dev_ups_reboot_verify_reg 1 w1 = (r2, out, u2, w2)"
    by (metis prod.exhaust)
  from verified_write_bus [OF a b] assms a b show ?thesis
    by (auto simp: ups_restart_cmd_def ups_shared_defs split: if_splits)
qed

lemma ups_shutdown_cmd_bus:
  assumes "ups_shutdown_cmd pf u w = (rc, u', w')"
  shows "keeps u u' \<and> traced (balanced (unit_path u)) w w'"
proof -
  obtain r1 u1 w1 where a: "write_registers_to_device pf u dev_ups_shutdown_reg [0x3031] 1 WRITE_MODE_FC16 w
      = (r1, u1, w1)" by (metis prod.exhaust)
  obtain r2 out u2 w2 where b: "read_device_value pf u1 dev_ups_reboot_verify_reg 1 w1 = (r2, out, u2, w2)"
    by (metis prod.exhaust)
  from verified_write_bus [OF a b] assms a b show ?thesis
    by (auto simp: ups_shutdown_cmd_def ups_shared_defs split: if_splits)
qed

lemma ups_run_reboot_sequence_bus:
  assumes "ups_run_reboot_sequence pf u w = (u', w')"
  shows "keeps u u' \<and> traced (balanced (unit_path u)) w w'"
proof -
  obtain r1 u1 w1 where a: "ups_restart_cmd pf u w = (r1, u1, w1)" by (metis prod.exhaust)
  obtain r2 u2 w2 where b: "ups_shutdown_cmd pf u1 (unit_usleep pf 40000 w1) = (r2, u2, w2)" by (metis prod.exhaust)
  note k1 = ups_restart_cmd_bus [OF a] and k2 = ups_shutdown_cmd_bus [OF b]
  have "keeps u u1 \<and> traced (balanced (unit_path u)) w (unit_usleep pf 40000 w1)"
    using k1 by (simp add: traced_sleep_after)
  from traced_keeps_step [OF this k2] k1 assms a b show ?thesis
    by (auto simp: ups_run_reboot_sequence_def split: if_splits)
qed

lemma ups_run_init_sequence_bus:
  assumes "ups_run_init_sequence pf u w = (u', w')"
  shows "keeps u u' \<and> traced (balanced (unit_path u)) w w'"
proof -
  obtain rc u1 w1 where r: "read_profile_to_pool pf False u (pool_write int_ups_init_flag_reg 0 w) = (rc, u1, w1)"
    by (metis prod.exhaust)
  from read_profile_to_pool_bus [OF r] assms r show ?thesis
    by (auto simp: ups_run_init_sequence_def ups_shared_defs)
qed

lemma ups_unit_connect_bus:
  assumes "ups_unit_connect pf u w = (rc, u', w')"
  shows "keeps u u' \<and> traced (balanced (unit_path u)) w w'"
proof (cases "cfg_format (u_cfg u) = MODBUS_FORMAT_TCP")
  case True
  with assms have "open_tcp pf u w = (rc, u', w')" by (simp add: ups_unit_connect_def)
  from open_tcp_bus [OF this] show ?thesis by blast
next
  case False
  let ?p = "unit_path u"
  obtain r1 u1 w1 where o: "open_rtu pf u w = (r1, u1, w1)" by (metis prod.exhaust)
  note b1 = open_rtu_bus [OF o]
  then have p1: "ups_bus_path u1 = ?p" by (simp add: ups_bus_path_def unit_path_def keeps_def)
  obtain pr w2 where pb: "probe_unit pf u1 (device_address (rows (u_profile u1) ! 0)) (unit_acquire pf ?p w1) = (pr, w2)"
    by fastforce
  let ?w3 = "unit_release pf ?p w2"
  have k3: "keeps u u1 \<and> traced (balanced ?p) w ?w3"
    using b1 traced_bracket [OF probe_unit_bus [OF pb]] by (auto intro: traced_balanced_trans)
  obtain u4 w4 where c: "close_rtu pf u1 ?w3 = (u4, w4)" by fastforce
  have "keeps u1 u4 \<and> traced (balanced (unit_path u1)) ?w3 w4" using close_rtu_bus [OF c] by blast
  note k4 = traced_keeps_step [OF k3 this]
  show ?thesis
    using assms o False p1 pb c b1 k3 k4
    by (auto simp: ups_unit_connect_def Let_def split: if_splits)
qed

lemma ups_process_callback_bus:
  assumes "ups_process_callback pf u w = Some (rc, u', w')"
  shows "keeps u u' \<and> traced (balanced (unit_path u)) w w'"
proof -
  let ?u = "u\<lparr>init_requested := False\<rparr>"
  obtain u1 w1 where i: "(if init_requested u then ups_run_init_sequence pf ?u w else (?u, w)) = (u1, w1)"
    by fastforce
  let ?u1 = "u1\<lparr>reboot_requested := False\<rparr>"
  obtain u2 w2 where r: "(if reboot_requested u1 then ups_run_reboot_sequence pf ?u1 w1 else (?u1, w1)) = (u2, w2)"
    by fastforce
  have p: "unit_path ?u = unit_path u" "unit_path ?u1 = unit_path u1" by (simp_all add: unit_path_def)
  have b1: "keeps u u1 \<and> traced (balanced (unit_path u)) w w1"
    using i ups_run_init_sequence_bus [of pf ?u w u1 w1] p by (auto simp: keeps_def split: if_splits)
  have "keeps u1 u2 \<and> traced (balanced (unit_path u1)) w1 w2"
    using r ups_run_reboot_sequence_bus [of pf ?u1 w1 u2 w2] p by (auto simp: keeps_def split: if_splits)
  note b2 = traced_keeps_step [OF b1 this]
  from assms i r have "drain_and_scan pf ups_queue_merge_allowed u2 w2 = Some (rc, u', w')"
    by (auto simp: ups_process_callback_def)
  from traced_keeps_step [OF b2 drain_and_scan_bus [OF this]] show ?thesis .
qed

lemma ups_callbacks_disciplined: "disciplined_callbacks (ups_callbacks pf)"
  unfolding disciplined_callbacks_def
proof (intro conjI allI impI)
  fix u w rc u' w'
  assume "cb_init (ups_callbacks pf) u w = (rc, u', w')"
  then have "init_callback ups_unit_connect pf int_ups_connection_status_reg u w = (rc, u', w')"
    by (simp add: ups_callbacks_def ups_init_callback_def)
  moreover have "\<forall>r u1 w1. ups_unit_connect pf u w = (r, u1, w1) \<longrightarrow>
      keeps u u1 \<and> traced (balanced (unit_path u)) w w1"
    using ups_unit_connect_bus by blast
  ultimately have "keeps u u' \<and> traced (balanced (unit_path u)) w w'"
    using init_callback_result by blast
  then show "keeps u u'" "traced (balanced (unit_path u)) w w'" by blast+
next
  fix u w rc u' w'
  assume "cb_process (ups_callbacks pf) u w = Some (rc, u', w')"
  then have "ups_process_callback pf u w = Some (rc, u', w')" by (simp add: ups_callbacks_def)
  from ups_process_callback_bus [OF this]
  show "keeps u u'" "traced (balanced (unit_path u)) w w'" by blast+
next
  fix u w st u' w'
  assume "cb_error (ups_callbacks pf) st u w = Some (u', w')"
  then have "error_callback pf int_ups_connection_status_reg st u w = Some (u', w')"
    by (simp add: ups_callbacks_def ups_error_callback_def)
  from error_callback_result [OF this]
  show "keeps u u'" "traced (balanced (unit_path u)) w w'" by blast+
qed

text \<open>
  The bus discipline of the UPS thread: whatever the devices answer, each callback that
  returns has used a serial line only while holding the bus of its path and has released
  exactly what it acquired, and so has the whole thread when it ends.
\<close>

theorem ups_bus_discipline:
  "(\<forall>rc u' w'. ups_init_callback pf u w = (rc, u', w') \<longrightarrow>
      (\<exists>tr. uw_trace w' = uw_trace w @ tr \<and> (\<forall>d. bus_depth (ups_bus_path u) tr d = Some d))) \<and>
   (\<forall>rc u' w'. ups_process_callback pf u w = Some (rc, u', w') \<longrightarrow>
      (\<exists>tr. uw_trace w' = uw_trace w @ tr \<and> (\<forall>d. bus_depth (ups_bus_path u) tr d = Some d))) \<and>
   (\<forall>u' w'. ups_thread pf u w = Some (u', w') \<longrightarrow>
      (\<exists>tr. uw_trace w' = uw_trace w @ tr \<and> (\<forall>d. bus_depth (ups_bus_path u) tr d = Some d)))"
proof -
  have p: "ups_bus_path u = unit_path u" by (simp add: ups_bus_path_def unit_path_def)
  have t: "(\<exists>tr. uw_trace w' = uw_trace w @ tr \<and> (\<forall>d. bus_depth (unit_path u) tr d = Some d)) \<longleftrightarrow>
      traced (balanced (unit_path u)) w w'" for w'
    by (simp add: traced_def balanced_def)
  have cb: "cb_init (ups_callbacks pf) = ups_init_callback pf"
    "cb_process (ups_callbacks pf) = ups_process_callback pf"
    by (simp_all add: ups_callbacks_def)
  show ?thesis
    unfolding p t ups_thread_def
    using ups_callbacks_disciplined [of pf, unfolded disciplined_callbacks_def cb]
      unit_thread_bus [OF _ ups_callbacks_disciplined [of pf], of pf u w]
    by (intro conjI allI impI) blast+
qed

section \<open>The sequences\<close>

text \<open>A write followed by a read of the verify register with bit \<open>b\<close> set.\<close>

definition verified :: "'e platform \<Rightarrow> u16 \<Rightarrow> u16 list \<Rightarrow> u16 \<Rightarrow> nat \<Rightarrow> gw_unit \<Rightarrow> 'e unit_world \<Rightarrow> bool" where
  "verified pf a vs n b u w \<longleftrightarrow> (\<exists>u1 w1 out u2 w2.
     ups_write_registers_to_device pf u a vs n WRITE_MODE_FC16 w = (0, u1, w1) \<and>
     ups_read_device_value pf u1 dev_ups_reboot_verify_reg 1 w1 = (0, out, u2, w2) \<and>
     bit (read_register_value out) b)"

lemma restart_calls:
  assumes "ups_restart_cmd pf u w = (rc, u', w')"
  shows "(rc = 0 \<longleftrightarrow> verified pf dev_ups_restart_reg [0x3030, 0x3031] 2 13 u w) \<and>
    (\<exists>tr k. uw_trace w' = uw_trace w @ tr \<and> 1 \<le> k \<and> k \<le> 2 \<and> (rc = 0 \<longrightarrow> k = 2) \<and> io_calls tr =
       take k [Call_write_many dev_ups_restart_reg [0x3030, 0x3031], Call_read dev_ups_reboot_verify_reg 1])"
proof -
  obtain r1 u1 w1 where a: "write_registers_to_device pf u dev_ups_restart_reg [0x3030, 0x3031] 2 WRITE_MODE_FC16 w
      = (r1, u1, w1)" by (metis prod.exhaust)
  obtain r2 out u2 w2 where b: "read_device_value pf u1 dev_ups_reboot_verify_reg 1 w1 = (r2, out, u2, w2)"
    by (metis prod.exhaust)
  from write_to_device_calls [OF a] obtain t1 where t1: "uw_trace w1 = uw_trace w @ t1"
    "io_calls t1 = [Call_write_many dev_ups_restart_reg [0x3030, 0x3031]]" by auto
  have t2: "uw_trace w2 = uw_trace w @ (t1 @ read_events u1 dev_ups_reboot_verify_reg 1 r2)"
    using read_device_value_frame [OF b] t1(1) by simp
  have bit13: "read_register_value out AND push_bit 13 1 = 0 \<longleftrightarrow> \<not> bit (read_register_value out) 13"
    by (simp only: push_bit_of_1 and_exp_eq_0_iff_not_bit)
  have v: "rc = 0 \<longleftrightarrow> verified pf dev_ups_restart_reg [0x3030, 0x3031] 2 13 u w"
    using assms a b bit13 by (auto simp: ups_restart_cmd_def verified_def ups_shared_defs split: if_splits)
  show ?thesis
  proof (cases "r1 = 0")
    case True
    then have "w' = w2" using assms a b by (auto simp: ups_restart_cmd_def ups_shared_defs split: if_splits)
    with v t2 t1(2) show ?thesis
      by (intro conjI exI [of _ "t1 @ read_events u1 dev_ups_reboot_verify_reg 1 r2"] exI [of _ 2]) simp_all
  next
    case False
    then have "w' = w1" "rc = -1" using assms a by (auto simp: ups_restart_cmd_def ups_shared_defs)
    with v t1 show ?thesis by (intro conjI exI [of _ t1] exI [of _ 1]) simp_all
  qed
qed

lemma shutdown_calls:
  assumes "ups_shutdown_cmd pf u w = (rc, u', w')"
  shows "\<exists>tr k. uw_trace w' = uw_trace w @ tr \<and> 1 \<le> k \<and> k \<le> 2 \<and> io_calls tr =
       take k [Call_write_many dev_ups_shutdown_reg [0x3031], Call_read dev_ups_reboot_verify_reg 1]"
proof -
  obtain r1 u1 w1 where a: "write_registers_to_device pf u dev_ups_shutdown_reg [0x3031] 1 WRITE_MODE_FC16 w
      = (r1, u1, w1)" by (metis prod.exhaust)
  obtain r2 out u2 w2 where b: "read_device_value pf u1 dev_ups_reboot_verify_reg 1 w1 = (r2, out, u2, w2)"
    by (metis prod.exhaust)
  from write_to_device_calls [OF a] obtain t1 where t1: "uw_trace w1 = uw_trace w @ t1"
    "io_calls t1 = [Call_write_many dev_ups_shutdown_reg [0x3031]]" by auto
  have t2: "uw_trace w2 = uw_trace w @ (t1 @ read_events u1 dev_ups_reboot_verify_reg 1 r2)"
    using read_device_value_frame [OF b] t1(1) by simp
  show ?thesis
  proof (cases "r1 = 0")
    case True
    then have "w' = w2" using assms a b by (auto simp: ups_shutdown_cmd_def ups_shared_defs split: if_splits)
    with t2 t1(2) show ?thesis
      by (intro exI [of _ "t1 @ read_events u1 dev_ups_reboot_verify_reg 1 r2"] exI [of _ 2]) simp
  next
    case False
    then have "w' = w1" using assms a by (auto simp: ups_shutdown_cmd_def ups_shared_defs)
    with t1 show ?thesis by (intro exI [of _ t1] exI [of _ 1]) simp
  qed
qed

text \<open>
  C39. The reboot sequence makes its four exchanges strictly in order and stops at the first that
  fails; in particular the shutdown command goes out only after the restart command was
  accepted and the verify register was read back with bit 13 set.
\<close>

theorem ups_reboot_order:
  assumes "ups_run_reboot_sequence pf u w = (u', w')"
  shows "\<exists>tr k. uw_trace w' = uw_trace w @ tr \<and> 1 \<le> k \<and> k \<le> 4 \<and>
    io_calls tr = take k [Call_write_many dev_ups_restart_reg [0x3030, 0x3031], Call_read dev_ups_reboot_verify_reg 1,
       Call_write_many dev_ups_shutdown_reg [0x3031], Call_read dev_ups_reboot_verify_reg 1] \<and>
    (2 < k \<longleftrightarrow> verified pf dev_ups_restart_reg [0x3030, 0x3031] 2 13 u w)"
proof -
  let ?R = "[Call_write_many dev_ups_restart_reg [0x3030, 0x3031], Call_read dev_ups_reboot_verify_reg 1]"
  let ?S = "[Call_write_many dev_ups_shutdown_reg [0x3031], Call_read dev_ups_reboot_verify_reg 1]"
  obtain r1 u1 w1 where a: "ups_restart_cmd pf u w = (r1, u1, w1)" by (metis prod.exhaust)
  obtain r2 u2 w2 where b: "ups_shutdown_cmd pf u1 (unit_usleep pf 40000 w1) = (r2, u2, w2)" by (metis prod.exhaust)
  from restart_calls [OF a] obtain t1 k where t1: "r1 = 0 \<longleftrightarrow> verified pf dev_ups_restart_reg [0x3030, 0x3031] 2 13 u w"
    "uw_trace w1 = uw_trace w @ t1" "1 \<le> k" "k \<le> 2" "r1 = 0 \<longrightarrow> k = 2" "io_calls t1 = take k ?R" by blast
  from shutdown_calls [OF b] obtain t2 l where t2: "uw_trace w2 = uw_trace w1 @ (Ev_sleep 40000 # t2)"
    "1 \<le> l" "l \<le> 2" "io_calls t2 = take l ?S" by auto
  show ?thesis
  proof (cases "r1 = 0")
    case True
    then have w': "w' = w2" using assms a b by (simp add: ups_run_reboot_sequence_def)
    have "take (2 + l) (?R @ ?S) = ?R @ take l ?S" by simp
    then have "io_calls (t1 @ Ev_sleep 40000 # t2) = take (2 + l) (?R @ ?S)"
      using True t1(5,6) t2(4) by simp
    moreover have "uw_trace w' = uw_trace w @ (t1 @ Ev_sleep 40000 # t2)" using w' t1(2) t2(1) by simp
    moreover have "1 \<le> 2 + l" "2 + l \<le> 4" "2 < 2 + l" using t2(2,3) by simp_all
    ultimately show ?thesis using True t1(1) by (intro exI [of _ "t1 @ Ev_sleep 40000 # t2"] exI [of _ "2 + l"]) simp
  next
    case False
    then have w': "w' = w1" using assms a by (simp add: ups_run_reboot_sequence_def)
    have "k = 1 \<or> k = 2" using t1(3,4) by auto
    then have "take k (?R @ ?S) = take k ?R" by (elim disjE) simp_all
    with False w' t1 show ?thesis by (intro exI [of _ t1] exI [of _ k]) simp
  qed
qed

text \<open>
  The UPS init sequence sets its flag exactly when a scan without failure counting read
  every segment; it never changes the failure counter or the connection state.
\<close>

theorem ups_init_flag:
  assumes "ups_run_init_sequence pf u w = (u', w')" and "u_profile u = ups1_profile"
  shows "\<exists>tr k. uw_trace w' = uw_trace w @ tr \<and> 0 < k \<and> k \<le> length (profile_segments ups1_profile) \<and>
    io_calls tr = map (segment_call ups1_profile) (take k (profile_segments ups1_profile)) \<and>
    uw_pool w' int_ups_init_flag_reg =
      (if k = length (profile_segments ups1_profile) \<and> (\<forall>r\<in>set (io_results tr). r = 0) then 1 else 0) \<and>
    comm_fail_count u' = comm_fail_count u \<and> connection_state u' = connection_state u"
proof -
  let ?p = "unit_path u" and ?w0 = "pool_write int_ups_init_flag_reg 0 w" and ?segs = "profile_segments ups1_profile"
  have n: "0 < table_count (u_profile u)" using assms(2) by (simp add: table_count_def ups1_rows ups1_mapping_table_def)
  obtain rc u1 w1 where run: "run_segments pf False ?segs (replicate 125 0) u (unit_acquire pf ?p ?w0) = (rc, u1, w1)"
    by (metis prod.exhaust)
  have "?segs \<noteq> []" using profile_segments_cover [OF n] assms(2) by auto
  with run_segments_untracked [OF run] assms(2) obtain tr k where f: "same_unit u u1"
    "uw_trace w1 = uw_trace w @ Ev_acquire ?p # tr" "k \<le> length ?segs" "0 < k"
    "io_calls tr = map (segment_call ups1_profile) (take k ?segs)"
    "rc = 0 \<longleftrightarrow> k = length ?segs \<and> (\<forall>r\<in>set (io_results tr). r = 0)" by auto
  have "read_profile_to_pool pf False u ?w0 = (rc, u1, unit_release pf ?p w1)"
    using n run assms(2) by (simp add: read_profile_to_pool_segments)
  then have e: "u' = u1" "w' = (if rc \<noteq> 0 then unit_release pf ?p w1
      else pool_write int_ups_init_flag_reg 1 (unit_release pf ?p w1))"
    using assms(1) by (auto simp: ups_run_init_sequence_def ups_shared_defs)
  have "pool_address m \<noteq> int_ups_init_flag_reg" if "m \<in> set (rows ups1_profile)" for m
    using flag_slots_apart that by (auto simp: flag_slots_def)
  then have "uw_pool w1 int_ups_init_flag_reg = uw_pool (unit_acquire pf ?p ?w0) int_ups_init_flag_reg"
    using assms(2) by (intro run_segments_other [OF run]) simp
  then have "uw_pool w1 int_ups_init_flag_reg = 0"
    by (simp add: pool_write_def pool_write_register_def)
  then have "uw_pool w' int_ups_init_flag_reg = (if rc = 0 then 1 else 0)"
    using e(2) by (simp add: pool_write_def pool_write_register_def)
  moreover have "uw_trace w' = uw_trace w @ (Ev_acquire ?p # tr @ [Ev_release ?p])" using e(2) f(2) by simp
  moreover have "io_calls (Ev_acquire ?p # tr @ [Ev_release ?p]) = map (segment_call ups1_profile) (take k ?segs)"
    "io_results (Ev_acquire ?p # tr @ [Ev_release ?p]) = io_results tr" using f(5) by simp_all
  ultimately show ?thesis using f(3,4,6) same_unitD [OF f(1)] e(1)
    by (intro exI [of _ "Ev_acquire ?p # tr @ [Ev_release ?p]"] exI [of _ k]) simp
qed

end
