(* ===== verification/Unit_Witness.thy ===== *)
theory Unit_Witness
  imports Inverter_Module Ups_Module
begin

text \<open>
  A concrete platform on which the properties of the units are applied: the environment is an
  input buffer and a clock; the serial line answers with a fixed function, the TCP peer is a
  server with register contents \<open>dev\<close>.
\<close>

section \<open>The platform\<close>

definition server_answer :: "(u16 \<Rightarrow> u16) \<Rightarrow> u8 list \<Rightarrow> u8 list" where
  "server_answer dev req =
     (if req ! 7 = MODBUS_FUNC_READ_HOLDING_REGISTERS then
        snd (mb_tcp_build_read_registers_response (be_join (req ! 0) (req ! 1)) (req ! 7) (req ! 6)
               (Some (dev_regs dev (be_join (req ! 8) (req ! 9)) (be_join (req ! 10) (req ! 11))))
               (be_join (req ! 10) (req ! 11)) MODBUS_TCP_MAX_ADU_LENGTH)
      else [req ! 0, req ! 1, 0, 0, 0, 6] @ take 6 (drop 6 req))"

definition server_os :: "(u16 \<Rightarrow> u16) \<Rightarrow> (u8 list \<times> int) socket_os" where
  "server_os dev =
     \<lparr>sk_socket = (\<lambda>e. (3, e)), sk_setsockopt = (\<lambda>fd opt e. (True, e)), sk_inet_pton = (\<lambda>h. True),
      sk_set_nonblock = (\<lambda>fd b e. e), sk_connect = (\<lambda>fd h p e. (Connect_ok, e)),
      sk_wait_writable = (\<lambda>fd t e. (True, e)), sk_so_error = (\<lambda>fd e. (0, e)),
      sk_shutdown = (\<lambda>fd e. e), sk_close = (\<lambda>fd (b, t). ([], t)),
      sk_send = (\<lambda>fd req (b, t). (int (length req), (b @ server_answer dev req, t))),
      sk_recv = (\<lambda>fd n (b, t). if b = [] then (Recv_timeout, (b, t)) else (Recv_bytes (take n b), (drop n b, t))),
      sk_stack = (\<lambda>e. replicate 260 0), sk_mutex_ok = (\<lambda>e. True)\<rparr>"

definition demo_pf ::
  "(u8 list \<Rightarrow> u8 list) \<Rightarrow> (u16 \<Rightarrow> u16) \<Rightarrow> (u16 \<times> u16 list \<times> u16 \<times> write_mode) list \<Rightarrow> bool \<Rightarrow>
     (u8 list \<times> int) platform" where
  "demo_pf reply dev pushes stopped =
     \<lparr>pf_serial = test_os reply, pf_socket = server_os dev, pf_self = 1,
      pf_bus_wait = (\<lambda>p s e. (s, e)), pf_pushes = (\<lambda>e. (pushes, e)), pf_stopped = (\<lambda>e. stopped)\<rparr>"

definition demo_world :: "(u8 list \<times> int) unit_world" where
  "demo_world = \<lparr>uw_pool = (\<lambda>_. 0), uw_bus = bus_coord_init,
     uw_rtu = replicate MB_RTU_MAX_SHARED_BUSES zero_bus, uw_env = ([], 0), uw_trace = [], uw_line = []\<rparr>"

definition tcp_module :: module_config where
  "tcp_module = \<lparr>cfg_name = ''U1'', enabled = True, modbus_uid = 1, cfg_format = MODBUS_FORMAT_TCP,
     cfg_path = [], cfg_baud_rate = 0, cfg_ip = ''10.0.0.7'', cfg_port = 502\<rparr>"

definition rtu_module :: module_config where
  "rtu_module = \<lparr>cfg_name = ''U2'', enabled = True, modbus_uid = 1, cfg_format = MODBUS_FORMAT_RTU,
     cfg_path = ''/dev/ttyS1'', cfg_baud_rate = 14400, cfg_ip = [], cfg_port = 0\<rparr>"

text \<open>A unit on a socket, open or not.\<close>

definition tcp_unit :: "device_map_profile \<Rightarrow> int \<Rightarrow> gw_unit" where
  "tcp_unit p s = (fresh_unit p tcp_module)\<lparr>u_tcp := zeroed_tcp_ctx\<lparr>sock := s\<rparr>\<rparr>"

lemma tcp_unit_simps [simp]:
  "u_cfg (tcp_unit p s) = tcp_module" "u_profile (tcp_unit p s) = p" "comm_fail_count (tcp_unit p s) = 0"
  "u_queue (tcp_unit p s) = queue_init" "cfg_format tcp_module = MODBUS_FORMAT_TCP"
  "sock (u_tcp (tcp_unit p s)) = s" "init_requested (tcp_unit p s) = False"
  by (simp_all add: tcp_unit_def fresh_unit_def tcp_module_def zeroed_tcp_ctx_def)

lemma demo_pf_simps [simp]:
  "pf_serial (demo_pf r d ps st) = test_os r" "pf_socket (demo_pf r d ps st) = server_os d"
  "pf_self (demo_pf r d ps st) = 1" "pf_pushes (demo_pf r d ps st) e = (ps, e)"
  "pf_stopped (demo_pf r d ps st) e = st" "pf_bus_wait (demo_pf r d ps st) p s e = (s, e)"
  by (simp_all add: demo_pf_def)

lemma server_os_simps [simp]:
  "sk_send (server_os dev) fd req (b, t) = (int (length req), (b @ server_answer dev req, t))"
  by (simp add: server_os_def)

lemma server_os_stream: "byte_stream (server_os dev) fd fst"
  by (auto simp: byte_stream_def server_os_def)

lemma test_os_usleep [simp]: "fst (os_usleep (test_os r) us e) = fst e"
  by (cases e) (simp add: test_os_def)

section \<open>The TCP server serves\<close>

definition connected_idle :: "gw_unit \<Rightarrow> (u8 list \<times> int) unit_world \<Rightarrow> bool" where
  "connected_idle u w \<longleftrightarrow> cfg_format (u_cfg u) = MODBUS_FORMAT_TCP \<and> 0 \<le> sock (u_tcp u) \<and> fst (uw_env w) = []"

lemma server_read:
  assumes "connected_idle u w" and "0 < n" and "n \<le> MODBUS_MAX_READ_REGISTERS"
  shows "\<exists>u' w'. read_device_value (demo_pf r dev ps st) u a n w = (0, Some (dev_regs dev a n), u', w') \<and>
    connected_idle u' w'"
proof -
  let ?os = "server_os dev" and ?ctx = "u_tcp u"
  let ?t = "tid_step (tid ?ctx)" and ?uid = "tcp_unit_id (tcp_cfg ?ctx)"
  let ?req = "build_fc03_request ?t ?uid a n"
  obtain b t where e: "uw_env w = (b, t)" by fastforce
  with assms(1) have e0: "uw_env w = ([], t)" by (simp add: connected_idle_def)
  obtain rc f where f: "mb_tcp_build_read_registers_response ?t MODBUS_FUNC_READ_HOLDING_REGISTERS ?uid
      (Some (dev_regs dev a n)) n MODBUS_TCP_MAX_ADU_LENGTH = (rc, f)" by fastforce
  have req: "?req ! 0 = be_hi ?t" "?req ! 1 = be_lo ?t" "?req ! 6 = ?uid" "?req ! 7 = 3" "?req ! 8 = be_hi a"
    "?req ! 9 = be_lo a" "?req ! 10 = be_hi n" "?req ! 11 = be_lo n" "length ?req = 12"
    by (simp_all add: build_fc03_request_def)
  have "server_answer dev ?req = f" unfolding server_answer_def req using f by simp
  then have snd: "sk_send ?os (sock ?ctx) ?req (uw_env w) = (12, (f, t))"
    using e0 req(9) by simp
  have "length (dev_regs dev a n) = unat n" by (simp add: dev_regs_def)
  from tcp_read_response [OF server_os_stream _ assms(2,3) this snd f, of "[]"] assms(1)
  obtain e2 where e2: "mb_tcp_client_read_holding_registers ?os ?ctx a n (uw_env w) =
      (0, Some (dev_regs dev a n), ?ctx\<lparr>tid := ?t\<rparr>, e2)" "fst e2 = []"
    by (auto simp: connected_idle_def)
  then show ?thesis using assms(1)
    by (simp add: read_device_value_def connected_idle_def tcp_done_def log_event_def)
qed

lemma server_serves: "serves (demo_pf r dev ps st) dev connected_idle"
  unfolding serves_def
proof (intro conjI allI impI)
  fix u :: gw_unit and w :: "(u8 list \<times> int) unit_world" and a n us p k pl
  assume c: "connected_idle u w"
  show "\<exists>u' w'. read_device_value (demo_pf r dev ps st) u a n w = (0, Some (dev_regs dev a n), u', w') \<and>
    connected_idle u' w'" if "0 < n" "n \<le> MODBUS_MAX_READ_REGISTERS"
    using server_read [OF c that] .
  show "connected_idle (u\<lparr>comm_fail_count := k\<rparr>) w" "connected_idle u (w\<lparr>uw_pool := pl\<rparr>)"
    "connected_idle u (unit_usleep (demo_pf r dev ps st) us w)"
    "connected_idle u (unit_acquire (demo_pf r dev ps st) p w)"
    using c by (auto simp: connected_idle_def unit_usleep_def unit_acquire_def log_event_def split: option.split)
qed

lemma inverter1_chunk: "read_chunk inverter1_profile \<le> MODBUS_MAX_READ_REGISTERS" "0 < table_count inverter1_profile"
  by (simp_all add: inverter1_profile_def table_count_def rows_def inverter1_mapping_table_def)

section \<open>Witnesses\<close>

theorem scan_delivers_device_state_witness:
  "\<exists>u' w'. read_profile_to_pool (demo_pf id (\<lambda>a. a + 1) [] False) True (tcp_unit inverter1_profile 3) demo_world = (0, u', w') \<and>
     uw_pool w' 0xA10C = 0x2002 \<and> uw_pool w' 0xA0F0 = 0"
proof -
  obtain rc u' w' where r: "read_profile_to_pool (demo_pf id (\<lambda>a. a + 1) [] False) True
      (tcp_unit inverter1_profile 3) demo_world = (rc, u', w')" by (metis prod.exhaust)
  have "connected_idle (tcp_unit inverter1_profile 3) demo_world"
    by (simp add: connected_idle_def demo_world_def)
  from scan_delivers_device_state [OF server_serves this _ _ _ r] inverter1_wf inverter1_chunk
  have "rc = 0" "\<forall>a. uw_pool w' a = (case List.find (\<lambda>m. pool_address m = a) (rows inverter1_profile) of
       None \<Rightarrow> uw_pool demo_world a | Some m \<Rightarrow> device_address m + 1)" by auto
  then show ?thesis using r by (simp add: inverter1_rows inverter1_mapping_table_def demo_world_def)
qed

theorem scan_covers_profile_witness:
  "\<exists>rc u' w' tr k. read_profile_to_pool (demo_pf id id [] False) True (tcp_unit ups1_profile (-1)) demo_world = (rc, u', w') \<and>
     uw_trace w' = tr \<and> 0 < k \<and>
     io_calls tr = map (segment_call ups1_profile) (take k (profile_segments ups1_profile))"
proof -
  obtain rc u' w' where r: "read_profile_to_pool (demo_pf id id [] False) True
      (tcp_unit ups1_profile (-1)) demo_world = (rc, u', w')" by (metis prod.exhaust)
  have "table_count (u_profile (tcp_unit ups1_profile (-1))) > 0"
    by (simp add: table_count_def ups1_rows ups1_mapping_table_def)
  from scan_covers_profile [OF r this] r show ?thesis by (auto simp: demo_world_def)
qed

text \<open>A unit without a connection: every read fails.\<close>

theorem scan_failure_counter_witness:
  "\<exists>rc u' w'. read_profile_to_pool (demo_pf id id [] False) True
      ((tcp_unit inverter1_profile (-1))\<lparr>comm_fail_count := 4\<rparr>) demo_world = (rc, u', w') \<and>
     rc = -1 \<and> uw_pool w' 0xA10C = 0xFFFF \<and> uw_pool w' 0xA0F0 = 0"
proof -
  let ?u = "(tcp_unit inverter1_profile (-1))\<lparr>comm_fail_count := 4\<rparr>" and ?pf = "demo_pf id id [] False"
  obtain rc u' w' where r: "read_profile_to_pool ?pf True ?u demo_world = (rc, u', w')" by (metis prod.exhaust)
  have "rc = -1"
    using r by (simp add: read_profile_to_pool_def table_count_def inverter1_rows inverter1_mapping_table_def
        row_follows_def scan_segment_def read_device_value_def mb_tcp_client_read_holding_registers_def
        inverter1_profile_def rows_def Let_def)
  moreover have "comm_fail_count ?u < 5" by simp
  moreover have "map_row 0x2001 0xA10C ACCESS_RW ''frequency_write_commands'' \<in> set (rows inverter1_profile)"
    by (simp add: inverter1_rows inverter1_mapping_table_def)
  moreover have "0xA0F0 \<notin> pool_address ` set (rows inverter1_profile)"
    by (simp add: inverter1_rows inverter1_mapping_table_def)
  ultimately show ?thesis
    using r scan_failure_counter [OF r] by (fastforce simp: demo_world_def)
qed

theorem early_stop_closes_descriptor_0_witness:
  "\<exists>u' w'. unit_thread (demo_pf id id [] True) (inverter_callbacks (demo_pf id id [] True))
      (fresh_unit inverter1_profile tcp_module) (demo_world\<lparr>uw_env := ([7], 0)\<rparr>) = Some (u', w') \<and> uw_env w' = ([], 0)"
  using early_stop_closes_descriptor_0 [of tcp_module "demo_pf id id [] True" "demo_world\<lparr>uw_env := ([7], 0)\<rparr>"
      "inverter_callbacks (demo_pf id id [] True)" inverter1_profile]
  by (simp add: server_os_def)

theorem drain_writes_queue_in_order_witness:
  "\<exists>u' w' tr. drain_queue (demo_pf id id [] False) inverter_queue_merge_allowed
      ((tcp_unit inverter1_profile (-1))\<lparr>u_queue := snd (queue_push inverter_queue_merge_allowed queue_init 0x2001
          (Some [600]) 1 WRITE_MODE_FC06)\<rparr>) demo_world = Some (u', w') \<and>
     uw_trace w' = tr \<and> io_calls tr = [Call_write 0x2001 600] \<and> queue_items (u_queue u') = []"
proof -
  define q where "q = snd (queue_push inverter_queue_merge_allowed queue_init 0x2001 (Some [600]) 1 WRITE_MODE_FC06)"
  have i: "queue_inv q" "queue_items q = [\<lparr>cmd_addr = 0x2001, cmd_values = [600], cmd_count = 1, cmd_mode = WRITE_MODE_FC06\<rparr>]"
    by (simp_all add: q_def queue_push_def queue_init_def queue_inv_def queue_items_def)
  have c: "List.map_filter command_call (queue_items q) = [Call_write 0x2001 600]"
    unfolding i(2) by (simp add: map_filter_def command_call_def write_call_def)
  have "quiet (demo_pf id id [] False)" by (simp add: quiet_def)
  from drain_writes_queue_in_order [OF this, of "(tcp_unit inverter1_profile (-1))\<lparr>u_queue := q\<rparr>"
      inverter_queue_merge_allowed demo_world] i(1) c
  show ?thesis unfolding q_def [symmetric] by (auto simp: demo_world_def)
qed

theorem busy_producer_starves_poll_witness:
  "drain_queue (demo_pf id id [(0x2001, [600], 1, WRITE_MODE_FC06)] False) inverter_queue_merge_allowed
     (tcp_unit inverter1_profile (-1)) demo_world = None"
proof -
  have "keeps_pace (demo_pf id id [(0x2001, [600], 1, WRITE_MODE_FC06)] False)" by (simp add: keeps_pace_def)
  from busy_producer_starves_poll [OF this] show ?thesis by blast
qed

theorem interruptible_sleep_bounded_witness:
  "\<exists>w'. interruptible_sleep_ms (demo_pf id id [] False) (tcp_unit inverter1_profile (-1)) 5000 demo_world = Some w' \<and>
     uw_trace w' = replicate 50 (Ev_sleep 100000)"
proof -
  let ?pf = "demo_pf id id [] False" and ?u = "tcp_unit inverter1_profile (-1)"
  have "still_running ?pf ?u w" for w by (simp add: still_running_def demo_pf_def tcp_unit_def fresh_unit_def)
  with interruptible_sleep_bounded [of 5000 ?pf ?u demo_world] obtain w' k where
    "interruptible_sleep_ms ?pf ?u 5000 demo_world = Some w'" "k = 50" "uw_trace w' = replicate k (Ev_sleep 100000)"
    by (auto simp: delay_steps_def demo_world_def)
  then show ?thesis by blast
qed

end
