(* ===== verification/Unit_Start.thy ===== *)
theory Unit_Start
  imports Unit_Witness
begin

text \<open>
  The start of both families on one register map, the states a unit's thread can reach, and the
  remaining witnesses of the unit theories.
\<close>

section \<open>Start\<close>

text \<open>
  Each family runs at most one unit, the first enabled entry of its configuration: every
  further enabled entry is rejected at start-up, because all entries of a family register the
  same profile, although up to ten entries are accepted by the configuration.
\<close>

theorem one_unit_per_family:
  "length (ss_units (start_inverter_modules ok rc invs m pl)) \<le> 1 \<and>
   (\<forall>u\<in>set (ss_units (start_inverter_modules ok rc invs m pl)). List.find enabled invs = Some (u_cfg u)) \<and>
   (length (filter enabled invs) \<ge> 2 \<longrightarrow> ss_status (start_inverter_modules ok rc invs m pl) = -1) \<and>
   length (ss_units (start_ups_modules ok' rc' upss m' pl')) \<le> 1 \<and>
   (\<forall>u\<in>set (ss_units (start_ups_modules ok' rc' upss m' pl')). List.find enabled upss = Some (u_cfg u)) \<and>
   (length (filter enabled upss) \<ge> 2 \<longrightarrow> ss_status (start_ups_modules ok' rc' upss m' pl') = -1)"
proof -
  have "rows inverter1_profile \<noteq> []" "rows ups1_profile \<noteq> []"
    by (simp_all add: inverter1_rows inverter1_mapping_table_def ups1_rows ups1_mapping_table_def)
  then show ?thesis
    unfolding start_inverter_modules_def start_ups_modules_def
    using one_unit_of_profile [of inverter1_profile int_inverter_connection_status_reg ok rc invs m pl]
      one_unit_of_profile [of ups1_profile int_ups_connection_status_reg ok' rc' upss m' pl'] by blast
qed

theorem one_unit_per_family_witness:
  "ss_status (start_inverter_modules (\<lambda>i. True) 0 [tcp_module, rtu_module]
     \<lparr>region = Some (\<lambda>_. 0), registered_profiles = []\<rparr> (\<lambda>_. 0)) = -1"
proof -
  have "2 \<le> length (filter enabled [tcp_module, rtu_module])" by (simp add: tcp_module_def rtu_module_def)
  with one_unit_per_family [where invs = "[tcp_module, rtu_module]" and ok = "\<lambda>i. True" and rc = 0
      and m = "\<lparr>region = Some (\<lambda>_. 0), registered_profiles = []\<rparr>" and pl = "\<lambda>_. 0"
      and ok' = "\<lambda>i. True" and rc' = 0 and upss = "[]" and m' = "\<lparr>region = None, registered_profiles = []\<rparr>"
      and pl' = "\<lambda>_. 0"]
  show ?thesis by blast
qed

section \<open>States of a unit's thread\<close>

lemma drain_loop_state:
  fixes w :: "'e unit_world"
  assumes "drain_loop pf ma c u w = Some (u', w')"
  shows "comm_fail_count u' = comm_fail_count u \<and> connection_state u' = connection_state u \<and> uw_pool w' = uw_pool w"
proof -
  let ?Q = "\<lambda>u w r. comm_fail_count (fst r) = comm_fail_count u \<and>
      connection_state (fst r) = connection_state u \<and> uw_pool (snd r) = uw_pool (w :: 'e unit_world)"
  have "?Q u w (u', w')"
  proof (rule drain_loop.raw_induct [OF _ assms, where P = "\<lambda>pf ma c u w r. ?Q u w r"])
    fix rec :: "'e platform \<Rightarrow> (u16 \<Rightarrow> bool) \<Rightarrow> write_cmd \<Rightarrow> gw_unit \<Rightarrow> 'e unit_world \<Rightarrow>
          (gw_unit \<times> 'e unit_world) option"
      and pf :: "'e platform" and ma c u and w :: "'e unit_world" and r
    assume IH: "\<And>pf ma c u w r. rec pf ma c u w = Some r \<Longrightarrow> ?Q u w r"
    assume body: "(let (u1, w1) = write_queued pf c u w
      in case unit_pop pf ma u1 w1 of (None, u2, w2) \<Rightarrow> Some (u2, w2)
         | (Some c', u2, w2) \<Rightarrow> rec pf ma c' u2 w2) = Some r"
    obtain u1 w1 where q: "write_queued pf c u w = (u1, w1)" by fastforce
    obtain oc u2 w2 where p: "unit_pop pf ma u1 w1 = (oc, u2, w2)" by (metis prod.exhaust)
    obtain rc v1 x1 where l:
      "write_registers_locked pf u (cmd_addr c) (cmd_values c) (cmd_count c) (cmd_mode c) w = (rc, v1, x1)"
      by (metis prod.exhaust)
    have "same_unit u u1" using q l write_registers_locked_frame [OF l] by (auto simp: write_queued_def)
    then have q1: "comm_fail_count u1 = comm_fail_count u" "connection_state u1 = connection_state u"
      by (auto dest: same_unitD)
    have q2: "uw_pool w1 = uw_pool w" using write_queued_calls [OF q] by blast
    have p2: "comm_fail_count u2 = comm_fail_count u1" "connection_state u2 = connection_state u1"
      "uw_pool w2 = uw_pool w1"
      using p by (auto simp: unit_pop_def settle_pushes_def split: prod.splits option.splits)
    show "?Q u w r"
    proof (cases oc)
      case None
      with body q p q1 q2 p2 show ?thesis by auto
    next
      case (Some c')
      with body q p have "rec pf ma c' u2 w2 = Some r" by simp
      from IH [OF this] q1 q2 p2 show ?thesis by simp
    qed
  qed
  then show ?thesis by simp
qed

lemma drain_queue_state:
  assumes "drain_queue pf ma u w = Some (u', w')"
  shows "comm_fail_count u' = comm_fail_count u \<and> connection_state u' = connection_state u \<and>
    uw_pool w' = uw_pool w \<and> keeps u u'"
proof -
  obtain oc u1 w1 where p: "unit_pop pf ma u w = (oc, u1, w1)" by (metis prod.exhaust)
  then have p1: "comm_fail_count u1 = comm_fail_count u" "connection_state u1 = connection_state u"
    "uw_pool w1 = uw_pool w"
    by (auto simp: unit_pop_def settle_pushes_def split: prod.splits option.splits)
  from assms p p1 drain_queue_bus [OF assms] show ?thesis
    by (auto simp: drain_queue_def Let_def split: option.splits dest!: drain_loop_state)
qed

lemma scan_state:
  assumes "read_profile_to_pool pf True u w = (rc, u', w')" and "comm_fail_count u < 5"
    and "a \<notin> pool_address ` set (rows (u_profile u))"
  shows "(rc = 0 \<longleftrightarrow> comm_fail_count u' < 5) \<and> uw_pool w' a = uw_pool w a \<and>
    connection_state u' = connection_state u \<and> keeps u u'"
proof (cases "table_count (u_profile u) = 0")
  case True
  with assms show ?thesis by (auto simp: read_profile_to_pool_segments)
next
  case False
  obtain r u1 w1 where run: "run_segments pf True (profile_segments (u_profile u)) (replicate 125 0) u
      (unit_acquire pf (unit_path u) w) = (r, u1, w1)" by (metis prod.exhaust)
  from False assms run have e: "rc = r" "u' = u1" "uw_pool w' = uw_pool w1"
    by (auto simp: read_profile_to_pool_segments)
  have "rc = 0 \<longleftrightarrow> comm_fail_count u' < 5" using run_segments_counter [OF run assms(2)] e by auto
  moreover have "uw_pool w' a = uw_pool (unit_acquire pf (unit_path u) w) a"
    unfolding e(3) by (rule run_segments_other [OF run]) (use assms(3) in auto)
  moreover have "same_link u u'" using run_segments_calls [OF run] e by blast
  ultimately show ?thesis using keeps_link same_linkD(4) by auto
qed

lemma drain_and_scan_state:
  assumes "drain_and_scan pf ma u w = Some (rc, u', w')" and "comm_fail_count u < 5"
    and "a \<notin> pool_address ` set (rows (u_profile u))"
  shows "(rc = 0 \<longleftrightarrow> comm_fail_count u' < 5) \<and> uw_pool w' a = uw_pool w a \<and>
    connection_state u' = connection_state u \<and> keeps u u'"
proof -
  from assms(1) obtain u1 w1 where d: "drain_queue pf ma u w = Some (u1, w1)"
    by (auto simp: drain_and_scan_def split: option.splits)
  note s1 = drain_queue_state [OF d]
  obtain r u2 w2 where s: "read_profile_to_pool pf True u1 w1 = (r, u2, w2)" by (metis prod.exhaust)
  have "a \<notin> pool_address ` set (rows (u_profile u1))" "comm_fail_count u1 < 5"
    using s1 assms(2,3) by (auto simp: keeps_def)
  from scan_state [OF s this(2,1)] s1 assms d s show ?thesis
    by (auto simp: drain_and_scan_def keeps_def split: if_splits)
qed

lemma open_rtu_state:
  assumes "open_rtu pf u w = (rc, u', w')"
  shows "same_unit u u' \<and> uw_pool w' = uw_pool w"
  using assms by (auto simp: open_rtu_def Let_def split: prod.splits)

lemma close_rtu_state:
  assumes "close_rtu pf u w = (u', w')"
  shows "same_unit u u' \<and> uw_pool w' = uw_pool w"
  using assms by (auto simp: close_rtu_def split: prod.splits)

lemma probe_unit_state: "probe_unit pf u a w = (rc, w') \<Longrightarrow> uw_pool w' = uw_pool w"
  by (auto simp: probe_unit_def split: prod.splits)

lemma inverter_unit_connect_state:
  assumes "inverter_unit_connect pf u w = (rc, u', w')"
  shows "same_unit u u' \<and> uw_pool w' = uw_pool w"
proof (cases "cfg_format (u_cfg u) = MODBUS_FORMAT_TCP")
  case True
  with assms show ?thesis by (auto simp: inverter_unit_connect_def open_tcp_def Let_def split: prod.splits)
next
  case False
  obtain r1 u1 w1 where o: "open_rtu pf u w = (r1, u1, w1)" by (metis prod.exhaust)
  note s1 = open_rtu_state [OF o]
  let ?p = "inverter_bus_path u1"
  obtain pr w3 where pb: "(if table_count (u_profile u1) > 0
      then probe_unit pf u1 (device_address (rows (u_profile u1) ! 0)) (unit_acquire pf ?p w1)
      else (0, unit_acquire pf ?p w1)) = (pr, w3)" by fastforce
  then have s3: "uw_pool w3 = uw_pool w1" by (auto split: if_splits dest: probe_unit_state)
  obtain u4 w4 where c: "close_rtu pf u1 (unit_release pf ?p w3) = (u4, w4)" by fastforce
  obtain u5 w5 where i: "init_inverter_reg pf u1 w3 = (u5, w5)" by fastforce
  have s4: "same_unit u u4" "uw_pool w4 = uw_pool w3"
    using close_rtu_state [OF c] s1 same_unit_trans by auto
  have s5: "same_unit u u5" "uw_pool w5 = uw_pool w3"
    using init_write_loop_result [OF i [unfolded init_inverter_reg_def], of None] s1 same_unit_trans by blast+
  have "(u', w') = (if r1 \<noteq> 0 then (u1, w1) else if pr \<noteq> 0 then (u4, w4)
      else (u5, unit_release pf ?p (unit_usleep pf 70000 w5)))"
    using assms o False pb c i
    by (cases "r1 = 0"; cases "0 < table_count (u_profile u1)"; cases "pr = 0")
      (simp_all add: inverter_unit_connect_def Let_def)
  then show ?thesis using s1 s3 s4 s5 by (auto split: if_splits)
qed

text \<open>The inverter's thread between two callbacks: before a connection attempt, polling, about to
  run the error callback, or ended, from the poll loop or not. The steps are those of
  \<^verbatim>\<open>inverter_thread\<close>: a callback and the test of \<^verbatim>\<open>running\<close> before it, the wait after a failed
  attempt, and the disconnect at the end.\<close>

datatype thread_phase = Connecting | Polling | Failed | Ended bool

inductive inverter_step ::
  "'e platform \<Rightarrow> thread_phase \<Rightarrow> gw_unit \<Rightarrow> 'e unit_world \<Rightarrow> thread_phase \<Rightarrow> gw_unit \<Rightarrow> 'e unit_world \<Rightarrow> bool" for pf where
  step_connected: "still_running pf u w \<Longrightarrow> inverter_init_callback pf u w = (0, u', w') \<Longrightarrow>
    inverter_step pf Connecting u w Polling u' w'"
| step_retry: "still_running pf u w \<Longrightarrow> inverter_init_callback pf u w = (rc, u', w') \<Longrightarrow> rc \<noteq> 0 \<Longrightarrow>
    interruptible_sleep_ms pf u' MODBUS_DEFAULT_RECONNECT_DELAY_MS w' = Some w'' \<Longrightarrow>
    inverter_step pf Connecting u w Connecting u' w''"
| step_polled: "still_running pf u w \<Longrightarrow> inverter_process_callback pf u w = Some (0, u', w') \<Longrightarrow>
    inverter_step pf Polling u w Polling u' w'"
| step_failed: "still_running pf u w \<Longrightarrow> inverter_process_callback pf u w = Some (rc, u', w') \<Longrightarrow> rc \<noteq> 0 \<Longrightarrow>
    inverter_step pf Polling u w Failed u' w'"
| step_error: "inverter_error_callback pf CONNECTION_DISCONNECTED u w = Some (u', w') \<Longrightarrow>
    inverter_step pf Failed u w Connecting u' w'"
| step_end: "\<not> still_running pf u w \<Longrightarrow> ph = Connecting \<or> ph = Polling \<Longrightarrow> unit_disconnect pf u w = (u', w') \<Longrightarrow>
    inverter_step pf ph u w (Ended (ph = Polling)) u' w'"

inductive_cases inverter_stepE: "inverter_step pf ph u w ph' u' w'"

text \<open>What is left of the thread in each phase: a step leaves it the same.\<close>

definition thread_rest ::
  "'e platform \<Rightarrow> thread_phase \<Rightarrow> gw_unit \<Rightarrow> 'e unit_world \<Rightarrow> (gw_unit \<times> 'e unit_world) option" where
  "thread_rest pf ph u w =
     (let finish = (\<lambda>r. case r of None \<Rightarrow> None | Some (u1, w1) \<Rightarrow> Some (unit_disconnect pf u1 w1))
      in case ph of
           Connecting \<Rightarrow> finish (thread_loop pf (inverter_callbacks pf) False u w)
         | Polling \<Rightarrow> finish (thread_loop pf (inverter_callbacks pf) True u w)
         | Failed \<Rightarrow>
             (case inverter_error_callback pf CONNECTION_DISCONNECTED u w of
                None \<Rightarrow> None
              | Some (u1, w1) \<Rightarrow> finish (thread_loop pf (inverter_callbacks pf) False u1 w1))
         | Ended polled \<Rightarrow> Some (u, w))"

lemma inverter_thread_rest: "inverter_thread pf u w = thread_rest pf Connecting u w"
  by (simp add: inverter_thread_def unit_thread_def thread_rest_def)

lemma inverter_callbacks_simps [simp]:
  "cb_init (inverter_callbacks pf) = inverter_init_callback pf"
  "cb_process (inverter_callbacks pf) = inverter_process_callback pf"
  "cb_error (inverter_callbacks pf) = inverter_error_callback pf"
  by (simp_all add: inverter_callbacks_def)

lemma inverter_step_rest:
  assumes "inverter_step pf ph u w ph' u' w'"
  shows "thread_rest pf ph' u' w' = thread_rest pf ph u w"
  using assms
proof (cases rule: inverter_step.cases)
  case step_connected
  then show ?thesis by (simp add: thread_rest_def thread_loop.simps [of pf "inverter_callbacks pf" False u w])
next
  case (step_retry rc w1)
  then show ?thesis by (simp add: thread_rest_def thread_loop.simps [of pf "inverter_callbacks pf" False u w])
next
  case step_polled
  then show ?thesis by (simp add: thread_rest_def thread_loop.simps [of pf "inverter_callbacks pf" True u w])
next
  case (step_failed rc)
  then show ?thesis
    by (simp add: thread_rest_def thread_loop.simps [of pf "inverter_callbacks pf" True u w] split: option.split)
next
  case step_error
  then show ?thesis by (simp add: thread_rest_def)
next
  case step_end
  then show ?thesis
    by (auto simp: thread_rest_def thread_loop.simps [of pf "inverter_callbacks pf" True u w]
        thread_loop.simps [of pf "inverter_callbacks pf" False u w])
qed

text \<open>The states the thread reaches from its start. \<open>reach_other\<close> stands for the commands and
  requests that other threads queue, the stop flag, and everything that happens outside the pool
  slot of the connection state.\<close>

inductive inverter_reach ::
  "'e platform \<Rightarrow> module_config \<Rightarrow> thread_phase \<Rightarrow> gw_unit \<Rightarrow> 'e unit_world \<Rightarrow> bool" for pf cfg where
  reach_start: "uw_pool w int_inverter_connection_status_reg = 0 \<Longrightarrow>
    inverter_reach pf cfg Connecting (fresh_unit inverter1_profile cfg) w"
| reach_step: "inverter_reach pf cfg ph u w \<Longrightarrow> inverter_step pf ph u w ph' u' w' \<Longrightarrow> inverter_reach pf cfg ph' u' w'"
| reach_other: "inverter_reach pf cfg ph u w \<Longrightarrow>
    uw_pool w' int_inverter_connection_status_reg = uw_pool w int_inverter_connection_status_reg \<Longrightarrow>
    inverter_reach pf cfg ph (u\<lparr>u_queue := q, init_requested := b\<rparr>) w'"

text \<open>The thread that ends has come there by these steps.\<close>

lemma thread_loop_reach:
  fixes w :: "'e unit_world" and pf :: "'e platform"
  assumes "thread_loop pf (inverter_callbacks pf) c u w = Some (u', w')"
    and "inverter_reach pf cfg (if c then Polling else Connecting) u w"
  shows "\<exists>ph. (ph = Connecting \<or> ph = Polling) \<and> inverter_reach pf cfg ph u' w' \<and> \<not> still_running pf u' w'"
proof -
  let ?S = "\<lambda>pf c u w. if c then inverter_reach pf cfg Polling u w
      else inverter_reach pf cfg Connecting u w \<or> inverter_reach pf cfg Polling u w \<and> \<not> still_running pf u w"
  let ?G = "\<lambda>pf r. \<exists>ph. (ph = Connecting \<or> ph = Polling) \<and> inverter_reach pf cfg ph (fst r) (snd r) \<and> \<not> still_running pf (fst r) (snd r)"
  have "inverter_callbacks pf = inverter_callbacks pf \<and> ?S pf c u w \<longrightarrow> ?G pf (u', w')"
  proof (rule thread_loop.raw_induct [OF _ assms(1),
        where P = "\<lambda>pf cb c u w r. cb = inverter_callbacks pf \<and> ?S pf c u w \<longrightarrow> ?G pf r"], rule impI)
    fix rec :: "'e platform \<Rightarrow> 'e unit_callbacks \<Rightarrow> bool \<Rightarrow> gw_unit \<Rightarrow> 'e unit_world \<Rightarrow>
          (gw_unit \<times> 'e unit_world) option"
      and pf :: "'e platform" and cb :: "'e unit_callbacks" and c u and w :: "'e unit_world" and r
    assume IH: "\<And>pf cb c u w r. rec pf cb c u w = Some r \<Longrightarrow> cb = inverter_callbacks pf \<and> ?S pf c u w \<longrightarrow> ?G pf r"
    assume h: "cb = inverter_callbacks pf \<and> ?S pf c u w"
    assume body: "(if c
        then if still_running pf u w
             then case cb_process cb u w of None \<Rightarrow> None
                  | Some (rc, u1, w1) \<Rightarrow>
                      if rc \<noteq> 0
                      then case cb_error cb 0 u1 w1 of None \<Rightarrow> None
                           | Some (u2, w2) \<Rightarrow> rec pf cb False u2 w2
                      else rec pf cb True u1 w1
             else rec pf cb False u w
        else if still_running pf u w
             then case cb_init cb u w of
                  (rc, u1, w1) \<Rightarrow>
                    if rc \<noteq> 0
                    then case interruptible_sleep_ms pf u1 5000 w1 of None \<Rightarrow> None
                         | Some w2 \<Rightarrow> rec pf cb False u1 w2
                    else rec pf cb True u1 w1
             else Some (u, w)) = Some r"
    have cb: "cb = inverter_callbacks pf" using h by blast
    have go: "?G pf r" if "rec pf cb b u1 w1 = Some r" "?S pf b u1 w1" for b u1 w1
      using IH [OF that(1)] that(2) cb by blast
    show "?G pf r"
    proof (cases "still_running pf u w")
      case False
      show ?thesis
      proof (cases c)
        case True
        with body False have "rec pf cb False u w = Some r" by simp
        from go [OF this] h True False show ?thesis by simp
      next
        case f: False
        with body False have "r = (u, w)" by simp
        with h f False show ?thesis by auto
      qed
    next
      case run: True
      show ?thesis
      proof (cases c)
        case True
        with h have s: "inverter_reach pf cfg Polling u w" by simp
        from True body run cb obtain rc u1 w1 where p: "inverter_process_callback pf u w = Some (rc, u1, w1)"
          by (auto split: option.splits)
        show ?thesis
        proof (cases "rc = 0")
          case rc: True
          then have "rec pf cb True u1 w1 = Some r" using body run p True cb by simp
          moreover have "inverter_reach pf cfg Polling u1 w1" using reach_step [OF s step_polled] run p rc by simp
          ultimately show ?thesis using go by simp
        next
          case False
          with True body run p cb obtain u2 w2 where e: "inverter_error_callback pf 0 u1 w1 = Some (u2, w2)"
            "rec pf cb False u2 w2 = Some r" by (auto split: option.splits)
          have "inverter_reach pf cfg Connecting u2 w2"
            using reach_step [OF reach_step [OF s step_failed [OF run p False]] step_error [OF e(1)]] .
          with go [OF e(2)] show ?thesis by simp
        qed
      next
        case False
        with h run have s: "inverter_reach pf cfg Connecting u w" by simp
        obtain rc u1 w1 where p: "inverter_init_callback pf u w = (rc, u1, w1)" by (metis prod.exhaust)
        show ?thesis
        proof (cases "rc = 0")
          case True
          then have "rec pf cb True u1 w1 = Some r" using body run p False cb by simp
          moreover have "inverter_reach pf cfg Polling u1 w1" using reach_step [OF s step_connected] run p True by simp
          ultimately show ?thesis using go by simp
        next
          case rc: False
          with body run p False cb obtain w2 where e: "interruptible_sleep_ms pf u1 5000 w1 = Some w2"
            "rec pf cb False u1 w2 = Some r" by (auto split: option.splits)
          from reach_step [OF s step_retry [OF run p rc e(1)]] go [OF e(2)] show ?thesis by simp
        qed
      qed
    qed
  qed
  with assms(2) show ?thesis by (cases c) auto
qed

lemma inverter_thread_reach:
  assumes "inverter_thread pf (fresh_unit inverter1_profile cfg) w = Some (u', w')"
    and "uw_pool w int_inverter_connection_status_reg = 0"
  shows "\<exists>polled. inverter_reach pf cfg (Ended polled) u' w'"
proof -
  from assms(1) obtain u1 w1 where t: "thread_loop pf (inverter_callbacks pf) False (fresh_unit inverter1_profile cfg) w = Some (u1, w1)"
    and d: "unit_disconnect pf u1 w1 = (u', w')"
    by (auto simp: inverter_thread_def unit_thread_def split: option.splits)
  from thread_loop_reach [OF t, of cfg] reach_start [OF assms(2)] obtain ph where
    "ph = Connecting \<or> ph = Polling" "inverter_reach pf cfg ph u1 w1" "\<not> still_running pf u1 w1" by auto
  from reach_step [OF this(2) step_end [OF this(3,1) d]] show ?thesis by blast
qed

text \<open>The invariant: connected while polled, and also at the end of a thread that was polling.\<close>

definition phase_connection :: "thread_phase \<Rightarrow> int" where
  "phase_connection ph =
     (if ph = Polling \<or> ph = Failed \<or> ph = Ended True then CONNECTION_CONNECTED else CONNECTION_DISCONNECTED)"

definition unit_state_ok :: "module_config \<Rightarrow> thread_phase \<Rightarrow> gw_unit \<Rightarrow> 'e unit_world \<Rightarrow> bool" where
  "unit_state_ok cfg ph u w \<longleftrightarrow> u_profile u = inverter1_profile \<and> u_cfg u = cfg \<and>
     connection_state u = phase_connection ph \<and>
     uw_pool w int_inverter_connection_status_reg = of_int (connection_state u) \<and>
     (ph = Failed \<longleftrightarrow> 5 \<le> comm_fail_count u)"

lemma connection_slot_apart:
  "int_inverter_connection_status_reg \<notin> pool_address ` set (rows inverter1_profile)"
  using flag_slots_apart by (auto simp: flag_slots_def)

lemma state_ok_init:
  assumes "unit_state_ok cfg Connecting u w" and "inverter_init_callback pf u w = (rc, u', w')"
  shows "unit_state_ok cfg (if rc = 0 then Polling else Connecting) u' w'"
proof -
  obtain r u1 w1 where c: "inverter_unit_connect pf u w = (r, u1, w1)" by (metis prod.exhaust)
  from inverter_unit_connect_state [OF c] assms c show ?thesis
    by (auto simp: unit_state_ok_def phase_connection_def inverter_init_callback_def init_callback_def
        unit_set_connection_def pool_write_def pool_write_register_def split: if_splits dest: same_unitD)
qed

lemma state_ok_process:
  assumes "unit_state_ok cfg Polling u w" and "inverter_process_callback pf u w = Some (rc, u', w')"
  shows "unit_state_ok cfg (if rc = 0 then Polling else Failed) u' w'"
proof -
  let ?u = "u\<lparr>init_requested := False\<rparr>" and ?a = int_inverter_connection_status_reg
  obtain u1 w1 where i: "(if init_requested u then inverter_run_init_sequence pf ?u w else (?u, w)) = (u1, w1)"
    by fastforce
  have s1: "same_unit ?u u1" "uw_pool w1 ?a = uw_pool w ?a"
    using i inverter_run_init_sequence_bus [of pf ?u w u1 w1] by (auto split: if_splits)
  from assms i have d: "drain_and_scan pf inverter_queue_merge_allowed u1 w1 = Some (rc, u', w')"
    by (auto simp: inverter_process_callback_def)
  have "comm_fail_count u1 < 5" "u_profile u1 = inverter1_profile" "u_cfg u1 = cfg"
    "connection_state u1 = connection_state u"
    using same_unitD [OF s1(1)] assms(1) by (auto simp: unit_state_ok_def)
  with drain_and_scan_state [OF d, of ?a] connection_slot_apart s1(2) assms(1) show ?thesis
    by (auto simp: unit_state_ok_def phase_connection_def keeps_def)
qed

lemma state_ok_error:
  assumes "unit_state_ok cfg Failed u w" and "inverter_error_callback pf CONNECTION_DISCONNECTED u w = Some (u', w')"
  shows "unit_state_ok cfg Connecting u' w'"
  using error_callback_result [OF assms(2) [unfolded inverter_error_callback_def]] assms(1)
  by (auto simp: unit_state_ok_def phase_connection_def keeps_def pool_write_register_def)

lemma state_ok_step:
  assumes "inverter_step pf ph u w ph' u' w'" and "unit_state_ok cfg ph u w"
  shows "unit_state_ok cfg ph' u' w'"
  using assms(1)
proof (cases rule: inverter_step.cases)
  case step_connected
  with state_ok_init assms(2) show ?thesis by fastforce
next
  case (step_retry rc w1)
  with state_ok_init [of cfg u w pf rc u' w1] assms(2) interruptible_sleep_bus [of pf u' w1 w'] show ?thesis
    by (simp add: unit_state_ok_def)
next
  case step_polled
  with state_ok_process assms(2) show ?thesis by fastforce
next
  case (step_failed rc)
  with state_ok_process [of cfg u w pf rc u' w'] assms(2) show ?thesis by simp
next
  case step_error
  with state_ok_error assms(2) show ?thesis by blast
next
  case step_end
  with unit_disconnect_bus [of pf u w u' w'] assms(2) show ?thesis
    by (auto simp: unit_state_ok_def phase_connection_def keeps_def)
qed

lemma inverter_reach_ok: "inverter_reach pf cfg ph u w \<Longrightarrow> unit_state_ok cfg ph u w"
proof (induction rule: inverter_reach.induct)
  case (reach_start w)
  then show ?case by (simp add: unit_state_ok_def phase_connection_def fresh_unit_def)
next
  case (reach_step ph u w ph' u' w')
  then show ?case by (blast intro: state_ok_step)
next
  case (reach_other ph u w w' q b)
  then show ?case by (simp add: unit_state_ok_def)
qed

text \<open>
  C23. In every state of the inverter's thread, from its start to its end, the connection slot of
  the pool is what the unit's connection state is: 1 while the unit is polled and until the
  error callback has run, 0 while it tries to connect. The failure counter is below 5 except
  between the scan that gives the connection up and the error callback. A thread that ends has
  come there by these states; when it was stopped while polling, the slot stays 1 although the
  unit has been disconnected.
\<close>

theorem connection_slot_mirrors_state:
  shows "(inverter_reach pf cfg ph u w \<longrightarrow>
      uw_pool w int_inverter_connection_status_reg = (if ph = Connecting \<or> ph = Ended False then 0 else 1) \<and>
      uw_pool w int_inverter_connection_status_reg = of_int (connection_state u) \<and>
      (ph = Failed \<longleftrightarrow> 5 \<le> comm_fail_count u)) \<and>
    (uw_pool w0 int_inverter_connection_status_reg = 0 \<and>
      inverter_thread pf (fresh_unit inverter1_profile cfg) w0 = Some (u1, w1) \<longrightarrow>
      (\<exists>polled. inverter_reach pf cfg (Ended polled) u1 w1))"
proof (intro conjI [OF impI impI])
  assume "inverter_reach pf cfg ph u w"
  from inverter_reach_ok [OF this]
  show "uw_pool w int_inverter_connection_status_reg = (if ph = Connecting \<or> ph = Ended False then 0 else 1) \<and>
      uw_pool w int_inverter_connection_status_reg = of_int (connection_state u) \<and> (ph = Failed \<longleftrightarrow> 5 \<le> comm_fail_count u)"
    by (cases ph) (auto simp: unit_state_ok_def phase_connection_def)
qed (use inverter_thread_reach in blast)

text \<open>A unit that connects and whose thread is then stopped, and one that is stopped before.\<close>

definition stopping_pf :: "(u8 list \<times> int) platform" where
  "stopping_pf = (demo_pf id id [] False)\<lparr>pf_stopped := \<lambda>(b, t). t = 99\<rparr>"

theorem connection_slot_mirrors_state_witness:
  "(\<exists>u w. inverter_reach stopping_pf tcp_module (Ended True) u w \<and> uw_pool w int_inverter_connection_status_reg = 1) \<and>
   (\<exists>polled u w. inverter_thread (demo_pf id id [] True) (fresh_unit inverter1_profile tcp_module) demo_world = Some (u, w) \<and>
     inverter_reach (demo_pf id id [] True) tcp_module (Ended polled) u w)"
proof
  let ?u = "fresh_unit inverter1_profile tcp_module"
  have z: "uw_pool demo_world int_inverter_connection_status_reg = 0" by (simp add: demo_world_def)
  have s: "inverter_reach stopping_pf tcp_module Connecting ?u demo_world" by (rule reach_start [OF z])
  have run: "still_running stopping_pf ?u demo_world"
    by (simp add: still_running_def stopping_pf_def fresh_unit_def demo_world_def)
  obtain rc u w where i: "inverter_init_callback stopping_pf ?u demo_world = (rc, u, w)" by (metis prod.exhaust)
  have "rc = 0"
    using i by (simp add: inverter_init_callback_def init_callback_def inverter_unit_connect_def open_tcp_def stopping_pf_def
        fresh_unit_def tcp_module_def mb_tcp_client_connect_def mb_tcp_connect_def server_os_def
        unit_set_connection_def split: prod.splits)
  with i reach_step [OF s step_connected [OF run]] have p: "inverter_reach stopping_pf tcp_module Polling u w" by simp
  let ?v = "u\<lparr>u_queue := u_queue u, init_requested := init_requested u\<rparr>" and ?w = "w\<lparr>uw_env := ([], 99)\<rparr>"
  have o: "inverter_reach stopping_pf tcp_module Polling ?v ?w" by (rule reach_other [OF p]) simp
  have "\<not> still_running stopping_pf ?v ?w" by (simp add: still_running_def stopping_pf_def)
  moreover obtain u' w' where "unit_disconnect stopping_pf ?v ?w = (u', w')" by fastforce
  ultimately have e: "inverter_reach stopping_pf tcp_module (Ended True) u' w'"
    using reach_step [OF o step_end [of stopping_pf ?v ?w Polling u' w']] by simp
  have "uw_pool w' int_inverter_connection_status_reg = 1"
    using connection_slot_mirrors_state [of stopping_pf tcp_module "Ended True" u' w' demo_world u' w'] e by simp
  with e show "\<exists>u w. inverter_reach stopping_pf tcp_module (Ended True) u w \<and> uw_pool w int_inverter_connection_status_reg = 1"
    by blast
  have "\<not> still_running (demo_pf id id [] True) ?u demo_world" by (simp add: still_running_def)
  then obtain u1 w1 where t: "inverter_thread (demo_pf id id [] True) ?u demo_world = Some (u1, w1)"
    using thread_stops unfolding inverter_thread_def by (metis prod.exhaust)
  from connection_slot_mirrors_state [of "demo_pf id id [] True" tcp_module Connecting ?u demo_world demo_world u1 w1] t z
  show "\<exists>polled u w. inverter_thread (demo_pf id id [] True) ?u demo_world = Some (u, w) \<and>
      inverter_reach (demo_pf id id [] True) tcp_module (Ended polled) u w" by blast
qed

section \<open>Witnesses for the families\<close>

definition rtu_unit_open :: "device_map_profile \<Rightarrow> gw_unit" where
  "rtu_unit_open p = (fresh_unit p rtu_module)\<lparr>u_rtu := test_ctx\<rparr>"

lemma rtu_unit_open_path: "bus_path_of (u_cfg (rtu_unit_open p)) = Some ''/dev/ttyS1''"
  by (simp add: rtu_unit_open_def fresh_unit_def rtu_module_def bus_path_of_def)

theorem inverter_bus_discipline_witness:
  "\<exists>rc u' w' tr. inverter_init_callback (demo_pf id id [] False) (rtu_unit_open inverter1_profile) demo_world = (rc, u', w') \<and>
     uw_trace w' = tr \<and> bus_depth (Some ''/dev/ttyS1'') tr 0 = Some 0"
proof -
  obtain rc u' w' where r: "inverter_init_callback (demo_pf id id [] False) (rtu_unit_open inverter1_profile) demo_world
      = (rc, u', w')" by (metis prod.exhaust)
  have p: "inverter_bus_path (rtu_unit_open inverter1_profile) = Some ''/dev/ttyS1''"
    by (simp add: inverter_bus_path_def rtu_unit_open_path)
  from conjunct1 [OF inverter_bus_discipline [of "demo_pf id id [] False" "rtu_unit_open inverter1_profile" demo_world]] r p
  obtain tr where "uw_trace w' = uw_trace demo_world @ tr" "bus_depth (Some ''/dev/ttyS1'') tr 0 = Some 0" by metis
  with r show ?thesis by (simp add: demo_world_def)
qed

theorem ups_bus_discipline_witness:
  "\<exists>rc u' w' tr. ups_init_callback (demo_pf id id [] False) (rtu_unit_open ups1_profile) demo_world = (rc, u', w') \<and>
     uw_trace w' = tr \<and> bus_depth (Some ''/dev/ttyS1'') tr 0 = Some 0"
proof -
  obtain rc u' w' where r: "ups_init_callback (demo_pf id id [] False) (rtu_unit_open ups1_profile) demo_world
      = (rc, u', w')" by (metis prod.exhaust)
  have p: "ups_bus_path (rtu_unit_open ups1_profile) = Some ''/dev/ttyS1''"
    by (simp add: ups_bus_path_def rtu_unit_open_path)
  from conjunct1 [OF ups_bus_discipline [of "demo_pf id id [] False" "rtu_unit_open ups1_profile" demo_world]] r p
  obtain tr where "uw_trace w' = uw_trace demo_world @ tr" "bus_depth (Some ''/dev/ttyS1'') tr 0 = Some 0" by metis
  with r show ?thesis by (simp add: demo_world_def)
qed

text \<open>A unit without a connection: the first write of the init sequence fails.\<close>

lemma dead_write:
  "write_registers_locked (demo_pf r d ps st) (tcp_unit p (-1)) a [v] 1 WRITE_MODE_FC06 w =
     (-1, tcp_unit p (-1), tcp_done (Call_write a v) (-2) (uw_env w) w)"
  by (simp add: write_registers_locked_def write_single_def mb_tcp_client_write_single_register_def)

theorem inverter_init_flag_witness:
  "\<exists>u' w'. inverter_run_init_sequence (demo_pf id id [] False) (tcp_unit inverter1_profile (-1))
      (demo_world\<lparr>uw_pool := \<lambda>_. 1\<rparr>) = (u', w') \<and>
     uw_pool w' int_inverter_init_flag_reg = 0 \<and> uw_pool w' int_inverter_connection_status_reg = 1"
proof -
  let ?u = "tcp_unit inverter1_profile (-1)" and ?w = "demo_world\<lparr>uw_pool := \<lambda>_. 1\<rparr>"
  obtain u' w' where r: "inverter_run_init_sequence (demo_pf id id [] False) ?u ?w = (u', w')" by fastforce
  have t: "io_calls (uw_trace w') = [Call_write dev_frequency_cmd_reg 0]"
    using r by (auto simp: inverter_run_init_sequence_def dead_write demo_world_def Let_def tcp_done_def split: prod.splits)
  from inverter_init_flag [OF r] obtain k where k: "k \<le> 2"
    "io_calls (uw_trace w') = take k [Call_write dev_frequency_cmd_reg 0, Call_write dev_operation_cmd_reg 0x1001]"
    "k \<noteq> 2 \<longrightarrow> uw_pool w' int_inverter_init_flag_reg = 0"
    "uw_pool w' int_inverter_connection_status_reg = 1" by (auto simp: demo_world_def)
  have "k \<noteq> 2" using k(2) t by auto
  with k r show ?thesis by blast
qed

theorem ups_reboot_order_witness:
  "\<exists>u' w'. ups_run_reboot_sequence (demo_pf id id [] False) (tcp_unit ups1_profile (-1)) demo_world = (u', w') \<and>
     Call_write_many dev_ups_shutdown_reg [0x3031] \<notin> set (io_calls (uw_trace w'))"
proof -
  let ?u = "tcp_unit ups1_profile (-1)" and ?pf = "demo_pf id id [] False"
  obtain u' w' where r: "ups_run_reboot_sequence ?pf ?u demo_world = (u', w')" by fastforce
  have "\<not> verified ?pf dev_ups_restart_reg [0x3030, 0x3031] 2 13 ?u demo_world"
    by (simp add: verified_def Let_def ups_shared_defs write_registers_to_device_def write_registers_locked_def
        write_multiple_def mb_tcp_client_write_multiple_registers_def)
  with ups_reboot_order [OF r] obtain tr k where "uw_trace w' = uw_trace demo_world @ tr" "1 \<le> k" "k \<le> 2"
    "io_calls tr = take k [Call_write_many dev_ups_restart_reg [0x3030, 0x3031], Call_read dev_ups_reboot_verify_reg 1,
       Call_write_many dev_ups_shutdown_reg [0x3031], Call_read dev_ups_reboot_verify_reg 1]"
    by (auto simp: not_less)
  moreover have "k = 1 \<or> k = 2" using calculation(2,3) by auto
  ultimately show ?thesis using r by (auto simp: demo_world_def)
qed

theorem ups_init_flag_witness:
  "\<exists>u' w'. ups_run_init_sequence (demo_pf id id [] False) (tcp_unit ups1_profile (-1)) demo_world = (u', w') \<and>
     comm_fail_count u' = 0"
proof -
  obtain u' w' where r: "ups_run_init_sequence (demo_pf id id [] False) (tcp_unit ups1_profile (-1)) demo_world = (u', w')"
    by fastforce
  from ups_init_flag [OF r] r show ?thesis by auto
qed

text \<open>A slave that answers the probe and then talks nonsense: every register write fails.\<close>

definition probe_only :: "u8 list \<Rightarrow> u8 list" where
  "probe_only req = append_crc ([1, 3, 2] @ regs_to_bytes [0x1234])"

theorem inverter_connect_programs_device_witness:
  "\<exists>u' w' tr. inverter_unit_connect (demo_pf probe_only id [] False) (fresh_unit inverter1_profile rtu_module) demo_world = (0, u', w') \<and>
     uw_trace w' = tr \<and> length (io_calls tr) = 18"
proof -
  let ?pf = "demo_pf probe_only id [] False" and ?u = "fresh_unit inverter1_profile rtu_module"
  obtain rc u1 w1 where o: "open_rtu ?pf ?u demo_world = (rc, u1, w1)" by (metis prod.exhaust)
  have rc: "rc = 0" "0 \<le> rtu_fd (u_rtu u1)" "rtu_unit_id (rtu_cfg (u_rtu u1)) = 1"
    using o by (auto simp: open_rtu_def Let_def fresh_unit_def rtu_module_def mb_rtu_client_connect_def
        acquire_shared_bus_def search_bus_def rtu_view_def demo_world_def zero_bus_def shared_bus_attach_port_def
        configure_serial_port_def test_os_def upt_rec_numeral numeral_nat)
  let ?a = "device_address (rows inverter1_profile ! 0)"
  let ?w = "unit_acquire ?pf (inverter_bus_path ?u) w1"
  obtain pr w2 where p: "probe_unit ?pf u1 ?a ?w = (pr, w2)" by fastforce
  have "pr = 0"
  proof -
    obtain r out rw where m: "mb_rtu_client_read_holding_registers (test_os probe_only) (Some (u_rtu u1)) ?a 1 (rtu_view ?w)
        = (r, out, rw)" by (metis prod.exhaust)
    obtain t resp w3 where d: "do_transaction (test_os probe_only) (u_rtu u1)
        (rtu_read_request 1 ?a 1) 7 (rtu_view ?w) = (t, resp, w3)" by (metis prod.exhaust)
    have len: "length (probe_only req) = 7" for req
      by (simp add: probe_only_def append_crc_def Let_def)
    have "response_verdict 1 (probe_only req) 7 = 0" for req
      using verdict_append_crc [of 1 3 2 "regs_to_bytes [0x1234]"] by (simp add: probe_only_def)
    with do_transaction_line [OF test_os_line _ d] len rc have "t = 0" "resp = probe_only (rtu_read_request 1 ?a 1)"
      by auto
    with m d rc have "r = 0"
      by (auto simp: mb_rtu_client_read_holding_registers_def probe_only_def append_crc_def Let_def)
    with m p show ?thesis by (simp add: probe_unit_def mb_rtu_client_probe_device_def)
  qed
  with inverter_connect_programs_device [of ?u ?pf demo_world u1 w1 w2] o rc p inverter1_chunk(2)
  have "\<exists>u' w' tr. inverter_unit_connect ?pf ?u demo_world = (0, u', w') \<and> uw_trace w' = uw_trace demo_world @ tr \<and>
      io_calls tr = [Call_connect, Call_probe ?a 1] @ map (\<lambda>(a, v). Call_write a v) (inverter_init_table rtu_module) \<and>
      length (inverter_init_table rtu_module) = 16"
    by (simp add: fresh_unit_def rtu_module_def inverter_baud_convert_def)
  then show ?thesis by (auto simp: demo_world_def)
qed

end
