(* ===== verification/Unit_Hold.thy ===== *)
theory Unit_Hold
  imports Unit_Start
begin

text \<open>
  Who holds the bus at an exchange. \<open>Unit_Bus\<close> shows that the calls of acquire and release are
  bracketed; here the slots of the bus coordinator themselves are followed, while other threads
  take and give up the same paths before every acquire: at each exchange on a serial line the
  coordinator's slot of the line's path belongs to the thread.
\<close>

section \<open>Holding a path\<close>

text \<open>How often thread \<open>t\<close> holds path \<open>p\<close> according to the slots.\<close>

definition held :: "nat \<Rightarrow> string \<Rightarrow> bus_slots \<Rightarrow> nat" where
  "held t p s = (case bus_holder s p of None \<Rightarrow> 0 | Some (u, d) \<Rightarrow> if u = t then d else 0)"

text \<open>The other threads keep the slots consistent, do not touch what this thread holds, and the
  wait of an acquire ends only when no other thread holds the path: this is the loop of
  \<^verbatim>\<open>bus_coord_acquire\<close> around \<^verbatim>\<open>pthread_cond_wait\<close>.\<close>

definition bus_waits :: "'e platform \<Rightarrow> string set \<Rightarrow> bool" where
  "bus_waits pf P \<longleftrightarrow>
     (\<forall>p\<in>P. \<forall>s e. bus_inv P s \<longrightarrow>
        (case pf_bus_wait pf (Some p) s e of
           (s', e') \<Rightarrow> bus_inv P s' \<and> (\<forall>q\<in>P. held (pf_self pf) q s' = held (pf_self pf) q s) \<and>
             bus_coord_acquire (pf_self pf) (Some p) s' \<noteq> None))"

text \<open>The situation of one RTU unit whose line has path \<open>p\<close>.\<close>

definition on_line :: "'e platform \<Rightarrow> string set \<Rightarrow> string \<Rightarrow> gw_unit \<Rightarrow> bool" where
  "on_line pf P p u \<longleftrightarrow> bus_keys_ok P \<and> bus_waits pf P \<and> p \<in> P \<and> unit_path u = Some p"

lemma on_line_keeps: "on_line pf P p u \<Longrightarrow> keeps u u' \<Longrightarrow> on_line pf P p u'"
  by (simp add: on_line_def keeps_path)

lemma on_line_rtu:
  assumes "on_line pf P p u"
  shows "cfg_format (u_cfg u) = MODBUS_FORMAT_RTU" and "bus_path_of (u_cfg u) = Some p"
  using assms by (auto simp: on_line_def unit_path_def bus_path_of_def split: if_splits)

lemma on_line_simps [simp]:
  "on_line pf P p (u\<lparr>u_tcp := t\<rparr>) = on_line pf P p u" "on_line pf P p (u\<lparr>u_rtu := r\<rparr>) = on_line pf P p u"
  "on_line pf P p (u\<lparr>comm_fail_count := n\<rparr>) = on_line pf P p u"
  "on_line pf P p (u\<lparr>connection_state := st\<rparr>) = on_line pf P p u"
  "on_line pf P p (u\<lparr>u_queue := q\<rparr>) = on_line pf P p u" "on_line pf P p (u\<lparr>init_requested := b\<rparr>) = on_line pf P p u"
  "on_line pf P p (u\<lparr>reboot_requested := b\<rparr>) = on_line pf P p u"
  by (simp_all add: on_line_def unit_path_def)

text \<open>\<open>stays n\<close>: an operation that starts with the path held \<open>n\<close> times ends so, and each of its
  exchanges on the line was made with the path held.\<close>

definition at_depth :: "'e platform \<Rightarrow> string set \<Rightarrow> string \<Rightarrow> nat \<Rightarrow> 'e unit_world \<Rightarrow> bool" where
  "at_depth pf P p n w \<longleftrightarrow> bus_inv P (uw_bus w) \<and> held (pf_self pf) p (uw_bus w) = n"

definition line_held :: "'e platform \<Rightarrow> string \<Rightarrow> 'e unit_world \<Rightarrow> 'e unit_world \<Rightarrow> bool" where
  "line_held pf p w w' \<longleftrightarrow>
     (\<exists>l. uw_line w' = uw_line w @ l \<and> (\<forall>(c, s)\<in>set l. on_wire c \<longrightarrow> 0 < held (pf_self pf) p s))"

definition stays :: "'e platform \<Rightarrow> string set \<Rightarrow> string \<Rightarrow> nat \<Rightarrow> 'e unit_world \<Rightarrow> 'e unit_world \<Rightarrow> bool" where
  "stays pf P p n w w' \<longleftrightarrow> (at_depth pf P p n w \<longrightarrow> at_depth pf P p n w' \<and> line_held pf p w w')"

lemma line_held_same: "uw_line w' = uw_line w \<Longrightarrow> line_held pf p w w'"
  by (simp add: line_held_def)

lemma line_held_trans:
  assumes "line_held pf p w w1" and "line_held pf p w1 w2"
  shows "line_held pf p w w2"
proof -
  from assms obtain a b where "uw_line w1 = uw_line w @ a" "uw_line w2 = uw_line w1 @ b"
    "\<forall>(c, s)\<in>set a. on_wire c \<longrightarrow> 0 < held (pf_self pf) p s" "\<forall>(c, s)\<in>set b. on_wire c \<longrightarrow> 0 < held (pf_self pf) p s"
    unfolding line_held_def by blast
  then show ?thesis unfolding line_held_def by (intro exI [of _ "a @ b"]) auto
qed

lemma stays_trans: "stays pf P p n w w1 \<Longrightarrow> stays pf P p n w1 w2 \<Longrightarrow> stays pf P p n w w2"
  unfolding stays_def using line_held_trans by blast

lemma stays_quiet: "uw_bus w' = uw_bus w \<Longrightarrow> uw_line w' = uw_line w \<Longrightarrow> stays pf P p n w w'"
  by (simp add: stays_def at_depth_def line_held_same)

lemma stays_refl [simp]: "stays pf P p n w w"
  by (rule stays_quiet) simp_all

text \<open>What neither touches the slots nor the line.\<close>

lemma quiet_bus [simp]:
  "uw_bus (log_event ev w) = uw_bus w" "uw_line (log_event ev w) = uw_line w"
  "uw_bus (unit_usleep pf us w) = uw_bus w" "uw_line (unit_usleep pf us w) = uw_line w"
  "uw_bus (pool_write a v w) = uw_bus w" "uw_line (pool_write a v w) = uw_line w"
  "uw_bus (tcp_done c rc e w) = uw_bus w" "uw_line (tcp_done c rc e w) = uw_line w"
  "uw_line (unit_acquire pf path w) = uw_line w" "uw_line (unit_release pf path w) = uw_line w"
  by (simp_all add: log_event_def unit_usleep_def pool_write_def tcp_done_def unit_acquire_def unit_release_def
      split: prod.split option.split)

lemma quiet_mark [simp]:
  "uw_bus (mark_unreachable p w) = uw_bus w" "uw_line (mark_unreachable p w) = uw_line w"
proof -
  have "uw_bus (fold (\<lambda>m. pool_write (pool_address m) 0xFFFF) ms w) = uw_bus w \<and>
      uw_line (fold (\<lambda>m. pool_write (pool_address m) 0xFFFF) ms w) = uw_line w"
    for ms :: "device_register_mapping list"
    by (induction ms arbitrary: w) auto
  then show "uw_bus (mark_unreachable p w) = uw_bus w" "uw_line (mark_unreachable p w) = uw_line w"
    by (simp_all add: mark_unreachable_def)
qed

text \<open>The same after an operation.\<close>

lemma stays_after [simp]:
  "stays pf P p n w (unit_usleep pf' us w1) = stays pf P p n w w1"
  "stays pf P p n (unit_usleep pf' us w) w1 = stays pf P p n w w1"
  "stays pf P p n w (pool_write a v w1) = stays pf P p n w w1"
  "stays pf P p n (pool_write a v w) w1 = stays pf P p n w w1"
  "stays pf P p n w (w1\<lparr>uw_pool := pl\<rparr>) = stays pf P p n w w1"
  "stays pf P p n w (w1\<lparr>uw_env := e\<rparr>) = stays pf P p n w w1"
  "stays pf P p n w (mark_unreachable pr w1) = stays pf P p n w w1"
  by (simp_all add: stays_def at_depth_def line_held_def)

section \<open>Acquire, exchange, release\<close>

text \<open>Each is one use of the contract of the re-entrant lock.\<close>

lemma on_line_key: "on_line pf P p u \<Longrightarrow> p \<in> bus_keys P"
  by (simp add: on_line_def bus_keys_def)

lemma acquire_held:
  assumes "on_line pf P p u" and "at_depth pf P p n w" and "n < 2 ^ 32 - 1"
  shows "at_depth pf P p (Suc n) (unit_acquire pf (Some p) w)"
proof -
  let ?t = "pf_self pf"
  obtain s e where s: "pf_bus_wait pf (Some p) (uw_bus w) (uw_env w) = (s, e)" by fastforce
  have i: "bus_inv P s" "held ?t p s = n" "bus_coord_acquire ?t (Some p) s \<noteq> None"
    using assms(1,2) s unfolding on_line_def bus_waits_def at_depth_def by (metis (mono_tags, lifting) case_prod_conv)+
  note k = on_line_key [OF assms(1)]
  obtain s' where s': "bus_coord_acquire ?t (Some p) s = Some s'" "bus_inv P s'" "bus_holder s' = (bus_holder s)(p \<mapsto> (?t, Suc n))"
  proof (cases "bus_holder s p")
    case None
    with i(2) have "n = 0" by (simp add: held_def)
    with bus.acq_free [OF i(1) k None, of ?t] that show thesis by auto
  next
    case (Some td)
    obtain u d where td: "td = (u, d)" by fastforce
    have "u = ?t"
    proof (rule ccontr)
      assume "u \<noteq> ?t"
      with bus.acq_other [OF i(1) k, of u d ?t] Some td i(3) show False by simp
    qed
    with Some td i(2) have "bus_holder s p = Some (?t, n)" by (simp add: held_def)
    from bus.acq_own [OF i(1) k this assms(3)] that show thesis by blast
  qed
  have "uw_bus (unit_acquire pf (Some p) w) = s'" by (simp add: unit_acquire_def s s'(1))
  with s'(2,3) show ?thesis by (simp add: at_depth_def held_def)
qed

lemma release_held:
  assumes "on_line pf P p u" and "at_depth pf P p (Suc n) w"
  shows "at_depth pf P p n (unit_release pf (Some p) w)"
proof -
  let ?t = "pf_self pf"
  have i: "bus_inv P (uw_bus w)" "bus_holder (uw_bus w) p = Some (?t, Suc n)"
    using assms(2) by (auto simp: at_depth_def held_def split: option.splits if_splits)
  from bus.rel_own [OF i(1) on_line_key [OF assms(1)] i(2)] show ?thesis
    by (simp add: unit_release_def at_depth_def held_def)
qed

lemma stays_bracket:
  assumes "on_line pf P p u" and "n < 2 ^ 32 - 1" and "stays pf P p (Suc n) (unit_acquire pf (Some p) w) w1"
  shows "stays pf P p n w (unit_release pf (Some p) w1)"
  unfolding stays_def
proof
  assume "at_depth pf P p n w"
  from acquire_held [OF assms(1) this assms(2)] assms(3)
  have d: "at_depth pf P p (Suc n) w1" "line_held pf p (unit_acquire pf (Some p) w) w1" by (simp_all add: stays_def)
  with release_held [OF assms(1) d(1)] show "at_depth pf P p n (unit_release pf (Some p) w1) \<and> line_held pf p w (unit_release pf (Some p) w1)"
    by (simp add: line_held_def)
qed

lemma stays_exchange:
  assumes "0 < n \<or> \<not> on_wire c"
  shows "stays pf P p n w (rtu_done c rc rw w)"
  using assms by (auto simp: stays_def at_depth_def line_held_def rtu_done_def log_event_def)

lemma stays_exchange_after:
  "stays pf P p n w w1 \<Longrightarrow> 0 < n \<or> \<not> on_wire c \<Longrightarrow> stays pf P p n w (rtu_done c rc rw w1)"
  using stays_trans stays_exchange by blast

section \<open>The operations of a unit\<close>

lemma read_device_value_held:
  assumes "on_line pf P p u" and "n < 2 ^ 32 - 1" and "read_device_value pf u a k w = (rc, out, u', w')"
  shows "stays pf P p n w w'"
proof -
  obtain r o1 rw where c: "mb_rtu_client_read_holding_registers (pf_serial pf) (Some (u_rtu u)) a k
      (rtu_view (unit_acquire pf (Some p) w)) = (r, o1, rw)" by (metis prod.exhaust)
  have "w' = unit_release pf (Some p) (rtu_done (Call_read a k) r rw (unit_acquire pf (Some p) w))"
    using assms(3) c on_line_rtu [OF assms(1)] by (auto simp: read_device_value_def Let_def)
  with stays_bracket [OF assms(1,2) stays_exchange] show ?thesis by simp
qed

lemma write_held:
  assumes "on_line pf P p u" and "0 < n"
  shows "write_single pf u a v w = (rc, u', w') \<Longrightarrow> stays pf P p n w w'"
    and "write_multiple pf u a k vs w = (rc, u', w') \<Longrightarrow> stays pf P p n w w'"
  using assms(2) on_line_rtu(1) [OF assms(1)]
  by (auto simp: write_single_def write_multiple_def intro: stays_exchange split: prod.splits)

lemma write_registers_locked_held:
  assumes "on_line pf P p u" and "0 < n" and "write_registers_locked pf u a vs k m w = (rc, u', w')"
  shows "stays pf P p n w w'"
proof -
  obtain r1 u1 w1 where s: "write_single pf u a (vs ! 0) w = (r1, u1, w1)" by (metis prod.exhaust)
  obtain r2 u2 w2 where t: "write_multiple pf u a k vs w = (r2, u2, w2)" by (metis prod.exhaust)
  from assms(3) s t write_held(1) [OF assms(1,2) s] write_held(2) [OF assms(1,2) t] show ?thesis
    by (cases m; cases "k = 1") (auto simp: write_registers_locked_def)
qed

lemma write_registers_to_device_held:
  assumes "on_line pf P p u" and "n < 2 ^ 32 - 1" and "write_registers_to_device pf u a vs k m w = (rc, u', w')"
  shows "stays pf P p n w w'"
proof -
  obtain r u1 w1 where l: "write_registers_locked pf u a vs k m (unit_acquire pf (Some p) w) = (r, u1, w1)"
    by (metis prod.exhaust)
  have "stays pf P p (Suc n) (unit_acquire pf (Some p) w) (if r = 0 then unit_usleep pf 70000 w1 else w1)"
    using write_registers_locked_held [OF assms(1) _ l, of "Suc n"] by simp
  from stays_bracket [OF assms(1,2) this] assms(3) l show ?thesis
    by (auto simp: write_registers_to_device_def Let_def on_line_rtu(2) [OF assms(1)])
qed

lemma scan_segment_held:
  assumes "on_line pf P p u" and "n < 2 ^ 32 - 1" and "scan_segment pf track s l buf u w = (go, buf', u', w')"
  shows "stays pf P p n w w'"
  using assms(3) by (cases rule: scan_segment_cases) (auto dest!: read_device_value_held [OF assms(1,2)])

lemma run_segments_held:
  assumes "n < 2 ^ 32 - 1"
  shows "on_line pf P p u \<Longrightarrow> run_segments pf track segs buf u w = (rc, u', w') \<Longrightarrow> stays pf P p n w w'"
proof (induction segs arbitrary: buf u w)
  case (Cons sl segs)
  obtain go buf1 u1 w1 where seg: "scan_segment pf track (fst sl) (snd sl) buf u w = (go, buf1, u1, w1)"
    by (metis prod.exhaust)
  have k: "stays pf P p n w w1" "on_line pf P p u1"
    using scan_segment_held [OF Cons.prems(1) assms seg] on_line_keeps [OF Cons.prems(1)] scan_segment_bus [OF seg] by blast+
  with Cons.IH [OF k(2), of buf1 w1] Cons.prems(2) seg show ?case by (cases go) (auto intro: stays_trans)
qed simp

lemma read_profile_to_pool_held:
  assumes "on_line pf P p u" and "n < 2 ^ 32 - 2" and "read_profile_to_pool pf track u w = (rc, u', w')"
  shows "stays pf P p n w w'"
proof (cases "table_count (u_profile u) = 0")
  case True
  with assms(3) show ?thesis by (simp add: read_profile_to_pool_segments)
next
  case False
  obtain r u1 w1 where run: "run_segments pf track (profile_segments (u_profile u)) (replicate 125 0) u
      (unit_acquire pf (Some p) w) = (r, u1, w1)" by (metis prod.exhaust)
  have "stays pf P p (Suc n) (unit_acquire pf (Some p) w) w1"
    by (rule run_segments_held [OF _ assms(1) run]) (use assms(2) in simp)
  from stays_bracket [OF assms(1) _ this] assms False run show ?thesis
    by (simp add: read_profile_to_pool_segments on_line_def)
qed

lemma write_queued_held:
  assumes "on_line pf P p u" and "0 < n" and "write_queued pf c u w = (u', w')"
  shows "stays pf P p n w w'"
proof -
  obtain rc u1 w1 where l:
    "write_registers_locked pf u (cmd_addr c) (cmd_values c) (cmd_count c) (cmd_mode c) w = (rc, u1, w1)"
    by (metis prod.exhaust)
  from write_registers_locked_held [OF assms(1,2) l] assms(3) l show ?thesis by (auto simp: write_queued_def)
qed

lemma unit_pop_held:
  assumes "unit_pop pf ma u w = (oc, u', w')"
  shows "stays pf P p n w w'"
  using assms by (auto simp: unit_pop_def settle_pushes_def split: prod.splits option.splits)

lemma drain_loop_held:
  fixes w :: "'e unit_world" and pf :: "'e platform"
  assumes "drain_loop pf ma c u w = Some (u', w')" and "on_line pf P p u" and "0 < n"
  shows "stays pf P p n w w'"
proof -
  have "on_line pf P p u \<longrightarrow> stays pf P p n w (snd (u', w'))"
  proof (rule drain_loop.raw_induct [OF _ assms(1),
        where P = "\<lambda>pf ma c u w r. on_line pf P p u \<longrightarrow> stays pf P p n w (snd r)"], rule impI)
    fix rec :: "'e platform \<Rightarrow> (u16 \<Rightarrow> bool) \<Rightarrow> write_cmd \<Rightarrow> gw_unit \<Rightarrow> 'e unit_world \<Rightarrow>
          (gw_unit \<times> 'e unit_world) option"
      and pf :: "'e platform" and ma c u and w :: "'e unit_world" and r
    assume IH: "\<And>pf ma c u w r. rec pf ma c u w = Some r \<Longrightarrow> on_line pf P p u \<longrightarrow> stays pf P p n w (snd r)"
    assume body: "(let (u1, w1) = write_queued pf c u w
      in case unit_pop pf ma u1 w1 of (None, u2, w2) \<Rightarrow> Some (u2, w2)
         | (Some c', u2, w2) \<Rightarrow> rec pf ma c' u2 w2) = Some r"
    assume o: "on_line pf P p u"
    obtain u1 w1 where q: "write_queued pf c u w = (u1, w1)" by fastforce
    obtain oc u2 w2 where p: "unit_pop pf ma u1 w1 = (oc, u2, w2)" by (metis prod.exhaust)
    have s: "stays pf P p n w w2"
      using stays_trans [OF write_queued_held [OF o assms(3) q] unit_pop_held [OF p]] .
    have "on_line pf P p u2"
      using on_line_keeps [OF o] write_queued_bus [OF q] unit_pop_bus [OF p] keeps_trans by blast
    with s q p body show "stays pf P p n w (snd r)"
      using IH [of pf ma "the oc" u2 w2 r] stays_trans [OF s, of "snd r"] by (cases oc) auto
  qed
  with assms(2) show ?thesis by simp
qed

lemma drain_queue_held:
  assumes "on_line pf P p u" and "n < 2 ^ 32 - 1" and "drain_queue pf ma u w = Some (u', w')"
  shows "stays pf P p n w w'"
proof -
  obtain oc u1 w1 where q: "unit_pop pf ma u w = (oc, u1, w1)" by (metis prod.exhaust)
  have o: "on_line pf P p u1" using on_line_keeps [OF assms(1)] unit_pop_bus [OF q] by blast
  note s = unit_pop_held [OF q, of P p n]
  show ?thesis
  proof (cases oc)
    case None
    with assms(3) q s show ?thesis by (simp add: drain_queue_def)
  next
    case (Some c)
    with assms(3) q on_line_rtu(2) [OF o] obtain u2 w2
      where d: "drain_loop pf ma c u1 (unit_acquire pf (Some p) w1) = Some (u2, w2)"
        and e: "w' = unit_release pf (Some p) (unit_usleep pf 70000 w2)"
      by (auto simp: drain_queue_def Let_def split: option.splits)
    have "stays pf P p (Suc n) (unit_acquire pf (Some p) w1) (unit_usleep pf 70000 w2)"
      using drain_loop_held [OF d o, of "Suc n"] by simp
    from stays_trans [OF s stays_bracket [OF o assms(2) this]] show ?thesis unfolding e .
  qed
qed

lemma drain_and_scan_held:
  assumes "on_line pf P p u" and "n < 2 ^ 32 - 2" and "drain_and_scan pf ma u w = Some (rc, u', w')"
  shows "stays pf P p n w w'"
proof -
  from assms(3) obtain u1 w1 where d: "drain_queue pf ma u w = Some (u1, w1)"
    by (auto simp: drain_and_scan_def split: option.splits)
  obtain r u2 w2 where s: "read_profile_to_pool pf True u1 w1 = (r, u2, w2)" by (metis prod.exhaust)
  have o: "on_line pf P p u1" using on_line_keeps [OF assms(1)] drain_queue_bus [OF d] by blast
  have k1: "stays pf P p n w w1" by (rule drain_queue_held [OF assms(1) _ d]) (use assms(2) in simp)
  have "stays pf P p n w w2" by (rule stays_trans [OF k1 read_profile_to_pool_held [OF o assms(2) s]])
  with k1 assms(3) d s show ?thesis by (auto simp: drain_and_scan_def split: if_splits)
qed

lemma close_rtu_held: "close_rtu pf u w = (u', w') \<Longrightarrow> stays pf P p n w w'"
  by (auto simp: close_rtu_def on_wire_def intro!: stays_exchange split: prod.splits)

lemma unit_disconnect_held:
  "on_line pf P p u \<Longrightarrow> unit_disconnect pf u w = (u', w') \<Longrightarrow> stays pf P p n w w'"
  using close_rtu_held by (simp add: unit_disconnect_def on_line_rtu(1))

lemma open_rtu_held: "open_rtu pf u w = (rc, u', w') \<Longrightarrow> stays pf P p n w w'"
  by (auto simp: open_rtu_def Let_def on_wire_def intro!: stays_exchange split: prod.splits)

lemma probe_unit_held: "0 < n \<Longrightarrow> probe_unit pf u a w = (rc, w') \<Longrightarrow> stays pf P p n w w'"
  by (auto simp: probe_unit_def intro!: stays_exchange split: prod.splits)

lemma sleep_loop_held:
  fixes w :: "'e unit_world" and pf :: "'e platform"
  assumes "sleep_loop pf u d k w = Some w'"
  shows "stays pf P p n w w'"
proof (rule sleep_loop.raw_induct [OF _ assms, where P = "\<lambda>pf' u d k w w'. stays pf P p n w w'"])
  fix rec :: "'e platform \<Rightarrow> gw_unit \<Rightarrow> u32 \<Rightarrow> u32 \<Rightarrow> 'e unit_world \<Rightarrow> 'e unit_world option"
    and pf' :: "'e platform" and u d k and w r :: "'e unit_world"
  assume IH: "\<And>pf' u d k w r. rec pf' u d k w = Some r \<Longrightarrow> stays pf P p n w r"
  assume body: "(if k < d \<and> still_running pf' u w
      then rec pf' u d (k + MODBUS_DEFAULT_SHUTDOWN_CHECK_INTERVAL_MS)
             (unit_usleep pf' (unat (MODBUS_DEFAULT_SHUTDOWN_CHECK_INTERVAL_MS * 1000)) w)
      else Some w) = Some r"
  show "stays pf P p n w r"
    using body IH [of pf' u d "k + MODBUS_DEFAULT_SHUTDOWN_CHECK_INTERVAL_MS" "unit_usleep pf' 100000 w" r]
    by (auto split: if_splits)
qed

lemma error_callback_held:
  assumes "on_line pf P p u" and "error_callback pf reg st u w = Some (u', w')"
  shows "stays pf P p n w w'"
proof -
  obtain u1 w1 where d: "unit_disconnect pf u w = (u1, w1)" by fastforce
  let ?u2 = "u1\<lparr>comm_fail_count := 0, connection_state := st\<rparr>" and ?w2 = "pool_write reg (of_int st) w1"
  from assms(2) d have "sleep_loop pf ?u2 MODBUS_DEFAULT_RECONNECT_DELAY_MS 0 ?w2 = Some w'"
    by (auto simp: error_callback_def unit_set_connection_def interruptible_sleep_ms_def split: option.splits)
  from sleep_loop_held [OF this, of P p n] unit_disconnect_held [OF assms(1) d, of n] show ?thesis
    by (auto intro: stays_trans)
qed

lemma init_callback_held:
  assumes "init_callback connect pf reg u w = (rc, u', w')"
    and "\<And>r u1 w1. connect pf u w = (r, u1, w1) \<Longrightarrow> stays pf P p n w w1"
  shows "stays pf P p n w w'"
proof -
  obtain r u1 w1 where c: "connect pf u w = (r, u1, w1)" by (metis prod.exhaust)
  from assms(1) c assms(2) [OF c] show ?thesis
    by (auto simp: init_callback_def unit_set_connection_def split: if_splits)
qed

lemma msg_callback_held:
  assumes "on_line pf P p u" and "n < 2 ^ 32 - 1" and "msg_callback pf a vs k u w = (rc, u', w')"
  shows "stays pf P p n w w'"
  using assms(3) write_registers_to_device_held [OF assms(1,2)]
  by (auto simp: msg_callback_def split: option.splits if_splits)

section \<open>The thread\<close>

definition holding_callbacks :: "'e platform \<Rightarrow> string set \<Rightarrow> string \<Rightarrow> 'e unit_callbacks \<Rightarrow> bool" where
  "holding_callbacks pf P p cb \<longleftrightarrow>
     (\<forall>u w rc u' w'. on_line pf P p u \<longrightarrow> cb_init cb u w = (rc, u', w') \<longrightarrow> stays pf P p 0 w w') \<and>
     (\<forall>u w rc u' w'. on_line pf P p u \<longrightarrow> cb_process cb u w = Some (rc, u', w') \<longrightarrow> stays pf P p 0 w w') \<and>
     (\<forall>u w st u' w'. on_line pf P p u \<longrightarrow> cb_error cb st u w = Some (u', w') \<longrightarrow> stays pf P p 0 w w')"

text \<open>The callbacks of a family also keep the unit's configuration, as \<open>Unit_Life\<close> shows.\<close>

lemma disciplinedD:
  assumes "disciplined_callbacks cb"
  shows "cb_init cb u w = (rc, u', w') \<Longrightarrow> keeps u u'"
    and "cb_process cb u w = Some (rc, u', w') \<Longrightarrow> keeps u u'"
    and "cb_error cb st u w = Some (u', w') \<Longrightarrow> keeps u u'"
  using assms unfolding disciplined_callbacks_def by blast+

lemma holdingD:
  assumes "holding_callbacks pf P p cb" and "on_line pf P p u"
  shows "cb_init cb u w = (rc, u', w') \<Longrightarrow> stays pf P p 0 w w'"
    and "cb_process cb u w = Some (rc, u', w') \<Longrightarrow> stays pf P p 0 w w'"
    and "cb_error cb st u w = Some (u', w') \<Longrightarrow> stays pf P p 0 w w'"
  using assms unfolding holding_callbacks_def by blast+

lemma thread_loop_held:
  fixes w :: "'e unit_world" and pf :: "'e platform"
  assumes "thread_loop pf cb c u w = Some (u', w')" and "disciplined_callbacks cb" and "holding_callbacks pf P p cb"
    and "on_line pf P p u"
  shows "stays pf P p 0 w w'"
proof -
  let ?H = "\<lambda>pf cb u. disciplined_callbacks cb \<and> holding_callbacks pf P p cb \<and> on_line pf P p u"
  have "?H pf cb u \<longrightarrow> stays pf P p 0 w (snd (u', w'))"
  proof (rule thread_loop.raw_induct [OF _ assms(1),
        where P = "\<lambda>pf cb c u w r. ?H pf cb u \<longrightarrow> stays pf P p 0 w (snd r)"], rule impI)
    fix rec :: "'e platform \<Rightarrow> 'e unit_callbacks \<Rightarrow> bool \<Rightarrow> gw_unit \<Rightarrow> 'e unit_world \<Rightarrow>
          (gw_unit \<times> 'e unit_world) option"
      and pf :: "'e platform" and cb :: "'e unit_callbacks" and c u and w :: "'e unit_world" and r
    assume IH: "\<And>pf cb c u w r. rec pf cb c u w = Some r \<Longrightarrow> ?H pf cb u \<longrightarrow> stays pf P p 0 w (snd r)"
    assume h: "?H pf cb u"
    assume body: "(if c
        then if still_running pf u w
             then case cb_process cb u w of None \<Rightarrow> None
                  | Some (rc, u1, w1) \<Rightarrow>
                      if rc \<noteq> 0
                      then case cb_error cb 0 u1 w1 of None \<Rightarrow> None
                           | Some (u2, w2) \<Rightarrow> rec pf cb False u2 w2
                      else rec pf cb True u1 w1
             else rec pf cb False u w
        else if still_running pf u w
             then case cb_init cb u w of
                  (rc, u1, w1) \<Rightarrow>
                    if rc \<noteq> 0
                    then case interruptible_sleep_ms pf u1 5000 w1 of None \<Rightarrow> None
                         | Some w2 \<Rightarrow> rec pf cb False u1 w2
                    else rec pf cb True u1 w1
             else Some (u, w)) = Some r"
    have go: "stays pf P p 0 w (snd r)" if "stays pf P p 0 w w1" "keeps u u1" "rec pf cb b u1 w1 = Some r" for b u1 w1
      using IH [OF that(3)] h on_line_keeps [OF _ that(2)] stays_trans [OF that(1)] by blast
    show "stays pf P p 0 w (snd r)"
    proof (cases "still_running pf u w")
      case False
      with body go [of w u] show ?thesis by (cases c) auto
    next
      case run: True
      show ?thesis
      proof (cases c)
        case True
        with body run obtain rc u1 w1 where p: "cb_process cb u w = Some (rc, u1, w1)"
          by (auto split: option.splits)
        have k1: "keeps u u1" "stays pf P p 0 w w1"
          using disciplinedD(2) [OF _ p] holdingD(2) [OF _ _ p] h by blast+
        show ?thesis
        proof (cases "rc = 0")
          case True
          with body run p \<open>c\<close> go [OF k1(2,1), of True] show ?thesis by simp
        next
          case False
          with body run p \<open>c\<close> obtain u2 w2 where e: "cb_error cb 0 u1 w1 = Some (u2, w2)"
            "rec pf cb False u2 w2 = Some r" by (auto split: option.splits)
          have "on_line pf P p u1" using h on_line_keeps [OF _ k1(1)] by blast
          then have "keeps u1 u2" "stays pf P p 0 w1 w2"
            using disciplinedD(3) [OF _ e(1)] holdingD(3) [OF _ _ e(1)] h by blast+
          from go [OF stays_trans [OF k1(2) this(2)] keeps_trans [OF k1(1) this(1)] e(2)] show ?thesis .
        qed
      next
        case False
        obtain rc u1 w1 where p: "cb_init cb u w = (rc, u1, w1)" by (metis prod.exhaust)
        then have k1: "keeps u u1" "stays pf P p 0 w w1"
          using disciplinedD(1) holdingD(1) h by blast+
        show ?thesis
        proof (cases "rc = 0")
          case True
          with body run p False go [OF k1(2,1), of True] show ?thesis by simp
        next
          case rc: False
          with body run p False obtain w2 where e: "interruptible_sleep_ms pf u1 5000 w1 = Some w2"
            "rec pf cb False u1 w2 = Some r" by (auto split: option.splits)
          from e(1) have "stays pf P p 0 w1 w2" unfolding interruptible_sleep_ms_def by (rule sleep_loop_held)
          from go [OF stays_trans [OF k1(2) this] k1(1) e(2)] show ?thesis .
        qed
      qed
    qed
  qed
  with assms(2-4) show ?thesis by simp
qed

lemma unit_thread_held:
  assumes "unit_thread pf cb u w = Some (u', w')" and "disciplined_callbacks cb" and "holding_callbacks pf P p cb"
    and "on_line pf P p u"
  shows "stays pf P p 0 w w'"
proof -
  from assms(1) obtain u1 w1 where t: "thread_loop pf cb False u w = Some (u1, w1)"
    and d: "unit_disconnect pf u1 w1 = (u', w')"
    by (auto simp: unit_thread_def split: option.splits)
  have "on_line pf P p u1" using on_line_keeps [OF assms(4)] thread_loop_bus [OF t assms(2)] by blast
  from stays_trans [OF thread_loop_held [OF t assms(2-4)] unit_disconnect_held [OF this d]] show ?thesis .
qed

section \<open>The inverter\<close>

lemma init_write_loop_held:
  assumes "0 < n"
  shows "on_line pf P p u \<Longrightarrow> init_write_loop pf ws u w = (u', w') \<Longrightarrow> stays pf P p n w w'"
proof (induction ws arbitrary: u w)
  case (Cons av ws)
  obtain a v where av: "av = (a, v)" by fastforce
  obtain rc u1 w1 where l: "write_registers_locked pf u a [v] 1 WRITE_MODE_FC06 w = (rc, u1, w1)"
    by (metis prod.exhaust)
  have o: "on_line pf P p u1" using on_line_keeps [OF Cons.prems(1)] write_registers_locked_bus [OF l] by blast
  let ?w2 = "if rc = 0 then unit_usleep pf 40000 w1 else w1"
  have "init_write_loop pf ws u1 ?w2 = (u', w')" using Cons.prems(2) av l by simp
  from Cons.IH [OF o this] have "stays pf P p n w1 w'" by (simp split: if_splits)
  from stays_trans [OF write_registers_locked_held [OF Cons.prems(1) assms l] this] show ?case .
qed simp

lemma sequence_loop_held:
  assumes "0 < n"
  shows "on_line pf P p u \<Longrightarrow> sequence_loop pf ws u w = (ok, u', w') \<Longrightarrow> stays pf P p n w w'"
proof (induction ws arbitrary: u w)
  case (Cons av ws)
  obtain a v where av: "av = (a, v)" by fastforce
  obtain rc u1 w1 where l: "write_registers_locked pf u a [v] 1 WRITE_MODE_FC06 w = (rc, u1, w1)"
    by (metis prod.exhaust)
  have o: "on_line pf P p u1" using on_line_keeps [OF Cons.prems(1)] write_registers_locked_bus [OF l] by blast
  note s = write_registers_locked_held [OF Cons.prems(1) assms l]
  show ?case
  proof (cases "rc = 0")
    case True
    then have "sequence_loop pf ws u1 (unit_usleep pf 40000 w1) = (ok, u', w')" using Cons.prems(2) av l by simp
    from Cons.IH [OF o this] stays_trans [OF s] show ?thesis by simp
  qed (use Cons.prems(2) av l s in simp)
qed simp

lemma inverter_run_init_sequence_held:
  assumes "on_line pf P p u" and "inverter_run_init_sequence pf u w = (u', w')"
  shows "stays pf P p 0 w w'"
proof -
  have b: "inverter_bus_path u = Some p" using assms(1) on_line_rtu(2) by (simp add: inverter_bus_path_def)
  let ?w0 = "pool_write int_inverter_init_flag_reg 0 w"
  obtain ok u2 w2 where l: "sequence_loop pf
      [(dev_frequency_cmd_reg, 0), (dev_operation_cmd_reg, INVERTER_STOP_BIT OR INVERTER_ENABLE_ACCELERATION_BIT)]
      u (unit_acquire pf (Some p) ?w0) = (ok, u2, w2)" by (metis prod.exhaust)
  have "stays pf P p (Suc 0) (unit_acquire pf (Some p) ?w0) (unit_usleep pf 70000 w2)"
    using sequence_loop_held [OF _ assms(1) l, of "Suc 0"] by simp
  from stays_bracket [OF assms(1) _ this] assms(2) l b show ?thesis
    by (auto simp: inverter_run_init_sequence_def Let_def split: if_splits)
qed

lemma inverter_unit_connect_held:
  assumes "on_line pf P p u" and "inverter_unit_connect pf u w = (rc, u', w')"
  shows "stays pf P p 0 w w'"
proof -
  obtain r1 u1 w1 where o: "open_rtu pf u w = (r1, u1, w1)" by (metis prod.exhaust)
  have l: "on_line pf P p u1" using on_line_keeps [OF assms(1)] open_rtu_bus [OF o] by blast
  note s1 = open_rtu_held [OF o, of P p 0] and path = on_line_rtu(2) [OF l]
  let ?w2 = "unit_acquire pf (Some p) w1"
  obtain pr w3 where pb: "(if table_count (u_profile u1) > 0
      then probe_unit pf u1 (device_address (rows (u_profile u1) ! 0)) ?w2 else (0, ?w2)) = (pr, w3)" by fastforce
  have s3: "stays pf P p (Suc 0) ?w2 w3" using pb probe_unit_held [of "Suc 0"] by (auto split: if_splits)
  obtain u4 w4 where c: "close_rtu pf u1 (unit_release pf (Some p) w3) = (u4, w4)" by fastforce
  obtain u5 w5 where i: "init_inverter_reg pf u1 w3 = (u5, w5)" by fastforce
  have "stays pf P p (Suc 0) ?w2 (unit_usleep pf 70000 w5)"
    using stays_trans [OF s3 init_write_loop_held [OF _ l i [unfolded init_inverter_reg_def]]] by simp
  from stays_trans [OF s1 stays_bracket [OF l _ this]]
  have s5: "stays pf P p 0 w (unit_release pf (Some p) (unit_usleep pf 70000 w5))" by simp
  from stays_trans [OF s1 stays_bracket [OF l _ s3]] have "stays pf P p 0 w (unit_release pf (Some p) w3)" by simp
  from stays_trans [OF this close_rtu_held [OF c]] have s4: "stays pf P p 0 w w4" .
  have f: "\<not> cfg_format (u_cfg u) = MODBUS_FORMAT_TCP" using on_line_rtu(1) [OF assms(1)] by simp
  have "(u', w') = (if r1 \<noteq> 0 then (u1, w1) else if pr \<noteq> 0 then (u4, w4)
      else (u5, unit_release pf (Some p) (unit_usleep pf 70000 w5)))"
    using assms(2) o f pb c i path
    by (cases "r1 = 0"; cases "0 < table_count (u_profile u1)"; cases "pr = 0")
      (simp_all add: inverter_unit_connect_def inverter_bus_path_def Let_def)
  with s1 s4 s5 show ?thesis by (auto split: if_splits)
qed

lemma inverter_process_callback_held:
  assumes "on_line pf P p u" and "inverter_process_callback pf u w = Some (rc, u', w')"
  shows "stays pf P p 0 w w'"
proof -
  let ?u = "u\<lparr>init_requested := False\<rparr>"
  have l: "on_line pf P p ?u" using assms(1) by simp
  obtain u1 w1 where i: "(if init_requested u then inverter_run_init_sequence pf ?u w else (?u, w)) = (u1, w1)"
    by fastforce
  have s: "stays pf P p 0 w w1" using i inverter_run_init_sequence_held [OF l] by (auto split: if_splits)
  have k: "keeps ?u u1" using i inverter_run_init_sequence_bus [of pf ?u w u1 w1] by (auto simp: keeps_same split: if_splits)
  from assms(2) i have "drain_and_scan pf inverter_queue_merge_allowed u1 w1 = Some (rc, u', w')"
    by (auto simp: inverter_process_callback_def)
  from stays_trans [OF s drain_and_scan_held [OF on_line_keeps [OF l k] _ this]] show ?thesis by simp
qed

lemma inverter_callbacks_held: "holding_callbacks pf P p (inverter_callbacks pf)"
  unfolding holding_callbacks_def
proof (intro conjI allI impI)
  fix u w rc u' w'
  assume o: "on_line pf P p u"
  show "stays pf P p 0 w w'" if "cb_init (inverter_callbacks pf) u w = (rc, u', w')"
    using that init_callback_held inverter_unit_connect_held [OF o]
    by (metis inverter_callbacks_def inverter_init_callback_def unit_callbacks.select_convs(1))
  show "stays pf P p 0 w w'" if "cb_process (inverter_callbacks pf) u w = Some (rc, u', w')"
    using that inverter_process_callback_held [OF o] by (simp add: inverter_callbacks_def)
  show "stays pf P p 0 w w'" if "cb_error (inverter_callbacks pf) rc u w = Some (u', w')" for rc
    using that error_callback_held [OF o] by (simp add: inverter_callbacks_def inverter_error_callback_def)
qed

text \<open>An operation of thread \<open>t\<close> on the line of path \<open>p\<close>: the path is given back, and the
  coordinator's slot of the path was the thread's at every exchange.\<close>

definition bus_kept :: "nat \<Rightarrow> string \<Rightarrow> 'e unit_world \<Rightarrow> 'e unit_world \<Rightarrow> bool" where
  "bus_kept t p w w' \<longleftrightarrow> held t p (uw_bus w') = 0 \<and>
     (\<exists>l. uw_line w' = uw_line w @ l \<and>
        (\<forall>(c, s)\<in>set l. on_wire c \<longrightarrow> (\<exists>d>0. bus_holder s p = Some (t, d))))"

lemma held_positive: "0 < held t p s \<longleftrightarrow> (\<exists>d>0. bus_holder s p = Some (t, d))"
  by (auto simp: held_def split: option.splits)

lemma stays_bus_kept:
  assumes "stays pf P p 0 w w'" and "bus_inv P (uw_bus w)" and "held (pf_self pf) p (uw_bus w) = 0"
  shows "bus_kept (pf_self pf) p w w'"
  using assms by (simp add: stays_def at_depth_def line_held_def bus_kept_def held_positive)

text \<open>
  C5. An inverter's thread owns the line whenever it talks on it: whatever the devices answer
  and whatever the other threads do to the bus coordinator before each acquire, at every probe,
  read and write of each of the four callbacks and of the whole thread the coordinator's slot of
  the unit's path belongs to this thread, so by mutual exclusion to no other, and what returns
  has given the path back. Opening and closing the port are no exchanges. This holds for the RTU
  units on up to eight coordinated paths.
\<close>

theorem inverter_holds_bus:
  assumes "bus_keys_ok P" and "bus_waits pf P" and "p \<in> P" and "inverter_bus_path u = Some p"
    and "bus_inv P (uw_bus w)" and "held (pf_self pf) p (uw_bus w) = 0"
  shows "(\<forall>rc u' w'. inverter_init_callback pf u w = (rc, u', w') \<longrightarrow> bus_kept (pf_self pf) p w w') \<and>
    (\<forall>rc u' w'. inverter_process_callback pf u w = Some (rc, u', w') \<longrightarrow> bus_kept (pf_self pf) p w w') \<and>
    (\<forall>st u' w'. inverter_error_callback pf st u w = Some (u', w') \<longrightarrow> bus_kept (pf_self pf) p w w') \<and>
    (\<forall>a vs n rc u' w'. inverter_msg_callback pf a vs n u w = (rc, u', w') \<longrightarrow> bus_kept (pf_self pf) p w w') \<and>
    (\<forall>u' w'. inverter_thread pf u w = Some (u', w') \<longrightarrow> bus_kept (pf_self pf) p w w')"
proof -
  have o: "on_line pf P p u" using assms(1-4) by (simp add: on_line_def inverter_bus_path_def unit_path_def)
  have k: "bus_kept (pf_self pf) p w w'" if "stays pf P p 0 w w'" for w'
    using stays_bus_kept [OF that assms(5,6)] .
  note h = inverter_callbacks_held [of pf P p, unfolded holding_callbacks_def inverter_callbacks_def unit_callbacks.select_convs]
  show ?thesis
    using h o k unit_thread_held [OF _ inverter_callbacks_disciplined inverter_callbacks_held o, of w]
      msg_callback_held [OF o, of 0, folded inverter_msg_callback_def]
    unfolding inverter_thread_def by (intro conjI allI impI) (blast | simp)+
qed

section \<open>The UPS\<close>

lemma verified_write_held:
  assumes "on_line pf P p u" and "write_registers_to_device pf u a vs k m w = (r1, u1, w1)"
    and "read_device_value pf u1 b j w1 = (r2, out, u2, w2)"
  shows "stays pf P p 0 w w1" and "stays pf P p 0 w w2"
proof -
  show s: "stays pf P p 0 w w1" by (rule write_registers_to_device_held [OF assms(1) _ assms(2)]) simp
  have "on_line pf P p u1" using on_line_keeps [OF assms(1)] write_registers_to_device_bus [OF assms(2)] by blast
  from stays_trans [OF s read_device_value_held [OF this _ assms(3)]] show "stays pf P p 0 w w2" by simp
qed

lemma ups_commands_held:
  assumes "on_line pf P p u"
  shows "ups_restart_cmd pf u w = (rc, u', w') \<Longrightarrow> stays pf P p 0 w w'"
    and "ups_shutdown_cmd pf u w = (rc, u', w') \<Longrightarrow> stays pf P p 0 w w'"
  using verified_write_held [OF assms]
  by (auto simp: ups_restart_cmd_def ups_shutdown_cmd_def ups_shared_defs split: prod.splits if_splits)

lemma ups_run_reboot_sequence_held:
  assumes "on_line pf P p u" and "ups_run_reboot_sequence pf u w = (u', w')"
  shows "stays pf P p 0 w w'"
proof -
  obtain r1 u1 w1 where a: "ups_restart_cmd pf u w = (r1, u1, w1)" by (metis prod.exhaust)
  obtain r2 u2 w2 where b: "ups_shutdown_cmd pf u1 (unit_usleep pf 40000 w1) = (r2, u2, w2)" by (metis prod.exhaust)
  note s = ups_commands_held(1) [OF assms(1) a]
  have "on_line pf P p u1" using on_line_keeps [OF assms(1)] ups_restart_cmd_bus [OF a] by blast
  from ups_commands_held(2) [OF this b] s assms(2) a b show ?thesis
    by (auto simp: ups_run_reboot_sequence_def intro: stays_trans split: if_splits)
qed

lemma ups_run_init_sequence_held:
  assumes "on_line pf P p u" and "ups_run_init_sequence pf u w = (u', w')"
  shows "stays pf P p 0 w w'"
proof -
  obtain rc u1 w1 where r: "read_profile_to_pool pf False u (pool_write int_ups_init_flag_reg 0 w) = (rc, u1, w1)"
    by (metis prod.exhaust)
  from read_profile_to_pool_held [OF assms(1) _ r, of 0] assms(2) r show ?thesis
    by (auto simp: ups_run_init_sequence_def ups_shared_defs split: if_splits)
qed

lemma ups_unit_connect_held:
  assumes "on_line pf P p u" and "ups_unit_connect pf u w = (rc, u', w')"
  shows "stays pf P p 0 w w'"
proof -
  obtain r1 u1 w1 where o: "open_rtu pf u w = (r1, u1, w1)" by (metis prod.exhaust)
  have l: "on_line pf P p u1" using on_line_keeps [OF assms(1)] open_rtu_bus [OF o] by blast
  note s1 = open_rtu_held [OF o, of P p 0]
  obtain pr w2 where pb: "probe_unit pf u1 (device_address (rows (u_profile u1) ! 0)) (unit_acquire pf (Some p) w1) = (pr, w2)"
    by fastforce
  from stays_trans [OF s1 stays_bracket [OF l _ probe_unit_held [OF _ pb]]]
  have s3: "stays pf P p 0 w (unit_release pf (Some p) w2)" by simp
  obtain u4 w4 where c: "close_rtu pf u1 (unit_release pf (Some p) w2) = (u4, w4)" by fastforce
  note s4 = stays_trans [OF s3 close_rtu_held [OF c]]
  have f: "\<not> cfg_format (u_cfg u) = MODBUS_FORMAT_TCP" using on_line_rtu(1) [OF assms(1)] by simp
  show ?thesis
    using assms(2) o f pb c s1 s3 s4 on_line_rtu(2) [OF l]
    by (auto simp: ups_unit_connect_def ups_bus_path_def Let_def split: if_splits)
qed

lemma ups_process_callback_held:
  assumes "on_line pf P p u" and "ups_process_callback pf u w = Some (rc, u', w')"
  shows "stays pf P p 0 w w'"
proof -
  let ?u = "u\<lparr>init_requested := False\<rparr>"
  have l: "on_line pf P p ?u" using assms(1) by simp
  obtain u1 w1 where i: "(if init_requested u then ups_run_init_sequence pf ?u w else (?u, w)) = (u1, w1)"
    by fastforce
  let ?u1 = "u1\<lparr>reboot_requested := False\<rparr>"
  obtain u2 w2 where r: "(if reboot_requested u1 then ups_run_reboot_sequence pf ?u1 w1 else (?u1, w1)) = (u2, w2)"
    by fastforce
  have s1: "stays pf P p 0 w w1" "keeps ?u u1"
    using i ups_run_init_sequence_held [OF l] ups_run_init_sequence_bus [of pf ?u w u1 w1] by (auto split: if_splits)
  then have l1: "on_line pf P p ?u1" using on_line_keeps [OF l] by simp
  have s2: "stays pf P p 0 w1 w2" "keeps ?u1 u2"
    using r ups_run_reboot_sequence_held [OF l1] ups_run_reboot_sequence_bus [of pf ?u1 w1 u2 w2] by (auto split: if_splits)
  from assms(2) i r have "drain_and_scan pf ups_queue_merge_allowed u2 w2 = Some (rc, u', w')"
    by (auto simp: ups_process_callback_def)
  from stays_trans [OF stays_trans [OF s1(1) s2(1)] drain_and_scan_held [OF on_line_keeps [OF l1 s2(2)] _ this]]
  show ?thesis by simp
qed

lemma ups_callbacks_held: "holding_callbacks pf P p (ups_callbacks pf)"
  unfolding holding_callbacks_def
proof (intro conjI allI impI)
  fix u w rc u' w'
  assume o: "on_line pf P p u"
  show "stays pf P p 0 w w'" if "cb_init (ups_callbacks pf) u w = (rc, u', w')"
    using that init_callback_held ups_unit_connect_held [OF o]
    by (metis ups_callbacks_def ups_init_callback_def unit_callbacks.select_convs(1))
  show "stays pf P p 0 w w'" if "cb_process (ups_callbacks pf) u w = Some (rc, u', w')"
    using that ups_process_callback_held [OF o] by (simp add: ups_callbacks_def)
  show "stays pf P p 0 w w'" if "cb_error (ups_callbacks pf) rc u w = Some (u', w')" for rc
    using that error_callback_held [OF o] by (simp add: ups_callbacks_def ups_error_callback_def)
qed

text \<open>The thread of a UPS unit owns the line at its exchanges as the inverter's does.\<close>

theorem ups_holds_bus:
  assumes "bus_keys_ok P" and "bus_waits pf P" and "p \<in> P" and "ups_bus_path u = Some p"
    and "bus_inv P (uw_bus w)" and "held (pf_self pf) p (uw_bus w) = 0"
  shows "(\<forall>rc u' w'. ups_init_callback pf u w = (rc, u', w') \<longrightarrow> bus_kept (pf_self pf) p w w') \<and>
    (\<forall>rc u' w'. ups_process_callback pf u w = Some (rc, u', w') \<longrightarrow> bus_kept (pf_self pf) p w w') \<and>
    (\<forall>st u' w'. ups_error_callback pf st u w = Some (u', w') \<longrightarrow> bus_kept (pf_self pf) p w w') \<and>
    (\<forall>a vs n rc u' w'. ups_msg_callback pf a vs n u w = (rc, u', w') \<longrightarrow> bus_kept (pf_self pf) p w w') \<and>
    (\<forall>u' w'. ups_thread pf u w = Some (u', w') \<longrightarrow> bus_kept (pf_self pf) p w w')"
proof -
  have o: "on_line pf P p u" using assms(1-4) by (simp add: on_line_def ups_bus_path_def unit_path_def)
  have k: "bus_kept (pf_self pf) p w w'" if "stays pf P p 0 w w'" for w'
    using stays_bus_kept [OF that assms(5,6)] .
  note h = ups_callbacks_held [of pf P p, unfolded holding_callbacks_def ups_callbacks_def unit_callbacks.select_convs]
  show ?thesis
    using h o k unit_thread_held [OF _ ups_callbacks_disciplined ups_callbacks_held o, of w]
      msg_callback_held [OF o, of 0, folded ups_msg_callback_def]
    unfolding ups_thread_def by (intro conjI allI impI) (blast | simp)+
qed

section \<open>A contended line\<close>

text \<open>Another thread holds the line and gives it up before the acquire proceeds.\<close>

definition others_let_go :: "bus_slots \<Rightarrow> bus_slots" where
  "others_let_go s = map (\<lambda>sl. if owner sl = 1 then sl else sl\<lparr>depth := 0\<rparr>) s"

definition contended_pf :: "(u8 list \<times> int) platform" where
  "contended_pf = (demo_pf id id [] False)\<lparr>pf_bus_wait := \<lambda>p s e. (others_let_go s, e)\<rparr>"

definition contended_world :: "(u8 list \<times> int) unit_world" where
  "contended_world = demo_world\<lparr>uw_bus := the (bus_coord_acquire 2 (Some ''/dev/ttyS1'') bus_coord_init)\<rparr>"

lemma others_let_go_nth:
  assumes "length s = 8" and "i < 8"
  shows "allocated (others_let_go s ! i) = allocated (s ! i)" "bus_path (others_let_go s ! i) = bus_path (s ! i)"
    "owner (others_let_go s ! i) = owner (s ! i)"
    "depth (others_let_go s ! i) = (if owner (s ! i) = 1 then depth (s ! i) else 0)"
  using assms by (simp_all add: others_let_go_def)

lemma find_cong_bounded: "(\<And>i. i < n \<Longrightarrow> P i = Q i) \<Longrightarrow> List.find P [0..<n] = List.find Q [0..<n]"
  by (rule find_cong) simp_all

lemma contended_waits: "bus_waits contended_pf P"
  unfolding bus_waits_def
proof (intro ballI allI impI)
  fix p s and e :: "u8 list \<times> int"
  assume i: "bus_inv P s"
  then have l: "length s = 8" "length (others_let_go s) = 8" by (simp_all add: bus_inv_def others_let_go_def)
  note n = others_let_go_nth [OF l(1)]
  have inv: "bus_inv P (others_let_go s)" using i l unfolding bus_inv_def by (simp add: n)
  have f: "find_slot_locked q (others_let_go s) = find_slot_locked q s" for q
    unfolding find_slot_locked_def by (rule find_cong_bounded) (simp add: n)
  have h: "held 1 q (others_let_go s) = held 1 q s" for q
    by (auto simp: held_def bus_holder_def f n dest!: find_slot_Some split: option.split)
  have "take_slot 1 k (others_let_go s) \<noteq> None" if "k < 8" for k
    using that by (simp add: take_slot_def n Let_def)
  moreover have "take_slot 1 k t \<noteq> None" if "alloc_slot_locked p (others_let_go s) = Some (k, t)" for k t
    using that l(2) by (auto simp: alloc_slot_locked_def take_slot_def Let_def dest!: find_SomeD split: option.splits)
  ultimately have "bus_coord_acquire 1 (Some p) (others_let_go s) \<noteq> None"
    by (auto simp: bus_coord_acquire_def Let_def dest: find_slot_Some split: option.splits)
  with inv h show "case pf_bus_wait contended_pf (Some p) s e of
      (s', e') \<Rightarrow> bus_inv P s' \<and> (\<forall>q\<in>P. held (pf_self contended_pf) q s' = held (pf_self contended_pf) q s) \<and>
        bus_coord_acquire (pf_self contended_pf) (Some p) s' \<noteq> None"
    by (simp add: contended_pf_def)
qed

theorem inverter_holds_bus_witness:
  "bus_coord_acquire 1 (Some ''/dev/ttyS1'') (uw_bus contended_world) = None \<and>
   (\<exists>rc u' w' s d. inverter_msg_callback contended_pf 0x2001 (Some [7]) 1 (rtu_unit_open inverter1_profile) contended_world = (rc, u', w') \<and>
     uw_line w' = [(Call_write 0x2001 7, s)] \<and> 0 < d \<and> bus_holder s ''/dev/ttyS1'' = Some (1, d) \<and>
     held 1 ''/dev/ttyS1'' (uw_bus w') = 0)"
proof -
  let ?p = "''/dev/ttyS1''" and ?u = "rtu_unit_open inverter1_profile"
  have p: "?p \<in> two_paths" by (simp add: two_paths_def)
  then have k: "?p \<in> bus_keys two_paths" using two_paths_ok by (simp add: bus_keys_def)
  obtain s where s: "bus_coord_acquire 2 (Some ?p) bus_coord_init = Some s" "bus_inv two_paths s"
    "bus_holder s = (bus_holder bus_coord_init)(?p \<mapsto> (2, 1))"
    using bus.acq_free [OF bus_inv_init k bus_holder_init, of 2] by blast
  then have w: "uw_bus contended_world = s" "uw_line contended_world = []" by (simp_all add: contended_world_def demo_world_def)
  have h: "held 1 ?p s = 0" by (simp add: held_def s(3))
  have n: "bus_coord_acquire 1 (Some ?p) s = None" using bus.acq_other [OF s(2) k, of 2 1 1] by (simp add: s(3))
  have f: "pf_self contended_pf = 1" "inverter_bus_path ?u = Some ?p"
    by (simp_all add: contended_pf_def inverter_bus_path_def rtu_unit_open_path)
  obtain rc u' w' where r: "inverter_msg_callback contended_pf 0x2001 (Some [7]) 1 ?u contended_world = (rc, u', w')"
    by (metis prod.exhaust)
  have "bus_kept 1 ?p contended_world w'"
    using inverter_holds_bus [OF two_paths_ok contended_waits p f(2), of contended_world] r s(2) h by (simp add: f(1) w(1))
  moreover have "\<exists>t. uw_line w' = [(Call_write 0x2001 7, t)]"
    using r w(2) by (auto simp: inverter_msg_callback_def msg_callback_def write_registers_to_device_def
        write_registers_locked_def write_single_def rtu_done_def Let_def rtu_unit_open_def fresh_unit_def rtu_module_def
        split: prod.splits if_splits)
  ultimately show ?thesis using r n unfolding w(1) by (auto simp: bus_kept_def w(2) on_wire_def)
qed

end
