(* ===== verification/Alarm_Engine.thy ===== *)
theory Alarm_Engine
  imports Gateway_Base
begin

text \<open>
  \<^verbatim>\<open>lib/alarm/alarm_engine.{h,c}\<close>: one scan of an alarm table. The callbacks \<^verbatim>\<open>read_fn\<close>
  and \<^verbatim>\<open>event_fn\<close> act on an environment of any type \<open>'e\<close> (the pool, the alarm
  databases); their \<^verbatim>\<open>userdata\<close> arguments are constants of a context and are part of the
  functions. A NULL pointer in the context is \<^const>\<open>None\<close>. The enumeration of conditions
  has no other members, so the \<^verbatim>\<open>default\<close> branch of the switch is not a branch here.
\<close>

section \<open>Data\<close>

datatype alarm_cond = ALARM_COND_BITMASK | ALARM_COND_RANGE | ALARM_COND_CHANGE

datatype alarm_event = ALARM_EVENT_TRIGGER | ALARM_EVENT_CLEAR

record alarm_entry =
  alarm_device_address :: u16
  alarm_condition :: alarm_cond
  lo_limit :: u16
  hi_limit :: u16
  error_code :: u16
  alarm_description :: string

record alarm_state =
  is_active :: bool
  prev_value :: u16

record 'e alarm_engine_ctx =
  alarm_table :: "alarm_entry list option"
  alarm_states :: "alarm_state list option"
  alarm_count :: nat
  read_fn :: "(u16 \<Rightarrow> 'e \<Rightarrow> u16 option \<times> 'e) option"
  event_fn :: "(alarm_entry \<Rightarrow> u16 \<Rightarrow> alarm_event \<Rightarrow> 'e \<Rightarrow> 'e) option"

section \<open>Conditions\<close>

definition eval_bitmask :: "alarm_entry \<Rightarrow> u16 \<Rightarrow> bool" where
  "eval_bitmask en v = ((v AND hi_limit en) = hi_limit en)"

definition eval_range :: "alarm_entry \<Rightarrow> u16 \<Rightarrow> bool" where
  "eval_range en v = (v < lo_limit en \<or> v > hi_limit en)"

definition eval_change :: "alarm_state \<Rightarrow> u16 \<Rightarrow> bool" where
  "eval_change st v = (v \<noteq> prev_value st)"

definition apply_sticky ::
  "(alarm_entry \<Rightarrow> u16 \<Rightarrow> alarm_event \<Rightarrow> 'e \<Rightarrow> 'e) \<Rightarrow> alarm_entry \<Rightarrow> alarm_state \<Rightarrow> u16 \<Rightarrow> bool \<Rightarrow>
   'e \<Rightarrow> alarm_state \<times> 'e" where
  "apply_sticky ev en st v triggered e =
     (if triggered \<and> \<not> is_active st
      then (st\<lparr>is_active := True\<rparr>, ev en v ALARM_EVENT_TRIGGER e)
      else if \<not> triggered \<and> is_active st
      then (st\<lparr>is_active := False\<rparr>, ev en v ALARM_EVENT_CLEAR e)
      else (st, e))"

section \<open>The scan\<close>

text \<open>The body of the loop of \<^verbatim>\<open>alarm_engine_run\<close> for one entry and its state.\<close>

definition alarm_entry_step ::
  "(u16 \<Rightarrow> 'e \<Rightarrow> u16 option \<times> 'e) \<Rightarrow> (alarm_entry \<Rightarrow> u16 \<Rightarrow> alarm_event \<Rightarrow> 'e \<Rightarrow> 'e) \<Rightarrow>
   alarm_entry \<Rightarrow> alarm_state \<Rightarrow> 'e \<Rightarrow> alarm_state \<times> 'e" where
  "alarm_entry_step rd ev en st e =
     (case rd (alarm_device_address en) e of
        (None, e1) \<Rightarrow> (st, e1)
      | (Some v, e1) \<Rightarrow>
          (case alarm_condition en of
             ALARM_COND_BITMASK \<Rightarrow> apply_sticky ev en st v (eval_bitmask en v) e1
           | ALARM_COND_RANGE \<Rightarrow> apply_sticky ev en st v (eval_range en v) e1
           | ALARM_COND_CHANGE \<Rightarrow>
               (st\<lparr>prev_value := v\<rparr>,
                if eval_change st v then ev en v ALARM_EVENT_TRIGGER e1 else e1)))"

fun alarm_loop ::
  "(u16 \<Rightarrow> 'e \<Rightarrow> u16 option \<times> 'e) \<Rightarrow> (alarm_entry \<Rightarrow> u16 \<Rightarrow> alarm_event \<Rightarrow> 'e \<Rightarrow> 'e) \<Rightarrow>
   alarm_entry list \<Rightarrow> alarm_state list \<Rightarrow> 'e \<Rightarrow> alarm_state list \<times> 'e" where
  "alarm_loop rd ev (en # ens) (st # sts) e =
     (let (st', e1) = alarm_entry_step rd ev en st e;
          (sts', e2) = alarm_loop rd ev ens sts e1
      in (st' # sts', e2))"
| "alarm_loop rd ev [] sts e = (sts, e)"
| "alarm_loop rd ev (en # ens) [] e = ([], e)"

definition alarm_engine_run :: "'e alarm_engine_ctx \<Rightarrow> 'e \<Rightarrow> 'e alarm_engine_ctx \<times> 'e" where
  "alarm_engine_run ctx e =
     (case (alarm_table ctx, alarm_states ctx, read_fn ctx, event_fn ctx) of
        (Some t, Some sts, Some rd, Some ev) \<Rightarrow>
          if alarm_count ctx = 0 then (ctx, e)
          else
            let (sts', e') = alarm_loop rd ev (take (alarm_count ctx) t) sts e
            in (ctx\<lparr>alarm_states := Some sts'\<rparr>, e')
      | _ \<Rightarrow> (ctx, e))"

section \<open>Lemmas\<close>

lemma alarm_engine_run_null:
  "alarm_table ctx = None \<or> alarm_states ctx = None \<or> read_fn ctx = None \<or> event_fn ctx = None \<Longrightarrow>
   alarm_engine_run ctx e = (ctx, e)"
  by (auto simp: alarm_engine_run_def split: option.splits)

lemma alarm_loop_length: "length (fst (alarm_loop rd ev ens sts e)) = length sts"
  by (induction rd ev ens sts e rule: alarm_loop.induct) (auto simp: Let_def split: prod.splits)

lemma alarm_engine_run_frame:
  "alarm_table (fst (alarm_engine_run ctx e)) = alarm_table ctx \<and>
   alarm_count (fst (alarm_engine_run ctx e)) = alarm_count ctx \<and>
   read_fn (fst (alarm_engine_run ctx e)) = read_fn ctx \<and>
   event_fn (fst (alarm_engine_run ctx e)) = event_fn ctx"
  by (auto simp: alarm_engine_run_def Let_def split: option.splits prod.splits)

section \<open>What one entry reports over a sequence of scans\<close>

text \<open>The scans of the specification: each has its own reading of the registers, and the
  environment is the log of events.\<close>

type_synonym reading = "u16 \<Rightarrow> u16 option"
type_synonym event_log = "(alarm_entry \<times> u16 \<times> alarm_event) list"

definition log_ctx :: "alarm_entry list \<Rightarrow> alarm_state list \<Rightarrow> (reading \<times> event_log) alarm_engine_ctx" where
  "log_ctx t sts = \<lparr>alarm_table = Some t, alarm_states = Some sts, alarm_count = length t,
     read_fn = Some (\<lambda>a (r, l). (r a, (r, l))),
     event_fn = Some (\<lambda>en v ev (r, l). (r, l @ [(en, v, ev)]))\<rparr>"

fun alarm_scans :: "alarm_entry list \<Rightarrow> alarm_state list \<Rightarrow> reading list \<Rightarrow> event_log" where
  "alarm_scans t sts [] = []"
| "alarm_scans t sts (r # rs) =
     (let (ctx, (_, l)) = alarm_engine_run (log_ctx t sts) (r, [])
      in l @ alarm_scans t (the (alarm_states ctx)) rs)"

text \<open>The abstract contract. A sticky entry reports the edges of its condition over the
  values it could read; a CHANGE entry reports every value that differs from the one before.\<close>

fun edges :: "(u16 \<Rightarrow> bool) \<Rightarrow> bool \<Rightarrow> u16 list \<Rightarrow> (u16 \<times> alarm_event) list" where
  "edges c b [] = []"
| "edges c b (v # vs) =
     (if c v = b then [] else [(v, if c v then ALARM_EVENT_TRIGGER else ALARM_EVENT_CLEAR)]) @
     edges c (c v) vs"

fun changes :: "u16 \<Rightarrow> u16 list \<Rightarrow> (u16 \<times> alarm_event) list" where
  "changes p [] = []"
| "changes p (v # vs) = (if v = p then [] else [(v, ALARM_EVENT_TRIGGER)]) @ changes v vs"

definition entry_spec :: "alarm_entry \<Rightarrow> alarm_state \<Rightarrow> u16 list \<Rightarrow> (u16 \<times> alarm_event) list" where
  "entry_spec en st vs =
     (case alarm_condition en of
        ALARM_COND_BITMASK \<Rightarrow> edges (eval_bitmask en) (is_active st) vs
      | ALARM_COND_RANGE \<Rightarrow> edges (eval_range en) (is_active st) vs
      | ALARM_COND_CHANGE \<Rightarrow> changes (prev_value st) vs)"

text \<open>One entry, one reading: the new state and the events, without an environment.\<close>

definition entry_eval :: "alarm_entry \<Rightarrow> alarm_state \<Rightarrow> u16 option \<Rightarrow>
    alarm_state \<times> (u16 \<times> alarm_event) list" where
  "entry_eval en st vo =
     (let (st', (_, l)) = alarm_entry_step (\<lambda>_ e. (vo, e)) (\<lambda>en v ev (r, l). (r, l @ [(v, ev)])) en st
            ((), [])
      in (st', l))"

lemma alarm_entry_step_log:
  "alarm_entry_step (\<lambda>a (r, l). (r a, (r, l))) (\<lambda>en v ev (r, l). (r, l @ [(en, v, ev)])) en st (r, l) =
     (let (st', evs) = entry_eval en st (r (alarm_device_address en))
      in (st', (r, l @ map (Pair en) evs)))"
  by (cases "r (alarm_device_address en)"; cases "alarm_condition en")
    (auto simp: alarm_entry_step_def entry_eval_def apply_sticky_def)

lemma entry_spec_step:
  "entry_spec en st (v # vs) =
     snd (entry_eval en st (Some v)) @ entry_spec en (fst (entry_eval en st (Some v))) vs"
  by (cases "alarm_condition en")
    (auto simp: entry_spec_def entry_eval_def alarm_entry_step_def apply_sticky_def eval_change_def)

lemma entry_eval_None: "entry_eval en st None = (st, [])"
  by (simp add: entry_eval_def alarm_entry_step_def)

lemma alarm_loop_log:
  "length sts = length ens \<Longrightarrow>
   alarm_loop (\<lambda>a (r, l). (r a, (r, l))) (\<lambda>en v ev (r, l). (r, l @ [(en, v, ev)])) ens sts (r, l) =
     (map2 (\<lambda>en st. fst (entry_eval en st (r (alarm_device_address en)))) ens sts,
      (r, l @ concat (map2 (\<lambda>en st. map (Pair en)
            (snd (entry_eval en st (r (alarm_device_address en))))) ens sts)))"
  by (induction sts ens arbitrary: l rule: list_induct2)
    (auto simp: alarm_entry_step_log Let_def split: prod.splits)

lemma alarm_run_log:
  assumes "length sts = length t"
  shows "alarm_scans t sts (r # rs) =
     concat (map2 (\<lambda>en st. map (Pair en) (snd (entry_eval en st (r (alarm_device_address en))))) t sts) @
     alarm_scans t (map2 (\<lambda>en st. fst (entry_eval en st (r (alarm_device_address en)))) t sts) rs"
proof (cases "t = []")
  case True
  with assms show ?thesis by (simp add: alarm_engine_run_def log_ctx_def)
next
  case False
  with assms show ?thesis
    by (simp add: alarm_engine_run_def log_ctx_def alarm_loop_log Let_def)
qed

text \<open>In a table without duplicate rows the events of row \<open>i\<close> in one scan are its own.\<close>

lemma filter_pairs:
  "filter (\<lambda>x. fst x = y) (map (Pair z) xs) = (if z = y then map (Pair z) xs else [])"
  by (induction xs) auto

lemma filter_scan_entry:
  assumes "distinct t" and "length sts = length t" and "i < length t"
  shows "filter (\<lambda>x. fst x = t ! i) (concat (map2 (\<lambda>en st. map (Pair en) (g en st)) t sts)) =
    map (Pair (t ! i)) (g (t ! i) (sts ! i))"
  using assms(2,1,3)
proof (induction sts t arbitrary: i rule: list_induct2)
  case Nil
  then show ?case by simp
next
  case (Cons st sts en ens)
  have none: "filter (\<lambda>x. fst x = en) (concat (map2 (\<lambda>en st. map (Pair en) (g en st)) ens sts)) = []"
    using Cons.prems by (auto simp: filter_empty_conv dest: set_zip_leftD)
  show ?case
  proof (cases i)
    case 0
    with none show ?thesis by (simp add: filter_pairs)
  next
    case (Suc j)
    with Cons show ?thesis by (auto simp: filter_pairs)
  qed
qed

lemma alarm_entry_events_aux:
  assumes "distinct t" and "length sts = length t" and "i < length t"
  shows "filter (\<lambda>x. fst x = t ! i) (alarm_scans t sts rs) =
    map (Pair (t ! i))
      (entry_spec (t ! i) (sts ! i) (List.map_filter (\<lambda>r. r (alarm_device_address (t ! i))) rs))"
  using assms
proof (induction rs arbitrary: sts)
  case Nil
  then show ?case
    by (simp add: List.map_filter_def entry_spec_def split: alarm_cond.split)
next
  case (Cons r rs)
  let ?sts = "map2 (\<lambda>en st. fst (entry_eval en st (r (alarm_device_address en)))) t sts"
  let ?v = "r (alarm_device_address (t ! i))"
  have "?sts ! i = fst (entry_eval (t ! i) (sts ! i) ?v)"
    using Cons.prems by simp
  moreover have "length ?sts = length t" using Cons.prems by simp
  ultimately show ?case
    using Cons.IH [of ?sts] Cons.prems
      filter_scan_entry [of t sts i "\<lambda>en st. snd (entry_eval en st (r (alarm_device_address en)))"]
    by (cases ?v) (simp_all del: alarm_scans.simps
        add: alarm_run_log List.map_filter_def entry_eval_None entry_spec_step)
qed

text \<open>
  C32. Over any sequence of scans, the events an entry emits are exactly those its own
  readable values call for: a BITMASK or RANGE entry emits one TRIGGER at each rising edge
  of its condition and one CLEAR at each falling edge, a CHANGE entry one TRIGGER at each
  change; scans where the register is unavailable and all other entries have no influence.
\<close>

theorem alarm_engine_entry_events:
  assumes "distinct t" and "length sts = length t" and "i < length t"
  shows "filter (\<lambda>x. fst x = t ! i) (alarm_scans t sts rs) =
    map (Pair (t ! i))
      (entry_spec (t ! i) (sts ! i) (List.map_filter (\<lambda>r. r (alarm_device_address (t ! i))) rs))"
  using assms by (rule alarm_entry_events_aux)

text \<open>The edges alternate, starting with TRIGGER for an inactive entry.\<close>

fun alternating :: "bool \<Rightarrow> alarm_event list \<Rightarrow> bool" where
  "alternating b [] = True"
| "alternating b (e # es) =
     (e = (if b then ALARM_EVENT_CLEAR else ALARM_EVENT_TRIGGER) \<and> alternating (\<not> b) es)"

lemma edges_alternating: "alternating b (map snd (edges c b vs))"
proof (induction vs arbitrary: b)
  case (Cons v vs)
  then show ?case by (cases "c v"; cases b) (use Cons.IH in \<open>force+\<close>)
qed simp

lemma edges_values: "(v, e) \<in> set (edges c b vs) \<Longrightarrow> c v = (e = ALARM_EVENT_TRIGGER)"
  by (induction vs arbitrary: b) (auto split: if_splits)

text \<open>
  The events of a BITMASK or RANGE entry alternate: from the inactive state the first is
  TRIGGER, and no two TRIGGERs come without a CLEAR between them.
\<close>

theorem alarm_sticky_alternates:
  assumes "distinct t" and "length sts = length t" and "i < length t"
    and "alarm_condition (t ! i) \<noteq> ALARM_COND_CHANGE"
  shows "alternating (is_active (sts ! i))
    (map (snd \<circ> snd) (filter (\<lambda>x. fst x = t ! i) (alarm_scans t sts rs)))"
proof -
  have "alternating (is_active st) (map snd (entry_spec en st vs))"
    if "alarm_condition en \<noteq> ALARM_COND_CHANGE" for en st vs
    using that by (auto simp: entry_spec_def edges_alternating split: alarm_cond.split)
  with assms show ?thesis
    by (simp add: alarm_entry_events_aux comp_def)
qed

text \<open>A table with a bit mask and a range entry over four scans.\<close>

definition sample_entry :: "u16 \<Rightarrow> alarm_cond \<Rightarrow> u16 \<Rightarrow> u16 \<Rightarrow> alarm_entry" where
  "sample_entry a c lo hi = \<lparr>alarm_device_address = a, alarm_condition = c, lo_limit = lo,
     hi_limit = hi, error_code = 1, alarm_description = ''sample''\<rparr>"

definition sample_table :: "alarm_entry list" where
  "sample_table = [sample_entry 0 ALARM_COND_BITMASK 0 4, sample_entry 1 ALARM_COND_RANGE 10 20]"

definition sample_states :: "alarm_state list" where
  "sample_states = replicate 2 \<lparr>is_active = False, prev_value = 0\<rparr>"

definition sample_readings :: "reading list" where
  "sample_readings = [\<lambda>a. Some 15, \<lambda>a. if a = 0 then None else Some 21, \<lambda>a. Some 3, \<lambda>a. Some 12]"

lemma sample_ok: "distinct sample_table \<and> length sample_states = length sample_table"
  by (simp add: sample_table_def sample_states_def sample_entry_def)

theorem alarm_engine_entry_events_witness:
  "filter (\<lambda>x. fst x = sample_table ! 1) (alarm_scans sample_table sample_states sample_readings) =
   map (Pair (sample_table ! 1))
     [(21, ALARM_EVENT_TRIGGER), (12, ALARM_EVENT_CLEAR)]"
  using alarm_engine_entry_events [of sample_table sample_states 1 sample_readings] sample_ok
  by (simp add: sample_table_def sample_states_def sample_entry_def sample_readings_def
      entry_spec_def eval_range_def List.map_filter_def)

theorem alarm_sticky_alternates_witness:
  "alternating False (map (snd \<circ> snd)
     (filter (\<lambda>x. fst x = sample_table ! 0) (alarm_scans sample_table sample_states sample_readings))) \<and>
   sample_table ! 0 \<noteq> sample_table ! 1"
  using alarm_sticky_alternates [of sample_table sample_states 0 sample_readings] sample_ok
  by (simp add: sample_table_def sample_states_def sample_entry_def)

end
