(* ===== verification/Alarm_Bridge.thy ===== *)
theory Alarm_Bridge
  imports Alarm_Engine
begin

text \<open>
  \<^verbatim>\<open>lib/alarm/alarm_bridge.{h,c}\<close>: the monitor thread that runs the engine for every
  registered context. \<^verbatim>\<open>g_ctxs[0 .. g_ctx_count)\<close> is a list of the contexts; each registered
  pointer refers to its own static context, filled once, so the list holds the contexts
  themselves. The clock is the 64-bit millisecond value of \<^verbatim>\<open>get_monotonic_ms\<close>.
\<close>

type_synonym u64 = "64 word"

abbreviation ALARM_BRIDGE_POLL_MS :: nat where "ALARM_BRIDGE_POLL_MS \<equiv> 100"
abbreviation ALARM_BRIDGE_STARTUP_DELAY_MS :: u64 where "ALARM_BRIDGE_STARTUP_DELAY_MS \<equiv> 5000"
abbreviation ALARM_BRIDGE_MAX_CTXS :: nat where "ALARM_BRIDGE_MAX_CTXS \<equiv> 16"

record 'e alarm_bridge =
  g_ctxs :: "'e alarm_engine_ctx list"
  g_running :: bool
  g_last_beat_ms :: u64

definition alarm_bridge_initial :: "'e alarm_bridge" where
  "alarm_bridge_initial = \<lparr>g_ctxs = [], g_running = False, g_last_beat_ms = 0\<rparr>"

definition get_monotonic_ms :: "u64 \<Rightarrow> u64 \<Rightarrow> u64" where
  "get_monotonic_ms tv_sec tv_nsec = tv_sec * 1000 + tv_nsec div 1000000"

section \<open>Registration and lifecycle\<close>

definition alarm_bridge_register_ctx ::
  "'e alarm_engine_ctx option \<Rightarrow> 'e alarm_bridge \<Rightarrow> int \<times> 'e alarm_bridge" where
  "alarm_bridge_register_ctx ctx br =
     (if g_running br then (-1, br)
      else case ctx of
             None \<Rightarrow> (-1, br)
           | Some c \<Rightarrow>
               if length (g_ctxs br) \<ge> ALARM_BRIDGE_MAX_CTXS then (-1, br)
               else (0, br\<lparr>g_ctxs := g_ctxs br @ [c]\<rparr>))"

definition alarm_bridge_start :: "u64 \<Rightarrow> bool \<Rightarrow> 'e alarm_bridge \<Rightarrow> int \<times> 'e alarm_bridge" where
  "alarm_bridge_start now create_ok br =
     (let br1 = br\<lparr>g_last_beat_ms := now, g_running := True\<rparr>
      in if \<not> create_ok then (-1, br1\<lparr>g_running := False\<rparr>) else (0, br1))"

definition alarm_bridge_stop :: "'e alarm_bridge \<Rightarrow> 'e alarm_bridge" where
  "alarm_bridge_stop br = (if \<not> g_running br then br else br\<lparr>g_running := False\<rparr>)"

definition alarm_bridge_last_beat_ms :: "'e alarm_bridge \<Rightarrow> u64" where
  "alarm_bridge_last_beat_ms br = g_last_beat_ms br"

section \<open>The monitor thread\<close>

text \<open>The evaluation pass over every context, in registration order.\<close>

fun run_all_ctxs :: "'e alarm_engine_ctx list \<Rightarrow> 'e \<Rightarrow> 'e alarm_engine_ctx list \<times> 'e" where
  "run_all_ctxs [] e = ([], e)"
| "run_all_ctxs (c # cs) e =
     (let (c', e1) = alarm_engine_run c e; (cs', e2) = run_all_ctxs cs e1 in (c' # cs', e2))"

text \<open>One turn of the loop of \<^verbatim>\<open>alarm_monitor_thread\<close>; the thread's locals are
  \<^verbatim>\<open>start_ms\<close> and \<^verbatim>\<open>warming\<close>.\<close>

definition monitor_iteration ::
  "u64 \<Rightarrow> u64 \<Rightarrow> bool \<Rightarrow> 'e alarm_bridge \<Rightarrow> 'e \<Rightarrow> bool \<times> 'e alarm_bridge \<times> 'e" where
  "monitor_iteration start_ms now_ms warming br e =
     (let br1 = br\<lparr>g_last_beat_ms := now_ms\<rparr>
      in if warming \<and> now_ms - start_ms < ALARM_BRIDGE_STARTUP_DELAY_MS
         then (True, br1, e)
         else
           let (cs', e') = run_all_ctxs (g_ctxs br1) e
           in (False, br1\<lparr>g_ctxs := cs'\<rparr>, e'))"

text \<open>
  The loop. Each turn of the schedule gives the value of \<^verbatim>\<open>g_running\<close> the thread reads, the
  clock, and what other threads did to the environment while it slept.
\<close>

fun alarm_monitor_thread ::
  "u64 \<Rightarrow> (bool \<times> u64 \<times> ('e \<Rightarrow> 'e)) list \<Rightarrow> bool \<Rightarrow> 'e alarm_bridge \<Rightarrow> 'e \<Rightarrow>
   bool \<times> 'e alarm_bridge \<times> 'e" where
  "alarm_monitor_thread start_ms [] warming br e = (warming, br, e)"
| "alarm_monitor_thread start_ms ((run, now_ms, others) # sched) warming br e =
     (if \<not> run then (warming, br, others e)
      else
        let (w', br', e') = monitor_iteration start_ms now_ms warming br (others e)
        in alarm_monitor_thread start_ms sched w' br' e')"

section \<open>Lemmas\<close>

definition bridge_ok :: "'e alarm_bridge \<Rightarrow> bool" where
  "bridge_ok br \<longleftrightarrow> length (g_ctxs br) \<le> ALARM_BRIDGE_MAX_CTXS"

lemma bridge_ok_initial [gw_inv]: "bridge_ok alarm_bridge_initial"
  by (simp add: bridge_ok_def alarm_bridge_initial_def)

lemma bridge_ok_register [gw_inv]:
  "bridge_ok br \<Longrightarrow> bridge_ok (snd (alarm_bridge_register_ctx c br))"
  by (auto simp: bridge_ok_def alarm_bridge_register_ctx_def split: option.split)

lemma run_all_ctxs_length: "length (fst (run_all_ctxs cs e)) = length cs"
  by (induction cs e rule: run_all_ctxs.induct) (auto split: prod.splits)

lemma bridge_ok_iteration [gw_inv]:
  "bridge_ok br \<Longrightarrow> bridge_ok (fst (snd (monitor_iteration s n w br e)))"
  using run_all_ctxs_length [of "g_ctxs br" e]
  by (auto simp: bridge_ok_def monitor_iteration_def Let_def split: prod.splits)

lemma alarm_bridge_register_when_running:
  "g_running br \<Longrightarrow> alarm_bridge_register_ctx c br = (-1, br)"
  by (simp add: alarm_bridge_register_ctx_def)

text \<open>The reference: every turn evaluates all contexts.\<close>

fun scan_turns :: "('e \<Rightarrow> 'e) list \<Rightarrow> 'e alarm_engine_ctx list \<Rightarrow> 'e \<Rightarrow> 'e alarm_engine_ctx list \<times> 'e" where
  "scan_turns [] cs e = (cs, e)"
| "scan_turns (f # fs) cs e = (let (cs', e') = run_all_ctxs cs (f e) in scan_turns fs cs' e')"

lemma monitor_step:
  assumes "run_all_ctxs (g_ctxs br) (f e) = (cs1, e1)"
    and "w \<Longrightarrow> \<not> now - s < ALARM_BRIDGE_STARTUP_DELAY_MS"
  shows "alarm_monitor_thread s ((True, now, f) # sched) w br e =
    alarm_monitor_thread s sched False (br\<lparr>g_last_beat_ms := now, g_ctxs := cs1\<rparr>) e1"
  using assms by (cases w) (simp_all add: monitor_iteration_def Let_def)

lemma monitor_active:
  "list_all fst sched \<Longrightarrow> alarm_monitor_thread s sched False br e = (w, br', e') \<Longrightarrow>
   (g_ctxs br', e') = scan_turns (map (snd \<circ> snd) sched) (g_ctxs br) e \<and>
   g_last_beat_ms br' = (if sched = [] then g_last_beat_ms br else fst (snd (last sched)))"
proof (induction sched arbitrary: br e)
  case Nil
  then show ?case by simp
next
  case (Cons x sched)
  obtain now f where x: "x = (True, now, f)" using Cons.prems by (cases x) auto
  obtain cs1 e1 where r: "run_all_ctxs (g_ctxs br) (f e) = (cs1, e1)" by fastforce
  with Cons.prems x have
    "alarm_monitor_thread s sched False (br\<lparr>g_last_beat_ms := now, g_ctxs := cs1\<rparr>) e1 = (w, br', e')"
    by (simp only: monitor_step)
  with Cons.IH Cons.prems x r show ?case by simp
qed

text \<open>
  While the thread runs, the contexts are evaluated in exactly the turns from the first
  one that starts at least 5000 ms after the thread did; before it no context is touched and
  only the other threads change the environment. Every turn, warming or not, records its
  clock value as the heartbeat.
\<close>

theorem monitor_startup_delay:
  assumes "list_all fst sched" and "alarm_monitor_thread s sched True br e = (w, br', e')"
  shows "(g_ctxs br', e') =
      scan_turns (map (snd \<circ> snd) (dropWhile (\<lambda>(_, now, _). now - s < ALARM_BRIDGE_STARTUP_DELAY_MS) sched))
        (g_ctxs br)
        (fold (\<lambda>(_, _, f). f) (takeWhile (\<lambda>(_, now, _). now - s < ALARM_BRIDGE_STARTUP_DELAY_MS) sched) e) \<and>
    (sched \<noteq> [] \<longrightarrow> g_last_beat_ms br' = fst (snd (last sched)))"
  using assms
proof (induction sched arbitrary: br e)
  case Nil
  then show ?case by simp
next
  case (Cons x sched)
  obtain run now f where x: "x = (run, now, f)" by (cases x) auto
  show ?case
  proof (cases "now - s < ALARM_BRIDGE_STARTUP_DELAY_MS")
    case True
    with Cons x show ?thesis
      by (cases "sched = []") (auto simp: monitor_iteration_def Let_def)
  next
    case False
    obtain cs1 e1 where r: "run_all_ctxs (g_ctxs br) (f e) = (cs1, e1)" by fastforce
    from Cons.prems x have "run" by simp
    with Cons.prems x r False have "alarm_monitor_thread s sched False
        (br\<lparr>g_last_beat_ms := now, g_ctxs := cs1\<rparr>) e1 = (w, br', e')"
      by (simp add: monitor_step del: alarm_monitor_thread.simps)
    with Cons.prems x r False monitor_active [OF _ this] show ?thesis
      by (simp add: comp_def del: alarm_monitor_thread.simps)
  qed
qed

text \<open>A monitor of one CHANGE entry: the change made during the warm-up is reported by the
  first turn after it.\<close>

theorem monitor_startup_delay_witness:
  "let en = \<lparr>alarm_device_address = 0, alarm_condition = ALARM_COND_CHANGE, lo_limit = 0,
              hi_limit = 0, error_code = 1, alarm_description = ''x''\<rparr>;
       br = alarm_bridge_initial\<lparr>g_ctxs := [log_ctx [en] [\<lparr>is_active = False, prev_value = 0\<rparr>]]\<rparr>;
       sched = [(True, 100, \<lambda>(r, l). (\<lambda>_. Some 7, l)), (True, 5200, id)]
   in snd (snd (snd (alarm_monitor_thread 100 sched True br (\<lambda>_. None, [])))) =
      [(en, 7, ALARM_EVENT_TRIGGER)]"
proof -
  let ?en = "\<lparr>alarm_device_address = 0, alarm_condition = ALARM_COND_CHANGE, lo_limit = 0,
              hi_limit = 0, error_code = 1, alarm_description = ''x''\<rparr>"
  let ?br = "alarm_bridge_initial\<lparr>g_ctxs := [log_ctx [?en] [\<lparr>is_active = False, prev_value = 0\<rparr>]]\<rparr>"
  let ?sched = "[(True, 100, \<lambda>(r, l). (\<lambda>_. Some 7, l)), (True, 5200, id)]
    :: (bool \<times> u64 \<times> (reading \<times> event_log \<Rightarrow> reading \<times> event_log)) list"
  obtain w br' r l where m: "alarm_monitor_thread 100 ?sched True ?br (\<lambda>_. None, []) = (w, br', (r, l))"
    by (metis prod.exhaust)
  have "(g_ctxs br', (r, l)) = scan_turns [id] (g_ctxs ?br) (\<lambda>_. Some 7, [])"
    using monitor_startup_delay [OF _ m] by simp
  then have "l = [(?en, 7, ALARM_EVENT_TRIGGER)]"
    by (simp add: log_ctx_def alarm_engine_run_def alarm_entry_step_def eval_change_def)
  with m show ?thesis by (simp add: Let_def)
qed

end
