(* ===== verification/Alarm_Manager.thy ===== *)
theory Alarm_Manager
  imports Alarm_Engine
begin

text \<open>
  \<^verbatim>\<open>src/alarm_manager.c\<close>: the table of alarm databases and the row rotation. SQLite, the
  file system and the clock are not this program's code: they are the functions of
  \<open>sqlite_api\<close> over a world \<open>'w\<close>, one per call the code makes. Log lines are not
  modelled, so the unit name taken from \<^verbatim>\<open>userdata\<close>, which only they use, is not either.
\<close>

abbreviation LOG_MAX_ROWS :: int where "LOG_MAX_ROWS \<equiv> 10000"
abbreviation ALARM_MANAGER_MAX_DBS :: nat where "ALARM_MANAGER_MAX_DBS \<equiv> 4"

section \<open>Data\<close>

datatype log_sql = SQL_INSERT | SQL_UPDATE_OLDEST

record log_row =
  row_timestamp :: string
  row_node :: string
  row_event :: string
  row_detail :: string

text \<open>Handles are numbers. \<open>sq_count\<close> is \<^const>\<open>None\<close> when the statement cannot be
  prepared or returns no row; \<open>sq_write\<close> is prepare, bind and step of one of the two
  statements, whose result only a log line looks at.\<close>

record 'w sqlite_api =
  sq_mkdir :: "string \<Rightarrow> 'w \<Rightarrow> 'w"
  sq_open :: "string \<Rightarrow> 'w \<Rightarrow> nat option \<times> 'w"
  sq_create_table :: "nat \<Rightarrow> 'w \<Rightarrow> bool \<times> 'w"
  sq_close :: "nat \<Rightarrow> 'w \<Rightarrow> 'w"
  sq_time :: "'w \<Rightarrow> string"
  sq_count :: "nat \<Rightarrow> 'w \<Rightarrow> int option \<times> 'w"
  sq_write :: "nat \<Rightarrow> log_sql \<Rightarrow> log_row \<Rightarrow> 'w \<Rightarrow> 'w"

record alarm_manager_sink =
  log_dir :: "string option"
  log_path :: "string option"
  log_node :: "string option"

text \<open>The slots \<^verbatim>\<open>g_dbs[0 .. g_db_count)\<close>; slots beyond the count are never read.\<close>

record alarm_db_slot =
  db_path :: string
  db :: "nat option"
  open_failed :: bool

section \<open>Opening\<close>

definition ensure_log_dir :: "'w sqlite_api \<Rightarrow> string option \<Rightarrow> 'w \<Rightarrow> 'w" where
  "ensure_log_dir api d w = (case d of None \<Rightarrow> w | Some d \<Rightarrow> sq_mkdir api d w)"

text \<open>The result is the handle of the open slot, \<^const>\<open>None\<close> for NULL.\<close>

definition find_or_open_db ::
  "'w sqlite_api \<Rightarrow> string option \<Rightarrow> string \<Rightarrow> alarm_db_slot list \<Rightarrow> 'w \<Rightarrow>
   nat option \<times> alarm_db_slot list \<times> 'w" where
  "find_or_open_db api dir path dbs w =
     (case List.find (\<lambda>s. db_path s = path) dbs of
        Some s \<Rightarrow> (if open_failed s then None else db s, dbs, w)
      | None \<Rightarrow>
          if length dbs \<ge> ALARM_MANAGER_MAX_DBS then (None, dbs, w)
          else
            let w1 = ensure_log_dir api dir w;
                failed = dbs @ [\<lparr>db_path = path, db = None, open_failed = True\<rparr>]
            in case sq_open api path w1 of
                 (None, w2) \<Rightarrow> (None, failed, w2)
               | (Some h, w2) \<Rightarrow>
                   (case sq_create_table api h w2 of
                      (False, w3) \<Rightarrow> (None, failed, sq_close api h w3)
                    | (True, w3) \<Rightarrow>
                        (Some h, dbs @ [\<lparr>db_path = path, db = Some h, open_failed = False\<rparr>], w3)))"

fun close_handles :: "'w sqlite_api \<Rightarrow> alarm_db_slot list \<Rightarrow> 'w \<Rightarrow> 'w" where
  "close_handles api [] w = w"
| "close_handles api (s # ss) w =
     close_handles api ss (case db s of None \<Rightarrow> w | Some h \<Rightarrow> sq_close api h w)"

definition alarm_manager_close ::
  "'w sqlite_api \<Rightarrow> alarm_db_slot list \<Rightarrow> 'w \<Rightarrow> alarm_db_slot list \<times> 'w" where
  "alarm_manager_close api dbs w = ([], close_handles api dbs w)"

section \<open>Writing\<close>

definition write_log ::
  "'w sqlite_api \<Rightarrow> nat \<Rightarrow> string \<Rightarrow> string \<Rightarrow> string \<Rightarrow> 'w \<Rightarrow> 'w" where
  "write_log api h node event detail w =
     (let ts = sq_time api w;
          (c, w1) = sq_count api h w;
          count = (case c of None \<Rightarrow> 0 | Some n \<Rightarrow> n);
          sql = (if count < LOG_MAX_ROWS then SQL_INSERT else SQL_UPDATE_OLDEST)
      in sq_write api h sql
           \<lparr>row_timestamp = ts, row_node = node, row_event = event, row_detail = detail\<rparr> w1)"

text \<open>\<^verbatim>\<open>snprintf\<close> with \<^verbatim>\<open>%04X\<close> into \<^verbatim>\<open>char detail[128]\<close>.\<close>

definition hex_digit :: "nat \<Rightarrow> char" where
  "hex_digit n = ''0123456789ABCDEF'' ! (n mod 16)"

definition hex4 :: "u16 \<Rightarrow> string" where
  "hex4 v = map (\<lambda>k. hex_digit (unat v div 16 ^ k)) [3, 2, 1, 0]"

definition alarm_detail :: "alarm_event \<Rightarrow> alarm_entry \<Rightarrow> u16 \<Rightarrow> string" where
  "alarm_detail ev en v =
     take 127 ((if ev = ALARM_EVENT_CLEAR then ''CLEARED '' else []) @
       ''err=0x'' @ hex4 (error_code en) @ '' | value=0x'' @ hex4 v @ '' | '' @ alarm_description en)"

definition alarm_event_name :: "alarm_event \<Rightarrow> string" where
  "alarm_event_name ev = (case ev of ALARM_EVENT_TRIGGER \<Rightarrow> ''ALARM_TRIGGER''
     | ALARM_EVENT_CLEAR \<Rightarrow> ''ALARM_CLEAR'')"

definition alarm_manager_handle_event ::
  "'w sqlite_api \<Rightarrow> alarm_entry option \<Rightarrow> u16 \<Rightarrow> alarm_event \<Rightarrow> alarm_manager_sink option \<Rightarrow>
   alarm_db_slot list \<Rightarrow> 'w \<Rightarrow> alarm_db_slot list \<times> 'w" where
  "alarm_manager_handle_event api entry value ev sink dbs w =
     (case (entry, sink) of
        (Some en, Some sk) \<Rightarrow>
          (case (log_path sk, log_node sk) of
             (Some path, Some node) \<Rightarrow>
               (case find_or_open_db api (log_dir sk) path dbs w of
                  (None, dbs', w') \<Rightarrow> (dbs', w')
                | (Some h, dbs', w') \<Rightarrow>
                    (dbs', write_log api h node (alarm_event_name ev) (alarm_detail ev en value) w'))
           | _ \<Rightarrow> (dbs, w))
      | _ \<Rightarrow> (dbs, w))"

section \<open>The slot table\<close>

text \<open>Slots have distinct paths, at most four of them exist, and a slot is failed exactly
  when it holds no handle.\<close>

definition dbs_ok :: "alarm_db_slot list \<Rightarrow> bool" where
  "dbs_ok dbs \<longleftrightarrow> length dbs \<le> ALARM_MANAGER_MAX_DBS \<and> distinct (map db_path dbs) \<and>
     list_all (\<lambda>s. open_failed s \<longleftrightarrow> db s = None) dbs"

lemma dbs_ok_Nil [gw_inv]: "dbs_ok []"
  by (simp add: dbs_ok_def)

lemma dbs_ok_snoc:
  "dbs_ok dbs \<Longrightarrow> length dbs < ALARM_MANAGER_MAX_DBS \<Longrightarrow> db_path s \<notin> db_path ` set dbs \<Longrightarrow>
   (open_failed s \<longleftrightarrow> db s = None) \<Longrightarrow> dbs_ok (dbs @ [s])"
  by (auto simp: dbs_ok_def)

lemma find_or_open_known:
  "List.find (\<lambda>s. db_path s = path) dbs = Some s \<Longrightarrow>
   find_or_open_db api dir path dbs w = (if open_failed s then None else db s, dbs, w)"
  by (simp add: find_or_open_db_def)

lemma find_or_open_keeps:
  assumes "dbs_ok dbs" and "find_or_open_db api dir path dbs w = (r, dbs', w')"
  shows "dbs_ok dbs' \<and> (\<exists>new. dbs' = dbs @ new)"
proof (cases "List.find (\<lambda>s. db_path s = path) dbs")
  case (Some s)
  with assms show ?thesis by (simp add: find_or_open_known)
next
  case None
  then have "path \<notin> db_path ` set dbs" by (auto simp: find_None_ball)
  with None assms show ?thesis
    by (auto simp: find_or_open_db_def Let_def intro!: dbs_ok_snoc
        split: if_splits prod.splits option.splits bool.splits)
qed

lemma find_or_open_result:
  assumes "dbs_ok dbs" and "find_or_open_db api dir path dbs w = (r, dbs', w')"
  shows "r = None \<or> (\<exists>s\<in>set dbs'. db_path s = path \<and> db s = r)"
proof (cases "List.find (\<lambda>s. db_path s = path) dbs")
  case (Some s)
  with assms find_SomeD [OF Some] show ?thesis
    by (auto simp: find_or_open_known split: if_splits)
next
  case None
  with assms show ?thesis
    by (auto simp: find_or_open_db_def Let_def split: if_splits prod.splits option.splits bool.splits)
qed

lemma handle_event_cases:
  assumes "alarm_manager_handle_event api en v ev sk dbs w = (d', w')"
  obtains (ignored) "d' = dbs" "w' = w"
  | (opened) dir path r w2 where "find_or_open_db api dir path dbs w = (r, d', w2)"
      "w' = w2 \<or> (\<exists>h node event detail. w' = write_log api h node event detail w2)"
  using assms
  by (auto simp: alarm_manager_handle_event_def split: option.splits prod.splits
      intro: opened ignored) (metis opened)

lemma handle_event_keeps:
  assumes "dbs_ok dbs" and "alarm_manager_handle_event api en v ev sk dbs w = (d', w')"
  shows "dbs_ok d' \<and> (\<exists>new. d' = dbs @ new)"
  using assms(2)
proof (cases rule: handle_event_cases)
  case ignored
  with assms(1) show ?thesis by simp
next
  case opened
  with assms(1) find_or_open_keeps show ?thesis by metis
qed

text \<open>
  Whatever events arrive, the alarm databases stay at most four with pairwise distinct
  paths and none is ever dropped or reordered; and once opening a path has failed, every
  later event for that path changes neither the slots nor the outside world.
\<close>

theorem alarm_databases_stable:
  assumes "dbs_ok dbs" and "alarm_manager_handle_event api (Some en) v ev (Some sk) dbs w = (dbs', w')"
  shows "dbs_ok dbs' \<and> (\<exists>new. dbs' = dbs @ new \<and> length new \<le> 1) \<and>
    (\<forall>s\<in>set dbs. open_failed s \<and> log_path sk = Some (db_path s) \<longrightarrow> dbs' = dbs \<and> w' = w)"
proof -
  have len: "length d2 \<le> Suc (length dbs)"
    if "find_or_open_db api dir path dbs w = (r, d2, w2)" for dir path r d2 w2
    using that by (auto simp: find_or_open_db_def Let_def
        split: if_splits prod.splits option.splits bool.splits)
  from handle_event_keeps [OF assms] obtain new where ok: "dbs_ok dbs'" and new: "dbs' = dbs @ new"
    by auto
  from assms(2) have "length dbs' \<le> Suc (length dbs)"
    by (cases rule: handle_event_cases) (use len in auto)
  with new have "length new \<le> 1" by simp
  moreover have "dbs' = dbs \<and> w' = w"
    if s: "s \<in> set dbs" "open_failed s" "log_path sk = Some (db_path s)" for s
  proof -
    have "List.find (\<lambda>x. db_path x = db_path s) dbs = Some s"
      using assms(1) s(1) unfolding dbs_ok_def by (induction dbs) (auto simp: image_iff)
    then have "find_or_open_db api (log_dir sk) (db_path s) dbs w = (None, dbs, w)"
      using s(2) by (simp add: find_or_open_known)
    with assms(2) s(3) show ?thesis
      by (auto simp: alarm_manager_handle_event_def split: option.splits)
  qed
  ultimately show ?thesis using ok new by blast
qed

section \<open>Row rotation\<close>

text \<open>
  What the code relies on SQLite for, with \<open>rows h w\<close> the number of rows of the table
  behind handle \<open>h\<close>: COUNT changes nothing and either fails or returns the number, as long as
  that fits the 32 bits of \<^verbatim>\<open>sqlite3_column_int\<close>; an INSERT adds at most one row to that table,
  the UPDATE of the oldest row adds none, and no other call adds rows.
\<close>

definition sqlite_rows_ok :: "'w sqlite_api \<Rightarrow> (nat \<Rightarrow> 'w \<Rightarrow> nat) \<Rightarrow> bool" where
  "sqlite_rows_ok api rows \<longleftrightarrow>
     (\<forall>h w. case sq_count api h w of
        (c, w') \<Rightarrow> (\<forall>g. rows g w' = rows g w) \<and>
          (case c of None \<Rightarrow> True | Some n \<Rightarrow> rows h w < 2 ^ 31 \<longrightarrow> n = int (rows h w))) \<and>
     (\<forall>h g r w. rows g (sq_write api h SQL_INSERT r w) \<le> rows g w + (if g = h then 1 else 0)) \<and>
     (\<forall>h g r w. rows g (sq_write api h SQL_UPDATE_OLDEST r w) \<le> rows g w)"

definition sqlite_open_ok :: "'w sqlite_api \<Rightarrow> (nat \<Rightarrow> 'w \<Rightarrow> nat) \<Rightarrow> bool" where
  "sqlite_open_ok api rows \<longleftrightarrow>
     (\<forall>g d w. rows g (sq_mkdir api d w) = rows g w) \<and>
     (\<forall>g p w. rows g (snd (sq_open api p w)) = rows g w) \<and>
     (\<forall>g h w. rows g (snd (sq_create_table api h w)) = rows g w) \<and>
     (\<forall>g h w. rows g (sq_close api h w) = rows g w)"

text \<open>A failing COUNT counts as an empty table, so that the row is inserted.\<close>

lemma sqlite_count:
  assumes "sqlite_rows_ok api rows" and "sq_count api h w = (c, w')"
  shows "rows g w' = rows g w" and "c = Some n \<Longrightarrow> rows h w < 2 ^ 31 \<Longrightarrow> n = int (rows h w)"
proof -
  from conjunct1 [OF assms(1) [unfolded sqlite_rows_ok_def]] have "case sq_count api h w of (c, w') \<Rightarrow> (\<forall>g. rows g w' = rows g w) \<and>
      (case c of None \<Rightarrow> True | Some n \<Rightarrow> rows h w < 2 ^ 31 \<longrightarrow> n = int (rows h w))" by (elim allE)
  with assms(2) show "rows g w' = rows g w" "c = Some n \<Longrightarrow> rows h w < 2 ^ 31 \<Longrightarrow> n = int (rows h w)"
    by (simp_all only: prod.case option.case)
qed

lemma write_log_rows:
  assumes "sqlite_rows_ok api rows" and "\<forall>g. rows g w \<le> n" and "10000 \<le> n" and "n < 2 ^ 31"
  shows "rows g (write_log api h node event detail w) \<le> n + (if fst (sq_count api h w) = None then 1 else 0)"
proof -
  obtain c w1 where c: "sq_count api h w = (c, w1)" by fastforce
  note r = sqlite_count(1) [OF assms(1) c]
  let ?k = "case c of None \<Rightarrow> 0 | Some k \<Rightarrow> k"
  let ?row = "\<lparr>row_timestamp = sq_time api w, row_node = node, row_event = event, row_detail = detail\<rparr>"
  have w: "write_log api h node event detail w = sq_write api h (if ?k < 10000 then SQL_INSERT else SQL_UPDATE_OLDEST) ?row w1"
    by (simp add: write_log_def c)
  have ins: "rows g (sq_write api h SQL_INSERT ?row w1) \<le> rows g w + (if g = h then 1 else 0)"
    unfolding r [symmetric] using assms(1) unfolding sqlite_rows_ok_def by blast
  have upd: "rows g (sq_write api h SQL_UPDATE_OLDEST ?row w1) \<le> rows g w"
    unfolding r [symmetric] using assms(1) unfolding sqlite_rows_ok_def by blast
  have n: "rows g w \<le> n" "rows h w \<le> n" using assms(2) by blast+
  show ?thesis
  proof (cases c)
    case None
    then have "rows g (write_log api h node event detail w) \<le> rows g w + (if g = h then 1 else 0)" using ins w by simp
    then show ?thesis using n(1) None by (simp add: c split: if_splits)
  next
    case (Some k)
    have "rows h w < 2 ^ 31" using n(2) assms(4) by (rule le_less_trans)
    then have k: "k = int (rows h w)" by (rule sqlite_count(2) [OF assms(1) c Some])
    show ?thesis
    proof (cases "rows h w < 10000")
      case True
      then have "rows g (write_log api h node event detail w) \<le> rows g w + (if g = h then 1 else 0)"
        using ins w Some k by simp
      then show ?thesis using n(1) True assms(3) by (cases "g = h") simp_all
    next
      case False
      then have "rows g (write_log api h node event detail w) \<le> rows g w" using upd w Some k by simp
      then show ?thesis using n(1) by simp
    qed
  qed
qed

lemma find_or_open_rows:
  assumes "sqlite_open_ok api rows" and "find_or_open_db api dir path dbs w = (r, dbs', w')"
  shows "rows g w' = rows g w"
proof -
  have m: "rows g (ensure_log_dir api dir w) = rows g w"
    using assms(1) by (simp add: sqlite_open_ok_def ensure_log_dir_def split: option.split)
  have o: "sq_open api p u = (x, y) \<Longrightarrow> rows g y = rows g u" for p u x y
    using assms(1) unfolding sqlite_open_ok_def by (metis snd_conv)
  have c: "sq_create_table api h u = (x, y) \<Longrightarrow> rows g y = rows g u" for h u x y
    using assms(1) unfolding sqlite_open_ok_def by (metis snd_conv)
  have cl: "rows g (sq_close api h u) = rows g u" for h u
    using assms(1) unfolding sqlite_open_ok_def by blast
  show ?thesis
    using assms(2) m o c cl
    by (auto simp: find_or_open_db_def Let_def
        split: if_splits prod.splits option.splits bool.splits)
qed

text \<open>The events whose COUNT failed, in a run of the handler.\<close>

definition count_failed ::
  "'w sqlite_api \<Rightarrow> alarm_entry option \<Rightarrow> alarm_manager_sink option \<Rightarrow> alarm_db_slot list \<Rightarrow> 'w \<Rightarrow> bool" where
  "count_failed api entry sink dbs w =
     (case (entry, sink) of
        (Some en, Some sk) \<Rightarrow>
          (case (log_path sk, log_node sk) of
             (Some path, Some node) \<Rightarrow>
               (case find_or_open_db api (log_dir sk) path dbs w of
                  (None, dbs', w') \<Rightarrow> False
                | (Some h, dbs', w') \<Rightarrow> fst (sq_count api h w') = None)
           | _ \<Rightarrow> False)
      | _ \<Rightarrow> False)"

type_synonym alarm_call = "alarm_entry option \<times> u16 \<times> alarm_event \<times> alarm_manager_sink option"

fun handle_events ::
  "'w sqlite_api \<Rightarrow> alarm_call list \<Rightarrow> alarm_db_slot list \<Rightarrow> 'w \<Rightarrow> alarm_db_slot list \<times> 'w" where
  "handle_events api [] dbs w = (dbs, w)"
| "handle_events api ((en, v, ev, sk) # evs) dbs w =
     (case alarm_manager_handle_event api en v ev sk dbs w of (dbs', w') \<Rightarrow> handle_events api evs dbs' w')"

fun failed_counts :: "'w sqlite_api \<Rightarrow> alarm_call list \<Rightarrow> alarm_db_slot list \<Rightarrow> 'w \<Rightarrow> nat" where
  "failed_counts api [] dbs w = 0"
| "failed_counts api ((en, v, ev, sk) # evs) dbs w =
     (if count_failed api en sk dbs w then 1 else 0) +
     (case alarm_manager_handle_event api en v ev sk dbs w of (dbs', w') \<Rightarrow> failed_counts api evs dbs' w')"

lemma handle_event_rows:
  assumes "sqlite_rows_ok api rows" and "sqlite_open_ok api rows" and "\<forall>g. rows g w \<le> n" and "10000 \<le> n" and "n < 2 ^ 31"
    and "alarm_manager_handle_event api en v ev sk dbs w = (dbs', w')"
  shows "rows g w' \<le> n + (if count_failed api en sk dbs w then 1 else 0)"
proof (cases "\<exists>x y path node. en = Some x \<and> sk = Some y \<and> log_path y = Some path \<and> log_node y = Some node")
  case False
  with assms(6) have "w' = w" by (auto simp: alarm_manager_handle_event_def split: option.splits)
  with assms(3) show ?thesis by (simp add: trans_le_add1)
next
  case True
  then obtain x y path node where xy: "en = Some x" "sk = Some y" "log_path y = Some path" "log_node y = Some node" by blast
  obtain r d2 w2 where o: "find_or_open_db api (log_dir y) path dbs w = (r, d2, w2)" by (metis prod.exhaust)
  have n: "\<forall>g. rows g w2 \<le> n" using assms(3) find_or_open_rows [OF assms(2) o] by simp
  show ?thesis
  proof (cases r)
    case None
    with assms(6) have "w' = w2" by (simp add: alarm_manager_handle_event_def xy o)
    with n show ?thesis by (simp add: trans_le_add1)
  next
    case (Some h)
    with assms(6) have "w' = write_log api h node (alarm_event_name ev) (alarm_detail ev x v) w2"
      by (simp add: alarm_manager_handle_event_def xy o)
    with write_log_rows [OF assms(1) n assms(4,5), of g h] Some show ?thesis by (simp add: count_failed_def xy o)
  qed
qed

lemma handle_events_rows:
  assumes "sqlite_rows_ok api rows" and "sqlite_open_ok api rows"
  shows "\<forall>g. rows g w \<le> n \<Longrightarrow> 10000 \<le> n \<Longrightarrow> n + failed_counts api evs dbs w < 2 ^ 31 \<Longrightarrow>
    rows g (snd (handle_events api evs dbs w)) \<le> n + failed_counts api evs dbs w"
proof (induction evs arbitrary: dbs w n)
  case (Cons x evs)
  obtain en v ev sk where x: "x = (en, v, ev, sk)" by (cases x) auto
  obtain dbs' w' where h: "alarm_manager_handle_event api en v ev sk dbs w = (dbs', w')" by fastforce
  let ?n = "n + (if count_failed api en sk dbs w then 1 else 0)"
  have "\<forall>g. rows g w' \<le> ?n"
    using handle_event_rows [OF assms Cons.prems(1,2) _ h] Cons.prems(3) by (simp add: x)
  with Cons.IH [of w' ?n dbs'] Cons.prems(2,3) show ?case by (simp add: x h)
qed simp

text \<open>
  C34. Whatever events are handled, no alarm table grows beyond 10000 rows by more than the
  number of events whose SELECT COUNT failed: with SQLite answering every COUNT the bound is
  10000, and each failing COUNT, which the code takes for an empty table, costs at most one row.
\<close>

theorem alarm_rows_bounded:
  assumes "sqlite_rows_ok api rows" and "sqlite_open_ok api rows" and "\<forall>g. rows g w \<le> 10000"
    and "10000 + failed_counts api evs dbs w < 2 ^ 31"
  shows "rows g (snd (handle_events api evs dbs w)) \<le> 10000 + failed_counts api evs dbs w"
  using handle_events_rows [OF assms(1,2,3) _ assms(4)] by simp

section \<open>Witnesses\<close>

text \<open>An instance of the parameter: the world counts the rows of each handle.\<close>

definition counting_sqlite :: "(nat \<Rightarrow> nat) sqlite_api" where
  "counting_sqlite = \<lparr>sq_mkdir = \<lambda>d w. w, sq_open = \<lambda>p w. (Some (length p), w),
     sq_create_table = \<lambda>h w. (True, w), sq_close = \<lambda>h w. w, sq_time = \<lambda>w. ''now'',
     sq_count = \<lambda>h w. (Some (int (w h)), w),
     sq_write = \<lambda>h q r w. (case q of SQL_INSERT \<Rightarrow> w(h := w h + 1) | SQL_UPDATE_OLDEST \<Rightarrow> w)\<rparr>"

definition sample_sink :: alarm_manager_sink where
  "sample_sink = \<lparr>log_dir = None, log_path = Some ''db'', log_node = Some ''node''\<rparr>"

theorem alarm_databases_stable_witness:
  "let dbs = [\<lparr>db_path = ''db'', db = None, open_failed = True\<rparr>]
   in alarm_manager_handle_event counting_sqlite
        (Some \<lparr>alarm_device_address = 0, alarm_condition = ALARM_COND_CHANGE, lo_limit = 0,
           hi_limit = 0, error_code = 1, alarm_description = ''d''\<rparr>)
        5 ALARM_EVENT_TRIGGER (Some sample_sink) dbs (\<lambda>_. 3) = (dbs, (\<lambda>_. 3))"
proof -
  let ?dbs = "[\<lparr>db_path = ''db'', db = None, open_failed = True\<rparr>]"
  let ?en = "\<lparr>alarm_device_address = 0, alarm_condition = ALARM_COND_CHANGE, lo_limit = 0,
           hi_limit = 0, error_code = 1, alarm_description = ''d''\<rparr>"
  obtain dbs' w' where r: "alarm_manager_handle_event counting_sqlite (Some ?en) 5
      ALARM_EVENT_TRIGGER (Some sample_sink) ?dbs (\<lambda>_. 3) = (dbs', w')" by fastforce
  have "dbs_ok ?dbs" by (simp add: dbs_ok_def)
  from alarm_databases_stable [OF this r] have "dbs' = ?dbs \<and> w' = (\<lambda>_. 3)"
    by (simp add: sample_sink_def)
  with r show ?thesis by simp
qed

text \<open>A database whose COUNT fails when the table has just become full: the third event adds a
  row beyond the limit, the fourth replaces the oldest.\<close>

definition failing_sqlite :: "(nat \<Rightarrow> nat) sqlite_api" where
  "failing_sqlite = counting_sqlite\<lparr>sq_count := \<lambda>h w. (if w h = 10000 then None else Some (int (w h)), w)\<rparr>"

definition sample_call :: alarm_call where
  "sample_call = (Some \<lparr>alarm_device_address = 0, alarm_condition = ALARM_COND_CHANGE,
     lo_limit = 0, hi_limit = 0, error_code = 1, alarm_description = ''d''\<rparr>, 5, ALARM_EVENT_TRIGGER, Some sample_sink)"

lemma failing_sqlite_ok: "sqlite_rows_ok failing_sqlite (\<lambda>h w. w h)" "sqlite_open_ok failing_sqlite (\<lambda>h w. w h)"
  by (simp_all add: sqlite_rows_ok_def sqlite_open_ok_def failing_sqlite_def counting_sqlite_def)

lemmas sample_run = sample_call_def sample_sink_def failing_sqlite_def counting_sqlite_def count_failed_def
  alarm_manager_handle_event_def find_or_open_db_def ensure_log_dir_def write_log_def

theorem alarm_rows_bounded_witness:
  "snd (handle_events failing_sqlite [sample_call, sample_call, sample_call, sample_call] [] (\<lambda>_. 9998)) 2 = 10001 \<and>
   (\<forall>g. snd (handle_events failing_sqlite [sample_call, sample_call, sample_call, sample_call] [] (\<lambda>_. 9998)) g \<le> 10001)"
proof -
  let ?cs = "[sample_call, sample_call, sample_call, sample_call]"
  have f: "failed_counts failing_sqlite ?cs [] (\<lambda>_. 9998) = 1" by (simp add: sample_run)
  have b: "\<forall>g :: nat. (9998 :: nat) \<le> 10000" by simp
  have "snd (handle_events failing_sqlite ?cs [] (\<lambda>_. 9998)) g \<le> 10000 + failed_counts failing_sqlite ?cs [] (\<lambda>_. 9998)" for g
    by (rule alarm_rows_bounded [OF failing_sqlite_ok]) (use b f in simp_all)
  moreover have "snd (handle_events failing_sqlite ?cs [] (\<lambda>_. 9998)) 2 = 10001" by (simp add: sample_run)
  ultimately show ?thesis unfolding f by simp
qed

lemma write_log_examples:
  "alarm_detail ALARM_EVENT_CLEAR \<lparr>alarm_device_address = 0, alarm_condition = ALARM_COND_CHANGE,
     lo_limit = 0, hi_limit = 0, error_code = 0x20, alarm_description = ''UPS fault changed''\<rparr> 0x1AF =
   ''CLEARED err=0x0020 | value=0x01AF | UPS fault changed''"
  by (simp add: alarm_detail_def hex4_def hex_digit_def)

end
