(* ===== verification/Alarm_Units.thy ===== *)
theory Alarm_Units
  imports Alarm_Bridge Alarm_Manager Device_Profiles Gateway_Config
begin

text \<open>
  \<^verbatim>\<open>src/inverter_alarm.c\<close> and \<^verbatim>\<open>src/ups_alarm.c\<close>: the alarm tables of the two families,
  their register reader and event forwarder, and the registration of one context per enabled
  unit. The environment of the engine is the register pool with the alarm databases.
\<close>

section \<open>The environment of the alarm monitor\<close>

record 'w alarm_env =
  ae_pool :: pool
  ae_dbs :: "alarm_db_slot list"
  ae_world :: 'w

text \<open>The two files have the same \<^verbatim>\<open>alarm_read_register\<close> and \<^verbatim>\<open>forward_to_manager\<close>, with
  the profile as \<^verbatim>\<open>read_data\<close> and the sink as a constant.\<close>

definition alarm_read_register ::
  "device_map_profile \<Rightarrow> u16 \<Rightarrow> 'w alarm_env \<Rightarrow> u16 option \<times> 'w alarm_env" where
  "alarm_read_register p a e = (pool_read_by_device_addr (Some p) (ae_pool e) a, e)"

definition forward_to_manager ::
  "'w sqlite_api \<Rightarrow> alarm_manager_sink \<Rightarrow> alarm_entry \<Rightarrow> u16 \<Rightarrow> alarm_event \<Rightarrow>
   'w alarm_env \<Rightarrow> 'w alarm_env" where
  "forward_to_manager api sink en v ev e =
     (let (dbs, w) = alarm_manager_handle_event api (Some en) v ev (Some sink) (ae_dbs e) (ae_world e)
      in e\<lparr>ae_dbs := dbs, ae_world := w\<rparr>)"

section \<open>Inverter\<close>

abbreviation INV_ERR_FAULT_CODE :: u16 where "INV_ERR_FAULT_CODE \<equiv> 0x0001"

definition inverter_alarm_sink :: alarm_manager_sink where
  "inverter_alarm_sink = \<lparr>log_dir = Some ''/home/cm/LFB_Feeder_Kit/Logs/LFB_Inverter'',
     log_path = Some ''/home/cm/LFB_Feeder_Kit/Logs/LFB_Inverter/alarms.db'',
     log_node = Some ''inverter_alarm_node''\<rparr>"

abbreviation change_entry :: "u16 \<Rightarrow> u16 \<Rightarrow> string \<Rightarrow> alarm_entry" where
  "change_entry a err d \<equiv> \<lparr>alarm_device_address = a, alarm_condition = ALARM_COND_CHANGE,
     lo_limit = 0, hi_limit = 0, error_code = err, alarm_description = d\<rparr>"

definition inverter_alarm_table :: "alarm_entry list" where
  "inverter_alarm_table = [change_entry 0x2100 INV_ERR_FAULT_CODE ''fault code changed'']"

definition zero_states :: "alarm_entry list \<Rightarrow> alarm_state list" where
  "zero_states t = replicate (length t) \<lparr>is_active = False, prev_value = 0\<rparr>"

text \<open>One context as the loop of the registration function fills it.\<close>

definition inverter_alarm_ctx :: "'w sqlite_api \<Rightarrow> 'w alarm_env alarm_engine_ctx" where
  "inverter_alarm_ctx api = \<lparr>alarm_table = Some inverter_alarm_table,
     alarm_states = Some (zero_states inverter_alarm_table),
     alarm_count = length inverter_alarm_table,
     read_fn = Some (alarm_read_register inverter1_profile),
     event_fn = Some (forward_to_manager api inverter_alarm_sink)\<rparr>"

fun inverter_alarm_register_all ::
  "'w sqlite_api \<Rightarrow> module_config list \<Rightarrow> 'w alarm_env alarm_bridge \<Rightarrow> 'w alarm_env alarm_bridge" where
  "inverter_alarm_register_all api [] br = br"
| "inverter_alarm_register_all api (cfg # cfgs) br =
     (if \<not> enabled cfg then inverter_alarm_register_all api cfgs br
      else inverter_alarm_register_all api cfgs
             (snd (alarm_bridge_register_ctx (Some (inverter_alarm_ctx api)) br)))"

section \<open>UPS\<close>

abbreviation UPS_ERR_WARNING_1 :: u16 where "UPS_ERR_WARNING_1 \<equiv> 0x0001"
abbreviation UPS_ERR_WARNING_2 :: u16 where "UPS_ERR_WARNING_2 \<equiv> 0x0002"
abbreviation UPS_ERR_WARNING_3 :: u16 where "UPS_ERR_WARNING_3 \<equiv> 0x0003"
abbreviation UPS_ERR_WARNING_4 :: u16 where "UPS_ERR_WARNING_4 \<equiv> 0x0004"
abbreviation UPS_MODE_INFORMATION :: u16 where "UPS_MODE_INFORMATION \<equiv> 0x0010"
abbreviation UPS_FAULT_INFORMATION :: u16 where "UPS_FAULT_INFORMATION \<equiv> 0x0020"

definition ups_alarm_sink :: alarm_manager_sink where
  "ups_alarm_sink = \<lparr>log_dir = Some ''/home/cm/LFB_Feeder_Kit/Logs/LFB_UPS'',
     log_path = Some ''/home/cm/LFB_Feeder_Kit/Logs/LFB_UPS/alarms.db'',
     log_node = Some ''ups_alarm_node''\<rparr>"

definition ups_alarm_table :: "alarm_entry list" where
  "ups_alarm_table =
    [change_entry 0x0000 UPS_ERR_WARNING_1 ''warning 1 value changed'',
     change_entry 0x0001 UPS_ERR_WARNING_2 ''warning 2 value changed'',
     change_entry 0x0002 UPS_ERR_WARNING_3 ''warning 3 value changed'',
     change_entry 0x0003 UPS_ERR_WARNING_4 ''warning 4 value changed'',
     change_entry 0x00D0 UPS_MODE_INFORMATION ''UPS mode changed'',
     change_entry 0x02A2 UPS_FAULT_INFORMATION ''UPS fault changed'']"

definition ups_alarm_ctx :: "'w sqlite_api \<Rightarrow> 'w alarm_env alarm_engine_ctx" where
  "ups_alarm_ctx api = \<lparr>alarm_table = Some ups_alarm_table,
     alarm_states = Some (zero_states ups_alarm_table),
     alarm_count = length ups_alarm_table,
     read_fn = Some (alarm_read_register ups1_profile),
     event_fn = Some (forward_to_manager api ups_alarm_sink)\<rparr>"

fun ups_alarm_register_all ::
  "'w sqlite_api \<Rightarrow> module_config list \<Rightarrow> 'w alarm_env alarm_bridge \<Rightarrow> 'w alarm_env alarm_bridge" where
  "ups_alarm_register_all api [] br = br"
| "ups_alarm_register_all api (cfg # cfgs) br =
     (if \<not> enabled cfg then ups_alarm_register_all api cfgs br
      else ups_alarm_register_all api cfgs
             (snd (alarm_bridge_register_ctx (Some (ups_alarm_ctx api)) br)))"

section \<open>Which units are monitored\<close>

lemma register_ctx_take:
  assumes "\<not> g_running br" and "bridge_ok br"
  shows "g_ctxs (snd (alarm_bridge_register_ctx (Some c) br)) =
      take ALARM_BRIDGE_MAX_CTXS (g_ctxs br @ [c])"
    and "g_running (snd (alarm_bridge_register_ctx (Some c) br)) = g_running br"
  using assms by (auto simp: alarm_bridge_register_ctx_def bridge_ok_def)

lemma take_take_append: "take n (take n xs @ ys) = take n (xs @ ys)"
  by (simp add: min_def)

abbreviation register_once :: "'e alarm_engine_ctx \<Rightarrow> 'e alarm_bridge \<Rightarrow> 'e alarm_bridge" where
  "register_once c br \<equiv> snd (alarm_bridge_register_ctx (Some c) br)"

lemma register_many:
  assumes "\<not> g_running br" and "bridge_ok br"
  shows "g_ctxs ((register_once c ^^ k) br) = take ALARM_BRIDGE_MAX_CTXS (g_ctxs br @ replicate k c) \<and>
    \<not> g_running ((register_once c ^^ k) br) \<and> bridge_ok ((register_once c ^^ k) br)"
proof (induction k)
  case 0
  with assms show ?case by (simp add: bridge_ok_def)
next
  case (Suc k)
  then have IH: "g_ctxs ((register_once c ^^ k) br) = take ALARM_BRIDGE_MAX_CTXS (g_ctxs br @ replicate k c)"
    "\<not> g_running ((register_once c ^^ k) br)" "bridge_ok ((register_once c ^^ k) br)" by auto
  have "g_ctxs ((register_once c ^^ Suc k) br) =
      take ALARM_BRIDGE_MAX_CTXS ((g_ctxs br @ replicate k c) @ [c])"
    using register_ctx_take(1) [OF IH(2,3), of c]
    by (simp only: IH(1) take_take_append funpow.simps o_apply)
  moreover have "\<not> g_running ((register_once c ^^ Suc k) br)"
    using register_ctx_take(2) [OF IH(2,3), of c] IH(2) by simp
  moreover have "bridge_ok ((register_once c ^^ Suc k) br)"
    using IH(3) by (simp add: bridge_ok_register)
  ultimately show ?case by (simp only: append.assoc replicate_append_same replicate.simps simp_thms)
qed

lemma inverter_alarm_register_all_funpow:
  "inverter_alarm_register_all api cfgs br =
     (register_once (inverter_alarm_ctx api) ^^ length (filter enabled cfgs)) br"
  by (induction api cfgs br rule: inverter_alarm_register_all.induct) (auto simp del: funpow.simps simp: funpow_Suc_right)

lemma ups_alarm_register_all_funpow:
  "ups_alarm_register_all api cfgs br =
     (register_once (ups_alarm_ctx api) ^^ length (filter enabled cfgs)) br"
  by (induction api cfgs br rule: ups_alarm_register_all.induct) (auto simp del: funpow.simps simp: funpow_Suc_right)

text \<open>
  After both registrations at start-up the monitor holds the contexts of the enabled
  inverters, then those of the enabled UPS units, cut off after 16: with more than 16
  enabled units in all, the last UPS units have no alarm monitoring.
\<close>

theorem alarm_contexts_registered:
  "g_ctxs (ups_alarm_register_all api upss (inverter_alarm_register_all api invs alarm_bridge_initial)) =
   take ALARM_BRIDGE_MAX_CTXS
     (replicate (length (filter enabled invs)) (inverter_alarm_ctx api) @
      replicate (length (filter enabled upss)) (ups_alarm_ctx api))"
proof -
  let ?b = "inverter_alarm_register_all api invs alarm_bridge_initial"
  have i: "\<not> g_running (alarm_bridge_initial :: 'a alarm_env alarm_bridge)"
    "g_ctxs (alarm_bridge_initial :: 'a alarm_env alarm_bridge) = []"
    by (simp_all add: alarm_bridge_initial_def)
  have b: "g_ctxs ?b = take ALARM_BRIDGE_MAX_CTXS
        (replicate (length (filter enabled invs)) (inverter_alarm_ctx api))"
    "\<not> g_running ?b" "bridge_ok ?b"
    using register_many [OF i(1) bridge_ok_initial, where c = "inverter_alarm_ctx api"] i(2)
    by (simp_all add: inverter_alarm_register_all_funpow)
  show ?thesis
    using register_many [OF b(2,3), where c = "ups_alarm_ctx api" and k = "length (filter enabled upss)"]
    by (simp only: ups_alarm_register_all_funpow b(1) take_take_append)
qed

section \<open>One scan of a unit's alarms\<close>

text \<open>What a scan of a table of CHANGE entries does, entry by entry.\<close>

fun change_scan ::
  "'w sqlite_api \<Rightarrow> alarm_manager_sink \<Rightarrow> (u16 \<Rightarrow> u16) \<Rightarrow> alarm_entry list \<Rightarrow> u16 list \<Rightarrow>
   alarm_db_slot list \<times> 'w \<Rightarrow> alarm_db_slot list \<times> 'w" where
  "change_scan api sk rd (en # ens) (p # ps) (dbs, w) =
     change_scan api sk rd ens ps
       (if rd (alarm_device_address en) = p then (dbs, w)
        else alarm_manager_handle_event api (Some en) (rd (alarm_device_address en))
               ALARM_EVENT_TRIGGER (Some sk) dbs w)"
| "change_scan api sk rd _ _ (dbs, w) = (dbs, w)"

lemma pool_read_row:
  assumes "profile_wf p" and "m \<in> set (rows p)"
  shows "pool_read_by_device_addr (Some p) pl (device_address m) = Some (pl (pool_address m))"
  using assms profile_wf_pool [OF assms]
  by (simp add: pool_read_by_device_addr_def slots.lookup_complete pool_read_register_def not_le)

lemma alarm_env_forward:
  "ae_pool (forward_to_manager api sk en v ev e) = ae_pool e"
  by (auto simp: forward_to_manager_def split: prod.splits)

lemma alarm_env_forward_pair:
  "(ae_dbs (forward_to_manager api sk en v ev e), ae_world (forward_to_manager api sk en v ev e)) =
   alarm_manager_handle_event api (Some en) v ev (Some sk) (ae_dbs e) (ae_world e)"
  by (auto simp: forward_to_manager_def split: prod.splits)

lemma alarm_env_forward_update:
  "(forward_to_manager api sk en v ev e)\<lparr>ae_dbs := d, ae_world := w\<rparr> = e\<lparr>ae_dbs := d, ae_world := w\<rparr>"
  by (auto simp: forward_to_manager_def split: prod.splits)

lemma change_loop:
  assumes "list_all (\<lambda>en. alarm_condition en = ALARM_COND_CHANGE \<and>
      pool_read_by_device_addr (Some p) (ae_pool e) (alarm_device_address en) =
        Some (rd (alarm_device_address en))) ens"
    and "length sts = length ens"
  shows "alarm_loop (alarm_read_register p) (forward_to_manager api sk) ens sts e =
    (let (dbs, w) = change_scan api sk rd ens (map prev_value sts) (ae_dbs e, ae_world e)
     in (map2 (\<lambda>st en. st\<lparr>prev_value := rd (alarm_device_address en)\<rparr>) sts ens,
         e\<lparr>ae_dbs := dbs, ae_world := w\<rparr>))"
  using assms(2,1)
proof (induction sts ens arbitrary: e rule: list_induct2)
  case Nil
  then show ?case by simp
next
  case (Cons st sts en ens)
  let ?v = "rd (alarm_device_address en)"
  let ?e1 = "if ?v = prev_value st then e else forward_to_manager api sk en ?v ALARM_EVENT_TRIGGER e"
  have step: "alarm_entry_step (alarm_read_register p) (forward_to_manager api sk) en st e =
      (st\<lparr>prev_value := ?v\<rparr>, ?e1)"
    using Cons.prems by (simp add: alarm_entry_step_def alarm_read_register_def eval_change_def)
  have "ae_pool ?e1 = ae_pool e" by (simp add: alarm_env_forward)
  with Cons.prems have "list_all (\<lambda>en. alarm_condition en = ALARM_COND_CHANGE \<and>
      pool_read_by_device_addr (Some p) (ae_pool ?e1) (alarm_device_address en) =
        Some (rd (alarm_device_address en))) ens" by simp
  note IH = Cons.IH [OF this]
  have pair: "(ae_dbs ?e1, ae_world ?e1) = (if ?v = prev_value st then (ae_dbs e, ae_world e)
      else alarm_manager_handle_event api (Some en) ?v ALARM_EVENT_TRIGGER (Some sk) (ae_dbs e) (ae_world e))"
    by (simp only: alarm_env_forward_pair split: if_split) simp
  have upd: "?e1\<lparr>ae_dbs := d, ae_world := w\<rparr> = e\<lparr>ae_dbs := d, ae_world := w\<rparr>" for d w
    by (simp add: alarm_env_forward_update)
  obtain d w where cs: "change_scan api sk rd ens (map prev_value sts) (ae_dbs ?e1, ae_world ?e1) = (d, w)"
    by fastforce
  then have "change_scan api sk rd (en # ens) (map prev_value (st # sts)) (ae_dbs e, ae_world e) = (d, w)"
    by (simp only: pair list.map change_scan.simps)
  moreover have "alarm_loop (alarm_read_register p) (forward_to_manager api sk) ens sts ?e1 =
      (map2 (\<lambda>st en. st\<lparr>prev_value := rd (alarm_device_address en)\<rparr>) sts ens, e\<lparr>ae_dbs := d, ae_world := w\<rparr>)"
    by (simp only: IH cs Let_def prod.case upd)
  ultimately show ?case by (simp only: alarm_loop.simps step Let_def prod.case zip_Cons_Cons list.map)
qed

lemma map2_const_states:
  "length sts = length ens \<Longrightarrow>
   map (prev_value \<circ> (\<lambda>(st, en). st\<lparr>prev_value := f en\<rparr>)) (zip sts ens) = map f ens"
  by (induction sts ens rule: list_induct2) auto

definition pool_value :: "device_map_profile \<Rightarrow> pool \<Rightarrow> u16 \<Rightarrow> u16" where
  "pool_value p pl a = (case pool_read_by_device_addr (Some p) pl a of Some v \<Rightarrow> v | None \<Rightarrow> 0)"

definition unit_alarm_ok :: "device_map_profile \<Rightarrow> alarm_entry list \<Rightarrow> bool" where
  "unit_alarm_ok p t \<longleftrightarrow> list_all (\<lambda>en. alarm_condition en = ALARM_COND_CHANGE \<and>
     alarm_device_address en \<in> device_address ` set (rows p)) t"

lemma inverter_alarm_ok: "unit_alarm_ok inverter1_profile inverter_alarm_table"
  by (simp add: unit_alarm_ok_def inverter_alarm_table_def inverter1_rows inverter1_mapping_table_def)

lemma ups_alarm_ok: "unit_alarm_ok ups1_profile ups_alarm_table"
  by (simp add: unit_alarm_ok_def ups_alarm_table_def ups1_rows ups1_mapping_table_def)

lemma unit_alarm_readable:
  assumes "profile_wf p" and "unit_alarm_ok p t"
  shows "list_all (\<lambda>en. alarm_condition en = ALARM_COND_CHANGE \<and>
      pool_read_by_device_addr (Some p) pl (alarm_device_address en) =
        Some (pool_value p pl (alarm_device_address en))) t"
  using assms by (fastforce simp: unit_alarm_ok_def list_all_iff pool_value_def pool_read_row)

text \<open>
  C37. A scan of an inverter or UPS context never finds a register unavailable: it compares
  every watched register of the unit's profile with the value of the previous scan, hands
  exactly the changed ones, in table order, to the alarm manager as TRIGGER events with the
  new value, and remembers all current values; the pool is only read.
\<close>

theorem unit_alarm_scan:
  assumes ctx: "(c = inverter_alarm_ctx api \<and> p = inverter1_profile \<and> t = inverter_alarm_table \<and>
        sk = inverter_alarm_sink) \<or>
      (c = ups_alarm_ctx api \<and> p = ups1_profile \<and> t = ups_alarm_table \<and> sk = ups_alarm_sink)"
    and len: "length sts = length t"
    and run: "alarm_engine_run (c\<lparr>alarm_states := Some sts\<rparr>) e = (c', e')"
  shows "(ae_dbs e', ae_world e') =
      change_scan api sk (pool_value p (ae_pool e)) t (map prev_value sts) (ae_dbs e, ae_world e) \<and>
    ae_pool e' = ae_pool e \<and>
    map prev_value (the (alarm_states c')) = map (\<lambda>en. pool_value p (ae_pool e) (alarm_device_address en)) t"
proof -
  have ok: "profile_wf p \<and> unit_alarm_ok p t \<and> t \<noteq> []"
    using ctx inverter1_wf ups1_wf inverter_alarm_ok ups_alarm_ok
    by (auto simp: inverter_alarm_table_def ups_alarm_table_def)
  have c: "c\<lparr>alarm_states := Some sts\<rparr> = \<lparr>alarm_table = Some t, alarm_states = Some sts,
      alarm_count = length t, read_fn = Some (alarm_read_register p),
      event_fn = Some (forward_to_manager api sk)\<rparr>"
    using ctx by (auto simp: inverter_alarm_ctx_def ups_alarm_ctx_def)
  from ok have r: "list_all (\<lambda>en. alarm_condition en = ALARM_COND_CHANGE \<and>
      pool_read_by_device_addr (Some p) (ae_pool e) (alarm_device_address en) =
        Some (pool_value p (ae_pool e) (alarm_device_address en))) t"
    by (simp add: unit_alarm_readable)
  show ?thesis
    using run ok len
    by (auto simp: c alarm_engine_run_def change_loop [OF r len] map2_const_states split: prod.splits)
qed

text \<open>A UPS scan in which one of the four warnings has changed.\<close>

theorem unit_alarm_scan_witness:
  "let e = \<lparr>ae_pool = \<lambda>_. 0, ae_dbs = [], ae_world = \<lambda>_. 0\<rparr>;
       sts = map (\<lambda>v. \<lparr>is_active = False, prev_value = v\<rparr>) [0, 9, 0, 0, 0, 0]
   in ae_world (snd (alarm_engine_run ((ups_alarm_ctx counting_sqlite)\<lparr>alarm_states := Some sts\<rparr>) e)) =
      (\<lambda>_. 0)(length (the (log_path ups_alarm_sink)) := 1)"
proof -
  let ?e = "\<lparr>ae_pool = \<lambda>_. 0, ae_dbs = [], ae_world = \<lambda>_. 0\<rparr> :: (nat \<Rightarrow> nat) alarm_env"
  let ?sts = "map (\<lambda>v. \<lparr>is_active = False, prev_value = v\<rparr>) [0, 9, 0, 0, 0, 0]"
  obtain c' e' where r: "alarm_engine_run ((ups_alarm_ctx counting_sqlite)\<lparr>alarm_states := Some ?sts\<rparr>) ?e = (c', e')"
    by fastforce
  have "pool_value ups1_profile (\<lambda>_. 0) a = 0" for a
    by (auto simp: pool_value_def pool_read_by_device_addr_def pool_read_register_def split: option.splits)
  then have "ae_world e' = (\<lambda>_. 0)(length (the (log_path ups_alarm_sink)) := 1)"
    using unit_alarm_scan [OF _ _ r, where p = ups1_profile and t = ups_alarm_table and sk = ups_alarm_sink and api = counting_sqlite]
    by (simp add: ups_alarm_table_def alarm_manager_handle_event_def
        ups_alarm_sink_def find_or_open_db_def counting_sqlite_def ensure_log_dir_def write_log_def)
  with r show ?thesis by (simp add: Let_def)
qed

end
