(* ===== verification/C_Numbers.thy ===== *)
theory C_Numbers
  imports Complex_Main Gateway_Base
begin

text \<open>
  What the bridges use of the C library's number conversions: \<^verbatim>\<open>strtoul\<close> with base 0,
  \<^verbatim>\<open>strtof\<close>, \<^verbatim>\<open>atof\<close>, single- and double-precision rounding, and the formats \<^verbatim>\<open>%u\<close> and \<^verbatim>\<open>%.2f\<close>. Strings are C
  strings in ASCII, \<^verbatim>\<open>unsigned long\<close> has 64 bits. A finite single is a sign, a significand and
  a power of two; arithmetic rounds to the nearest, ties to even.
\<close>

section \<open>Digits\<close>

definition code_of :: "char \<Rightarrow> nat" where
  "code_of c = of_char c"

definition digit_value :: "char \<Rightarrow> nat" where
  "digit_value c =
     (let k = code_of c
      in if 48 \<le> k \<and> k \<le> 57 then k - 48
         else if 97 \<le> k \<and> k \<le> 122 then k - 87
         else if 65 \<le> k \<and> k \<le> 90 then k - 55 else 99)"

definition is_digit :: "nat \<Rightarrow> char \<Rightarrow> bool" where
  "is_digit base c \<longleftrightarrow> digit_value c < base"

definition is_space :: "char \<Rightarrow> bool" where
  "is_space c \<longleftrightarrow> code_of c = 32 \<or> 9 \<le> code_of c \<and> code_of c \<le> 13"

fun digits_value :: "nat \<Rightarrow> nat \<Rightarrow> string \<Rightarrow> nat" where
  "digits_value base acc [] = acc"
| "digits_value base acc (c # cs) = digits_value base (acc * base + digit_value c) cs"

definition digit_char :: "nat \<Rightarrow> char" where
  "digit_char n = char_of (48 + n)"

fun show_nat :: "nat \<Rightarrow> string" where
  "show_nat n = (if n < 10 then [digit_char n] else show_nat (n div 10) @ [digit_char (n mod 10)])"

declare show_nat.simps [simp del]

definition split_sign :: "string \<Rightarrow> bool \<times> string" where
  "split_sign s =
     (case s of
        [] \<Rightarrow> (False, [])
      | c # cs \<Rightarrow> if c = CHR ''-'' then (True, cs) else if c = CHR ''+'' then (False, cs) else (False, s))"

definition lower_char :: "char \<Rightarrow> char" where
  "lower_char c = (if 65 \<le> code_of c \<and> code_of c \<le> 90 then char_of (code_of c + 32) else c)"

text \<open>A prefix \<open>0x\<close> counts only with a hexadecimal digit behind it; \<open>strtof\<close> allows a point
  in between.\<close>

definition hex_prefix :: "string \<Rightarrow> bool" where
  "hex_prefix s =
     (case s of z # x # c # _ \<Rightarrow> z = CHR ''0'' \<and> lower_char x = CHR ''x'' \<and> is_digit 16 c | _ \<Rightarrow> False)"

section \<open>Unsigned integers\<close>

definition strtoul :: "string \<Rightarrow> nat" where
  "strtoul s =
     (let (neg, t) = split_sign (dropWhile is_space s);
          (base, ds) = (if hex_prefix t then (16, drop 2 t)
                        else if t \<noteq> [] \<and> hd t = CHR ''0'' then (8, t) else (10, t));
          v = digits_value base 0 (takeWhile (is_digit base) ds)
      in if 2 ^ 64 \<le> v then 2 ^ 64 - 1 else if neg then (2 ^ 64 - v) mod 2 ^ 64 else v)"

text \<open>The conversion \<^verbatim>\<open>(uint16_t)strtoul(value, NULL, 0)\<close>.\<close>

definition parse_u16 :: "string \<Rightarrow> u16" where
  "parse_u16 s = of_nat (strtoul s)"

text \<open>\<^verbatim>\<open>atoi\<close> is \<^verbatim>\<open>(int)strtol(s, NULL, 10)\<close>, here converted on to the 32-bit level.\<close>

definition strtol10 :: "string \<Rightarrow> int" where
  "strtol10 s =
     (let (neg, t) = split_sign (dropWhile is_space s); v = int (digits_value 10 0 (takeWhile (is_digit 10) t))
      in if neg then max (- (2 ^ 63)) (- v) else min (2 ^ 63 - 1) v)"

definition atoi :: "string \<Rightarrow> 32 word" where
  "atoi s = of_int (strtol10 s)"

section \<open>Singles\<close>

datatype c_float = Finite bool nat int | Not_finite

definition round_half_even :: "nat \<Rightarrow> nat \<Rightarrow> nat" where
  "round_half_even a b =
     (let q = a div b; r = a mod b in if 2 * r > b \<or> 2 * r = b \<and> odd q then q + 1 else q)"

fun ilog2 :: "nat \<Rightarrow> nat" where
  "ilog2 n = (if n < 2 then 0 else Suc (ilog2 (n div 2)))"

declare ilog2.simps [simp del]

text \<open>The exponent of the largest power of two that is at most \<open>n / d\<close>.\<close>

definition frac_log2 :: "nat \<Rightarrow> nat \<Rightarrow> int" where
  "frac_log2 n d =
     (if d \<le> n then int (ilog2 (n div d)) else - int (Suc (ilog2 ((n + d - 1) div n - 1))))"

text \<open>The single nearest to \<open>n / d\<close>: 24 bits of significand, exponent at least -149.\<close>

definition round_single :: "bool \<Rightarrow> nat \<Rightarrow> nat \<Rightarrow> c_float" where
  "round_single neg n d =
     (if n = 0 then Finite neg 0 0
      else
        let e = max (frac_log2 n d - 23) (-149);
            m = (if 0 \<le> e then round_half_even n (d * 2 ^ nat e) else round_half_even (n * 2 ^ nat (- e)) d)
        in if 2 ^ 128 \<le> (if 0 \<le> e then m * 2 ^ nat e else m div 2 ^ nat (- e)) then Not_finite
           else Finite neg m e)"

text \<open>The double nearest to \<open>n / d\<close>: 53 bits of significand, exponent at least -1074.\<close>

definition round_double :: "bool \<Rightarrow> nat \<Rightarrow> nat \<Rightarrow> c_float" where
  "round_double neg n d =
     (if n = 0 then Finite neg 0 0
      else
        let e = max (frac_log2 n d - 52) (-1074);
            m = (if 0 \<le> e then round_half_even n (d * 2 ^ nat e) else round_half_even (n * 2 ^ nat (- e)) d)
        in if 2 ^ 1024 \<le> (if 0 \<le> e then m * 2 ^ nat e else m div 2 ^ nat (- e)) then Not_finite
           else Finite neg m e)"

text \<open>\<open>m * 2 ^ e * k\<close> as a fraction.\<close>

definition scale_num :: "nat \<Rightarrow> int \<Rightarrow> nat \<Rightarrow> nat" where
  "scale_num m e k = (if 0 \<le> e then m * k * 2 ^ nat e else m * k)"

definition scale_den :: "int \<Rightarrow> nat" where
  "scale_den e = (if 0 \<le> e then 1 else 2 ^ nat (- e))"

definition float_times :: "c_float \<Rightarrow> nat \<Rightarrow> c_float" where
  "float_times x k =
     (case x of Not_finite \<Rightarrow> Not_finite | Finite neg m e \<Rightarrow> round_single neg (scale_num m e k) (scale_den e))"

text \<open>The cast to \<^verbatim>\<open>uint16_t\<close> is undefined, \<^const>\<open>None\<close>, unless the truncated value is in range.\<close>

definition float_to_u16 :: "c_float \<Rightarrow> u16 option" where
  "float_to_u16 x =
     (case x of
        Not_finite \<Rightarrow> None
      | Finite neg m e \<Rightarrow>
          (let t = scale_num m e 1 div scale_den e
           in if t = 0 then Some 0 else if neg \<or> 65535 < t then None else Some (of_nat t)))"

text \<open>\<^verbatim>\<open>(float)d / 100.0f\<close> and the format \<^verbatim>\<open>%.2f\<close> of a non-negative single.\<close>

definition hundredths :: "u16 \<Rightarrow> c_float" where
  "hundredths d = round_single False (unat d) 100"

definition show_fixed2 :: "nat \<Rightarrow> string" where
  "show_fixed2 h = show_nat (h div 100) @ [CHR ''.'', digit_char (h div 10 mod 10), digit_char (h mod 10)]"

definition format_2f :: "c_float \<Rightarrow> string" where
  "format_2f x =
     (case x of
        Not_finite \<Rightarrow> ''inf''
      | Finite neg m e \<Rightarrow> (if neg then ''-'' else []) @
          show_fixed2 (round_half_even (scale_num m e 100) (scale_den e)))"

section \<open>Reading a single\<close>

text \<open>The decimal exponent after \<open>e\<close>, the binary one after \<open>p\<close>: 0 when no digit follows.\<close>

definition exponent_of :: "char \<Rightarrow> string \<Rightarrow> int" where
  "exponent_of mark s =
     (case s of
        [] \<Rightarrow> 0
      | c # cs \<Rightarrow>
          if lower_char c \<noteq> mark then 0
          else
            (let (neg, t) = split_sign cs; v = int (digits_value 10 0 (takeWhile (is_digit 10) t))
             in if neg then - v else v))"

text \<open>Integer digits, an optional point with more digits, an optional exponent; \<open>base\<close> is 10
  or 16, a fractional digit counts \<open>base ^ -1\<close> and the exponent is of \<open>ebase\<close>.\<close>

definition read_fraction ::
  "(bool \<Rightarrow> nat \<Rightarrow> nat \<Rightarrow> c_float) \<Rightarrow> nat \<Rightarrow> nat \<Rightarrow> char \<Rightarrow> bool \<Rightarrow> string \<Rightarrow> c_float" where
  "read_fraction rnd base ebase mark neg s =
     (let ip = takeWhile (is_digit base) s; r1 = dropWhile (is_digit base) s;
          fp = (if r1 \<noteq> [] \<and> hd r1 = CHR ''.'' then takeWhile (is_digit base) (tl r1) else []);
          r2 = (if r1 \<noteq> [] \<and> hd r1 = CHR ''.'' then dropWhile (is_digit base) (tl r1) else r1)
      in if ip @ fp = [] then Finite False 0 0
         else
           let n = digits_value base 0 (ip @ fp); d = base ^ length fp; x = exponent_of mark r2
           in if 0 \<le> x then rnd neg (n * ebase ^ nat x) d
              else rnd neg n (d * ebase ^ nat (- x)))"

definition read_number :: "(bool \<Rightarrow> nat \<Rightarrow> nat \<Rightarrow> c_float) \<Rightarrow> string \<Rightarrow> c_float" where
  "read_number rnd s =
     (let (neg, t) = split_sign (dropWhile is_space s);
          l = map lower_char (take 3 t)
      in if l = ''inf'' \<or> l = ''nan'' then Not_finite
         else if hex_prefix t \<or>
              (hex_prefix (take 2 t @ drop 3 t) \<and> t ! 2 = CHR ''.'') then read_fraction rnd 16 2 CHR ''p'' neg (drop 2 t)
         else read_fraction rnd 10 10 CHR ''e'' neg t)"

definition strtof :: "string \<Rightarrow> c_float" where
  "strtof s = read_number round_single s"

text \<open>\<^verbatim>\<open>(float)atof(s)\<close>: a double, rounded once more.\<close>

definition atof_single :: "string \<Rightarrow> c_float" where
  "atof_single s =
     (case read_number round_double s of
        Not_finite \<Rightarrow> Not_finite | Finite neg m e \<Rightarrow> round_single neg (scale_num m e 1) (scale_den e))"

text \<open>The conversion of \<^verbatim>\<open>on_main_pump_duty_cmd\<close>: \<^verbatim>\<open>(uint16_t)(strtof(value, NULL) * 100u)\<close>.\<close>

definition parse_duty :: "string \<Rightarrow> u16 option" where
  "parse_duty s = float_to_u16 (float_times (strtof s) 100)"

section \<open>Rounding\<close>

lemma round_half_even_error:
  assumes "0 < b"
  shows "\<bar>real (round_half_even a b) - real a / real b\<bar> \<le> 1 / 2"
proof -
  have ab: "real a = real b * real (a div b) + real (a mod b)"
    by (metis mult_div_mod_eq of_nat_add of_nat_mult)
  have "real a / real b = real (a div b) + real (a mod b) / real b"
    using assms by (simp add: ab field_simps)
  moreover have "2 * (a mod b) \<le> b \<Longrightarrow> real (a mod b) / real b \<le> 1 / 2"
    using assms by (simp add: field_simps)
  moreover have "b \<le> 2 * (a mod b) \<Longrightarrow> 1 / 2 \<le> real (a mod b) / real b"
    using assms by (simp add: field_simps)
  moreover have "real (a mod b) / real b \<le> 1"
    using assms by (simp add: less_imp_le)
  moreover have "0 \<le> real (a mod b) / real b" by simp
  ultimately show ?thesis unfolding round_half_even_def Let_def by (auto split: if_splits)
qed

lemma round_half_even_unique:
  assumes "0 < b" and "\<bar>real a / real b - real k\<bar> < 1 / 2"
  shows "round_half_even a b = k"
proof -
  have "\<bar>real (round_half_even a b) - real k\<bar> < 1"
    using round_half_even_error [OF assms(1), of a] assms(2) by linarith
  then show ?thesis by linarith
qed

lemma ilog2_bounds: "0 < n \<Longrightarrow> 2 ^ ilog2 n \<le> n \<and> n < 2 ^ Suc (ilog2 n)"
proof (induction n rule: ilog2.induct)
  case (1 n)
  show ?case
  proof (cases "n < 2")
    case True
    with 1 have "n = 1" by simp
    then show ?thesis by (simp add: ilog2.simps)
  next
    case False
    then have "ilog2 n = Suc (ilog2 (n div 2))" "0 < n div 2" by (subst ilog2.simps, simp_all)
    with 1(1) [OF False] show ?thesis by auto
  qed
qed

lemma two_powr_int: "(2::real) powr of_int k = (if 0 \<le> k then 2 ^ nat k else 1 / 2 ^ nat (- k))"
proof (cases "0 \<le> k")
  case True
  then have "real_of_int k = real (nat k)" by simp
  then have "(2::real) powr of_int k = 2 powr real (nat k)" by (rule arg_cong)
  also have "\<dots> = 2 ^ nat k" by (simp only: powr_realpow zero_less_numeral)
  finally show ?thesis using True by simp
next
  case False
  then have "real_of_int k = - real (nat (- k))" by simp
  then have "(2::real) powr of_int k = 2 powr (- real (nat (- k)))" by (rule arg_cong)
  also have "\<dots> = 1 / 2 ^ nat (- k)" by (simp only: powr_minus_divide powr_realpow zero_less_numeral)
  finally show ?thesis using False by simp
qed

lemma frac_log2_bounds:
  assumes "0 < n" and "0 < d"
  shows "2 powr of_int (frac_log2 n d) \<le> real n / real d" and "real n / real d < 2 * 2 powr of_int (frac_log2 n d)"
proof -
  have "2 powr of_int (frac_log2 n d) \<le> real n / real d \<and> real n / real d < 2 * 2 powr of_int (frac_log2 n d)"
  proof (cases "d \<le> n")
    case True
    let ?k = "ilog2 (n div d)"
    have q: "0 < n div d" using True assms by (simp add: div_greater_zero_iff)
    from ilog2_bounds [OF q] have b: "2 ^ ?k \<le> n div d" "n div d < 2 * 2 ^ ?k" by auto
    have "2 ^ ?k * d \<le> n" using b(1) by (meson div_times_less_eq_dividend le_trans mult_le_mono1)
    moreover have "n < 2 * 2 ^ ?k * d" using b(2) assms(2) by (simp add: less_mult_imp_div_less div_less_iff_less_mult)
    ultimately have "real (2 ^ ?k * d) \<le> real n" "real n < real (2 * 2 ^ ?k * d)"
      unfolding of_nat_le_iff of_nat_less_iff by simp_all
    then show ?thesis using True assms(2) by (simp add: frac_log2_def powr_realpow field_simps)
  next
    case False
    let ?c = "(n + d - 1) div n" and ?k = "ilog2 ((n + d - 1) div n - 1)"
    have "n + d - 1 = (d - 1) + n" using assms by simp
    then have c: "?c = Suc ((d - 1) div n)" using assms(1) by (simp only: div_add_self2 Suc_eq_plus1)
    have q: "0 < (d - 1) div n" using False assms by (simp add: div_greater_zero_iff)
    from ilog2_bounds [OF q] c have b: "2 ^ ?k \<le> (d - 1) div n" "(d - 1) div n < 2 * 2 ^ ?k" by auto
    have "2 ^ ?k * n \<le> d - 1" using b(1) by (meson div_times_less_eq_dividend le_trans mult_le_mono1)
    then have l: "2 ^ ?k * n < d" using assms(2) by simp
    have "d - 1 < 2 * 2 ^ ?k * n" using b(2) assms(1) by (simp add: div_less_iff_less_mult)
    then have u: "d \<le> 2 * 2 ^ ?k * n" by simp
    from l u have "real (2 ^ ?k * n) < real d" "real d \<le> real (2 * 2 ^ ?k * n)"
      unfolding of_nat_le_iff of_nat_less_iff by simp_all
    then have "1 / (2 * 2 ^ ?k) \<le> real n / real d" "real n / real d < 1 / 2 ^ ?k"
      using assms by (simp_all add: field_simps)
    moreover have "frac_log2 n d = - int (Suc ?k)" using False by (simp add: frac_log2_def)
    then have "(2::real) powr of_int (frac_log2 n d) = 1 / 2 ^ Suc ?k"
      using two_powr_int [of "- int (Suc ?k)"] by (simp only: minus_minus nat_int) simp
    ultimately show ?thesis by simp
  qed
  then show "2 powr of_int (frac_log2 n d) \<le> real n / real d" "real n / real d < 2 * 2 powr of_int (frac_log2 n d)"
    by simp_all
qed

lemma scale_value: "real (scale_num m e k) / real (scale_den e) = real m * 2 powr of_int e * real k"
  by (simp add: scale_num_def scale_den_def two_powr_int)

lemma scale_den_pos [simp]: "0 < scale_den e"
  by (simp add: scale_den_def)

lemma part_le: "0 \<le> (x::real) \<Longrightarrow> x / 2 ^ 24 \<le> x"
  by simp

lemma scaled_error:
  fixes a c x :: real
  assumes "0 < c" and "\<bar>a - x / c\<bar> \<le> 1 / 2"
  shows "\<bar>a * c - x\<bar> \<le> c / 2"
proof -
  have "a * c - x = (a - x / c) * c" using assms(1) by (simp add: left_diff_distrib)
  then have "\<bar>a * c - x\<bar> = \<bar>a - x / c\<bar> * c" using assms(1) by (simp add: abs_mult)
  also have "\<dots> \<le> 1 / 2 * c" using assms by (intro mult_right_mono) simp_all
  finally show ?thesis by simp
qed

text \<open>Where neither underflow nor overflow is near, a rounded fraction is off by at most one
  part in \<open>2 ^ 24\<close>.\<close>

lemma round_single_error:
  assumes "0 < n" and "0 < d" and "2 powr - 100 \<le> real n / real d" and "real n / real d \<le> 2 ^ 100"
  shows "\<exists>m e. round_single neg n d = Finite neg m e \<and>
    \<bar>real m * 2 powr of_int e - real n / real d\<bar> \<le> real n / real d / 2 ^ 24"
proof -
  let ?x = "real n / real d" and ?e = "frac_log2 n d - 23"
  note b = frac_log2_bounds [OF assms(1,2)]
  have "(2::real) powr - 101 * 2 = 2 powr - 100" by (simp add: powr_minus_divide)
  with b(2) assms(3) have "(2::real) powr - 101 < 2 powr of_int (frac_log2 n d)" by linarith
  then have lo: "-101 < frac_log2 n d" by (simp del: powr_numeral)
  then have e: "max ?e (-149) = ?e" by simp
  define m where "m = (if 0 \<le> ?e then round_half_even n (d * 2 ^ nat ?e) else round_half_even (n * 2 ^ nat (- ?e)) d)"
  have ulp: "2 powr of_int ?e \<le> ?x / 2 ^ 23"
    using b(1) by (simp add: powr_diff)
  have "\<bar>real m * 2 powr of_int ?e - ?x\<bar> \<le> 2 powr of_int ?e / 2"
  proof (cases "0 \<le> ?e")
    case True
    have "\<bar>real m - real n / real (d * 2 ^ nat ?e)\<bar> \<le> 1 / 2"
      using round_half_even_error [of "d * 2 ^ nat ?e" n] assms(2) True by (simp only: m_def if_True) simp
    then have "\<bar>real m - ?x / 2 powr of_int ?e\<bar> \<le> 1 / 2" using True by (simp only: two_powr_int if_True) (simp add: field_simps)
    then show ?thesis by (rule scaled_error [rotated]) simp
  next
    case False
    have "\<bar>real m - real (n * 2 ^ nat (- ?e)) / real d\<bar> \<le> 1 / 2"
      using round_half_even_error [OF assms(2), of "n * 2 ^ nat (- ?e)"] False by (simp only: m_def if_False)
    then have "\<bar>real m - ?x / 2 powr of_int ?e\<bar> \<le> 1 / 2" using False by (simp only: two_powr_int if_False) (simp add: field_simps)
    then show ?thesis by (rule scaled_error [rotated]) simp
  qed
  then have err: "\<bar>real m * 2 powr of_int ?e - ?x\<bar> \<le> ?x / 2 ^ 24" using ulp by simp
  let ?t = "if 0 \<le> ?e then m * 2 ^ nat ?e else m div 2 ^ nat (- ?e)"
  have "real ?t \<le> real m * 2 powr of_int ?e"
  proof (cases "0 \<le> ?e")
    case False
    have "real (m div 2 ^ nat (- ?e)) \<le> real m / real (2 ^ nat (- ?e))" by (rule of_nat_div_le_of_nat)
    with False show ?thesis unfolding two_powr_int by simp
  qed (simp add: two_powr_int del: of_int_diff)
  also have "\<dots> \<le> ?x + ?x / 2 ^ 24" using err by linarith
  also have "\<dots> < 2 ^ 128"
  proof -
    have "0 \<le> ?x" by simp
    then have "?x / 2 ^ 24 \<le> ?x" by (rule part_le)
    moreover have "(2::real) ^ 100 + 2 ^ 100 < 2 ^ 128" by simp
    ultimately show ?thesis using assms(4) by linarith
  qed
  finally have "\<not> 2 ^ 128 \<le> ?t" by (metis linorder_not_le of_nat_le_iff of_nat_numeral of_nat_power)
  then have "round_single neg n d = Finite neg m ?e"
    using assms(1) unfolding round_single_def Let_def e m_def [symmetric] by simp
  with err show ?thesis by blast
qed

section \<open>Duties\<close>

lemma powr_minus_100: "(2::real) powr - 100 = 1 / 2 ^ 100"
  using two_powr_int [of "-100"] by simp

lemma small_part: "(x::real) \<le> 20000 \<Longrightarrow> x / 2 ^ 24 \<le> 1 / 800"
  by simp

lemma hundredths_value:
  assumes "0 < d" and "d \<le> 10000"
  shows "\<exists>m e. round_single neg d 100 = Finite neg m e \<and> \<bar>real m * 2 powr of_int e * 100 - real d\<bar> \<le> real d / 2 ^ 24"
proof -
  have "1 / 100 \<le> real d / real (100::nat)" "real d / real (100::nat) \<le> 100" using assms by simp_all
  moreover have "(2::real) powr - 100 \<le> 1 / 100" unfolding powr_minus_100 by simp
  moreover have "(100::real) \<le> 2 ^ 100" by simp
  ultimately have "2 powr - 100 \<le> real d / real (100::nat)" "real d / real (100::nat) \<le> 2 ^ 100" by linarith+
  from round_single_error [OF assms(1) _ this, of neg] obtain m e where r: "round_single neg d 100 = Finite neg m e"
    "\<bar>real m * 2 powr of_int e - real d / 100\<bar> \<le> real d / 100 / 2 ^ 24" by auto
  have "real m * 2 powr of_int e * 100 - real d = 100 * (real m * 2 powr of_int e - real d / 100)" by simp
  then have "\<bar>real m * 2 powr of_int e * 100 - real d\<bar> = 100 * \<bar>real m * 2 powr of_int e - real d / 100\<bar>"
    by (simp only: abs_mult abs_numeral)
  with r have "\<bar>real m * 2 powr of_int e * 100 - real d\<bar> \<le> real d / 2 ^ 24" by simp
  with r(1) show ?thesis by blast
qed

lemma round_single_zero [simp]: "round_single neg 0 d = Finite neg 0 0"
  by (simp add: round_single_def)

text \<open>Hundredths print as such.\<close>

lemma format_hundredths:
  assumes "unat d \<le> 10000"
  shows "format_2f (hundredths d) = show_fixed2 (unat d)"
proof (cases "unat d = 0")
  case True
  then show ?thesis by (simp add: hundredths_def format_2f_def round_half_even_def scale_num_def scale_den_def)
next
  case False
  from hundredths_value [of "unat d" False] False assms obtain m e where r: "round_single False (unat d) 100 = Finite False m e"
    "\<bar>real m * 2 powr of_int e * 100 - real (unat d)\<bar> \<le> real (unat d) / 2 ^ 24" by blast
  have "real (unat d) \<le> 20000" using assms by linarith
  from small_part [OF this] have "real (unat d) / 2 ^ 24 < 1 / 2" by linarith
  with r(2) have "\<bar>real (scale_num m e 100) / real (scale_den e) - real (unat d)\<bar> < 1 / 2" by (simp add: scale_value)
  then have "round_half_even (scale_num m e 100) (scale_den e) = unat d" by (rule round_half_even_unique [rotated]) simp
  with r(1) show ?thesis by (simp add: hundredths_def format_2f_def)
qed

text \<open>Multiplying a hundredth by 100 and truncating gives it back, or one less.\<close>

lemma truncated_hundredths:
  assumes "d \<le> 10000"
  shows "float_to_u16 (float_times (round_single False d 100) 100) \<in> {Some (of_nat d), Some (of_nat (d - 1))}"
proof (cases "d = 0")
  case True
  then show ?thesis by (simp add: float_times_def scale_num_def float_to_u16_def)
next
  case False
  from hundredths_value [of d False] False assms obtain m e where r: "round_single False d 100 = Finite False m e"
    "\<bar>real m * 2 powr of_int e * 100 - real d\<bar> \<le> real d / 2 ^ 24" by auto
  let ?n = "scale_num m e 100" and ?q = "scale_den e"
  let ?y = "real ?n / real ?q"
  have d: "1 \<le> real d" "real d \<le> 10000" using False assms by simp_all
  have y: "\<bar>?y - real d\<bar> \<le> real d / 2 ^ 24" using r(2) by (simp add: scale_value)
  have small: "real d / 2 ^ 24 \<le> 1 / 800" using small_part d by simp
  have ylo: "99 / 100 \<le> ?y" and yhi: "?y \<le> 10001" using y small d by linarith+
  have "0 < ?n"
  proof (rule ccontr)
    assume "\<not> 0 < ?n"
    with ylo show False by simp
  qed
  moreover have "(2::real) powr - 100 \<le> 99 / 100" unfolding powr_minus_100 by simp
  moreover have "(10001::real) \<le> 2 ^ 100" by simp
  ultimately obtain m2 e2 where r2: "round_single False ?n ?q = Finite False m2 e2"
    "\<bar>real m2 * 2 powr of_int e2 - ?y\<bar> \<le> ?y / 2 ^ 24"
    using round_single_error [of ?n ?q False] ylo yhi by fastforce
  have "?y / 2 ^ 24 \<le> 1 / 800" using small_part [of ?y] yhi by linarith
  with r2(2) y small have v: "real d - 1 < real m2 * 2 powr of_int e2" "real m2 * 2 powr of_int e2 < real d + 1"
    by linarith+
  define t where "t = scale_num m2 e2 1 div scale_den e2"
  have "real t = of_int \<lfloor>real m2 * 2 powr of_int e2\<rfloor>"
    using floor_divide_of_nat_eq [of "scale_num m2 e2 1" "scale_den e2", where ?'a = real]
    by (simp add: t_def scale_value)
  with v have "real d - 1 - 1 < real t" "real t < real d + 1" by linarith+
  then have t: "t = d \<or> t = d - 1" using False by linarith
  then have "t \<le> 65535" using assms by auto
  then have "float_to_u16 (Finite False m2 e2) = Some (of_nat t)"
    unfolding float_to_u16_def c_float.case t_def [symmetric] Let_def by simp
  with r(1) r2(1) t show ?thesis by (auto simp: float_times_def)
qed

section \<open>Printed numbers\<close>

lemma code_of_char [simp]: "n < 256 \<Longrightarrow> code_of (char_of n) = n"
  by (simp add: code_of_def)

lemma code_of_digit [simp]: "n < 10 \<Longrightarrow> code_of (digit_char n) = 48 + n"
  by (simp add: digit_char_def)

lemma digit_value_char [simp]: "n < 10 \<Longrightarrow> digit_value (digit_char n) = n"
  by (simp add: digit_value_def)

lemma digits_value_append: "digits_value b acc (xs @ ys) = digits_value b (digits_value b acc xs) ys"
  by (induction xs arbitrary: acc) simp_all

definition decimal :: "string \<Rightarrow> bool" where
  "decimal s \<longleftrightarrow> (\<forall>c\<in>set s. 48 \<le> code_of c \<and> code_of c \<le> 57)"

lemma decimal_simps [simp]:
  "decimal []" "decimal (c # s) \<longleftrightarrow> 48 \<le> code_of c \<and> code_of c \<le> 57 \<and> decimal s"
  "decimal (s @ t) \<longleftrightarrow> decimal s \<and> decimal t"
  by (auto simp: decimal_def)

lemma show_nat_decimal [simp]: "decimal (show_nat n)"
proof (induction n rule: show_nat.induct)
  case (1 n)
  have "n mod 10 \<le> 9" using mod_less_divisor [of 10 n] by linarith
  with 1 show ?case by (subst show_nat.simps) simp
qed

lemma show_nat_nonempty [simp]: "show_nat n \<noteq> []"
  by (subst show_nat.simps) simp

lemma digits_value_show [simp]: "digits_value 10 0 (show_nat n) = n"
proof (induction n rule: show_nat.induct)
  case (1 n)
  then show ?case by (subst show_nat.simps) (simp add: digits_value_append)
qed

lemma decimal_digits: "decimal s \<Longrightarrow> c \<in> set s \<Longrightarrow> is_digit 10 c"
  by (auto simp: decimal_def is_digit_def digit_value_def Let_def)

lemma take_decimal: "decimal s \<Longrightarrow> \<not> is_digit 10 (hd (t @ [CHR ''.''])) \<Longrightarrow> takeWhile (is_digit 10) (s @ t) = s"
  using decimal_digits [of s] by (subst takeWhile_append2) (auto simp: takeWhile_eq_Nil_iff)

lemma drop_decimal: "decimal s \<Longrightarrow> \<not> is_digit 10 (hd (t @ [CHR ''.''])) \<Longrightarrow> dropWhile (is_digit 10) (s @ t) = t"
  using decimal_digits [of s] by (subst dropWhile_append2) (auto simp: dropWhile_eq_self_iff)

lemma point_code: "code_of CHR ''.'' = 46" "code_of CHR ''-'' = 45" "code_of CHR ''+'' = 43" "code_of CHR ''x'' = 120"
  by (simp_all add: code_of_def)

lemma point_no_digit [simp]: "\<not> is_digit 10 CHR ''.''"
  by (simp add: is_digit_def digit_value_def point_code)

lemma decimal_char_neq:
  assumes "48 \<le> code_of c" and "code_of c \<le> 57"
  shows "c \<noteq> CHR ''-''" "c \<noteq> CHR ''+''" "\<not> is_space c" "lower_char c = c" "c \<noteq> CHR ''x''"
    "c \<noteq> CHR ''i''" "c \<noteq> CHR ''n''"
  using assms by (auto simp: is_space_def lower_char_def code_of_def)

text \<open>A decimal number followed by a point and digits is read as a fraction.\<close>

lemma strtof_decimal:
  assumes "decimal s" and "s \<noteq> []" and "decimal f"
  shows "strtof (s @ CHR ''.'' # f) = round_single False (digits_value 10 0 (s @ f)) (10 ^ length f)"
proof -
  obtain c s' where s: "s = c # s'" using assms(2) by (cases s) auto
  with assms(1) have c: "48 \<le> code_of c" "code_of c \<le> 57" by simp_all
  have sp: "dropWhile is_space (s @ CHR ''.'' # f) = s @ CHR ''.'' # f"
    using decimal_char_neq(3) [OF c] s by simp
  have sg: "split_sign (s @ CHR ''.'' # f) = (False, s @ CHR ''.'' # f)"
    using decimal_char_neq(1,2) [OF c] s by (simp add: split_sign_def)
  obtain x t where x: "s' @ CHR ''.'' # f = x # t" by (cases s') auto
  have "lower_char x \<noteq> CHR ''x''"
  proof (cases s')
    case Nil
    with x show ?thesis by (auto simp: lower_char_def point_code)
  next
    case (Cons a u)
    with assms(1) s have "48 \<le> code_of a" "code_of a \<le> 57" by simp_all
    from decimal_char_neq(4,5) [OF this] Cons x show ?thesis by simp
  qed
  then have hp: "\<not> hex_prefix (s @ CHR ''.'' # f)" "\<not> hex_prefix (take 2 (s @ CHR ''.'' # f) @ r)" for r
    using x s by (auto simp: hex_prefix_def numeral_2_eq_2 split: list.splits)
  have l: "map lower_char (take 3 (s @ CHR ''.'' # f)) \<noteq> ''inf''" "map lower_char (take 3 (s @ CHR ''.'' # f)) \<noteq> ''nan''"
    using decimal_char_neq(4,6,7) [OF c] s by auto
  have tk: "takeWhile (is_digit 10) (s @ CHR ''.'' # f) = s" "dropWhile (is_digit 10) (s @ CHR ''.'' # f) = CHR ''.'' # f"
    using take_decimal [OF assms(1), of "CHR ''.'' # f"] drop_decimal [OF assms(1), of "CHR ''.'' # f"] by simp_all
  have tf: "takeWhile (is_digit 10) f = f" "dropWhile (is_digit 10) f = []"
    using take_decimal [OF assms(3), of "[]"] drop_decimal [OF assms(3), of "[]"] by simp_all
  show ?thesis
    unfolding strtof_def read_number_def Let_def sp sg case_prod_conv using hp l assms(2)
    by (simp add: read_fraction_def Let_def tk tf exponent_of_def)
qed

lemma strtof_show_fixed2: "strtof (show_fixed2 h) = round_single False h 100"
proof -
  have "h div 10 div 10 = h div 100" by (simp add: div_mult2_eq [symmetric])
  then have "h = (h div 100 * 10 + h div 10 mod 10) * 10 + h mod 10"
    using div_mult_mod_eq [of h 10] div_mult_mod_eq [of "h div 10" 10] by simp
  then have "digits_value 10 0 (show_nat (h div 100) @ [digit_char (h div 10 mod 10), digit_char (h mod 10)]) = h"
    by (simp add: digits_value_append)
  moreover have "h div 10 mod 10 \<le> 9" "h mod 10 \<le> 9"
    using mod_less_divisor [of 10 "h div 10"] mod_less_divisor [of 10 h] by linarith+
  ultimately show ?thesis
    using strtof_decimal [of "show_nat (h div 100)" "[digit_char (h div 10 mod 10), digit_char (h mod 10)]"]
    by (simp add: show_fixed2_def)
qed

section \<open>Printed numbers read back\<close>

lemma length_show_nat: "n < 10 ^ Suc k \<Longrightarrow> length (show_nat n) \<le> Suc k"
proof (induction k arbitrary: n)
  case 0
  then show ?case by (subst show_nat.simps) simp
next
  case (Suc k)
  show ?case
  proof (cases "n < 10")
    case False
    from Suc.prems have "n div 10 < 10 ^ Suc k" by (simp add: less_mult_imp_div_less)
    from Suc.IH [OF this] False show ?thesis by (subst show_nat.simps) simp
  qed (subst show_nat.simps, simp)
qed

lemma show_nat_first: "0 < n \<Longrightarrow> hd (show_nat n) \<noteq> CHR ''0''"
proof (induction n rule: show_nat.induct)
  case (1 n)
  show ?case
  proof (cases "n < 10")
    case True
    then have "code_of (digit_char n) = 48 + n" by simp
    with "1.prems" have "digit_char n \<noteq> CHR ''0''" by (auto simp: code_of_def)
    with True show ?thesis by (subst show_nat.simps) simp
  next
    case False
    then have "0 < n div 10" by simp
    from "1.IH" [OF False this] False show ?thesis by (subst show_nat.simps) simp
  qed
qed

lemma strtoul_show:
  assumes "n < 2 ^ 64"
  shows "strtoul (show_nat n) = n"
proof -
  obtain c s where s: "show_nat n = c # s" by (cases "show_nat n") (use show_nat_nonempty in auto)
  have d: "decimal (c # s)" using show_nat_decimal [of n] s by simp
  then have c: "48 \<le> code_of c" "code_of c \<le> 57" by simp_all
  have sp: "dropWhile is_space (c # s) = c # s" using decimal_char_neq(3) [OF c] by simp
  have sg: "split_sign (c # s) = (False, c # s)" using decimal_char_neq(1,2) [OF c] by (simp add: split_sign_def)
  have tk: "takeWhile (is_digit 10) (c # s) = c # s" using take_decimal [OF d, of "[]"] by simp
  have v: "digits_value 10 0 (c # s) = n" using digits_value_show [of n] s by simp
  have nx: "lower_char x \<noteq> CHR ''x''" if "x \<in> set s" for x
    using that d decimal_char_neq(4,5) [of x] by (auto simp: decimal_def)
  have hx: "\<not> hex_prefix (c # s)" using nx by (auto simp: hex_prefix_def split: list.splits)
  show ?thesis
  proof (cases "n = 0")
    case True
    then have "c # s = [digit_char 0]" using s by (subst (asm) show_nat.simps) simp
    then show ?thesis unfolding s using True
      by (simp add: strtoul_def digit_char_def is_space_def split_sign_def hex_prefix_def code_of_def is_digit_def digit_value_def Let_def)
  next
    case False
    then have "c \<noteq> CHR ''0''" using show_nat_first [of n] s by simp
    then show ?thesis unfolding strtoul_def Let_def s sp sg case_prod_conv using hx tk v assms by simp
  qed
qed

lemma length_show_u16: "length (show_nat (unat (v :: u16))) \<le> 5"
proof -
  have "unat v < 2 ^ LENGTH(16)" by (rule unsigned_less)
  then have "unat v < 65536" by simp
  then have "unat v < 100000" by linarith
  then have "unat v < 10 ^ Suc 4" by simp
  from length_show_nat [OF this] show ?thesis by simp
qed

lemma length_show_fixed2: "h \<le> 10000 \<Longrightarrow> length (show_fixed2 h) \<le> 6"
  using length_show_nat [of "h div 100" 2] by (simp add: show_fixed2_def)

lemma parse_one: "parse_u16 ''1'' = 1"
  by (simp add: parse_u16_def strtoul_def is_space_def code_of_def split_sign_def hex_prefix_def is_digit_def
      digit_value_def Let_def)

lemma parse_duty_zero: "parse_duty ''0'' = Some 0"
  by (simp add: parse_duty_def strtof_def read_number_def split_sign_def is_space_def code_of_def hex_prefix_def lower_char_def
      read_fraction_def is_digit_def digit_value_def Let_def exponent_of_def float_times_def float_to_u16_def scale_num_def)

text \<open>\<open>0.53f * 100\<close> is 52.99999...\<close>

lemma single_53: "round_single False 53 100 = Finite False 8891924 (-24)"
  by (simp add: round_single_def frac_log2_def ilog2.simps round_half_even_def)

lemma single_53_times: "float_times (Finite False 8891924 (-24)) 100 = Finite False 13893631 (-18)"
  by (simp add: float_times_def scale_num_def scale_den_def round_single_def frac_log2_def ilog2.simps round_half_even_def)

lemma parse_duty_53: "parse_duty ''0.53'' = Some 52"
proof -
  have "show_fixed2 53 = ''0.53''" by (simp add: show_fixed2_def show_nat.simps digit_char_def char_of_eq_iff)
  then have "strtof ''0.53'' = round_single False 53 100" using strtof_show_fixed2 [of 53] by simp
  then show ?thesis
    by (simp add: parse_duty_def single_53 single_53_times float_to_u16_def scale_num_def scale_den_def)
qed

end
