(* ===== verification/Inverter_Bridge.thy ===== *)
theory Inverter_Bridge
  imports Inverter_Module C_Numbers
begin

text \<open>
  \<^verbatim>\<open>src/inverter_cmos_bridge.c\<close>: the handlers of the CMOS messages, which turn a command text
  into queued register writes or requests of the first running unit, and the publisher's view
  of the pool. A handler takes the array of running units and returns it; where the C code
  converts an out-of-range float to \<^verbatim>\<open>uint16_t\<close> its result is undefined, \<^const>\<open>None\<close>.
\<close>

section \<open>Duty and frequency\<close>

text \<open>A \<^verbatim>\<open>pool_read_register\<close> into a variable that is 0 before.\<close>

definition pool_read_or_0 :: "pool \<Rightarrow> u16 \<Rightarrow> u16" where
  "pool_read_or_0 pl a = (case pool_read_register pl a of None \<Rightarrow> 0 | Some v \<Rightarrow> v)"

definition duty_convert_frequency :: "pool \<Rightarrow> u16 \<Rightarrow> u16" where
  "duty_convert_frequency pl duty =
     (let upper = pool_read_or_0 pl int_frequency_upper_limit_reg;
          lower = pool_read_or_0 pl int_frequency_lower_limit_reg
      in if upper \<le> lower then lower
         else if duty \<ge> 10000 then upper
         else
           let duty_percent = duty div 100; duty_remainder = duty mod 100;
               range = ucast (upper - lower) :: u32
           in ucast (ucast lower + (range * ucast duty_percent) div 100 + (range * ucast duty_remainder) div 10000))"

definition frequency_convert_duty :: "pool \<Rightarrow> u16 \<Rightarrow> u16" where
  "frequency_convert_duty pl frequency =
     (let upper = pool_read_or_0 pl int_frequency_upper_limit_reg;
          lower = pool_read_or_0 pl int_frequency_lower_limit_reg
      in if upper \<le> lower then 0
         else if frequency \<le> lower then 0
         else if frequency \<ge> upper then 10000
         else
           let range = ucast (upper - lower) :: u32; delta = ucast (frequency - lower) :: u32
           in ucast ((delta * 10000 + range div 2) div range))"

section \<open>Commands\<close>

definition resolve_target_uid :: "gw_unit list \<Rightarrow> u8 option" where
  "resolve_target_uid us = inverter_get_primary_uid us"

definition on_write :: "gw_unit list \<Rightarrow> u8 \<Rightarrow> u16 \<Rightarrow> u16 \<Rightarrow> int \<times> gw_unit list" where
  "on_write us uid addr val =
     (case device_find_slot (Some inverter1_profile) addr of
        None \<Rightarrow> (-1, us)
      | Some entry \<Rightarrow>
          if access entry = ACCESS_RO then (-1, us)
          else
            (case inverter_cmd_push us uid addr (Some [val]) 1 WRITE_MODE_AUTO of
               (rc, us1) \<Rightarrow> (if rc \<noteq> 0 then -1 else 0, us1)))"

text \<open>Two writes, the second only if the first was queued.\<close>

definition on_write_pair :: "gw_unit list \<Rightarrow> u8 \<Rightarrow> u16 \<times> u16 \<Rightarrow> u16 \<times> u16 \<Rightarrow> gw_unit list" where
  "on_write_pair us uid w1 w2 =
     (case on_write us uid (fst w1) (snd w1) of
        (rc, us1) \<Rightarrow> if rc \<noteq> 0 then us1 else snd (on_write us1 uid (fst w2) (snd w2)))"

definition on_bypass_cmd :: "gw_unit list \<Rightarrow> string \<Rightarrow> gw_unit list" where
  "on_bypass_cmd us value =
     (case resolve_target_uid us of
        None \<Rightarrow> us
      | Some uid \<Rightarrow>
          if parse_u16 value = 1 then snd (on_write us uid dev_fault_control_cmd_reg INVERTER_FIRE_MODE_BIT)
          else snd (on_write us uid dev_fault_control_cmd_reg INVERTER_EF_BIT))"

definition on_init_inverter_cmd :: "gw_unit list \<Rightarrow> string \<Rightarrow> gw_unit list" where
  "on_init_inverter_cmd us value =
     (if parse_u16 value \<noteq> 1 then us
      else case resolve_target_uid us of None \<Rightarrow> us | Some uid \<Rightarrow> snd (inverter_init_request us uid))"

definition stop_operation :: u16 where
  "stop_operation = INVERTER_STOP_BIT OR INVERTER_ENABLE_ACCELERATION_BIT"

definition run_operation :: u16 where
  "run_operation = INVERTER_RUN_BIT OR INVERTER_ENABLE_ACCELERATION_BIT"

definition on_main_pump_duty_cmd :: "pool \<Rightarrow> gw_unit list \<Rightarrow> string \<Rightarrow> gw_unit list option" where
  "on_main_pump_duty_cmd pl us value =
     (case parse_duty value of
        None \<Rightarrow> None
      | Some duty \<Rightarrow>
          let frequency = duty_convert_frequency pl duty
          in Some (case resolve_target_uid us of
               None \<Rightarrow> us
             | Some uid \<Rightarrow>
                 if duty = 0
                 then on_write_pair us uid (dev_frequency_cmd_reg, duty) (dev_operation_cmd_reg, stop_operation)
                 else on_write_pair us uid (dev_frequency_cmd_reg, frequency) (dev_operation_cmd_reg, run_operation)))"

definition on_frequency_write_cmd :: "gw_unit list \<Rightarrow> string \<Rightarrow> gw_unit list" where
  "on_frequency_write_cmd us value =
     (let frequency = parse_u16 value
      in case resolve_target_uid us of
           None \<Rightarrow> us
         | Some uid \<Rightarrow>
             if frequency = 0
             then on_write_pair us uid (dev_frequency_cmd_reg, frequency) (dev_operation_cmd_reg, stop_operation)
             else on_write_pair us uid (dev_frequency_cmd_reg, frequency) (dev_operation_cmd_reg, run_operation))"

definition on_operation_cmd :: "gw_unit list \<Rightarrow> string \<Rightarrow> gw_unit list" where
  "on_operation_cmd us value =
     (case resolve_target_uid us of
        None \<Rightarrow> us | Some uid \<Rightarrow> snd (on_write us uid dev_operation_cmd_reg (parse_u16 value)))"

definition on_fault_control_cmd :: "gw_unit list \<Rightarrow> string \<Rightarrow> gw_unit list" where
  "on_fault_control_cmd us value =
     (case resolve_target_uid us of
        None \<Rightarrow> us | Some uid \<Rightarrow> snd (on_write us uid dev_fault_control_cmd_reg (parse_u16 value)))"

text \<open>The subscriptions of \<^verbatim>\<open>cmos_sub_thread\<close>: topic, type and key, with the handler.\<close>

datatype inverter_handler =
  On_operation | On_frequency_write | On_fault_control | On_main_pump_duty | On_init_inverter | On_bypass

definition inverter_subscriptions :: "(string \<times> string option \<times> string \<times> string \<times> inverter_handler) list" where
  "inverter_subscriptions =
     [(''control_output'', None, ''command'', ''inv_operation_commands'', On_operation),
      (''control_output'', None, ''command'', ''inv_frequency_write_commands'', On_frequency_write),
      (''control_output'', None, ''command'', ''inv_fault_Control_commands'', On_fault_control),
      (''control_output'', None, ''ctrl'', ''main_pump'', On_main_pump_duty),
      (''control_output'', None, ''initial'', ''request_init_status'', On_init_inverter),
      (''control_output'', None, ''ctrl'', ''bypass'', On_bypass)]"

definition inverter_handle :: "pool \<Rightarrow> inverter_handler \<Rightarrow> string \<Rightarrow> gw_unit list \<Rightarrow> gw_unit list option" where
  "inverter_handle pl h value us =
     (case h of
        On_operation \<Rightarrow> Some (on_operation_cmd us value)
      | On_frequency_write \<Rightarrow> Some (on_frequency_write_cmd us value)
      | On_fault_control \<Rightarrow> Some (on_fault_control_cmd us value)
      | On_main_pump_duty \<Rightarrow> on_main_pump_duty_cmd pl us value
      | On_init_inverter \<Rightarrow> Some (on_init_inverter_cmd us value)
      | On_bypass \<Rightarrow> Some (on_bypass_cmd us value))"

section \<open>Publishing\<close>

text \<open>The arguments of \<^verbatim>\<open>cmos_publish\<close>: state, type, key, value. The publisher process reads
  the shared pool; a function takes the pool as it finds it.\<close>

type_synonym pub_msg = "string option \<times> string option \<times> string option \<times> string option"

definition connection_pub_state :: "pool \<Rightarrow> string" where
  "connection_pub_state pl =
     (case pool_read_register pl int_inverter_connection_status_reg of
        None \<Rightarrow> ''disconnect''
      | Some conn \<Rightarrow> if conn = 1 then ''alive'' else ''disconnect'')"

definition publish_pool_register :: "pool \<Rightarrow> string option \<Rightarrow> string option \<Rightarrow> u16 \<Rightarrow> pub_msg list" where
  "publish_pool_register pl ty key a =
     (case pool_read_register pl a of
        None \<Rightarrow> []
      | Some v \<Rightarrow> [(Some (connection_pub_state pl), ty, key, Some (take 7 (show_nat (unat v))))])"

definition publish_all_pool_register :: "pool \<Rightarrow> module_config \<Rightarrow> pub_msg list" where
  "publish_all_pool_register pl cfg =
     (if \<not> enabled cfg then []
      else concat (map (\<lambda>m. publish_pool_register pl None (Some (description m)) (pool_address m))
             (rows inverter1_profile)))"

definition publish_frequency_cmd_duty :: "pool \<Rightarrow> pub_msg list" where
  "publish_frequency_cmd_duty pl =
     (let duty = frequency_convert_duty pl (pool_read_or_0 pl int_frequency_write_cmd_reg)
      in [(Some (connection_pub_state pl), None, Some ''duty_command'', Some (take 7 (format_2f (hundredths duty))))])"

definition publish_frequency_out_duty :: "pool \<Rightarrow> pub_msg list" where
  "publish_frequency_out_duty pl =
     (let duty = frequency_convert_duty pl (pool_read_or_0 pl int_out_frequency_reg)
      in [(Some (connection_pub_state pl), None, Some ''output_duty'', Some (take 7 (format_2f (hundredths duty))))])"

definition publish_fault_warning_code :: "pool \<Rightarrow> pub_msg list" where
  "publish_fault_warning_code pl =
     (let raw = pool_read_or_0 pl int_fault_warning_code_reg;
          fault = raw AND 0xFF; warning = drop_bit 8 raw AND 0xFF
      in [(Some (connection_pub_state pl), None, Some ''fault_code'', Some (take 7 (show_nat (unat fault)))),
          (Some (connection_pub_state pl), None, Some ''warning_code'', Some (take 7 (show_nat (unat warning))))])"

definition publish_additional_item :: "pool \<Rightarrow> module_config \<Rightarrow> pub_msg list" where
  "publish_additional_item pl cfg =
     (if \<not> enabled cfg then []
      else publish_frequency_cmd_duty pl @ publish_frequency_out_duty pl @ publish_fault_warning_code pl @
           publish_pool_register pl None (Some ''inverter_node'') int_inverter_init_flag_reg)"

text \<open>One turn of \<^verbatim>\<open>inverter_cmos_pub_run\<close> between two polls for subscribers.\<close>

definition inverter_publish_round :: "pool \<Rightarrow> module_config list \<Rightarrow> pub_msg list" where
  "inverter_publish_round pl cfgs =
     concat (map (\<lambda>cfg. publish_all_pool_register pl cfg @ publish_additional_item pl cfg) cfgs)"

section \<open>Starting and stopping the subscriber\<close>

text \<open>The state is \<^verbatim>\<open>g_sub_started\<close>.\<close>

definition inverter_cmos_bridge_start :: "bool \<Rightarrow> bool \<Rightarrow> int \<times> bool" where
  "inverter_cmos_bridge_start thread_ok started = (if \<not> thread_ok then (-1, started) else (0, True))"

definition inverter_cmos_bridge_stop :: "bool \<Rightarrow> bool" where
  "inverter_cmos_bridge_stop started = (if \<not> started then started else False)"

section \<open>Duty and frequency as numbers\<close>

abbreviation upper_limit :: "pool \<Rightarrow> u16" where "upper_limit pl \<equiv> pool_read_or_0 pl int_frequency_upper_limit_reg"
abbreviation lower_limit :: "pool \<Rightarrow> u16" where "lower_limit pl \<equiv> pool_read_or_0 pl int_frequency_lower_limit_reg"

text \<open>The offset above the lower limit, for a range \<open>R\<close> between the limits.\<close>

definition duty_offset :: "nat \<Rightarrow> nat \<Rightarrow> nat" where
  "duty_offset R d = R * (d div 100) div 100 + R * (d mod 100) div 10000"

lemma unat_less_16: "unat (x :: u16) < 65536"
proof -
  have "unat x < 2 ^ LENGTH(16)" by (rule unsigned_less)
  then show ?thesis by simp
qed

lemma unat_up: "unat (ucast (x :: u16) :: u32) = unat x"
proof -
  have "unat x < 4294967296" using unat_less_16 [of x] by linarith
  then show ?thesis by (simp add: unsigned_ucast_eq take_bit_eq_mod)
qed

lemma unat_minus: "lo \<le> (hi :: u16) \<Longrightarrow> unat (hi - lo) = unat hi - unat lo"
  by (simp add: unat_sub)

lemma two_quotients:
  fixes x y m n :: nat
  assumes "x * 100 + m = a" and "m < 100" and "y * 10000 + n = b" and "n < 10000"
  shows "10000 * (x + y) \<le> 100 * a + b" and "100 * a + b < 10000 * (x + y) + 20000"
proof -
  have "100 * a + b = 10000 * (x + y) + (100 * m + n)"
    unfolding assms(1) [symmetric] assms(3) [symmetric] by (simp add: algebra_simps)
  moreover have "100 * m + n < 20000" using assms(2,4) by simp
  ultimately show "10000 * (x + y) \<le> 100 * a + b" "100 * a + b < 10000 * (x + y) + 20000" by simp_all
qed

lemma duty_offset_bounds:
  shows "10000 * duty_offset R d \<le> R * d" and "R * d < 10000 * duty_offset R d + 20000"
proof -
  let ?p = "d div 100" and ?r = "d mod 100"
  have d: "R * d = 100 * (R * ?p) + R * ?r"
    using div_mult_mod_eq [of d 100] by (metis distrib_left mult.assoc mult.commute)
  note q = two_quotients [OF div_mult_mod_eq [of "R * ?p" 100] mod_less_divisor div_mult_mod_eq [of "R * ?r" 10000] mod_less_divisor]
  show "10000 * duty_offset R d \<le> R * d" unfolding duty_offset_def d by (rule q) simp_all
  show "R * d < 10000 * duty_offset R d + 20000" unfolding duty_offset_def d by (rule q) simp_all
qed

lemma duty_offset_less:
  assumes "0 < R" and "d < 10000"
  shows "duty_offset R d < R"
proof -
  have "R * d < R * 10000" using assms by simp
  with duty_offset_bounds(1) [of R d] show ?thesis by linarith
qed

lemma add_div_le: "a div c + b div c \<le> (a + b) div (c :: nat)"
proof (cases "c = 0")
  case False
  have "a div c * c + b div c * c \<le> a + b" by (intro add_mono) simp_all
  then have "(a div c + b div c) * c \<le> a + b" by (simp add: distrib_right)
  with False show ?thesis by (metis div_le_mono nonzero_mult_div_cancel_right)
qed simp

lemma duty_offset_mono:
  assumes "d \<le> d'"
  shows "duty_offset R d \<le> duty_offset R d'"
proof (cases "d div 100 = d' div 100")
  case True
  with assms have "d mod 100 \<le> d' mod 100" by (metis add_le_cancel_left div_mult_mod_eq)
  then show ?thesis using True by (simp add: duty_offset_def div_le_mono)
next
  case False
  with assms have p: "Suc (d div 100) \<le> d' div 100" by (simp add: div_le_mono le_neq_implies_less Suc_leI)
  have "R * (d mod 100) \<le> R * 100" by simp
  then have "R * (d mod 100) div 10000 \<le> R * 100 div 10000" by (rule div_le_mono)
  also have "R * 100 div 10000 = R div 100"
    using div_mult_mult2 [of 100 R 100] by simp
  finally have "duty_offset R d \<le> R * (d div 100) div 100 + R div 100" by (simp add: duty_offset_def)
  also have "\<dots> \<le> (R * (d div 100) + R) div 100" by (rule add_div_le)
  also have "\<dots> \<le> R * (d' div 100) div 100" using mult_le_mono2 [OF p, of R] by (intro div_le_mono) simp
  finally show ?thesis by (simp add: duty_offset_def)
qed

lemma unat_mult_less:
  assumes "unat (a :: u32) * unat b < 4294967296"
  shows "unat (a * b) = unat a * unat b"
  using assms by (simp add: unat_word_ariths)

lemma unat_add_less:
  assumes "unat (a :: u32) + unat b < 4294967296"
  shows "unat (a + b) = unat a + unat b"
  using assms by (simp add: unat_word_ariths)

lemma unat_down:
  assumes "unat (x :: u32) < 65536"
  shows "unat (ucast x :: u16) = unat x"
  using assms by (simp add: unsigned_ucast_eq take_bit_eq_mod)

text \<open>Below 10000 the machine arithmetic is exact: nothing wraps.\<close>

lemma unat_duty_convert_frequency:
  assumes "lower_limit pl < upper_limit pl" and "unat duty < 10000"
  shows "unat (duty_convert_frequency pl duty) =
    unat (lower_limit pl) + duty_offset (unat (upper_limit pl) - unat (lower_limit pl)) (unat duty)"
proof -
  let ?lo = "lower_limit pl" and ?hi = "upper_limit pl"
  define R where "R = unat ?hi - unat ?lo"
  define p r where "p = unat duty div 100" and "r = unat duty mod 100"
  have lo: "unat ?lo < unat ?hi" using assms(1) by (simp add: word_less_nat_alt)
  have hi: "unat ?hi < 65536" by (rule unat_less_16)
  have R: "0 < R" "R < 65536" "unat ?lo + R = unat ?hi" using lo hi unfolding R_def by linarith+
  have R32: "unat (ucast (?hi - ?lo) :: u32) = R" using assms(1) by (simp only: unat_up R_def unat_minus less_imp_le)
  have pr: "unat (ucast (duty div 100) :: u32) = p" "unat (ucast (duty mod 100) :: u32) = r"
    by (simp_all only: unat_up unat_div_distrib unat_mod_distrib p_def r_def) simp_all
  have p: "p < 100" and r: "r < 100" using assms(2) by (simp_all add: p_def r_def less_mult_imp_div_less)
  have Rp: "R * p \<le> 65535 * 100" and Rr: "R * r \<le> 65535 * 100"
    using R(2) p r by (intro mult_le_mono; linarith)+
  have m: "unat ((ucast (?hi - ?lo) :: u32) * ucast (duty div 100)) = R * p"
    "unat ((ucast (?hi - ?lo) :: u32) * ucast (duty mod 100)) = R * r"
    using unat_mult_less [of "ucast (?hi - ?lo)" "ucast (duty div 100)"]
      unat_mult_less [of "ucast (?hi - ?lo)" "ucast (duty mod 100)"] Rp Rr unfolding R32 pr by linarith+
  have q: "unat ((ucast (?hi - ?lo) :: u32) * ucast (duty div 100) div 100) = R * p div 100"
    "unat ((ucast (?hi - ?lo) :: u32) * ucast (duty mod 100) div 10000) = R * r div 10000"
    unfolding unat_div_distrib m by simp_all
  have off: "R * p div 100 + R * r div 10000 = duty_offset R (unat duty)" by (simp add: duty_offset_def p_def r_def)
  have less: "duty_offset R (unat duty) < R" using duty_offset_less [OF R(1) assms(2)] .
  have s1: "unat ((ucast ?lo :: u32) + (ucast (?hi - ?lo) :: u32) * ucast (duty div 100) div 100) = unat ?lo + R * p div 100"
    by (subst unat_add_less; unfold q unat_up; use off less R hi in linarith)
  have s2: "unat ((ucast ?lo :: u32) + (ucast (?hi - ?lo) :: u32) * ucast (duty div 100) div 100 +
      (ucast (?hi - ?lo) :: u32) * ucast (duty mod 100) div 10000) = unat ?lo + duty_offset R (unat duty)"
    by (subst unat_add_less; unfold q s1; use off less R hi in linarith)
  have nd: "\<not> 10000 \<le> duty" "\<not> ?hi \<le> ?lo" using assms by (simp_all add: word_le_nat_alt word_less_nat_alt)
  have "unat (duty_convert_frequency pl duty) = unat ?lo + duty_offset R (unat duty)"
    unfolding duty_convert_frequency_def Let_def if_not_P [OF nd(1)] if_not_P [OF nd(2)] s2 [symmetric]
    by (rule unat_down) (use s2 less R hi in linarith)
  then show ?thesis by (simp add: R_def)
qed

lemma unat_frequency_convert_duty:
  assumes "lower_limit pl < f" and "f < upper_limit pl"
  shows "unat (frequency_convert_duty pl f) =
    ((unat f - unat (lower_limit pl)) * 10000 + (unat (upper_limit pl) - unat (lower_limit pl)) div 2)
      div (unat (upper_limit pl) - unat (lower_limit pl))"
proof -
  let ?lo = "lower_limit pl" and ?hi = "upper_limit pl"
  define R where "R = unat ?hi - unat ?lo"
  define D where "D = unat f - unat ?lo"
  have n: "\<not> ?hi \<le> ?lo" "\<not> f \<le> ?lo" "\<not> ?hi \<le> f" using assms by (auto simp: not_le)
  have lt: "unat ?lo < unat f" "unat f < unat ?hi" using assms by (simp_all add: word_less_nat_alt)
  then have DR: "D < R" "R < 65536" using unat_less_16 [of ?hi] unfolding D_def R_def by linarith+
  have R32: "unat (ucast (?hi - ?lo) :: u32) = R" and D32: "unat (ucast (f - ?lo) :: u32) = D"
    using n(1,2) by (simp_all only: unat_up R_def D_def unat_minus not_le less_imp_le)
  have b: "D * 10000 \<le> 65535 * 10000" using DR by (intro mult_le_mono1) linarith
  have m: "unat ((ucast (f - ?lo) :: u32) * 10000) = D * 10000"
    using unat_mult_less [of "ucast (f - ?lo)" 10000] b unfolding D32 by simp
  have h: "unat ((ucast (?hi - ?lo) :: u32) div 2) = R div 2" unfolding unat_div_distrib R32 by simp
  have s: "unat ((ucast (f - ?lo) :: u32) * 10000 + ucast (?hi - ?lo) div 2) = D * 10000 + R div 2"
    by (subst unat_add_less; unfold m h; use b DR in linarith)
  have q: "unat (((ucast (f - ?lo) :: u32) * 10000 + ucast (?hi - ?lo) div 2) div ucast (?hi - ?lo)) =
      (D * 10000 + R div 2) div R"
    unfolding unat_div_distrib s R32 ..
  have "D * 10000 + R div 2 < R * 10001" using DR(1) by linarith
  then have "(D * 10000 + R div 2) div R < 10001" using DR(1) by (simp add: less_mult_imp_div_less mult.commute)
  then have "unat (frequency_convert_duty pl f) = (D * 10000 + R div 2) div R"
    unfolding frequency_convert_duty_def Let_def if_not_P [OF n(1)] if_not_P [OF n(2)] if_not_P [OF n(3)] q [symmetric]
    by (intro unat_down) (unfold q, linarith)
  then show ?thesis by (simp add: R_def D_def)
qed

lemma duty_endpoints:
  assumes "lower_limit pl < upper_limit pl"
  shows "duty_convert_frequency pl 0 = lower_limit pl" and "10000 \<le> d \<Longrightarrow> duty_convert_frequency pl d = upper_limit pl"
proof -
  have "unat (duty_convert_frequency pl 0) = unat (lower_limit pl)"
    using unat_duty_convert_frequency [OF assms, of 0] by (simp add: duty_offset_def)
  then show "duty_convert_frequency pl 0 = lower_limit pl" by (rule injD [OF inj_unsigned])
  show "10000 \<le> d \<Longrightarrow> duty_convert_frequency pl d = upper_limit pl"
    using assms by (auto simp: duty_convert_frequency_def Let_def)
qed

lemma duty_below_upper:
  assumes "lower_limit pl < upper_limit pl" and "\<not> 10000 \<le> d"
  shows "lower_limit pl \<le> duty_convert_frequency pl d" and "duty_convert_frequency pl d < upper_limit pl"
proof -
  have d: "unat d < 10000" using assms(2) by (simp add: word_le_nat_alt)
  have l: "unat (lower_limit pl) < unat (upper_limit pl)" using assms(1) by (simp add: word_less_nat_alt)
  note e = unat_duty_convert_frequency [OF assms(1) d]
  have "unat (lower_limit pl) \<le> unat (duty_convert_frequency pl d)" unfolding e by simp
  then show "lower_limit pl \<le> duty_convert_frequency pl d" by (simp add: word_le_nat_alt)
  have "duty_offset (unat (upper_limit pl) - unat (lower_limit pl)) (unat d) < unat (upper_limit pl) - unat (lower_limit pl)"
    using l d by (intro duty_offset_less) simp_all
  then have "unat (duty_convert_frequency pl d) < unat (upper_limit pl)" unfolding e using l by linarith
  then show "duty_convert_frequency pl d < upper_limit pl" by (simp add: word_less_nat_alt)
qed

lemma duty_convert_mono:
  assumes "lower_limit pl < upper_limit pl" and "d \<le> d'"
  shows "duty_convert_frequency pl d \<le> duty_convert_frequency pl d'"
proof (cases "10000 \<le> d'")
  case True
  show ?thesis
  proof (cases "10000 \<le> d")
    case False
    with True show ?thesis using duty_endpoints(2) [OF assms(1)] duty_below_upper(2) [OF assms(1)] by (simp add: less_imp_le)
  qed (simp add: True duty_endpoints(2) [OF assms(1)])
next
  case False
  then have d: "unat d < 10000" "unat d' < 10000" "unat d \<le> unat d'" using assms(2) by (simp_all add: word_le_nat_alt)
  show ?thesis
    unfolding word_le_nat_alt unat_duty_convert_frequency [OF assms(1) d(1)] unat_duty_convert_frequency [OF assms(1) d(2)]
    using duty_offset_mono [OF d(3)] by simp
qed

text \<open>Between limits with \<open>lower < upper\<close>, the frequency of a duty stays within the limits
  whatever the 16-bit duty, grows with the duty, is the lower limit at 0 and the upper limit from
  100.00 percent on: the 32-bit arithmetic of \<^verbatim>\<open>duty_convert_frequency\<close> never wraps.\<close>

theorem duty_frequency_in_limits:
  assumes "pool_read_or_0 pl int_frequency_lower_limit_reg < pool_read_or_0 pl int_frequency_upper_limit_reg"
  shows "pool_read_or_0 pl int_frequency_lower_limit_reg \<le> duty_convert_frequency pl d \<and>
    duty_convert_frequency pl d \<le> pool_read_or_0 pl int_frequency_upper_limit_reg \<and>
    (d \<le> d' \<longrightarrow> duty_convert_frequency pl d \<le> duty_convert_frequency pl d') \<and>
    duty_convert_frequency pl 0 = pool_read_or_0 pl int_frequency_lower_limit_reg \<and>
    (10000 \<le> d \<longrightarrow> duty_convert_frequency pl d = pool_read_or_0 pl int_frequency_upper_limit_reg)"
proof (cases "10000 \<le> d")
  case True
  then show ?thesis using duty_endpoints [OF assms] duty_convert_mono [OF assms] assms by auto
next
  case False
  then show ?thesis
    using duty_endpoints [OF assms] duty_convert_mono [OF assms] duty_below_upper [OF assms False] by auto
qed

lemma round_trip_numbers:
  fixes off R d g :: nat
  assumes o: "10000 * off \<le> R * d" "R * d < 10000 * off + 20000" and R: "0 < R"
    and g: "g = (off * 10000 + R div 2) div R"
  shows "g \<le> d" and "d \<le> g + 20000 div R + 1"
proof -
  have gR: "g * R \<le> off * 10000 + R div 2" unfolding g by simp
  have "off * 10000 + R div 2 < Suc g * R" unfolding g using R by (metis Suc_eq_plus1 div_less_iff_less_mult lessI)
  then have gR': "off * 10000 + R div 2 < g * R + R" by simp
  have "g * R < Suc d * R" using gR o(1) R by (simp add: mult.commute)
  then show "g \<le> d" by (simp only: mult_less_cancel2 less_Suc_eq_le)
  show "d \<le> g + 20000 div R + 1"
  proof (cases "d \<le> g + 1")
    case False
    have "d * R < g * R + R + 20000" using o(2) gR' by (simp add: mult.commute)
    then have "(d - (g + 1)) * R < 20000" using False by (simp add: diff_mult_distrib)
    then have "d - (g + 1) \<le> 20000 div R" using R by (simp add: less_eq_div_iff_mult_less_eq)
    then show ?thesis by linarith
  qed simp
qed

lemma duty_there_and_back:
  assumes "pool_read_or_0 pl int_frequency_lower_limit_reg < pool_read_or_0 pl int_frequency_upper_limit_reg"
    and "d \<le> 10000"
  shows "unat (frequency_convert_duty pl (duty_convert_frequency pl d)) \<le> unat d \<and>
    unat d \<le> unat (frequency_convert_duty pl (duty_convert_frequency pl d)) +
      20000 div (unat (pool_read_or_0 pl int_frequency_upper_limit_reg) - unat (pool_read_or_0 pl int_frequency_lower_limit_reg)) + 1"
proof -
  define R where "R = unat (upper_limit pl) - unat (lower_limit pl)"
  define off where "off = duty_offset R (unat d)"
  have R: "0 < R" using assms(1) by (simp add: R_def word_less_nat_alt)
  let ?g = "frequency_convert_duty pl (duty_convert_frequency pl d)"
  show ?thesis
  proof (cases "10000 \<le> d")
    case True
    with assms(2) have "d = 10000" by simp
    then show ?thesis using duty_endpoints(2) [OF assms(1)] assms(1) by (auto simp: frequency_convert_duty_def Let_def)
  next
    case False
    then have d: "unat d < 10000" by (simp add: word_le_nat_alt)
    note f = unat_duty_convert_frequency [OF assms(1) d]
    have g: "unat ?g = (off * 10000 + R div 2) div R"
    proof (cases "off = 0")
      case True
      then have "unat (duty_convert_frequency pl d) = unat (lower_limit pl)" unfolding f by (simp add: off_def R_def)
      then have "duty_convert_frequency pl d = lower_limit pl" by (rule injD [OF inj_unsigned])
      then show ?thesis using True R by (simp add: frequency_convert_duty_def Let_def)
    next
      case False
      have "unat (duty_convert_frequency pl d) = unat (lower_limit pl) + off" unfolding f by (simp add: off_def R_def)
      moreover from this have "lower_limit pl < duty_convert_frequency pl d" using False by (simp add: word_less_nat_alt)
      ultimately show ?thesis
        using unat_frequency_convert_duty [OF _ duty_below_upper(2) [OF assms(1) \<open>\<not> 10000 \<le> d\<close>]] by (simp add: R_def)
    qed
    show ?thesis
      using round_trip_numbers [OF duty_offset_bounds [of R "unat d", folded off_def] R g] by (simp add: R_def)
  qed
qed

text \<open>C31. Converting a duty of at most 100.00 percent to a frequency and back loses at most
  \<open>20000 div R + 1\<close> hundredths of a percent, \<open>R\<close> being the distance of the limits, and never
  gains: the duty published from the command register does not exceed the one commanded.\<close>

theorem duty_round_trip:
  assumes "pool_read_or_0 pl int_frequency_lower_limit_reg < pool_read_or_0 pl int_frequency_upper_limit_reg"
    and "d \<le> 10000"
  shows "unat (frequency_convert_duty pl (duty_convert_frequency pl d)) \<le> unat d \<and>
    unat d \<le> unat (frequency_convert_duty pl (duty_convert_frequency pl d)) +
      20000 div (unat (pool_read_or_0 pl int_frequency_upper_limit_reg) - unat (pool_read_or_0 pl int_frequency_lower_limit_reg)) + 1"
  by (rule duty_there_and_back [OF assms])

end
