(* ===== verification/Bridge_Facts.thy ===== *)
theory Bridge_Facts
  imports Inverter_Bridge Unit_Witness
begin

text \<open>
  What the message handlers of \<^verbatim>\<open>src/inverter_cmos_bridge.c\<close> do to the units' queues: the
  registers they can write, the last command that waits, the effect of the text conversions and
  of a pool that the scan has marked unreachable.
\<close>

section \<open>Writes\<close>

definition writable :: "u16 \<Rightarrow> bool" where
  "writable a \<longleftrightarrow> list_ex (\<lambda>m. device_address m = a \<and> access m \<noteq> ACCESS_RO) (rows inverter1_profile)"

definition auto_write :: "u16 \<Rightarrow> u16 \<Rightarrow> write_cmd" where
  "auto_write a v = \<lparr>cmd_addr = a, cmd_values = [v], cmd_count = 1, cmd_mode = WRITE_MODE_AUTO\<rparr>"

definition permitted :: "write_cmd \<Rightarrow> bool" where
  "permitted c \<longleftrightarrow> writable (cmd_addr c) \<and> length (cmd_values c) = 1 \<and> cmd_count c = 1 \<and> cmd_mode c = WRITE_MODE_AUTO"

abbreviation uid_of :: "gw_unit \<Rightarrow> u8" where "uid_of u \<equiv> of_int (modbus_uid (u_cfg u))"

lemma auto_write_simps [simp]:
  "cmd_addr (auto_write a v) = a" "cmd_values (auto_write a v) = [v]" "cmd_count (auto_write a v) = 1"
  "cmd_mode (auto_write a v) = WRITE_MODE_AUTO" "stored_cmd (auto_write a v) = auto_write a v"
  by (simp_all add: auto_write_def stored_cmd_def)

lemma unit_from_uid_first: "unit_from_uid (u # us) (uid_of u) = Some 0"
  by (simp add: unit_from_uid_def upt_conv_Cons del: upt_Suc)

lemma resolve_first: "resolve_target_uid (u # us) = Some (uid_of u)"
  by (simp add: resolve_target_uid_def inverter_get_primary_uid_def get_primary_uid_def)

lemma resolve_none: "resolve_target_uid [] = None"
  by (simp add: resolve_target_uid_def inverter_get_primary_uid_def get_primary_uid_def)

definition mapped_writable :: "u16 \<Rightarrow> bool" where
  "mapped_writable a \<longleftrightarrow>
     (case device_find_slot (Some inverter1_profile) a of None \<Rightarrow> False | Some m \<Rightarrow> access m \<noteq> ACCESS_RO)"

lemma mapped_writable_sound: "mapped_writable a \<Longrightarrow> writable a"
  by (auto simp: mapped_writable_def writable_def list_ex_iff dest!: device_find_slot_sound split: option.splits)

lemma queue_push_refused: "fst (queue_push ma q a vs n md) \<noteq> 0 \<Longrightarrow> snd (queue_push ma q a vs n md) = q"
  by (auto simp: queue_push_def Let_def split: option.splits if_splits)

lemma on_write_refused: "\<not> mapped_writable a \<Longrightarrow> on_write us uid a v = (-1, us)"
  by (auto simp: on_write_def mapped_writable_def split: option.splits)

abbreviation inverter_push :: "cmd_queue \<Rightarrow> write_cmd \<Rightarrow> bool \<times> cmd_queue" where
  "inverter_push \<equiv> push_cmd inverter_queue_merge_allowed"

text \<open>A write of the first running unit is a push to its queue.\<close>

lemma on_write_first:
  assumes "mapped_writable a"
  shows "on_write (u # us) (uid_of u) a v =
    (case inverter_push (u_queue u) (auto_write a v) of
       (ok, q) \<Rightarrow> (if ok then 0 else -1, u\<lparr>u_queue := q\<rparr> # us))"
proof -
  obtain m where m: "device_find_slot (Some inverter1_profile) a = Some m" "access m \<noteq> ACCESS_RO"
    using assms by (auto simp: mapped_writable_def split: option.splits)
  obtain rc q where q: "queue_push inverter_queue_merge_allowed (u_queue u) a (Some [v]) 1 WRITE_MODE_AUTO = (rc, q)"
    by fastforce
  have r: "rc \<noteq> 0 \<Longrightarrow> q = u_queue u"
    using queue_push_refused [of inverter_queue_merge_allowed "u_queue u" a "Some [v]" 1 WRITE_MODE_AUTO] q by simp
  have p: "inverter_push (u_queue u) (auto_write a v) = (rc = 0, q)" using q by (simp add: push_cmd_def)
  show ?thesis
    using m r by (auto simp: on_write_def inverter_cmd_push_def cmd_push_def unit_from_uid_first q p)
qed

section \<open>Reachable queues\<close>

text \<open>
  The units start with empty queues; the subscriber thread handles messages, with the pool as
  it then is, and a unit's thread takes commands out. Both run under the queue's mutex, so any
  interleaving is a sequence of these steps.
\<close>

inductive bridge_reach :: "gw_unit list \<Rightarrow> bool" where
  bridge_init: "\<forall>u\<in>set us. u_queue u = queue_init \<Longrightarrow> bridge_reach us"
| bridge_message: "bridge_reach us \<Longrightarrow> inverter_handle pl h value us = Some us' \<Longrightarrow> bridge_reach us'"
| bridge_pop: "bridge_reach us \<Longrightarrow> i < length us \<Longrightarrow> queue_pop (u_queue (us ! i)) = Some (c, q) \<Longrightarrow>
    bridge_reach (us[i := (us ! i)\<lparr>u_queue := q\<rparr>])"

definition bridge_queue_ok :: "cmd_queue \<Rightarrow> bool" where
  "bridge_queue_ok q \<longleftrightarrow> queue_reach inverter_queue_merge_allowed q \<and> list_all permitted (queue_items q)"

definition bridge_unit_ok :: "gw_unit \<Rightarrow> bool" where
  "bridge_unit_ok u \<longleftrightarrow> bridge_queue_ok (u_queue u)"

lemma list_merge_permitted:
  "list_all permitted l \<Longrightarrow> list_merge a v WRITE_MODE_AUTO l = Some l' \<Longrightarrow> list_all permitted l'"
  by (induction l arbitrary: l') (auto simp: permitted_def replace_value_def split: if_splits)

lemma bridge_queue_push:
  assumes "bridge_queue_ok q" and "mapped_writable a"
  shows "bridge_queue_ok (snd (inverter_push q (auto_write a v)))"
proof -
  have r: "queue_reach inverter_queue_merge_allowed q" and p: "list_all permitted (queue_items q)"
    using assms(1) by (simp_all add: bridge_queue_ok_def)
  have i: "queue_inv q" using queue_reach_inv [OF r] by simp
  have "queue_reach inverter_queue_merge_allowed (snd (inverter_push q (auto_write a v)))"
    by (rule queue_reach_push [OF r]) simp
  moreover have "list_all permitted (queue_items (snd (inverter_push q (auto_write a v))))"
    using i
  proof (cases rule: cmds.push_items_cases [where ma = inverter_queue_merge_allowed and c = "auto_write a v"])
    case (merged l)
    with p list_merge_permitted show ?thesis by (auto simp: merge_into_def split: if_splits)
  next
    case appended
    with p mapped_writable_sound [OF assms(2)] show ?thesis by (simp add: permitted_def)
  qed (use p in simp_all)
  ultimately show ?thesis by (simp add: bridge_queue_ok_def)
qed

lemma on_write_ok:
  assumes "list_all bridge_unit_ok (u # us)" and "on_write (u # us) (uid_of u) a v = (rc, us')"
  shows "\<exists>q. us' = u\<lparr>u_queue := q\<rparr> # us \<and> list_all bridge_unit_ok us'"
proof (cases "mapped_writable a")
  case True
  obtain ok q where q: "inverter_push (u_queue u) (auto_write a v) = (ok, q)" by fastforce
  have "bridge_queue_ok q" using bridge_queue_push [OF _ True, of "u_queue u" v] assms(1) q by (simp add: bridge_unit_ok_def)
  with assms show ?thesis by (auto simp: on_write_first [OF True] q bridge_unit_ok_def)
next
  case False
  with assms show ?thesis by (auto simp: on_write_refused intro!: exI [of _ "u_queue u"])
qed

lemma on_write_pair_ok:
  assumes "list_all bridge_unit_ok (u # us)"
  shows "list_all bridge_unit_ok (on_write_pair (u # us) (uid_of u) w1 w2)"
proof -
  obtain rc us1 where w: "on_write (u # us) (uid_of u) (fst w1) (snd w1) = (rc, us1)" by fastforce
  from on_write_ok [OF assms w] obtain q where q: "us1 = u\<lparr>u_queue := q\<rparr> # us" "list_all bridge_unit_ok us1" by auto
  obtain rc2 us2 where w2: "on_write us1 (uid_of u) (fst w2) (snd w2) = (rc2, us2)" by fastforce
  have "list_all bridge_unit_ok us2"
    using on_write_ok [of "u\<lparr>u_queue := q\<rparr>" us "fst w2" "snd w2" rc2 us2] q w2 by auto
  with w w2 q(2) show ?thesis by (simp add: on_write_pair_def)
qed

lemma inverter_handle_ok:
  assumes "list_all bridge_unit_ok us" and "inverter_handle pl h value us = Some us'"
  shows "list_all bridge_unit_ok us'"
proof (cases us)
  case Nil
  with assms(2) have "us' = []"
    by (auto simp: inverter_handle_def on_operation_cmd_def on_frequency_write_cmd_def on_fault_control_cmd_def
        on_main_pump_duty_cmd_def on_init_inverter_cmd_def on_bypass_cmd_def Let_def resolve_none
        split: inverter_handler.splits option.splits if_splits)
  then show ?thesis by simp
next
  case (Cons u r)
  have ok: "list_all bridge_unit_ok (u # r)" using assms(1) Cons by simp
  have w: "list_all bridge_unit_ok (snd (on_write (u # r) (uid_of u) a v))" for a v
    using on_write_ok [OF ok, of a v] by (metis prod.collapse)
  have i: "list_all bridge_unit_ok (snd (inverter_init_request (u # r) (uid_of u)))"
    using ok by (simp add: inverter_init_request_def init_request_def unit_from_uid_first bridge_unit_ok_def)
  show ?thesis
    using assms(2) ok unfolding Cons
    by (auto simp: inverter_handle_def on_operation_cmd_def on_frequency_write_cmd_def on_fault_control_cmd_def
        on_main_pump_duty_cmd_def on_init_inverter_cmd_def on_bypass_cmd_def Let_def resolve_first
        split: inverter_handler.splits option.splits if_splits intro: w i on_write_pair_ok [OF ok])
qed

lemma bridge_queue_init: "bridge_queue_ok queue_init"
  by (simp add: bridge_queue_ok_def queue_reach_init)

lemma bridge_queue_pop:
  assumes "bridge_queue_ok q" and "queue_pop q = Some (c, q')"
  shows "bridge_queue_ok q'" and "permitted c"
proof -
  have r: "queue_reach inverter_queue_merge_allowed q" using assms(1) by (simp add: bridge_queue_ok_def)
  have "queue_inv q" using queue_reach_inv [OF r] by simp
  with assms(2) have i: "queue_items q = c # queue_items q'" using cmds.pop_SomeD by blast
  show "bridge_queue_ok q'" "permitted c"
    using assms(1) i queue_reach_pop [OF r assms(2)] by (simp_all add: bridge_queue_ok_def)
qed

lemma bridge_reach_ok: "bridge_reach us \<Longrightarrow> list_all bridge_unit_ok us"
proof (induction rule: bridge_reach.induct)
  case (bridge_init us)
  then show ?case by (simp add: list_all_iff bridge_unit_ok_def bridge_queue_init)
next
  case (bridge_message us pl h s us')
  then show ?case by (blast intro: inverter_handle_ok)
next
  case (bridge_pop us i c q)
  then have "bridge_queue_ok q" by (auto simp: list_all_length bridge_unit_ok_def intro: bridge_queue_pop)
  with bridge_pop show ?case by (simp add: list_all_length bridge_unit_ok_def nth_list_update)
qed

text \<open>C13. Whatever messages arrive, in whatever order and interleaved with the units' threads
  taking commands out, every command waiting in a queue of the inverter family, and so every
  command a unit's thread takes, writes one register, which the inverter's map has and does not
  mark read-only, in the mode that lets the unit choose the function code.\<close>

theorem bridge_writes_only_permitted:
  assumes "bridge_reach us" and "u \<in> set us" and "c \<in> set (queue_items (u_queue u))"
  shows "cmd_count c = 1 \<and> length (cmd_values c) = 1 \<and> cmd_mode c = WRITE_MODE_AUTO \<and>
    (\<exists>m. m \<in> set (rows inverter1_profile) \<and> device_address m = cmd_addr c \<and> access m \<noteq> ACCESS_RO)"
proof -
  have "permitted c"
    using bridge_reach_ok [OF assms(1)] assms(2,3) by (auto simp: list_all_iff bridge_unit_ok_def bridge_queue_ok_def)
  then show ?thesis by (auto simp: permitted_def writable_def list_ex_iff)
qed

section \<open>Commands of the pump\<close>

lemma pump_registers_writable [simp]:
  "mapped_writable dev_frequency_cmd_reg" "mapped_writable dev_operation_cmd_reg" "mapped_writable dev_fault_control_cmd_reg"
  by code_simp+

lemma merge_registers [simp]:
  "inverter_queue_merge_allowed dev_frequency_cmd_reg" "inverter_queue_merge_allowed dev_operation_cmd_reg"
  "\<not> inverter_queue_merge_allowed dev_fault_control_cmd_reg"
  by code_simp+

text \<open>A queue with room takes a write; it then holds at most one command more.\<close>

lemma push_with_room:
  assumes "queue_inv q" and "length (queue_items q) < CMD_QUEUE_CAPACITY"
  shows "fst (inverter_push q (auto_write a v))"
    and "length (queue_items (snd (inverter_push q (auto_write a v)))) \<le> Suc (length (queue_items q))"
proof -
  show "fst (inverter_push q (auto_write a v))"
    using assms by (simp add: cmds.push_ok_iff cmd_accepted_def)
  show "length (queue_items (snd (inverter_push q (auto_write a v)))) \<le> Suc (length (queue_items q))"
    using assms(1)
    by (cases rule: cmds.push_items_cases [where ma = inverter_queue_merge_allowed and c = "auto_write a v"])
      (auto dest!: cmds.merge_length)
qed

lemma on_write_accepted:
  assumes "mapped_writable a" and "fst (inverter_push (u_queue u) (auto_write a v))" and "w = uid_of u"
  shows "on_write (u # us) w a v = (0, u\<lparr>u_queue := snd (inverter_push (u_queue u) (auto_write a v))\<rparr> # us)"
  using assms(2) unfolding assms(3) on_write_first [OF assms(1)] by (simp add: case_prod_unfold)

lemma on_write_pair_first:
  assumes q: "bridge_queue_ok (u_queue u)" "length (queue_items (u_queue u)) \<le> 14"
    and w: "mapped_writable a1" "mapped_writable a2"
  shows "on_write_pair (u # us) (uid_of u) (a1, v1) (a2, v2) =
    u\<lparr>u_queue := snd (inverter_push (snd (inverter_push (u_queue u) (auto_write a1 v1))) (auto_write a2 v2))\<rparr> # us"
proof -
  let ?q1 = "snd (inverter_push (u_queue u) (auto_write a1 v1))"
  have i: "queue_inv (u_queue u)" using q(1) queue_reach_inv by (auto simp: bridge_queue_ok_def)
  have l: "length (queue_items (u_queue u)) < CMD_QUEUE_CAPACITY" using q(2) by simp
  note p1 = push_with_room [OF i l, of a1 v1]
  have i1: "queue_inv ?q1" using push_cmd_inv [OF i] .
  have "length (queue_items ?q1) < CMD_QUEUE_CAPACITY" using p1(2) q(2) by linarith
  note p2 = push_with_room(1) [OF i1 this, of a2 v2]
  have "on_write (u # us) (uid_of u) a1 v1 = (0, u\<lparr>u_queue := ?q1\<rparr> # us)"
    using on_write_accepted [OF w(1)] p1(1) by simp
  moreover have "on_write (u\<lparr>u_queue := ?q1\<rparr> # us) (uid_of u) a2 v2 =
      (0, u\<lparr>u_queue := snd (inverter_push ?q1 (auto_write a2 v2))\<rparr> # us)"
    using on_write_accepted [OF w(2), of "u\<lparr>u_queue := ?q1\<rparr>" v2 "uid_of u" us] p2 by simp
  ultimately show ?thesis by (simp add: on_write_pair_def)
qed

text \<open>The write for a mergeable register that waits after an accepted push.\<close>

lemma merged_push_waits:
  assumes "bridge_queue_ok q" and "length (queue_items q) < CMD_QUEUE_CAPACITY" and "inverter_queue_merge_allowed a"
  shows "filter (same_register a) (queue_items (snd (inverter_push q (auto_write a v)))) = [auto_write a v]"
proof -
  have r: "queue_inv q \<and> merge_unique inverter_queue_merge_allowed (queue_items q) \<and> list_all cmd_sized (queue_items q)"
    using assms(1) queue_reach_inv by (auto simp: bridge_queue_ok_def)
  then have "length (filter (same_register a) (queue_items q)) \<le> 1"
    using assms(3) unfolding merge_unique_def by blast
  then show ?thesis
    using accepted_push_last [of q a inverter_queue_merge_allowed "auto_write a v" v] r assms push_with_room(1) [of q a v] by simp
qed

lemma pump_pair_waits:
  fixes f x :: u16
  assumes "bridge_queue_ok q" and "length (queue_items q) \<le> 14"
  defines "q' \<equiv> snd (inverter_push (snd (inverter_push q (auto_write dev_frequency_cmd_reg f))) (auto_write dev_operation_cmd_reg x))"
  shows "filter (same_register dev_frequency_cmd_reg) (queue_items q') = [auto_write dev_frequency_cmd_reg f]"
    and "filter (same_register dev_operation_cmd_reg) (queue_items q') = [auto_write dev_operation_cmd_reg x]"
    and "a \<noteq> dev_frequency_cmd_reg \<Longrightarrow> a \<noteq> dev_operation_cmd_reg \<Longrightarrow>
      filter (same_register a) (queue_items q') = filter (same_register a) (queue_items q)"
proof -
  let ?q1 = "snd (inverter_push q (auto_write dev_frequency_cmd_reg f))"
  have i: "queue_inv q" using assms(1) queue_reach_inv by (auto simp: bridge_queue_ok_def)
  have i1: "queue_inv ?q1" using push_cmd_inv [OF i] .
  have b1: "bridge_queue_ok ?q1" using bridge_queue_push [OF assms(1)] by simp
  have l: "length (queue_items q) < CMD_QUEUE_CAPACITY" using assms(2) by simp
  have l1: "length (queue_items ?q1) < CMD_QUEUE_CAPACITY"
    using push_with_room(2) [OF i l, of dev_frequency_cmd_reg f] assms(2) by linarith
  show "filter (same_register dev_frequency_cmd_reg) (queue_items q') = [auto_write dev_frequency_cmd_reg f]"
    unfolding q'_def using push_other [OF i1, of dev_frequency_cmd_reg] merged_push_waits [OF assms(1) l] by simp
  show "filter (same_register dev_operation_cmd_reg) (queue_items q') = [auto_write dev_operation_cmd_reg x]"
    unfolding q'_def using merged_push_waits [OF b1 l1] by simp
  show "a \<noteq> dev_frequency_cmd_reg \<Longrightarrow> a \<noteq> dev_operation_cmd_reg \<Longrightarrow>
      filter (same_register a) (queue_items q') = filter (same_register a) (queue_items q)"
    unfolding q'_def using push_other [OF i1] push_other [OF i] by simp
qed

text \<open>The two register values of a duty.\<close>

definition pump_frequency :: "pool \<Rightarrow> u16 \<Rightarrow> u16" where
  "pump_frequency pl d = (if d = 0 then 0 else duty_convert_frequency pl d)"

definition pump_operation :: "u16 \<Rightarrow> u16" where
  "pump_operation d = (if d = 0 then stop_operation else run_operation)"

lemma on_main_pump_first:
  assumes "bridge_queue_ok (u_queue u)" and "length (queue_items (u_queue u)) \<le> 14" and "parse_duty s = Some d"
  shows "on_main_pump_duty_cmd pl (u # us) s =
    Some (u\<lparr>u_queue := snd (inverter_push (snd (inverter_push (u_queue u)
      (auto_write dev_frequency_cmd_reg (pump_frequency pl d)))) (auto_write dev_operation_cmd_reg (pump_operation d)))\<rparr> # us)"
  using assms(3)
  by (simp add: on_main_pump_duty_cmd_def resolve_first Let_def on_write_pair_first [OF assms(1,2)]
      pump_frequency_def pump_operation_def)

text \<open>A duty command for a reachable state whose first unit has at most 14 commands waiting
  leaves there exactly one write of the frequency register, with the duty's frequency, or 0 for
  duty 0, exactly one of the operation register, run or, for duty 0, stop, and the writes of any
  other register as they were: an older pump command is replaced, none is lost.\<close>

theorem pump_command_replaces_waiting:
  assumes "bridge_reach (u # us)" and "length (queue_items (u_queue u)) \<le> 14" and "parse_duty s = Some d"
  shows "\<exists>q. on_main_pump_duty_cmd pl (u # us) s = Some (u\<lparr>u_queue := q\<rparr> # us) \<and>
    filter (same_register dev_frequency_cmd_reg) (queue_items q) =
      [auto_write dev_frequency_cmd_reg (if d = 0 then 0 else duty_convert_frequency pl d)] \<and>
    filter (same_register dev_operation_cmd_reg) (queue_items q) =
      [auto_write dev_operation_cmd_reg (if d = 0 then stop_operation else run_operation)] \<and>
    (\<forall>a. a \<noteq> dev_frequency_cmd_reg \<longrightarrow> a \<noteq> dev_operation_cmd_reg \<longrightarrow>
      filter (same_register a) (queue_items q) = filter (same_register a) (queue_items (u_queue u)))"
proof -
  have b: "bridge_queue_ok (u_queue u)" using bridge_reach_ok [OF assms(1)] by (simp add: bridge_unit_ok_def)
  show ?thesis
    by (intro exI [of _ "snd (inverter_push (snd (inverter_push (u_queue u) (auto_write dev_frequency_cmd_reg
          (pump_frequency pl d)))) (auto_write dev_operation_cmd_reg (pump_operation d)))"] conjI allI impI,
        rule on_main_pump_first [OF b assms(2,3)], unfold pump_pair_waits [OF b assms(2)])
      (simp_all only: pump_frequency_def pump_operation_def)
qed

section \<open>A queue filled by bypass commands\<close>

lemma appended_push:
  assumes "queue_inv q" and "length (queue_items q) < CMD_QUEUE_CAPACITY"
    and "merge_into inverter_queue_merge_allowed (queue_items q) (auto_write a v) = None"
  shows "queue_items (snd (inverter_push q (auto_write a v))) = queue_items q @ [auto_write a v]"
  using cmds.push_appended [where ma = inverter_queue_merge_allowed, OF assms(1) _ assms(3,2)]
  by (simp add: cmd_accepted_def)

lemma bypass_first:
  assumes "queue_inv (u_queue u)" and "length (queue_items (u_queue u)) < CMD_QUEUE_CAPACITY"
  shows "\<exists>q. on_bypass_cmd (u # us) ''1'' = u\<lparr>u_queue := q\<rparr> # us \<and> queue_inv q \<and>
    queue_items q = queue_items (u_queue u) @ [auto_write dev_fault_control_cmd_reg INVERTER_FIRE_MODE_BIT]"
proof -
  have "merge_into inverter_queue_merge_allowed (queue_items (u_queue u))
      (auto_write dev_fault_control_cmd_reg INVERTER_FIRE_MODE_BIT) = None" by (simp add: merge_into_def)
  note a = appended_push [OF assms this]
  have "on_bypass_cmd (u # us) ''1'' =
      u\<lparr>u_queue := snd (inverter_push (u_queue u) (auto_write dev_fault_control_cmd_reg INVERTER_FIRE_MODE_BIT))\<rparr> # us"
    using on_write_accepted [OF pump_registers_writable(3) push_with_room(1) [OF assms] refl, of us]
    by (simp add: on_bypass_cmd_def resolve_first parse_one)
  with a push_cmd_inv [OF assms(1)] show ?thesis by blast
qed

lemma bypass_flood:
  "n \<le> CMD_QUEUE_CAPACITY \<Longrightarrow> \<exists>q. ((\<lambda>us. on_bypass_cmd us ''1'') ^^ n) (u\<lparr>u_queue := queue_init\<rparr> # us) = u\<lparr>u_queue := q\<rparr> # us \<and>
     queue_inv q \<and> queue_items q = replicate n (auto_write dev_fault_control_cmd_reg INVERTER_FIRE_MODE_BIT)"
proof (induction n)
  case 0
  then show ?case by (auto intro!: exI [of _ queue_init] queue_inv_init)
next
  case (Suc n)
  then obtain q where q: "((\<lambda>us. on_bypass_cmd us ''1'') ^^ n) (u\<lparr>u_queue := queue_init\<rparr> # us) = u\<lparr>u_queue := q\<rparr> # us"
    "queue_inv q" "queue_items q = replicate n (auto_write dev_fault_control_cmd_reg INVERTER_FIRE_MODE_BIT)" by auto
  from bypass_first [of "u\<lparr>u_queue := q\<rparr>" us] q Suc.prems show ?case
    by (auto simp: replicate_append_same)
qed

lemma on_write_full:
  assumes "queue_inv (u_queue u)" and "length (queue_items (u_queue u)) = CMD_QUEUE_CAPACITY"
    and "filter (same_register a) (queue_items (u_queue u)) = []"
  shows "on_write (u # us) (uid_of u) a v = (-1, u # us)"
proof (cases "mapped_writable a")
  case True
  have "merge_into inverter_queue_merge_allowed (queue_items (u_queue u)) (auto_write a v) = None"
    using assms(3) by (simp add: merge_into_def list_merge_None)
  from cmds.push_full [where ma = inverter_queue_merge_allowed, OF assms(1) _ this assms(2)]
  have "inverter_push (u_queue u) (auto_write a v) = (False, u_queue u)" by (simp add: cmd_accepted_def)
  then show ?thesis unfolding on_write_first [OF True] by simp
qed (simp add: on_write_refused)

text \<open>Writes of the fault-control register are not merged: after 16 bypass commands that the
  unit's thread has not taken out, say because the inverter is disconnected, the queue holds 16
  equal writes, and the command to stop the pump, duty 0, is dropped without any effect.\<close>

theorem bypass_flood_drops_stop:
  "\<exists>us'. ((\<lambda>us. on_bypass_cmd us ''1'') ^^ 16) (u\<lparr>u_queue := queue_init\<rparr> # us) = us' \<and>
     queue_items (u_queue (hd us')) = replicate 16 (auto_write dev_fault_control_cmd_reg INVERTER_FIRE_MODE_BIT) \<and>
     on_main_pump_duty_cmd pl us' ''0'' = Some us'"
proof -
  from bypass_flood [of 16 u us] obtain q where q:
    "((\<lambda>us. on_bypass_cmd us ''1'') ^^ 16) (u\<lparr>u_queue := queue_init\<rparr> # us) = u\<lparr>u_queue := q\<rparr> # us"
    "queue_inv q" "queue_items q = replicate 16 (auto_write dev_fault_control_cmd_reg INVERTER_FIRE_MODE_BIT)" by auto
  have "on_write (u\<lparr>u_queue := q\<rparr> # us) (uid_of u) dev_frequency_cmd_reg 0 = (-1, u\<lparr>u_queue := q\<rparr> # us)"
    using on_write_full [of "u\<lparr>u_queue := q\<rparr>" dev_frequency_cmd_reg us 0] q(2) by (simp add: q(3) same_register_def)
  then have "on_main_pump_duty_cmd pl (u\<lparr>u_queue := q\<rparr> # us) ''0'' = Some (u\<lparr>u_queue := q\<rparr> # us)"
    using resolve_first [of "u\<lparr>u_queue := q\<rparr>" us] by (simp add: on_main_pump_duty_cmd_def parse_duty_zero Let_def on_write_pair_def)
  with q show ?thesis by simp
qed

section \<open>A pool marked unreachable\<close>

lemma limits_mapped:
  "\<exists>m\<in>set (rows inverter1_profile). pool_address m = int_frequency_upper_limit_reg"
  "\<exists>m\<in>set (rows inverter1_profile). pool_address m = int_frequency_lower_limit_reg"
  unfolding list_ex_iff [symmetric] by code_simp+

lemma unreachable_limits:
  "pool_read_or_0 (uw_pool (mark_unreachable inverter1_profile w)) int_frequency_upper_limit_reg = 0xFFFF"
  "pool_read_or_0 (uw_pool (mark_unreachable inverter1_profile w)) int_frequency_lower_limit_reg = 0xFFFF"
  using limits_mapped by (simp_all add: pool_read_or_0_def pool_read_register_def mark_unreachable_pool)

text \<open>Once the scan has marked the inverter's registers unreachable, every duty above 0 becomes
  the frequency 0xFFFF: a duty command that arrives while the queue is empty leaves there a
  write of 0xFFFF to the frequency register, followed by a run command, for the next connection.\<close>

theorem unreachable_pool_commands_maximum:
  assumes "parse_duty s = Some d" and "d \<noteq> 0"
  shows "\<exists>q. on_main_pump_duty_cmd (uw_pool (mark_unreachable inverter1_profile w)) (u\<lparr>u_queue := queue_init\<rparr> # us) s =
      Some (u\<lparr>u_queue := q\<rparr> # us) \<and>
    queue_items q = [auto_write dev_frequency_cmd_reg 0xFFFF, auto_write dev_operation_cmd_reg run_operation]"
proof -
  let ?pl = "uw_pool (mark_unreachable inverter1_profile w)"
  have f: "pump_frequency ?pl d = 0xFFFF"
    using assms(2) by (simp add: pump_frequency_def duty_convert_frequency_def unreachable_limits)
  have x: "pump_operation d = run_operation" using assms(2) by (simp add: pump_operation_def)
  let ?q1 = "snd (inverter_push queue_init (auto_write dev_frequency_cmd_reg 0xFFFF))"
  have i1: "queue_inv ?q1" by (rule push_cmd_inv [OF queue_inv_init])
  have q1: "queue_items ?q1 = [auto_write dev_frequency_cmd_reg 0xFFFF]"
    using appended_push [OF queue_inv_init, where a = dev_frequency_cmd_reg and v = "0xFFFF"] by (simp add: merge_into_def)
  then have "queue_items (snd (inverter_push ?q1 (auto_write dev_operation_cmd_reg run_operation))) =
      [auto_write dev_frequency_cmd_reg 0xFFFF, auto_write dev_operation_cmd_reg run_operation]"
    using appended_push [OF i1, where a = dev_operation_cmd_reg and v = run_operation] by (simp add: merge_into_def same_register_def)
  then show ?thesis
    using on_main_pump_first [of "u\<lparr>u_queue := queue_init\<rparr>" s d ?pl us] assms(1) bridge_queue_init f x by auto
qed

section \<open>Duties as text\<close>

lemma parse_duty_fixed2: "d \<le> 10000 \<Longrightarrow> parse_duty (show_fixed2 d) \<in> {Some (of_nat d), Some (of_nat (d - 1))}"
  unfolding parse_duty_def strtof_show_fixed2 by (rule truncated_hundredths)

lemma frequency_convert_duty_le: "unat (frequency_convert_duty pl f) \<le> 10000"
proof -
  consider "upper_limit pl \<le> lower_limit pl" | "f \<le> lower_limit pl" | "upper_limit pl \<le> f" "lower_limit pl < upper_limit pl"
    | "lower_limit pl < f" "f < upper_limit pl" by fastforce
  then show ?thesis
  proof cases
    case 4
    define R D where "R = unat (upper_limit pl) - unat (lower_limit pl)" and "D = unat f - unat (lower_limit pl)"
    have "D < R" using 4 by (simp add: R_def D_def word_less_nat_alt diff_less_mono less_imp_le)
    then have "D * 10000 + R div 2 < R * 10001" by linarith
    then have "(D * 10000 + R div 2) div R < 10001" using \<open>D < R\<close> by (simp add: less_mult_imp_div_less mult.commute)
    then show ?thesis using unat_frequency_convert_duty [OF 4] by (simp add: R_def D_def)
  qed (auto simp: frequency_convert_duty_def Let_def)
qed

text \<open>The text of the duty that \<^verbatim>\<open>publish_frequency_cmd_duty\<close> derives from the frequency
  command register, sent back as a pump command, is read as the same duty or one hundredth of
  a percent less, because \<^verbatim>\<open>on_main_pump_duty_cmd\<close> truncates instead of rounding: 0.53 is read
  as 0.52.\<close>

theorem duty_text_loses_at_most_one:
  "\<exists>text. publish_frequency_cmd_duty pl = [(Some (connection_pub_state pl), None, Some ''duty_command'', Some text)] \<and>
     (let d = frequency_convert_duty pl (pool_read_or_0 pl int_frequency_write_cmd_reg)
      in parse_duty text \<in> {Some d, Some (d - 1)} \<and> (d = 0 \<longrightarrow> parse_duty text = Some 0)) \<and>
   parse_duty ''0.53'' = Some 52"
proof -
  let ?d = "frequency_convert_duty pl (pool_read_or_0 pl int_frequency_write_cmd_reg)"
  have le: "unat ?d \<le> 10000" by (rule frequency_convert_duty_le)
  have t: "take 7 (format_2f (hundredths ?d)) = show_fixed2 (unat ?d)"
    unfolding format_hundredths [OF le] using length_show_fixed2 [OF le] by simp
  have p: "parse_duty (show_fixed2 (unat ?d)) \<in> {Some (of_nat (unat ?d)), Some (of_nat (unat ?d - 1))}"
    by (rule parse_duty_fixed2 [OF le])
  have z: "?d = 0 \<Longrightarrow> parse_duty (show_fixed2 (unat ?d)) = Some 0" using p by auto
  have o: "?d \<noteq> 0 \<Longrightarrow> of_nat (unat ?d - 1) = ?d - 1" by (simp add: unat_gt_0 of_nat_diff Suc_le_eq)
  have "parse_duty (show_fixed2 (unat ?d)) \<in> {Some ?d, Some (?d - 1)}"
  proof (cases "?d = 0")
    case False
    with p o show ?thesis by simp
  next
    case True
    with z have "parse_duty (show_fixed2 (unat ?d)) = Some ?d" by simp
    then show ?thesis by blast
  qed
  with t z show ?thesis by (simp add: publish_frequency_cmd_duty_def Let_def parse_duty_53)
qed

section \<open>What is published\<close>

lemma register_published:
  assumes "cfg \<in> set cfgs" and "enabled cfg" and "m \<in> set (rows inverter1_profile)"
  shows "\<exists>text. (Some (if pl int_inverter_connection_status_reg = 1 then ''alive'' else ''disconnect''),
      None, Some (description m), Some text) \<in> set (inverter_publish_round pl cfgs) \<and>
    strtoul text = unat (pl (pool_address m))"
proof -
  have p: "pool_address m < INTERNAL_POOL_SIZE" using profile_wf_pool [OF inverter1_wf assms(3)] .
  then have r: "pool_read_register pl (pool_address m) = Some (pl (pool_address m))"
    by (simp add: pool_read_register_def not_le)
  have c: "connection_pub_state pl = (if pl int_inverter_connection_status_reg = 1 then ''alive'' else ''disconnect'')"
    by (simp add: connection_pub_state_def pool_read_register_def)
  let ?t = "show_nat (unat (pl (pool_address m)))"
  have t: "take 7 ?t = ?t" using length_show_u16 [of "pl (pool_address m)"] by simp
  have "unat (pl (pool_address m)) < 65536" by (rule unat_less_16)
  also have "(65536 :: nat) < 2 ^ 64" by simp
  finally have s: "strtoul ?t = unat (pl (pool_address m))" by (rule strtoul_show)
  have "(Some (connection_pub_state pl), None, Some (description m), Some ?t) \<in>
      set (publish_pool_register pl None (Some (description m)) (pool_address m))"
    by (simp add: publish_pool_register_def r t)
  then have "(Some (connection_pub_state pl), None, Some (description m), Some ?t) \<in> set (publish_all_pool_register pl cfg)"
    using assms(2,3) by (auto simp: publish_all_pool_register_def)
  then have "(Some (connection_pub_state pl), None, Some (description m), Some ?t) \<in> set (inverter_publish_round pl cfgs)"
    using assms(1) by (auto simp: inverter_publish_round_def)
  with s show ?thesis unfolding c by blast
qed

text \<open>For every enabled unit a round publishes each register of the inverter's map under its
  description, with a text that reads back as the value of the register's pool slot and with
  the state \<open>alive\<close> exactly when the connection slot holds 1.\<close>

theorem publish_round_faithful:
  assumes "cfg \<in> set cfgs" and "enabled cfg" and "m \<in> set (rows inverter1_profile)"
  shows "\<exists>text. (Some (if pl int_inverter_connection_status_reg = 1 then ''alive'' else ''disconnect''),
      None, Some (description m), Some text) \<in> set (inverter_publish_round pl cfgs) \<and>
    strtoul text = unat (pl (pool_address m))"
  by (rule register_published [OF assms])

section \<open>Witnesses\<close>

definition limit_pool :: pool where
  "limit_pool = (\<lambda>_. 0)(int_frequency_upper_limit_reg := 6000, int_frequency_write_cmd_reg := 3180)"

definition demo_units :: "gw_unit list" where
  "demo_units = [fresh_unit inverter1_profile rtu_module]"

lemma demo_units_reach: "bridge_reach demo_units"
  by (rule bridge_init) (simp add: demo_units_def fresh_unit_def)

lemma demo_unit_queue [simp]: "u_queue (fresh_unit inverter1_profile rtu_module) = queue_init"
  by (simp add: fresh_unit_def)

lemma limit_pool_limits:
  "pool_read_or_0 limit_pool int_frequency_lower_limit_reg = 0" "pool_read_or_0 limit_pool int_frequency_upper_limit_reg = 6000"
  by (simp_all add: limit_pool_def pool_read_or_0_def pool_read_register_def)

theorem duty_frequency_in_limits_witness:
  "duty_convert_frequency limit_pool 5300 \<le> 6000 \<and> duty_convert_frequency limit_pool 0 = 0 \<and>
   duty_convert_frequency limit_pool 12000 = 6000 \<and> duty_convert_frequency limit_pool 5300 \<le> duty_convert_frequency limit_pool 5301"
  using duty_frequency_in_limits [of limit_pool 5300 5301] duty_frequency_in_limits [of limit_pool 12000 0]
  by (simp add: limit_pool_limits)

theorem duty_round_trip_witness:
  "unat (frequency_convert_duty limit_pool (duty_convert_frequency limit_pool 5309)) \<le> 5309 \<and>
   5309 \<le> unat (frequency_convert_duty limit_pool (duty_convert_frequency limit_pool 5309)) + 4"
  using duty_round_trip [of limit_pool 5309] by (simp add: limit_pool_limits)

theorem unreachable_pool_commands_maximum_witness:
  "\<exists>q. on_main_pump_duty_cmd (uw_pool (mark_unreachable inverter1_profile demo_world))
      ((fresh_unit inverter1_profile rtu_module)\<lparr>u_queue := queue_init\<rparr> # []) ''0.53'' =
      Some ((fresh_unit inverter1_profile rtu_module)\<lparr>u_queue := q\<rparr> # []) \<and>
    queue_items q = [auto_write dev_frequency_cmd_reg 0xFFFF, auto_write dev_operation_cmd_reg run_operation]"
  using unreachable_pool_commands_maximum [OF parse_duty_53, of demo_world "fresh_unit inverter1_profile rtu_module" "[]"] by simp

theorem pump_command_replaces_waiting_witness:
  "\<exists>q. on_main_pump_duty_cmd limit_pool demo_units ''0'' = Some [(fresh_unit inverter1_profile rtu_module)\<lparr>u_queue := q\<rparr>] \<and>
    filter (same_register dev_operation_cmd_reg) (queue_items q) = [auto_write dev_operation_cmd_reg stop_operation]"
  using pump_command_replaces_waiting [OF demo_units_reach [unfolded demo_units_def] _ parse_duty_zero, of limit_pool]
  by (auto simp: demo_units_def)

theorem bridge_writes_only_permitted_witness:
  "\<exists>us c. bridge_reach us \<and> c \<in> set (queue_items (u_queue (hd us))) \<and>
    (\<exists>m. m \<in> set (rows inverter1_profile) \<and> device_address m = cmd_addr c \<and> access m \<noteq> ACCESS_RO)"
proof -
  obtain us where us: "on_bypass_cmd demo_units ''1'' = us" "us \<noteq> []"
    "queue_items (u_queue (hd us)) = [auto_write dev_fault_control_cmd_reg INVERTER_FIRE_MODE_BIT]"
    using bypass_first [of "fresh_unit inverter1_profile rtu_module" "[]"]
    by (auto simp: demo_units_def queue_inv_init)
  have r: "bridge_reach us"
    by (rule bridge_message [OF demo_units_reach, of limit_pool On_bypass "''1''"]) (simp add: inverter_handle_def us(1))
  have h: "hd us \<in> set us" using us(2) by simp
  have c: "auto_write dev_fault_control_cmd_reg INVERTER_FIRE_MODE_BIT \<in> set (queue_items (u_queue (hd us)))"
    using us(3) by simp
  have "\<exists>m. m \<in> set (rows inverter1_profile) \<and>
      device_address m = cmd_addr (auto_write dev_fault_control_cmd_reg INVERTER_FIRE_MODE_BIT) \<and> access m \<noteq> ACCESS_RO"
    using bridge_writes_only_permitted [OF r h c] by (elim conjE)
  with r c show ?thesis by blast
qed

theorem publish_round_faithful_witness:
  "\<exists>text. (Some ''disconnect'', None, Some (description (rows inverter1_profile ! 0)), Some text) \<in>
     set (inverter_publish_round limit_pool [rtu_module])"
proof -
  have "rows inverter1_profile ! 0 \<in> set (rows inverter1_profile)" by (rule nth_mem) code_simp
  then show ?thesis
    using publish_round_faithful [of rtu_module "[rtu_module]" "rows inverter1_profile ! 0" limit_pool]
    by (auto simp: rtu_module_def limit_pool_def)
qed

end
