(* ===== verification/Ups_Bridge.thy ===== *)
theory Ups_Bridge
  imports Ups_Module Bridge_Facts
begin

text \<open>
  \<^verbatim>\<open>src/ups_cmos_bridge.c\<close>: the two handlers of the UPS subscriber, which only ask the first
  running unit for an initialisation or a restart, and the publisher's view of the pool.
\<close>

section \<open>Commands\<close>

definition ups_resolve_target_uid :: "gw_unit list \<Rightarrow> u8 option" where
  "ups_resolve_target_uid us = ups_get_primary_uid us"

definition on_reboot_ups_cmd :: "gw_unit list \<Rightarrow> string \<Rightarrow> gw_unit list" where
  "on_reboot_ups_cmd us s =
     (if parse_u16 s \<noteq> 1 then us
      else case ups_resolve_target_uid us of None \<Rightarrow> us | Some uid \<Rightarrow> snd (ups_reboot_request us uid))"

definition on_init_ups_cmd :: "gw_unit list \<Rightarrow> string \<Rightarrow> gw_unit list" where
  "on_init_ups_cmd us s =
     (if parse_u16 s \<noteq> 1 then us
      else case ups_resolve_target_uid us of None \<Rightarrow> us | Some uid \<Rightarrow> snd (ups_init_request us uid))"

datatype ups_handler = On_init_ups | On_reboot_ups

definition ups_subscriptions :: "(string \<times> string option \<times> string \<times> string \<times> ups_handler) list" where
  "ups_subscriptions =
     [(''control_output'', None, ''initial'', ''request_init_status'', On_init_ups),
      (''hmi_system_cmd'', None, ''command'', ''system_reboot'', On_reboot_ups)]"

definition ups_handle :: "ups_handler \<Rightarrow> string \<Rightarrow> gw_unit list \<Rightarrow> gw_unit list" where
  "ups_handle h s us = (case h of On_init_ups \<Rightarrow> on_init_ups_cmd us s | On_reboot_ups \<Rightarrow> on_reboot_ups_cmd us s)"

section \<open>Publishing\<close>

definition ups_connection_pub_state :: "pool \<Rightarrow> string" where
  "ups_connection_pub_state pl =
     (case pool_read_register pl int_ups_connection_status_reg of
        None \<Rightarrow> ''disconnect''
      | Some conn \<Rightarrow> if conn = 1 then ''alive'' else ''disconnect'')"

definition ups_publish_pool_register :: "pool \<Rightarrow> string option \<Rightarrow> string option \<Rightarrow> u16 \<Rightarrow> pub_msg list" where
  "ups_publish_pool_register pl ty key a =
     (case pool_read_register pl a of
        None \<Rightarrow> []
      | Some v \<Rightarrow> [(Some (ups_connection_pub_state pl), ty, key, Some (take 7 (show_nat (unat v))))])"

definition ups_publish_all_pool_register :: "pool \<Rightarrow> module_config \<Rightarrow> pub_msg list" where
  "ups_publish_all_pool_register pl cfg =
     (if \<not> enabled cfg then []
      else concat (map (\<lambda>m. ups_publish_pool_register pl None (Some (description m)) (pool_address m))
             (rows ups1_profile)))"

definition ups_publish_additional_item :: "pool \<Rightarrow> module_config \<Rightarrow> pub_msg list" where
  "ups_publish_additional_item pl cfg =
     (if \<not> enabled cfg then []
      else ups_publish_pool_register pl None (Some ''ups_node'') int_ups_init_flag_reg)"

definition ups_publish_round :: "pool \<Rightarrow> module_config list \<Rightarrow> pub_msg list" where
  "ups_publish_round pl cfgs =
     concat (map (\<lambda>cfg. ups_publish_all_pool_register pl cfg @ ups_publish_additional_item pl cfg) cfgs)"

section \<open>Starting and stopping the subscriber\<close>

definition ups_cmos_bridge_start :: "bool \<Rightarrow> bool \<Rightarrow> int \<times> bool" where
  "ups_cmos_bridge_start thread_ok started = (if \<not> thread_ok then (-1, started) else (0, True))"

definition ups_cmos_bridge_stop :: "bool \<Rightarrow> bool" where
  "ups_cmos_bridge_stop started = (if \<not> started then started else False)"

section \<open>Properties\<close>

text \<open>A message to the UPS subscriber does one thing at most: with a text that \<^verbatim>\<open>strtoul\<close>
  reads as 1 (modulo 65536) it sets the request flag of the first running unit, init or reboot by
  the handler; any other text, and any message without a running unit, changes nothing. No
  queue is touched.\<close>

theorem ups_messages_only_request:
  "ups_handle h s us =
     (case us of
        [] \<Rightarrow> []
      | u # r \<Rightarrow>
          if strtoul s mod 65536 = 1
          then (case h of On_init_ups \<Rightarrow> u\<lparr>init_requested := True\<rparr> | On_reboot_ups \<Rightarrow> u\<lparr>reboot_requested := True\<rparr>) # r
          else u # r) \<and>
   map u_queue (ups_handle h s us) = map u_queue us"
proof -
  have p: "parse_u16 s = 1 \<longleftrightarrow> strtoul s mod 65536 = 1"
    unfolding parse_u16_def word_unat_eq_iff by (simp add: unat_of_nat)
  have e: "ups_handle h s us =
     (case us of
        [] \<Rightarrow> []
      | u # r \<Rightarrow>
          if parse_u16 s = 1
          then (case h of On_init_ups \<Rightarrow> u\<lparr>init_requested := True\<rparr> | On_reboot_ups \<Rightarrow> u\<lparr>reboot_requested := True\<rparr>) # r
          else u # r)"
    by (cases us)
      (auto simp: ups_handle_def on_init_ups_cmd_def on_reboot_ups_cmd_def ups_resolve_target_uid_def
        ups_get_primary_uid_def get_primary_uid_def ups_init_request_def init_request_def ups_reboot_request_def
        ups_unit_from_uid_def unit_from_uid_first split: ups_handler.splits)
  then have "map u_queue (ups_handle h s us) = map u_queue us"
    by (simp split: list.splits ups_handler.splits)
  with e [unfolded p] show ?thesis by blast
qed

end
