(* ===== verification/Config_Loader.thy ===== *)
theory Config_Loader
  imports Gateway_Config
begin

text \<open>
  \<^verbatim>\<open>src/config_loader.c\<close>: from the parsed JSON document to \<^verbatim>\<open>global_config\<close>. The document is
  an object of json-c, whose accessors are the parameter \<open>json_api\<close> over an abstract type \<open>'j\<close>
  of objects; a NULL object, which json-c also uses for JSON null, is \<^const>\<open>None\<close>. The loader
  ends the process on a bad entry: the result is a sum whose left side says how it ended.
  Strings are C strings, so they hold no NUL.
\<close>

section \<open>Parameters and results\<close>

abbreviation MODBUS_UID_MIN :: int where "MODBUS_UID_MIN \<equiv> 1"
abbreviation MODBUS_UID_MAX :: int where "MODBUS_UID_MAX \<equiv> 247"
abbreviation RTU_BAUD_MIN :: int where "RTU_BAUD_MIN \<equiv> 4800"
abbreviation RTU_BAUD_MAX :: int where "RTU_BAUD_MAX \<equiv> 115200"

text \<open>\<open>js_field\<close> is \<^verbatim>\<open>json_object_object_get_ex\<close>: \<^const>\<open>None\<close> when it answers false, else the
  field. \<open>js_array\<close> has the elements of an object of type array.\<close>

record 'j json_api =
  js_field :: "'j option \<Rightarrow> string \<Rightarrow> 'j option option"
  js_string :: "'j option \<Rightarrow> string option"
  js_boolean :: "'j option \<Rightarrow> bool"
  js_int :: "'j option \<Rightarrow> int"
  js_array :: "'j option \<Rightarrow> 'j option list option"

text \<open>\<open>Config_exit\<close> is \<^verbatim>\<open>exit(EXIT_FAILURE)\<close> after the log line with family, index, name and
  reason; \<open>Null_string\<close> is a copy from a NULL string.\<close>

datatype load_abort = File_exit | Config_exit string nat string string | Null_string

definition json_has_field :: "'j json_api \<Rightarrow> 'j option \<Rightarrow> string \<Rightarrow> bool" where
  "json_has_field api obj field = (js_field api obj field \<noteq> None)"

definition parse_modbus_format_value :: "string option \<Rightarrow> modbus_format option" where
  "parse_modbus_format_value s =
     (case s of
        None \<Rightarrow> None
      | Some f \<Rightarrow>
          if f = ''RTU'' then Some MODBUS_FORMAT_RTU
          else if f = ''TCP'' then Some MODBUS_FORMAT_TCP else None)"

definition str_is_empty :: "string option \<Rightarrow> bool" where
  "str_is_empty s = (case s of None \<Rightarrow> True | Some t \<Rightarrow> t = [])"

definition validate_rtu_baud :: "int \<Rightarrow> bool" where
  "validate_rtu_baud baud \<longleftrightarrow> RTU_BAUD_MIN \<le> baud \<and> baud \<le> RTU_BAUD_MAX \<and> baud mod 100 = 0"

section \<open>Failing\<close>

definition config_load_fail :: "string \<Rightarrow> nat \<Rightarrow> module_config option \<Rightarrow> string \<Rightarrow> load_abort" where
  "config_load_fail family i cfg reason =
     Config_exit family i
       (case cfg of None \<Rightarrow> ''(unnamed)'' | Some c \<Rightarrow> if cfg_name c \<noteq> [] then cfg_name c else ''(unnamed)'')
       reason"

definition config_fail_missing :: "string \<Rightarrow> nat \<Rightarrow> module_config \<Rightarrow> string \<Rightarrow> load_abort" where
  "config_fail_missing family i cfg field =
     config_load_fail family i (Some cfg) (take 95 (''missing required field \"'' @ field @ ''\"''))"

definition config_fail_empty :: "string \<Rightarrow> nat \<Rightarrow> module_config \<Rightarrow> string \<Rightarrow> load_abort" where
  "config_fail_empty family i cfg field =
     config_load_fail family i (Some cfg) (take 95 (''empty value for \"'' @ field @ ''\"''))"

definition config_fail_range :: "string \<Rightarrow> nat \<Rightarrow> module_config \<Rightarrow> string \<Rightarrow> string \<Rightarrow> load_abort" where
  "config_fail_range family i cfg field bounds =
     config_load_fail family i (Some cfg) (take 95 (''\"'' @ field @ ''\" out of range ('' @ bounds @ '')''))"

definition config_fail_invalid :: "string \<Rightarrow> nat \<Rightarrow> module_config \<Rightarrow> string \<Rightarrow> string \<Rightarrow> load_abort" where
  "config_fail_invalid family i cfg field expected =
     config_load_fail family i (Some cfg)
       (take 127 (''invalid \"'' @ field @ ''\" (expected '' @ expected @ '')''))"

section \<open>One entry\<close>

text \<open>\<^const>\<open>None\<close> when the entry passes every check, else how the first failing one ends.\<close>

definition validate_module_config ::
  "'j json_api \<Rightarrow> string \<Rightarrow> nat \<Rightarrow> 'j option \<Rightarrow> module_config \<Rightarrow> load_abort option" where
  "validate_module_config api family i obj cfg =
     (if \<not> json_has_field api obj ''name'' then Some (config_fail_missing family i cfg ''name'')
      else if str_is_empty (Some (cfg_name cfg)) then Some (config_fail_empty family i cfg ''name'')
      else if \<not> json_has_field api obj ''modbus_uid'' then Some (config_fail_missing family i cfg ''modbus_uid'')
      else if modbus_uid cfg < MODBUS_UID_MIN \<or> modbus_uid cfg > MODBUS_UID_MAX
        then Some (config_fail_range family i cfg ''modbus_uid'' ''1-247'')
      else if cfg_format cfg = MODBUS_FORMAT_TCP then
        (if \<not> json_has_field api obj ''ip'' then Some (config_fail_missing family i cfg ''ip'')
         else if str_is_empty (Some (cfg_ip cfg)) then Some (config_fail_empty family i cfg ''ip'')
         else if \<not> json_has_field api obj ''port'' then Some (config_fail_missing family i cfg ''port'')
         else if cfg_port cfg < 1 \<or> cfg_port cfg > 65535
           then Some (config_fail_range family i cfg ''port'' ''1-65535'')
         else None)
      else if \<not> json_has_field api obj ''path'' then Some (config_fail_missing family i cfg ''path'')
      else if str_is_empty (Some (cfg_path cfg)) then Some (config_fail_empty family i cfg ''path'')
      else if \<not> json_has_field api obj ''baud_rate'' then Some (config_fail_missing family i cfg ''baud_rate'')
      else if \<not> validate_rtu_baud (cfg_baud_rate cfg)
        then Some (config_fail_invalid family i cfg ''baud_rate'' ''4800-115200, step 100'')
      else None)"

text \<open>A string field that is copied with \<^verbatim>\<open>strncpy\<close> into a zeroed array of \<open>n + 1\<close> bytes; an
  absent field leaves the entry as it is.\<close>

definition copy_string_field ::
  "'j json_api \<Rightarrow> 'j option \<Rightarrow> string \<Rightarrow> nat \<Rightarrow> (string \<Rightarrow> module_config \<Rightarrow> module_config) \<Rightarrow>
     module_config \<Rightarrow> load_abort + module_config" where
  "copy_string_field api obj field n store cfg =
     (case js_field api obj field of
        None \<Rightarrow> Inr cfg
      | Some f \<Rightarrow> (case js_string api f of None \<Rightarrow> Inl Null_string | Some s \<Rightarrow> Inr (store (take n s) cfg)))"

definition load_module_config ::
  "'j json_api \<Rightarrow> string \<Rightarrow> nat \<Rightarrow> 'j option \<Rightarrow> module_config \<Rightarrow> load_abort + module_config" where
  "load_module_config api family i obj cfg =
     (if obj = None then Inr cfg
      else case copy_string_field api obj ''name'' 63 (\<lambda>s c. c\<lparr>cfg_name := s\<rparr>) cfg of
        Inl e \<Rightarrow> Inl e
      | Inr c1 \<Rightarrow>
          let c2 = (case js_field api obj ''enabled'' of
                      None \<Rightarrow> c1 | Some f \<Rightarrow> c1\<lparr>enabled := js_boolean api f\<rparr>);
              c3 = (case js_field api obj ''modbus_uid'' of
                      None \<Rightarrow> c2 | Some f \<Rightarrow> c2\<lparr>modbus_uid := js_int api f\<rparr>);
              format = (case js_field api obj ''modbus_format'' of
                          None \<Rightarrow> Some MODBUS_FORMAT_RTU
                        | Some f \<Rightarrow> parse_modbus_format_value (js_string api f))
          in case format of
               None \<Rightarrow> Inl (config_fail_invalid family i (c3\<lparr>cfg_format := MODBUS_FORMAT_RTU\<rparr>)
                              ''modbus_format'' ''RTU or TCP'')
             | Some MODBUS_FORMAT_TCP \<Rightarrow>
                 (case copy_string_field api obj ''ip'' 63 (\<lambda>s c. c\<lparr>cfg_ip := s\<rparr>)
                         (c3\<lparr>cfg_format := MODBUS_FORMAT_TCP\<rparr>) of
                    Inl e \<Rightarrow> Inl e
                  | Inr c4 \<Rightarrow>
                      Inr (case js_field api obj ''port'' of None \<Rightarrow> c4 | Some f \<Rightarrow> c4\<lparr>cfg_port := js_int api f\<rparr>))
             | Some MODBUS_FORMAT_RTU \<Rightarrow>
                 (case copy_string_field api obj ''path'' 255 (\<lambda>s c. c\<lparr>cfg_path := s\<rparr>)
                         (c3\<lparr>cfg_format := MODBUS_FORMAT_RTU\<rparr>) of
                    Inl e \<Rightarrow> Inl e
                  | Inr c4 \<Rightarrow>
                      Inr (case js_field api obj ''baud_rate'' of
                             None \<Rightarrow> c4 | Some f \<Rightarrow> c4\<lparr>cfg_baud_rate := js_int api f\<rparr>)))"

section \<open>The document\<close>

definition entry_enabled :: "'j json_api \<Rightarrow> 'j option \<Rightarrow> bool" where
  "entry_enabled api obj = (case js_field api obj ''enabled'' of None \<Rightarrow> False | Some f \<Rightarrow> js_boolean api f)"

text \<open>The loop of the two family loaders over the rest of the array, from index \<open>i\<close>, with the
  entries loaded so far.\<close>

fun load_entries ::
  "'j json_api \<Rightarrow> string \<Rightarrow> nat \<Rightarrow> nat \<Rightarrow> 'j option list \<Rightarrow> module_config list \<Rightarrow>
     load_abort + module_config list" where
  "load_entries api family limit i [] loaded = Inr loaded"
| "load_entries api family limit i (obj # objs) loaded =
     (if \<not> entry_enabled api obj then load_entries api family limit (i + 1) objs loaded
      else case load_module_config api family i obj zero_module_config of
        Inl e \<Rightarrow> Inl e
      | Inr cfg \<Rightarrow>
          (case validate_module_config api family i obj cfg of
             Some e \<Rightarrow> Inl e
           | None \<Rightarrow>
               if length (loaded @ [cfg]) \<ge> limit then Inr (loaded @ [cfg])
               else load_entries api family limit (i + 1) objs (loaded @ [cfg])))"

definition load_inverter_config :: "'j json_api \<Rightarrow> 'j option \<Rightarrow> load_abort + module_config list" where
  "load_inverter_config api arr =
     (case js_array api arr of
        None \<Rightarrow> Inr []
      | Some objs \<Rightarrow> load_entries api ''INVERTER'' MAX_INVERTER_COUNT 0 objs [])"

definition load_ups_config :: "'j json_api \<Rightarrow> 'j option \<Rightarrow> load_abort + module_config list" where
  "load_ups_config api arr =
     (case js_array api arr of
        None \<Rightarrow> Inr []
      | Some objs \<Rightarrow> load_entries api ''UPS'' MAX_UPS_COUNT 0 objs [])"

text \<open>\<open>root\<close> is the result of \<^verbatim>\<open>json_object_from_file\<close>.\<close>

definition load_json_config :: "'j json_api \<Rightarrow> 'j option \<Rightarrow> load_abort + system_config" where
  "load_json_config api root =
     (if root = None then Inl File_exit
      else case (case js_field api root ''INVERTER'' of None \<Rightarrow> Inr [] | Some a \<Rightarrow> load_inverter_config api a) of
        Inl e \<Rightarrow> Inl e
      | Inr invs \<Rightarrow>
          (case (case js_field api root ''UPS'' of None \<Rightarrow> Inr [] | Some a \<Rightarrow> load_ups_config api a) of
             Inl e \<Rightarrow> Inl e
           | Inr upss \<Rightarrow> Inr \<lparr>inverter = invs, ups = upss\<rparr>))"

section \<open>Lemmas\<close>

text \<open>What an accepted entry satisfies.\<close>

definition module_ok :: "module_config \<Rightarrow> bool" where
  "module_ok c \<longleftrightarrow> enabled c \<and> cfg_name c \<noteq> [] \<and> length (cfg_name c) \<le> 63 \<and>
     1 \<le> modbus_uid c \<and> modbus_uid c \<le> 247 \<and>
     (if cfg_format c = MODBUS_FORMAT_TCP
      then cfg_ip c \<noteq> [] \<and> length (cfg_ip c) \<le> 63 \<and> 1 \<le> cfg_port c \<and> cfg_port c \<le> 65535
      else cfg_path c \<noteq> [] \<and> length (cfg_path c) \<le> 255 \<and> validate_rtu_baud (cfg_baud_rate c))"

lemmas config_fail_defs = config_fail_missing_def config_fail_empty_def config_fail_range_def
  config_fail_invalid_def config_load_fail_def

lemma copy_string_name:
  "copy_string_field api obj f n (\<lambda>s c. c\<lparr>cfg_name := s\<rparr>) cfg = Inr cfg' \<Longrightarrow> length (cfg_name cfg) \<le> n \<Longrightarrow>
     length (cfg_name cfg') \<le> n \<and> enabled cfg' = enabled cfg \<and> cfg_ip cfg' = cfg_ip cfg \<and> cfg_path cfg' = cfg_path cfg"
  by (auto simp: copy_string_field_def split: option.splits)

lemma copy_string_ip:
  "copy_string_field api obj f n (\<lambda>s c. c\<lparr>cfg_ip := s\<rparr>) cfg = Inr cfg' \<Longrightarrow> length (cfg_ip cfg) \<le> n \<Longrightarrow>
     length (cfg_ip cfg') \<le> n \<and> enabled cfg' = enabled cfg \<and> cfg_name cfg' = cfg_name cfg \<and>
     cfg_path cfg' = cfg_path cfg \<and> cfg_format cfg' = cfg_format cfg"
  by (auto simp: copy_string_field_def split: option.splits)

lemma copy_string_path:
  "copy_string_field api obj f n (\<lambda>s c. c\<lparr>cfg_path := s\<rparr>) cfg = Inr cfg' \<Longrightarrow> length (cfg_path cfg) \<le> n \<Longrightarrow>
     length (cfg_path cfg') \<le> n \<and> enabled cfg' = enabled cfg \<and> cfg_name cfg' = cfg_name cfg \<and>
     cfg_format cfg' = cfg_format cfg"
  by (auto simp: copy_string_field_def split: option.splits)

lemma load_module_lengths:
  assumes l: "load_module_config api family i obj zero_module_config = Inr cfg"
    and en: "entry_enabled api obj" and nn: "obj \<noteq> None"
  shows "enabled cfg \<and> length (cfg_name cfg) \<le> 63 \<and>
    (cfg_format cfg = MODBUS_FORMAT_TCP \<longrightarrow> length (cfg_ip cfg) \<le> 63) \<and>
    (cfg_format cfg = MODBUS_FORMAT_RTU \<longrightarrow> length (cfg_path cfg) \<le> 255)"
proof -
  obtain c1 where n: "copy_string_field api obj ''name'' 63 (\<lambda>s c. c\<lparr>cfg_name := s\<rparr>) zero_module_config = Inr c1"
    using l nn by (auto simp: load_module_config_def split: sum.splits)
  from copy_string_name [OF n] have c1: "length (cfg_name c1) \<le> 63" "cfg_ip c1 = []" "cfg_path c1 = []"
    by (simp_all add: zero_module_config_def)
  obtain f where f: "js_field api obj ''enabled'' = Some f" "js_boolean api f"
    using en by (auto simp: entry_enabled_def split: option.splits)
  define c3 where "c3 = (case js_field api obj ''modbus_uid'' of None \<Rightarrow> c1\<lparr>enabled := True\<rparr>
     | Some f \<Rightarrow> c1\<lparr>enabled := True, modbus_uid := js_int api f\<rparr>)"
  have c3: "enabled c3" "cfg_name c3 = cfg_name c1" "cfg_ip c3 = []" "cfg_path c3 = []"
    using c1 by (simp_all add: c3_def split: option.splits)
  show ?thesis
  proof (cases "(case js_field api obj ''modbus_format'' of None \<Rightarrow> Some MODBUS_FORMAT_RTU
      | Some f \<Rightarrow> parse_modbus_format_value (js_string api f)) = Some MODBUS_FORMAT_TCP")
    case True
    then obtain c4 where c4: "copy_string_field api obj ''ip'' 63 (\<lambda>s c. c\<lparr>cfg_ip := s\<rparr>)
        (c3\<lparr>cfg_format := MODBUS_FORMAT_TCP\<rparr>) = Inr c4"
      "cfg = (case js_field api obj ''port'' of None \<Rightarrow> c4 | Some f \<Rightarrow> c4\<lparr>cfg_port := js_int api f\<rparr>)"
      using l nn n f by (auto simp: load_module_config_def Let_def c3_def split: sum.splits)
    from copy_string_ip [OF c4(1)] c3 c1 c4(2) show ?thesis by (auto split: option.splits)
  next
    case False
    then obtain c4 where c4: "copy_string_field api obj ''path'' 255 (\<lambda>s c. c\<lparr>cfg_path := s\<rparr>)
        (c3\<lparr>cfg_format := MODBUS_FORMAT_RTU\<rparr>) = Inr c4"
      "cfg = (case js_field api obj ''baud_rate'' of None \<Rightarrow> c4 | Some f \<Rightarrow> c4\<lparr>cfg_baud_rate := js_int api f\<rparr>)"
      using l nn n f
      by (cases "case js_field api obj ''modbus_format'' of None \<Rightarrow> Some MODBUS_FORMAT_RTU
          | Some f \<Rightarrow> parse_modbus_format_value (js_string api f)")
        (auto simp: load_module_config_def Let_def c3_def split: sum.splits modbus_format.splits)
    from copy_string_path [OF c4(1)] c3 c1 c4(2) show ?thesis by (auto split: option.splits)
  qed
qed

lemma validated_module_ok:
  assumes "load_module_config api family i obj zero_module_config = Inr cfg"
    and "validate_module_config api family i obj cfg = None" and "entry_enabled api obj"
  shows "module_ok cfg"
proof (cases "obj = None")
  case True
  with assms(1,2) show ?thesis
    by (auto simp: load_module_config_def zero_module_config_def validate_module_config_def str_is_empty_def
        split: if_splits)
next
  case False
  from load_module_lengths [OF assms(1,3) False] assms(2) show ?thesis
    by (cases "cfg_format cfg") (auto simp: module_ok_def validate_module_config_def str_is_empty_def split: if_splits)
qed

text \<open>An entry on its own: what is loaded of it, when it is accepted.\<close>

definition entry_config :: "'j json_api \<Rightarrow> string \<Rightarrow> 'j option \<Rightarrow> module_config option" where
  "entry_config api family obj =
     (case load_module_config api family 0 obj zero_module_config of
        Inl _ \<Rightarrow> None
      | Inr c \<Rightarrow> if validate_module_config api family 0 obj c = None then Some c else None)"

lemma load_index: "load_module_config api family i obj z = Inr c \<longleftrightarrow> load_module_config api family 0 obj z = Inr c"
  by (auto simp: load_module_config_def Let_def split: option.splits sum.splits modbus_format.splits)

lemma validate_index:
  "validate_module_config api family i obj c = None \<longleftrightarrow> validate_module_config api family 0 obj c = None"
  by (simp add: validate_module_config_def)

lemma entry_config_Some:
  "entry_config api family obj = Some c \<longleftrightarrow>
     load_module_config api family i obj zero_module_config = Inr c \<and> validate_module_config api family i obj c = None"
  unfolding load_index [of api family i] validate_index [of api family i] entry_config_def
  by (auto split: sum.splits)

text \<open>The loop loads the first entries that are enabled, up to the limit, and ends the process
  when one of them is not accepted.\<close>

lemma load_entries_spec:
  fixes api :: "'j json_api"
  assumes "length loaded < limit"
  defines "es \<equiv> \<lambda>objs n. take n (filter (entry_enabled api) objs)"
  shows "(\<forall>cs. load_entries api family limit i objs loaded = Inr cs \<longrightarrow>
      (\<exists>new. cs = loaded @ new \<and> map Some new = map (entry_config api family) (es objs (limit - length loaded)))) \<and>
    (\<forall>e. load_entries api family limit i objs loaded = Inl e \<longrightarrow>
      (\<exists>obj\<in>set (es objs (limit - length loaded)). entry_config api family obj = None))"
  using assms(1)
proof (induction objs arbitrary: i loaded)
  case Nil
  then show ?case by (simp add: es_def)
next
  case (Cons obj objs)
  obtain k where k: "limit - length loaded = Suc k" using Cons.prems by (cases "limit - length loaded") auto
  show ?case
  proof (cases "entry_enabled api obj")
    case False
    with Cons.IH [OF Cons.prems, of "i + 1"] show ?thesis by (simp add: es_def)
  next
    case en: True
    then have es: "es (obj # objs) (Suc k) = obj # es objs k" by (simp add: es_def)
    show ?thesis
    proof (cases "entry_config api family obj")
      case None
      have "\<exists>e. load_entries api family limit i (obj # objs) loaded = Inl e"
      proof (cases "load_module_config api family i obj zero_module_config")
        case (Inr c)
        with None have "validate_module_config api family i obj c \<noteq> None"
          using entry_config_Some [of api family obj c i] by auto
        with en Inr show ?thesis by auto
      qed (use en in auto)
      with None k es show ?thesis by auto
    next
      case (Some c)
      from Some entry_config_Some [of api family obj c i] have c:
        "load_module_config api family i obj zero_module_config = Inr c"
        "validate_module_config api family i obj c = None" by auto
      show ?thesis
      proof (cases "length (loaded @ [c]) \<ge> limit")
        case True
        with k have "k = 0" by simp
        then have "es objs k = []" by (simp add: es_def)
        with en c Some True k es show ?thesis by auto
      next
        case False
        with k have l: "limit - length (loaded @ [c]) = k" "length (loaded @ [c]) < limit" by simp_all
        have "load_entries api family limit i (obj # objs) loaded = load_entries api family limit (i + 1) objs (loaded @ [c])"
          using en c False by simp
        with Cons.IH [OF l(2), of "i + 1"] l(1) Some k es show ?thesis by (auto simp del: load_entries.simps)
      qed
    qed
  qed
qed

lemma entry_config_ok: "entry_config api family obj = Some c \<Longrightarrow> entry_enabled api obj \<Longrightarrow> module_ok c"
  using entry_config_Some [of api family obj c 0] validated_module_ok by blast

lemma map_Some_inj: "map Some xs = map Some ys \<longleftrightarrow> xs = ys"
  by (simp add: inj_map_eq_map)

lemma loaded_entries:
  assumes "0 < limit"
  shows "load_entries api family limit 0 objs [] = Inr cs \<longleftrightarrow>
    map Some cs = map (entry_config api family) (take limit (filter (entry_enabled api) objs))"
proof -
  note s = load_entries_spec [of "[]" limit api family 0 objs, simplified]
  show ?thesis
  proof (cases "load_entries api family limit 0 objs []")
    case (Inl e)
    with s assms obtain obj where "obj \<in> set (take limit (filter (entry_enabled api) objs))"
      "entry_config api family obj = None" by blast
    then have "None \<in> set (map (entry_config api family) (take limit (filter (entry_enabled api) objs)))"
      by (metis image_eqI list.set_map)
    moreover have "None \<notin> set (map Some cs)" by auto
    ultimately show ?thesis using Inl by (metis sum.distinct(1))
  next
    case (Inr cs')
    with s assms have "map Some cs' = map (entry_config api family) (take limit (filter (entry_enabled api) objs))" by blast
    then show ?thesis using Inr map_Some_inj by (metis sum.inject(2))
  qed
qed

lemma loaded_entries_ok:
  assumes "map Some cs = map (entry_config api family) (take limit (filter (entry_enabled api) objs))"
  shows "length cs \<le> limit \<and> (\<forall>c\<in>set cs. module_ok c)"
proof
  have "length (map Some cs) \<le> limit" by (simp only: assms) simp
  then show "length cs \<le> limit" by simp
  show "\<forall>c\<in>set cs. module_ok c"
  proof
    fix c assume "c \<in> set cs"
    then have "Some c \<in> set (map Some cs)" by simp
    then obtain obj where "obj \<in> set (take limit (filter (entry_enabled api) objs))" "entry_config api family obj = Some c"
      unfolding assms by auto
    with entry_config_ok set_take_subset show "module_ok c" by fastforce
  qed
qed

section \<open>Properties\<close>

text \<open>
  The two family loaders return exactly the accepted settings of the first ten enabled
  entries of the array, in order; when one of these is not acceptable there is no result, for
  the process ends.
\<close>

theorem loads_first_enabled_entries:
  assumes "js_array api arr = Some objs"
  shows "(load_inverter_config api arr = Inr invs \<longleftrightarrow>
      map Some invs = map (entry_config api ''INVERTER'') (take MAX_INVERTER_COUNT (filter (entry_enabled api) objs))) \<and>
    (load_ups_config api arr = Inr upss \<longleftrightarrow>
      map Some upss = map (entry_config api ''UPS'') (take MAX_UPS_COUNT (filter (entry_enabled api) objs)))"
  using assms by (simp add: load_inverter_config_def load_ups_config_def loaded_entries)

lemma family_ok:
  "load_inverter_config api arr = Inr cs \<Longrightarrow> length cs \<le> 10 \<and> (\<forall>c\<in>set cs. module_ok c)"
  "load_ups_config api arr = Inr cs \<Longrightarrow> length cs \<le> 10 \<and> (\<forall>c\<in>set cs. module_ok c)"
  by (auto simp: load_inverter_config_def load_ups_config_def loaded_entries dest!: loaded_entries_ok split: option.splits)

text \<open>
  C20. Whatever the document holds, a configuration that loads has at most ten entries per
  family, each enabled, named, with a unit id from 1 to 247 and a complete transport: address
  and port 1 to 65535 for TCP, a path and a speed from 4800 to 115200 in steps of 100 for RTU;
  every string fits its array with the terminating NUL.
\<close>

theorem loaded_config_valid:
  assumes "load_json_config api root = Inr cfg"
  shows "length (inverter cfg) \<le> MAX_INVERTER_COUNT \<and> length (ups cfg) \<le> MAX_UPS_COUNT \<and>
    (\<forall>c\<in>set (inverter cfg) \<union> set (ups cfg). module_ok c)"
  using assms
  by (auto simp: load_json_config_def split: if_splits option.splits sum.splits dest: family_ok)

text \<open>
  A name that is JSON null ends the loading of an enabled entry with a copy from a NULL
  string, before any of the checks that would report it.
\<close>

theorem null_name_not_reported:
  assumes "js_field api (Some obj) ''name'' = Some None" and "js_string api None = None"
  shows "load_module_config api family i (Some obj) cfg = Inl Null_string"
  using assms by (simp add: load_module_config_def copy_string_field_def)

section \<open>A document\<close>

datatype demo_json =
    Demo_object "(string \<times> demo_json option) list"
  | Demo_array "demo_json option list"
  | Demo_string string
  | Demo_int int
  | Demo_bool bool

definition demo_api :: "demo_json json_api" where
  "demo_api =
     \<lparr>js_field = (\<lambda>j k. case j of Some (Demo_object fs) \<Rightarrow> map_of fs k | _ \<Rightarrow> None),
      js_string = (\<lambda>j. case j of Some (Demo_string s) \<Rightarrow> Some s | None \<Rightarrow> None | _ \<Rightarrow> Some ''''),
      js_boolean = (\<lambda>j. case j of Some (Demo_bool b) \<Rightarrow> b | _ \<Rightarrow> False),
      js_int = (\<lambda>j. case j of Some (Demo_int i) \<Rightarrow> i | _ \<Rightarrow> 0),
      js_array = (\<lambda>j. case j of Some (Demo_array js) \<Rightarrow> Some js | _ \<Rightarrow> None)\<rparr>"

definition demo_entry :: "string \<Rightarrow> demo_json option" where
  "demo_entry name = Some (Demo_object
     [(''name'', Some (Demo_string name)), (''enabled'', Some (Demo_bool True)),
      (''modbus_format'', Some (Demo_string ''RTU'')), (''modbus_uid'', Some (Demo_int 1)),
      (''path'', Some (Demo_string ''/dev/ttyUSB0'')), (''baud_rate'', Some (Demo_int 19200))])"

definition demo_config :: "string \<Rightarrow> module_config" where
  "demo_config name = \<lparr>cfg_name = name, enabled = True, modbus_uid = 1, cfg_format = MODBUS_FORMAT_RTU,
     cfg_path = ''/dev/ttyUSB0'', cfg_baud_rate = 19200, cfg_ip = [], cfg_port = 0\<rparr>"

definition demo_root :: "demo_json option" where
  "demo_root = Some (Demo_object
     [(''INVERTER'', Some (Demo_array [demo_entry ''INV1'', None, demo_entry ''INV2''])), (''UPS'', None)])"

lemma demo_entry_enabled [simp]: "entry_enabled demo_api (demo_entry n)" "\<not> entry_enabled demo_api None"
  by (simp_all add: entry_enabled_def demo_api_def demo_entry_def)

lemma demo_array: "js_array demo_api (Some (Demo_array js)) = Some js"
  by (simp add: demo_api_def)

lemma demo_entry_config:
  "n \<noteq> [] \<Longrightarrow> length n \<le> 63 \<Longrightarrow> entry_config demo_api family (demo_entry n) = Some (demo_config n)"
  by (simp add: entry_config_def load_module_config_def demo_entry_def demo_api_def copy_string_field_def
      zero_module_config_def parse_modbus_format_value_def validate_module_config_def str_is_empty_def
      json_has_field_def validate_rtu_baud_def demo_config_def)

theorem loads_first_enabled_entries_witness:
  "load_inverter_config demo_api (Some (Demo_array [demo_entry ''INV1'', None, demo_entry ''INV2''])) =
     Inr [demo_config ''INV1'', demo_config ''INV2'']"
  using conjunct1 [OF loads_first_enabled_entries [OF demo_array]] by (simp add: demo_entry_config)

lemma demo_root_loads:
  "load_json_config demo_api demo_root = Inr \<lparr>inverter = [demo_config ''INV1'', demo_config ''INV2''], ups = []\<rparr>"
proof -
  have "load_inverter_config demo_api (Some (Demo_array [demo_entry ''INV1'', None, demo_entry ''INV2''])) =
      Inr [demo_config ''INV1'', demo_config ''INV2'']"
    by (simp add: load_inverter_config_def loaded_entries demo_entry_config demo_array del: load_entries.simps)
  then show ?thesis
    by (simp add: load_json_config_def demo_root_def demo_api_def load_ups_config_def)
qed

theorem loaded_config_valid_witness: "module_ok (demo_config ''INV2'')"
  using loaded_config_valid [OF demo_root_loads] by simp

theorem null_name_not_reported_witness:
  "load_module_config demo_api ''UPS'' 0 (Some (Demo_object [(''name'', None)])) zero_module_config = Inl Null_string"
  by (rule null_name_not_reported) (simp_all add: demo_api_def)

end
