(* ===== verification/Daemon_Main.thy ===== *)
theory Daemon_Main
  imports Unit_Start Alarm_Units Ups_Bridge Config_Loader
begin

text \<open>
  \<^verbatim>\<open>src/main.c\<close>: the command line, the start of the publishers, the modules and the alarm
  monitor, and the shutdown, composed of the components' own start and stop operations; with
  the log level of \<^verbatim>\<open>lib/log/log.c\<close>. The operating system's answers (the configuration file, the
  shared mapping, \<^verbatim>\<open>fork\<close>, thread creation, the clock) are the fields of \<open>daemon_os\<close>. What the
  threads do to pool and databases while the main thread waits is one function of the alarm
  environment; they do not start or stop units.
\<close>

section \<open>Command line\<close>

datatype daemon_opt = Opt_c string | Opt_l string | Opt_usage

text \<open>\<^verbatim>\<open>getopt(argc, argv, "c:l:h")\<close> of the GNU C library over the arguments after the program
  name: operands are skipped, \<open>--\<close> ends the options, an option without its argument and an
  unknown one are reported, as \<open>-h\<close> is, in one way.\<close>

definition opt_of :: "char \<Rightarrow> string \<Rightarrow> daemon_opt" where
  "opt_of c v = (if c = CHR ''c'' then Opt_c v else Opt_l v)"

function getopt_args :: "string list \<Rightarrow> daemon_opt list"
  and getopt_cluster :: "string \<Rightarrow> string list \<Rightarrow> daemon_opt list" where
  "getopt_args [] = []"
| "getopt_args (a # as) =
     (if a = ''--'' then []
      else if length a < 2 \<or> hd a \<noteq> CHR ''-'' then getopt_args as
      else getopt_cluster (tl a) as)"
| "getopt_cluster [] as = getopt_args as"
| "getopt_cluster (c # cs) as =
     (if c = CHR ''c'' \<or> c = CHR ''l''
      then if cs \<noteq> [] then opt_of c cs # getopt_args as
           else (case as of [] \<Rightarrow> [Opt_usage] | v # as' \<Rightarrow> opt_of c v # getopt_args as')
      else Opt_usage # getopt_cluster cs as)"
  by pat_completeness auto
termination
  by (relation "measure (\<lambda>x. case x of Inl as \<Rightarrow> sum_list (map (\<lambda>a. length a + 2) as)
      | Inr (cs, as) \<Rightarrow> length cs + 1 + sum_list (map (\<lambda>a. length a + 2) as))") auto

text \<open>The loop of \<^verbatim>\<open>parse_arguments\<close>; \<^const>\<open>None\<close> is the exit after the usage text.\<close>

fun apply_options :: "daemon_opt list \<Rightarrow> string \<times> u32 \<Rightarrow> (string \<times> u32) option" where
  "apply_options [] s = Some s"
| "apply_options (Opt_c v # os) (path, level) = apply_options os (v, level)"
| "apply_options (Opt_l v # os) (path, level) = apply_options os (path, atoi v)"
| "apply_options (Opt_usage # os) s = None"

definition parse_arguments :: "string list \<Rightarrow> string \<times> u32 \<Rightarrow> (string \<times> u32) option" where
  "parse_arguments args s = apply_options (getopt_args args) s"

section \<open>Logging\<close>

abbreviation LOG_LEVEL_INFO :: u32 where "LOG_LEVEL_INFO \<equiv> 2"
abbreviation LOG_LEVEL_ERROR :: u32 where "LOG_LEVEL_ERROR \<equiv> 4"

text \<open>The enumeration has no negative constant, so its values compare as unsigned.\<close>

definition log_message_printed :: "u32 \<Rightarrow> u32 \<Rightarrow> bool" where
  "log_message_printed current_log_level level \<longleftrightarrow> \<not> (level < current_log_level \<and> level < LOG_LEVEL_ERROR)"

section \<open>State\<close>

datatype family = Inverter_family | Ups_family

datatype daemon_step =
    Step_config string
  | Step_bus_init
  | Step_pool_init
  | Step_signals
  | Step_fork family int
  | Step_start family int
  | Step_alarm_tables
  | Step_monitor_start int
  | Step_wait
  | Step_monitor_stop
  | Step_stop family
  | Step_db_close
  | Step_kill family int
  | Step_reap family int

record 'w daemon =
  dm_config :: system_config
  dm_log_level :: u32
  dm_bus :: bus_slots
  dm_map :: device_map_state
  dm_inv_units :: "gw_unit list"
  dm_ups_units :: "gw_unit list"
  dm_inv_sub :: bool
  dm_ups_sub :: bool
  g_inverter_pub_pid :: int
  g_ups_pub_pid :: int
  dm_monitor :: "'w alarm_env alarm_bridge"
  dm_env :: "'w alarm_env"
  dm_steps :: "daemon_step list"

text \<open>\<open>os_fork\<close> is what \<^verbatim>\<open>fork\<close> returns to the parent, \<^const>\<open>None\<close> for a failure; the child
  runs the publisher loop and never returns to this code.\<close>

record ('j, 'w) daemon_os =
  os_json :: "'j json_api"
  os_file :: "string \<Rightarrow> 'j option"
  os_mmap :: bool
  os_rwlock :: bool
  os_fork :: "family \<Rightarrow> nat option"
  os_inv_thread :: "nat \<Rightarrow> bool"
  os_ups_thread :: "nat \<Rightarrow> bool"
  os_inv_sub :: bool
  os_ups_sub :: bool
  os_monitor :: bool
  os_now :: u64
  os_sqlite :: "'w sqlite_api"
  os_work :: "'w alarm_env \<Rightarrow> 'w alarm_env"

definition did :: "daemon_step \<Rightarrow> 'w daemon \<Rightarrow> 'w daemon" where
  "did s d = d\<lparr>dm_steps := dm_steps d @ [s]\<rparr>"

text \<open>The static data before \<^verbatim>\<open>main\<close>.\<close>

definition daemon_zero :: "'w \<Rightarrow> 'w daemon" where
  "daemon_zero w =
     \<lparr>dm_config = \<lparr>inverter = [], ups = []\<rparr>, dm_log_level = LOG_LEVEL_INFO, dm_bus = bus_coord_init,
      dm_map = \<lparr>region = None, registered_profiles = []\<rparr>, dm_inv_units = [], dm_ups_units = [],
      dm_inv_sub = False, dm_ups_sub = False, g_inverter_pub_pid = -1, g_ups_pub_pid = -1,
      dm_monitor = alarm_bridge_initial, dm_env = \<lparr>ae_pool = (\<lambda>_. 0), ae_dbs = [], ae_world = w\<rparr>, dm_steps = []\<rparr>"

section \<open>Publishers\<close>

fun family_has_enabled :: "module_config list \<Rightarrow> bool" where
  "family_has_enabled [] = False"
| "family_has_enabled (c # cs) = (if enabled c then True else family_has_enabled cs)"

definition fork_cmos_publisher :: "('j, 'w) daemon_os \<Rightarrow> family \<Rightarrow> int" where
  "fork_cmos_publisher sys f = (case os_fork sys f of None \<Rightarrow> -1 | Some pid \<Rightarrow> int pid)"

text \<open>The steps are \<^verbatim>\<open>kill\<close> and \<^verbatim>\<open>waitpid\<close>; their results only reach the log.\<close>

definition stop_cmos_publisher :: "family \<Rightarrow> int \<Rightarrow> daemon_step list \<times> int" where
  "stop_cmos_publisher f pid = (if pid \<le> 0 then ([], pid) else ([Step_kill f pid, Step_reap f pid], -1))"

section \<open>Shutdown\<close>

definition shutdown_runtime :: "('j, 'w) daemon_os \<Rightarrow> 'w daemon \<Rightarrow> 'w daemon" where
  "shutdown_runtime sys d =
     (let d1 = did Step_monitor_stop (d\<lparr>dm_monitor := alarm_bridge_stop (dm_monitor d)\<rparr>);
          d2 = did (Step_stop Inverter_family)
                 (d1\<lparr>dm_inv_sub := inverter_cmos_bridge_stop (dm_inv_sub d1),
                     dm_inv_units := snd (snd (stop_inverter_modules (dm_inv_units d1)))\<rparr>);
          d3 = did (Step_stop Ups_family)
                 (d2\<lparr>dm_ups_sub := ups_cmos_bridge_stop (dm_ups_sub d2),
                     dm_ups_units := snd (snd (stop_ups_modules (dm_ups_units d2)))\<rparr>);
          (dbs, w) = alarm_manager_close (os_sqlite sys) (ae_dbs (dm_env d3)) (ae_world (dm_env d3));
          d4 = did Step_db_close (d3\<lparr>dm_env := (dm_env d3)\<lparr>ae_dbs := dbs, ae_world := w\<rparr>\<rparr>);
          (s5, pid5) = stop_cmos_publisher Inverter_family (g_inverter_pub_pid d4);
          d5 = d4\<lparr>g_inverter_pub_pid := pid5, dm_steps := dm_steps d4 @ s5\<rparr>;
          (s6, pid6) = stop_cmos_publisher Ups_family (g_ups_pub_pid d5)
      in d5\<lparr>g_ups_pub_pid := pid6, dm_steps := dm_steps d5 @ s6\<rparr>)"

text \<open>How the process ends: with a status, or with a copy from a NULL string in the loader.\<close>

datatype daemon_exit = Exit_status int | Crash

definition EXIT_FAILURE :: int where
  "EXIT_FAILURE = 1"

definition startup_failed :: "('j, 'w) daemon_os \<Rightarrow> 'w daemon \<Rightarrow> daemon_exit \<times> 'w daemon" where
  "startup_failed sys d = (Exit_status EXIT_FAILURE, shutdown_runtime sys d)"

section \<open>Start\<close>

text \<open>Each step of the start gives the state on the left when it fails.\<close>

definition start_inverter_publisher :: "('j, 'w) daemon_os \<Rightarrow> 'w daemon \<Rightarrow> 'w daemon + 'w daemon" where
  "start_inverter_publisher sys d =
     (if family_has_enabled (inverter (dm_config d))
      then let pid = fork_cmos_publisher sys Inverter_family;
               d1 = did (Step_fork Inverter_family pid) (d\<lparr>g_inverter_pub_pid := pid\<rparr>)
           in if pid < 0 then Inl d1 else Inr d1
      else Inr d)"

definition start_ups_publisher :: "('j, 'w) daemon_os \<Rightarrow> 'w daemon \<Rightarrow> 'w daemon + 'w daemon" where
  "start_ups_publisher sys d =
     (if family_has_enabled (ups (dm_config d))
      then let pid = fork_cmos_publisher sys Ups_family;
               d1 = did (Step_fork Ups_family pid) (d\<lparr>g_ups_pub_pid := pid\<rparr>)
           in if pid < 0 then Inl d1 else Inr d1
      else Inr d)"

definition start_inverters :: "('j, 'w) daemon_os \<Rightarrow> 'w daemon \<Rightarrow> 'w daemon + 'w daemon" where
  "start_inverters sys d =
     (let (rc, sub) = inverter_cmos_bridge_start (os_inv_sub sys) (dm_inv_sub d);
          s = start_inverter_modules (os_inv_thread sys) rc (inverter (dm_config d)) (dm_map d) (ae_pool (dm_env d));
          d1 = did (Step_start Inverter_family (ss_status s))
                 (d\<lparr>dm_map := ss_map s, dm_env := (dm_env d)\<lparr>ae_pool := ss_pool s\<rparr>, dm_inv_units := ss_units s,
                    dm_inv_sub := sub\<rparr>)
      in if ss_status s \<noteq> 0 then Inl d1 else Inr d1)"

definition start_upss :: "('j, 'w) daemon_os \<Rightarrow> 'w daemon \<Rightarrow> 'w daemon + 'w daemon" where
  "start_upss sys d =
     (let (rc, sub) = ups_cmos_bridge_start (os_ups_sub sys) (dm_ups_sub d);
          s = start_ups_modules (os_ups_thread sys) rc (ups (dm_config d)) (dm_map d) (ae_pool (dm_env d));
          d1 = did (Step_start Ups_family (ss_status s))
                 (d\<lparr>dm_map := ss_map s, dm_env := (dm_env d)\<lparr>ae_pool := ss_pool s\<rparr>, dm_ups_units := ss_units s,
                    dm_ups_sub := sub\<rparr>)
      in if ss_status s \<noteq> 0 then Inl d1 else Inr d1)"

definition start_alarms :: "('j, 'w) daemon_os \<Rightarrow> 'w daemon \<Rightarrow> 'w daemon + 'w daemon" where
  "start_alarms sys d =
     (let b = ups_alarm_register_all (os_sqlite sys) (ups (dm_config d))
                (inverter_alarm_register_all (os_sqlite sys) (inverter (dm_config d)) (dm_monitor d));
          (rc, b1) = alarm_bridge_start (os_now sys) (os_monitor sys) b;
          d1 = did (Step_monitor_start rc) (did Step_alarm_tables (d\<lparr>dm_monitor := b1\<rparr>))
      in if rc \<noteq> 0 then Inl d1 else Inr d1)"

definition and_then :: "'e + 'a \<Rightarrow> ('a \<Rightarrow> 'e + 'b) \<Rightarrow> 'e + 'b" where
  "and_then r f = (case r of Inl e \<Rightarrow> Inl e | Inr a \<Rightarrow> f a)"

definition start_daemon :: "('j, 'w) daemon_os \<Rightarrow> 'w daemon \<Rightarrow> 'w daemon + 'w daemon" where
  "start_daemon sys d =
     and_then (and_then (and_then (and_then (start_inverter_publisher sys d)
       (start_ups_publisher sys)) (start_inverters sys)) (start_upss sys)) (start_alarms sys)"

text \<open>The part of \<^verbatim>\<open>main\<close> from the configuration on; the wait ends with a signal.\<close>

definition run_daemon :: "('j, 'w) daemon_os \<Rightarrow> 'w daemon \<Rightarrow> daemon_exit \<times> 'w daemon" where
  "run_daemon sys d =
     (case start_daemon sys d of
        Inl d1 \<Rightarrow> startup_failed sys d1
      | Inr d1 \<Rightarrow>
          (Exit_status 0, shutdown_runtime sys (did Step_wait (d1\<lparr>dm_env := os_work sys (dm_env d1)\<rparr>))))"

definition default_path :: string where
  "default_path = ''./config/config.json''"

definition prepare_daemon :: "('j, 'w) daemon_os \<Rightarrow> string \<Rightarrow> u32 \<Rightarrow> system_config \<Rightarrow> 'w \<Rightarrow> 'w daemon option" where
  "prepare_daemon sys path level cfg w =
     (let d = did Step_bus_init (did (Step_config path)
                ((daemon_zero w)\<lparr>dm_log_level := level, dm_config := cfg, dm_bus := bus_coord_init\<rparr>))
      in case device_register_map_init (os_mmap sys) (os_rwlock sys) (dm_map d) of
           None \<Rightarrow> None
         | Some m \<Rightarrow> Some (did Step_signals (did Step_pool_init
               (d\<lparr>dm_map := m, dm_env := (dm_env d)\<lparr>ae_pool := (\<lambda>_. 0)\<rparr>\<rparr>))))"

definition main :: "('j, 'w) daemon_os \<Rightarrow> string list \<Rightarrow> 'w \<Rightarrow> daemon_exit \<times> 'w daemon" where
  "main sys args w =
     (case parse_arguments args (default_path, LOG_LEVEL_INFO) of
        None \<Rightarrow> (Exit_status EXIT_FAILURE, daemon_zero w)
      | Some (path, level) \<Rightarrow>
          (case load_json_config (os_json sys) (os_file sys path) of
             Inl e \<Rightarrow> ((if e = Null_string then Crash else Exit_status EXIT_FAILURE), daemon_zero w)
           | Inr cfg \<Rightarrow>
               (case prepare_daemon sys path level cfg w of
                  None \<Rightarrow> (Exit_status EXIT_FAILURE, daemon_zero w)
                | Some d \<Rightarrow> run_daemon sys d)))"

section \<open>Lemmas\<close>

lemma did_simps [simp]:
  "dm_config (did s d) = dm_config d" "dm_map (did s d) = dm_map d" "dm_inv_units (did s d) = dm_inv_units d"
  "dm_ups_units (did s d) = dm_ups_units d" "dm_inv_sub (did s d) = dm_inv_sub d" "dm_ups_sub (did s d) = dm_ups_sub d"
  "g_inverter_pub_pid (did s d) = g_inverter_pub_pid d" "g_ups_pub_pid (did s d) = g_ups_pub_pid d"
  "dm_monitor (did s d) = dm_monitor d" "dm_env (did s d) = dm_env d" "dm_steps (did s d) = dm_steps d @ [s]"
  by (simp_all add: did_def)

definition publisher_steps :: "family \<Rightarrow> int \<Rightarrow> daemon_step list" where
  "publisher_steps f pid = (if pid \<le> 0 then [] else [Step_kill f pid, Step_reap f pid])"

lemma shutdown_result:
  "dm_inv_units (shutdown_runtime sys d) = []" "dm_ups_units (shutdown_runtime sys d) = []"
  "\<not> dm_inv_sub (shutdown_runtime sys d)" "\<not> dm_ups_sub (shutdown_runtime sys d)"
  "\<not> g_running (dm_monitor (shutdown_runtime sys d))" "ae_dbs (dm_env (shutdown_runtime sys d)) = []"
  "g_inverter_pub_pid (shutdown_runtime sys d) \<le> 0" "g_ups_pub_pid (shutdown_runtime sys d) \<le> 0"
  "dm_steps (shutdown_runtime sys d) = dm_steps d @
     [Step_monitor_stop, Step_stop Inverter_family, Step_stop Ups_family, Step_db_close] @
     publisher_steps Inverter_family (g_inverter_pub_pid d) @ publisher_steps Ups_family (g_ups_pub_pid d)"
  by (simp_all add: shutdown_runtime_def Let_def stop_inverter_modules_def stop_ups_modules_def stop_modules_def
      inverter_cmos_bridge_stop_def ups_cmos_bridge_stop_def alarm_bridge_stop_def alarm_manager_close_def
      stop_cmos_publisher_def publisher_steps_def)

text \<open>The publisher of a family that was forked is the one remembered.\<close>

definition forks_known :: "'w daemon \<Rightarrow> bool" where
  "forks_known d \<longleftrightarrow>
     (\<forall>pid. Step_fork Inverter_family pid \<in> set (dm_steps d) \<longrightarrow> g_inverter_pub_pid d = pid) \<and>
     (\<forall>pid. Step_fork Ups_family pid \<in> set (dm_steps d) \<longrightarrow> g_ups_pub_pid d = pid)"

abbreviation result_state :: "'w daemon + 'w daemon \<Rightarrow> 'w daemon" where
  "result_state r \<equiv> (case r of Inl d \<Rightarrow> d | Inr d \<Rightarrow> d)"

definition no_forks :: "family \<Rightarrow> 'w daemon \<Rightarrow> bool" where
  "no_forks f d \<longleftrightarrow> (\<forall>pid. Step_fork f pid \<notin> set (dm_steps d))"

lemma publisher_forks:
  assumes "forks_known d"
  shows "no_forks Inverter_family d \<Longrightarrow> no_forks Ups_family d \<Longrightarrow> forks_known (result_state (start_inverter_publisher sys d)) \<and>
      no_forks Ups_family (result_state (start_inverter_publisher sys d))"
    and "no_forks Ups_family d \<Longrightarrow> forks_known (result_state (start_ups_publisher sys d))"
  using assms by (auto simp: start_inverter_publisher_def start_ups_publisher_def forks_known_def no_forks_def Let_def)

lemma module_forks:
  assumes "forks_known d"
  shows "forks_known (result_state (start_inverters sys d))" "forks_known (result_state (start_upss sys d))"
    "forks_known (result_state (start_alarms sys d))"
  using assms
  by (auto simp: start_inverters_def start_upss_def start_alarms_def forks_known_def Let_def split: prod.splits)

lemma forks_then:
  "forks_known (result_state r) \<Longrightarrow> (\<And>d. forks_known d \<Longrightarrow> forks_known (result_state (f d))) \<Longrightarrow>
   forks_known (result_state (and_then r f))"
  by (cases r) (simp_all add: and_then_def)

lemma start_daemon_forks:
  assumes "dm_steps d = [Step_config p, Step_bus_init, Step_pool_init, Step_signals]"
  shows "forks_known (result_state (start_daemon sys d))"
proof -
  have n: "forks_known d" "no_forks Inverter_family d" "no_forks Ups_family d"
    by (simp_all add: forks_known_def no_forks_def assms)
  note p1 = publisher_forks(1) [OF n, where sys = sys]
  define r where "r = and_then (start_inverter_publisher sys d) (start_ups_publisher sys)"
  have "forks_known (result_state r)"
  proof (cases "start_inverter_publisher sys d")
    case (Inr d1)
    with p1 have "forks_known d1" "no_forks Ups_family d1" by simp_all
    then have "forks_known (result_state (start_ups_publisher sys d1))" by (rule publisher_forks(2))
    then show ?thesis unfolding r_def and_then_def Inr by simp
  qed (use p1 in \<open>simp add: r_def and_then_def\<close>)
  then show ?thesis unfolding start_daemon_def r_def [symmetric] by (intro forks_then module_forks)
qed

lemma shutdown_reaps:
  assumes "forks_known d" and "Step_fork f pid \<in> set (dm_steps (shutdown_runtime sys d))" and "0 < pid"
  shows "\<exists>pre post. dm_steps (shutdown_runtime sys d) = pre @ [Step_kill f pid, Step_reap f pid] @ post \<and>
    Step_fork f pid \<in> set pre"
proof -
  have m: "Step_fork f pid \<in> set (dm_steps d)"
    using assms(2) by (auto simp: shutdown_result publisher_steps_def split: if_splits)
  let ?h = "dm_steps d @ [Step_monitor_stop, Step_stop Inverter_family, Step_stop Ups_family, Step_db_close]"
  show ?thesis
  proof (cases f)
    case Inverter_family
    with assms m have "g_inverter_pub_pid d = pid" by (auto simp: forks_known_def)
    with assms(3) m Inverter_family show ?thesis
      by (intro exI [of _ ?h] exI [of _ "publisher_steps Ups_family (g_ups_pub_pid d)"])
        (simp add: shutdown_result publisher_steps_def)
  next
    case Ups_family
    with assms m have "g_ups_pub_pid d = pid" by (auto simp: forks_known_def)
    with assms(3) m Ups_family show ?thesis
      by (intro exI [of _ "?h @ publisher_steps Inverter_family (g_inverter_pub_pid d)"] exI [of _ "[]"])
        (simp add: shutdown_result publisher_steps_def)
  qed
qed

lemma prepare_daemon_state:
  assumes "prepare_daemon sys path level cfg w = Some d"
  shows "dm_steps d = [Step_config path, Step_bus_init, Step_pool_init, Step_signals]" "dm_config d = cfg"
    "dm_map d = \<lparr>region = Some (\<lambda>_. 0), registered_profiles = []\<rparr>" "dm_monitor d = alarm_bridge_initial"
    "ae_dbs (dm_env d) = []" "dm_inv_units d = []" "dm_ups_units d = []" "\<not> dm_inv_sub d" "\<not> dm_ups_sub d"
    "os_mmap sys" "os_rwlock sys"  "g_inverter_pub_pid d = -1" "g_ups_pub_pid d = -1"
  using assms
  by (auto simp: prepare_daemon_def daemon_zero_def did_def device_register_map_init_def Let_def split: option.splits if_splits)

definition daemon_idle :: "'w daemon \<Rightarrow> bool" where
  "daemon_idle d \<longleftrightarrow> dm_inv_units d = [] \<and> dm_ups_units d = [] \<and> \<not> dm_inv_sub d \<and> \<not> dm_ups_sub d \<and>
     \<not> g_running (dm_monitor d) \<and> ae_dbs (dm_env d) = [] \<and> g_inverter_pub_pid d \<le> 0 \<and> g_ups_pub_pid d \<le> 0"

definition publishers_reaped :: "daemon_step list \<Rightarrow> bool" where
  "publishers_reaped steps \<longleftrightarrow>
     (\<forall>f pid. Step_fork f pid \<in> set steps \<longrightarrow> 0 < pid \<longrightarrow>
        (\<exists>pre post. steps = pre @ [Step_kill f pid, Step_reap f pid] @ post \<and> Step_fork f pid \<in> set pre))"

lemma shutdown_clean: "forks_known d \<Longrightarrow> daemon_idle (shutdown_runtime sys d) \<and> publishers_reaped (dm_steps (shutdown_runtime sys d))"
  unfolding publishers_reaped_def
  by (intro conjI allI impI, simp add: daemon_idle_def shutdown_result(1-8), rule shutdown_reaps)

text \<open>C16. Whatever the configuration, the command line and the operating system's answers, when
  \<^verbatim>\<open>main\<close> has ended no unit, subscriber or alarm monitor runs, no alarm database is open, no
  publisher is remembered, and every publisher that was forked has been sent SIGTERM and then
  waited for, after its fork: a start that fails half-way leaves nothing behind.\<close>

theorem daemon_leaves_nothing_behind:
  "daemon_idle (snd (main sys args w)) \<and> publishers_reaped (dm_steps (snd (main sys args w)))"
proof -
  have z: "daemon_idle (daemon_zero w) \<and> publishers_reaped (dm_steps (daemon_zero w))"
    by (simp add: daemon_zero_def daemon_idle_def publishers_reaped_def alarm_bridge_initial_def)
  have r: "daemon_idle (snd (run_daemon sys d)) \<and> publishers_reaped (dm_steps (snd (run_daemon sys d)))"
    if "dm_steps d = [Step_config path, Step_bus_init, Step_pool_init, Step_signals]" for d path
  proof (cases "start_daemon sys d")
    case (Inl d1)
    with start_daemon_forks [OF that, of sys] shutdown_clean [of d1 sys] show ?thesis
      by (simp add: run_daemon_def startup_failed_def)
  next
    case (Inr d1)
    with start_daemon_forks [OF that, of sys] have "forks_known (did Step_wait (d1\<lparr>dm_env := os_work sys (dm_env d1)\<rparr>))"
      by (simp add: forks_known_def)
    from shutdown_clean [OF this] Inr show ?thesis by (simp add: run_daemon_def)
  qed
  show ?thesis
    using z r prepare_daemon_state(1) by (fastforce simp: main_def split: option.splits sum.splits)
qed

section \<open>When the start succeeds\<close>

lemma family_has_enabled_iff: "family_has_enabled cs \<longleftrightarrow> (\<exists>c\<in>set cs. enabled c)"
  by (induction cs) auto

lemma register_ok:
  assumes "table p \<noteq> None" and "\<forall>q\<in>set (registered_profiles m). profiles_disjoint q p"
    and "length (registered_profiles m) < DEVICE_REGISTER_MAP_MAX_PROFILES"
  shows "device_register_map_register_profile (Some p) m = (0, m\<lparr>registered_profiles := registered_profiles m @ [p]\<rparr>)"
  using assms by (auto simp: device_register_map_register_profile_def profile_collides_iff not_le)

lemma start_modules_status:
  fixes reg :: u16 and ok :: "nat \<Rightarrow> bool" and rc :: int and pl :: pool
  assumes "\<forall>c\<in>set cs. enabled c" and "rows p \<noteq> []" and r: "device_register_map_register_profile (Some p) m = (0, m')"
  defines "s \<equiv> start_modules p reg ok rc cs m pl"
  shows "ss_status s = 0 \<longleftrightarrow> rc = 0 \<and> length cs \<le> 1 \<and> (cs \<noteq> [] \<longrightarrow> ok 0)"
    and "ss_status s = 0 \<Longrightarrow> ss_map s = (if cs = [] then m else m')"
proof -
  have "filter enabled cs = cs" using assms(1) by simp
  then have two: "2 \<le> length cs \<Longrightarrow> ss_status s = -1"
    using one_unit_of_profile [OF assms(2), of reg ok rc cs m pl] by (simp add: s_def)
  have cases: "length cs \<le> 1 \<Longrightarrow> cs = [] \<or> (\<exists>c. cs = [c] \<and> enabled c)"
    using assms(1) by (cases cs) auto
  show i: "ss_status s = 0 \<longleftrightarrow> rc = 0 \<and> length cs \<le> 1 \<and> (cs \<noteq> [] \<longrightarrow> ok 0)"
  proof (cases "length cs \<le> 1")
    case True
    with cases r show ?thesis by (auto simp: s_def start_modules_def start_one_def Let_def split: if_splits)
  next
    case False
    with two show ?thesis by simp
  qed
  show "ss_status s = 0 \<Longrightarrow> ss_map s = (if cs = [] then m else m')"
    using cases r unfolding i by (auto simp: s_def start_modules_def start_one_def Let_def)
qed

lemma profile_tables:
  "rows inverter1_profile \<noteq> []" "rows ups1_profile \<noteq> []" "table inverter1_profile \<noteq> None" "table ups1_profile \<noteq> None"
  by (simp_all add: inverter1_rows inverter1_mapping_table_def ups1_rows ups1_mapping_table_def)
    (simp_all add: inverter1_profile_def ups1_profile_def)

lemma loaded_enabled:
  assumes "load_json_config api doc = Inr cfg"
  shows "\<forall>c\<in>set (inverter cfg). enabled c" "\<forall>c\<in>set (ups cfg). enabled c"
  using assms
  by (auto simp: load_json_config_def module_ok_def split: if_splits option.splits sum.splits dest!: family_ok)

definition fork_steps :: "('j, 'w) daemon_os \<Rightarrow> family \<Rightarrow> module_config list \<Rightarrow> daemon_step list" where
  "fork_steps sys f cs = (if cs = [] then [] else [Step_fork f (fork_cmos_publisher sys f)])"

text \<open>What a run that has passed its start has done, by the steps of the start.\<close>

lemma start_publishers_Inr:
  assumes "\<forall>c\<in>set (inverter (dm_config d)). enabled c" and "\<forall>c\<in>set (ups (dm_config d)). enabled c"
  shows "(\<exists>d'. and_then (start_inverter_publisher sys d) (start_ups_publisher sys) = Inr d') \<longleftrightarrow>
      (inverter (dm_config d) \<noteq> [] \<longrightarrow> os_fork sys Inverter_family \<noteq> None) \<and>
      (ups (dm_config d) \<noteq> [] \<longrightarrow> os_fork sys Ups_family \<noteq> None)"
    and "and_then (start_inverter_publisher sys d) (start_ups_publisher sys) = Inr d' \<Longrightarrow>
      dm_config d' = dm_config d \<and> dm_map d' = dm_map d \<and> dm_monitor d' = dm_monitor d \<and>
      dm_steps d' = dm_steps d @ fork_steps sys Inverter_family (inverter (dm_config d)) @
        fork_steps sys Ups_family (ups (dm_config d))"
proof -
  have e: "family_has_enabled (inverter (dm_config d)) \<longleftrightarrow> inverter (dm_config d) \<noteq> []"
    "family_has_enabled (ups (dm_config d)) \<longleftrightarrow> ups (dm_config d) \<noteq> []"
    using assms by (simp_all add: family_has_enabled_iff) (metis list.set_intros(1) neq_Nil_conv empty_iff list.set(1))+
  have f: "fork_cmos_publisher sys f < 0 \<longleftrightarrow> os_fork sys f = None" for f
    by (simp add: fork_cmos_publisher_def split: option.splits)
  show "(\<exists>d'. and_then (start_inverter_publisher sys d) (start_ups_publisher sys) = Inr d') \<longleftrightarrow>
      (inverter (dm_config d) \<noteq> [] \<longrightarrow> os_fork sys Inverter_family \<noteq> None) \<and>
      (ups (dm_config d) \<noteq> [] \<longrightarrow> os_fork sys Ups_family \<noteq> None)"
    by (simp add: start_inverter_publisher_def start_ups_publisher_def and_then_def Let_def e f)
  show "and_then (start_inverter_publisher sys d) (start_ups_publisher sys) = Inr d' \<Longrightarrow>
      dm_config d' = dm_config d \<and> dm_map d' = dm_map d \<and> dm_monitor d' = dm_monitor d \<and>
      dm_steps d' = dm_steps d @ fork_steps sys Inverter_family (inverter (dm_config d)) @
        fork_steps sys Ups_family (ups (dm_config d))"
    by (auto simp: start_inverter_publisher_def start_ups_publisher_def and_then_def Let_def e f fork_steps_def split: if_splits)
qed

lemma start_inverters_Inr:
  assumes "\<forall>c\<in>set (inverter (dm_config d)). enabled c" and "registered_profiles (dm_map d) = []"
  shows "(\<exists>d'. start_inverters sys d = Inr d') \<longleftrightarrow> os_inv_sub sys \<and> length (inverter (dm_config d)) \<le> 1 \<and>
      (inverter (dm_config d) \<noteq> [] \<longrightarrow> os_inv_thread sys 0)"
    and "start_inverters sys d = Inr d' \<Longrightarrow>
      dm_config d' = dm_config d \<and> dm_monitor d' = dm_monitor d \<and>
      registered_profiles (dm_map d') \<in> {[], [inverter1_profile]} \<and>
      dm_steps d' = dm_steps d @ [Step_start Inverter_family 0]"
proof -
  have r: "device_register_map_register_profile (Some inverter1_profile) (dm_map d) =
      (0, (dm_map d)\<lparr>registered_profiles := [inverter1_profile]\<rparr>)"
    using register_ok [OF profile_tables(3), of "dm_map d"] assms(2) by simp
  note st = start_modules_status [OF assms(1) profile_tables(1) r]
  show "(\<exists>d'. start_inverters sys d = Inr d') \<longleftrightarrow> os_inv_sub sys \<and> length (inverter (dm_config d)) \<le> 1 \<and>
      (inverter (dm_config d) \<noteq> [] \<longrightarrow> os_inv_thread sys 0)"
    by (auto simp: start_inverters_def Let_def inverter_cmos_bridge_start_def start_inverter_modules_def st(1))
  show "start_inverters sys d = Inr d' \<Longrightarrow>
      dm_config d' = dm_config d \<and> dm_monitor d' = dm_monitor d \<and>
      registered_profiles (dm_map d') \<in> {[], [inverter1_profile]} \<and>
      dm_steps d' = dm_steps d @ [Step_start Inverter_family 0]"
    using assms(2)
    by (auto simp: start_inverters_def Let_def inverter_cmos_bridge_start_def start_inverter_modules_def st(2) split: if_splits)
qed

lemma start_upss_Inr:
  assumes "\<forall>c\<in>set (ups (dm_config d)). enabled c" and "registered_profiles (dm_map d) \<in> {[], [inverter1_profile]}"
  shows "(\<exists>d'. start_upss sys d = Inr d') \<longleftrightarrow> os_ups_sub sys \<and> length (ups (dm_config d)) \<le> 1 \<and>
      (ups (dm_config d) \<noteq> [] \<longrightarrow> os_ups_thread sys 0)"
    and "start_upss sys d = Inr d' \<Longrightarrow>
      dm_config d' = dm_config d \<and> dm_monitor d' = dm_monitor d \<and> dm_steps d' = dm_steps d @ [Step_start Ups_family 0]"
proof -
  have "\<forall>q\<in>set (registered_profiles (dm_map d)). profiles_disjoint q ups1_profile"
    "length (registered_profiles (dm_map d)) < DEVICE_REGISTER_MAP_MAX_PROFILES"
    using assms(2) inverter1_ups1_disjoint by auto
  note r = register_ok [OF profile_tables(4) this]
  note st = start_modules_status [OF assms(1) profile_tables(2) r]
  show "(\<exists>d'. start_upss sys d = Inr d') \<longleftrightarrow> os_ups_sub sys \<and> length (ups (dm_config d)) \<le> 1 \<and>
      (ups (dm_config d) \<noteq> [] \<longrightarrow> os_ups_thread sys 0)"
    by (auto simp: start_upss_def Let_def ups_cmos_bridge_start_def start_ups_modules_def st(1))
  show "start_upss sys d = Inr d' \<Longrightarrow>
      dm_config d' = dm_config d \<and> dm_monitor d' = dm_monitor d \<and> dm_steps d' = dm_steps d @ [Step_start Ups_family 0]"
    by (auto simp: start_upss_def Let_def ups_cmos_bridge_start_def start_ups_modules_def split: if_splits)
qed

lemma start_alarms_Inr:
  shows "(\<exists>d'. start_alarms sys d = Inr d') \<longleftrightarrow> os_monitor sys"
    and "start_alarms sys d = Inr d' \<Longrightarrow> dm_steps d' = dm_steps d @ [Step_alarm_tables, Step_monitor_start 0]"
  by (auto simp: start_alarms_def Let_def alarm_bridge_start_def split: prod.splits if_splits)

lemma and_then_Inr: "and_then r f = Inr x \<longleftrightarrow> (\<exists>a. r = Inr a \<and> f a = Inr x)"
  by (cases r) (simp_all add: and_then_def)

text \<open>What the answers of the system must be for a configuration to start.\<close>

definition config_starts :: "('j, 'w) daemon_os \<Rightarrow> system_config \<Rightarrow> bool" where
  "config_starts sys cfg \<longleftrightarrow>
     length (inverter cfg) \<le> 1 \<and> length (ups cfg) \<le> 1 \<and>
     (inverter cfg = [] \<or> os_fork sys Inverter_family \<noteq> None \<and> os_inv_thread sys 0) \<and>
     (ups cfg = [] \<or> os_fork sys Ups_family \<noteq> None \<and> os_ups_thread sys 0) \<and>
     os_inv_sub sys \<and> os_ups_sub sys \<and> os_monitor sys"

lemma start_daemon_Inr:
  assumes e: "\<forall>c\<in>set (inverter (dm_config d)). enabled c" "\<forall>c\<in>set (ups (dm_config d)). enabled c"
    and m: "registered_profiles (dm_map d) = []"
  shows "(\<exists>d'. start_daemon sys d = Inr d') \<longleftrightarrow> config_starts sys (dm_config d)"
    and "start_daemon sys d = Inr d' \<Longrightarrow>
      dm_steps d' = dm_steps d @ fork_steps sys Inverter_family (inverter (dm_config d)) @
        fork_steps sys Ups_family (ups (dm_config d)) @
        [Step_start Inverter_family 0, Step_start Ups_family 0, Step_alarm_tables, Step_monitor_start 0]"
proof -
  let ?r = "and_then (start_inverter_publisher sys d) (start_ups_publisher sys)"
  note p = start_publishers_Inr [OF e, of sys]
  have i: "dm_config d1 = dm_config d \<and> registered_profiles (dm_map d1) = [] \<and>
      dm_steps d1 = dm_steps d @ fork_steps sys Inverter_family (inverter (dm_config d)) @
        fork_steps sys Ups_family (ups (dm_config d))" if "?r = Inr d1" for d1
    using p(2) [OF that] m by simp
  have si: "(\<exists>d2. start_inverters sys d1 = Inr d2) \<longleftrightarrow> os_inv_sub sys \<and> length (inverter (dm_config d)) \<le> 1 \<and>
      (inverter (dm_config d) \<noteq> [] \<longrightarrow> os_inv_thread sys 0)" if "?r = Inr d1" for d1
    using start_inverters_Inr(1) [of d1 sys] i [OF that] e by simp
  have j: "dm_config d2 = dm_config d \<and> registered_profiles (dm_map d2) \<in> {[], [inverter1_profile]} \<and>
      dm_steps d2 = dm_steps d1 @ [Step_start Inverter_family 0]" if "?r = Inr d1" "start_inverters sys d1 = Inr d2" for d1 d2
    using start_inverters_Inr(2) [of d1 sys d2] i [OF that(1)] e that(2) by simp
  have su: "(\<exists>d3. start_upss sys d2 = Inr d3) \<longleftrightarrow> os_ups_sub sys \<and> length (ups (dm_config d)) \<le> 1 \<and>
      (ups (dm_config d) \<noteq> [] \<longrightarrow> os_ups_thread sys 0)" if "?r = Inr d1" "start_inverters sys d1 = Inr d2" for d1 d2
    using start_upss_Inr(1) [of d2 sys] j [OF that] e by simp
  have k: "dm_steps d3 = dm_steps d2 @ [Step_start Ups_family 0]"
    if "?r = Inr d1" "start_inverters sys d1 = Inr d2" "start_upss sys d2 = Inr d3" for d1 d2 d3
    using start_upss_Inr(2) [of d2 sys d3] j [OF that(1,2)] e that(3) by simp
  have x: "(\<exists>d'. start_daemon sys d = Inr d') \<longleftrightarrow>
      (\<exists>d1. ?r = Inr d1 \<and> (\<exists>d2. start_inverters sys d1 = Inr d2 \<and> (\<exists>d3. start_upss sys d2 = Inr d3 \<and>
        (\<exists>d'. start_alarms sys d3 = Inr d'))))"
    unfolding start_daemon_def and_then_Inr [of "and_then _ (start_inverters sys)"]
      and_then_Inr [of _ "start_inverters sys"] and_then_Inr [of _ "start_upss sys"]
      and_then_Inr [of _ "start_alarms sys"] by blast
  show "(\<exists>d'. start_daemon sys d = Inr d') \<longleftrightarrow> config_starts sys (dm_config d)"
  proof
    assume "\<exists>d'. start_daemon sys d = Inr d'"
    then obtain d1 d2 d3 d4 where c: "?r = Inr d1" "start_inverters sys d1 = Inr d2" "start_upss sys d2 = Inr d3"
      "start_alarms sys d3 = Inr d4" unfolding x by blast
    have "os_monitor sys" using c(4) start_alarms_Inr(1) [of sys d3] by blast
    moreover note p(1) [THEN iffD1, OF exI, OF c(1)] si [OF c(1), THEN iffD1, OF exI, OF c(2)]
      su [OF c(1,2), THEN iffD1, OF exI, OF c(3)]
    ultimately show "config_starts sys (dm_config d)" unfolding config_starts_def by blast
  next
    assume c: "config_starts sys (dm_config d)"
    then obtain d1 where d1: "?r = Inr d1" using p(1) unfolding config_starts_def by blast
    with c si obtain d2 where d2: "start_inverters sys d1 = Inr d2" unfolding config_starts_def by blast
    with c su [OF d1] obtain d3 where d3: "start_upss sys d2 = Inr d3" unfolding config_starts_def by blast
    with d1 d2 c show "\<exists>d'. start_daemon sys d = Inr d'"
      unfolding x using start_alarms_Inr(1) [of sys d3] unfolding config_starts_def by blast
  qed
  assume "start_daemon sys d = Inr d'"
  then obtain d1 d2 d3 where c: "?r = Inr d1" "start_inverters sys d1 = Inr d2" "start_upss sys d2 = Inr d3"
    "start_alarms sys d3 = Inr d'"
    unfolding start_daemon_def and_then_Inr [of _ "start_inverters sys"] and_then_Inr [of _ "start_upss sys"]
      and_then_Inr [of _ "start_alarms sys"] by blast
  show "dm_steps d' = dm_steps d @ fork_steps sys Inverter_family (inverter (dm_config d)) @
      fork_steps sys Ups_family (ups (dm_config d)) @
      [Step_start Inverter_family 0, Step_start Ups_family 0, Step_alarm_tables, Step_monitor_start 0]"
    using i [OF c(1)] j [OF c(1,2)] k [OF c(1-3)] start_alarms_Inr(2) [OF c(4)] by simp
qed

text \<open>\<^verbatim>\<open>main\<close> on a command line and a document that are accepted.\<close>

lemma main_runs:
  assumes "parse_arguments args (default_path, LOG_LEVEL_INFO) = Some (path, level)"
    and "load_json_config (os_json sys) (os_file sys path) = Inr cfg" and "os_mmap sys" and "os_rwlock sys"
  obtains d where "prepare_daemon sys path level cfg w = Some d" and "main sys args w = run_daemon sys d"
proof -
  have "prepare_daemon sys path level cfg w \<noteq> None"
    using assms(3,4) by (simp add: prepare_daemon_def did_def daemon_zero_def device_register_map_init_def Let_def)
  then obtain d where "prepare_daemon sys path level cfg w = Some d" by blast
  with assms that show ?thesis by (simp add: main_def)
qed

lemma main_starts:
  assumes a: "parse_arguments args (default_path, LOG_LEVEL_INFO) = Some (path, level)"
      "load_json_config (os_json sys) (os_file sys path) = Inr cfg" "os_mmap sys" "os_rwlock sys"
    and c: "config_starts sys cfg"
  shows "fst (main sys args w) = Exit_status 0"
proof -
  obtain d where d: "prepare_daemon sys path level cfg w = Some d" "main sys args w = run_daemon sys d"
    by (rule main_runs [OF a])
  from start_daemon_Inr(1) [of d sys] c loaded_enabled [OF a(2)] prepare_daemon_state(2,3) [OF d(1)]
  obtain d' where "start_daemon sys d = Inr d'" by auto
  with d(2) show ?thesis by (simp add: run_daemon_def)
qed

lemma main_success_cases:
  assumes "fst (main sys args w) = Exit_status 0"
  obtains path level cfg d d' where
    "parse_arguments args (default_path, LOG_LEVEL_INFO) = Some (path, level)"
    "load_json_config (os_json sys) (os_file sys path) = Inr cfg" "os_mmap sys" "os_rwlock sys"
    "prepare_daemon sys path level cfg w = Some d" "start_daemon sys d = Inr d'"
    "snd (main sys args w) = shutdown_runtime sys (did Step_wait (d'\<lparr>dm_env := os_work sys (dm_env d')\<rparr>))"
  using assms
  by (auto simp: main_def run_daemon_def startup_failed_def EXIT_FAILURE_def
      split: option.splits sum.splits if_splits) (metis prepare_daemon_state(10,11))

text \<open>C9. The daemon ends with status 0 exactly when the command line is accepted, the document
  loads, the shared mapping and its lock can be made, each family has at most one enabled
  entry, with its publisher forked and its unit's thread created, and both subscribers and the
  alarm monitor start. So a document that the loader accepts with two enabled entries of one
  family, of up to ten, makes every start fail.\<close>

theorem daemon_starts_iff:
  "fst (main sys args w) = Exit_status 0 \<longleftrightarrow>
     (\<exists>path level cfg. parse_arguments args (default_path, LOG_LEVEL_INFO) = Some (path, level) \<and>
        load_json_config (os_json sys) (os_file sys path) = Inr cfg \<and> os_mmap sys \<and> os_rwlock sys \<and>
        config_starts sys cfg)" (is "_ \<longleftrightarrow> ?R")
proof
  assume "fst (main sys args w) = Exit_status 0"
  then show ?R
  proof (rule main_success_cases)
    fix path level cfg d d'
    assume a: "parse_arguments args (default_path, LOG_LEVEL_INFO) = Some (path, level)"
      "load_json_config (os_json sys) (os_file sys path) = Inr cfg" "os_mmap sys" "os_rwlock sys"
      "prepare_daemon sys path level cfg w = Some d" "start_daemon sys d = Inr d'"
    note e = loaded_enabled [OF a(2)] prepare_daemon_state(2,3) [OF a(5)]
    from start_daemon_Inr(1) [of d sys] a(6) e have "config_starts sys cfg" by auto
    with a show ?R by blast
  qed
next
  assume ?R
  then obtain path level cfg where a: "parse_arguments args (default_path, LOG_LEVEL_INFO) = Some (path, level)"
      "load_json_config (os_json sys) (os_file sys path) = Inr cfg" "os_mmap sys" "os_rwlock sys"
    and c: "config_starts sys cfg" by blast
  show "fst (main sys args w) = Exit_status 0" by (rule main_starts [OF a c])
qed

text \<open>The steps of a run that ends with status 0, in order: configuration, bus coordination and
  pool before any fork, the publishers of the families with an entry, the inverter and the UPS
  modules, the alarm tables before the alarm monitor; after the wait first the monitor stops,
  then the modules, then the databases close, and last the publishers are ended.\<close>

theorem daemon_run_trace:
  assumes "fst (main sys args w) = Exit_status 0"
  shows "\<exists>path level cfg. parse_arguments args (default_path, LOG_LEVEL_INFO) = Some (path, level) \<and>
    load_json_config (os_json sys) (os_file sys path) = Inr cfg \<and>
    (\<exists>kills. dm_steps (snd (main sys args w)) =
      [Step_config path, Step_bus_init, Step_pool_init, Step_signals] @
      fork_steps sys Inverter_family (inverter cfg) @ fork_steps sys Ups_family (ups cfg) @
      [Step_start Inverter_family 0, Step_start Ups_family 0, Step_alarm_tables, Step_monitor_start 0, Step_wait,
       Step_monitor_stop, Step_stop Inverter_family, Step_stop Ups_family, Step_db_close] @ kills \<and>
      (\<forall>s\<in>set kills. \<exists>f pid. s = Step_kill f pid \<or> s = Step_reap f pid))"
  using assms
proof (rule main_success_cases)
  fix path level cfg d d'
  assume p: "parse_arguments args (default_path, LOG_LEVEL_INFO) = Some (path, level)"
    and a: "load_json_config (os_json sys) (os_file sys path) = Inr cfg"
    "prepare_daemon sys path level cfg w = Some d" "start_daemon sys d = Inr d'"
    "snd (main sys args w) = shutdown_runtime sys (did Step_wait (d'\<lparr>dm_env := os_work sys (dm_env d')\<rparr>))"
  note e = loaded_enabled [OF a(1)] prepare_daemon_state(1,2,3) [OF a(2)]
  have "dm_steps d' = [Step_config path, Step_bus_init, Step_pool_init, Step_signals] @
      fork_steps sys Inverter_family (inverter cfg) @ fork_steps sys Ups_family (ups cfg) @
      [Step_start Inverter_family 0, Step_start Ups_family 0, Step_alarm_tables, Step_monitor_start 0]"
    using start_daemon_Inr(2) [OF _ _ _ a(3)] e by simp
  moreover have "\<forall>s\<in>set (publisher_steps f pid). \<exists>f pid. s = Step_kill f pid \<or> s = Step_reap f pid" for f pid
    by (simp add: publisher_steps_def)
  ultimately show ?thesis
    by (intro exI [of _ path] exI [of _ level] exI [of _ cfg] conjI p a(1)) (auto simp: a(4) shutdown_result(9))
qed

section \<open>The command line\<close>

definition option_words :: "bool \<times> string \<Rightarrow> string list" where
  "option_words x = [if fst x then ''-c'' else ''-l'', snd x]"

lemma getopt_words:
  "getopt_args (option_words x @ as) = (if fst x then Opt_c (snd x) else Opt_l (snd x)) # getopt_args as"
  by (simp add: option_words_def opt_of_def)

lemma apply_words:
  "apply_options (getopt_args (concat (map option_words os) @ as)) (path, level) =
     apply_options (getopt_args as)
       (last (path # map snd (filter fst os)), last (level # map (atoi \<circ> snd) (filter (Not \<circ> fst) os)))"
proof (induction os arbitrary: path level)
  case (Cons x os)
  show ?case by (cases "fst x") (simp_all add: getopt_words Cons.IH)
qed simp

text \<open>Of any sequence of \<open>-c\<close> and \<open>-l\<close> options with their values the last \<open>-c\<close> names the
  configuration file and the last \<open>-l\<close> sets the log level, with the defaults where there is
  none; operands change nothing, and a following \<open>-h\<close> ends the program with the usage text.\<close>

theorem arguments_last_wins:
  "parse_arguments (concat (map option_words os)) (path, level) =
     Some (last (path # map snd (filter fst os)), last (level # map (atoi \<circ> snd) (filter (Not \<circ> fst) os))) \<and>
   parse_arguments (concat (map option_words os) @ [''operand'']) (path, level) =
     parse_arguments (concat (map option_words os)) (path, level) \<and>
   parse_arguments (concat (map option_words os) @ [''-h'']) (path, level) = None"
  using apply_words [of os "[]" path level] apply_words [of os "[''operand'']" path level]
    apply_words [of os "[''-h'']" path level]
  by (simp add: parse_arguments_def)

section \<open>Witnesses\<close>

definition demo_single :: "demo_json option" where
  "demo_single = Some (Demo_object [(''INVERTER'', Some (Demo_array [demo_entry ''INV1'']))])"

definition demo_sys :: "(demo_json, nat \<Rightarrow> nat) daemon_os" where
  "demo_sys =
     \<lparr>os_json = demo_api, os_file = (\<lambda>p. if p = ''two.json'' then demo_root else demo_single), os_mmap = True,
      os_rwlock = True, os_fork = (\<lambda>f. Some 42), os_inv_thread = (\<lambda>i. True), os_ups_thread = (\<lambda>i. True),
      os_inv_sub = True, os_ups_sub = True, os_monitor = True, os_now = 5, os_sqlite = counting_sqlite,
      os_work = id\<rparr>"

lemma demo_single_loads:
  "load_json_config demo_api demo_single = Inr \<lparr>inverter = [demo_config ''INV1''], ups = []\<rparr>"
proof -
  have "load_inverter_config demo_api (Some (Demo_array [demo_entry ''INV1''])) = Inr [demo_config ''INV1'']"
    by (simp add: load_inverter_config_def loaded_entries demo_entry_config demo_array del: load_entries.simps)
  then show ?thesis by (simp add: load_json_config_def demo_single_def demo_api_def)
qed

lemma demo_sys_fields [simp]:
  "os_json demo_sys = demo_api" "os_file demo_sys p = (if p = ''two.json'' then demo_root else demo_single)"
  "os_mmap demo_sys" "os_rwlock demo_sys"
  by (simp_all add: demo_sys_def)

lemma demo_args: "parse_arguments [''-c'', ''two.json''] (p, l) = Some (''two.json'', l)" "parse_arguments [] (p, l) = Some (p, l)"
  by (simp_all add: parse_arguments_def opt_of_def)

theorem daemon_starts_iff_witness:
  "fst (main demo_sys [] (\<lambda>_. 0)) = Exit_status 0 \<and> fst (main demo_sys [''-c'', ''two.json''] (\<lambda>_. 0)) \<noteq> Exit_status 0"
  unfolding daemon_starts_iff demo_args
  by (simp add: demo_single_loads demo_root_loads config_starts_def default_path_def) (simp add: demo_sys_def)

theorem daemon_run_trace_witness:
  "\<exists>kills. dm_steps (snd (main demo_sys [] (\<lambda>_. 0))) =
     [Step_config default_path, Step_bus_init, Step_pool_init, Step_signals, Step_fork Inverter_family 42,
      Step_start Inverter_family 0, Step_start Ups_family 0, Step_alarm_tables, Step_monitor_start 0, Step_wait,
      Step_monitor_stop, Step_stop Inverter_family, Step_stop Ups_family, Step_db_close] @ kills"
proof -
  have "fst (main demo_sys [] (\<lambda>_. 0)) = Exit_status 0"
    by (rule main_starts [OF demo_args(2)])
      (simp_all add: demo_single_loads default_path_def config_starts_def, simp_all add: demo_sys_def)
  moreover have "fork_steps demo_sys Inverter_family [c] = [Step_fork Inverter_family 42]" for c
    by (simp add: fork_steps_def fork_cmos_publisher_def demo_sys_def)
  ultimately show ?thesis
    using daemon_run_trace [of demo_sys "[]" "\<lambda>_. 0"]
    by (auto simp: demo_single_loads demo_args default_path_def fork_steps_def)
qed

end
