(* ===== verification/Log_Lib.thy ===== *)
theory Log_Lib
  imports Daemon_Main
begin

text \<open>
  \<^verbatim>\<open>lib/log/log.c\<close>: the level filter, the stream and the line of a log call. The local time and
  the text that \<^verbatim>\<open>vfprintf\<close> formats are arguments; \<^verbatim>\<open>log_message_printed\<close> is the filter.
\<close>

abbreviation LOG_LEVEL_VERBOSE :: u32 where "LOG_LEVEL_VERBOSE \<equiv> 0"
abbreviation LOG_LEVEL_DEBUG :: u32 where "LOG_LEVEL_DEBUG \<equiv> 1"
abbreviation LOG_LEVEL_WARNING :: u32 where "LOG_LEVEL_WARNING \<equiv> 3"
abbreviation LOG_LEVEL_ASSERT :: u32 where "LOG_LEVEL_ASSERT \<equiv> 5"

definition PROJECT_NAME :: string where "PROJECT_NAME = ''CM_MODBUS''"

datatype log_stream = Log_stdout | Log_stderr

record local_time =
  tm_year :: nat
  tm_mon :: nat
  tm_mday :: nat
  tm_hour :: nat
  tm_min :: nat
  tm_sec :: nat

text \<open>A number with at least \<open>w\<close> digits.\<close>

definition pad_number :: "nat \<Rightarrow> nat \<Rightarrow> string" where
  "pad_number w n = replicate (w - length (show_nat n)) CHR ''0'' @ show_nat n"

text \<open>\<^verbatim>\<open>time_buffer\<close>: years count from 1900, months from 0.\<close>

definition time_text :: "local_time \<Rightarrow> nat \<Rightarrow> string" where
  "time_text t usec =
     (let date = show_nat (1900 + tm_year t) @ ''-'' @ pad_number 2 (tm_mon t + 1) @ ''-'' @ pad_number 2 (tm_mday t) @ '' '' @
                 pad_number 2 (tm_hour t) @ '':'' @ pad_number 2 (tm_min t) @ '':'' @ pad_number 2 (tm_sec t)
      in take 39 (date @ ''.'' @ pad_number 3 (usec div 1000)))"

definition level_text :: "u32 \<Rightarrow> string" where
  "level_text level =
     (if level = LOG_LEVEL_VERBOSE then ''VERBOSE'' else if level = LOG_LEVEL_DEBUG then ''DEBUG''
      else if level = LOG_LEVEL_INFO then ''INFO'' else if level = LOG_LEVEL_WARNING then ''WARNING''
      else if level = LOG_LEVEL_ERROR then ''ERROR'' else if level = LOG_LEVEL_ASSERT then ''ASSERT'' else ''UNKNOWN'')"

definition log_output :: "u32 \<Rightarrow> log_stream" where
  "log_output level = (if level = LOG_LEVEL_ERROR \<or> level = LOG_LEVEL_ASSERT then Log_stderr else Log_stdout)"

definition log_message :: "u32 \<Rightarrow> u32 \<Rightarrow> local_time \<Rightarrow> nat \<Rightarrow> string \<Rightarrow> (log_stream \<times> string) option" where
  "log_message current_log_level level t usec txt =
     (if log_message_printed current_log_level level
      then Some (log_output level,
             ''['' @ time_text t usec @ ''] ['' @ PROJECT_NAME @ ''] ['' @ level_text level @ '']: '' @ txt @ [CHR 0x0A])
      else None)"

definition set_log_level :: "u32 \<Rightarrow> u32 \<Rightarrow> u32" where
  "set_log_level level current_log_level = level"

section \<open>Lines\<close>

lemma digits_of_pad [simp]: "digits_value 10 0 (pad_number w n) = n"
proof -
  have "digits_value 10 0 (replicate k CHR ''0'' @ s) = digits_value 10 0 s" for k s
    by (induction k) (simp_all add: digit_value_def code_of_def)
  then show ?thesis by (simp add: pad_number_def)
qed

lemma length_pad: "n < 10 ^ Suc k \<Longrightarrow> length (pad_number (Suc k) n) = Suc k"
  using length_show_nat [of n k] by (simp add: pad_number_def)

lemma pad_eq [simp]: "pad_number w n = pad_number w m \<longleftrightarrow> n = m"
  by (metis digits_of_pad)

text \<open>A broken-down time of the years 1900 to 9999.\<close>

definition time_ok :: "local_time \<Rightarrow> bool" where
  "time_ok t \<longleftrightarrow> tm_year t \<le> 8099 \<and> tm_mon t < 12 \<and> 1 \<le> tm_mday t \<and> tm_mday t \<le> 31 \<and> tm_hour t < 24 \<and> tm_min t < 60 \<and> tm_sec t \<le> 60"

lemma show_nat_long: "10 ^ k \<le> n \<Longrightarrow> k < length (show_nat n)"
proof (induction k arbitrary: n)
  case 0
  then show ?case by simp
next
  case (Suc k)
  have "10 * 1 \<le> 10 * (10 :: nat) ^ k" by (rule mult_le_mono2) simp
  moreover have "10 * 10 ^ k \<le> n" using Suc.prems by simp
  ultimately have "\<not> n < 10" by linarith
  moreover have "10 ^ k \<le> n div 10" using Suc.prems by (simp add: less_eq_div_iff_mult_less_eq mult.commute)
  ultimately have "10 ^ k \<le> n div 10" "\<not> n < 10" by blast+
  with Suc.IH [of "n div 10"] show ?case by (subst show_nat.simps) simp
qed

lemma year_text: "tm_year t \<le> 8099 \<Longrightarrow> length (show_nat (1900 + tm_year t)) = 4"
  using show_nat_long [of 3 "1900 + tm_year t"] length_show_nat [of "1900 + tm_year t" 3] by simp

lemma two_digits: "n < 100 \<Longrightarrow> length (pad_number 2 n) = 2"
  using length_pad [of n 1] by (simp add: numeral_2_eq_2)

lemma three_digits: "n < 1000 \<Longrightarrow> length (pad_number 3 n) = 3"
  using length_pad [of n 2] by (simp add: numeral_3_eq_3)

lemma time_text_length:
  assumes "time_ok t" and "usec < 1000000"
  shows "length (time_text t usec) = 23"
  using assms year_text [of t] by (simp add: time_text_def Let_def two_digits three_digits time_ok_def)

lemma time_text_eq:
  assumes "time_ok t" and "time_ok t'" and "usec < 1000000" and "usec' < 1000000" and "time_text t usec = time_text t' usec'"
  shows "t = t' \<and> usec div 1000 = usec' div 1000"
proof -
  have l: "length (time_text t usec) \<le> 39" "length (time_text t' usec') \<le> 39"
    using time_text_length [OF assms(1,3)] time_text_length [OF assms(2,4)] by simp_all
  have y: "length (show_nat (1900 + tm_year t)) = 4" "length (show_nat (1900 + tm_year t')) = 4"
    using year_text [of t] year_text [of t'] assms(1,2) by (simp_all add: time_ok_def)
  have p: "length (pad_number 2 (Suc (tm_mon t))) = 2" "length (pad_number 2 (Suc (tm_mon t'))) = 2"
    "length (pad_number 2 (tm_mday t)) = 2" "length (pad_number 2 (tm_mday t')) = 2"
    "length (pad_number 2 (tm_hour t)) = 2" "length (pad_number 2 (tm_hour t')) = 2"
    "length (pad_number 2 (tm_min t)) = 2" "length (pad_number 2 (tm_min t')) = 2"
    "length (pad_number 2 (tm_sec t)) = 2" "length (pad_number 2 (tm_sec t')) = 2"
    "length (pad_number 3 (usec div 1000)) = 3" "length (pad_number 3 (usec' div 1000)) = 3"
    using assms(1-4) by (simp_all add: time_ok_def two_digits three_digits)
  have e: "show_nat (1900 + tm_year t) @ ''-'' @ pad_number 2 (Suc (tm_mon t)) @ ''-'' @ pad_number 2 (tm_mday t) @ '' '' @
      pad_number 2 (tm_hour t) @ '':'' @ pad_number 2 (tm_min t) @ '':'' @ pad_number 2 (tm_sec t) @ ''.'' @ pad_number 3 (usec div 1000) =
    show_nat (1900 + tm_year t') @ ''-'' @ pad_number 2 (Suc (tm_mon t')) @ ''-'' @ pad_number 2 (tm_mday t') @ '' '' @
      pad_number 2 (tm_hour t') @ '':'' @ pad_number 2 (tm_min t') @ '':'' @ pad_number 2 (tm_sec t') @ ''.'' @ pad_number 3 (usec' div 1000)"
    using assms(5) by (simp add: time_text_def Let_def y p)
  then have "show_nat (1900 + tm_year t) = show_nat (1900 + tm_year t')" "tm_mon t = tm_mon t'" "tm_mday t = tm_mday t'"
    "tm_hour t = tm_hour t'" "tm_min t = tm_min t'" "tm_sec t = tm_sec t'" "usec div 1000 = usec' div 1000"
    by (auto simp: append_eq_append_conv y p)
  moreover from this(1) have "1900 + tm_year t = 1900 + tm_year t'" by (metis digits_value_show)
  ultimately show ?thesis by simp
qed

lemma level_text_plain: "CHR '']'' \<notin> set (level_text level)"
  by (simp add: level_text_def)

text \<open>
  A log line tells when and at what level it was written and its text: two calls whose lines
  are the same had the same local time up to the millisecond, the same level and the same text;
  and an error is written whatever the current level, to the error stream, like no other line
  but an assertion.
\<close>

theorem log_line_unambiguous:
  assumes "time_ok t" and "time_ok t'" and "usec < 1000000" and "usec' < 1000000"
    and "log_message cur level t usec txt = Some (s, l)" and "log_message cur' level' t' usec' txt' = Some (s', l)"
  shows "t = t' \<and> usec div 1000 = usec' div 1000 \<and> level_text level = level_text level' \<and> txt = txt' \<and>
    (log_message cur LOG_LEVEL_ERROR t usec txt \<noteq> None) \<and> (s = Log_stderr \<longleftrightarrow> level \<in> {LOG_LEVEL_ERROR, LOG_LEVEL_ASSERT})"
proof -
  have l: "l = ''['' @ time_text t usec @ ''] ['' @ PROJECT_NAME @ ''] ['' @ level_text level @ '']: '' @ txt @ [CHR 0x0A]"
    "l = ''['' @ time_text t' usec' @ ''] ['' @ PROJECT_NAME @ ''] ['' @ level_text level' @ '']: '' @ txt' @ [CHR 0x0A]"
    using assms(5,6) by (auto simp: log_message_def split: if_splits)
  then have "time_text t usec @ ''] ['' @ PROJECT_NAME @ ''] ['' @ level_text level @ '']: '' @ txt @ [CHR 0x0A] =
    time_text t' usec' @ ''] ['' @ PROJECT_NAME @ ''] ['' @ level_text level' @ '']: '' @ txt' @ [CHR 0x0A]" by simp
  then have e: "time_text t usec = time_text t' usec'"
    "level_text level @ CHR '']'' # '': '' @ txt = level_text level' @ CHR '']'' # '': '' @ txt'"
    using time_text_length [OF assms(1,3)] time_text_length [OF assms(2,4)] by (simp_all add: append_eq_append_conv)
  have "level_text level = level_text level'" "txt = txt'"
    using char_split_unique [OF e(2) level_text_plain level_text_plain] by simp_all
  moreover have "s = Log_stderr \<longleftrightarrow> level \<in> {LOG_LEVEL_ERROR, LOG_LEVEL_ASSERT}"
    using assms(5) by (auto simp: log_message_def log_output_def split: if_splits)
  ultimately show ?thesis using time_text_eq [OF assms(1-4) e(1)] by (simp add: log_message_def log_message_printed_def)
qed

definition demo_time :: local_time where
  "demo_time = \<lparr>tm_year = 124, tm_mon = 1, tm_mday = 29, tm_hour = 7, tm_min = 5, tm_sec = 9\<rparr>"

lemma demo_time_text: "time_text demo_time 42000 = ''2024-02-29 07:05:09.042''"
proof -
  have "map digit_char [0, 1, 2, 4, 5, 7, 9] = ''0124579''" "digit_char (Suc (Suc 0)) = CHR ''2''" by code_simp+
  then show ?thesis by (simp add: time_text_def demo_time_def pad_number_def show_nat.simps Let_def)
qed

theorem log_line_unambiguous_witness:
  "\<exists>l. log_message LOG_LEVEL_INFO LOG_LEVEL_WARNING demo_time 42000 ''low'' = Some (Log_stdout, l) \<and>
     take 24 l = ''[2024-02-29 07:05:09.042'' \<and>
     log_message LOG_LEVEL_INFO LOG_LEVEL_ERROR demo_time 42000 ''low'' \<noteq> None"
proof -
  define l where "l = ''['' @ time_text demo_time 42000 @ ''] ['' @ PROJECT_NAME @ ''] ['' @ level_text LOG_LEVEL_WARNING @ '']: low'' @ [CHR 0x0A]"
  have m: "log_message LOG_LEVEL_INFO LOG_LEVEL_WARNING demo_time 42000 ''low'' = Some (Log_stdout, l)"
    by (simp add: log_message_def log_message_printed_def log_output_def l_def)
  have t: "time_ok demo_time" by (simp add: time_ok_def demo_time_def)
  have u: "(42000 :: nat) < 1000000" by simp
  note r = log_line_unambiguous [OF t t u u m m]
  have "log_message LOG_LEVEL_INFO LOG_LEVEL_ERROR demo_time 42000 ''low'' \<noteq> None"
    by (rule r [THEN conjunct2, THEN conjunct2, THEN conjunct2, THEN conjunct2, THEN conjunct1])
  moreover have "take 24 l = ''[2024-02-29 07:05:09.042''" by (simp add: l_def demo_time_text)
  ultimately show ?thesis using m by metis
qed

end
