(* ===== verification/Tcp_Server.thy ===== *)
theory Tcp_Server
  imports Tcp_Client
begin

text \<open>
  The threads of \<^verbatim>\<open>lib/modbus/modbus_tcp.c\<close>: a server that accepts Modbus TCP masters and a
  client that keeps one outgoing connection, both started by \<^verbatim>\<open>mb_tcp_start\<close> and ended by
  \<^verbatim>\<open>mb_tcp_stop\<close>. The callbacks of the configuration are functions over the environment \<open>'e\<close>,
  which also says through \<open>sv_running\<close> whether \<^verbatim>\<open>keep_running\<close> is still set. The bodies of the
  two threads run for at most a given number of turns. The log is left out.
\<close>

abbreviation MB_TCP_MAX_CLIENTS :: nat where "MB_TCP_MAX_CLIENTS \<equiv> 10"

section \<open>Data\<close>

datatype mb_tcp_mode = MB_TCP_MODE_LISTEN_SERVER | MB_TCP_MODE_CONNECT_CLIENT

text \<open>\<^verbatim>\<open>select\<close> fails, interrupted by a signal or not, or answers the readable descriptors, none
  when the time is over.\<close>

datatype select_result = Select_failed bool | Select_ready "int list"

record 'e server_os =
  sv_sk :: "'e socket_os"
  sv_running :: "'e \<Rightarrow> bool"
  sv_bind :: "int \<Rightarrow> u16 \<Rightarrow> 'e \<Rightarrow> bool \<times> 'e"
  sv_listen :: "int \<Rightarrow> nat \<Rightarrow> 'e \<Rightarrow> bool \<times> 'e"
  sv_thread :: "'e \<Rightarrow> bool \<times> 'e"
  sv_select :: "int list \<Rightarrow> 'e \<Rightarrow> select_result \<times> 'e"
  sv_accept :: "int \<Rightarrow> 'e \<Rightarrow> int \<times> 'e"
  sv_peek :: "int \<Rightarrow> 'e \<Rightarrow> int \<times> 'e"
  sv_sleep :: "'e \<Rightarrow> 'e"

record 'e mb_tcp_config =
  mb_mode :: mb_tcp_mode
  mb_remote_host :: "string option"
  mb_port :: u16
  mb_bind_iface :: "string option"
  mb_connect_timeout_sec :: u32
  mb_connect_retry_sec :: u32
  mb_recv_timeout_ms :: u32
  mb_max_clients :: u8
  on_link :: "(int \<Rightarrow> bool \<Rightarrow> 'e \<Rightarrow> 'e) option"
  on_init :: "('e \<Rightarrow> 'e) option"
  on_process :: "(int \<Rightarrow> 'e \<Rightarrow> int \<times> 'e) option"
  on_error :: "(bool \<Rightarrow> 'e \<Rightarrow> 'e) option"

record 'e mb_tcp_ctx =
  mb_tid :: u16
  mb_cfg :: "'e mb_tcp_config"
  listen_sock :: int
  stream_sock :: int
  client_fds :: "int list"

definition mb_tcp_link_call :: "'e mb_tcp_config \<Rightarrow> int \<Rightarrow> bool \<Rightarrow> 'e \<Rightarrow> 'e" where
  "mb_tcp_link_call cfg fd connected e = (case on_link cfg of None \<Rightarrow> e | Some f \<Rightarrow> f fd connected e)"

definition error_call :: "'e mb_tcp_config \<Rightarrow> bool \<Rightarrow> 'e \<Rightarrow> 'e" where
  "error_call cfg connected e = (case on_error cfg of None \<Rightarrow> e | Some f \<Rightarrow> f connected e)"

text \<open>The two calls that follow a change of a link, in the server's order.\<close>

definition link_changed :: "'e mb_tcp_config \<Rightarrow> int \<Rightarrow> bool \<Rightarrow> 'e \<Rightarrow> 'e" where
  "link_changed cfg fd connected e = error_call cfg connected (mb_tcp_link_call cfg fd connected e)"

definition effective_max_clients :: "'e mb_tcp_config \<Rightarrow> nat" where
  "effective_max_clients cfg =
     (if mb_max_clients cfg = 0 \<or> mb_max_clients cfg > of_nat MB_TCP_MAX_CLIENTS then MB_TCP_MAX_CLIENTS
      else unat (mb_max_clients cfg))"

section \<open>Starting\<close>

definition mb_tcp_listen_init :: "'e server_os \<Rightarrow> 'e mb_tcp_ctx \<Rightarrow> 'e \<Rightarrow> int \<times> 'e mb_tcp_ctx \<times> 'e" where
  "mb_tcp_listen_init os ctx e =
     (let sk = sv_sk os;
          (fd, e1) = sk_socket sk e;
          fail = (\<lambda>e. (-1, ctx\<lparr>listen_sock := -1\<rparr>, sk_close sk fd e))
      in if fd < 0 then (-1, ctx\<lparr>listen_sock := fd\<rparr>, e1)
         else case sk_setsockopt sk fd SO_REUSEADDR e1 of
           (False, e2) \<Rightarrow> fail e2
         | (True, e2) \<Rightarrow>
           (case sv_bind os fd (mb_port (mb_cfg ctx)) e2 of
              (False, e3) \<Rightarrow> fail e3
            | (True, e3) \<Rightarrow>
              (case sv_listen os fd MB_TCP_MAX_CLIENTS e3 of
                 (False, e4) \<Rightarrow> fail e4
               | (True, e4) \<Rightarrow> (0, ctx\<lparr>listen_sock := fd\<rparr>, e4))))"

definition mb_tcp_start ::
  "'e server_os \<Rightarrow> 'e mb_tcp_config \<Rightarrow> 'e mb_tcp_ctx \<Rightarrow> 'e \<Rightarrow> int \<times> 'e mb_tcp_ctx \<times> 'e" where
  "mb_tcp_start os cfg old e =
     (if mb_mode cfg = MB_TCP_MODE_CONNECT_CLIENT \<and> (mb_remote_host cfg = None \<or> mb_remote_host cfg = Some [])
      then (-1, old, e)
      else
        let cfg1 = cfg\<lparr>mb_connect_timeout_sec :=
                         (if mb_connect_timeout_sec cfg = 0 then 5 else mb_connect_timeout_sec cfg),
                       mb_connect_retry_sec := (if mb_connect_retry_sec cfg = 0 then 3 else mb_connect_retry_sec cfg)\<rparr>;
            ctx = \<lparr>mb_tid = 0, mb_cfg = cfg1, listen_sock = -1, stream_sock = -1,
                   client_fds = replicate MB_TCP_MAX_CLIENTS 0\<rparr>
        in if \<not> sk_mutex_ok (sv_sk os) e then (-1, ctx, e)
           else
             let e1 = (case on_init cfg1 of None \<Rightarrow> e | Some f \<Rightarrow> f e)
             in if mb_mode cfg1 = MB_TCP_MODE_LISTEN_SERVER
                then (case mb_tcp_listen_init os ctx e1 of
                        (rc, ctx1, e2) \<Rightarrow>
                          if rc < 0 then (-1, ctx1, e2)
                          else (case sv_thread os e2 of
                                  (False, e3) \<Rightarrow>
                                    (-1, ctx1\<lparr>listen_sock := -1\<rparr>, sk_close (sv_sk os) (listen_sock ctx1) e3)
                                | (True, e3) \<Rightarrow> (0, ctx1, e3)))
                else (case sv_thread os e1 of (False, e2) \<Rightarrow> (-1, ctx, e2) | (True, e2) \<Rightarrow> (0, ctx, e2)))"

section \<open>The server thread\<close>

text \<open>After 5 seconds without anything to read: clients that closed their connection are closed,
  slot by slot.\<close>

fun peek_clients :: "'e server_os \<Rightarrow> 'e mb_tcp_config \<Rightarrow> int list \<Rightarrow> 'e \<Rightarrow> int list \<times> 'e" where
  "peek_clients os cfg [] e = ([], e)"
| "peek_clients os cfg (sd # fds) e =
     (if 0 < sd
      then (case sv_peek os sd e of
              (n, e1) \<Rightarrow>
                if n = 0
                then apfst (Cons 0) (peek_clients os cfg fds (link_changed cfg sd False (sk_close (sv_sk os) sd e1)))
                else apfst (Cons sd) (peek_clients os cfg fds e1))
      else apfst (Cons sd) (peek_clients os cfg fds e))"

text \<open>The clients with something to read are served, slot by slot.\<close>

fun serve_clients :: "'e server_os \<Rightarrow> 'e mb_tcp_config \<Rightarrow> int list \<Rightarrow> int list \<Rightarrow> 'e \<Rightarrow> int list \<times> 'e" where
  "serve_clients os cfg ready [] e = ([], e)"
| "serve_clients os cfg ready (sd # fds) e =
     (if 0 < sd \<and> sd \<in> set ready
      then (case on_process cfg of
              None \<Rightarrow> apfst (Cons sd) (serve_clients os cfg ready fds e)
            | Some f \<Rightarrow>
                (case f sd e of
                   (rc, e1) \<Rightarrow>
                     if rc < 0
                     then apfst (Cons 0)
                            (serve_clients os cfg ready fds (link_changed cfg sd False (sk_close (sv_sk os) sd e1)))
                     else apfst (Cons sd) (serve_clients os cfg ready fds e1)))
      else apfst (Cons sd) (serve_clients os cfg ready fds e))"

text \<open>The first free slot; \<^const>\<open>None\<close> when there is none.\<close>

fun place_client :: "int \<Rightarrow> int list \<Rightarrow> int list option" where
  "place_client fd [] = None"
| "place_client fd (sd # fds) = (if sd = 0 then Some (fd # fds) else map_option (Cons sd) (place_client fd fds))"

definition client_options :: "'e server_os \<Rightarrow> 'e mb_tcp_config \<Rightarrow> int \<Rightarrow> 'e \<Rightarrow> 'e" where
  "client_options os cfg fd e =
     fold (\<lambda>opt e. snd (sk_setsockopt (sv_sk os) fd opt e))
       ([SO_KEEPALIVE, TCP_KEEPIDLE 5, TCP_KEEPINTVL 5, TCP_KEEPCNT 1] @
        (if mb_recv_timeout_ms cfg > 0 then [SO_RCVTIMEO_MS (mb_recv_timeout_ms cfg)] else [])) e"

text \<open>The part of a turn after \<^verbatim>\<open>select\<close>, on the slots in use.\<close>

definition server_ready ::
  "'e server_os \<Rightarrow> 'e mb_tcp_config \<Rightarrow> int \<Rightarrow> int list \<Rightarrow> int list \<Rightarrow> 'e \<Rightarrow> int list \<times> 'e" where
  "server_ready os cfg ls ready fds e =
     (if 0 \<le> ls \<and> ls \<in> set ready
      then (case sv_accept os ls e of
              (fd, e1) \<Rightarrow>
                if fd < 0 then (fds, e1)
                else
                  let e2 = client_options os cfg fd e1
                  in case place_client fd fds of
                       None \<Rightarrow> (fds, sk_close (sv_sk os) fd e2)
                     | Some fds1 \<Rightarrow> serve_clients os cfg ready fds1 (link_changed cfg fd True e2))
      else serve_clients os cfg ready fds e)"

text \<open>One turn. A failing \<^verbatim>\<open>select\<close> leaves the set as it was given; when a signal interrupted it
  the code goes on with that set.\<close>

definition server_turn :: "'e server_os \<Rightarrow> 'e mb_tcp_ctx \<Rightarrow> 'e \<Rightarrow> 'e mb_tcp_ctx \<times> 'e" where
  "server_turn os ctx e =
     (let n = effective_max_clients (mb_cfg ctx);
          fds = take n (client_fds ctx);
          asked = listen_sock ctx # filter (\<lambda>sd. 0 < sd) fds;
          put = (\<lambda>(fds1, e1). (ctx\<lparr>client_fds := fds1 @ drop n (client_fds ctx)\<rparr>, e1))
      in case sv_select os asked e of
           (Select_failed interrupted, e1) \<Rightarrow>
             if \<not> interrupted then (ctx, e1)
             else put (server_ready os (mb_cfg ctx) (listen_sock ctx) asked fds e1)
         | (Select_ready ready, e1) \<Rightarrow>
             if ready = [] then put (peek_clients os (mb_cfg ctx) fds e1)
             else put (server_ready os (mb_cfg ctx) (listen_sock ctx) ready fds e1))"

fun mb_tcp_server_thread :: "'e server_os \<Rightarrow> nat \<Rightarrow> 'e mb_tcp_ctx \<Rightarrow> 'e \<Rightarrow> 'e mb_tcp_ctx \<times> 'e" where
  "mb_tcp_server_thread os 0 ctx e = (ctx, e)"
| "mb_tcp_server_thread os (Suc n) ctx e =
     (if sv_running os e
      then (case server_turn os ctx e of (ctx1, e1) \<Rightarrow> mb_tcp_server_thread os n ctx1 e1)
      else (ctx, e))"

section \<open>The client thread\<close>

fun retry_wait :: "'e server_os \<Rightarrow> nat \<Rightarrow> 'e \<Rightarrow> 'e" where
  "retry_wait os 0 e = e"
| "retry_wait os (Suc k) e = (if sv_running os e then retry_wait os k (sv_sleep os e) else e)"

text \<open>The thread's local variables.\<close>

record client_locals =
  cl_sock :: int
  cl_connected :: bool

definition client_process ::
  "'e server_os \<Rightarrow> 'e mb_tcp_ctx \<Rightarrow> client_locals \<Rightarrow> 'e \<Rightarrow> 'e mb_tcp_ctx \<times> client_locals \<times> 'e" where
  "client_process os ctx l e =
     (case on_process (mb_cfg ctx) of
        None \<Rightarrow> (ctx, l, sv_sleep os e)
      | Some f \<Rightarrow>
          (case f (cl_sock l) e of
             (rc, e1) \<Rightarrow>
               if rc < 0
               then (ctx\<lparr>stream_sock := -1\<rparr>, \<lparr>cl_sock = -1, cl_connected = False\<rparr>,
                     error_call (mb_cfg ctx) False
                       (sk_close (sv_sk os) (cl_sock l) (mb_tcp_link_call (mb_cfg ctx) (cl_sock l) False e1)))
               else (ctx, l, sv_sleep os e1)))"

definition client_turn ::
  "'e server_os \<Rightarrow> 'e mb_tcp_ctx \<Rightarrow> client_locals \<Rightarrow> 'e \<Rightarrow> 'e mb_tcp_ctx \<times> client_locals \<times> 'e" where
  "client_turn os ctx l e =
     (let cfg = mb_cfg ctx
      in if cl_connected l then client_process os ctx l e
         else
           (case mb_tcp_connect (sv_sk os) (cl_sock l) (mb_bind_iface cfg) (mb_remote_host cfg) (mb_port cfg)
                   (mb_connect_timeout_sec cfg) e of
              (rc, fd, e1) \<Rightarrow>
                if rc = 0
                then client_process os (ctx\<lparr>stream_sock := fd\<rparr>) \<lparr>cl_sock = fd, cl_connected = True\<rparr>
                       (link_changed cfg fd True e1)
                else (ctx, l\<lparr>cl_sock := fd\<rparr>,
                      retry_wait os (unat (mb_connect_retry_sec cfg)) (error_call cfg False e1))))"

text \<open>The turns of the thread while the flag is set, at most \<open>n\<close> of them, and what it does at its
  end.\<close>

fun client_turns ::
  "'e server_os \<Rightarrow> nat \<Rightarrow> 'e mb_tcp_ctx \<Rightarrow> client_locals \<Rightarrow> 'e \<Rightarrow> 'e mb_tcp_ctx \<times> client_locals \<times> 'e" where
  "client_turns os 0 ctx l e = (ctx, l, e)"
| "client_turns os (Suc n) ctx l e =
     (if sv_running os e
      then (case client_turn os ctx l e of (ctx1, l1, e1) \<Rightarrow> client_turns os n ctx1 l1 e1)
      else (ctx, l, e))"

definition client_finish ::
  "'e server_os \<Rightarrow> nat \<Rightarrow> client_locals \<Rightarrow> 'e mb_tcp_ctx \<Rightarrow> 'e \<Rightarrow> 'e mb_tcp_ctx \<times> 'e" where
  "client_finish os n l ctx e =
     (case client_turns os n ctx l e of
        (ctx1, l1, e1) \<Rightarrow>
          (ctx1, if 0 \<le> cl_sock l1 then mb_tcp_link_call (mb_cfg ctx1) (cl_sock l1) False e1 else e1))"

definition client_start :: client_locals where
  "client_start = \<lparr>cl_sock = -1, cl_connected = False\<rparr>"

definition mb_tcp_client_thread :: "'e server_os \<Rightarrow> nat \<Rightarrow> 'e mb_tcp_ctx \<Rightarrow> 'e \<Rightarrow> 'e mb_tcp_ctx \<times> 'e" where
  "mb_tcp_client_thread os n ctx e = client_finish os n client_start ctx e"

section \<open>Stopping\<close>

definition shutdown_open :: "'e server_os \<Rightarrow> 'e mb_tcp_ctx \<Rightarrow> 'e \<Rightarrow> 'e" where
  "shutdown_open os ctx e =
     fold (sk_shutdown (sv_sk os))
       ((if 0 \<le> listen_sock ctx then [listen_sock ctx] else []) @
        filter (\<lambda>sd. 0 < sd) (client_fds ctx) @
        (if 0 \<le> stream_sock ctx then [stream_sock ctx] else [])) e"

definition close_open :: "'e server_os \<Rightarrow> 'e mb_tcp_ctx \<Rightarrow> 'e \<Rightarrow> 'e mb_tcp_ctx \<times> 'e" where
  "close_open os ctx e =
     (ctx\<lparr>listen_sock := (if 0 \<le> listen_sock ctx then -1 else listen_sock ctx),
          client_fds := map (\<lambda>sd. if 0 < sd then 0 else sd) (client_fds ctx),
          stream_sock := (if 0 \<le> stream_sock ctx then -1 else stream_sock ctx)\<rparr>,
      fold (sk_close (sv_sk os))
       ((if 0 \<le> listen_sock ctx then [listen_sock ctx] else []) @
        filter (\<lambda>sd. 0 < sd) (client_fds ctx) @
        (if 0 \<le> stream_sock ctx then [stream_sock ctx] else [])) e)"

text \<open>\<open>rest\<close> is what the thread still does until \<^verbatim>\<open>pthread_join\<close> returns.\<close>

definition mb_tcp_stop ::
  "'e server_os \<Rightarrow> ('e mb_tcp_ctx \<Rightarrow> 'e \<Rightarrow> 'e mb_tcp_ctx \<times> 'e) \<Rightarrow> 'e mb_tcp_ctx \<Rightarrow> 'e \<Rightarrow> 'e mb_tcp_ctx \<times> 'e" where
  "mb_tcp_stop os rest ctx e = (case rest ctx (shutdown_open os ctx e) of (ctx1, e1) \<Rightarrow> close_open os ctx1 e1)"

end
