(* ===== verification/Tcp_Server_Facts.thy ===== *)
theory Tcp_Server_Facts
  imports Tcp_Server
begin

text \<open>
  What the threads of \<^verbatim>\<open>modbus_tcp.c\<close> keep: the table of clients holds distinct open descriptors
  within its limit, the links reported to the application are those in the table, and starting,
  running and stopping leaves no descriptor behind.
\<close>

section \<open>What the threads rely on\<close>

text \<open>\<open>neutral os cfg g\<close>: an observation \<open>g\<close> of the environment that only sockets made, accepted
  or closed and reported links can change.\<close>

definition keeps_view :: "('e \<Rightarrow> 'a) \<Rightarrow> ('e \<Rightarrow> 'e) \<Rightarrow> bool" where
  "keeps_view g f \<longleftrightarrow> (\<forall>e. g (f e) = g e)"

definition neutral :: "'e server_os \<Rightarrow> 'e mb_tcp_config \<Rightarrow> ('e \<Rightarrow> 'a) \<Rightarrow> bool" where
  "neutral os cfg g \<longleftrightarrow>
     (\<forall>fd opt. keeps_view g (\<lambda>e. snd (sk_setsockopt (sv_sk os) fd opt e))) \<and>
     (\<forall>fd. keeps_view g (sk_shutdown (sv_sk os) fd)) \<and>
     (\<forall>fd b. keeps_view g (sk_set_nonblock (sv_sk os) fd b)) \<and>
     (\<forall>fd h p. keeps_view g (\<lambda>e. snd (sk_connect (sv_sk os) fd h p e))) \<and>
     (\<forall>fd t. keeps_view g (\<lambda>e. snd (sk_wait_writable (sv_sk os) fd t e))) \<and>
     (\<forall>fd. keeps_view g (\<lambda>e. snd (sk_so_error (sv_sk os) fd e))) \<and>
     (\<forall>fd p. keeps_view g (\<lambda>e. snd (sv_bind os fd p e))) \<and>
     (\<forall>fd n. keeps_view g (\<lambda>e. snd (sv_listen os fd n e))) \<and>
     keeps_view g (\<lambda>e. snd (sv_thread os e)) \<and>
     (\<forall>fds. keeps_view g (\<lambda>e. snd (sv_select os fds e))) \<and>
     (\<forall>fd. keeps_view g (\<lambda>e. snd (sv_peek os fd e))) \<and>
     keeps_view g (sv_sleep os) \<and>
     (\<forall>f. on_init cfg = Some f \<longrightarrow> keeps_view g f) \<and>
     (\<forall>f fd. on_process cfg = Some f \<longrightarrow> keeps_view g (\<lambda>e. snd (f fd e))) \<and>
     (\<forall>f b. on_error cfg = Some f \<longrightarrow> keeps_view g (f b))"

text \<open>Descriptors: a new one was not open, closing closes, and the callbacks open and close
  none.\<close>

definition server_descriptors :: "'e server_os \<Rightarrow> 'e mb_tcp_config \<Rightarrow> ('e \<Rightarrow> int set) \<Rightarrow> bool" where
  "server_descriptors os cfg opens \<longleftrightarrow>
     neutral os cfg opens \<and> (\<forall>e. opens_fresh opens e (sk_socket (sv_sk os) e)) \<and>
     (\<forall>fd e. opens_fresh opens e (sv_accept os fd e) \<and> opens (sk_close (sv_sk os) fd e) = opens e - {fd}) \<and>
     (\<forall>f fd b. on_link cfg = Some f \<longrightarrow> keeps_view opens (f fd b))"

text \<open>An application that records what it is told about links.\<close>

definition server_links :: "'e server_os \<Rightarrow> 'e mb_tcp_config \<Rightarrow> ('e \<Rightarrow> (int \<times> bool) list) \<Rightarrow> bool" where
  "server_links os cfg links \<longleftrightarrow>
     neutral os cfg links \<and> keeps_view links (\<lambda>e. snd (sk_socket (sv_sk os) e)) \<and>
     (\<forall>fd. keeps_view links (\<lambda>e. snd (sv_accept os fd e)) \<and> keeps_view links (sk_close (sv_sk os) fd)) \<and>
     (\<forall>fd b e. links (mb_tcp_link_call cfg fd b e) = links e @ [(fd, b)])"

lemma neutralD:
  assumes "neutral os cfg g"
  shows "g (snd (sk_setsockopt (sv_sk os) fd opt e)) = g e" and "g (sk_shutdown (sv_sk os) fd e) = g e"
    and "g (sk_set_nonblock (sv_sk os) fd b e) = g e" and "g (snd (sk_connect (sv_sk os) fd h p e)) = g e"
    and "g (snd (sk_wait_writable (sv_sk os) fd t e)) = g e" and "g (snd (sk_so_error (sv_sk os) fd e)) = g e"
    and "g (snd (sv_bind os fd p e)) = g e" and "g (snd (sv_listen os fd n e)) = g e"
    and "g (snd (sv_thread os e)) = g e" and "g (snd (sv_select os fds e)) = g e"
    and "g (snd (sv_peek os fd e)) = g e" and "g (sv_sleep os e) = g e"
  using assms by (simp_all add: neutral_def keeps_view_def)

lemma neutral_calls:
  assumes "neutral os cfg g"
  shows "on_init cfg = Some i \<Longrightarrow> g (i e) = g e" and "on_process cfg = Some f \<Longrightarrow> g (snd (f fd e)) = g e"
    and "g (error_call cfg b e) = g e"
  using assms by (simp_all add: neutral_def keeps_view_def error_call_def split: option.split)

lemma client_options_view: "neutral os cfg g \<Longrightarrow> g (client_options os cfg fd e) = g e"
  by (simp add: client_options_def neutralD(1))

lemma retry_wait_view: "neutral os cfg g \<Longrightarrow> g (retry_wait os k e) = g e"
  by (induction k arbitrary: e) (simp_all add: neutralD(12))

lemma server_descriptorsD:
  assumes "server_descriptors os cfg opens"
  shows "neutral os cfg opens" and "opens_fresh opens e (sk_socket (sv_sk os) e)" and "opens_fresh opens e (sv_accept os fd e)"
    and "opens (sk_close (sv_sk os) fd e) = opens e - {fd}" and "opens (mb_tcp_link_call cfg fd b e) = opens e"
    and "opens (link_changed cfg fd b e) = opens e"
proof -
  show l: "opens (mb_tcp_link_call cfg fd b e) = opens e" and n: "neutral os cfg opens"
    using assms by (simp_all add: server_descriptors_def keeps_view_def mb_tcp_link_call_def split: option.split)
  then show "opens (link_changed cfg fd b e) = opens e" by (simp add: link_changed_def neutral_calls(3) [OF n])
qed (use assms in \<open>simp_all add: server_descriptors_def\<close>)

lemma server_linksD:
  assumes "server_links os cfg links"
  shows "neutral os cfg links" and "links (snd (sk_socket (sv_sk os) e)) = links e" and "links (snd (sv_accept os fd e)) = links e"
    and "links (sk_close (sv_sk os) fd e) = links e" and "links (link_changed cfg fd b e) = links e @ [(fd, b)]"
proof -
  show n: "neutral os cfg links" using assms by (simp add: server_links_def)
  then show "links (link_changed cfg fd b e) = links e @ [(fd, b)]"
    using assms by (simp add: link_changed_def neutral_calls(3) [OF n] server_links_def)
qed (use assms in \<open>simp_all add: server_links_def keeps_view_def\<close>)

section \<open>Walks over the table\<close>

abbreviation in_use :: "int list \<Rightarrow> int list" where "in_use fds \<equiv> filter (\<lambda>sd. 0 < sd) fds"

text \<open>The descriptors that a walk over the slots took out.\<close>

fun dropped :: "int list \<Rightarrow> int list \<Rightarrow> int list" where
  "dropped (a # as) (b # bs) = (if a = b then dropped as bs else a # dropped as bs)"
| "dropped _ _ = []"

definition walk :: "int list \<Rightarrow> int list \<Rightarrow> bool" where
  "walk fds fds' \<longleftrightarrow> list_all2 (\<lambda>a b. b = a \<or> 0 < a \<and> b = 0) fds fds'"

lemma walk_simps [simp]:
  "walk [] []" "walk (a # as) (a # bs) = walk as bs" "0 < a \<Longrightarrow> walk (a # as) (0 # bs) = walk as bs"
  by (simp_all add: walk_def)

lemma walk_length: "walk fds fds' \<Longrightarrow> length fds' = length fds"
  by (simp add: walk_def list_all2_lengthD)

lemma walk_dropped:
  assumes "walk fds fds'"
  shows "set (dropped fds fds') \<subseteq> set (in_use fds)"
    and "distinct (in_use fds) \<Longrightarrow> distinct (dropped fds fds')"
    and "distinct (in_use fds) \<Longrightarrow> in_use fds' = filter (\<lambda>sd. sd \<notin> set (dropped fds fds')) (in_use fds)"
proof -
  have "list_all2 (\<lambda>a b. b = a \<or> 0 < a \<and> b = 0) fds fds'" using assms by (simp add: walk_def)
  then have "set (dropped fds fds') \<subseteq> set (in_use fds) \<and>
    (distinct (in_use fds) \<longrightarrow> distinct (dropped fds fds') \<and>
      in_use fds' = filter (\<lambda>sd. sd \<notin> set (dropped fds fds')) (in_use fds))"
  proof (induction rule: list_all2_induct)
    case (Cons a as b bs)
    have "filter (\<lambda>sd. sd \<noteq> a \<and> sd \<notin> set (dropped as bs)) (in_use as) = filter (\<lambda>sd. sd \<notin> set (dropped as bs)) (in_use as)"
      if "a \<notin> set (in_use as)"
      using that by (intro filter_cong) auto
    with Cons show ?case by (auto simp: conj_commute)
  qed simp
  then show "set (dropped fds fds') \<subseteq> set (in_use fds)"
    and "distinct (in_use fds) \<Longrightarrow> distinct (dropped fds fds')"
    and "distinct (in_use fds) \<Longrightarrow> in_use fds' = filter (\<lambda>sd. sd \<notin> set (dropped fds fds')) (in_use fds)" by blast+
qed

lemma walk_nonneg: "walk fds fds' \<Longrightarrow> \<forall>sd\<in>set fds. 0 \<le> sd \<Longrightarrow> \<forall>sd\<in>set fds'. 0 \<le> sd"
  unfolding walk_def by (induction rule: list_all2_induct) auto

lemma peek_walk: "walk fds (fst (peek_clients os cfg fds e))"
  by (induction fds arbitrary: e) (simp_all split: prod.split)

lemma serve_walk: "walk fds (fst (serve_clients os cfg ready fds e))"
  by (induction fds arbitrary: e) (simp_all split: prod.split option.split)

lemma peek_opens:
  assumes d: "server_descriptors os cfg opens"
  shows "opens (snd (peek_clients os cfg fds e)) = opens e - set (dropped fds (fst (peek_clients os cfg fds e)))"
proof (induction fds arbitrary: e)
  case (Cons sd fds)
  obtain n e1 where p: "sv_peek os sd e = (n, e1)" by fastforce
  have "opens e1 = opens e" using neutralD(11) [OF server_descriptorsD(1) [OF d], of sd e] by (simp add: p)
  then show ?case by (auto simp: p Cons.IH server_descriptorsD(4,6) [OF d])
qed simp

lemma serve_opens:
  assumes d: "server_descriptors os cfg opens"
  shows "opens (snd (serve_clients os cfg ready fds e)) = opens e - set (dropped fds (fst (serve_clients os cfg ready fds e)))"
proof (induction fds arbitrary: e)
  case (Cons sd fds)
  show ?case
  proof (cases "on_process cfg")
    case (Some f)
    obtain n e1 where p: "f sd e = (n, e1)" by fastforce
    have "opens e1 = opens e" using neutral_calls(2) [OF server_descriptorsD(1) [OF d] Some, of sd e] by (simp add: p)
    then show ?thesis by (auto simp: Some p Cons.IH server_descriptorsD(4,6) [OF d])
  qed (simp add: Cons.IH)
qed simp

lemma peek_links:
  assumes d: "server_links os cfg links"
  shows "links (snd (peek_clients os cfg fds e)) =
    links e @ map (\<lambda>sd. (sd, False)) (dropped fds (fst (peek_clients os cfg fds e)))"
proof (induction fds arbitrary: e)
  case (Cons sd fds)
  obtain n e1 where p: "sv_peek os sd e = (n, e1)" by fastforce
  have "links e1 = links e" using neutralD(11) [OF server_linksD(1) [OF d], of sd e] by (simp add: p)
  then show ?case by (auto simp: p Cons.IH server_linksD(4,5) [OF d])
qed simp

lemma serve_links:
  assumes d: "server_links os cfg links"
  shows "links (snd (serve_clients os cfg ready fds e)) =
    links e @ map (\<lambda>sd. (sd, False)) (dropped fds (fst (serve_clients os cfg ready fds e)))"
proof (induction fds arbitrary: e)
  case (Cons sd fds)
  show ?case
  proof (cases "on_process cfg")
    case (Some f)
    obtain n e1 where p: "f sd e = (n, e1)" by fastforce
    have "links e1 = links e" using neutral_calls(2) [OF server_linksD(1) [OF d] Some, of sd e] by (simp add: p)
    then show ?thesis by (auto simp: Some p Cons.IH server_linksD(4,5) [OF d])
  qed (simp add: Cons.IH)
qed simp

section \<open>The table of clients\<close>

text \<open>The slots in use hold distinct descriptors of the server's own, besides its listening socket
  \<open>ls\<close>; \<open>base\<close> is what was open before.\<close>

definition clients_ok :: "int set \<Rightarrow> int \<Rightarrow> int list \<Rightarrow> int set \<Rightarrow> bool" where
  "clients_ok base ls fds opened \<longleftrightarrow>
     0 \<in> base \<and> 0 \<le> ls \<and> ls \<notin> base \<and> distinct (in_use fds) \<and> (\<forall>sd\<in>set fds. 0 \<le> sd) \<and>
     set (in_use fds) \<inter> insert ls base = {} \<and> opened = insert ls base \<union> set (in_use fds)"

lemma clients_ok_walk:
  assumes "clients_ok base ls fds opened" and "walk fds fds'"
  shows "clients_ok base ls fds' (opened - set (dropped fds fds'))"
proof -
  have d: "distinct (in_use fds)" using assms(1) by (simp add: clients_ok_def)
  note w = walk_dropped [OF assms(2)] walk_nonneg [OF assms(2)]
  have di: "distinct (in_use fds')" unfolding w(3) [OF d] using d by (rule distinct_filter)
  have s: "set (in_use fds') = set (in_use fds) - set (dropped fds fds')" unfolding w(3) [OF d] by auto
  show ?thesis
    using assms(1) di w(1,4) unfolding clients_ok_def s by blast
qed

lemma place_client_split:
  "place_client fd fds = Some fds1 \<Longrightarrow> \<exists>as bs. fds = as @ 0 # bs \<and> fds1 = as @ fd # bs \<and> 0 \<notin> set as"
proof (induction fds arbitrary: fds1)
  case (Cons sd fds)
  show ?case
  proof (cases "sd = 0")
    case True
    with Cons.prems show ?thesis by (intro exI [of _ "[]"] exI [of _ fds]) simp
  next
    case False
    with Cons.prems obtain fds2 where p: "place_client fd fds = Some fds2" "fds1 = sd # fds2" by auto
    from Cons.IH [OF p(1)] obtain as bs where "fds = as @ 0 # bs" "fds2 = as @ fd # bs" "0 \<notin> set as" by blast
    with p(2) False show ?thesis by (intro exI [of _ "sd # as"] exI [of _ bs]) simp
  qed
qed simp

lemma place_client_None: "place_client fd fds = None \<longleftrightarrow> 0 \<notin> set fds"
  by (induction fds) auto

lemma clients_ok_place:
  assumes "clients_ok base ls fds opened" and "fd \<notin> opened" and "0 \<le> fd" and "place_client fd fds = Some fds1"
  shows "clients_ok base ls fds1 (insert fd opened)" and "length fds1 = length fds"
    and "set (in_use fds1) = insert fd (set (in_use fds))" and "fd \<notin> set (in_use fds)"
proof -
  obtain as bs where f: "fds = as @ 0 # bs" "fds1 = as @ fd # bs" using place_client_split [OF assms(4)] by blast
  have "0 < fd" using assms(1-3) by (cases "fd = 0") (auto simp: clients_ok_def)
  then show "clients_ok base ls fds1 (insert fd opened)" "set (in_use fds1) = insert fd (set (in_use fds))" "fd \<notin> set (in_use fds)"
    using assms(1,2) by (auto simp: clients_ok_def f)
  show "length fds1 = length fds" by (simp add: f)
qed

text \<open>The links that are up after a list of reports; \<^const>\<open>None\<close> when a link is reported up that
  is up, or down that is not up.\<close>

fun links_up :: "int set \<Rightarrow> (int \<times> bool) list \<Rightarrow> int set option" where
  "links_up S [] = Some S"
| "links_up S ((fd, up) # ls) = (if up = (fd \<in> S) then None else links_up (if up then insert fd S else S - {fd}) ls)"

lemma links_up_append: "links_up S (xs @ ys) = Option.bind (links_up S xs) (\<lambda>T. links_up T ys)"
  by (induction S xs rule: links_up.induct) simp_all

lemma links_up_down: "distinct ds \<Longrightarrow> set ds \<subseteq> S \<Longrightarrow> links_up S (map (\<lambda>sd. (sd, False)) ds) = Some (S - set ds)"
proof (induction ds arbitrary: S)
  case (Cons d ds)
  then have "links_up (S - {d}) (map (\<lambda>sd. (sd, False)) ds) = Some (S - {d} - set ds)" by (intro Cons.IH) auto
  moreover have "S - {d} - set ds = S - set (d # ds)" by auto
  moreover have "d \<in> S" using Cons.prems by simp
  ultimately show ?case by (simp del: Diff_insert)
qed simp

lemma links_up_walk:
  assumes "clients_ok base ls fds opened" and "walk fds fds'"
  shows "links_up (set (in_use fds)) (map (\<lambda>sd. (sd, False)) (dropped fds fds')) = Some (set (in_use fds'))"
proof -
  have d: "distinct (in_use fds)" using assms(1) by (simp add: clients_ok_def)
  note w = walk_dropped [OF assms(2)]
  have "set (in_use fds') = set (in_use fds) - set (dropped fds fds')" unfolding w(3) [OF d] by auto
  with links_up_down [OF w(2) [OF d] w(1)] show ?thesis by (simp only:)
qed

text \<open>What a step from one table to another must show.\<close>

definition table_step ::
  "('e \<Rightarrow> int set) \<Rightarrow> int set \<Rightarrow> int \<Rightarrow> int list \<Rightarrow> 'e \<Rightarrow> int list \<times> 'e \<Rightarrow> bool" where
  "table_step opens base ls fds e r \<longleftrightarrow>
     length (fst r) = length fds \<and> clients_ok base ls (fst r) (opens (snd r))"

definition links_step :: "('e \<Rightarrow> (int \<times> bool) list) \<Rightarrow> int list \<Rightarrow> 'e \<Rightarrow> int list \<times> 'e \<Rightarrow> bool" where
  "links_step links fds e r \<longleftrightarrow>
     (\<exists>new. links (snd r) = links e @ new \<and> links_up (set (in_use fds)) new = Some (set (in_use (fst r))))"

lemma peek_step:
  assumes "server_descriptors os cfg opens" and "clients_ok base ls fds (opens e)"
  shows "table_step opens base ls fds e (peek_clients os cfg fds e)"
  using clients_ok_walk [OF assms(2) peek_walk [of fds os cfg e]] walk_length [OF peek_walk [of fds os cfg e]]
  by (simp add: table_step_def peek_opens [OF assms(1)])

lemma serve_step:
  assumes "server_descriptors os cfg opens" and "clients_ok base ls fds (opens e)"
  shows "table_step opens base ls fds e (serve_clients os cfg ready fds e)"
  using clients_ok_walk [OF assms(2) serve_walk [of fds os cfg ready e]] walk_length [OF serve_walk [of fds os cfg ready e]]
  by (simp add: table_step_def serve_opens [OF assms(1)])

lemma peek_links_step:
  assumes "server_links os cfg links" and "clients_ok base ls fds opened"
  shows "links_step links fds e (peek_clients os cfg fds e)"
  using links_up_walk [OF assms(2) peek_walk [of fds os cfg e]] by (simp add: links_step_def peek_links [OF assms(1)])

lemma serve_links_step:
  assumes "server_links os cfg links" and "clients_ok base ls fds opened"
  shows "links_step links fds e (serve_clients os cfg ready fds e)"
  using links_up_walk [OF assms(2) serve_walk [of fds os cfg ready e]] by (simp add: links_step_def serve_links [OF assms(1)])

lemma ready_step:
  assumes d: "server_descriptors os cfg opens" and o: "clients_ok base ls fds (opens e)"
  shows "table_step opens base ls fds e (server_ready os cfg ls ready fds e)"
proof (cases "0 \<le> ls \<and> ls \<in> set ready")
  case True
  obtain fd e1 where a: "sv_accept os ls e = (fd, e1)" by fastforce
  note f = server_descriptorsD(3) [OF d, of e ls, unfolded a opens_fresh_def fst_conv snd_conv]
  note v = client_options_view [OF server_descriptorsD(1) [OF d], of fd e1]
  consider "fd < 0" | "0 \<le> fd" "place_client fd fds = None" | fds1 where "0 \<le> fd" "place_client fd fds = Some fds1" by fastforce
  then show ?thesis
  proof cases
    case 1
    with o f show ?thesis by (simp add: server_ready_def True a table_step_def)
  next
    case 2
    with o f v show ?thesis by (simp add: server_ready_def True a table_step_def Let_def server_descriptorsD(4) [OF d])
  next
    case (3 fds1)
    have n: "fd \<notin> opens e" using f 3 by simp
    note p = clients_ok_place [OF o n 3]
    have "clients_ok base ls fds1 (opens (link_changed cfg fd True (client_options os cfg fd e1)))"
      using p(1) f v 3(1) by (simp add: server_descriptorsD(6) [OF d])
    from serve_step [OF d this, of ready] p(2) 3 show ?thesis
      by (simp add: server_ready_def True a table_step_def Let_def)
  qed
next
  case False
  with serve_step [OF d o] show ?thesis by (auto simp: server_ready_def)
qed

lemma ready_links_step:
  assumes d: "server_descriptors os cfg opens" and l: "server_links os cfg links" and o: "clients_ok base ls fds (opens e)"
  shows "links_step links fds e (server_ready os cfg ls ready fds e)"
proof (cases "0 \<le> ls \<and> ls \<in> set ready")
  case True
  obtain fd e1 where a: "sv_accept os ls e = (fd, e1)" by fastforce
  note f = server_descriptorsD(3) [OF d, of e ls, unfolded a opens_fresh_def fst_conv snd_conv]
  note v = client_options_view [OF server_descriptorsD(1) [OF d], of fd e1] client_options_view [OF server_linksD(1) [OF l], of fd e1]
  have la: "links e1 = links e" using server_linksD(3) [OF l, of ls e] by (simp add: a)
  consider "fd < 0" | "0 \<le> fd" "place_client fd fds = None" | fds1 where "0 \<le> fd" "place_client fd fds = Some fds1" by fastforce
  then show ?thesis
  proof cases
    case 1
    with la show ?thesis by (simp add: server_ready_def True a links_step_def)
  next
    case 2
    with la v show ?thesis by (simp add: server_ready_def True a links_step_def Let_def server_linksD(4) [OF l])
  next
    case (3 fds1)
    have n: "fd \<notin> opens e" using f 3 by simp
    note p = clients_ok_place [OF o n 3]
    from serve_links_step [OF l p(1), of "link_changed cfg fd True (client_options os cfg fd e1)" ready]
    obtain new where w: "links (snd (serve_clients os cfg ready fds1 (link_changed cfg fd True (client_options os cfg fd e1)))) =
        links e @ (fd, True) # new"
      "links_up (set (in_use fds1)) new =
        Some (set (in_use (fst (serve_clients os cfg ready fds1 (link_changed cfg fd True (client_options os cfg fd e1))))))"
      by (auto simp: links_step_def server_linksD(5) [OF l] v la)
    with p(3,4) 3 show ?thesis
      by (auto simp: server_ready_def True a links_step_def Let_def intro!: exI [of _ "(fd, True) # new"])
  qed
next
  case False
  with serve_links_step [OF l o] show ?thesis by (auto simp: server_ready_def)
qed

section \<open>The server\<close>

definition server_ok :: "('e \<Rightarrow> int set) \<Rightarrow> int set \<Rightarrow> 'e mb_tcp_ctx \<Rightarrow> 'e \<Rightarrow> bool" where
  "server_ok opens base ctx e \<longleftrightarrow>
     length (client_fds ctx) = MB_TCP_MAX_CLIENTS \<and> stream_sock ctx = -1 \<and>
     drop (effective_max_clients (mb_cfg ctx)) (client_fds ctx) = replicate (MB_TCP_MAX_CLIENTS - effective_max_clients (mb_cfg ctx)) 0 \<and>
     clients_ok base (listen_sock ctx) (client_fds ctx) (opens e)"

lemma effective_max_le: "effective_max_clients cfg \<le> MB_TCP_MAX_CLIENTS"
proof -
  have "unat (mb_max_clients cfg) \<le> 10" if "\<not> mb_max_clients cfg > 10"
    using that by (simp add: not_less word_le_nat_alt)
  then show ?thesis by (simp add: effective_max_clients_def)
qed

lemma clients_ok_take:
  assumes "drop n fds = replicate k 0"
  shows "in_use (take n fds) = in_use fds" and "clients_ok base ls (take n fds) S = clients_ok base ls fds S"
proof -
  have f: "fds = take n fds @ replicate k 0" using assms by (metis append_take_drop_id)
  have u: "in_use (take n fds @ replicate k 0) = in_use (take n fds)" by simp
  then show i: "in_use (take n fds) = in_use fds" using f by metis
  have "(\<forall>sd\<in>set fds. 0 \<le> sd) = (\<forall>sd\<in>set (take n fds). 0 \<le> sd)" by (subst f) auto
  then show "clients_ok base ls (take n fds) S = clients_ok base ls fds S" unfolding clients_ok_def i by simp
qed

lemma server_turn_steps:
  assumes d: "server_descriptors os (mb_cfg ctx) opens" and o: "server_ok opens base ctx e"
    and t: "server_turn os ctx e = (ctx', e')"
  shows "server_ok opens base ctx' e' \<and> mb_cfg ctx' = mb_cfg ctx \<and> listen_sock ctx' = listen_sock ctx \<and>
    (server_links os (mb_cfg ctx) links \<longrightarrow> links_step links (client_fds ctx) e (client_fds ctx', e'))"
proof -
  define n where "n = effective_max_clients (mb_cfg ctx)"
  define fds where "fds = take n (client_fds ctx)"
  obtain r e1 where s: "sv_select os (listen_sock ctx # in_use fds) e = (r, e1)" by fastforce
  have k: "opens e1 = opens e" using neutralD(10) [OF server_descriptorsD(1) [OF d], of "listen_sock ctx # in_use fds" e] by (simp add: s)
  have kl: "server_links os (mb_cfg ctx) links \<Longrightarrow> links e1 = links e"
    using neutralD(10) [OF server_linksD(1), of os "mb_cfg ctx" links "listen_sock ctx # in_use fds" e] by (simp add: s)
  have dr: "drop n (client_fds ctx) = replicate (10 - n) 0" using o by (simp add: server_ok_def n_def)
  note tk = clients_ok_take [OF dr]
  have oe: "clients_ok base (listen_sock ctx) fds (opens e1)" using o by (simp add: server_ok_def k fds_def tk(2))
  have lf: "length fds = n" using o effective_max_le [of "mb_cfg ctx"] by (simp add: server_ok_def fds_def n_def)
  have put: "server_ok opens base (ctx\<lparr>client_fds := fst q @ drop n (client_fds ctx)\<rparr>) (snd q) \<and>
      (server_links os (mb_cfg ctx) links \<longrightarrow>
        links_step links (client_fds ctx) e (fst q @ drop n (client_fds ctx), snd q))"
    if q: "table_step opens base (listen_sock ctx) fds e1 q" "server_links os (mb_cfg ctx) links \<Longrightarrow> links_step links fds e1 q" for q
  proof -
    have l: "length (fst q) = n" using q(1) lf by (simp add: table_step_def)
    have d1: "drop n (fst q @ drop n (client_fds ctx)) = replicate (10 - n) 0" by (simp add: l dr)
    note t1 = clients_ok_take [OF d1]
    have t2: "take n (fst q @ drop n (client_fds ctx)) = fst q" by (simp add: l)
    have i1: "in_use (fst q @ drop n (client_fds ctx)) = in_use (fst q)" using t1(1) unfolding t2 by (rule sym)
    have i2: "in_use (client_fds ctx) = in_use fds" unfolding fds_def by (simp only: tk(1))
    have "length (fst q @ drop n (client_fds ctx)) = 10" using effective_max_le [of "mb_cfg ctx"] o by (simp add: server_ok_def l n_def)
    moreover have "clients_ok base (listen_sock ctx) (fst q @ drop n (client_fds ctx)) (opens (snd q))"
      using t1(2) q(1) unfolding t2 table_step_def by simp
    ultimately have "server_ok opens base (ctx\<lparr>client_fds := fst q @ drop n (client_fds ctx)\<rparr>) (snd q)"
      using o d1 unfolding server_ok_def by (simp add: n_def)
    moreover have "links_step links (client_fds ctx) e (fst q @ drop n (client_fds ctx), snd q)"
      if "server_links os (mb_cfg ctx) links"
      using q(2) [OF that] kl [OF that] unfolding links_step_def fst_conv snd_conv i1 i2 by simp
    ultimately show ?thesis by blast
  qed
  note st = ready_step [OF d oe] peek_step [OF d oe] ready_links_step [OF d _ oe] peek_links_step [OF _ oe]
  note go = put [OF st(1) st(3)] put [OF st(2) st(4)]
  have same: "server_ok opens base ctx e1 \<and> (server_links os (mb_cfg ctx) links \<longrightarrow> links_step links (client_fds ctx) e (client_fds ctx, e1))"
    using o kl by (auto simp: server_ok_def k links_step_def)
  show ?thesis
    using t same go
    by (auto simp: server_turn_def Let_def n_def [symmetric] fds_def [symmetric] s case_prod_unfold
      split: select_result.splits if_splits)
qed

lemma links_step_trans:
  assumes "links_step links fds e (fds1, e1)" and "links_step links fds1 e1 r"
  shows "links_step links fds e r"
proof -
  obtain new1 new2 where "links e1 = links e @ new1" "links_up (set (in_use fds)) new1 = Some (set (in_use fds1))"
    "links (snd r) = links e1 @ new2" "links_up (set (in_use fds1)) new2 = Some (set (in_use (fst r)))"
    using assms by (auto simp: links_step_def)
  then show ?thesis unfolding links_step_def by (intro exI [of _ "new1 @ new2"]) (simp add: links_up_append)
qed

lemma server_thread_steps:
  "server_descriptors os (mb_cfg ctx) opens \<Longrightarrow> server_ok opens base ctx e \<Longrightarrow>
    mb_tcp_server_thread os n ctx e = (ctx', e') \<Longrightarrow>
    server_ok opens base ctx' e' \<and> mb_cfg ctx' = mb_cfg ctx \<and> listen_sock ctx' = listen_sock ctx \<and>
    (server_links os (mb_cfg ctx) links \<longrightarrow> links_step links (client_fds ctx) e (client_fds ctx', e'))"
proof (induction n arbitrary: ctx e)
  case 0
  then show ?case by (auto simp: links_step_def)
next
  case (Suc n)
  show ?case
  proof (cases "sv_running os e")
    case False
    with Suc.prems show ?thesis by (auto simp: links_step_def)
  next
    case True
    obtain ctx1 e1 where t: "server_turn os ctx e = (ctx1, e1)" by fastforce
    note s = server_turn_steps [OF Suc.prems(1,2) t, of links]
    have "mb_tcp_server_thread os n ctx1 e1 = (ctx', e')" using Suc.prems(3) True by (simp add: t)
    with Suc.IH [of ctx1 e1] Suc.prems(1) s
    have r: "server_ok opens base ctx' e' \<and> mb_cfg ctx' = mb_cfg ctx \<and> listen_sock ctx' = listen_sock ctx \<and>
      (server_links os (mb_cfg ctx) links \<longrightarrow> links_step links (client_fds ctx1) e1 (client_fds ctx', e'))" by simp
    with s links_step_trans show ?thesis by metis
  qed
qed

section \<open>Starting and stopping the server\<close>

lemma neutral_start:
  "neutral os (cfg\<lparr>mb_connect_timeout_sec := a, mb_connect_retry_sec := b\<rparr>) g = neutral os cfg g"
  by (simp add: neutral_def)

lemma server_descriptors_start:
  "server_descriptors os (cfg\<lparr>mb_connect_timeout_sec := a, mb_connect_retry_sec := b\<rparr>) opens = server_descriptors os cfg opens"
  by (simp add: server_descriptors_def neutral_start)

lemma server_links_start:
  "server_links os (cfg\<lparr>mb_connect_timeout_sec := a, mb_connect_retry_sec := b\<rparr>) links = server_links os cfg links"
  by (simp add: server_links_def neutral_start mb_tcp_link_call_def)

lemma effective_max_start:
  "effective_max_clients (cfg\<lparr>mb_connect_timeout_sec := a, mb_connect_retry_sec := b\<rparr>) = effective_max_clients cfg"
  by (simp add: effective_max_clients_def)

lemma listen_init_opens:
  assumes d: "server_descriptors os cfg opens" and i: "mb_tcp_listen_init os ctx e = (rc, ctx', e')"
  shows "(rc = 0 \<or> rc = -1) \<and>
    (if rc = 0 then 0 \<le> listen_sock ctx' \<and> listen_sock ctx' \<notin> opens e \<and> opens e' = insert (listen_sock ctx') (opens e) \<and>
         ctx' = ctx\<lparr>listen_sock := listen_sock ctx'\<rparr>
     else opens e' = opens e)"
proof -
  obtain fd e1 where s: "sk_socket (sv_sk os) e = (fd, e1)" by fastforce
  note f = server_descriptorsD(2) [OF d, of e, unfolded s opens_fresh_def fst_conv snd_conv]
  note n = neutralD [OF server_descriptorsD(1) [OF d]]
  note c = server_descriptorsD(4) [OF d]
  show ?thesis
    using i f n(1) [of fd SO_REUSEADDR e1]
    by (auto simp: mb_tcp_listen_init_def Let_def s case_prod_unfold c n split: bool.splits if_splits)
qed

lemma close_fds_opens:
  assumes d: "server_descriptors os cfg opens"
  shows "opens (fold (sk_close (sv_sk os)) fds e) = opens e - set fds"
  by (induction fds arbitrary: e) (auto simp: server_descriptorsD(4) [OF d])

lemma fold_view: "(\<And>x e. g (f x e) = g e) \<Longrightarrow> g (fold f xs e) = g e"
  by (induction xs arbitrary: e) simp_all

lemma server_stopped:
  assumes d: "server_descriptors os cfg opens" and o: "server_ok opens base ctx e"
    and c: "close_open os ctx e = (ctx', e')"
  shows "opens e' = base \<and> listen_sock ctx' = -1 \<and> stream_sock ctx' = -1 \<and> client_fds ctx' = replicate MB_TCP_MAX_CLIENTS 0"
proof -
  have z: "map (\<lambda>sd. if 0 < sd then 0 else sd) (client_fds ctx) = replicate 10 0"
  proof (rule nth_equalityI)
    fix i assume "i < length (map (\<lambda>sd. if 0 < sd then 0 else sd) (client_fds ctx))"
    then have i: "i < length (client_fds ctx)" by simp
    have "0 \<le> client_fds ctx ! i" using o nth_mem [OF i] by (auto simp: server_ok_def clients_ok_def)
    with i o show "map (\<lambda>sd. if 0 < sd then 0 else sd) (client_fds ctx) ! i = replicate 10 0 ! i"
      by (simp add: server_ok_def)
  qed (use o in \<open>simp add: server_ok_def\<close>)
  have "opens e' = base" using c o
    by (auto simp: close_open_def close_fds_opens [OF d] server_descriptorsD(4) [OF d] server_ok_def clients_ok_def)
  with c o z show ?thesis by (auto simp: close_open_def server_ok_def clients_ok_def)
qed

lemma server_started:
  assumes d: "server_descriptors os cfg opens" and m: "mb_mode cfg = MB_TCP_MODE_LISTEN_SERVER" and z: "0 \<in> opens e"
    and s: "mb_tcp_start os cfg old e = (rc, ctx, e1)"
  shows "if rc = 0
    then server_ok opens (opens e) ctx e1 \<and> client_fds ctx = replicate MB_TCP_MAX_CLIENTS 0 \<and>
      (\<exists>a b. mb_cfg ctx = cfg\<lparr>mb_connect_timeout_sec := a, mb_connect_retry_sec := b\<rparr>)
    else opens e1 = opens e"
proof -
  define cfg1 where "cfg1 = cfg\<lparr>mb_connect_timeout_sec :=
      (if mb_connect_timeout_sec cfg = 0 then 5 else mb_connect_timeout_sec cfg),
    mb_connect_retry_sec := (if mb_connect_retry_sec cfg = 0 then 3 else mb_connect_retry_sec cfg)\<rparr>"
  define ctx0 where "ctx0 = \<lparr>mb_tid = 0, mb_cfg = cfg1, listen_sock = -1, stream_sock = -1,
      client_fds = replicate MB_TCP_MAX_CLIENTS 0\<rparr>"
  define e2 where "e2 = (case on_init cfg1 of None \<Rightarrow> e | Some f \<Rightarrow> f e)"
  note n = server_descriptorsD(1) [OF d]
  have d1: "server_descriptors os cfg1 opens" unfolding cfg1_def by (simp only: server_descriptors_start d)
  have k: "opens e2 = opens e" using neutral_calls(1) [OF server_descriptorsD(1) [OF d1], of _ e] by (simp add: e2_def split: option.split)
  obtain rc1 ctx1 e3 where i: "mb_tcp_listen_init os ctx0 e2 = (rc1, ctx1, e3)" by (metis surj_pair)
  note l = listen_init_opens [OF d1 i]
  have mc: "mb_mode cfg1 = MB_TCP_MODE_LISTEN_SERVER" by (simp add: cfg1_def m)
  obtain ok e4 where t: "sv_thread os e3 = (ok, e4)" by fastforce
  have kt: "opens e4 = opens e3" using neutralD(9) [OF n, of e3] by (simp add: t)
  have s1: "(rc, ctx, e1) =
      (if \<not> sk_mutex_ok (sv_sk os) e then (-1, ctx0, e)
       else if rc1 < 0 then (-1, ctx1, e3)
       else if ok then (0, ctx1, e4) else (-1, ctx1\<lparr>listen_sock := -1\<rparr>, sk_close (sv_sk os) (listen_sock ctx1) e4))"
    using s m unfolding mb_tcp_start_def Let_def cfg1_def [symmetric] ctx0_def [symmetric] e2_def [symmetric] i
    by (auto simp: mc t split: if_splits)
  consider "\<not> sk_mutex_ok (sv_sk os) e" | "sk_mutex_ok (sv_sk os) e" "rc1 = -1"
    | "sk_mutex_ok (sv_sk os) e" "rc1 = 0" ok | "sk_mutex_ok (sv_sk os) e" "rc1 = 0" "\<not> ok" using l by blast
  then show ?thesis
  proof cases
    case 3
    with s1 have r: "rc = 0" "ctx = ctx1" "e1 = e4" by simp_all
    have "ctx1 = ctx0\<lparr>listen_sock := listen_sock ctx1\<rparr>" using l 3 by simp
    then have f: "client_fds ctx1 = replicate 10 0" "stream_sock ctx1 = -1" "mb_cfg ctx1 = cfg1"
      by (metis ctx0_def mb_tcp_ctx.select_convs mb_tcp_ctx.update_convs)+
    have "server_ok opens (opens e) ctx1 e4"
      using l 3 z by (auto simp: server_ok_def f clients_ok_def k kt)
    moreover have "\<exists>a b. cfg1 = cfg\<lparr>mb_connect_timeout_sec := a, mb_connect_retry_sec := b\<rparr>" unfolding cfg1_def by blast
    ultimately show ?thesis using r f by simp
  qed (use s1 l k kt in \<open>auto simp: server_descriptorsD(4) [OF d]\<close>)
qed

lemma shutdown_view: "neutral os cfg g \<Longrightarrow> g (shutdown_open os ctx e) = g e"
  unfolding shutdown_open_def by (rule fold_view) (simp add: neutralD(2))

lemma close_open_links: "server_links os cfg links \<Longrightarrow> links (snd (close_open os ctx e)) = links e"
  unfolding close_open_def snd_conv by (rule fold_view) (rule server_linksD(4))

lemma in_use_replicate [simp]: "in_use (replicate n 0) = []"
  by (induction n) simp_all

lemma in_use_limit:
  assumes "server_ok opens base ctx e"
  shows "length (in_use (client_fds ctx)) \<le> effective_max_clients (mb_cfg ctx)"
proof -
  note t = clients_ok_take(1) [of "effective_max_clients (mb_cfg ctx)" "client_fds ctx"]
  have "in_use (take (effective_max_clients (mb_cfg ctx)) (client_fds ctx)) = in_use (client_fds ctx)"
    by (rule t) (use assms in \<open>simp add: server_ok_def\<close>)
  moreover have "length (in_use (take (effective_max_clients (mb_cfg ctx)) (client_fds ctx))) \<le> effective_max_clients (mb_cfg ctx)"
    by (rule order_trans [OF length_filter_le]) simp
  ultimately show ?thesis by simp
qed

text \<open>
  C25. A server that fails to start leaves no descriptor open. One that starts has at every
  moment exactly its listening socket and the clients in its table open, distinct and at most as
  many as configured; stopping it then closes them all and empties the table, whatever the
  thread still does before it ends.
\<close>

theorem server_lifecycle:
  assumes "server_descriptors os cfg opens" and "mb_mode cfg = MB_TCP_MODE_LISTEN_SERVER" and "0 \<in> opens e"
    and "mb_tcp_start os cfg old e = (rc, ctx, e1)"
  shows "if rc \<noteq> 0 then opens e1 = opens e
    else (case mb_tcp_server_thread os n ctx e1 of
            (ctx2, e2) \<Rightarrow>
              distinct (in_use (client_fds ctx2)) \<and>
              length (in_use (client_fds ctx2)) \<le> effective_max_clients cfg \<and>
              opens e2 = insert (listen_sock ctx2) (opens e \<union> set (in_use (client_fds ctx2))) \<and>
              opens e \<inter> insert (listen_sock ctx2) (set (in_use (client_fds ctx2))) = {} \<and>
              (case mb_tcp_stop os (mb_tcp_server_thread os m) ctx2 e2 of
                 (ctx3, e3) \<Rightarrow>
                   opens e3 = opens e \<and> listen_sock ctx3 = -1 \<and> client_fds ctx3 = replicate MB_TCP_MAX_CLIENTS 0))"
proof (cases "rc = 0")
  case True
  from server_started [OF assms] True obtain a b
    where o: "server_ok opens (opens e) ctx e1" and c: "mb_cfg ctx = cfg\<lparr>mb_connect_timeout_sec := a, mb_connect_retry_sec := b\<rparr>"
    by auto
  have d: "server_descriptors os (mb_cfg ctx) opens" unfolding c server_descriptors_start by (rule assms(1))
  obtain ctx2 e2 where t: "mb_tcp_server_thread os n ctx e1 = (ctx2, e2)" by fastforce
  note s = server_thread_steps [OF d o t, of "\<lambda>_. []"]
  have o2: "server_ok opens (opens e) ctx2 (shutdown_open os ctx2 e2)"
    using conjunct1 [OF s] shutdown_view [OF server_descriptorsD(1) [OF d], of ctx2 e2] by (simp add: server_ok_def)
  obtain ctx3 e3 where r: "mb_tcp_server_thread os m ctx2 (shutdown_open os ctx2 e2) = (ctx3, e3)" by fastforce
  have d2: "server_descriptors os (mb_cfg ctx2) opens" using s d by simp
  note s2 = server_thread_steps [OF d2 o2 r, of "\<lambda>_. []"]
  obtain ctx4 e4 where st: "close_open os ctx3 e3 = (ctx4, e4)" by fastforce
  have "server_descriptors os (mb_cfg ctx3) opens" using s2 d2 by simp
  from server_stopped [OF this conjunct1 [OF s2] st] in_use_limit [OF conjunct1 [OF s]] s True show ?thesis
    by (auto simp: t mb_tcp_stop_def r st server_ok_def clients_ok_def c effective_max_start)
qed (use server_started [OF assms] in simp)

text \<open>
  C26. What a listening server tells the application about links is what its table says, while
  it runs and while it is being stopped: every report that a link is up names a client that was
  not connected, every report that one is down a client that was, and the clients reported up
  and not down are those in the table. When \<^verbatim>\<open>mb_tcp_stop\<close> has shut the sockets down, the thread
  may still take any number of turns before it is joined, and the links it finds lost then are
  reported down as before.
\<close>

theorem server_reports_links:
  assumes "server_descriptors os cfg opens" and "server_links os cfg links" and "mb_mode cfg = MB_TCP_MODE_LISTEN_SERVER"
    and "0 \<in> opens e" and "mb_tcp_start os cfg old e = (0, ctx, e1)" and "mb_tcp_server_thread os n ctx e1 = (ctx2, e2)"
    and "mb_tcp_server_thread os m ctx2 (shutdown_open os ctx2 e2) = (ctx3, e3)"
  shows "\<exists>new more. links e2 = links e1 @ new \<and> links_up {} new = Some (set (in_use (client_fds ctx2))) \<and>
    links e3 = links e1 @ new @ more \<and> links_up {} (new @ more) = Some (set (in_use (client_fds ctx3))) \<and>
    links_up (set (in_use (client_fds ctx2))) more = Some (set (in_use (client_fds ctx3)))"
proof -
  from server_started [OF assms(1,3,4,5)] obtain a b
    where o: "server_ok opens (opens e) ctx e1" and z: "client_fds ctx = replicate MB_TCP_MAX_CLIENTS 0"
      and c: "mb_cfg ctx = cfg\<lparr>mb_connect_timeout_sec := a, mb_connect_retry_sec := b\<rparr>"
    by auto
  have d: "server_descriptors os (mb_cfg ctx) opens" unfolding c server_descriptors_start by (rule assms(1))
  have l: "server_links os (mb_cfg ctx) links" unfolding c server_links_start by (rule assms(2))
  note s = server_thread_steps [OF d o assms(6), of links]
  have o2: "server_ok opens (opens e) ctx2 (shutdown_open os ctx2 e2)"
    using conjunct1 [OF s] shutdown_view [OF server_descriptorsD(1) [OF d], of ctx2 e2] by (simp add: server_ok_def)
  have d2: "server_descriptors os (mb_cfg ctx2) opens" and l2: "server_links os (mb_cfg ctx2) links" using s d l by simp_all
  from s l obtain new where n: "links e2 = links e1 @ new" "links_up {} new = Some (set (in_use (client_fds ctx2)))"
    by (auto simp: links_step_def z)
  from server_thread_steps [OF d2 o2 assms(7), of links] l2 obtain more
    where m: "links e3 = links e2 @ more" "links_up (set (in_use (client_fds ctx2))) more = Some (set (in_use (client_fds ctx3)))"
    using shutdown_view [OF server_linksD(1) [OF l], of ctx2 e2] by (auto simp: links_step_def)
  with n show ?thesis by (intro exI [of _ new] exI [of _ more]) (simp add: links_up_append)
qed

text \<open>
  The clients that are still in the table when the thread ends are closed without a report, so
  that the application is never told that these links are down: the header promises a report
  when a link is lost.
\<close>

theorem stop_leaves_links_up:
  assumes "server_links os (mb_cfg ctx) links" and "rest ctx (shutdown_open os ctx e) = (ctx1, e1)"
    and "mb_cfg ctx1 = mb_cfg ctx"
  shows "links (snd (mb_tcp_stop os rest ctx e)) = links e1"
  using assms by (simp add: mb_tcp_stop_def close_open_links)

section \<open>The client\<close>

text \<open>One call of a chain that leaves when a call fails.\<close>

lemma flag_step:
  assumes "g (snd x) = S" and "\<And>e. g e = S \<Longrightarrow> P (no e)" and "\<And>e. g e = S \<Longrightarrow> P (yes e)"
  shows "P (case x of (False, e) \<Rightarrow> no e | (True, e) \<Rightarrow> yes e)"
  using assms by (cases x) (auto split: bool.split)

lemma connect_step:
  assumes "g (snd x) = S" and "\<And>e. g e = S \<Longrightarrow> P (ok e)" and "\<And>e. g e = S \<Longrightarrow> P (bad e)" and "\<And>e. g e = S \<Longrightarrow> P (wait e)"
  shows "P (case x of (Connect_ok, e) \<Rightarrow> ok e | (Connect_failed, e) \<Rightarrow> bad e | (Connect_in_progress, e) \<Rightarrow> wait e)"
  using assms by (cases x) (auto split: connect_result.split)

lemma error_step:
  assumes "g (snd x) = S" and "\<And>err e. g e = S \<Longrightarrow> P (f err e)"
  shows "P (case x of (err, e) \<Rightarrow> f err e)"
  using assms by (cases x) auto

lemma connect_ends:
  assumes n: "neutral os cfg g" and s: "sk_socket (sv_sk os) e = (fd, e1)" and v: "host = Some h" "h \<noteq> []" "port \<noteq> 0" "0 \<le> fd"
    and P0: "\<And>e. g e = g e1 \<Longrightarrow> P (0, fd, e)" and P1: "\<And>e. g e = g e1 \<Longrightarrow> P (-1, -1, sk_close (sv_sk os) fd e)"
  shows "P (mb_tcp_connect (sv_sk os) old iface host port timeout e)"
proof -
  note k = neutralD [OF n]
  have i: "g (snd (case iface of None \<Rightarrow> (True, e3) | Some i \<Rightarrow> if i = [] then (True, e3) else sk_setsockopt (sv_sk os) fd (SO_BINDTODEVICE i) e3)) = g e3"
    for e3 by (simp add: k split: option.split)
  show ?thesis
    unfolding mb_tcp_connect_def Let_def s prod.case
    using v by (cases "sk_inet_pton (sv_sk os) h")
      (simp_all only: option.case not_less [symmetric] if_False if_True simp_thms,
        (intro flag_step [of g _ "g e1" P] connect_step [of g _ "g e1" P] error_step [of g _ "g e1" P] P0 P1;
          simp add: k i P0 P1)+)
qed

lemma connect_opens:
  assumes d: "server_descriptors os cfg opens" and c: "mb_tcp_connect (sv_sk os) old iface host port timeout e = (rc, fd, e')"
  shows "if rc = 0 then 0 \<le> fd \<and> fd \<notin> opens e \<and> opens e' = insert fd (opens e)
    else opens e' = opens e \<and> (old < 0 \<longrightarrow> fd < 0)"
proof -
  obtain fd1 e1 where s: "sk_socket (sv_sk os) e = (fd1, e1)" by fastforce
  note f = server_descriptorsD(2) [OF d, of e, unfolded s opens_fresh_def fst_conv snd_conv]
  note cl = server_descriptorsD(4) [OF d]
  show ?thesis
  proof (cases "host = None \<or> host = Some [] \<or> port = 0 \<or> fd1 < 0")
    case True
    with c f show ?thesis by (auto simp: mb_tcp_connect_def Let_def s split: option.splits if_splits)
  next
    case False
    then obtain h where h: "host = Some h" "h \<noteq> []" by auto
    let ?P = "\<lambda>r. if fst r = 0 then fst (snd r) = fd1 \<and> opens (snd (snd r)) = insert fd1 (opens e)
        else fst (snd r) = -1 \<and> opens (snd (snd r)) = opens e"
    have fr: "fd1 \<notin> opens e" "opens e1 = insert fd1 (opens e)" using f False by simp_all
    have "?P (mb_tcp_connect (sv_sk os) old iface host port timeout e)"
      by (rule connect_ends [where P = ?P, OF server_descriptorsD(1) [OF d] s h]) (use False fr in \<open>simp_all add: cl\<close>)
    with c f False show ?thesis by auto
  qed
qed

lemma connect_links:
  assumes "server_links os cfg links" and "mb_tcp_connect (sv_sk os) old iface host port timeout e = (rc, fd, e')"
  shows "links e' = links e"
proof -
  obtain fd1 e1 where s: "sk_socket (sv_sk os) e = (fd1, e1)" by fastforce
  have k: "links e1 = links e" using server_linksD(2) [OF assms(1), of e] by (simp add: s)
  show ?thesis
  proof (cases "host = None \<or> host = Some [] \<or> port = 0 \<or> fd1 < 0")
    case True
    with assms(2) k show ?thesis by (auto simp: mb_tcp_connect_def Let_def s split: option.splits if_splits)
  next
    case False
    then obtain h where h: "host = Some h" "h \<noteq> []" by auto
    let ?P = "\<lambda>r. links (snd (snd r)) = links e"
    have "?P (mb_tcp_connect (sv_sk os) old iface host port timeout e)"
      by (rule connect_ends [where P = ?P, OF server_linksD(1) [OF assms(1)] s h])
        (use False k in \<open>simp_all add: server_linksD(4) [OF assms(1)]\<close>)
    with assms(2) show ?thesis by simp
  qed
qed

text \<open>The connection of the client thread.\<close>

definition client_ok :: "('e \<Rightarrow> int set) \<Rightarrow> int set \<Rightarrow> 'e mb_tcp_ctx \<times> client_locals \<times> 'e \<Rightarrow> bool" where
  "client_ok opens base r =
     (case r of (ctx, l, e) \<Rightarrow>
        listen_sock ctx = -1 \<and> client_fds ctx = replicate MB_TCP_MAX_CLIENTS 0 \<and>
        (if cl_connected l
         then 0 \<le> cl_sock l \<and> cl_sock l \<notin> base \<and> stream_sock ctx = cl_sock l \<and> opens e = insert (cl_sock l) base
         else cl_sock l < 0 \<and> stream_sock ctx = -1 \<and> opens e = base))"

definition client_link :: "client_locals \<Rightarrow> int set" where
  "client_link l = (if cl_connected l then {cl_sock l} else {})"

lemma client_process_step:
  assumes d: "server_descriptors os (mb_cfg ctx) opens" and o: "client_ok opens base (ctx, l, e)" and c: "cl_connected l"
    and p: "client_process os ctx l e = (ctx', l', e')"
  shows "client_ok opens base (ctx', l', e') \<and> mb_cfg ctx' = mb_cfg ctx \<and>
    (server_links os (mb_cfg ctx) links \<longrightarrow>
      (\<exists>new. links e' = links e @ new \<and> links_up (client_link l) new = Some (client_link l')))"
proof -
  have sl: "server_links os (mb_cfg ctx) links \<Longrightarrow> links (sv_sleep os e) = links e" for e
    by (rule neutralD(12) [OF server_linksD(1)])
  show ?thesis
proof (cases "on_process (mb_cfg ctx)")
  case None
  have e: "ctx' = ctx" "l' = l" "e' = sv_sleep os e" using p None by (simp_all add: client_process_def)
  have "client_ok opens base (ctx', l', e')"
    using o by (simp add: e client_ok_def neutralD(12) [OF server_descriptorsD(1) [OF d]])
  then show ?thesis using sl by (auto simp: e intro!: exI [of _ "[]"])
next
  case (Some f)
  obtain rc e1 where r: "f (cl_sock l) e = (rc, e1)" by fastforce
  have k: "opens e1 = opens e" using neutral_calls(2) [OF server_descriptorsD(1) [OF d] Some, of "cl_sock l" e] by (simp add: r)
  have kl: "server_links os (mb_cfg ctx) links \<Longrightarrow> links e1 = links e"
    using neutral_calls(2) [OF server_linksD(1) Some, of os links "cl_sock l" e] by (simp add: r)
  note n = neutralD(12) [OF server_descriptorsD(1) [OF d]] neutral_calls(3) [OF server_descriptorsD(1) [OF d]] server_descriptorsD(4,5) [OF d]
  show ?thesis
  proof (cases "rc < 0")
    case False
    have e: "ctx' = ctx" "l' = l" "e' = sv_sleep os e1" using p False by (simp_all add: client_process_def Some r)
    have "client_ok opens base (ctx', l', e')" using o by (simp add: e client_ok_def n k)
    then show ?thesis using sl kl by (auto simp: e intro!: exI [of _ "[]"])
  next
    case True
    have e: "ctx' = ctx\<lparr>stream_sock := -1\<rparr>" "l' = \<lparr>cl_sock = -1, cl_connected = False\<rparr>"
      "e' = error_call (mb_cfg ctx) False (sk_close (sv_sk os) (cl_sock l) (mb_tcp_link_call (mb_cfg ctx) (cl_sock l) False e1))"
      using p True by (simp_all add: client_process_def Some r)
    have "links e' = links e @ [(cl_sock l, False)]" if l: "server_links os (mb_cfg ctx) links"
      using kl [OF l] l by (simp add: e(3) neutral_calls(3) [OF server_linksD(1) [OF l]] server_linksD(4) [OF l] server_links_def)
    moreover have "client_ok opens base (ctx', l', e')" using o c by (auto simp: e client_ok_def n k)
    ultimately show ?thesis using c by (auto simp: e(1,2) client_link_def)
  qed
qed
qed

lemma client_turn_step:
  assumes d: "server_descriptors os (mb_cfg ctx) opens" and o: "client_ok opens base (ctx, l, e)"
    and p: "client_turn os ctx l e = (ctx', l', e')"
  shows "client_ok opens base (ctx', l', e') \<and> mb_cfg ctx' = mb_cfg ctx \<and>
    (server_links os (mb_cfg ctx) links \<longrightarrow>
      (\<exists>new. links e' = links e @ new \<and> links_up (client_link l) new = Some (client_link l')))"
proof (cases "cl_connected l")
  case True
  with p show ?thesis by (intro client_process_step [OF d o True]) (simp add: client_turn_def)
next
  case False
  let ?cfg = "mb_cfg ctx"
  obtain rc fd e1 where c: "mb_tcp_connect (sv_sk os) (cl_sock l) (mb_bind_iface ?cfg) (mb_remote_host ?cfg) (mb_port ?cfg)
      (mb_connect_timeout_sec ?cfg) e = (rc, fd, e1)" by (metis surj_pair)
  note co = connect_opens [OF d c]
  show ?thesis
  proof (cases "rc = 0")
    case True
    define l1 where "l1 = \<lparr>cl_sock = fd, cl_connected = True\<rparr>"
    have o1: "client_ok opens base (ctx\<lparr>stream_sock := fd\<rparr>, l1, link_changed ?cfg fd True e1)"
      using o co True False by (simp add: client_ok_def l1_def server_descriptorsD(6) [OF d])
    have p1: "client_process os (ctx\<lparr>stream_sock := fd\<rparr>) l1 (link_changed ?cfg fd True e1) = (ctx', l', e')"
      using p False True by (simp add: client_turn_def Let_def c l1_def)
    have d1: "server_descriptors os (mb_cfg (ctx\<lparr>stream_sock := fd\<rparr>)) opens" using d by simp
    have c1: "cl_connected l1" by (simp add: l1_def)
    note s = client_process_step [OF d1 o1 c1 p1, of links]
    have "\<exists>new. links e' = links e @ new \<and> links_up (client_link l) new = Some (client_link l')"
      if l: "server_links os ?cfg links"
    proof -
      from s l obtain new where "links e' = links (link_changed ?cfg fd True e1) @ new"
        "links_up (client_link l1) new = Some (client_link l')" by auto
      then show ?thesis
        using False connect_links [OF l c]
        by (intro exI [of _ "(fd, True) # new"]) (simp add: server_linksD(5) [OF l] client_link_def l1_def)
    qed
    with s show ?thesis by simp
  next
    case nc: False
    have e: "ctx' = ctx" "l' = l\<lparr>cl_sock := fd\<rparr>"
      "e' = retry_wait os (unat (mb_connect_retry_sec ?cfg)) (error_call ?cfg False e1)"
      using p False nc by (auto simp: client_turn_def Let_def c)
    have "opens e' = opens e"
      using co nc by (simp add: e(3) retry_wait_view [OF server_descriptorsD(1) [OF d]] neutral_calls(3) [OF server_descriptorsD(1) [OF d]])
    moreover have "links e' = links e" if l: "server_links os ?cfg links"
      using connect_links [OF l c]
      by (simp add: e(3) retry_wait_view [OF server_linksD(1) [OF l]] neutral_calls(3) [OF server_linksD(1) [OF l]])
    ultimately show ?thesis
      using o co nc False by (auto simp: e(1,2) client_ok_def client_link_def intro!: exI [of _ "[]"])
  qed
qed

lemma client_turns_step:
  "server_descriptors os (mb_cfg ctx) opens \<Longrightarrow> client_ok opens base (ctx, l, e) \<Longrightarrow>
    client_turns os n ctx l e = (ctx', l', e') \<Longrightarrow>
    client_ok opens base (ctx', l', e') \<and> mb_cfg ctx' = mb_cfg ctx \<and>
    (server_links os (mb_cfg ctx) links \<longrightarrow>
      (\<exists>new. links e' = links e @ new \<and> links_up (client_link l) new = Some (client_link l')))"
proof (induction n arbitrary: ctx l e)
  case 0
  then show ?case by (auto intro!: exI [of _ "[]"])
next
  case (Suc n)
  show ?case
  proof (cases "sv_running os e")
    case False
    with Suc.prems show ?thesis by (auto intro!: exI [of _ "[]"])
  next
    case True
    obtain ctx1 l1 e1 where t: "client_turn os ctx l e = (ctx1, l1, e1)" by (metis surj_pair)
    note s = client_turn_step [OF Suc.prems(1,2) t, of links]
    have "client_turns os n ctx1 l1 e1 = (ctx', l', e')" using Suc.prems(3) True by (simp add: t)
    with Suc.IH [of ctx1 l1 e1] Suc.prems(1) s
    have r: "client_ok opens base (ctx', l', e') \<and> mb_cfg ctx' = mb_cfg ctx \<and>
      (server_links os (mb_cfg ctx) links \<longrightarrow>
        (\<exists>new. links e' = links e1 @ new \<and> links_up (client_link l1) new = Some (client_link l')))" by simp
    have "\<exists>new. links e' = links e @ new \<and> links_up (client_link l) new = Some (client_link l')"
      if l: "server_links os (mb_cfg ctx) links"
    proof -
      from s r l obtain n1 n2 where "links e1 = links e @ n1" "links_up (client_link l) n1 = Some (client_link l1)"
        "links e' = links e1 @ n2" "links_up (client_link l1) n2 = Some (client_link l')" by blast
      then show ?thesis by (intro exI [of _ "n1 @ n2"]) (simp add: links_up_append)
    qed
    with r show ?thesis by simp
  qed
qed

section \<open>Starting and stopping the client\<close>

lemma client_started:
  assumes d: "server_descriptors os cfg opens" and m: "mb_mode cfg = MB_TCP_MODE_CONNECT_CLIENT"
    and s: "mb_tcp_start os cfg old e = (rc, ctx, e1)"
  shows "opens e1 = opens e \<and>
    (rc = 0 \<longrightarrow> client_ok opens (opens e) (ctx, client_start, e1) \<and>
      (\<exists>a b. mb_cfg ctx = cfg\<lparr>mb_connect_timeout_sec := a, mb_connect_retry_sec := b\<rparr>))"
proof -
  define a where "a = (if mb_connect_timeout_sec cfg = 0 then 5 else mb_connect_timeout_sec cfg)"
  define b where "b = (if mb_connect_retry_sec cfg = 0 then 3 else mb_connect_retry_sec cfg)"
  define cfg1 where "cfg1 = cfg\<lparr>mb_connect_timeout_sec := a, mb_connect_retry_sec := b\<rparr>"
  define ctx0 where "ctx0 = \<lparr>mb_tid = 0, mb_cfg = cfg1, listen_sock = -1, stream_sock = -1,
      client_fds = replicate MB_TCP_MAX_CLIENTS 0\<rparr>"
  define e2 where "e2 = (case on_init cfg1 of None \<Rightarrow> e | Some f \<Rightarrow> f e)"
  have d1: "server_descriptors os cfg1 opens" unfolding cfg1_def by (simp only: server_descriptors_start d)
  have k: "opens e2 = opens e" using neutral_calls(1) [OF server_descriptorsD(1) [OF d1], of _ e] by (simp add: e2_def split: option.split)
  have mc: "mb_mode cfg1 = MB_TCP_MODE_CONNECT_CLIENT" by (simp add: cfg1_def m)
  obtain ok e3 where t: "sv_thread os e2 = (ok, e3)" by fastforce
  have kt: "opens e3 = opens e2" using neutralD(9) [OF server_descriptorsD(1) [OF d], of e2] by (simp add: t)
  consider "rc \<noteq> 0" "e1 = e \<or> e1 = e3" | "rc = 0" "ctx = ctx0" "e1 = e3"
    using s unfolding mb_tcp_start_def Let_def a_def [symmetric] b_def [symmetric] cfg1_def [symmetric] ctx0_def [symmetric] e2_def [symmetric]
    by (auto simp: mc t split: if_splits bool.splits)
  then show ?thesis
  proof cases
    case 2
    have "\<exists>a b. mb_cfg ctx = cfg\<lparr>mb_connect_timeout_sec := a, mb_connect_retry_sec := b\<rparr>"
      unfolding 2(2) ctx0_def mb_tcp_ctx.select_convs cfg1_def by blast
    with 2 k kt show ?thesis by (simp add: client_ok_def ctx0_def client_start_def)
  qed (use k kt in auto)
qed

lemma client_stopped:
  assumes d: "server_descriptors os cfg opens" and o: "client_ok opens base (ctx, l, e)" and c: "close_open os ctx e = (ctx', e')"
  shows "opens e' = base \<and> stream_sock ctx' = -1"
proof -
  have f: "client_fds ctx = replicate MB_TCP_MAX_CLIENTS 0" "listen_sock ctx = -1" using o by (simp_all add: client_ok_def)
  show ?thesis
  proof (cases "cl_connected l")
    case True
    with o have "0 \<le> stream_sock ctx" "stream_sock ctx \<notin> base" "opens e = insert (stream_sock ctx) base"
      by (simp_all add: client_ok_def)
    with c f show ?thesis by (auto simp: close_open_def server_descriptorsD(4) [OF d] simp del: replicate.simps)
  next
    case False
    with o have "stream_sock ctx = -1" "opens e = base" by (simp_all add: client_ok_def)
    with c f show ?thesis by (auto simp: close_open_def simp del: replicate.simps)
  qed
qed

text \<open>
  C35. The client thread has at most one connection at every moment, and then exactly its
  descriptor is open besides those from before; what it reports about links alternates and says
  whether it is connected. When it is stopped, whatever it still does before it ends, it closes
  the connection and has reported it down.
\<close>

theorem client_lifecycle:
  assumes "server_descriptors os cfg opens" and "server_links os cfg links" and "mb_mode cfg = MB_TCP_MODE_CONNECT_CLIENT"
    and "mb_tcp_start os cfg old e = (0, ctx, e1)" and "client_turns os n ctx client_start e1 = (ctx2, l, e2)"
  shows "opens e2 = opens e \<union> client_link l \<and> opens e \<inter> client_link l = {} \<and>
    (\<exists>new. links e2 = links e1 @ new \<and> links_up {} new = Some (client_link l)) \<and>
    (case mb_tcp_stop os (client_finish os m l) ctx2 e2 of
       (ctx3, e3) \<Rightarrow> opens e3 = opens e \<and> stream_sock ctx3 = -1 \<and>
         (\<exists>new. links e3 = links e1 @ new \<and> links_up {} new = Some {}))"
proof -
  from client_started [OF assms(1,3,4)] obtain a b
    where o: "client_ok opens (opens e) (ctx, client_start, e1)"
      and c: "mb_cfg ctx = cfg\<lparr>mb_connect_timeout_sec := a, mb_connect_retry_sec := b\<rparr>" by auto
  have d: "server_descriptors os (mb_cfg ctx) opens" unfolding c server_descriptors_start by (rule assms(1))
  have l: "server_links os (mb_cfg ctx) links" unfolding c server_links_start by (rule assms(2))
  have ls: "client_link client_start = {}" by (simp add: client_link_def client_start_def)
  have S: "client_ok opens (opens e) (ctx2, l, e2) \<and> mb_cfg ctx2 = mb_cfg ctx \<and>
      (\<exists>new. links e2 = links e1 @ new \<and> links_up {} new = Some (client_link l))"
    using client_turns_step [OF d o assms(5), of links] l by (simp add: ls)
  then obtain new where o2: "client_ok opens (opens e) (ctx2, l, e2)" and c2: "mb_cfg ctx2 = mb_cfg ctx"
    and n2: "links e2 = links e1 @ new" "links_up {} new = Some (client_link l)" by auto
  define e3 where "e3 = shutdown_open os ctx2 e2"
  have k: "opens e3 = opens e2" "links e3 = links e2"
    using shutdown_view [OF server_descriptorsD(1) [OF d]] shutdown_view [OF server_linksD(1) [OF l]] by (simp_all add: e3_def)
  obtain ctx4 l4 e4 where t: "client_turns os m ctx2 l e3 = (ctx4, l4, e4)" by (metis surj_pair)
  have o3: "client_ok opens (opens e) (ctx2, l, e3)" using o2 by (simp add: client_ok_def k)
  have d2: "server_descriptors os (mb_cfg ctx2) opens" and l2: "server_links os (mb_cfg ctx2) links" using d l c2 by simp_all
  from client_turns_step [OF d2 o3 t, of links] l2 obtain new2
    where o4: "client_ok opens (opens e) (ctx4, l4, e4)" and c4: "mb_cfg ctx4 = mb_cfg ctx2"
      and n4: "links e4 = links e3 @ new2" "links_up (client_link l) new2 = Some (client_link l4)" by auto
  define e5 where "e5 = (if 0 \<le> cl_sock l4 then mb_tcp_link_call (mb_cfg ctx4) (cl_sock l4) False e4 else e4)"
  have f: "client_finish os m l ctx2 e3 = (ctx4, e5)" by (simp add: client_finish_def t e5_def)
  have l4: "server_links os (mb_cfg ctx4) links" and d4: "server_descriptors os (mb_cfg ctx4) opens" using l2 d2 c4 by simp_all
  have k5: "opens e5 = opens e4" by (simp add: e5_def server_descriptorsD(5) [OF d4])
  obtain ctx6 e6 where cl: "close_open os ctx4 e5 = (ctx6, e6)" by fastforce
  have "links e6 = links e5" using close_open_links [OF l4, of ctx4 e5] by (simp add: cl)
  moreover have "\<exists>n5. links e5 = links e4 @ n5 \<and> links_up (client_link l4) n5 = Some {}"
  proof (cases "cl_connected l4")
    case True
    with o4 l4 show ?thesis
      by (intro exI [of _ "[(cl_sock l4, False)]"]) (simp add: client_ok_def e5_def client_link_def server_links_def)
  next
    case False
    with o4 show ?thesis by (simp add: client_ok_def e5_def client_link_def)
  qed
  ultimately obtain n5 where n5: "links e6 = links e4 @ n5" "links_up (client_link l4) n5 = Some {}" by auto
  have r: "\<exists>new. links e6 = links e1 @ new \<and> links_up {} new = Some {}"
    by (intro exI [of _ "new @ new2 @ n5"]) (simp add: n5 n4 n2 k links_up_append)
  have "opens e6 = opens e \<and> stream_sock ctx6 = -1"
    by (rule client_stopped [OF d4 _ cl, of _ l4]) (use o4 k5 in \<open>simp add: client_ok_def\<close>)
  moreover have "mb_tcp_stop os (client_finish os m l) ctx2 e2 = (ctx6, e6)"
    by (simp add: mb_tcp_stop_def e3_def [symmetric] f cl)
  ultimately show ?thesis
    using o2 n2 r by (auto simp: client_ok_def client_link_def split: if_splits)
qed

section \<open>Where the server does not do what it means to\<close>

text \<open>When a signal interrupts \<^verbatim>\<open>select\<close> the code goes on as if everything it asked about were ready:
  it accepts although no connection may be waiting, and serves every client although none may
  have sent anything.\<close>

lemma interrupted_select_serves_all:
  assumes "sv_select os (listen_sock ctx # in_use (take (effective_max_clients (mb_cfg ctx)) (client_fds ctx))) e =
      (Select_failed True, e1)"
    and "sv_select os2 (listen_sock ctx # in_use (take (effective_max_clients (mb_cfg ctx)) (client_fds ctx))) e =
      (Select_ready (listen_sock ctx # in_use (take (effective_max_clients (mb_cfg ctx)) (client_fds ctx))), e1)"
    and "os2 = os\<lparr>sv_select := sv_select os2\<rparr>"
  shows "server_turn os ctx e = server_turn os2 ctx e"
proof -
  have p: "peek_clients os2 cfg fds e = peek_clients os cfg fds e" for cfg fds e
    by (subst assms(3), induction fds arbitrary: e) (simp_all split: prod.split)
  have s: "serve_clients os2 cfg ready fds e = serve_clients os cfg ready fds e" for cfg ready fds e
    by (subst assms(3), induction fds arbitrary: e) (simp_all split: option.split prod.split)
  have eq: "sv_accept os2 = sv_accept os" "sv_sk os2 = sv_sk os"
    by (subst assms(3), simp)+
  have "server_ready os2 cfg ls ready fds e = server_ready os cfg ls ready fds e" for cfg ls ready fds e
    unfolding server_ready_def client_options_def s eq by (rule refl)
  then show ?thesis by (simp add: server_turn_def Let_def assms(1,2))
qed

text \<open>
  The table uses 0 for a free slot. A client whose descriptor is 0 - the one \<^verbatim>\<open>accept\<close> gives
  when standard input is closed - is announced and then forgotten: the table stays as it was, the
  client is never served and stopping does not close it.
\<close>

theorem descriptor_0_client_lost:
  assumes "sv_accept os ls e = (0, e1)" and "0 \<le> ls" and "0 \<in> set fds"
    and "server_links os cfg links" and "\<forall>sd\<in>set fds. sd \<notin> set ready"
    and "ls \<in> set ready"
  shows "fst (server_ready os cfg ls ready fds e) = fds \<and>
    links (snd (server_ready os cfg ls ready fds e)) = links e1 @ [(0, True)]"
proof -
  obtain fds1 where p: "place_client 0 fds = Some fds1" using place_client_None [of 0 fds] assms(3) by auto
  have "fds1 = fds" using place_client_split [OF p] by auto
  have s: "serve_clients os cfg ready fds e = (fds, e)" for e
    using assms(5) by (induction fds) auto
  show ?thesis
    using assms(1,2,6) by (simp add: server_ready_def Let_def p \<open>fds1 = fds\<close> s server_linksD(5) [OF assms(4)]
      client_options_view [OF server_linksD(1) [OF assms(4)]])
qed

section \<open>Witnesses\<close>

text \<open>An environment with the open descriptors, the links reported and the turns left. Everything
  asked about is ready, and a client is served once if its descriptor is even.\<close>

definition new_fd :: "int list \<Rightarrow> int" where
  "new_fd fds = foldr max fds 0 + 1"

lemma new_fd_new: "new_fd fds \<notin> set fds" and new_fd_neg: "\<not> new_fd fds < 0"
proof -
  have "x \<in> set fds \<Longrightarrow> x \<le> foldr max fds 0" for x by (induction fds) (auto simp: le_max_iff_disj)
  then show "new_fd fds \<notin> set fds" by (fastforce simp: new_fd_def)
  have "0 \<le> foldr max fds (0 :: int)" by (induction fds) auto
  then show "\<not> new_fd fds < 0" by (simp add: new_fd_def)
qed

type_synonym demo_env = "int list \<times> (int \<times> bool) list \<times> nat"

definition demo_opening :: "demo_env \<Rightarrow> int \<times> demo_env" where
  "demo_opening e = (case e of (fds, ls, k) \<Rightarrow> (new_fd fds, new_fd fds # fds, ls, k))"

definition demo_sockets :: "demo_env socket_os" where
  "demo_sockets =
     \<lparr>sk_socket = demo_opening, sk_setsockopt = (\<lambda>fd opt. Pair True), sk_inet_pton = (\<lambda>h. True),
      sk_set_nonblock = (\<lambda>fd b e. e), sk_connect = (\<lambda>fd h p. Pair Connect_ok), sk_wait_writable = (\<lambda>fd t. Pair True),
      sk_so_error = (\<lambda>fd. Pair 0), sk_shutdown = (\<lambda>fd e. e),
      sk_close = (\<lambda>fd (fds, ls, k). (filter (\<lambda>x. x \<noteq> fd) fds, ls, k)), sk_send = (\<lambda>fd bs. Pair (int (length bs))),
      sk_recv = (\<lambda>fd n. Pair Recv_timeout), sk_stack = (\<lambda>e. []), sk_mutex_ok = (\<lambda>e. True)\<rparr>"

definition demo_server :: "demo_env server_os" where
  "demo_server =
     \<lparr>sv_sk = demo_sockets, sv_running = (\<lambda>(fds, ls, k). 0 < k), sv_bind = (\<lambda>fd p. Pair True), sv_listen = (\<lambda>fd n. Pair True),
      sv_thread = Pair True, sv_select = (\<lambda>asked (fds, ls, k). (Select_ready asked, fds, ls, k - 1)),
      sv_accept = (\<lambda>fd. demo_opening), sv_peek = (\<lambda>fd. Pair 1), sv_sleep = (\<lambda>(fds, ls, k). (fds, ls, k - 1))\<rparr>"

definition demo_server_cfg :: "mb_tcp_mode \<Rightarrow> demo_env mb_tcp_config" where
  "demo_server_cfg m =
     \<lparr>mb_mode = m, mb_remote_host = Some ''h'', mb_port = 502, mb_bind_iface = None, mb_connect_timeout_sec = 0,
      mb_connect_retry_sec = 0, mb_recv_timeout_ms = 100, mb_max_clients = 2,
      on_link = Some (\<lambda>fd b (fds, ls, k). (fds, ls @ [(fd, b)], k)), on_init = None,
      on_process = Some (\<lambda>fd e. (if even fd then -1 else 0, e)), on_error = None\<rparr>"

definition demo_ctx :: "mb_tcp_mode \<Rightarrow> demo_env mb_tcp_ctx" where
  "demo_ctx m = \<lparr>mb_tid = 7, mb_cfg = demo_server_cfg m, listen_sock = 4, stream_sock = 5, client_fds = []\<rparr>"

lemma demo_server_descriptors: "server_descriptors demo_server (demo_server_cfg m) (set \<circ> fst)"
  using new_fd_new new_fd_neg
  by (auto simp: server_descriptors_def neutral_def keeps_view_def opens_fresh_def demo_server_def demo_sockets_def
    demo_server_cfg_def demo_opening_def)

lemma demo_server_links: "server_links demo_server (demo_server_cfg m) (fst \<circ> snd)"
  by (auto simp: server_links_def neutral_def keeps_view_def demo_server_def demo_sockets_def demo_server_cfg_def
    demo_opening_def mb_tcp_link_call_def)

text \<open>The server after its start, and after three turns: the first client was closed when it was
  served, the two others are in the table.\<close>

definition demo_started :: "int \<times> demo_env mb_tcp_ctx \<times> demo_env" where
  "demo_started = mb_tcp_start demo_server (demo_server_cfg MB_TCP_MODE_LISTEN_SERVER) (demo_ctx MB_TCP_MODE_LISTEN_SERVER) ([0], [], 3)"

lemma demo_started_rc:
  "mb_tcp_start demo_server (demo_server_cfg MB_TCP_MODE_LISTEN_SERVER) (demo_ctx MB_TCP_MODE_LISTEN_SERVER) ([0], [], 3) =
    (0, fst (snd demo_started), snd (snd demo_started))"
proof -
  have "fst demo_started = 0" by code_simp
  then show ?thesis by (metis demo_started_def prod.collapse)
qed

definition demo_ran :: "demo_env mb_tcp_ctx \<times> demo_env" where
  "demo_ran = mb_tcp_server_thread demo_server 5 (fst (snd demo_started)) (snd (snd demo_started))"

definition demo_stopped :: "demo_env mb_tcp_ctx \<times> demo_env" where
  "demo_stopped = mb_tcp_stop demo_server (mb_tcp_server_thread demo_server 1) (fst demo_ran) (snd demo_ran)"

theorem server_lifecycle_witness:
  "client_fds (fst demo_ran) = [4, 3, 0, 0, 0, 0, 0, 0, 0, 0] \<and> length (in_use (client_fds (fst demo_ran))) \<le> 2 \<and>
   set (fst (snd demo_ran)) = {1, 0} \<union> set (in_use (client_fds (fst demo_ran))) \<and> set (fst (snd demo_stopped)) = {0}"
proof -
  have t: "length (in_use (client_fds (fst demo_ran))) \<le> effective_max_clients (demo_server_cfg MB_TCP_MODE_LISTEN_SERVER) \<and>
      (set \<circ> fst) (snd demo_ran) =
        insert (listen_sock (fst demo_ran)) ((set \<circ> fst) ([0], [], 3) \<union> set (in_use (client_fds (fst demo_ran)))) \<and>
      (set \<circ> fst) (snd demo_stopped) = (set \<circ> fst) ([0], [], 3)"
    using server_lifecycle [OF demo_server_descriptors _ _ demo_started_rc, of 1 5, folded demo_ran_def]
    unfolding demo_stopped_def case_prod_unfold by (simp add: demo_server_cfg_def)
  have "client_fds (fst demo_ran) = [4, 3, 0, 0, 0, 0, 0, 0, 0, 0]" and "listen_sock (fst demo_ran) = 1"
    and "effective_max_clients (demo_server_cfg MB_TCP_MODE_LISTEN_SERVER) = 2" by code_simp+
  with t show ?thesis by auto
qed

text \<open>The same server stopped after two turns, while its thread takes two more.\<close>

definition demo_two :: "demo_env mb_tcp_ctx \<times> demo_env" where
  "demo_two = mb_tcp_server_thread demo_server 2 (fst (snd demo_started)) (snd (snd demo_started))"

definition demo_late :: "demo_env mb_tcp_ctx \<times> demo_env" where
  "demo_late = mb_tcp_server_thread demo_server 2 (fst demo_two) (shutdown_open demo_server (fst demo_two) (snd demo_two))"

theorem server_reports_links_witness:
  "links_up {} (fst (snd (snd demo_two))) = Some (set (in_use (client_fds (fst demo_two)))) \<and>
   links_up {} (fst (snd (snd demo_late))) = Some (set (in_use (client_fds (fst demo_late))))"
proof -
  have "mb_tcp_server_thread demo_server 2 (fst (snd demo_started)) (snd (snd demo_started)) = (fst demo_two, snd demo_two)"
    and "mb_tcp_server_thread demo_server 2 (fst demo_two) (shutdown_open demo_server (fst demo_two) (snd demo_two)) =
      (fst demo_late, snd demo_late)"
    by (simp_all only: demo_two_def demo_late_def prod.collapse)
  from server_reports_links [OF demo_server_descriptors demo_server_links _ _ demo_started_rc this]
  obtain new more where t: "(fst \<circ> snd) (snd demo_two) = (fst \<circ> snd) (snd (snd demo_started)) @ new"
    "links_up {} new = Some (set (in_use (client_fds (fst demo_two))))"
    "(fst \<circ> snd) (snd demo_late) = (fst \<circ> snd) (snd (snd demo_started)) @ new @ more"
    "links_up {} (new @ more) = Some (set (in_use (client_fds (fst demo_late))))"
    by (auto simp: demo_server_cfg_def)
  have "fst (snd (snd (snd demo_started))) = []" by code_simp
  with t show ?thesis by simp
qed

text \<open>A client that connects, processes its connection twice and is stopped.\<close>

definition demo_client_started :: "int \<times> demo_env mb_tcp_ctx \<times> demo_env" where
  "demo_client_started =
     mb_tcp_start demo_server (demo_server_cfg MB_TCP_MODE_CONNECT_CLIENT) (demo_ctx MB_TCP_MODE_CONNECT_CLIENT) ([0], [], 2)"

definition demo_client_ran :: "demo_env mb_tcp_ctx \<times> client_locals \<times> demo_env" where
  "demo_client_ran = client_turns demo_server 5 (fst (snd demo_client_started)) client_start (snd (snd demo_client_started))"

theorem client_lifecycle_witness:
  "client_link (fst (snd demo_client_ran)) = {1} \<and> set (fst (snd (snd demo_client_ran))) = {0, 1}"
proof -
  have "fst demo_client_started = 0" by code_simp
  then have s: "mb_tcp_start demo_server (demo_server_cfg MB_TCP_MODE_CONNECT_CLIENT) (demo_ctx MB_TCP_MODE_CONNECT_CLIENT) ([0], [], 2) =
      (0, fst (snd demo_client_started), snd (snd demo_client_started))" by (metis demo_client_started_def prod.collapse)
  have r: "client_turns demo_server 5 (fst (snd demo_client_started)) client_start (snd (snd demo_client_started)) =
      (fst demo_client_ran, fst (snd demo_client_ran), snd (snd demo_client_ran))" by (simp only: demo_client_ran_def prod.collapse)
  from client_lifecycle [OF demo_server_descriptors demo_server_links _ s r, of 0]
  have "(set \<circ> fst) (snd (snd demo_client_ran)) = (set \<circ> fst) ([0], [], 2) \<union> client_link (fst (snd demo_client_ran))"
    by (simp add: demo_server_cfg_def)
  moreover have "cl_connected (fst (snd demo_client_ran))" and "cl_sock (fst (snd demo_client_ran)) = 1" by code_simp+
  ultimately show ?thesis by (auto simp: client_link_def)
qed

text \<open>The same environment, but with standard input closed.\<close>

definition demo_server_0 :: "demo_env server_os" where
  "demo_server_0 = demo_server\<lparr>sv_accept := (\<lambda>fd (fds, ls, k). (0, 0 # fds, ls, k))\<rparr>"

theorem descriptor_0_client_lost_witness:
  "fst (server_ready demo_server_0 (demo_server_cfg MB_TCP_MODE_LISTEN_SERVER) 3 [3] [0, 5] ([3, 5], [], 2)) = [0, 5] \<and>
   fst (snd (snd (server_ready demo_server_0 (demo_server_cfg MB_TCP_MODE_LISTEN_SERVER) 3 [3] [0, 5] ([3, 5], [], 2)))) = [(0, True)]"
proof -
  have l: "server_links demo_server_0 (demo_server_cfg m) (fst \<circ> snd)" for m
    by (auto simp: server_links_def neutral_def keeps_view_def demo_server_0_def demo_server_def demo_sockets_def
      demo_server_cfg_def demo_opening_def mb_tcp_link_call_def)
  have a: "sv_accept demo_server_0 3 ([3, 5], [], 2) = (0, [0, 3, 5], [], 2)" by (simp add: demo_server_0_def)
  from descriptor_0_client_lost [OF a, of "[0, 5]" _ "fst \<circ> snd" "[3]", OF _ _ l] show ?thesis by simp
qed

end
