(* ===== verification/Cmos_Wire.thy ===== *)
theory Cmos_Wire
  imports C_Numbers
begin

text \<open>
  What the files of \<^verbatim>\<open>lib/cmos\<close> share: the C string functions they use on lines of text, the
  calls of the socket interface they make, and \<^verbatim>\<open>cmos_get_field\<close> of \<^verbatim>\<open>cmos_util.h\<close>. A buffer
  of received bytes is a list of characters and may hold a NUL; a C string ends before its first
  NUL.
\<close>

section \<open>Strings\<close>

definition c_str :: "string \<Rightarrow> string" where
  "c_str s = takeWhile (\<lambda>c. c \<noteq> CHR 0x00) s"

text \<open>\<^verbatim>\<open>strtok\<close> with the text still to look at: the token and the text behind the delimiter that
  ended it.\<close>

definition next_token :: "char list \<Rightarrow> string \<Rightarrow> (string \<times> string) option" where
  "next_token ds s =
     (let t = dropWhile (\<lambda>c. c \<in> set ds) s
      in if t = [] then None
         else Some (takeWhile (\<lambda>c. c \<notin> set ds) t, drop 1 (dropWhile (\<lambda>c. c \<notin> set ds) t)))"

lemma next_token_shorter: "next_token ds s = Some (t, r) \<Longrightarrow> length r < length s"
proof -
  assume a: "next_token ds s = Some (t, r)"
  let ?t = "dropWhile (\<lambda>c. c \<in> set ds) s"
  have n: "?t \<noteq> []" and r: "r = drop 1 (dropWhile (\<lambda>c. c \<notin> set ds) ?t)"
    using a by (auto simp: next_token_def Let_def split: if_splits)
  have "length r \<le> length (dropWhile (\<lambda>c. c \<notin> set ds) ?t) - 1" using r by simp
  moreover have "length (dropWhile (\<lambda>c. c \<notin> set ds) ?t) \<le> length ?t" "length ?t \<le> length s"
    by (rule length_dropWhile_le)+
  moreover have "0 < length ?t" using n by simp
  ultimately show ?thesis by linarith
qed

text \<open>The loop over all tokens.\<close>

function tokens_of :: "char list \<Rightarrow> string \<Rightarrow> string list" where
  "tokens_of ds s = (case next_token ds s of None \<Rightarrow> [] | Some (t, r) \<Rightarrow> t # tokens_of ds r)"
  by pat_completeness auto
termination
  by (relation "measure (\<lambda>(ds, s). length s)") (auto dest: next_token_shorter)

declare tokens_of.simps [simp del]

abbreviation blank_ends :: "char list" where "blank_ends \<equiv> [CHR '' '', CHR 0x0D, CHR 0x0A]"
abbreviation line_ends :: "char list" where "line_ends \<equiv> [CHR 0x0D, CHR 0x0A]"

definition cmos_get_field :: "string \<Rightarrow> string \<Rightarrow> nat \<Rightarrow> string option" where
  "cmos_get_field data field out_size =
     (let search = take 126 field @ ''='';
          hits = filter (\<lambda>i. take (length search) (drop i data) = search) [0..<length data]
      in if hits = [] then None
         else Some (take (out_size - 1) (takeWhile (\<lambda>c. c \<notin> set blank_ends) (drop (hd hits + length search) data))))"

section \<open>Sockets\<close>

text \<open>\<open>na_connect\<close> answers whether \<^verbatim>\<open>connect\<close> succeeded, \<open>na_bind\<close> whether \<^verbatim>\<open>bind\<close> and \<^verbatim>\<open>listen\<close>
  did; options of a socket are set without looking at the result.\<close>

datatype send_result = Sent nat | Would_block | Send_failed

record 'e net_api =
  na_socket :: "'e \<Rightarrow> int \<times> 'e"
  na_pton :: "string \<Rightarrow> bool"
  na_connect :: "int \<Rightarrow> string \<Rightarrow> int \<Rightarrow> 'e \<Rightarrow> bool \<times> 'e"
  na_bind :: "int \<Rightarrow> int \<Rightarrow> 'e \<Rightarrow> bool \<times> 'e"
  na_listen :: "int \<Rightarrow> 'e \<Rightarrow> bool \<times> 'e"
  na_accept :: "int \<Rightarrow> 'e \<Rightarrow> int \<times> 'e"
  na_send :: "int \<Rightarrow> string \<Rightarrow> 'e \<Rightarrow> send_result \<times> 'e"
  na_recv :: "int \<Rightarrow> nat \<Rightarrow> 'e \<Rightarrow> string option \<times> 'e"
  na_epoll_create :: "'e \<Rightarrow> int \<times> 'e"
  na_close :: "int \<Rightarrow> 'e \<Rightarrow> 'e"

definition connect_tcp :: "'e net_api \<Rightarrow> string \<Rightarrow> int \<Rightarrow> 'e \<Rightarrow> int \<times> 'e" where
  "connect_tcp net ip port e =
     (case na_socket net e of
        (fd, e1) \<Rightarrow>
          if fd < 0 then (-1, e1)
          else if \<not> na_pton net ip then (-1, na_close net fd e1)
          else (case na_connect net fd ip port e1 of
                  (ok, e2) \<Rightarrow> if \<not> ok then (-1, na_close net fd e2) else (fd, e2)))"

text \<open>\<^verbatim>\<open>send_line\<close> with its callers' test for a result above 0.\<close>

definition send_line :: "'e net_api \<Rightarrow> int \<Rightarrow> string \<Rightarrow> 'e \<Rightarrow> bool \<times> 'e" where
  "send_line net fd line e =
     (case na_send net fd line e of (r, e1) \<Rightarrow> ((case r of Sent n \<Rightarrow> 0 < n | _ \<Rightarrow> False), e1))"

text \<open>The line that names a node to the master, cut to its buffer.\<close>

definition node_line :: "string \<Rightarrow> string" where
  "node_line name = take 255 (''NODE '' @ name @ [CHR 0x0A])"

section \<open>Words and lines\<close>

definition plain :: "string \<Rightarrow> bool" where
  "plain s \<longleftrightarrow> (\<forall>c\<in>set s. c \<notin> set blank_ends \<and> c \<noteq> CHR 0x00)"

lemma plain_simps [simp]: "plain []" "plain (s @ t) \<longleftrightarrow> plain s \<and> plain t"
  "plain (c # s) \<longleftrightarrow> c \<notin> set blank_ends \<and> c \<noteq> CHR 0x00 \<and> plain s"
  by (auto simp: plain_def)

lemma takeWhile_plain: "\<forall>c\<in>set w. c \<notin> set ds \<Longrightarrow> d \<in> set ds \<Longrightarrow> takeWhile (\<lambda>c. c \<notin> set ds) (w @ d # r) = w"
  by (induction w) auto

lemma dropWhile_plain: "\<forall>c\<in>set w. c \<notin> set ds \<Longrightarrow> d \<in> set ds \<Longrightarrow> dropWhile (\<lambda>c. c \<notin> set ds) (w @ d # r) = d # r"
  by (induction w) auto

lemma next_token_word:
  assumes "w \<noteq> []" and "\<forall>c\<in>set w. c \<notin> set ds" and "d \<in> set ds"
  shows "next_token ds (w @ d # r) = Some (w, r)"
proof -
  obtain c v where w: "w = c # v" using assms(1) by (cases w) auto
  have "dropWhile (\<lambda>c. c \<in> set ds) (w @ d # r) = w @ d # r" using assms(2) by (simp add: w)
  then show ?thesis
    using takeWhile_plain [OF assms(2,3), of r] dropWhile_plain [OF assms(2,3), of r] by (simp add: next_token_def w)
qed

lemma next_token_last:
  assumes "w \<noteq> []" and "\<forall>c\<in>set w. c \<notin> set ds"
  shows "next_token ds w = Some (w, [])"
proof -
  obtain c v where w: "w = c # v" using assms(1) by (cases w) auto
  have "takeWhile (\<lambda>c. c \<notin> set ds) w = w" "dropWhile (\<lambda>c. c \<notin> set ds) w = []"
    using assms(2) by (simp_all add: takeWhile_eq_all_conv dropWhile_eq_Nil_conv)
  moreover have "dropWhile (\<lambda>c. c \<in> set ds) w = w" using assms(2) by (simp add: w)
  ultimately show ?thesis using assms(1) by (simp only: next_token_def Let_def if_False drop_Nil)
qed

text \<open>Words joined by blanks are the tokens again.\<close>

fun join_words :: "string list \<Rightarrow> string" where
  "join_words [] = []"
| "join_words [w] = w"
| "join_words (w # v # ws) = w @ CHR '' '' # join_words (v # ws)"

lemma tokens_of_join:
  "\<forall>w\<in>set ws. w \<noteq> [] \<and> plain w \<Longrightarrow> tokens_of [CHR '' ''] (join_words ws) = ws"
proof (induction ws rule: join_words.induct)
  case 1
  then show ?case by (subst tokens_of.simps) (simp add: next_token_def)
next
  case (2 w)
  then have "next_token [CHR '' ''] w = Some (w, [])" by (intro next_token_last) (auto simp: plain_def)
  moreover have "tokens_of [CHR '' ''] [] = []" by (subst tokens_of.simps) (simp add: next_token_def)
  ultimately show ?case by (subst tokens_of.simps) simp
next
  case (3 w v ws)
  then have "next_token [CHR '' ''] (w @ CHR '' '' # join_words (v # ws)) = Some (w, join_words (v # ws))"
    by (intro next_token_word) (auto simp: plain_def)
  then show ?case by (subst tokens_of.simps) (simp add: 3)
qed

lemma join_words_snoc: "ws \<noteq> [] \<Longrightarrow> join_words (ws @ [w]) = join_words ws @ CHR '' '' # w"
  by (induction ws rule: join_words.induct) auto

lemma join_words_chars: "c \<in> set (join_words ws) \<Longrightarrow> c = CHR '' '' \<or> (\<exists>w\<in>set ws. c \<in> set w)"
  by (induction ws rule: join_words.induct) auto

lemma join_words_nonempty: "ws \<noteq> [] \<Longrightarrow> [] \<notin> set ws \<Longrightarrow> join_words ws \<noteq> []"
  by (cases ws rule: join_words.cases) auto

section \<open>Descriptors\<close>

text \<open>What the socket interface does to the set of open descriptors.\<close>

definition descriptors_ok :: "'e net_api \<Rightarrow> ('e \<Rightarrow> int set) \<Rightarrow> bool" where
  "descriptors_ok net opens \<longleftrightarrow>
     (\<forall>e. opens_fresh opens e (na_socket net e) \<and> opens_fresh opens e (na_epoll_create net e)) \<and>
     (\<forall>e fd. opens_fresh opens e (na_accept net fd e) \<and> opens (na_close net fd e) = opens e - {fd} \<and>
        opens (snd (na_listen net fd e)) = opens e) \<and>
     (\<forall>e fd n. opens (snd (na_recv net fd n e)) = opens e) \<and>
     (\<forall>e fd s port. opens (snd (na_connect net fd s port e)) = opens e \<and> opens (snd (na_bind net fd port e)) = opens e \<and>
        opens (snd (na_send net fd s e)) = opens e)"

lemma connect_tcp_opens:
  assumes "descriptors_ok net opens"
  shows "opens_fresh opens e (connect_tcp net ip port e)"
proof -
  obtain fd e1 where s: "na_socket net e = (fd, e1)" by fastforce
  obtain ok e2 where c: "na_connect net fd ip port e1 = (ok, e2)" by fastforce
  have f: "opens_fresh opens e (fd, e1)" using assms s unfolding descriptors_ok_def by metis
  have k: "opens e2 = opens e1" using assms c unfolding descriptors_ok_def by (metis snd_conv)
  have cl: "opens (na_close net fd e') = opens e' - {fd}" for e' using assms by (simp add: descriptors_ok_def)
  show ?thesis
    using f k by (auto simp: connect_tcp_def s c opens_fresh_def cl split: if_splits)
qed

lemma send_line_opens: "descriptors_ok net opens \<Longrightarrow> send_line net fd s e = (ok, e1) \<Longrightarrow> opens e1 = opens e"
  unfolding send_line_def descriptors_ok_def by (auto split: prod.splits) (metis snd_conv)+

lemma descriptors_okD:
  assumes "descriptors_ok net opens"
  shows "opens (na_close net fd e) = opens e - {fd}" and "opens (snd (na_recv net fd n e)) = opens e"
    and "opens (snd (na_send net fd s e)) = opens e" and "opens_fresh opens e (na_epoll_create net e)"
    and "opens_fresh opens e (na_socket net e)" and "opens_fresh opens e (na_accept net fd e)"
    and "opens (snd (na_bind net fd port e)) = opens e" and "opens (snd (na_listen net fd e)) = opens e"
  using assms by (simp_all add: descriptors_ok_def)

end
