(* ===== verification/Cmos_Pub.thy ===== *)
theory Cmos_Pub
  imports Cmos_Wire
begin

text \<open>
  \<^verbatim>\<open>lib/cmos/cmos_pub.c\<close>: the publisher, which registers with the master, accepts subscribers
  without waiting and sends each message to all of them. The file-scope variables are one
  record; \<^verbatim>\<open>sub_socks[0 .. sub_count)\<close> is a list. Output on the terminal is left out.
\<close>

abbreviation CM_MAX_SUB_CLIENT :: nat where "CM_MAX_SUB_CLIENT \<equiv> 256"

record publisher =
  master_sock :: int
  listen_sock :: int
  sub_socks :: "int list"
  pub_topic :: string
  pub_epfd :: int

definition publisher_zero :: publisher where
  "publisher_zero = \<lparr>master_sock = -1, listen_sock = -1, sub_socks = [], pub_topic = [], pub_epfd = -1\<rparr>"

section \<open>Registration\<close>

text \<open>The descriptors a failing step closes, in the code's order.\<close>

definition close_all :: "'e net_api \<Rightarrow> int list \<Rightarrow> 'e \<Rightarrow> 'e" where
  "close_all net fds e = fold (na_close net) fds e"

definition show_int :: "int \<Rightarrow> string" where
  "show_int i = (if i < 0 then CHR ''-'' # show_nat (nat (- i)) else show_nat (nat i))"

definition register_pub_line :: "string \<Rightarrow> int \<Rightarrow> string" where
  "register_pub_line topic listen_port =
     take 255 (''REGISTER_PUB '' @ topic @ '' 127.0.0.1 '' @ show_int listen_port @ [CHR 0x0A])"

definition cmos_pub_init ::
  "'e net_api \<Rightarrow> string \<Rightarrow> int \<Rightarrow> string \<Rightarrow> string \<Rightarrow> int \<Rightarrow> publisher \<Rightarrow> 'e \<Rightarrow> int \<times> publisher \<times> 'e" where
  "cmos_pub_init net master_ip master_port node_name topic listen_port p e =
     (let p1 = p\<lparr>pub_topic := take 63 topic, sub_socks := []\<rparr>
      in case connect_tcp net master_ip master_port e of
           (ms, e1) \<Rightarrow>
             if ms < 0 then (-1, p1\<lparr>master_sock := ms\<rparr>, e1)
             else
               (case send_line net ms (node_line node_name) e1 of
                  (ok1, e2) \<Rightarrow>
                    if \<not> ok1 then (-1, p1\<lparr>master_sock := -1\<rparr>, close_all net [ms] e2)
                    else
                      (case na_socket net e2 of
                         (ls, e3) \<Rightarrow>
                           if ls < 0 then (-1, p1\<lparr>master_sock := -1, listen_sock := ls\<rparr>, close_all net [ms] e3)
                           else
                             (case na_bind net ls listen_port e3 of
                                (ok2, e4) \<Rightarrow>
                                  if \<not> ok2
                                  then (-1, p1\<lparr>master_sock := -1, listen_sock := -1\<rparr>, close_all net [ls, ms] e4)
                                  else
                                    (case na_listen net ls e4 of
                                       (ok3, e5) \<Rightarrow>
                                         if \<not> ok3
                                         then (-1, p1\<lparr>master_sock := -1, listen_sock := -1\<rparr>, close_all net [ls, ms] e5)
                                         else
                                           (case na_epoll_create net e5 of
                                              (ep, e6) \<Rightarrow>
                                                if ep < 0
                                                then (-1, p1\<lparr>master_sock := -1, listen_sock := -1, pub_epfd := ep\<rparr>,
                                                      close_all net [ls, ms] e6)
                                                else
                                                  (case send_line net ms
                                                     (register_pub_line topic listen_port) e6 of
                                                     (ok4, e7) \<Rightarrow>
                                                       if \<not> ok4
                                                       then (-1, p1\<lparr>master_sock := -1, listen_sock := -1, pub_epfd := -1\<rparr>,
                                                             close_all net [ep, ls, ms] e7)
                                                       else (0, p1\<lparr>master_sock := ms, listen_sock := ls, pub_epfd := ep\<rparr>,
                                                             e7))))))))"

section \<open>Subscribers\<close>

text \<open>\<open>ready\<close> is what \<^verbatim>\<open>epoll_wait\<close> answers.\<close>

definition cmos_pub_poll :: "'e net_api \<Rightarrow> bool \<Rightarrow> publisher \<Rightarrow> 'e \<Rightarrow> publisher \<times> 'e" where
  "cmos_pub_poll net ready p e =
     (if listen_sock p < 0 \<or> pub_epfd p < 0 then (p, e)
      else if \<not> ready then (p, e)
      else
        (case na_accept net (listen_sock p) e of
           (c, e1) \<Rightarrow>
             if 0 \<le> c \<and> length (sub_socks p) < CM_MAX_SUB_CLIENT then (p\<lparr>sub_socks := sub_socks p @ [c]\<rparr>, e1)
             else if 0 \<le> c then (p, na_close net c e1)
             else (p, e1)))"

section \<open>Messages\<close>

text \<open>\<open>data\<close> after one \<^verbatim>\<open>snprintf\<close> at its end; \<open>pos\<close> is its length. Without any field the array
  is sent as it was, uninitialised: \<^const>\<open>None\<close>.\<close>

definition PUB_DATA_CAP :: nat where
  "PUB_DATA_CAP = 895"

definition put_field :: "string \<Rightarrow> string option \<Rightarrow> string \<Rightarrow> string" where
  "put_field name v data =
     (case v of
        None \<Rightarrow> data
      | Some s \<Rightarrow> take PUB_DATA_CAP (data @ (if data \<noteq> [] then '' '' else []) @ name @ ''='' @ s))"

definition publish_data ::
  "string option \<Rightarrow> string option \<Rightarrow> string option \<Rightarrow> string option \<Rightarrow> string option" where
  "publish_data st ty key v =
     (if st = None \<and> ty = None \<and> key = None \<and> v = None then None
      else
        let data = put_field ''key'' key (put_field ''type'' ty (put_field ''state'' st []))
        in Some (case v of
             None \<Rightarrow> data
           | Some s \<Rightarrow> if data \<noteq> [] then put_field ''value'' v data else take PUB_DATA_CAP s))"

definition publish_line :: "string \<Rightarrow> string \<Rightarrow> string" where
  "publish_line topic data = take 1023 (''MSG '' @ topic @ '' '' @ data @ [CHR 0x0A])"

text \<open>The loop of \<^verbatim>\<open>cmos_publish\<close> over the subscribers.\<close>

fun send_to_all :: "'e net_api \<Rightarrow> string \<Rightarrow> int list \<Rightarrow> 'e \<Rightarrow> int list \<times> 'e" where
  "send_to_all net line [] e = ([], e)"
| "send_to_all net line (s # ss) e =
     (case na_send net s line e of
        (Send_failed, e1) \<Rightarrow> send_to_all net line ss (na_close net s e1)
      | (_, e1) \<Rightarrow> (case send_to_all net line ss e1 of (kept, e2) \<Rightarrow> (s # kept, e2)))"

definition cmos_publish ::
  "'e net_api \<Rightarrow> string option \<Rightarrow> string option \<Rightarrow> string option \<Rightarrow> string option \<Rightarrow> publisher \<Rightarrow> 'e \<Rightarrow>
     (publisher \<times> 'e) option" where
  "cmos_publish net st ty key v p e =
     (case publish_data st ty key v of
        None \<Rightarrow> None
      | Some data \<Rightarrow>
          (case send_to_all net (publish_line (pub_topic p) data) (sub_socks p) e of
             (kept, e1) \<Rightarrow> Some (p\<lparr>sub_socks := kept\<rparr>, e1)))"

fun cmos_publish_batch ::
  "'e net_api \<Rightarrow> (string option \<times> string option \<times> string option \<times> string option) list \<Rightarrow> publisher \<Rightarrow> 'e \<Rightarrow>
     (publisher \<times> 'e) option" where
  "cmos_publish_batch net [] p e = Some (p, e)"
| "cmos_publish_batch net ((st, ty, key, v) # ms) p e =
     (case cmos_publish net st ty key v p e of
        None \<Rightarrow> None
      | Some (p1, e1) \<Rightarrow> cmos_publish_batch net ms p1 e1)"

definition cmos_pub_close :: "'e net_api \<Rightarrow> publisher \<Rightarrow> 'e \<Rightarrow> publisher \<times> 'e" where
  "cmos_pub_close net p e =
     (\<lparr>master_sock = (if 0 \<le> master_sock p then -1 else master_sock p),
       listen_sock = (if 0 \<le> listen_sock p then -1 else listen_sock p), sub_socks = [], pub_topic = pub_topic p,
       pub_epfd = (if 0 \<le> pub_epfd p then -1 else pub_epfd p)\<rparr>,
      close_all net (filter (\<lambda>s. 0 \<le> s) (sub_socks p @ [pub_epfd p, listen_sock p, master_sock p])) e)"

section \<open>The text of a message\<close>

definition message_words :: "string option \<Rightarrow> string option \<Rightarrow> string option \<Rightarrow> string option \<Rightarrow> string list" where
  "message_words st ty key v =
     (case st of None \<Rightarrow> [] | Some s \<Rightarrow> [''state='' @ s]) @ (case ty of None \<Rightarrow> [] | Some s \<Rightarrow> [''type='' @ s]) @
     (case key of None \<Rightarrow> [] | Some s \<Rightarrow> [''key='' @ s]) @ (case v of None \<Rightarrow> [] | Some s \<Rightarrow> [''value='' @ s])"

lemma put_field_words:
  assumes "data = join_words ws" and "[] \<notin> set ws"
    and "length (join_words (ws @ (case v of None \<Rightarrow> [] | Some s \<Rightarrow> [name @ ''='' @ s]))) \<le> PUB_DATA_CAP"
  shows "put_field name v data = join_words (ws @ (case v of None \<Rightarrow> [] | Some s \<Rightarrow> [name @ ''='' @ s]))"
  using assms by (cases v; cases "ws = []") (auto simp: put_field_def join_words_snoc join_words_nonempty)

lemma length_join_words_prefix: "length (join_words ws) \<le> length (join_words (ws @ vs))"
proof (induction vs rule: rev_induct)
  case (snoc v vs)
  have "length (join_words (ws @ vs)) \<le> length (join_words ((ws @ vs) @ [v]))"
    by (cases "ws @ vs = []") (simp_all add: join_words_snoc del: append_assoc)
  with snoc show ?case by simp
qed simp

text \<open>Without truncation the data is the fields as words.\<close>

lemma publish_data_words:
  assumes "st \<noteq> None \<or> ty \<noteq> None \<or> key \<noteq> None" and len: "length (join_words (message_words st ty key v)) \<le> PUB_DATA_CAP"
  shows "publish_data st ty key v = Some (join_words (message_words st ty key v))"
proof -
  define w1 w2 w3 w4 where "w1 = (case st of None \<Rightarrow> [] | Some s \<Rightarrow> [''state'' @ ''='' @ s])"
    and "w2 = (case ty of None \<Rightarrow> [] | Some s \<Rightarrow> [''type'' @ ''='' @ s])"
    and "w3 = (case key of None \<Rightarrow> [] | Some s \<Rightarrow> [''key'' @ ''='' @ s])"
    and "w4 = (case v of None \<Rightarrow> [] | Some s \<Rightarrow> [''value'' @ ''='' @ s])"
  have m: "message_words st ty key v = w1 @ w2 @ w3 @ w4"
    by (simp add: message_words_def w1_def w2_def w3_def w4_def split: option.splits)
  have ne: "[] \<notin> set w1" "[] \<notin> set w2" "[] \<notin> set w3" by (auto simp: w1_def w2_def w3_def split: option.splits)
  have l: "length (join_words w1) \<le> PUB_DATA_CAP" "length (join_words (w1 @ w2)) \<le> PUB_DATA_CAP"
    "length (join_words (w1 @ w2 @ w3)) \<le> PUB_DATA_CAP"
    using length_join_words_prefix [of w1 "w2 @ w3 @ w4"] length_join_words_prefix [of "w1 @ w2" "w3 @ w4"]
      length_join_words_prefix [of "w1 @ w2 @ w3" w4] len by (simp_all add: m)
  have p1: "put_field ''state'' st [] = join_words w1"
    using put_field_words [of "[]" "[]" "''state''" st] l(1) by (simp add: w1_def)
  have p2: "put_field ''type'' ty (join_words w1) = join_words (w1 @ w2)"
    using put_field_words [of "join_words w1" w1 "''type''" ty] l(2) ne(1) by (simp add: w2_def)
  have p3: "put_field ''key'' key (join_words (w1 @ w2)) = join_words (w1 @ w2 @ w3)"
    using put_field_words [of "join_words (w1 @ w2)" "w1 @ w2" "''key''" key] l(3) ne by (simp add: w3_def)
  have p4: "put_field ''value'' v (join_words (w1 @ w2 @ w3)) = join_words (w1 @ w2 @ w3 @ w4)"
    using put_field_words [of "join_words (w1 @ w2 @ w3)" "w1 @ w2 @ w3" "''value''" v] len ne by (simp add: m w4_def)
  have "w1 @ w2 @ w3 \<noteq> []" using assms(1) by (auto simp: w1_def w2_def w3_def)
  then have n: "join_words (w1 @ w2 @ w3) \<noteq> []" using ne by (intro join_words_nonempty) auto
  have f: "\<not> (st = None \<and> ty = None \<and> key = None \<and> v = None)" using assms(1) by blast
  show ?thesis
    unfolding m publish_data_def Let_def p1 p2 p3 if_not_P [OF f] using n p4 by (cases v) (simp_all add: w4_def)
qed

lemma publish_line_whole:
  "length topic \<le> 63 \<Longrightarrow> length data \<le> PUB_DATA_CAP \<Longrightarrow> publish_line topic data = ''MSG '' @ topic @ '' '' @ data @ [CHR 0x0A]"
  by (simp add: publish_line_def PUB_DATA_CAP_def)

text \<open>Whatever the fields, the data never exceeds its array.\<close>

lemma put_field_cap: "length data \<le> PUB_DATA_CAP \<Longrightarrow> length (put_field name v data) \<le> PUB_DATA_CAP"
  by (simp add: put_field_def del: take_append split: option.splits)

lemma publish_data_cap: "publish_data st ty key v = Some data \<Longrightarrow> length data \<le> PUB_DATA_CAP"
  by (auto simp: publish_data_def Let_def put_field_cap split: option.splits if_splits)

lemma publish_data_all: "publish_data st ty key v = None \<longleftrightarrow> st = None \<and> ty = None \<and> key = None \<and> v = None"
  by (simp add: publish_data_def Let_def)

section \<open>Descriptors\<close>

lemma close_all_opens: "descriptors_ok net opens \<Longrightarrow> opens (close_all net fds e) = opens e - set fds"
  by (induction fds arbitrary: e) (auto simp: close_all_def descriptors_ok_def)

text \<open>The publisher owns its three descriptors and the subscribers' beside those of the rest.\<close>

definition owned :: "publisher \<Rightarrow> int list" where
  "owned p = sub_socks p @ [pub_epfd p, listen_sock p, master_sock p]"

definition owns :: "('e \<Rightarrow> int set) \<Rightarrow> int set \<Rightarrow> publisher \<Rightarrow> 'e \<Rightarrow> bool" where
  "owns opens base p e \<longleftrightarrow> distinct (owned p) \<and> set (owned p) \<inter> base = {} \<and> opens e = base \<union> set (owned p) \<and>
     list_all (\<lambda>s. 0 \<le> s) (owned p) \<and> length (sub_socks p) \<le> CM_MAX_SUB_CLIENT"

lemma pub_init_owns:
  assumes d: "descriptors_ok net opens"
    and i: "cmos_pub_init net ip mport node topic port p0 e = (rc, p, e')"
  shows "(rc = 0 \<and> owns opens (opens e) p e' \<and> pub_topic p = take 63 topic) \<or> (rc = -1 \<and> opens e' = opens e)"
proof -
  obtain ms e1 where c: "connect_tcp net ip mport e = (ms, e1)" by fastforce
  note fc = connect_tcp_opens [OF d, of e ip mport, unfolded c]
  obtain ok1 e2 where s1: "send_line net ms (node_line node) e1 = (ok1, e2)" by fastforce
  obtain ls e3 where s: "na_socket net e2 = (ls, e3)" by fastforce
  have fs: "opens_fresh opens e2 (ls, e3)" using d s unfolding descriptors_ok_def by metis
  obtain ok2 e4 where b: "na_bind net ls port e3 = (ok2, e4)" by fastforce
  obtain ok3 e5 where l: "na_listen net ls e4 = (ok3, e5)" by fastforce
  obtain ep e6 where ep: "na_epoll_create net e5 = (ep, e6)" by fastforce
  have fe: "opens_fresh opens e5 (ep, e6)" using d ep unfolding descriptors_ok_def by metis
  obtain ok4 e7 where s2: "send_line net ms (register_pub_line topic port) e6 = (ok4, e7)" by fastforce
  have k: "opens e4 = opens e3" "opens e5 = opens e4" using d b l unfolding descriptors_ok_def by (metis snd_conv)+
  note o1 = send_line_opens [OF d s1] and o2 = send_line_opens [OF d s2]
  note cl = close_all_opens [OF d]
  note defs = cmos_pub_init_def Let_def c s1 s b l ep s2 prod.case
  consider "ms < 0" | "0 \<le> ms" "\<not> ok1" | "0 \<le> ms" ok1 "ls < 0" | "0 \<le> ms" ok1 "0 \<le> ls" "\<not> ok2 \<or> \<not> ok3"
    | "0 \<le> ms" ok1 "0 \<le> ls" ok2 ok3 "ep < 0" | "0 \<le> ms" ok1 "0 \<le> ls" ok2 ok3 "0 \<le> ep" "\<not> ok4"
    | "0 \<le> ms" ok1 "0 \<le> ls" ok2 ok3 "0 \<le> ep" ok4 by linarith
  then show ?thesis
  proof cases
    case 1
    then have "rc = -1" "e' = e1" using i by (simp_all add: defs)
    with 1 fc show ?thesis by (simp add: opens_fresh_def)
  next
    case 2
    then have "rc = -1" "e' = close_all net [ms] e2" using i by (simp_all add: defs)
    with 2 fc o1 show ?thesis by (simp add: opens_fresh_def cl)
  next
    case 3
    then have "rc = -1" "e' = close_all net [ms] e3" using i by (simp_all add: defs)
    with 3 fc fs o1 show ?thesis by (simp add: opens_fresh_def cl)
  next
    case 4
    then have "rc = -1 \<and> (e' = close_all net [ls, ms] e4 \<or> e' = close_all net [ls, ms] e5)"
      using i by (simp add: defs split: if_splits)
    with 4 fc fs o1 k show ?thesis by (auto simp: opens_fresh_def cl)
  next
    case 5
    then have "rc = -1" "e' = close_all net [ls, ms] e6" using i by (simp_all add: defs)
    with 5 fc fs fe o1 k show ?thesis by (auto simp: opens_fresh_def cl)
  next
    case 6
    then have "rc = -1" "e' = close_all net [ep, ls, ms] e7" using i by (simp_all add: defs)
    with 6 fc fs fe o1 o2 k show ?thesis by (auto simp: opens_fresh_def cl)
  next
    case 7
    then have "rc = 0" and p: "p = p0\<lparr>pub_topic := take 63 topic, sub_socks := [], master_sock := ms, listen_sock := ls, pub_epfd := ep\<rparr>"
      and "e' = e7" using i by (simp_all add: defs)
    moreover have "owns opens (opens e) p e7"
      using 7 fc fs fe k o1 o2 by (auto simp: owns_def owned_def p opens_fresh_def)
    ultimately show ?thesis by (simp add: p)
  qed
qed

lemma pub_poll_owns:
  assumes d: "descriptors_ok net opens" and o: "owns opens base p e"
  shows "owns opens base (fst (cmos_pub_poll net ready p e)) (snd (cmos_pub_poll net ready p e)) \<and>
    pub_topic (fst (cmos_pub_poll net ready p e)) = pub_topic p"
proof -
  obtain c e1 where a: "na_accept net (listen_sock p) e = (c, e1)" by fastforce
  have f: "opens_fresh opens e (c, e1)" using d a unfolding descriptors_ok_def by metis
  have cl: "opens (na_close net c e1) = opens e1 - {c}" using d by (simp add: descriptors_ok_def)
  consider "c < 0" | "0 \<le> c" "length (sub_socks p) < CM_MAX_SUB_CLIENT" | "0 \<le> c" "\<not> length (sub_socks p) < CM_MAX_SUB_CLIENT"
    by linarith
  then show ?thesis
    by cases (use o f cl in \<open>auto simp: cmos_pub_poll_def a owns_def owned_def opens_fresh_def\<close>)
qed

text \<open>Sending to all keeps the subscribers whose send did not fail, in order, and closes the
  others.\<close>

lemma send_to_all_owns:
  assumes d: "descriptors_ok net opens" and "send_to_all net line ss e = (kept, e1)" and "distinct ss"
  shows "opens e1 = opens e - (set ss - set kept) \<and> set kept \<subseteq> set ss \<and> distinct kept \<and> length kept \<le> length ss"
  using assms(2,3)
proof (induction ss arbitrary: e kept e1)
  case (Cons s ss)
  obtain r e2 where s: "na_send net s line e = (r, e2)" by fastforce
  have k: "opens e2 = opens e" using d s unfolding descriptors_ok_def by (metis snd_conv)
  have cl: "opens (na_close net s e2) = opens e2 - {s}" using d by (simp add: descriptors_ok_def)
  show ?case
  proof (cases "r = Send_failed")
    case True
    with Cons.prems s have "send_to_all net line ss (na_close net s e2) = (kept, e1)" by simp
    from Cons.IH [OF this] Cons.prems(2) k cl show ?thesis by auto
  next
    case False
    obtain kept' e3 where r: "send_to_all net line ss e2 = (kept', e3)" by fastforce
    with False Cons.prems(1) s have "kept = s # kept'" "e1 = e3" by (auto split: send_result.splits)
    with Cons.IH [OF r] Cons.prems(2) k show ?thesis by auto
  qed
qed simp

lemma publish_owns:
  assumes d: "descriptors_ok net opens" and o: "owns opens base p e" and "cmos_publish net st ty key v p e = Some (p', e')"
  shows "owns opens base p' e' \<and> pub_topic p' = pub_topic p"
proof -
  obtain data kept where s: "send_to_all net (publish_line (pub_topic p) data) (sub_socks p) e = (kept, e')"
    and p': "p' = p\<lparr>sub_socks := kept\<rparr>"
    using assms(3) by (auto simp: cmos_publish_def split: option.splits prod.splits)
  from o have "distinct (sub_socks p)" by (simp add: owns_def owned_def)
  from send_to_all_owns [OF d s this] o show ?thesis
    by (auto simp: p' owns_def owned_def list_all_iff)
qed

text \<open>A publisher at work polls and publishes.\<close>

datatype pub_action = Poll bool | Publish "string option" "string option" "string option" string

fun pub_actions :: "'e net_api \<Rightarrow> pub_action list \<Rightarrow> publisher \<Rightarrow> 'e \<Rightarrow> publisher \<times> 'e" where
  "pub_actions net [] p e = (p, e)"
| "pub_actions net (Poll ready # as) p e =
     (case cmos_pub_poll net ready p e of (p1, e1) \<Rightarrow> pub_actions net as p1 e1)"
| "pub_actions net (Publish st ty key v # as) p e =
     (case cmos_publish net st ty key (Some v) p e of
        None \<Rightarrow> pub_actions net as p e
      | Some (p1, e1) \<Rightarrow> pub_actions net as p1 e1)"

lemma pub_actions_owns:
  "descriptors_ok net opens \<Longrightarrow> owns opens base p e \<Longrightarrow>
    owns opens base (fst (pub_actions net as p e)) (snd (pub_actions net as p e)) \<and>
    pub_topic (fst (pub_actions net as p e)) = pub_topic p"
proof (induction net as p e rule: pub_actions.induct)
  case (2 net ready as p e)
  note o = pub_poll_owns [OF "2.prems", of ready]
  from "2.IH" [OF prod.collapse "2.prems"(1) conjunct1 [OF o]] o show ?case by (simp add: case_prod_unfold)
next
  case (3 net st ty key v as p e)
  then show ?case using publish_owns [OF "3.prems"] by (auto split: option.splits prod.splits)
qed simp

lemma pub_close_opens:
  assumes "descriptors_ok net opens" and "owns opens base p e"
  shows "opens (snd (cmos_pub_close net p e)) = base"
  using assms(2) unfolding cmos_pub_close_def snd_conv close_all_opens [OF assms(1)]
  by (auto simp: owns_def owned_def list_all_iff)

text \<open>A publisher that fails to start leaves no descriptor open. One that started and then
  polled and published in any order serves at most 256 subscribers, and closing it closes all
  its descriptors, those of the subscribers included, and no other.\<close>

theorem publisher_closes_everything:
  assumes "descriptors_ok net opens"
    and "cmos_pub_init net ip mport node topic port p0 e = (rc, p, e1)"
  shows "(rc = -1 \<longrightarrow> opens e1 = opens e) \<and>
    (rc = 0 \<longrightarrow> (case pub_actions net as p e1 of (p2, e2) \<Rightarrow>
       length (sub_socks p2) \<le> 256 \<and> opens e \<subseteq> opens e2 \<and> opens (snd (cmos_pub_close net p2 e2)) = opens e)) \<and>
    rc \<in> {0, -1}"
proof -
  note c = pub_close_opens [OF assms(1)]
  show ?thesis
    using pub_init_owns [OF assms] pub_actions_owns [OF assms(1), of "opens e" p e1 as] c
    by (auto simp: owns_def split: prod.splits)
qed

section \<open>A socket interface\<close>

text \<open>The environment is the list of open descriptors; a send to descriptor 13 fails.\<close>

definition fresh_fd :: "int list \<Rightarrow> int" where
  "fresh_fd l = foldr max l (-1) + 1"

definition list_net :: "int list net_api" where
  "list_net =
     \<lparr>na_socket = (\<lambda>l. (fresh_fd l, fresh_fd l # l)), na_pton = (\<lambda>ip. True), na_connect = (\<lambda>fd ip port l. (True, l)),
      na_bind = (\<lambda>fd port l. (True, l)), na_listen = (\<lambda>fd l. (True, l)), na_accept = (\<lambda>fd l. (fresh_fd l, fresh_fd l # l)),
      na_send = (\<lambda>fd s l. (if fd = 13 then Send_failed else Sent (length s), l)), na_recv = (\<lambda>fd n l. (None, l)),
      na_epoll_create = (\<lambda>l. (fresh_fd l, fresh_fd l # l)), na_close = (\<lambda>fd l. filter (\<lambda>x. x \<noteq> fd) l)\<rparr>"

lemma fresh_fd_new: "fresh_fd l \<notin> set l" "0 \<le> fresh_fd l"
proof -
  have m: "x \<in> set l \<Longrightarrow> x \<le> foldr max l (-1)" for x by (induction l) auto
  show "fresh_fd l \<notin> set l" using m [of "fresh_fd l"] by (auto simp: fresh_fd_def)
  have "-1 \<le> foldr max l (-1)" by (induction l) auto
  then show "0 \<le> fresh_fd l" by (simp add: fresh_fd_def)
qed

lemma list_net_ok: "descriptors_ok list_net set"
  using fresh_fd_new by (auto simp: descriptors_ok_def list_net_def opens_fresh_def leD)

theorem publisher_closes_everything_witness:
  "\<exists>p e1. cmos_pub_init list_net ''127.0.0.1'' 10000 ''n'' ''ups'' 12000 publisher_zero [0, 1, 2] = (0, p, e1) \<and>
     (case pub_actions list_net [Poll True, Publish None None (Some ''k'') ''1''] p e1 of
        (p2, e2) \<Rightarrow> length (sub_socks p2) \<le> 256 \<and> set (snd (cmos_pub_close list_net p2 e2)) = {0, 1, 2})"
proof -
  have "\<exists>p e1. cmos_pub_init list_net ''127.0.0.1'' 10000 ''n'' ''ups'' 12000 publisher_zero [0, 1, 2] = (0, p, e1)"
    by (simp add: cmos_pub_init_def list_net_def fresh_fd_def connect_tcp_def send_line_def node_line_def register_pub_line_def)
  then obtain p e1 where i: "cmos_pub_init list_net ''127.0.0.1'' 10000 ''n'' ''ups'' 12000 publisher_zero [0, 1, 2] = (0, p, e1)"
    by blast
  with publisher_closes_everything [OF list_net_ok i, of "[Poll True, Publish None None (Some ''k'') ''1'']"]
  show ?thesis by (auto split: prod.splits)
qed

end
