(* ===== verification/Cmos_Srv.thy ===== *)
theory Cmos_Srv
  imports Cmos_Pub
begin

text \<open>
  \<^verbatim>\<open>lib/cmos/cmos_srv.c\<close>: services with a request and a response over one line of text each.
  The server's file-scope variables are one record; a handler maps the service's name and the
  request to the response it writes, at most 1023 characters. The loops that read the master's
  answer end with \<^verbatim>\<open>END\<close> or a failing receive. The receive timeouts and terminal output are
  left out, and so is the sleep between two attempts of \<^verbatim>\<open>cmos_srv_wait\<close>.
\<close>

abbreviation SRV_LINE_BUF :: nat where "SRV_LINE_BUF \<equiv> 1024"

section \<open>Receiving a line\<close>

text \<open>The loop of \<^verbatim>\<open>srv_recv_line\<close> with the bytes that still fit, one byte at a time.\<close>

fun recv_line_loop :: "'e net_api \<Rightarrow> int \<Rightarrow> nat \<Rightarrow> string \<Rightarrow> 'e \<Rightarrow> string option \<times> 'e" where
  "recv_line_loop net fd 0 buf e = (Some buf, e)"
| "recv_line_loop net fd (Suc n) buf e =
     (case na_recv net fd 1 e of
        (Some (c # _), e1) \<Rightarrow> if c = CHR 0x0A then (Some (buf @ [c]), e1) else recv_line_loop net fd n (buf @ [c]) e1
      | (_, e1) \<Rightarrow> (None, e1))"

text \<open>The callers read the buffer as a C string.\<close>

definition srv_recv_line :: "'e net_api \<Rightarrow> int \<Rightarrow> nat \<Rightarrow> 'e \<Rightarrow> string option \<times> 'e" where
  "srv_recv_line net fd buf_len e =
     (case recv_line_loop net fd (buf_len - 1) [] e of (r, e1) \<Rightarrow> (map_option c_str r, e1))"

section \<open>The server\<close>

type_synonym srv_handler = "string \<Rightarrow> string \<Rightarrow> string"

record srv_state =
  srv_master_sock :: int
  srv_listen_sock :: int
  srv_service :: string
  srv_handler :: "srv_handler option"

definition srv_zero :: srv_state where
  "srv_zero = \<lparr>srv_master_sock = -1, srv_listen_sock = -1, srv_service = [], srv_handler = None\<rparr>"

definition register_srv_line :: "string \<Rightarrow> int \<Rightarrow> string" where
  "register_srv_line service listen_port =
     take 255 (''REGISTER_SRV '' @ service @ '' 127.0.0.1 '' @ show_int listen_port @ [CHR 0x0A])"

definition cmos_srv_init ::
  "'e net_api \<Rightarrow> string \<Rightarrow> int \<Rightarrow> string \<Rightarrow> string \<Rightarrow> int \<Rightarrow> srv_handler option \<Rightarrow> srv_state \<Rightarrow> 'e \<Rightarrow>
     int \<times> srv_state \<times> 'e" where
  "cmos_srv_init net master_ip master_port node_name service_name listen_port handler st e =
     (let st1 = st\<lparr>srv_service := take 63 service_name, srv_handler := handler\<rparr>
      in case connect_tcp net master_ip master_port e of
           (ms, e1) \<Rightarrow>
             if ms < 0 then (-1, st1\<lparr>srv_master_sock := ms\<rparr>, e1)
             else
               (case send_line net ms (node_line node_name) e1 of
                  (ok1, e2) \<Rightarrow>
                    if \<not> ok1 then (-1, st1\<lparr>srv_master_sock := -1\<rparr>, close_all net [ms] e2)
                    else
                      (case na_socket net e2 of
                         (ls, e3) \<Rightarrow>
                           if ls < 0 then (-1, st1\<lparr>srv_master_sock := -1, srv_listen_sock := ls\<rparr>, close_all net [ms] e3)
                           else
                             (case na_bind net ls listen_port e3 of
                                (ok2, e4) \<Rightarrow>
                                  if \<not> ok2
                                  then (-1, st1\<lparr>srv_master_sock := -1, srv_listen_sock := -1\<rparr>, close_all net [ls, ms] e4)
                                  else
                                    (case na_listen net ls e4 of
                                       (ok3, e5) \<Rightarrow>
                                         if \<not> ok3
                                         then (-1, st1\<lparr>srv_master_sock := -1, srv_listen_sock := -1\<rparr>, close_all net [ls, ms] e5)
                                         else
                                           (case send_line net ms (register_srv_line service_name listen_port) e5 of
                                              (ok4, e6) \<Rightarrow>
                                                if \<not> ok4
                                                then (-1, st1\<lparr>srv_master_sock := -1, srv_listen_sock := -1\<rparr>,
                                                      close_all net [ls, ms] e6)
                                                else (0, st1\<lparr>srv_master_sock := ms, srv_listen_sock := ls\<rparr>, e6)))))))"

text \<open>The service and the request of a line, when it is a request.\<close>

definition parse_req :: "string \<Rightarrow> (string \<times> string) option" where
  "parse_req line =
     (case next_token blank_ends line of
        None \<Rightarrow> None
      | Some (cmd, r1) \<Rightarrow>
          (case next_token blank_ends r1 of
             None \<Rightarrow> None
           | Some (svc, r2) \<Rightarrow>
               if cmd \<noteq> ''REQ'' then None
               else Some (svc, case next_token line_ends r2 of
                                 None \<Rightarrow> []
                               | Some (req, _) \<Rightarrow> if take 1 req = '' '' then drop 1 req else req)))"

definition res_line :: "string \<Rightarrow> string \<Rightarrow> string" where
  "res_line service response = take (SRV_LINE_BUF + 127) (''RES '' @ service @ '' '' @ response @ [CHR 0x0A])"

text \<open>One turn of \<^verbatim>\<open>cmos_srv_spin\<close>, with the request the handler was called with.\<close>

definition srv_turn :: "'e net_api \<Rightarrow> srv_state \<Rightarrow> 'e \<Rightarrow> (string \<times> string) option \<times> 'e" where
  "srv_turn net st e =
     (case na_accept net (srv_listen_sock st) e of
        (client, e1) \<Rightarrow>
          if client < 0 then (None, e1)
          else
            (case srv_recv_line net client SRV_LINE_BUF e1 of
               (None, e2) \<Rightarrow> (None, na_close net client e2)
             | (Some line, e2) \<Rightarrow>
                 (case parse_req line of
                    None \<Rightarrow> (None, na_close net client e2)
                  | Some (svc, req) \<Rightarrow>
                      let response = (case srv_handler st of None \<Rightarrow> [] | Some h \<Rightarrow> h svc req)
                      in (Some (svc, req),
                          na_close net client (snd (send_line net client (res_line (srv_service st) response) e2))))))"

fun cmos_srv_spin :: "'e net_api \<Rightarrow> nat \<Rightarrow> srv_state \<Rightarrow> 'e \<Rightarrow> (string \<times> string) list \<times> 'e" where
  "cmos_srv_spin net 0 st e = ([], e)"
| "cmos_srv_spin net (Suc n) st e =
     (case srv_turn net st e of
        (call, e1) \<Rightarrow> (case cmos_srv_spin net n st e1 of
          (calls, e2) \<Rightarrow> ((case call of None \<Rightarrow> calls | Some c \<Rightarrow> c # calls), e2)))"

definition cmos_srv_close :: "'e net_api \<Rightarrow> srv_state \<Rightarrow> 'e \<Rightarrow> srv_state \<times> 'e" where
  "cmos_srv_close net st e =
     (st\<lparr>srv_listen_sock := (if 0 \<le> srv_listen_sock st then -1 else srv_listen_sock st),
         srv_master_sock := (if 0 \<le> srv_master_sock st then -1 else srv_master_sock st)\<rparr>,
      close_all net (filter (\<lambda>s. 0 \<le> s) [srv_listen_sock st, srv_master_sock st]) e)"

section \<open>The client\<close>

definition lookup_srv_line :: "string \<Rightarrow> string" where
  "lookup_srv_line service = take 255 (''LOOKUP_SRV '' @ service @ [CHR 0x0A])"

definition req_line :: "string \<Rightarrow> string \<Rightarrow> string" where
  "req_line service request = take 255 (''REQ '' @ service @ '' '' @ request @ [CHR 0x0A])"

text \<open>The address in a line \<^verbatim>\<open>SRVINFO service ip port node\<close>.\<close>

definition srv_info :: "string \<Rightarrow> string \<times> int \<Rightarrow> string \<times> int" where
  "srv_info line a =
     (if take 8 line = ''SRVINFO ''
      then (case tokens_of blank_ends line of
              _ # _ # ip # port # _ \<Rightarrow> (take 63 ip, sint (atoi port))
            | _ \<Rightarrow> a)
      else a)"

text \<open>The loop over the master's answer, which folds its lines into \<open>a\<close>.\<close>

partial_function (option) srv_lines ::
  "'e net_api \<Rightarrow> int \<Rightarrow> (string \<Rightarrow> 'a \<Rightarrow> 'a) \<Rightarrow> 'a \<Rightarrow> 'e \<Rightarrow> ('a \<times> 'e) option" where
  "srv_lines net fd f a e =
     (case srv_recv_line net fd SRV_LINE_BUF e of
        (None, e1) \<Rightarrow> Some (a, e1)
      | (Some line, e1) \<Rightarrow>
          if line = ''END'' @ [CHR 0x0A] then Some (a, e1) else srv_lines net fd f (f line a) e1)"

text \<open>What \<^verbatim>\<open>cmos_srv_call\<close> takes for the response.\<close>

definition response_text :: "string \<Rightarrow> string" where
  "response_text line =
     (let p1 = dropWhile (\<lambda>c. c = CHR '' '') (dropWhile (\<lambda>c. c \<noteq> CHR '' '') line);
          p2 = dropWhile (\<lambda>c. c = CHR '' '') (dropWhile (\<lambda>c. c \<notin> set blank_ends) p1)
      in rev (dropWhile (\<lambda>c. c \<in> set line_ends) (rev p2)))"

text \<open>Connecting to the master and asking for a service; \<^const>\<open>None\<close> in front when that fails.\<close>

definition ask_master ::
  "'e net_api \<Rightarrow> string \<Rightarrow> int \<Rightarrow> string \<Rightarrow> string \<Rightarrow> (string \<Rightarrow> 'a \<Rightarrow> 'a) \<Rightarrow> 'a \<Rightarrow> 'e \<Rightarrow> ('a option \<times> 'e) option" where
  "ask_master net master_ip master_port node service f a e =
     (case connect_tcp net master_ip master_port e of
        (ms, e1) \<Rightarrow>
          if ms < 0 then Some (None, e1)
          else
            (case send_line net ms (lookup_srv_line service) (snd (send_line net ms (node_line node) e1)) of
               (ok, e2) \<Rightarrow>
                 if \<not> ok then Some (None, na_close net ms e2)
                 else map_option (\<lambda>(b, e3). (Some b, na_close net ms e3)) (srv_lines net ms f a e2)))"

definition cmos_srv_call ::
  "'e net_api \<Rightarrow> string \<Rightarrow> int \<Rightarrow> string \<Rightarrow> string option \<Rightarrow> nat \<Rightarrow> 'e \<Rightarrow> (int \<times> string \<times> 'e) option" where
  "cmos_srv_call net master_ip master_port service request response_len e =
     (case ask_master net master_ip master_port ''cmos_srv_client'' service srv_info ([], -1) e of
        None \<Rightarrow> None
      | Some (None, e1) \<Rightarrow> Some (-1, [], e1)
      | Some (Some (ip, port), e1) \<Rightarrow>
          if port < 0 then Some (-1, [], e1)
          else
            (case connect_tcp net ip port e1 of
               (ss, e2) \<Rightarrow>
                 if ss < 0 then Some (-1, [], e2)
                 else
                   (case send_line net ss (req_line service (case request of None \<Rightarrow> [] | Some r \<Rightarrow> r)) e2 of
                      (ok, e3) \<Rightarrow>
                        if \<not> ok then Some (-1, [], na_close net ss e3)
                        else
                          (case srv_recv_line net ss SRV_LINE_BUF e3 of
                             (None, e4) \<Rightarrow> Some (-1, [], na_close net ss e4)
                           | (Some line, e4) \<Rightarrow>
                               Some (0, take (response_len - 1) (response_text line), na_close net ss e4)))))"

definition srv_exists :: "'e net_api \<Rightarrow> string \<Rightarrow> int \<Rightarrow> string \<Rightarrow> 'e \<Rightarrow> (int \<times> 'e) option" where
  "srv_exists net master_ip master_port service e =
     map_option (\<lambda>(found, e1). (if found = Some True then 0 else -1, e1))
       (ask_master net master_ip master_port ''cmos_srv_wait'' service (\<lambda>line found. take 8 line = ''SRVINFO '' \<or> found) False e)"

text \<open>\<open>left\<close> is \<^verbatim>\<open>timeout_ms - elapsed\<close>.\<close>

function srv_wait_loop :: "'e net_api \<Rightarrow> string \<Rightarrow> int \<Rightarrow> string \<Rightarrow> int \<Rightarrow> 'e \<Rightarrow> (int \<times> 'e) option" where
  "srv_wait_loop net master_ip master_port service left e =
     (if left \<le> 0 then Some (-1, e)
      else
        (case srv_exists net master_ip master_port service e of
           None \<Rightarrow> None
         | Some (rc, e1) \<Rightarrow>
             if rc = 0 then Some (0, e1) else srv_wait_loop net master_ip master_port service (left - 500) e1))"
  by pat_completeness auto
termination
  by (relation "measure (\<lambda>(net, ip, port, s, left, e). nat left)") auto

declare srv_wait_loop.simps [simp del]

definition cmos_srv_wait :: "'e net_api \<Rightarrow> string \<Rightarrow> int \<Rightarrow> string \<Rightarrow> int \<Rightarrow> 'e \<Rightarrow> (int \<times> 'e) option" where
  "cmos_srv_wait net master_ip master_port service timeout_ms e =
     srv_wait_loop net master_ip master_port service timeout_ms e"

end
