(* ===== verification/Cmos_Sub.thy ===== *)
theory Cmos_Sub
  imports Cmos_Wire
begin

text \<open>
  \<^verbatim>\<open>lib/cmos/cmos_sub.c\<close>: the subscriber's table of subscriptions, its table of connections to
  publishers, the talk with the master, the cutting of received bytes into lines and the
  filtering of a line. A callback is a value of type \<open>'cb\<close>; a call is the callback with topic
  and text. The \<^verbatim>\<open>epoll\<close> bookkeeping and the output on the terminal are left out.
\<close>

abbreviation CM_RX_BUF :: nat where "CM_RX_BUF \<equiv> 2048"
abbreviation CM_LINE_BUF :: nat where "CM_LINE_BUF \<equiv> 1024"
abbreviation CM_MAX_PUB_CONN :: nat where "CM_MAX_PUB_CONN \<equiv> 256"
abbreviation CM_MAX_SUB_SLOTS :: nat where "CM_MAX_SUB_SLOTS \<equiv> 256"

section \<open>State\<close>

text \<open>The slots \<^verbatim>\<open>sub_slots[0 .. sub_slot_count)\<close>, which are all in use, are a list; an empty filter
  matches anything.\<close>

record 'cb sub_slot =
  sl_topic :: string
  filter_state :: string
  filter_type :: string
  filter_key :: string
  sl_cb :: "'cb option"

record pub_conn =
  conn_sock :: int
  conn_node :: string
  conn_rx :: string
  conn_active :: bool
  conn_slot :: int

record 'cb sub_ctx =
  sub_master_sock :: int
  sub_master_ip :: string
  sub_master_port :: int
  sub_node_name :: string
  sub_slots :: "'cb sub_slot list"
  pub_conns :: "pub_conn list"
  pub_count :: int
  sub_epfd :: int

section \<open>Connections\<close>

definition closed_conn :: pub_conn where
  "closed_conn = \<lparr>conn_sock = -1, conn_node = [], conn_rx = [], conn_active = False, conn_slot = -1\<rparr>"

definition ctx_init_conns :: "'cb sub_ctx \<Rightarrow> 'cb sub_ctx" where
  "ctx_init_conns ctx = ctx\<lparr>pub_conns := replicate CM_MAX_PUB_CONN closed_conn, pub_count := 0\<rparr>"

definition ctx_close_conn :: "'e net_api \<Rightarrow> nat \<Rightarrow> 'cb sub_ctx \<Rightarrow> 'e \<Rightarrow> 'cb sub_ctx \<times> 'e" where
  "ctx_close_conn net i ctx e =
     (if CM_MAX_PUB_CONN \<le> i then (ctx, e)
      else
        let c = pub_conns ctx ! i
        in (ctx\<lparr>pub_count := (if conn_active c then pub_count ctx - 1 else pub_count ctx),
                pub_conns := (pub_conns ctx)[i := closed_conn]\<rparr>,
            (if 0 \<le> conn_sock c then na_close net (conn_sock c) e else e)))"

definition ctx_close_all_conns :: "'e net_api \<Rightarrow> 'cb sub_ctx \<Rightarrow> 'e \<Rightarrow> 'cb sub_ctx \<times> 'e" where
  "ctx_close_all_conns net ctx e =
     fold (\<lambda>i (ctx, e). ctx_close_conn net i ctx e) [0..<CM_MAX_PUB_CONN] (ctx, e)"

definition ctx_find_conn :: "'cb sub_ctx \<Rightarrow> string \<Rightarrow> int \<Rightarrow> nat option" where
  "ctx_find_conn ctx node slot =
     List.find (\<lambda>i. conn_active (pub_conns ctx ! i) \<and> conn_slot (pub_conns ctx ! i) = slot \<and>
       conn_node (pub_conns ctx ! i) = node) [0..<CM_MAX_PUB_CONN]"

definition ctx_add_pub ::
  "'e net_api \<Rightarrow> int \<Rightarrow> string \<Rightarrow> string \<Rightarrow> int \<Rightarrow> 'cb sub_ctx \<Rightarrow> 'e \<Rightarrow> int \<times> 'cb sub_ctx \<times> 'e" where
  "ctx_add_pub net sub_slot node_name ip port ctx e =
     (if ctx_find_conn ctx node_name sub_slot \<noteq> None then (0, ctx, e)
      else
        (case List.find (\<lambda>i. \<not> conn_active (pub_conns ctx ! i)) [0..<CM_MAX_PUB_CONN] of
           None \<Rightarrow> (-1, ctx, e)
         | Some i \<Rightarrow>
             (case connect_tcp net ip port e of
                (s, e1) \<Rightarrow>
                  if s < 0 then (-1, ctx, e1)
                  else (0, ctx\<lparr>pub_conns := (pub_conns ctx)[i := \<lparr>conn_sock = s, conn_node = take 63 node_name,
                                 conn_rx = [], conn_active = True, conn_slot = sub_slot\<rparr>],
                               pub_count := pub_count ctx + 1\<rparr>, e1))))"

definition ctx_active_count :: "'cb sub_ctx \<Rightarrow> nat" where
  "ctx_active_count ctx = length (filter (\<lambda>c. conn_active c \<and> 0 \<le> conn_sock c) (pub_conns ctx))"

section \<open>The master\<close>

definition register_sub_line :: "string \<Rightarrow> string" where
  "register_sub_line topic = take 255 (''REGISTER_SUB '' @ topic @ [CHR 0x0A])"

definition lookup_topic_line :: "string \<Rightarrow> string" where
  "lookup_topic_line topic = take 255 (''LOOKUP_TOPIC '' @ topic @ [CHR 0x0A])"

text \<open>The registrations of the slots; \<^const>\<open>False\<close> when a send fails.\<close>

fun register_slots :: "'e net_api \<Rightarrow> int \<Rightarrow> 'cb sub_slot list \<Rightarrow> 'e \<Rightarrow> bool \<times> 'e" where
  "register_slots net ms [] e = (True, e)"
| "register_slots net ms (s # ss) e =
     (case send_line net ms (register_sub_line (sl_topic s)) e of
        (ok, e1) \<Rightarrow> if \<not> ok then (False, e1) else register_slots net ms ss e1)"

definition ctx_reconnect_master :: "'e net_api \<Rightarrow> 'cb sub_ctx \<Rightarrow> 'e \<Rightarrow> int \<times> 'cb sub_ctx \<times> 'e" where
  "ctx_reconnect_master net ctx e =
     (let e0 = (if 0 \<le> sub_master_sock ctx then na_close net (sub_master_sock ctx) e else e)
      in case connect_tcp net (sub_master_ip ctx) (sub_master_port ctx) e0 of
           (ms, e1) \<Rightarrow>
             if ms < 0 then (-1, ctx\<lparr>sub_master_sock := ms\<rparr>, e1)
             else
               (case send_line net ms (node_line (sub_node_name ctx)) e1 of
                  (ok, e2) \<Rightarrow>
                    if \<not> ok then (-1, ctx\<lparr>sub_master_sock := -1\<rparr>, na_close net ms e2)
                    else
                      (case register_slots net ms (sub_slots ctx) e2 of
                         (ok2, e3) \<Rightarrow>
                           if \<not> ok2 then (-1, ctx\<lparr>sub_master_sock := -1\<rparr>, na_close net ms e3)
                           else (0, ctx\<lparr>sub_master_sock := ms\<rparr>, e3))))"

section \<open>Received bytes\<close>

text \<open>The bytes up to each newline, with it, cut to the line buffer and read as a C string; and the
  bytes behind the last newline.\<close>

fun cut_lines :: "string \<Rightarrow> string \<Rightarrow> string list \<times> string" where
  "cut_lines cur [] = ([], cur)"
| "cut_lines cur (c # cs) =
     (if c \<noteq> CHR 0x0A then cut_lines (cur @ [c]) cs
      else (case cut_lines [] cs of (ls, r) \<Rightarrow> ((cur @ [c]) # ls, r)))"

definition line_of :: "string \<Rightarrow> string" where
  "line_of l = c_str (take (CM_LINE_BUF - 1) l)"

text \<open>The receive buffer after \<open>n\<close> more bytes: the lines to handle and what stays. A full buffer
  without a newline is thrown away.\<close>

definition rx_feed :: "string \<Rightarrow> string \<Rightarrow> string list \<times> string" where
  "rx_feed buf recvd =
     (case cut_lines [] (buf @ recvd) of
        (ls, r) \<Rightarrow> (map line_of ls, if CM_RX_BUF - 1 \<le> length r then [] else r))"

section \<open>Messages\<close>

text \<open>The last word with each prefix.\<close>

record msg_fields =
  p_state :: "string option"
  p_type :: "string option"
  p_key :: "string option"
  p_value :: "string option"

definition no_fields :: msg_fields where
  "no_fields = \<lparr>p_state = None, p_type = None, p_key = None, p_value = None\<rparr>"

definition read_word :: "string \<Rightarrow> msg_fields \<Rightarrow> msg_fields" where
  "read_word t f =
     (if take 6 t = ''state='' then f\<lparr>p_state := Some (drop 6 t)\<rparr>
      else if take 5 t = ''type='' then f\<lparr>p_type := Some (drop 5 t)\<rparr>
      else if take 4 t = ''key='' then f\<lparr>p_key := Some (drop 4 t)\<rparr>
      else if take 6 t = ''value='' then f\<lparr>p_value := Some (drop 6 t)\<rparr> else f)"

definition filtered :: "string \<Rightarrow> string option \<Rightarrow> bool" where
  "filtered flt p \<longleftrightarrow> flt \<noteq> [] \<and> p \<noteq> Some flt"

text \<open>What a slot does with the data of a message on its topic.\<close>

definition slot_receive :: "'cb sub_slot \<Rightarrow> string \<Rightarrow> string \<Rightarrow> ('cb \<times> string \<times> string) option" where
  "slot_receive slot topic data =
     (case sl_cb slot of
        None \<Rightarrow> None
      | Some cb \<Rightarrow>
          if filter_state slot = [] \<and> filter_type slot = [] \<and> filter_key slot = [] then Some (cb, topic, data)
          else
            let f = fold read_word (tokens_of [CHR '' ''] (take 1023 data)) no_fields
            in if filtered (filter_state slot) (p_state f) then None
               else if filtered (filter_type slot) (p_type f) then None
               else if filtered (filter_key slot) (p_key f) then None
               else if filter_key slot \<noteq> []
               then Some (cb, topic, case p_value f of None \<Rightarrow> [] | Some v \<Rightarrow> v)
               else Some (cb, topic, data))"

definition ctx_handle_line :: "'cb sub_slot list \<Rightarrow> int \<Rightarrow> string \<Rightarrow> ('cb \<times> string \<times> string) option" where
  "ctx_handle_line slots s line =
     (case next_token blank_ends line of
        None \<Rightarrow> None
      | Some (cmd, r1) \<Rightarrow>
          if cmd \<noteq> ''MSG'' then None
          else
            (case next_token blank_ends r1 of
               None \<Rightarrow> None
             | Some (topic, r2) \<Rightarrow>
                 (case next_token line_ends r2 of
                    None \<Rightarrow> None
                  | Some (data, r3) \<Rightarrow>
                      if s < 0 \<or> int (length slots) \<le> s then None
                      else if topic \<noteq> sl_topic (slots ! nat s) then None
                      else slot_receive (slots ! nat s) topic data)))"

section \<open>Looking up publishers\<close>

text \<open>The lines of one receive: \<^const>\<open>True\<close> in front when \<^verbatim>\<open>END\<close> was among them. A line
  \<^verbatim>\<open>PUBINFO topic ip port node\<close> adds a connection.\<close>

definition add_from_line :: "'e net_api \<Rightarrow> int \<Rightarrow> string \<Rightarrow> 'cb sub_ctx \<Rightarrow> 'e \<Rightarrow> bool \<times> 'cb sub_ctx \<times> 'e" where
  "add_from_line net s line ctx e =
     (case tokens_of blank_ends line of
        _ # _ # ip # port # node # _ \<Rightarrow>
          (case ctx_add_pub net s node ip (sint (atoi port)) ctx e of (rc, ctx1, e1) \<Rightarrow> (rc = 0, ctx1, e1))
      | _ \<Rightarrow> (False, ctx, e))"

fun lookup_lines ::
  "'e net_api \<Rightarrow> int \<Rightarrow> string list \<Rightarrow> bool \<Rightarrow> 'cb sub_ctx \<Rightarrow> 'e \<Rightarrow> bool \<times> bool \<times> 'cb sub_ctx \<times> 'e" where
  "lookup_lines net s [] found ctx e = (False, found, ctx, e)"
| "lookup_lines net s (l # ls) found ctx e =
     (if line_of l = ''END'' @ [CHR 0x0A] then (True, found, ctx, e)
      else if take 8 (line_of l) = ''PUBINFO ''
      then (case add_from_line net s (line_of l) ctx e of
              (added, ctx1, e1) \<Rightarrow> lookup_lines net s ls (found \<or> added) ctx1 e1)
      else lookup_lines net s ls found ctx e)"

text \<open>The loop of \<^verbatim>\<open>ctx_lookup_slot\<close>, which runs until \<^verbatim>\<open>END\<close> or a failing receive.\<close>

partial_function (option) lookup_loop ::
  "'e net_api \<Rightarrow> int \<Rightarrow> string \<Rightarrow> bool \<Rightarrow> 'cb sub_ctx \<Rightarrow> 'e \<Rightarrow> (int \<times> 'cb sub_ctx \<times> 'e) option" where
  "lookup_loop net s buf found ctx e =
     (case na_recv net (sub_master_sock ctx) (CM_RX_BUF - 1 - length buf) e of
        (None, e1) \<Rightarrow> Some (-1, ctx\<lparr>sub_master_sock := -1\<rparr>, na_close net (sub_master_sock ctx) e1)
      | (Some b, e1) \<Rightarrow>
          (case cut_lines [] (buf @ b) of
             (ls, r) \<Rightarrow>
               (case lookup_lines net s ls found ctx e1 of
                  (ended, found1, ctx1, e2) \<Rightarrow>
                    if ended then Some (if found1 then 0 else -1, ctx1, e2)
                    else lookup_loop net s (if CM_RX_BUF - 1 \<le> length r then [] else r) found1 ctx1 e2)))"

definition ctx_lookup_slot :: "'e net_api \<Rightarrow> nat \<Rightarrow> 'cb sub_ctx \<Rightarrow> 'e \<Rightarrow> (int \<times> 'cb sub_ctx \<times> 'e) option" where
  "ctx_lookup_slot net s ctx e =
     (case send_line net (sub_master_sock ctx) (lookup_topic_line (sl_topic (sub_slots ctx ! s))) e of
        (ok, e1) \<Rightarrow>
          if \<not> ok then Some (-1, ctx\<lparr>sub_master_sock := -1\<rparr>, na_close net (sub_master_sock ctx) e1)
          else lookup_loop net (int s) [] False ctx e1)"

fun lookup_slots :: "'e net_api \<Rightarrow> nat list \<Rightarrow> 'cb sub_ctx \<Rightarrow> 'e \<Rightarrow> ('cb sub_ctx \<times> 'e) option" where
  "lookup_slots net [] ctx e = Some (ctx, e)"
| "lookup_slots net (s # ss) ctx e =
     (case ctx_lookup_slot net s ctx e of None \<Rightarrow> None | Some (_, ctx1, e1) \<Rightarrow> lookup_slots net ss ctx1 e1)"

definition ctx_reconnect_all_pubs :: "'e net_api \<Rightarrow> 'cb sub_ctx \<Rightarrow> 'e \<Rightarrow> ('cb sub_ctx \<times> 'e) option" where
  "ctx_reconnect_all_pubs net ctx e =
     (if sub_master_sock ctx < 0
      then (case ctx_reconnect_master net ctx e of
              (rc, ctx1, e1) \<Rightarrow>
                if rc \<noteq> 0 then Some (ctx1, e1) else lookup_slots net [0..<length (sub_slots ctx1)] ctx1 e1)
      else lookup_slots net [0..<length (sub_slots ctx)] ctx e)"

section \<open>The subscriber's interface\<close>

definition cmos_sub_create :: "'e net_api \<Rightarrow> string \<Rightarrow> int \<Rightarrow> string \<Rightarrow> 'e \<Rightarrow> 'cb sub_ctx option \<times> 'e" where
  "cmos_sub_create net master_ip master_port node_name e =
     (case na_epoll_create net e of
        (ep, e1) \<Rightarrow>
          if ep < 0 then (None, e1)
          else
            (case connect_tcp net master_ip master_port e1 of
               (ms, e2) \<Rightarrow>
                 if ms < 0 then (None, na_close net ep e2)
                 else
                   (case send_line net ms (node_line node_name) e2 of
                      (ok, e3) \<Rightarrow>
                        if \<not> ok then (None, na_close net ep (na_close net ms e3))
                        else
                          (Some (ctx_init_conns
                             \<lparr>sub_master_sock = ms, sub_master_ip = take 63 master_ip, sub_master_port = master_port,
                              sub_node_name = take 63 node_name, sub_slots = [], pub_conns = [], pub_count = 0,
                              sub_epfd = ep\<rparr>), e3))))"

definition filter_of :: "string option \<Rightarrow> string" where
  "filter_of f = (case f of None \<Rightarrow> [] | Some s \<Rightarrow> take 63 s)"

text \<open>The result of the registration's send is not looked at.\<close>

definition cmos_sub_add ::
  "'e net_api \<Rightarrow> string \<Rightarrow> string option \<Rightarrow> string option \<Rightarrow> string option \<Rightarrow> 'cb option \<Rightarrow> 'cb sub_ctx \<Rightarrow> 'e \<Rightarrow>
     (int \<times> 'cb sub_ctx \<times> 'e) option" where
  "cmos_sub_add net topic fstate ftype fkey cb ctx e =
     (if CM_MAX_SUB_SLOTS \<le> length (sub_slots ctx) then Some (-1, ctx, e)
      else
        let ctx1 = ctx\<lparr>sub_slots := sub_slots ctx @ [\<lparr>sl_topic = take 63 topic, filter_state = filter_of fstate,
                         filter_type = filter_of ftype, filter_key = filter_of fkey, sl_cb = cb\<rparr>]\<rparr>
        in case send_line net (sub_master_sock ctx1) (register_sub_line topic) e of
             (_, e1) \<Rightarrow>
               (case ctx_lookup_slot net (length (sub_slots ctx)) ctx1 e1 of
                  None \<Rightarrow> None
                | Some (_, ctx2, e2) \<Rightarrow> Some (0, ctx2, e2)))"

text \<open>One readable connection.\<close>

definition receive_event ::
  "'e net_api \<Rightarrow> nat \<Rightarrow> 'cb sub_ctx \<Rightarrow> 'e \<Rightarrow> ('cb \<times> string \<times> string) list \<times> 'cb sub_ctx \<times> 'e" where
  "receive_event net i ctx e =
     (if CM_MAX_PUB_CONN \<le> i then ([], ctx, e)
      else
        let c = pub_conns ctx ! i
        in if \<not> conn_active c \<or> conn_sock c < 0 then ([], ctx, e)
           else
             (case na_recv net (conn_sock c) (CM_RX_BUF - 1 - length (conn_rx c)) e of
                (None, e1) \<Rightarrow> (case ctx_close_conn net i ctx e1 of (ctx1, e2) \<Rightarrow> ([], ctx1, e2))
              | (Some b, e1) \<Rightarrow>
                  (case rx_feed (conn_rx c) b of
                     (ls, rx) \<Rightarrow>
                       (List.map_filter (ctx_handle_line (sub_slots ctx) (conn_slot c)) ls,
                        ctx\<lparr>pub_conns := (pub_conns ctx)[i := c\<lparr>conn_rx := rx\<rparr>]\<rparr>, e1))))"

fun receive_events ::
  "'e net_api \<Rightarrow> nat list \<Rightarrow> 'cb sub_ctx \<Rightarrow> 'e \<Rightarrow> ('cb \<times> string \<times> string) list \<times> 'cb sub_ctx \<times> 'e" where
  "receive_events net [] ctx e = ([], ctx, e)"
| "receive_events net (i # is) ctx e =
     (case receive_event net i ctx e of
        (calls, ctx1, e1) \<Rightarrow> (case receive_events net is ctx1 e1 of (calls2, ctx2, e2) \<Rightarrow> (calls @ calls2, ctx2, e2)))"

text \<open>The look-ups that are due every 500 ms.\<close>

definition refresh :: "'e net_api \<Rightarrow> bool \<Rightarrow> 'cb sub_ctx \<Rightarrow> 'e \<Rightarrow> ('cb sub_ctx \<times> 'e) option" where
  "refresh net due ctx e =
     (if \<not> due then Some (ctx, e)
      else
        (case (if sub_master_sock ctx < 0 then snd (ctx_reconnect_master net ctx e) else (ctx, e)) of
           (ctx1, e1) \<Rightarrow>
             if 0 \<le> sub_master_sock ctx1 then lookup_slots net [0..<length (sub_slots ctx1)] ctx1 e1
             else Some (ctx1, e1)))"

text \<open>One turn of \<^verbatim>\<open>cmos_sub_spin_ctx\<close>: whether 500 ms have passed, and the connections that
  \<^verbatim>\<open>epoll_wait\<close> reports.\<close>

definition spin_turn ::
  "'e net_api \<Rightarrow> bool \<Rightarrow> nat list \<Rightarrow> 'cb sub_ctx \<Rightarrow> 'e \<Rightarrow>
     (('cb \<times> string \<times> string) list \<times> 'cb sub_ctx \<times> 'e) option" where
  "spin_turn net due events ctx e =
     (case (if ctx_active_count ctx = 0 then ctx_reconnect_all_pubs net ctx e else Some (ctx, e)) of
        None \<Rightarrow> None
      | Some (ctx1, e1) \<Rightarrow>
          if ctx_active_count ctx1 = 0
          then map_option (\<lambda>(ctx2, e2). ([], ctx2, e2)) (ctx_reconnect_all_pubs net ctx1 e1)
          else map_option (\<lambda>(ctx2, e2). receive_events net events ctx2 e2) (refresh net due ctx1 e1))"

definition cmos_sub_destroy :: "'e net_api \<Rightarrow> 'cb sub_ctx \<Rightarrow> 'e \<Rightarrow> 'e" where
  "cmos_sub_destroy net ctx e =
     (case ctx_close_all_conns net ctx e of
        (ctx1, e1) \<Rightarrow>
          let e2 = (if 0 \<le> sub_master_sock ctx1 then na_close net (sub_master_sock ctx1) e1 else e1)
          in if 0 \<le> sub_epfd ctx1 then na_close net (sub_epfd ctx1) e2 else e2)"

end
