(* ===== verification/Cmos_Delivery.thy ===== *)
theory Cmos_Delivery
  imports Cmos_Pub Cmos_Sub Inverter_Bridge "HOL-Library.Sublist"
begin

text \<open>
  From a publisher to a subscriber's callback: a published message is one line, the lines arrive
  as a stream of bytes cut anywhere, and each line that a slot's filters let through becomes one
  call with the message's value.
\<close>

section \<open>Lines in a stream\<close>

text \<open>A line as \<^verbatim>\<open>cmos_publish\<close> makes it: one newline, at its end, no NUL, and short enough for the
  line buffer.\<close>

definition whole_line :: "string \<Rightarrow> bool" where
  "whole_line l \<longleftrightarrow> l \<noteq> [] \<and> last l = CHR 0x0A \<and> CHR 0x0A \<notin> set (butlast l) \<and> CHR 0x00 \<notin> set l \<and> length l < CM_LINE_BUF"

lemma line_of_whole: "whole_line l \<Longrightarrow> line_of l = l"
  by (auto simp: whole_line_def line_of_def c_str_def takeWhile_eq_all_conv)

lemma whole_line_split: "whole_line l \<Longrightarrow> \<exists>b. l = b @ [CHR 0x0A] \<and> CHR 0x0A \<notin> set b"
  by (metis append_butlast_last_id whole_line_def)

text \<open>Cutting a part of a stream of lines gives its first lines and the beginning of the next.\<close>

lemma cut_lines_stream:
  assumes "cut_lines cur x = (ls1, r)" and "CHR 0x0A \<notin> set cur" and "cur @ x @ y = concat ls" and "list_all whole_line ls"
  shows "\<exists>ls2. ls = ls1 @ ls2 \<and> r @ y = concat ls2 \<and> CHR 0x0A \<notin> set r"
  using assms
proof (induction cur x arbitrary: ls ls1 r rule: cut_lines.induct)
  case (2 cur c cs)
  show ?case
  proof (cases "c = CHR 0x0A")
    case False
    with "2.IH"(1) [OF False, of ls1 r ls] "2.prems" show ?thesis by simp
  next
    case True
    obtain ls1' where rec: "cut_lines [] cs = (ls1', r)" and ls1: "ls1 = (cur @ [c]) # ls1'"
      using "2.prems"(1) True by (auto split: prod.splits)
    obtain l ls' where ls: "ls = l # ls'" using "2.prems"(3) by (cases ls) auto
    obtain b where b: "l = b @ [CHR 0x0A]" "CHR 0x0A \<notin> set b"
      using whole_line_split "2.prems"(4) by (auto simp: ls)
    have "cur @ CHR 0x0A # cs @ y = b @ CHR 0x0A # concat ls'" using "2.prems"(3) True by (simp add: ls b)
    from char_split_unique [OF this "2.prems"(2) b(2)] have e: "cur = b" "cs @ y = concat ls'" by blast+
    have "\<not> c \<noteq> CHR 0x0A" using True by simp
    from "2.IH"(2) [OF this rec, of ls'] e "2.prems"(4) ls
    obtain ls2 where "ls' = ls1' @ ls2" "r @ y = concat ls2" "CHR 0x0A \<notin> set r" by auto
    with ls ls1 b e True show ?thesis by simp
  qed
qed simp

lemma stream_rest_short:
  assumes "r @ y = concat ls" and "list_all whole_line ls" and "CHR 0x0A \<notin> set r"
  shows "length r < CM_LINE_BUF"
proof (cases ls)
  case Nil
  with assms(1) show ?thesis by simp
next
  case (Cons l ls')
  obtain b where b: "l = b @ [CHR 0x0A]" "CHR 0x0A \<notin> set b" using whole_line_split assms(2) by (auto simp: Cons)
  have "length r \<le> length l"
  proof (rule ccontr)
    assume "\<not> length r \<le> length l"
    moreover from assms(1) have "r @ y = l @ concat ls'" by (simp add: Cons)
    ultimately have "take (length l) r = l"
      by (metis append_eq_append_conv_if append_eq_conv_conj nat_le_linear)
    then have "set l \<subseteq> set r" by (metis set_take_subset)
    with assms(3) b(1) show False by simp
  qed
  also have "length l < CM_LINE_BUF" using assms(2) by (simp add: Cons whole_line_def)
  finally show ?thesis .
qed

text \<open>So one receive handles the lines that are complete and keeps the rest.\<close>

lemma rx_feed_stream:
  assumes "CHR 0x0A \<notin> set buf" and "buf @ b @ y = concat ls" and "list_all whole_line ls"
  obtains ls1 r ls2 where "rx_feed buf b = (ls1, r)" and "ls = ls1 @ ls2" and "r @ y = concat ls2"
    and "CHR 0x0A \<notin> set r" and "length r < CM_LINE_BUF"
proof -
  obtain ls1 r where c: "cut_lines [] (buf @ b) = (ls1, r)" by fastforce
  from cut_lines_stream [OF this, of y ls] assms obtain ls2
    where l: "ls = ls1 @ ls2" "r @ y = concat ls2" "CHR 0x0A \<notin> set r" by auto
  have s: "length r < CM_LINE_BUF" using stream_rest_short [OF l(2) _ l(3)] assms(3) l(1) by simp
  have "map line_of ls1 = ls1" using assms(3) l(1) by (simp add: list_all_iff map_idI line_of_whole)
  then have "rx_feed buf b = (ls1, r)" using c s by (simp add: rx_feed_def)
  with l s that show ?thesis by blast
qed

section \<open>Receiving a stream\<close>

text \<open>What the subscriber relies on: a receive on a connected socket takes a non-empty part of at
  most the given length from the front of the bytes that wait, and fails when none does and the
  peer has closed.\<close>

definition byte_source :: "'e net_api \<Rightarrow> int \<Rightarrow> ('e \<Rightarrow> string) \<Rightarrow> bool" where
  "byte_source net fd pending \<longleftrightarrow>
     (\<forall>n e. 0 < n \<longrightarrow>
        (case na_recv net fd n e of
           (None, e1) \<Rightarrow> pending e = []
         | (Some b, e1) \<Rightarrow> b \<noteq> [] \<and> length b \<le> n \<and> pending e = b @ pending e1))"

lemma byte_source_recv:
  assumes "byte_source net fd pending" and "0 < n"
  shows "case na_recv net fd n e of (None, e1) \<Rightarrow> pending e = []
      | (Some b, e1) \<Rightarrow> b \<noteq> [] \<and> length b \<le> n \<and> pending e = b @ pending e1"
  using assms(1) unfolding byte_source_def by (elim allE impE) (rule assms(2))

lemma byte_source_None: "byte_source net fd pending \<Longrightarrow> 0 < n \<Longrightarrow> na_recv net fd n e = (None, e1) \<Longrightarrow> pending e = []"
  using byte_source_recv [of net fd pending n e] by simp

lemma byte_source_Some:
  "byte_source net fd pending \<Longrightarrow> 0 < n \<Longrightarrow> na_recv net fd n e = (Some b, e1) \<Longrightarrow>
     b \<noteq> [] \<and> length b \<le> n \<and> pending e = b @ pending e1"
  using byte_source_recv [of net fd pending n e] by simp

lemma map_filter_append: "List.map_filter f (xs @ ys) = List.map_filter f xs @ List.map_filter f ys"
  by (simp add: List.map_filter_def)

lemma inactive_no_calls:
  "i < CM_MAX_PUB_CONN \<Longrightarrow> \<not> conn_active (pub_conns ctx ! i) \<Longrightarrow>
     fst (receive_events net (replicate n i) ctx e) = []"
  by (induction n) (simp_all add: receive_event_def case_prod_unfold)

lemma events_handle_lines:
  assumes "byte_source net fd pending" and "i < CM_MAX_PUB_CONN" and "0 \<le> fd"
    and "length (pub_conns ctx) = CM_MAX_PUB_CONN"
    and "conn_active (pub_conns ctx ! i)" and "conn_sock (pub_conns ctx ! i) = fd" and "conn_slot (pub_conns ctx ! i) = k"
    and "CHR 0x0A \<notin> set (conn_rx (pub_conns ctx ! i))" and "length (conn_rx (pub_conns ctx ! i)) < CM_LINE_BUF"
    and "conn_rx (pub_conns ctx ! i) @ pending e = concat ls" and "list_all whole_line ls" and "length (pending e) \<le> n"
  shows "fst (receive_events net (replicate n i) ctx e) = List.map_filter (ctx_handle_line (sub_slots ctx) k) ls"
  using assms(4-)
proof (induction n arbitrary: ctx e ls)
  case 0
  show ?case
  proof (cases ls)
    case Nil
    then show ?thesis by simp
  next
    case (Cons l ls')
    with 0 whole_line_split [of l] show ?thesis by auto
  qed
next
  case (Suc n)
  let ?c = "pub_conns ctx ! i" and ?m = "CM_RX_BUF - 1 - length (conn_rx (pub_conns ctx ! i))"
  have m: "0 < ?m" using Suc.prems(6) by simp
  show ?case
  proof (cases "na_recv net fd ?m e")
    case (Pair r e1)
    show ?thesis
    proof (cases r)
      case None
      with byte_source_None [OF assms(1) m] Pair have p: "pending e = []" by simp
      have l: "ls = []"
      proof (cases ls)
        case (Cons l ls')
        with Suc.prems(5,7,8) p whole_line_split [of l] show ?thesis by auto
      qed simp
      obtain ctx1 e2 where cl: "ctx_close_conn net i ctx e1 = (ctx1, e2)" by fastforce
      then have "\<not> conn_active (pub_conns ctx1 ! i)"
        using Suc.prems(1) assms(2) by (auto simp: ctx_close_conn_def closed_conn_def Let_def)
      from inactive_no_calls [OF assms(2) this, of net n e2] show ?thesis
        using assms(2,3) Suc.prems(2,3) Pair None cl
        by (simp add: receive_event_def Let_def l List.map_filter_def case_prod_unfold)
    next
      case (Some b)
      with byte_source_Some [OF assms(1) m] Pair have b: "b \<noteq> []" "pending e = b @ pending e1" by simp_all
      have s: "conn_rx ?c @ b @ pending e1 = concat ls" using Suc.prems(7) b(2) by simp
      obtain ls1 rx ls2
        where f: "rx_feed (conn_rx ?c) b = (ls1, rx)" "ls = ls1 @ ls2" "rx @ pending e1 = concat ls2"
          "CHR 0x0A \<notin> set rx" "length rx < CM_LINE_BUF"
        by (rule rx_feed_stream [OF Suc.prems(5) s Suc.prems(8)])
      define ctx1 where "ctx1 = ctx\<lparr>pub_conns := (pub_conns ctx)[i := ?c\<lparr>conn_rx := rx\<rparr>]\<rparr>"
      have e: "receive_event net i ctx e = (List.map_filter (ctx_handle_line (sub_slots ctx) k) ls1, ctx1, e1)"
        using assms(2,3) Suc.prems(2-4) Pair Some f(1) by (simp add: receive_event_def Let_def ctx1_def)
      have n: "length (pending e1) \<le> n" using Suc.prems(9) b by (cases b) auto
      have "fst (receive_events net (replicate n i) ctx1 e1) = List.map_filter (ctx_handle_line (sub_slots ctx1) k) ls2"
        by (rule Suc.IH) (use f Suc.prems assms(2) n in \<open>auto simp: ctx1_def\<close>)
      then show ?thesis by (simp add: e f(2) map_filter_append case_prod_unfold ctx1_def)
    qed
  qed
qed

section \<open>One message\<close>

text \<open>The messages whose fields survive the text format: at least one of state, type and key, no
  blank, line end or NUL in any of them, and no truncation.\<close>

fun sendable :: "pub_msg \<Rightarrow> bool" where
  "sendable (st, ty, key, v) \<longleftrightarrow> (st \<noteq> None \<or> ty \<noteq> None \<or> key \<noteq> None) \<and>
     list_all plain (message_words st ty key v) \<and> length (join_words (message_words st ty key v)) \<le> PUB_DATA_CAP"

definition topic_ok :: "string \<Rightarrow> bool" where
  "topic_ok topic \<longleftrightarrow> plain topic \<and> topic \<noteq> [] \<and> length topic \<le> 63"

text \<open>What a subscription promises: a call with the value when every filter matches, with all the
  fields when there is no filter on the key.\<close>

fun delivered :: "'cb sub_slot \<Rightarrow> string \<Rightarrow> pub_msg \<Rightarrow> ('cb \<times> string \<times> string) option" where
  "delivered slot topic (st, ty, key, v) =
     (case sl_cb slot of
        None \<Rightarrow> None
      | Some cb \<Rightarrow>
          if topic = sl_topic slot \<and> (filter_state slot = [] \<or> st = Some (filter_state slot)) \<and>
            (filter_type slot = [] \<or> ty = Some (filter_type slot)) \<and> (filter_key slot = [] \<or> key = Some (filter_key slot))
          then Some (cb, topic, if filter_key slot = [] then join_words (message_words st ty key v)
                                else (case v of None \<Rightarrow> [] | Some s \<Rightarrow> s))
          else None)"

lemma read_message_words:
  "fold read_word (message_words st ty key v) no_fields = \<lparr>p_state = st, p_type = ty, p_key = key, p_value = v\<rparr>"
  by (cases st; cases ty; cases key; cases v) (simp_all add: message_words_def read_word_def no_fields_def)

lemma message_words_nonempty: "[] \<notin> set (message_words st ty key v)"
  by (auto simp: message_words_def split: option.splits)

lemma slot_receive_message:
  assumes "sendable (st, ty, key, v)" and "topic = sl_topic slot"
  shows "slot_receive slot topic (join_words (message_words st ty key v)) = delivered slot topic (st, ty, key, v)"
proof -
  let ?ws = "message_words st ty key v"
  have t: "take 1023 (join_words ?ws) = join_words ?ws" using assms(1) by (simp add: PUB_DATA_CAP_def)
  have w: "tokens_of [CHR '' ''] (join_words ?ws) = ?ws"
    using assms(1) message_words_nonempty [of st ty key v] by (intro tokens_of_join) (auto simp: list_all_iff)
  show ?thesis
    unfolding slot_receive_def Let_def t w read_message_words delivered.simps filtered_def assms(2)
    by (cases "sl_cb slot") simp_all
qed

text \<open>The line of a message and the strings it is taken apart into.\<close>

lemma publish_line_parts:
  assumes "topic_ok topic" and "\<forall>c\<in>set data. c \<notin> set line_ends" and "data \<noteq> []" and "length data \<le> PUB_DATA_CAP"
  shows "next_token blank_ends (publish_line topic data) = Some (''MSG'', topic @ CHR '' '' # data @ [CHR 0x0A])"
    and "next_token blank_ends (topic @ CHR '' '' # data @ [CHR 0x0A]) = Some (topic, data @ [CHR 0x0A])"
    and "next_token line_ends (data @ [CHR 0x0A]) = Some (data, [])"
proof -
  have "publish_line topic data = ''MSG'' @ CHR '' '' # (topic @ CHR '' '' # data @ [CHR 0x0A])"
    using assms(1,4) by (simp add: publish_line_whole topic_ok_def)
  moreover have "next_token blank_ends (''MSG'' @ CHR '' '' # (topic @ CHR '' '' # data @ [CHR 0x0A])) =
      Some (''MSG'', topic @ CHR '' '' # data @ [CHR 0x0A])"
    by (rule next_token_word) simp_all
  ultimately show "next_token blank_ends (publish_line topic data) = Some (''MSG'', topic @ CHR '' '' # data @ [CHR 0x0A])"
    by simp
  show "next_token blank_ends (topic @ CHR '' '' # data @ [CHR 0x0A]) = Some (topic, data @ [CHR 0x0A])"
    using assms(1) by (intro next_token_word) (simp_all add: topic_ok_def plain_def)
  show "next_token line_ends (data @ [CHR 0x0A]) = Some (data, [])"
    using assms(2,3) by (intro next_token_word) simp_all
qed

lemma message_data:
  assumes "sendable (st, ty, key, v)"
  shows "publish_data st ty key v = Some (join_words (message_words st ty key v))"
    and "join_words (message_words st ty key v) \<noteq> []"
    and "\<forall>c\<in>set (join_words (message_words st ty key v)). c \<notin> set line_ends \<and> c \<noteq> CHR 0x00"
    and "length (join_words (message_words st ty key v)) \<le> PUB_DATA_CAP"
proof -
  show "publish_data st ty key v = Some (join_words (message_words st ty key v))"
    using assms by (intro publish_data_words) simp_all
  have "message_words st ty key v \<noteq> []" using assms by (auto simp: message_words_def)
  then show "join_words (message_words st ty key v) \<noteq> []" using message_words_nonempty by (rule join_words_nonempty)
  show "\<forall>c\<in>set (join_words (message_words st ty key v)). c \<notin> set line_ends \<and> c \<noteq> CHR 0x00"
    using assms by (auto dest!: join_words_chars simp: list_all_iff plain_def)
  show "length (join_words (message_words st ty key v)) \<le> PUB_DATA_CAP" using assms by simp
qed

lemma handle_published:
  assumes "topic_ok topic" and "sendable m" and "k < length slots"
  shows "ctx_handle_line slots (int k) (case m of (st, ty, key, v) \<Rightarrow> publish_line topic (join_words (message_words st ty key v))) =
    delivered (slots ! k) topic m"
proof -
  obtain st ty key v where m: "m = (st, ty, key, v)" by (cases m)
  let ?d = "join_words (message_words st ty key v)"
  note d = message_data [OF assms(2) [unfolded m]]
  have l: "\<forall>c\<in>set ?d. c \<notin> set line_ends" using d(3) by blast
  have k: "\<not> (int k < 0 \<or> int (length slots) \<le> int k)" using assms(3) by simp
  note p = publish_line_parts [OF assms(1) l d(2,4)]
  show ?thesis
  proof (cases "topic = sl_topic (slots ! k)")
    case True
    with slot_receive_message [OF assms(2) [unfolded m] True] show ?thesis
      unfolding m prod.case ctx_handle_line_def p option.case if_not_P [OF k] by simp
  next
    case False
    then show ?thesis
      unfolding m prod.case ctx_handle_line_def p option.case if_not_P [OF k] by (simp split: option.split)
  qed
qed

definition message_line :: "string \<Rightarrow> pub_msg \<Rightarrow> string" where
  "message_line topic m = (case m of (st, ty, key, v) \<Rightarrow> publish_line topic (join_words (message_words st ty key v)))"

lemma message_line_whole:
  assumes "topic_ok topic" and "sendable m"
  shows "whole_line (message_line topic m)"
proof -
  obtain st ty key v where m: "m = (st, ty, key, v)" by (cases m)
  note d = message_data [OF assms(2) [unfolded m]]
  have l: "message_line topic m = (''MSG '' @ topic @ '' '' @ join_words (message_words st ty key v)) @ [CHR 0x0A]"
    using publish_line_whole [of topic "join_words (message_words st ty key v)"] assms(1) d(4)
    by (simp add: message_line_def m topic_ok_def)
  have "\<forall>c\<in>set topic. c \<noteq> CHR 0x0A \<and> c \<noteq> CHR 0x00" using assms(1) by (simp add: topic_ok_def plain_def)
  then have b: "\<forall>c\<in>set (''MSG '' @ topic @ '' '' @ join_words (message_words st ty key v)). c \<noteq> CHR 0x0A \<and> c \<noteq> CHR 0x00"
    unfolding set_append ball_Un using d(3) by simp
  have "length topic \<le> 63" using assms(1) by (simp add: topic_ok_def)
  with d(4) have "length (message_line topic m) < CM_LINE_BUF" by (simp add: l PUB_DATA_CAP_def)
  moreover have "CHR 0x0A \<notin> set (''MSG '' @ topic @ '' '' @ join_words (message_words st ty key v))"
    "CHR 0x00 \<notin> set (''MSG '' @ topic @ '' '' @ join_words (message_words st ty key v))"
    using b by blast+
  ultimately show ?thesis unfolding whole_line_def l butlast_snoc last_snoc set_append by simp
qed

section \<open>From publisher to callback\<close>

text \<open>A socket interface on which every send takes the whole text; \<open>sent\<close> is what was sent on each
  descriptor so far.\<close>

definition takes_all :: "'e net_api \<Rightarrow> ('e \<Rightarrow> int \<Rightarrow> string) \<Rightarrow> bool" where
  "takes_all net sent \<longleftrightarrow>
     (\<forall>fd s e. fst (na_send net fd s e) = Sent (length s) \<and> sent (snd (na_send net fd s e)) = (sent e)(fd := sent e fd @ s))"

lemma send_to_all_takes:
  assumes t: "takes_all net sent"
  shows "distinct ss \<Longrightarrow> fst (send_to_all net line ss e) = ss \<and>
    sent (snd (send_to_all net line ss e)) = (\<lambda>fd. if fd \<in> set ss then sent e fd @ line else sent e fd)"
proof (induction ss arbitrary: e)
  case (Cons s ss)
  obtain r e1 where s: "na_send net s line e = (r, e1)" by fastforce
  have r: "r = Sent (length line)" "sent e1 = (sent e)(s := sent e s @ line)"
    using t s unfolding takes_all_def by (metis fst_conv, metis snd_conv)
  from Cons.IH [of e1] Cons.prems r show ?case by (auto simp: s case_prod_unfold)
qed simp

lemma batch_sent:
  assumes "takes_all net sent" and "topic_ok (pub_topic p)" and "distinct (sub_socks p)" and "list_all sendable msgs"
  shows "\<exists>e1. cmos_publish_batch net msgs p e = Some (p, e1) \<and>
    (\<forall>fd\<in>set (sub_socks p). sent e1 fd = sent e fd @ concat (map (message_line (pub_topic p)) msgs))"
  using assms(4)
proof (induction msgs arbitrary: e)
  case (Cons m msgs)
  obtain st ty key v where m: "m = (st, ty, key, v)" by (cases m)
  have "sendable (st, ty, key, v)" using Cons.prems by (simp add: m)
  note d = message_data(1) [OF this]
  obtain kept e1 where s: "send_to_all net (message_line (pub_topic p) m) (sub_socks p) e = (kept, e1)" by fastforce
  with send_to_all_takes [OF assms(1,3), of "message_line (pub_topic p) m" e]
  have k: "kept = sub_socks p" "\<forall>fd\<in>set (sub_socks p). sent e1 fd = sent e fd @ message_line (pub_topic p) m" by auto
  have "cmos_publish net st ty key v p e = Some (p, e1)"
    using s k(1) by (simp add: cmos_publish_def d m message_line_def)
  with Cons.IH [of e1] Cons.prems k(2) show ?case by (auto simp: m)
qed simp

lemma map_filter_published:
  assumes "topic_ok topic" and "list_all sendable msgs" and "k < length slots"
  shows "List.map_filter (ctx_handle_line slots (int k)) (map (message_line topic) msgs) =
    List.map_filter (delivered (slots ! k) topic) msgs"
  using assms(2)
proof (induction msgs)
  case (Cons m msgs)
  have "ctx_handle_line slots (int k) (message_line topic m) = delivered (slots ! k) topic m"
    using handle_published [OF assms(1) _ assms(3), of m] Cons.prems by (simp add: message_line_def case_prod_unfold)
  with Cons show ?case by (cases "delivered (slots ! k) topic m") simp_all
qed simp

text \<open>What comes of reading a stream of messages to its end.\<close>

lemma lines_delivered:
  assumes "topic_ok topic" and "list_all sendable msgs"
    and "byte_source net2 fd2 pending" and "pending e2 = concat (map (message_line topic) msgs)"
    and "length (pub_conns ctx) = 256" and "i < 256" and "k < length (sub_slots ctx)" and "0 \<le> fd2"
    and "pub_conns ctx ! i = \<lparr>conn_sock = fd2, conn_node = node, conn_rx = [], conn_active = True, conn_slot = int k\<rparr>"
    and "length (pending e2) \<le> n"
  shows "fst (receive_events net2 (replicate n i) ctx e2) = List.map_filter (delivered (sub_slots ctx ! k) topic) msgs"
proof -
  have w: "list_all whole_line (map (message_line topic) msgs)"
    using assms(2) message_line_whole [OF assms(1)] by (simp add: list_all_iff)
  have "fst (receive_events net2 (replicate n i) ctx e2) =
      List.map_filter (ctx_handle_line (sub_slots ctx) (int k)) (map (message_line topic) msgs)"
    by (rule events_handle_lines [OF assms(3,6,8,5)]) (use assms(10) in \<open>simp_all add: assms(4,9) w\<close>)
  then show ?thesis by (simp add: map_filter_published [OF assms(1,2,7)])
qed

lemma stream_delivered:
  assumes "takes_all net sent" and "topic_ok (pub_topic p)" and "distinct (sub_socks p)" and "list_all sendable msgs"
    and "cmos_publish_batch net msgs p e = Some (p1, e1)" and "fd1 \<in> set (sub_socks p)" and "sent e fd1 = []"
    and "byte_source net2 fd2 pending" and "pending e2 = sent e1 fd1"
    and "length (pub_conns ctx) = 256" and "i < 256" and "k < length (sub_slots ctx)" and "0 \<le> fd2"
    and "pub_conns ctx ! i = \<lparr>conn_sock = fd2, conn_node = node, conn_rx = [], conn_active = True, conn_slot = int k\<rparr>"
    and "length (pending e2) \<le> n"
  shows "fst (receive_events net2 (replicate n i) ctx e2) = List.map_filter (delivered (sub_slots ctx ! k) (pub_topic p)) msgs"
proof -
  from batch_sent [OF assms(1-4), of e] assms(5-7)
  have "sent e1 fd1 = concat (map (message_line (pub_topic p)) msgs)" by auto
  with assms(9) have "pending e2 = concat (map (message_line (pub_topic p)) msgs)" by simp
  from lines_delivered [OF assms(2,4,8) this assms(10-15)] show ?thesis .
qed

section \<open>Sockets that drop\<close>

text \<open>A send on a non-blocking socket takes the whole line, or nothing when the buffer is full
  (\<^verbatim>\<open>EAGAIN\<close>) or the connection is lost. A send that takes a part of a line is left out: there
  \<^verbatim>\<open>cmos_publish\<close> loses the rest.\<close>

definition drops_whole :: "'e net_api \<Rightarrow> ('e \<Rightarrow> int \<Rightarrow> string) \<Rightarrow> bool" where
  "drops_whole net sent \<longleftrightarrow>
     (\<forall>fd s e. (case na_send net fd s e of
          (Sent n, e') \<Rightarrow> n = length s \<and> sent e' = (sent e)(fd := sent e fd @ s)
        | (_, e') \<Rightarrow> sent e' = sent e) \<and>
        sent (na_close net fd e) = sent e)"

text \<open>The messages whose line the socket took.\<close>

fun taken :: "'e net_api \<Rightarrow> ('e \<Rightarrow> int \<Rightarrow> string) \<Rightarrow> int \<Rightarrow> pub_msg list \<Rightarrow> publisher \<Rightarrow> 'e \<Rightarrow> pub_msg list" where
  "taken net sent fd [] p e = []"
| "taken net sent fd ((st, ty, key, v) # ms) p e =
     (case cmos_publish net st ty key v p e of
        None \<Rightarrow> []
      | Some (p1, e1) \<Rightarrow> (if sent e1 fd = sent e fd then [] else [(st, ty, key, v)]) @ taken net sent fd ms p1 e1)"

lemma drops_whole_send:
  assumes "drops_whole net sent" and "na_send net fd s e = (r, e')"
  shows "sent e' = (if r = Send_failed \<or> r = Would_block then sent e else (sent e)(fd := sent e fd @ s))"
proof -
  have "case na_send net fd s e of (Sent n, e') \<Rightarrow> n = length s \<and> sent e' = (sent e)(fd := sent e fd @ s) | (_, e') \<Rightarrow> sent e' = sent e"
    using assms(1) unfolding drops_whole_def by (elim allE conjE)
  with assms(2) show ?thesis by (cases r) simp_all
qed

lemma drops_whole_close: "drops_whole net sent \<Longrightarrow> sent (na_close net fd e) = sent e"
  unfolding drops_whole_def by blast

lemma send_to_all_drops:
  assumes t: "drops_whole net sent"
  shows "distinct ss \<Longrightarrow> set (fst (send_to_all net line ss e)) \<subseteq> set ss \<and> distinct (fst (send_to_all net line ss e)) \<and>
    (\<forall>fd. sent (snd (send_to_all net line ss e)) fd = sent e fd \<or>
       fd \<in> set ss \<and> sent (snd (send_to_all net line ss e)) fd = sent e fd @ line)"
proof (induction ss arbitrary: e)
  case (Cons s ss)
  obtain r e1 where s: "na_send net s line e = (r, e1)" by fastforce
  note r = drops_whole_send [OF t s] and c = drops_whole_close [OF t, of s e1]
  have d: "distinct ss" "s \<notin> set ss" using Cons.prems by simp_all
  show ?case
  proof (cases r)
    case Send_failed
    with Cons.IH [OF d(1), of "na_close net s e1"] c r d(2) show ?thesis by (auto simp: s)
  next
    case (Sent n)
    have "sent (snd (send_to_all net line ss e1)) fd = sent e fd \<or>
        fd \<in> set (s # ss) \<and> sent (snd (send_to_all net line ss e1)) fd = sent e fd @ line" for fd
      using Cons.IH [OF d(1), of e1] r Sent d(2) by (cases "fd = s"; cases "fd \<in> set ss") (auto dest: spec [of _ fd])
    with Cons.IH [OF d(1), of e1] d(2) Sent show ?thesis by (auto simp: s case_prod_unfold)
  next
    case Would_block
    with Cons.IH [OF d(1), of e1] r d(2) show ?thesis by (auto simp: s case_prod_unfold)
  qed
qed simp

lemma batch_taken:
  assumes "drops_whole net sent" and "topic_ok topic"
  shows "list_all sendable msgs \<Longrightarrow> pub_topic p = topic \<Longrightarrow> distinct (sub_socks p) \<Longrightarrow>
    cmos_publish_batch net msgs p e = Some (p1, e1) \<Longrightarrow>
    sent e1 fd = sent e fd @ concat (map (message_line topic) (taken net sent fd msgs p e)) \<and> subseq (taken net sent fd msgs p e) msgs"
proof (induction msgs arbitrary: p e)
  case (Cons m msgs)
  obtain st ty key v where m: "m = (st, ty, key, v)" by (cases m)
  have "sendable (st, ty, key, v)" using Cons.prems by (simp add: m)
  note d = message_data(1) [OF this]
  obtain kept e2 where s: "send_to_all net (message_line topic m) (sub_socks p) e = (kept, e2)" by fastforce
  note k = send_to_all_drops [OF assms(1) Cons.prems(3), of "message_line topic m" e, unfolded s fst_conv snd_conv]
  have p: "cmos_publish net st ty key v p e = Some (p\<lparr>sub_socks := kept\<rparr>, e2)"
    using s Cons.prems(2) by (simp add: cmos_publish_def d m message_line_def)
  have "whole_line (message_line topic m)" using message_line_whole [OF assms(2), of m] Cons.prems(1) by simp
  then have l: "message_line topic m \<noteq> []" by (simp add: whole_line_def)
  have b: "cmos_publish_batch net msgs (p\<lparr>sub_socks := kept\<rparr>) e2 = Some (p1, e1)"
    using Cons.prems(4) by (simp add: m p)
  have "list_all sendable msgs" "pub_topic (p\<lparr>sub_socks := kept\<rparr>) = topic" "distinct (sub_socks (p\<lparr>sub_socks := kept\<rparr>))"
    using Cons.prems k by simp_all
  from Cons.IH [OF this b] k l show ?case by (auto simp: m p)
qed simp

lemma taken_all:
  assumes "takes_all net sent" and "topic_ok (pub_topic p)" and "distinct (sub_socks p)" and "fd \<in> set (sub_socks p)"
  shows "list_all sendable msgs \<Longrightarrow> taken net sent fd msgs p e = msgs"
proof (induction msgs arbitrary: e)
  case (Cons m msgs)
  obtain st ty key v where m: "m = (st, ty, key, v)" by (cases m)
  have "sendable (st, ty, key, v)" using Cons.prems by (simp add: m)
  note d = message_data(1) [OF this]
  let ?l = "message_line (pub_topic p) m"
  obtain kept e1 where s: "send_to_all net ?l (sub_socks p) e = (kept, e1)" by fastforce
  with send_to_all_takes [OF assms(1,3), of ?l e] assms(4) have k: "kept = sub_socks p" "sent e1 fd = sent e fd @ ?l" by auto
  have "whole_line ?l" using message_line_whole [OF assms(2), of m] Cons.prems(1) by simp
  then have "?l \<noteq> []" by (simp add: whole_line_def)
  moreover have "cmos_publish net st ty key v p e = Some (p, e1)"
    using s k(1) by (simp add: cmos_publish_def d m message_line_def)
  ultimately show ?case using Cons k(2) by (simp add: m)
qed simp

section \<open>The contract of a subscription\<close>

text \<open>What \<^verbatim>\<open>cmos.h\<close> promises: a call for each message that every filter matches, with the value when
  there is a filter and with the whole data when there is none. The code keeps the promise
  for the slots without filters and for those with a filter on the key.\<close>

fun promised :: "'cb sub_slot \<Rightarrow> string \<Rightarrow> pub_msg \<Rightarrow> ('cb \<times> string \<times> string) option" where
  "promised slot topic (st, ty, key, v) =
     (case sl_cb slot of
        None \<Rightarrow> None
      | Some cb \<Rightarrow>
          if topic = sl_topic slot \<and> (filter_state slot = [] \<or> st = Some (filter_state slot)) \<and>
            (filter_type slot = [] \<or> ty = Some (filter_type slot)) \<and> (filter_key slot = [] \<or> key = Some (filter_key slot))
          then Some (cb, topic, if filter_state slot = [] \<and> filter_type slot = [] \<and> filter_key slot = []
                                then join_words (message_words st ty key v)
                                else (case v of None \<Rightarrow> [] | Some s \<Rightarrow> s))
          else None)"

definition key_or_no_filter :: "'cb sub_slot \<Rightarrow> bool" where
  "key_or_no_filter slot \<longleftrightarrow> filter_key slot \<noteq> [] \<or> filter_state slot = [] \<and> filter_type slot = []"

lemma delivered_promised: "key_or_no_filter slot \<Longrightarrow> delivered slot topic = promised slot topic"
  by (rule ext) (auto simp: key_or_no_filter_def split: option.split)


text \<open>
  With a filter on the type and none on the key the callback gets the whole data, not the value.
\<close>

theorem type_filter_passes_data:
  assumes "topic_ok topic" and "sendable (st, Some ty, key, v)" and "k < length slots"
    and "slots ! k = \<lparr>sl_topic = topic, filter_state = [], filter_type = ty, filter_key = [], sl_cb = Some cb\<rparr>"
  shows "ctx_handle_line slots (int k) (message_line topic (st, Some ty, key, v)) =
    Some (cb, topic, join_words (message_words st (Some ty) key v))"
  using handle_published [OF assms(1-3)] by (simp add: message_line_def assms(4))

section \<open>A publisher and a subscriber\<close>

text \<open>A publisher's sockets as logs, and a subscriber's as bytes that arrive five at a time.\<close>

definition log_net :: "(int \<Rightarrow> string) net_api" where
  "log_net =
     \<lparr>na_socket = Pair 3, na_pton = (\<lambda>ip. True), na_connect = (\<lambda>fd ip port. Pair True), na_bind = (\<lambda>fd port. Pair True),
      na_listen = (\<lambda>fd. Pair True), na_accept = (\<lambda>fd. Pair 4), na_send = (\<lambda>fd s l. (Sent (length s), l(fd := l fd @ s))),
      na_recv = (\<lambda>fd n. Pair None), na_epoll_create = Pair 5, na_close = (\<lambda>fd l. l)\<rparr>"

definition piece_net :: "string net_api" where
  "piece_net =
     \<lparr>na_socket = Pair 3, na_pton = (\<lambda>ip. True), na_connect = (\<lambda>fd ip port. Pair True), na_bind = (\<lambda>fd port. Pair True),
      na_listen = (\<lambda>fd. Pair True), na_accept = (\<lambda>fd. Pair 4), na_send = (\<lambda>fd s. Pair (Sent (length s))),
      na_recv = (\<lambda>fd n s. if s = [] then (None, s) else (Some (take (min n 5) s), drop (min n 5) s)),
      na_epoll_create = Pair 5, na_close = (\<lambda>fd s. s)\<rparr>"

lemma log_net_takes: "takes_all log_net (\<lambda>l. l)"
  by (simp add: takes_all_def log_net_def)

lemma piece_net_source: "byte_source piece_net fd (\<lambda>s. s)"
  by (auto simp: byte_source_def piece_net_def)

definition demo_publisher :: publisher where
  "demo_publisher = \<lparr>master_sock = 3, listen_sock = 4, sub_socks = [7, 8], pub_topic = ''inverter'', pub_epfd = 5\<rparr>"

definition demo_subscriber :: "nat sub_ctx" where
  "demo_subscriber =
     \<lparr>sub_master_sock = 3, sub_master_ip = ''127.0.0.1'', sub_master_port = 10000, sub_node_name = ''hmi'',
      sub_slots = [\<lparr>sl_topic = ''inverter'', filter_state = ''alive'', filter_type = [], filter_key = ''duty_command'',
                     sl_cb = Some 42\<rparr>],
      pub_conns = \<lparr>conn_sock = 9, conn_node = ''inverter_node_pub'', conn_rx = [], conn_active = True, conn_slot = 0\<rparr> #
        replicate 255 closed_conn,
      pub_count = 1, sub_epfd = 5\<rparr>"

definition demo_messages :: "pub_msg list" where
  "demo_messages =
     [(Some ''alive'', None, Some ''duty_command'', Some ''53.00''), (Some ''alive'', None, Some ''output_duty'', Some ''50.00''),
      (Some ''disconnect'', None, Some ''duty_command'', Some ''0.00''), (Some ''alive'', None, Some ''duty_command'', Some ''54.10'')]"

lemma demo_messages_sendable: "list_all sendable demo_messages"
  by (simp add: demo_messages_def message_words_def PUB_DATA_CAP_def)

text \<open>A publisher's sockets whose second send meets a full buffer.\<close>

definition lossy_net :: "((int \<Rightarrow> string) \<times> nat) net_api" where
  "lossy_net =
     \<lparr>na_socket = Pair 3, na_pton = (\<lambda>ip. True), na_connect = (\<lambda>fd ip port. Pair True), na_bind = (\<lambda>fd port. Pair True),
      na_listen = (\<lambda>fd. Pair True), na_accept = (\<lambda>fd. Pair 4),
      na_send = (\<lambda>fd s (l, k). if k = 1 then (Would_block, l, k + 1) else (Sent (length s), l(fd := l fd @ s), k + 1)),
      na_recv = (\<lambda>fd n. Pair None), na_epoll_create = Pair 5, na_close = (\<lambda>fd l. l)\<rparr>"

lemma lossy_net_drops: "drops_whole lossy_net fst"
  by (auto simp: drops_whole_def lossy_net_def)

definition demo_lossy :: "(publisher \<times> (int \<Rightarrow> string) \<times> nat) option" where
  "demo_lossy = cmos_publish_batch lossy_net demo_messages demo_publisher (\<lambda>_. [], 0)"


end
