(* ===== verification/Cmos_Srv_Facts.thy ===== *)
theory Cmos_Srv_Facts
  imports Cmos_Srv Cmos_Delivery
begin

text \<open>
  Services: a request and its response survive the text format, a request that is too long is
  never answered, and neither side leaves a descriptor open.
\<close>

section \<open>Lines from a stream\<close>

lemma byte_source_one:
  assumes "byte_source net fd pending" and "pending e = c # cs"
  obtains e1 where "na_recv net fd 1 e = (Some [c], e1)" and "pending e1 = cs"
proof -
  obtain r e1 where r: "na_recv net fd 1 e = (r, e1)" by fastforce
  show ?thesis
  proof (cases r)
    case None
    with byte_source_None [OF assms(1) _ r [unfolded None]] assms(2) show ?thesis by simp
  next
    case (Some b)
    with byte_source_Some [OF assms(1) _ r [unfolded Some]] have b: "b \<noteq> [] \<and> length b \<le> 1 \<and> pending e = b @ pending e1" by simp
    then obtain d where "b = [d]" by (cases b) auto
    with b assms(2) that r Some show ?thesis by simp
  qed
qed

lemma byte_source_end:
  assumes "byte_source net fd pending" and "pending e = []"
  obtains e1 where "na_recv net fd 1 e = (None, e1)"
proof -
  obtain r e1 where r: "na_recv net fd 1 e = (r, e1)" by fastforce
  with byte_source_Some [OF assms(1), of 1 e _ e1] assms(2) have "r = None" by (cases r) auto
  with r that show ?thesis by simp
qed

lemma recv_line_loop_line:
  assumes s: "byte_source net fd pending"
  shows "pending e = b @ CHR 0x0A # rest \<Longrightarrow> CHR 0x0A \<notin> set b \<Longrightarrow> length b < n \<Longrightarrow>
    \<exists>e1. recv_line_loop net fd n buf e = (Some (buf @ b @ [CHR 0x0A]), e1) \<and> pending e1 = rest"
proof (induction n arbitrary: b buf e)
  case (Suc n)
  obtain c cs where c: "pending e = c # cs" using Suc.prems(1) by (cases b) auto
  obtain e1 where r: "na_recv net fd 1 e = (Some [c], e1)" "pending e1 = cs" by (rule byte_source_one [OF s c])
  show ?case
  proof (cases b)
    case Nil
    with Suc.prems(1) c r show ?thesis by simp
  next
    case (Cons d b')
    with Suc.prems c r have "pending e1 = b' @ CHR 0x0A # rest" "c = d" "c \<noteq> CHR 0x0A" by auto
    with Suc.IH [of e1 b' "buf @ [c]"] Suc.prems(2,3) Cons r(1) show ?thesis by simp
  qed
qed simp

lemma recv_line_loop_open:
  assumes s: "byte_source net fd pending"
  shows "pending e = b \<Longrightarrow> CHR 0x0A \<notin> set b \<Longrightarrow> length b < n \<Longrightarrow> fst (recv_line_loop net fd n buf e) = None"
proof (induction n arbitrary: b buf e)
  case (Suc n)
  show ?case
  proof (cases b)
    case Nil
    with Suc.prems(1) obtain e1 where "na_recv net fd 1 e = (None, e1)" by (auto intro: byte_source_end [OF s])
    then show ?thesis by simp
  next
    case (Cons d b')
    with Suc.prems(1) obtain e1 where r: "na_recv net fd 1 e = (Some [d], e1)" "pending e1 = b'"
      by (auto intro: byte_source_one [OF s])
    have "d \<noteq> CHR 0x0A" using Suc.prems(2) Cons by auto
    with Suc.IH [OF r(2), of "buf @ [d]"] Suc.prems(2,3) Cons r(1) show ?thesis by simp
  qed
qed simp

lemma c_str_id: "CHR 0x00 \<notin> set s \<Longrightarrow> c_str s = s"
  by (auto simp: c_str_def takeWhile_eq_all_conv)

lemma srv_recv_line_stream:
  assumes "byte_source net fd pending" and "pending e = l @ [CHR 0x0A]" and "CHR 0x0A \<notin> set l" and "CHR 0x00 \<notin> set l"
    and "length l < 1023"
  shows "\<exists>e1. srv_recv_line net fd SRV_LINE_BUF e = (Some (l @ [CHR 0x0A]), e1)"
proof -
  obtain e1 where "recv_line_loop net fd 1023 [] e = (Some (l @ [CHR 0x0A]), e1)"
    using recv_line_loop_line [OF assms(1), of e l "[]" 1023 "[]"] assms(2,3,5) by auto
  then show ?thesis using assms(4) by (simp add: srv_recv_line_def c_str_id)
qed

section \<open>Request and response as text\<close>

text \<open>Text that keeps to its line and does not start with a blank.\<close>

definition line_text :: "string \<Rightarrow> bool" where
  "line_text s \<longleftrightarrow> (\<forall>c\<in>set s. c \<notin> set line_ends \<and> c \<noteq> CHR 0x00) \<and> take 1 s \<noteq> '' ''"

lemma req_line_whole: "length service + length request \<le> 249 \<Longrightarrow>
    req_line service request = (''REQ '' @ service @ '' '' @ request) @ [CHR 0x0A]"
  by (simp add: req_line_def)

lemma parse_req_line:
  assumes "topic_ok service" and "line_text request"
  shows "parse_req ((''REQ '' @ service @ '' '' @ request) @ [CHR 0x0A]) = Some (service, request)"
proof -
  have "next_token blank_ends (''REQ'' @ CHR '' '' # (service @ CHR '' '' # request @ [CHR 0x0A])) =
      Some (''REQ'', service @ CHR '' '' # request @ [CHR 0x0A])"
    by (rule next_token_word) simp_all
  then have 1: "next_token blank_ends ((''REQ '' @ service @ '' '' @ request) @ [CHR 0x0A]) =
      Some (''REQ'', service @ CHR '' '' # request @ [CHR 0x0A])" by simp
  have 2: "next_token blank_ends (service @ CHR '' '' # request @ [CHR 0x0A]) = Some (service, request @ [CHR 0x0A])"
    using assms(1) by (intro next_token_word) (simp_all add: topic_ok_def plain_def)
  show ?thesis
  proof (cases "request = []")
    case True
    then have "next_token line_ends (request @ [CHR 0x0A]) = None" by (simp add: next_token_def)
    then show ?thesis unfolding parse_req_def 1 option.case prod.case 2 by (simp add: True)
  next
    case False
    then have "next_token line_ends (request @ [CHR 0x0A]) = Some (request, [])"
      using assms(2) by (intro next_token_word) (simp_all add: line_text_def)
    then show ?thesis using assms(2) unfolding parse_req_def 1 option.case prod.case 2 by (simp add: line_text_def)
  qed
qed

lemma res_line_whole: "length service + length response \<le> 1000 \<Longrightarrow>
    res_line service response = (''RES '' @ service @ '' '' @ response) @ [CHR 0x0A]"
  by (simp add: res_line_def)

lemma response_text_line:
  assumes "topic_ok service" and "line_text response"
  shows "response_text ((''RES '' @ service @ '' '' @ response) @ [CHR 0x0A]) = response"
proof -
  obtain c cs where s: "service = c # cs" "c \<noteq> CHR '' ''" using assms(1) by (cases service) (auto simp: topic_ok_def)
  have 1: "dropWhile (\<lambda>c. c = CHR '' '') (dropWhile (\<lambda>c. c \<noteq> CHR '' '') ((''RES '' @ service @ '' '' @ response) @ [CHR 0x0A])) =
      service @ CHR '' '' # response @ [CHR 0x0A]" by (simp add: s)
  have 2: "dropWhile (\<lambda>c. c \<notin> set blank_ends) (service @ CHR '' '' # response @ [CHR 0x0A]) = CHR '' '' # response @ [CHR 0x0A]"
    using assms(1) by (intro dropWhile_plain) (simp_all add: topic_ok_def plain_def)
  have 3: "dropWhile (\<lambda>c. c = CHR '' '') (CHR '' '' # response @ [CHR 0x0A]) = response @ [CHR 0x0A]"
    using assms(2) by (cases response) (auto simp: line_text_def)
  have 4: "dropWhile (\<lambda>c. c \<in> set line_ends) (rev response) = rev response"
  proof (cases "rev response")
    case (Cons d ds)
    then have "d \<in> set response" by (metis list.set_intros(1) set_rev)
    then have "d \<notin> set line_ends" using assms(2) by (simp add: line_text_def)
    then show ?thesis by (simp only: Cons dropWhile.simps if_False)
  qed simp
  have 5: "dropWhile (\<lambda>c. c \<in> set line_ends) (rev (response @ [CHR 0x0A])) = rev response"
    using 4 by simp
  show ?thesis unfolding response_text_def Let_def 1 2 3 5 by simp
qed

lemma topic_chars: "topic_ok t \<Longrightarrow> CHR 0x0A \<notin> set t" "topic_ok t \<Longrightarrow> CHR 0x00 \<notin> set t"
  by (auto simp: topic_ok_def plain_def)

lemma line_text_chars: "line_text t \<Longrightarrow> CHR 0x0A \<notin> set t" "line_text t \<Longrightarrow> CHR 0x00 \<notin> set t"
  by (auto simp: line_text_def)

lemma not_in_fields: "c \<notin> set p \<Longrightarrow> c \<noteq> CHR '' '' \<Longrightarrow> c \<notin> set s \<Longrightarrow> c \<notin> set t \<Longrightarrow> c \<notin> set (p @ s @ '' '' @ t)"
  by simp

text \<open>
  C29. A call reaches the handler and its answer comes back: the server's handler is called with
  the service and the request the client's line carries, and what the client reads from the
  server's answer is the handler's response, for texts without line ends, NUL or a leading
  blank that fit the two line buffers.
\<close>

theorem service_round_trip:
  assumes "topic_ok service" and "line_text request" and "length service + length request \<le> 249"
    and "topic_ok (srv_service st)" and "srv_handler st = Some h" and "line_text (h service request)"
    and "length (srv_service st) + length (h service request) \<le> 1000"
    and "byte_source net fd pending" and "na_accept net (srv_listen_sock st) e = (fd, e1)" and "0 \<le> fd"
    and "pending e1 = req_line service request"
    and "byte_source net2 fd2 pending2" and "pending2 e3 = res_line (srv_service st) (h service request)"
  shows "(\<exists>e2. srv_turn net st e =
      (Some (service, request), na_close net fd (snd (send_line net fd (res_line (srv_service st) (h service request)) e2)))) \<and>
    map_option response_text (fst (srv_recv_line net2 fd2 SRV_LINE_BUF e3)) = Some (h service request)"
proof
  note cs = topic_chars [OF assms(1)] topic_chars [OF assms(4)] line_text_chars [OF assms(2)] line_text_chars [OF assms(6)]
  have a: "CHR 0x0A \<notin> set (''REQ '' @ service @ '' '' @ request)" "CHR 0x00 \<notin> set (''REQ '' @ service @ '' '' @ request)"
    "CHR 0x0A \<notin> set (''RES '' @ srv_service st @ '' '' @ h service request)"
    "CHR 0x00 \<notin> set (''RES '' @ srv_service st @ '' '' @ h service request)"
    by (rule not_in_fields; (rule cs | simp))+
  have "length (''REQ '' @ service @ '' '' @ request) < 1023" using assms(3) by simp
  from srv_recv_line_stream [OF assms(8) assms(11) [unfolded req_line_whole [OF assms(3)]] a(1,2) this]
  obtain e2 where r: "srv_recv_line net fd SRV_LINE_BUF e1 = (Some ((''REQ '' @ service @ '' '' @ request) @ [CHR 0x0A]), e2)" ..
  have "srv_turn net st e =
      (Some (service, request), na_close net fd (snd (send_line net fd (res_line (srv_service st) (h service request)) e2)))"
    unfolding srv_turn_def assms(9) prod.case r option.case parse_req_line [OF assms(1,2)] using assms(5,10) by (simp add: Let_def)
  then show "\<exists>e2. srv_turn net st e =
      (Some (service, request), na_close net fd (snd (send_line net fd (res_line (srv_service st) (h service request)) e2)))" by blast
  have "length (''RES '' @ srv_service st @ '' '' @ h service request) < 1023" using assms(7) by simp
  from srv_recv_line_stream [OF assms(12) assms(13) [unfolded res_line_whole [OF assms(7)]] a(3,4) this]
  obtain e4 where "srv_recv_line net2 fd2 SRV_LINE_BUF e3 =
      (Some ((''RES '' @ srv_service st @ '' '' @ h service request) @ [CHR 0x0A]), e4)" ..
  then show "map_option response_text (fst (srv_recv_line net2 fd2 SRV_LINE_BUF e3)) = Some (h service request)"
    by (simp only: fst_conv option.map response_text_line [OF assms(4,6)])
qed

text \<open>
  The client's buffer for a request has 256 bytes: a request that does not fit loses its
  newline, and a server that gets nothing else on the connection never calls its handler.
\<close>

theorem long_request_unanswered:
  assumes "CHR 0x0A \<notin> set service" and "CHR 0x0A \<notin> set request" and "250 \<le> length service + length request"
    and "byte_source net fd pending" and "na_accept net (srv_listen_sock st) e = (fd, e1)"
    and "pending e1 = req_line service request"
  shows "fst (srv_turn net st e) = None"
proof -
  have "255 \<le> length (''REQ '' @ service @ '' '' @ request)" using assms(3) by simp
  then have "take 255 ((''REQ '' @ service @ '' '' @ request) @ [CHR 0x0A]) = take 255 (''REQ '' @ service @ '' '' @ request)"
    by (simp only: take_append diff_is_0_eq [THEN iffD2] take_0 append_Nil2)
  then have l: "req_line service request = take 255 (''REQ '' @ service @ '' '' @ request)"
    by (simp add: req_line_def)
  have "CHR 0x0A \<notin> set (''REQ '' @ service @ '' '' @ request)" by (rule not_in_fields; (rule assms(1,2) | simp))
  then have "CHR 0x0A \<notin> set (req_line service request)" unfolding l by (metis in_set_takeD)
  moreover have "length (req_line service request) < 1023" by (simp add: req_line_def)
  ultimately have "fst (recv_line_loop net fd 1023 [] e1) = None" using recv_line_loop_open [OF assms(4,6)] by blast
  then have "fst (srv_recv_line net fd SRV_LINE_BUF e1) = None" by (simp add: srv_recv_line_def case_prod_unfold)
  then show ?thesis unfolding srv_turn_def assms(5) prod.case by (simp add: case_prod_unfold)
qed

section \<open>Descriptors\<close>

lemma recv_line_opens:
  assumes d: "descriptors_ok net opens"
  shows "opens (snd (srv_recv_line net fd n e)) = opens e"
proof -
  have "opens (snd (recv_line_loop net fd n buf e)) = opens e" for n buf
  proof (induction n arbitrary: buf e)
    case (Suc n)
    obtain r e1 where r: "na_recv net fd 1 e = (r, e1)" by fastforce
    then have "opens e1 = opens e" using descriptors_okD(2) [OF d] by (metis snd_conv)
    with Suc r show ?case by (simp split: option.split list.split)
  qed simp
  then show ?thesis by (simp add: srv_recv_line_def case_prod_unfold)
qed

lemma srv_lines_opens:
  assumes d: "descriptors_ok net opens" and "srv_lines net fd f a e = Some (b, e')"
  shows "opens e' = opens e"
proof -
  have "net = net \<longrightarrow> opens (snd (b, e')) = opens e"
  proof (rule srv_lines.raw_induct [OF _ assms(2), where P = "\<lambda>n fd f a e r. n = net \<longrightarrow> opens (snd r) = opens e"])
    fix rec n fd f a e r
    assume IH: "\<And>n fd f a e r. rec n fd f a e = Some r \<Longrightarrow> n = net \<longrightarrow> opens (snd r) = opens e"
      and b: "(case srv_recv_line n fd SRV_LINE_BUF e of
        (None, e1) \<Rightarrow> Some (a, e1)
      | (Some line, e1) \<Rightarrow>
          if line = ''END'' @ [CHR 0x0A] then Some (a, e1) else rec n fd f (f line a) e1) = Some r"
    obtain q e1 where q: "srv_recv_line n fd SRV_LINE_BUF e = (q, e1)" by fastforce
    show "n = net \<longrightarrow> opens (snd r) = opens e"
    proof
      assume n: "n = net"
      with recv_line_opens [OF d, of fd SRV_LINE_BUF e] q have k: "opens e1 = opens e" by simp
      from b [unfolded q prod.case] have "snd r = e1 \<or> (\<exists>line. rec n fd f (f line a) e1 = Some r)"
        by (cases q) (auto split: if_splits)
      with IH n k show "opens (snd r) = opens e" by metis
    qed
  qed
  then show ?thesis by simp
qed

lemma ask_master_opens:
  assumes d: "descriptors_ok net opens" and "ask_master net ip port node service f a e = Some (b, e')"
  shows "opens e' = opens e"
proof -
  obtain ms e1 where c: "connect_tcp net ip port e = (ms, e1)" by fastforce
  note fc = connect_tcp_opens [OF d, of e ip port, unfolded c opens_fresh_def fst_conv snd_conv]
  obtain ok1 e1' where s1: "send_line net ms (node_line node) e1 = (ok1, e1')" by fastforce
  obtain ok e2 where s2: "send_line net ms (lookup_srv_line service) e1' = (ok, e2)" by fastforce
  note k = send_line_opens [OF d s1] send_line_opens [OF d s2] and cl = descriptors_okD(1) [OF d]
  note r = assms(2) [unfolded ask_master_def c prod.case s1 snd_conv s2]
  consider "ms < 0" | "0 \<le> ms" "\<not> ok" | "0 \<le> ms" ok by linarith
  then show ?thesis
  proof cases
    case 1
    with r fc show ?thesis by simp
  next
    case 2
    with r fc k show ?thesis by (auto simp: cl)
  next
    case 3
    with r obtain v e3 where l: "srv_lines net ms f a e2 = Some (v, e3)" and e': "e' = na_close net ms e3" by auto
    from srv_lines_opens [OF d l] 3 fc k show ?thesis by (simp add: e' cl)
  qed
qed

lemma srv_call_opens:
  assumes d: "descriptors_ok net opens" and "cmos_srv_call net ip port service req n e = Some (rc, resp, e')"
  shows "opens e' = opens e"
proof -
  note cl = descriptors_okD(1) [OF d]
  from assms(2) obtain b e1 where a: "ask_master net ip port ''cmos_srv_client'' service srv_info ([], -1) e = Some (b, e1)"
    unfolding cmos_srv_call_def by (cases "ask_master net ip port ''cmos_srv_client'' service srv_info ([], -1) e") auto
  note o1 = ask_master_opens [OF d a] and r = assms(2) [unfolded cmos_srv_call_def a option.case prod.case]
  show ?thesis
  proof (cases b)
    case None
    with r o1 show ?thesis by simp
  next
    case (Some ad)
    obtain ip2 port2 where ad: "ad = (ip2, port2)" by fastforce
    note r = r [unfolded Some ad option.case prod.case]
    obtain ss e2 where c: "connect_tcp net ip2 port2 e1 = (ss, e2)" by fastforce
    note fc = connect_tcp_opens [OF d, of e1 ip2 port2, unfolded c opens_fresh_def fst_conv snd_conv]
    obtain ok e3 where s: "send_line net ss (req_line service (case req of None \<Rightarrow> [] | Some r \<Rightarrow> r)) e2 = (ok, e3)" by fastforce
    obtain l e4 where v: "srv_recv_line net ss SRV_LINE_BUF e3 = (l, e4)" by fastforce
    have k: "opens e3 = opens e2" "opens e4 = opens e3"
      using send_line_opens [OF d s] recv_line_opens [OF d, of ss SRV_LINE_BUF e3] by (simp_all add: v)
    note r = r [unfolded c s v prod.case]
    consider "port2 < 0 \<or> ss < 0" | "0 \<le> port2" "0 \<le> ss" "\<not> ok" | "0 \<le> port2" "0 \<le> ss" ok by linarith
    then show ?thesis
    proof cases
      case 1
      with r o1 fc show ?thesis by (auto split: if_splits)
    next
      case 2
      with r have "e' = na_close net ss e3" by simp
      with 2 o1 fc k show ?thesis by (simp add: cl)
    next
      case 3
      with r have "e' = na_close net ss e4" by (cases l) simp_all
      with 3 o1 fc k show ?thesis by (simp add: cl)
    qed
  qed
qed

lemma srv_wait_opens:
  "descriptors_ok net opens \<Longrightarrow> srv_wait_loop net ip port service left e = Some (rc, e') \<Longrightarrow> opens e' = opens e"
proof (induction net ip port service left e rule: srv_wait_loop.induct)
  case (1 net ip port service left e)
  show ?case
  proof (cases "left \<le> 0")
    case True
    with "1.prems"(2) show ?thesis by (simp add: srv_wait_loop.simps)
  next
    case False
    note r = "1.prems"(2) [unfolded srv_wait_loop.simps [of net ip port service left e] if_not_P [OF False]]
    from r obtain rc1 e1 where x: "srv_exists net ip port service e = Some (rc1, e1)"
      by (cases "srv_exists net ip port service e") auto
    then obtain b where "ask_master net ip port ''cmos_srv_wait'' service (\<lambda>line found. take 8 line = ''SRVINFO '' \<or> found) False e = Some (b, e1)"
      by (auto simp: srv_exists_def)
    note o1 = ask_master_opens [OF "1.prems"(1) this]
    show ?thesis
    proof (cases "rc1 = 0")
      case True
      with r x o1 show ?thesis by simp
    next
      case F: False
      with r x have "srv_wait_loop net ip port service (left - 500) e1 = Some (rc, e')" by simp
      from "1.IH" [OF False x refl F "1.prems"(1) this] o1 show ?thesis by simp
    qed
  qed
qed

text \<open>The server owns its two descriptors.\<close>

definition srv_owns :: "('e \<Rightarrow> int set) \<Rightarrow> int set \<Rightarrow> srv_state \<Rightarrow> 'e \<Rightarrow> bool" where
  "srv_owns opens base st e \<longleftrightarrow> 0 \<le> srv_master_sock st \<and> 0 \<le> srv_listen_sock st \<and> srv_master_sock st \<noteq> srv_listen_sock st \<and>
     srv_master_sock st \<notin> base \<and> srv_listen_sock st \<notin> base \<and> opens e = insert (srv_master_sock st) (insert (srv_listen_sock st) base)"

lemma srv_init_owns:
  assumes d: "descriptors_ok net opens"
    and i: "cmos_srv_init net ip mport node service port h st0 e = (rc, st, e')"
  shows "(rc = 0 \<and> srv_owns opens (opens e) st e') \<or> (rc = -1 \<and> opens e' = opens e)"
proof -
  obtain ms e1 where c: "connect_tcp net ip mport e = (ms, e1)" by fastforce
  note fc = connect_tcp_opens [OF d, of e ip mport, unfolded c opens_fresh_def fst_conv snd_conv]
  obtain ok1 e2 where s1: "send_line net ms (node_line node) e1 = (ok1, e2)" by fastforce
  obtain ls e3 where s: "na_socket net e2 = (ls, e3)" by fastforce
  note fs = descriptors_okD(5) [OF d, of e2, unfolded s opens_fresh_def fst_conv snd_conv]
  obtain ok2 e4 where b: "na_bind net ls port e3 = (ok2, e4)" by fastforce
  obtain ok3 e5 where l: "na_listen net ls e4 = (ok3, e5)" by fastforce
  obtain ok4 e6 where s2: "send_line net ms (register_srv_line service port) e5 = (ok4, e6)" by fastforce
  have k: "opens e4 = opens e3" "opens e5 = opens e4"
    using descriptors_okD(7) [OF d, of ls port e3] descriptors_okD(8) [OF d, of ls e4] by (simp_all add: b l)
  note o1 = send_line_opens [OF d s1] and o2 = send_line_opens [OF d s2] and cl = close_all_opens [OF d]
  note defs = cmos_srv_init_def Let_def c s1 s b l s2 prod.case
  consider "ms < 0" | "0 \<le> ms" "\<not> ok1" | "0 \<le> ms" ok1 "ls < 0" | "0 \<le> ms" ok1 "0 \<le> ls" "\<not> (ok2 \<and> ok3 \<and> ok4)"
    | "0 \<le> ms" ok1 "0 \<le> ls" ok2 ok3 ok4 by linarith
  then show ?thesis
  proof cases
    case 1
    then have "rc = -1" "e' = e1" using i by (simp_all add: defs)
    with 1 fc show ?thesis by simp
  next
    case 2
    then have "rc = -1" "e' = close_all net [ms] e2" using i by (simp_all add: defs)
    with 2 fc o1 show ?thesis by (simp add: cl)
  next
    case 3
    then have "rc = -1" "e' = close_all net [ms] e3" using i by (simp_all add: defs)
    with 3 fc fs o1 show ?thesis by (simp add: cl)
  next
    case 4
    then have "rc = -1 \<and> (e' = close_all net [ls, ms] e4 \<or> e' = close_all net [ls, ms] e5 \<or> e' = close_all net [ls, ms] e6)"
      using i by (simp add: defs split: if_splits)
    with 4 fc fs o1 o2 k show ?thesis by (auto simp: cl)
  next
    case 5
    then have "rc = 0" and st: "st = st0\<lparr>srv_service := take 63 service, srv_handler := h, srv_master_sock := ms, srv_listen_sock := ls\<rparr>"
      and "e' = e6" using i by (simp_all add: defs)
    moreover have "srv_owns opens (opens e) st e6" using 5 fc fs k o1 o2 by (auto simp: srv_owns_def st)
    ultimately show ?thesis by simp
  qed
qed

lemma srv_turn_opens:
  assumes d: "descriptors_ok net opens"
  shows "opens (snd (srv_turn net st e)) = opens e"
proof -
  obtain fd e1 where a: "na_accept net (srv_listen_sock st) e = (fd, e1)" by fastforce
  note fa = descriptors_okD(6) [OF d, of e "srv_listen_sock st", unfolded a opens_fresh_def fst_conv snd_conv]
  obtain l e2 where v: "srv_recv_line net fd SRV_LINE_BUF e1 = (l, e2)" by fastforce
  have k: "opens e2 = opens e1" using recv_line_opens [OF d, of fd SRV_LINE_BUF e1] by (simp add: v)
  have s: "opens (snd (send_line net fd x e')) = opens e'" for x e' using send_line_opens [OF d] by (metis surjective_pairing)
  note cl = descriptors_okD(1) [OF d]
  show ?thesis
    unfolding srv_turn_def a prod.case v using fa k
    by (cases "fd < 0"; cases l) (auto simp: cl s Let_def split: option.split prod.split)
qed

lemma srv_spin_opens: "descriptors_ok net opens \<Longrightarrow> opens (snd (cmos_srv_spin net n st e)) = opens e"
  by (induction n arbitrary: e) (simp_all add: case_prod_unfold srv_turn_opens)

text \<open>
  C36. Neither side of a service leaves a descriptor open: a call and a wait close what they
  opened on every path, and a server that fails to start, or starts, serves any number of
  connections and is closed, leaves exactly the descriptors that were open before.
\<close>

theorem services_close_everything:
  assumes "descriptors_ok net opens"
  shows "(case cmos_srv_call net ip port service req n e of None \<Rightarrow> True | Some (rc, resp, e') \<Rightarrow> opens e' = opens e) \<and>
    (case cmos_srv_wait net ip port service timeout e of None \<Rightarrow> True | Some (rc, e') \<Rightarrow> opens e' = opens e) \<and>
    (case cmos_srv_init net ip port node service lport h st0 e of
       (rc, st, e1) \<Rightarrow>
         opens (if rc = 0 then snd (cmos_srv_close net st (snd (cmos_srv_spin net k st e1))) else e1) = opens e)"
proof (intro conjI)
  show "case cmos_srv_call net ip port service req n e of None \<Rightarrow> True | Some (rc, resp, e') \<Rightarrow> opens e' = opens e"
    using srv_call_opens [OF assms] by (simp split: option.split)
  show "case cmos_srv_wait net ip port service timeout e of None \<Rightarrow> True | Some (rc, e') \<Rightarrow> opens e' = opens e"
    using srv_wait_opens [OF assms] by (simp add: cmos_srv_wait_def split: option.split)
  obtain rc st e1 where i: "cmos_srv_init net ip port node service lport h st0 e = (rc, st, e1)" by (metis surj_pair)
  from srv_init_owns [OF assms i]
  have "opens (if rc = 0 then snd (cmos_srv_close net st (snd (cmos_srv_spin net k st e1))) else e1) = opens e"
    by (auto simp: srv_owns_def cmos_srv_close_def close_all_opens [OF assms] srv_spin_opens [OF assms])
  with i show "case cmos_srv_init net ip port node service lport h st0 e of
      (rc, st, e1) \<Rightarrow>
        opens (if rc = 0 then snd (cmos_srv_close net st (snd (cmos_srv_spin net k st e1))) else e1) = opens e" by simp
qed

section \<open>Witnesses\<close>

definition echo_server :: srv_state where
  "echo_server = \<lparr>srv_master_sock = 3, srv_listen_sock = 5, srv_service = ''echo'', srv_handler = Some (\<lambda>svc req. req @ req)\<rparr>"

theorem service_round_trip_witness:
  "fst (srv_turn piece_net echo_server (req_line ''echo'' ''ab c'')) = Some (''echo'', ''ab c'') \<and>
    map_option response_text (fst (srv_recv_line piece_net 9 SRV_LINE_BUF (res_line ''echo'' ''ab cab c''))) = Some ''ab cab c''"
proof -
  have "topic_ok ''echo''" "line_text ''ab c''" "line_text ''ab cab c''" by (simp_all add: topic_ok_def line_text_def)
  moreover have "na_accept piece_net 5 s = (4, s)" for s by (simp add: piece_net_def)
  ultimately show ?thesis
    using service_round_trip [of "''echo''" "''ab c''" echo_server "\<lambda>svc req. req @ req" piece_net 4 "\<lambda>s. s" "req_line ''echo'' ''ab c''"
        "req_line ''echo'' ''ab c''" piece_net 9 "\<lambda>s. s" "res_line ''echo'' ''ab cab c''"]
    by (auto simp: echo_server_def piece_net_source)
qed

theorem long_request_unanswered_witness:
  "fst (srv_turn piece_net echo_server (req_line ''echo'' (replicate 300 CHR ''x''))) = None"
proof -
  have "na_accept piece_net (srv_listen_sock echo_server) s = (4, s)" for s by (simp add: piece_net_def)
  then show ?thesis by (intro long_request_unanswered [OF _ _ _ piece_net_source]) simp_all
qed

theorem services_close_everything_witness:
  "case cmos_srv_init list_net ''127.0.0.1'' 10000 ''n'' ''echo'' 14000 None srv_zero [0, 1, 2] of
     (rc, st, e1) \<Rightarrow>
       set (if rc = 0 then snd (cmos_srv_close list_net st (snd (cmos_srv_spin list_net 5 st e1))) else e1) = set [0, 1, 2]"
  by (rule services_close_everything [OF list_net_ok, THEN conjunct2, THEN conjunct2])

end
