(* ===== verification/Cmos_Sub_Facts.thy ===== *)
theory Cmos_Sub_Facts
  imports Cmos_Sub
begin

text \<open>
  What every operation of the subscriber keeps: the table of connections is consistent, and the
  subscriber owns its descriptors, each once, beside those of the rest of the process.
\<close>

section \<open>The invariant\<close>

definition conn_ok :: "nat \<Rightarrow> pub_conn \<Rightarrow> bool" where
  "conn_ok n c \<longleftrightarrow>
     (if conn_active c
      then 0 \<le> conn_sock c \<and> 0 \<le> conn_slot c \<and> conn_slot c < int n \<and> length (conn_rx c) < CM_RX_BUF - 1 \<and>
        length (conn_node c) \<le> 63
      else c = closed_conn)"

definition table_ok :: "'cb sub_ctx \<Rightarrow> bool" where
  "table_ok ctx \<longleftrightarrow>
     length (pub_conns ctx) = CM_MAX_PUB_CONN \<and> list_all (conn_ok (length (sub_slots ctx))) (pub_conns ctx) \<and>
     pub_count ctx = int (length (filter conn_active (pub_conns ctx))) \<and> length (sub_slots ctx) \<le> CM_MAX_SUB_SLOTS"

definition sub_fds :: "'cb sub_ctx \<Rightarrow> int list" where
  "sub_fds ctx = (if 0 \<le> sub_master_sock ctx then [sub_master_sock ctx] else []) @ sub_epfd ctx #
     map conn_sock (filter conn_active (pub_conns ctx))"

definition sub_owns :: "('e \<Rightarrow> int set) \<Rightarrow> int set \<Rightarrow> 'cb sub_ctx \<Rightarrow> 'e \<Rightarrow> bool" where
  "sub_owns opens base ctx e \<longleftrightarrow>
     table_ok ctx \<and> 0 \<le> sub_epfd ctx \<and> distinct (sub_fds ctx) \<and> set (sub_fds ctx) \<inter> base = {} \<and>
     opens e = base \<union> set (sub_fds ctx) \<and> (\<forall>fd\<in>base. 0 \<le> fd)"

lemma split_conns:
  assumes "i < length cs"
  obtains xs c ys where "cs = xs @ c # ys" and "cs ! i = c" and "\<And>d. cs[i := d] = xs @ d # ys"
  using assms that [of "take i cs" "cs ! i" "drop (Suc i) cs"] by (simp add: id_take_nth_drop upd_conv_take_nth_drop)

lemma sub_owns_cong:
  "sub_owns opens base ctx e \<Longrightarrow> opens e' = opens e \<Longrightarrow> sub_owns opens base ctx e'"
  by (simp add: sub_owns_def)

lemma conn_okD: "table_ok ctx \<Longrightarrow> i < CM_MAX_PUB_CONN \<Longrightarrow> conn_ok (length (sub_slots ctx)) (pub_conns ctx ! i)"
  by (simp add: table_ok_def list_all_length)

text \<open>The descriptors before, of and behind one connection.\<close>

definition fd_of :: "pub_conn \<Rightarrow> int list" where
  "fd_of c = (if conn_active c then [conn_sock c] else [])"

lemma fd_of_closed [simp]: "fd_of closed_conn = []"
  by (simp add: fd_of_def closed_conn_def)

lemma conn_ok_closed [simp]: "conn_ok n closed_conn"
  by (simp add: conn_ok_def closed_conn_def)

lemma active_fds: "map conn_sock (filter conn_active cs) = concat (map fd_of cs)"
  by (induction cs) (simp_all add: fd_of_def)

lemma count_active: "length (filter conn_active cs) = length (concat (map fd_of cs))"
  by (simp flip: active_fds)

lemmas sub_owns_parts = sub_owns_def table_ok_def sub_fds_def active_fds count_active

text \<open>Replacing a connection: what is owned changes by its descriptors.\<close>

lemma sub_owns_replace:
  assumes o: "sub_owns opens base ctx e" and s: "pub_conns ctx = xs @ c # ys"
    and d: "conn_ok (length (sub_slots ctx)) d" and f: "set (fd_of d) \<inter> (opens e - set (fd_of c)) = {}"
    and e: "opens e' = opens e - set (fd_of c) \<union> set (fd_of d)"
  shows "sub_owns opens base (ctx\<lparr>pub_conns := xs @ d # ys,
    pub_count := pub_count ctx - int (length (fd_of c)) + int (length (fd_of d))\<rparr>) e'"
proof -
  define as bs where "as = (if 0 \<le> sub_master_sock ctx then [sub_master_sock ctx] else []) @ sub_epfd ctx # concat (map fd_of xs)"
    and "bs = concat (map fd_of ys)"
  have fds: "sub_fds (ctx\<lparr>pub_conns := xs @ z # ys, pub_count := n\<rparr>) = as @ fd_of z @ bs" for z n
    by (simp add: sub_fds_def as_def bs_def fd_of_def flip: active_fds)
  have fd0: "sub_fds ctx = as @ fd_of c @ bs" by (simp add: sub_fds_def as_def bs_def s fd_of_def flip: active_fds)
  from o have u: "distinct (as @ fd_of c @ bs)" "set (as @ fd_of c @ bs) \<inter> base = {}" "opens e = base \<union> set (as @ fd_of c @ bs)"
    "\<forall>fd\<in>base. 0 \<le> fd" "0 \<le> sub_epfd ctx" unfolding sub_owns_def fd0 by blast+
  have r: "opens e - set (fd_of c) = base \<union> set (as @ bs)" using u(1-3) by auto
  have t: "table_ok (ctx\<lparr>pub_conns := xs @ d # ys,
      pub_count := pub_count ctx - int (length (fd_of c)) + int (length (fd_of d))\<rparr>)"
    using o d by (auto simp: sub_owns_def table_ok_def s fd_of_def)
  have "distinct (fd_of d)" by (simp add: fd_of_def)
  with f [unfolded r] u(1) have "distinct (as @ fd_of d @ bs)" by auto
  moreover have "set (as @ fd_of d @ bs) \<inter> base = {}" using f [unfolded r] u(2) by auto
  moreover have "opens e' = base \<union> set (as @ fd_of d @ bs)" unfolding e r by auto
  ultimately show ?thesis using t u(4,5) unfolding sub_owns_def fds by simp
qed

lemma sub_owns_close:
  assumes "descriptors_ok net opens" and o: "sub_owns opens base ctx e"
  shows "case_prod (sub_owns opens base) (ctx_close_conn net i ctx e)"
proof (cases "CM_MAX_PUB_CONN \<le> i")
  case True
  with o show ?thesis by (simp add: ctx_close_conn_def)
next
  case False
  have l: "i < length (pub_conns ctx)" using False o by (simp add: sub_owns_def table_ok_def)
  obtain xs c ys where s: "pub_conns ctx = xs @ c # ys" "pub_conns ctx ! i = c" "\<And>d. (pub_conns ctx)[i := d] = xs @ d # ys"
    by (rule split_conns [OF l]) blast
  have c: "conn_ok (length (sub_slots ctx)) c" using o by (simp add: sub_owns_def table_ok_def s(1))
  define e' where "e' = (if 0 \<le> conn_sock c then na_close net (conn_sock c) e else e)"
  have "opens e' = opens e - set (fd_of c)"
    using c by (cases "conn_active c") (simp_all add: e'_def fd_of_def conn_ok_def closed_conn_def descriptors_okD(1) [OF assms(1)])
  from sub_owns_replace [OF o s(1), of closed_conn e'] this
  have "sub_owns opens base (ctx\<lparr>pub_conns := xs @ closed_conn # ys, pub_count := pub_count ctx - int (length (fd_of c))\<rparr>) e'" by simp
  moreover have "ctx_close_conn net i ctx e =
      (ctx\<lparr>pub_conns := xs @ closed_conn # ys, pub_count := pub_count ctx - int (length (fd_of c))\<rparr>, e')"
    using False by (simp add: ctx_close_conn_def Let_def s(2,3) e'_def fd_of_def)
  ultimately show ?thesis by simp
qed

section \<open>Connections and the master\<close>

text \<open>Replacing the socket to the master.\<close>

abbreviation nonneg :: "int \<Rightarrow> int set" where "nonneg fd \<equiv> if 0 \<le> fd then {fd} else {}"

lemma sub_owns_master:
  assumes o: "sub_owns opens base ctx e" and f: "nonneg m \<inter> (opens e - nonneg (sub_master_sock ctx)) = {}"
    and e: "opens e' = opens e - nonneg (sub_master_sock ctx) \<union> nonneg m"
  shows "sub_owns opens base (ctx\<lparr>sub_master_sock := m\<rparr>) e'"
proof -
  define as where "as = sub_epfd ctx # map conn_sock (filter conn_active (pub_conns ctx))"
  have fds: "sub_fds (ctx\<lparr>sub_master_sock := n\<rparr>) = (if 0 \<le> n then [n] else []) @ as" for n by (simp add: sub_fds_def as_def)
  have fd0: "sub_fds ctx = (if 0 \<le> sub_master_sock ctx then [sub_master_sock ctx] else []) @ as" by (simp add: sub_fds_def as_def)
  have t: "table_ok (ctx\<lparr>sub_master_sock := m\<rparr>)" using o by (simp add: sub_owns_def table_ok_def)
  from o have u: "distinct as" "set as \<inter> base = {}" "nonneg (sub_master_sock ctx) \<inter> (set as \<union> base) = {}"
    "opens e = base \<union> nonneg (sub_master_sock ctx) \<union> set as" "\<forall>fd\<in>base. 0 \<le> fd" "0 \<le> sub_epfd ctx"
    unfolding sub_owns_def fd0 by (auto split: if_splits)
  have r: "opens e - nonneg (sub_master_sock ctx) = base \<union> set as" using u(3,4) by blast
  have "nonneg m \<inter> (base \<union> set as) = {}" using f unfolding r .
  then show ?thesis using t u(1,2,5,6) unfolding sub_owns_def fds e r by (auto split: if_splits)
qed

lemma sub_owns_drop_master:
  assumes "descriptors_ok net opens" and o: "sub_owns opens base ctx e" and k: "opens e' = opens e"
  shows "sub_owns opens base (ctx\<lparr>sub_master_sock := -1\<rparr>) (na_close net (sub_master_sock ctx) e')"
proof (rule sub_owns_master [OF o])
  have "0 \<le> sub_epfd ctx \<and> (\<forall>c\<in>set (pub_conns ctx). conn_active c \<longrightarrow> 0 \<le> conn_sock c)"
    using o by (auto simp: sub_owns_def table_ok_def list_all_iff conn_ok_def)
  with o have "\<forall>fd\<in>opens e. 0 \<le> fd" by (auto simp: sub_owns_def sub_fds_def split: if_splits)
  then have n: "\<not> 0 \<le> sub_master_sock ctx \<Longrightarrow> sub_master_sock ctx \<notin> opens e" by blast
  show "opens (na_close net (sub_master_sock ctx) e') = opens e - nonneg (sub_master_sock ctx) \<union> nonneg (-1)"
    using n by (cases "0 \<le> sub_master_sock ctx") (simp_all add: descriptors_okD(1) [OF assms(1)] k)
qed simp

lemma sub_owns_add_pub:
  assumes d: "descriptors_ok net opens" and o: "sub_owns opens base ctx e"
    and k: "0 \<le> k" "k < int (length (sub_slots ctx))" and r: "ctx_add_pub net k node ip port ctx e = (rc, ctx', e')"
  shows "sub_owns opens base ctx' e' \<and> sub_slots ctx' = sub_slots ctx"
proof (cases "ctx_find_conn ctx node k = None")
  case False
  with r o show ?thesis by (simp add: ctx_add_pub_def)
next
  case True
  show ?thesis
  proof (cases "List.find (\<lambda>i. \<not> conn_active (pub_conns ctx ! i)) [0..<CM_MAX_PUB_CONN]")
    case None
    with r o True show ?thesis by (simp add: ctx_add_pub_def)
  next
    case (Some i)
    then have i: "i < CM_MAX_PUB_CONN" "\<not> conn_active (pub_conns ctx ! i)" by (auto simp: find_Some_iff)
    obtain s e1 where c: "connect_tcp net ip port e = (s, e1)" by fastforce
    note f = connect_tcp_opens [OF d, of e ip port, unfolded c opens_fresh_def fst_conv snd_conv]
    show ?thesis
    proof (cases "s < 0")
      case True
      with r o c Some \<open>ctx_find_conn ctx node k = None\<close> f sub_owns_cong [OF o, of e1] show ?thesis
        by (simp add: ctx_add_pub_def)
    next
      case False
      have l: "i < length (pub_conns ctx)" using i o by (simp add: sub_owns_def table_ok_def)
      obtain xs c0 ys where s: "pub_conns ctx = xs @ c0 # ys" "pub_conns ctx ! i = c0" "\<And>d. (pub_conns ctx)[i := d] = xs @ d # ys"
        by (rule split_conns [OF l]) blast
      define d where "d = \<lparr>conn_sock = s, conn_node = take 63 node, conn_rx = [], conn_active = True, conn_slot = k\<rparr>"
      have fd: "fd_of c0 = []" "fd_of d = [s]" using i(2) by (simp_all add: s(2) fd_of_def d_def)
      have "conn_ok (length (sub_slots ctx)) d" using k False by (simp add: conn_ok_def d_def)
      from sub_owns_replace [OF o s(1) this, of e1] f False
      have "sub_owns opens base (ctx\<lparr>pub_conns := xs @ d # ys, pub_count := pub_count ctx + 1\<rparr>) e1" by (simp add: fd)
      moreover have "ctx' = ctx\<lparr>pub_conns := xs @ d # ys, pub_count := pub_count ctx + 1\<rparr>" "e' = e1"
        using r c Some \<open>ctx_find_conn ctx node k = None\<close> False by (simp_all add: ctx_add_pub_def s(3) d_def)
      ultimately show ?thesis by simp
    qed
  qed
qed

lemma register_slots_opens:
  "descriptors_ok net opens \<Longrightarrow> register_slots net ms ss e = (ok, e') \<Longrightarrow> opens e' = opens e"
  by (induction net ms ss e rule: register_slots.induct) (auto dest: send_line_opens split: prod.splits if_splits)

lemma sub_owns_reconnect_master:
  assumes d: "descriptors_ok net opens" and o: "sub_owns opens base ctx e" and r: "ctx_reconnect_master net ctx e = (rc, ctx', e')"
  shows "sub_owns opens base ctx' e' \<and> sub_slots ctx' = sub_slots ctx"
proof -
  define e0 where "e0 = (if 0 \<le> sub_master_sock ctx then na_close net (sub_master_sock ctx) e else e)"
  have e0: "opens e0 = opens e - nonneg (sub_master_sock ctx)"
    by (simp add: e0_def descriptors_okD(1) [OF d])
  obtain ms e1 where c: "connect_tcp net (sub_master_ip ctx) (sub_master_port ctx) e0 = (ms, e1)" by fastforce
  note f = connect_tcp_opens [OF d, of e0 "sub_master_ip ctx" "sub_master_port ctx", unfolded c opens_fresh_def fst_conv snd_conv]
  obtain ok e2 where s1: "send_line net ms (node_line (sub_node_name ctx)) e1 = (ok, e2)" by fastforce
  obtain ok2 e3 where s2: "register_slots net ms (sub_slots ctx) e2 = (ok2, e3)" by fastforce
  note k = send_line_opens [OF d s1] register_slots_opens [OF d s2]
  note cl = descriptors_okD(1) [OF d]
  have gone: "sub_owns opens base (ctx\<lparr>sub_master_sock := m\<rparr>) e'" if "m < 0" "opens e' = opens e0" for m e'
    by (rule sub_owns_master [OF o]) (use that e0 in simp_all)
  consider "ms < 0" | "0 \<le> ms" "\<not> ok" | "0 \<le> ms" ok "\<not> ok2" | "0 \<le> ms" ok ok2 by linarith
  then show ?thesis
  proof cases
    case 1
    with r f gone [of ms e1] show ?thesis by (auto simp: ctx_reconnect_master_def Let_def c simp flip: e0_def)
  next
    case 2
    with r f k gone [of "-1" "na_close net ms e2"] show ?thesis
      by (auto simp: ctx_reconnect_master_def Let_def c s1 cl simp flip: e0_def)
  next
    case 3
    with r f k gone [of "-1" "na_close net ms e3"] show ?thesis
      by (auto simp: ctx_reconnect_master_def Let_def c s1 s2 cl simp flip: e0_def)
  next
    case 4
    have "sub_owns opens base (ctx\<lparr>sub_master_sock := ms\<rparr>) e3"
      by (rule sub_owns_master [OF o]) (use 4 f k e0 in auto)
    with 4 r show ?thesis by (auto simp: ctx_reconnect_master_def Let_def c s1 s2 simp flip: e0_def)
  qed
qed

section \<open>Looking up\<close>

lemma sub_owns_add_from_line:
  assumes d: "descriptors_ok net opens" and o: "sub_owns opens base ctx e"
    and k: "0 \<le> k" "k < int (length (sub_slots ctx))" and r: "add_from_line net k line ctx e = (added, ctx', e')"
  shows "sub_owns opens base ctx' e' \<and> sub_slots ctx' = sub_slots ctx"
proof -
  have "(\<exists>cmd topic ip port node ws. tokens_of blank_ends line = cmd # topic # ip # port # node # ws) \<or>
      add_from_line net k line ctx e = (False, ctx, e)"
    by (simp add: add_from_line_def split: list.split)
  then consider cmd topic ip port node ws where "tokens_of blank_ends line = cmd # topic # ip # port # node # ws"
    | "add_from_line net k line ctx e = (False, ctx, e)" by blast
  then show ?thesis
  proof cases
    case 1
    with r obtain rc where "ctx_add_pub net k node ip (sint (atoi port)) ctx e = (rc, ctx', e')"
      by (auto simp: add_from_line_def split: prod.splits)
    from sub_owns_add_pub [OF d o k this] show ?thesis .
  next
    case 2
    with r o show ?thesis by simp
  qed
qed

lemma sub_owns_lookup_lines:
  assumes d: "descriptors_ok net opens"
  shows "sub_owns opens base ctx e \<Longrightarrow> 0 \<le> k \<Longrightarrow> k < int (length (sub_slots ctx)) \<Longrightarrow>
    lookup_lines net k ls found ctx e = (ended, found', ctx', e') \<Longrightarrow>
    sub_owns opens base ctx' e' \<and> sub_slots ctx' = sub_slots ctx"
proof (induction ls arbitrary: found ctx e)
  case (Cons l ls)
  obtain added ctx1 e1 where a: "add_from_line net k (line_of l) ctx e = (added, ctx1, e1)" by (metis surj_pair)
  note o1 = sub_owns_add_from_line [OF d Cons.prems(1-3) a]
  consider "ended" "ctx' = ctx" "e' = e" | "lookup_lines net k ls (found \<or> added) ctx1 e1 = (ended, found', ctx', e')"
    | "lookup_lines net k ls found ctx e = (ended, found', ctx', e')"
    using Cons.prems(4) by (auto simp: a split: if_splits)
  then show ?case
  proof cases
    case 1
    with Cons.prems(1) show ?thesis by simp
  next
    case 2
    with Cons.IH [OF conjunct1 [OF o1] Cons.prems(2) _ 2] o1 Cons.prems(3) show ?thesis by simp
  next
    case 3
    from Cons.IH [OF Cons.prems(1-3) 3] show ?thesis .
  qed
qed simp

lemma sub_owns_lookup_loop:
  assumes d: "descriptors_ok net opens" and r: "lookup_loop net k buf found ctx e = Some (rc, ctx', e')"
  shows "sub_owns opens base ctx e \<longrightarrow> 0 \<le> k \<longrightarrow> k < int (length (sub_slots ctx)) \<longrightarrow>
    sub_owns opens base ctx' e' \<and> sub_slots ctx' = sub_slots ctx"
proof -
  let ?Q = "\<lambda>k ctx e r. sub_owns opens base ctx e \<longrightarrow> 0 \<le> k \<longrightarrow> k < int (length (sub_slots ctx)) \<longrightarrow>
    sub_owns opens base (fst (snd r)) (snd (snd r)) \<and> sub_slots (fst (snd r)) = sub_slots ctx"
  have "net = net \<longrightarrow> ?Q k ctx e (rc, ctx', e')"
  proof (rule lookup_loop.raw_induct [OF _ r, where P = "\<lambda>n k buf found ctx e r. n = net \<longrightarrow> ?Q k ctx e r"])
    fix f n k buf found ctx e r
    assume IH: "\<And>n k buf found ctx e r. f n k buf found ctx e = Some r \<Longrightarrow> n = net \<longrightarrow> ?Q k ctx e r"
      and b: "(case na_recv n (sub_master_sock ctx) (CM_RX_BUF - 1 - length buf) e of
         (None, e1) \<Rightarrow> Some (-1, ctx\<lparr>sub_master_sock := -1\<rparr>, na_close n (sub_master_sock ctx) e1)
       | (Some b, e1) \<Rightarrow>
           (case cut_lines [] (buf @ b) of
              (ls, r) \<Rightarrow>
                (case lookup_lines n k ls found ctx e1 of
                   (ended, found1, ctx1, e2) \<Rightarrow>
                     if ended then Some (if found1 then 0 else -1, ctx1, e2)
                     else f n k (if CM_RX_BUF - 1 \<le> length r then [] else r) found1 ctx1 e2))) = Some r"
    show "n = net \<longrightarrow> ?Q k ctx e r"
    proof (intro impI)
      assume n: "n = net" and o: "sub_owns opens base ctx e" and k: "0 \<le> k" "k < int (length (sub_slots ctx))"
      obtain q e1 where q: "na_recv n (sub_master_sock ctx) (CM_RX_BUF - 1 - length buf) e = (q, e1)" by fastforce
      have e1: "opens e1 = opens e" using descriptors_okD(2) [OF d] q n by (metis snd_conv)
      show "sub_owns opens base (fst (snd r)) (snd (snd r)) \<and> sub_slots (fst (snd r)) = sub_slots ctx"
      proof (cases q)
        case None
        with b q n have "r = (-1, ctx\<lparr>sub_master_sock := -1\<rparr>, na_close net (sub_master_sock ctx) e1)" by simp
        with sub_owns_drop_master [OF d o e1] show ?thesis by simp
      next
        case (Some bs)
        obtain ls rest where c: "cut_lines [] (buf @ bs) = (ls, rest)" by fastforce
        obtain ended found1 ctx1 e2 where l: "lookup_lines net k ls found ctx e1 = (ended, found1, ctx1, e2)" by (metis surj_pair)
        note o1 = sub_owns_lookup_lines [OF d sub_owns_cong [OF o e1] k l]
        show ?thesis
        proof (cases ended)
          case True
          with b q n Some c l o1 show ?thesis by auto
        next
          case False
          with b q n Some c l have "f net k (if CM_RX_BUF - 1 \<le> length rest then [] else rest) found1 ctx1 e2 = Some r" by simp
          from IH [OF this] o1 k show ?thesis by simp
        qed
      qed
    qed
  qed
  then show ?thesis by simp
qed

lemma sub_owns_lookup_slot:
  assumes d: "descriptors_ok net opens" and o: "sub_owns opens base ctx e" and k: "k < length (sub_slots ctx)"
    and r: "ctx_lookup_slot net k ctx e = Some (rc, ctx', e')"
  shows "sub_owns opens base ctx' e' \<and> sub_slots ctx' = sub_slots ctx"
proof -
  obtain ok e1 where s: "send_line net (sub_master_sock ctx) (lookup_topic_line (sl_topic (sub_slots ctx ! k))) e = (ok, e1)"
    by fastforce
  note e1 = send_line_opens [OF d s]
  show ?thesis
  proof (cases ok)
    case False
    with r s have "ctx' = ctx\<lparr>sub_master_sock := -1\<rparr>" "e' = na_close net (sub_master_sock ctx) e1"
      by (auto simp: ctx_lookup_slot_def)
    with sub_owns_drop_master [OF d o e1] show ?thesis by simp
  next
    case True
    with r s have "lookup_loop net (int k) [] False ctx e1 = Some (rc, ctx', e')" by (simp add: ctx_lookup_slot_def)
    from sub_owns_lookup_loop [OF d this] sub_owns_cong [OF o e1] k show ?thesis by simp
  qed
qed

lemma sub_owns_lookup_slots:
  assumes d: "descriptors_ok net opens"
  shows "sub_owns opens base ctx e \<Longrightarrow> \<forall>k\<in>set ks. k < length (sub_slots ctx) \<Longrightarrow>
    lookup_slots net ks ctx e = Some (ctx', e') \<Longrightarrow> sub_owns opens base ctx' e' \<and> sub_slots ctx' = sub_slots ctx"
proof (induction ks arbitrary: ctx e)
  case (Cons k ks)
  from Cons.prems(3) obtain rc ctx1 e1 where l: "ctx_lookup_slot net k ctx e = Some (rc, ctx1, e1)"
    and r: "lookup_slots net ks ctx1 e1 = Some (ctx', e')" by (auto split: option.splits)
  have "k < length (sub_slots ctx)" using Cons.prems(2) by simp
  note o1 = sub_owns_lookup_slot [OF d Cons.prems(1) this l]
  with Cons.IH [OF _ _ r] Cons.prems(2) show ?case by simp
qed simp

lemma sub_owns_reconnect_all:
  assumes d: "descriptors_ok net opens" and o: "sub_owns opens base ctx e" and r: "ctx_reconnect_all_pubs net ctx e = Some (ctx', e')"
  shows "sub_owns opens base ctx' e' \<and> sub_slots ctx' = sub_slots ctx"
proof -
  obtain rc ctx1 e1 where m: "ctx_reconnect_master net ctx e = (rc, ctx1, e1)" by (metis surj_pair)
  note o1 = sub_owns_reconnect_master [OF d o m]
  have "ctx1 = ctx' \<and> e1 = e' \<or> lookup_slots net [0..<length (sub_slots ctx1)] ctx1 e1 = Some (ctx', e') \<or>
      lookup_slots net [0..<length (sub_slots ctx)] ctx e = Some (ctx', e')"
    using r unfolding ctx_reconnect_all_pubs_def m by (cases "sub_master_sock ctx < 0"; cases "rc = 0") simp_all
  then consider "ctx1 = ctx'" "e1 = e'" | "lookup_slots net [0..<length (sub_slots ctx1)] ctx1 e1 = Some (ctx', e')"
    | "lookup_slots net [0..<length (sub_slots ctx)] ctx e = Some (ctx', e')" by blast
  then show ?thesis
  proof cases
    case 1
    with o1 show ?thesis by simp
  next
    case 2
    from sub_owns_lookup_slots [OF d conjunct1 [OF o1] _ 2] o1 show ?thesis by simp
  next
    case 3
    from sub_owns_lookup_slots [OF d o _ 3] show ?thesis by simp
  qed
qed

section \<open>The interface\<close>

lemma sub_owns_create:
  assumes d: "descriptors_ok net opens" and b: "\<forall>fd\<in>opens e. 0 \<le> fd"
    and r: "cmos_sub_create net ip port node e = (res, e')"
  shows "case res of None \<Rightarrow> opens e' = opens e | Some ctx \<Rightarrow> sub_owns opens (opens e) ctx e' \<and> sub_slots ctx = []"
proof -
  obtain ep e1 where ep: "na_epoll_create net e = (ep, e1)" by fastforce
  note f1 = descriptors_okD(4) [OF d, of e, unfolded ep opens_fresh_def fst_conv snd_conv]
  obtain ms e2 where c: "connect_tcp net ip port e1 = (ms, e2)" by fastforce
  note f2 = connect_tcp_opens [OF d, of e1 ip port, unfolded c opens_fresh_def fst_conv snd_conv]
  obtain ok e3 where s: "send_line net ms (node_line node) e2 = (ok, e3)" by fastforce
  note k = send_line_opens [OF d s] and cl = descriptors_okD(1) [OF d]
  consider "ep < 0" | "0 \<le> ep" "ms < 0" | "0 \<le> ep" "0 \<le> ms" "\<not> ok" | "0 \<le> ep" "0 \<le> ms" ok by linarith
  then show ?thesis
  proof cases
    case 1
    with r f1 show ?thesis by (auto simp: cmos_sub_create_def ep)
  next
    case 2
    with r f1 f2 show ?thesis by (auto simp: cmos_sub_create_def ep c cl)
  next
    case 3
    with r f1 f2 k show ?thesis by (auto simp: cmos_sub_create_def ep c s cl)
  next
    case 4
    define ctx :: "'b sub_ctx" where "ctx = \<lparr>sub_master_sock = ms, sub_master_ip = take 63 ip, sub_master_port = port,
      sub_node_name = take 63 node, sub_slots = [], pub_conns = replicate 256 closed_conn, pub_count = 0, sub_epfd = ep\<rparr>"
    have res: "res = Some ctx" "e' = e3" using 4 r by (auto simp: cmos_sub_create_def ep c s ctx_init_conns_def ctx_def)
    have a: "filter conn_active (replicate n closed_conn) = []" for n by (simp add: closed_conn_def)
    have "sub_owns opens (opens e) ctx e3"
      using 4 f1 f2 k b by (auto simp: sub_owns_def table_ok_def sub_fds_def ctx_def a list_all_iff)
    then show ?thesis by (simp add: res) (simp add: ctx_def)
  qed
qed

lemma conn_ok_more: "conn_ok n c \<Longrightarrow> conn_ok (Suc n) c"
  by (auto simp: conn_ok_def split: if_splits)

lemma sub_owns_add:
  assumes d: "descriptors_ok net opens" and o: "sub_owns opens base ctx e"
    and r: "cmos_sub_add net topic fs ft fk cb ctx e = Some (rc, ctx', e')"
  shows "sub_owns opens base ctx' e' \<and>
    sub_slots ctx' = (if 256 \<le> length (sub_slots ctx) then sub_slots ctx
      else sub_slots ctx @ [\<lparr>sl_topic = take 63 topic, filter_state = filter_of fs, filter_type = filter_of ft,
             filter_key = filter_of fk, sl_cb = cb\<rparr>])"
proof (cases "CM_MAX_SUB_SLOTS \<le> length (sub_slots ctx)")
  case True
  with r o show ?thesis by (simp add: cmos_sub_add_def)
next
  case False
  define ctx1 where "ctx1 = ctx\<lparr>sub_slots := sub_slots ctx @ [\<lparr>sl_topic = take 63 topic, filter_state = filter_of fs,
    filter_type = filter_of ft, filter_key = filter_of fk, sl_cb = cb\<rparr>]\<rparr>"
  have o1: "sub_owns opens base ctx1 e"
    using o False by (auto simp: sub_owns_def table_ok_def sub_fds_def ctx1_def list_all_iff conn_ok_more)
  obtain ok e1 where s: "send_line net (sub_master_sock ctx1) (register_sub_line topic) e = (ok, e1)" by fastforce
  have x: "(case ctx_lookup_slot net (length (sub_slots ctx)) ctx1 e1 of
      None \<Rightarrow> None | Some (_, ctx2, e2) \<Rightarrow> Some (0, ctx2, e2)) = Some (rc, ctx', e')"
    using r s unfolding cmos_sub_add_def if_not_P [OF False] Let_def ctx1_def [symmetric] by simp
  obtain rc2 where l: "ctx_lookup_slot net (length (sub_slots ctx)) ctx1 e1 = Some (rc2, ctx', e')"
  proof (cases "ctx_lookup_slot net (length (sub_slots ctx)) ctx1 e1")
    case None
    with x show ?thesis by simp
  next
    case (Some a)
    with x that show ?thesis by (cases a) simp
  qed
  have "length (sub_slots ctx) < length (sub_slots ctx1)" by (simp add: ctx1_def)
  from sub_owns_lookup_slot [OF d sub_owns_cong [OF o1 send_line_opens [OF d s]] this l] False
  show ?thesis by (simp add: ctx1_def)
qed

lemma sub_owns_receive_event:
  assumes d: "descriptors_ok net opens" and o: "sub_owns opens base ctx e" and r: "receive_event net i ctx e = (calls, ctx', e')"
  shows "sub_owns opens base ctx' e' \<and> sub_slots ctx' = sub_slots ctx"
proof (cases "CM_MAX_PUB_CONN \<le> i \<or> \<not> conn_active (pub_conns ctx ! i) \<or> conn_sock (pub_conns ctx ! i) < 0")
  case True
  then have "receive_event net i ctx e = ([], ctx, e)" by (auto simp: receive_event_def Let_def)
  with r o show ?thesis by simp
next
  case False
  then have i: "i < CM_MAX_PUB_CONN" and a: "conn_active (pub_conns ctx ! i)" "0 \<le> conn_sock (pub_conns ctx ! i)" by auto
  have l: "i < length (pub_conns ctx)" using i o by (simp add: sub_owns_def table_ok_def)
  obtain xs c ys where s: "pub_conns ctx = xs @ c # ys" "pub_conns ctx ! i = c" "\<And>d. (pub_conns ctx)[i := d] = xs @ d # ys"
    by (rule split_conns [OF l]) blast
  have c: "conn_ok (length (sub_slots ctx)) c" using o by (simp add: sub_owns_def table_ok_def s(1))
  obtain q e1 where q: "na_recv net (conn_sock c) (CM_RX_BUF - 1 - length (conn_rx c)) e = (q, e1)" by fastforce
  have e1: "opens e1 = opens e" using descriptors_okD(2) [OF d] q by (metis snd_conv)
  show ?thesis
  proof (cases q)
    case None
    obtain ctx1 e2 where cl: "ctx_close_conn net i ctx e1 = (ctx1, e2)" by fastforce
    have "sub_slots ctx1 = sub_slots ctx" using cl by (auto simp: ctx_close_conn_def Let_def split: if_splits)
    moreover have "ctx' = ctx1" "e' = e2" using r None q cl i a by (simp_all add: receive_event_def Let_def s(2))
    moreover have "sub_owns opens base ctx1 e2" using sub_owns_close [OF d sub_owns_cong [OF o e1], of i] by (simp add: cl)
    ultimately show ?thesis by simp
  next
    case (Some bs)
    obtain ls rx where f: "rx_feed (conn_rx c) bs = (ls, rx)" by fastforce
    have rx: "length rx < CM_RX_BUF - 1" using f by (auto simp: rx_feed_def split: prod.splits if_splits)
    have cr: "conn_ok (length (sub_slots ctx)) (c\<lparr>conn_rx := rx\<rparr>)" using c rx a by (simp add: conn_ok_def s(2))
    have fd: "fd_of (c\<lparr>conn_rx := rx\<rparr>) = fd_of c" by (simp add: fd_of_def)
    have "set (fd_of c) \<subseteq> set (sub_fds ctx)" by (simp add: sub_fds_def s(1) fd_of_def)
    moreover have "set (sub_fds ctx) \<subseteq> opens e" using o unfolding sub_owns_def by blast
    ultimately have "set (fd_of c) \<subseteq> opens e" by (rule subset_trans)
    with sub_owns_replace [OF o s(1) cr, of e1]
    have "sub_owns opens base (ctx\<lparr>pub_conns := xs @ c\<lparr>conn_rx := rx\<rparr> # ys\<rparr>) e1"
      by (simp add: fd e1 Un_absorb2)
    moreover have "ctx' = ctx\<lparr>pub_conns := xs @ c\<lparr>conn_rx := rx\<rparr> # ys\<rparr>" "e' = e1"
      using r Some q f i a by (simp_all add: receive_event_def Let_def s(2,3))
    ultimately show ?thesis by simp
  qed
qed

lemma sub_owns_receive_events:
  assumes d: "descriptors_ok net opens"
  shows "sub_owns opens base ctx e \<Longrightarrow> receive_events net is ctx e = (calls, ctx', e') \<Longrightarrow>
    sub_owns opens base ctx' e' \<and> sub_slots ctx' = sub_slots ctx"
proof (induction "is" arbitrary: ctx e calls)
  case (Cons i "is")
  obtain c1 ctx1 e1 where v: "receive_event net i ctx e = (c1, ctx1, e1)" by (metis surj_pair)
  obtain c2 where r: "receive_events net is ctx1 e1 = (c2, ctx', e')" using Cons.prems(2) v by (auto split: prod.splits)
  note o1 = sub_owns_receive_event [OF d Cons.prems(1) v]
  with Cons.IH [OF conjunct1 [OF o1] r] show ?case by simp
qed simp

lemma sub_owns_refresh:
  assumes d: "descriptors_ok net opens" and o: "sub_owns opens base ctx e" and r: "refresh net due ctx e = Some (ctx', e')"
  shows "sub_owns opens base ctx' e' \<and> sub_slots ctx' = sub_slots ctx"
proof -
  obtain ctx1 e1 where m: "(if sub_master_sock ctx < 0 then snd (ctx_reconnect_master net ctx e) else (ctx, e)) = (ctx1, e1)"
    by fastforce
  have o1: "sub_owns opens base ctx1 e1 \<and> sub_slots ctx1 = sub_slots ctx"
  proof (cases "sub_master_sock ctx < 0")
    case True
    then have "ctx_reconnect_master net ctx e = (fst (ctx_reconnect_master net ctx e), ctx1, e1)" using m by (simp add: prod_eq_iff)
    from sub_owns_reconnect_master [OF d o this] show ?thesis .
  next
    case False
    with m o show ?thesis by simp
  qed
  have "ctx' = ctx \<and> e' = e \<or> ctx' = ctx1 \<and> e' = e1 \<or> lookup_slots net [0..<length (sub_slots ctx1)] ctx1 e1 = Some (ctx', e')"
    using r unfolding refresh_def m by (cases due; cases "0 \<le> sub_master_sock ctx1") simp_all
  then consider "ctx' = ctx" "e' = e" | "ctx' = ctx1" "e' = e1" | "lookup_slots net [0..<length (sub_slots ctx1)] ctx1 e1 = Some (ctx', e')"
    by blast
  then show ?thesis
  proof cases
    case 3
    from sub_owns_lookup_slots [OF d conjunct1 [OF o1] _ 3] o1 show ?thesis by simp
  qed (use o o1 in simp_all)
qed

lemma sub_owns_spin_turn:
  assumes d: "descriptors_ok net opens" and o: "sub_owns opens base ctx e"
    and r: "spin_turn net due events ctx e = Some (calls, ctx', e')"
  shows "sub_owns opens base ctx' e' \<and> sub_slots ctx' = sub_slots ctx"
proof -
  obtain ctx1 e1 where a: "(if ctx_active_count ctx = 0 then ctx_reconnect_all_pubs net ctx e else Some (ctx, e)) = Some (ctx1, e1)"
    using r by (auto simp: spin_turn_def split: option.splits)
  have o1: "sub_owns opens base ctx1 e1 \<and> sub_slots ctx1 = sub_slots ctx"
  proof (cases "ctx_active_count ctx = 0")
    case True
    with sub_owns_reconnect_all [OF d o] a show ?thesis by simp
  next
    case False
    with a o show ?thesis by simp
  qed
  note r' = r [unfolded spin_turn_def a option.case prod.case]
  show ?thesis
  proof (cases "ctx_active_count ctx1 = 0")
    case True
    with r' have "ctx_reconnect_all_pubs net ctx1 e1 = Some (ctx', e')" by (auto simp: case_prod_unfold)
    from sub_owns_reconnect_all [OF d conjunct1 [OF o1] this] o1 show ?thesis by simp
  next
    case False
    with r' obtain ctx2 e2 where f: "refresh net due ctx1 e1 = Some (ctx2, e2)"
      and v: "receive_events net events ctx2 e2 = (calls, ctx', e')" by (auto simp: case_prod_unfold)
    note o2 = sub_owns_refresh [OF d conjunct1 [OF o1] f]
    from sub_owns_receive_events [OF d conjunct1 [OF o2] v] o1 o2 show ?thesis by simp
  qed
qed

section \<open>Closing\<close>

lemma close_conn_at:
  assumes "length (pub_conns ctx) = CM_MAX_PUB_CONN"
  shows "pub_conns (fst (ctx_close_conn net i ctx e)) = (pub_conns ctx)[i := closed_conn]"
    and "sub_master_sock (fst (ctx_close_conn net i ctx e)) = sub_master_sock ctx"
    and "sub_epfd (fst (ctx_close_conn net i ctx e)) = sub_epfd ctx"
  using assms by (simp_all add: ctx_close_conn_def Let_def list_update_beyond)

lemma close_conns:
  assumes "descriptors_ok net opens"
  shows "sub_owns opens base ctx e \<Longrightarrow> fold (\<lambda>i (ctx, e). ctx_close_conn net i ctx e) is (ctx, e) = (ctx', e') \<Longrightarrow>
    sub_owns opens base ctx' e' \<and> (\<forall>i<CM_MAX_PUB_CONN. i \<in> set is \<or> pub_conns ctx ! i = closed_conn \<longrightarrow> pub_conns ctx' ! i = closed_conn) \<and>
    sub_master_sock ctx' = sub_master_sock ctx \<and> sub_epfd ctx' = sub_epfd ctx"
proof (induction "is" arbitrary: ctx e)
  case (Cons i "is")
  obtain ctx1 e1 where c: "ctx_close_conn net i ctx e = (ctx1, e1)" by fastforce
  have l: "length (pub_conns ctx) = CM_MAX_PUB_CONN" using Cons.prems(1) by (simp add: sub_owns_def table_ok_def)
  note p = close_conn_at [OF l, of net i e, unfolded c fst_conv]
  have o1: "sub_owns opens base ctx1 e1" using sub_owns_close [OF assms Cons.prems(1), of i] by (simp add: c)
  have "fold (\<lambda>i (ctx, e). ctx_close_conn net i ctx e) is (ctx1, e1) = (ctx', e')" using Cons.prems(2) c by simp
  note IH = Cons.IH [OF o1 this]
  have "\<forall>j<CM_MAX_PUB_CONN. j \<in> set (i # is) \<or> pub_conns ctx ! j = closed_conn \<longrightarrow>
      j \<in> set is \<or> pub_conns ctx1 ! j = closed_conn"
    by (metis l p(1) nth_list_update_eq nth_list_update_neq set_ConsD)
  with IH p(2,3) show ?case by metis
qed simp

lemma sub_destroy_opens:
  assumes d: "descriptors_ok net opens" and o: "sub_owns opens base ctx e"
  shows "opens (cmos_sub_destroy net ctx e) = base"
proof -
  obtain ctx1 e1 where c: "ctx_close_all_conns net ctx e = (ctx1, e1)" by fastforce
  note k = close_conns [OF d o c [unfolded ctx_close_all_conns_def]]
  then have o1: "sub_owns opens base ctx1 e1" by blast
  have "list_all (\<lambda>c. c = closed_conn) (pub_conns ctx1)"
    using k o1 by (simp add: list_all_length sub_owns_def table_ok_def)
  then have a: "filter conn_active (pub_conns ctx1) = []"
    by (auto simp: list_all_iff filter_empty_conv closed_conn_def)
  have cl: "opens (na_close net fd e') = opens e' - {fd}" for fd e' using descriptors_okD(1) [OF d] .
  have u: "0 \<le> sub_epfd ctx1" "distinct (sub_fds ctx1)" "set (sub_fds ctx1) \<inter> base = {}" "opens e1 = base \<union> set (sub_fds ctx1)"
    using o1 by (simp_all only: sub_owns_def)
  show ?thesis
  proof (cases "0 \<le> sub_master_sock ctx1")
    case True
    with u show ?thesis by (auto simp: cmos_sub_destroy_def c Let_def cl sub_fds_def a)
  next
    case False
    with u show ?thesis by (auto simp: cmos_sub_destroy_def c Let_def cl sub_fds_def a)
  qed
qed

end
