(* ===== verification/Cmos_Bridges.thy ===== *)
theory Cmos_Bridges
  imports Cmos_Delivery Cmos_Sub_Facts Bridge_Facts Ups_Bridge
begin

text \<open>
  The processes and threads that tie the two CMOS bridges to the CMOS library: the publisher
  processes \<^verbatim>\<open>inverter_cmos_pub_run\<close> and \<^verbatim>\<open>ups_cmos_pub_run\<close>, and the subscriber threads
  \<^verbatim>\<open>cmos_sub_thread\<close> of \<^verbatim>\<open>src/inverter_cmos_bridge.c\<close> and \<^verbatim>\<open>src/ups_cmos_bridge.c\<close>. A publisher
  runs for a list of turns, each with what \<^verbatim>\<open>epoll_wait\<close> answers and the pool the turn reads; a
  subscriber for a list of turns, each with whether a look-up is due and the connections that
  are readable, until it is cancelled between two turns.
\<close>

abbreviation BRIDGE_MASTER_IP :: string where "BRIDGE_MASTER_IP \<equiv> ''127.0.0.1''"
abbreviation BRIDGE_MASTER_PORT :: int where "BRIDGE_MASTER_PORT \<equiv> 10000"

definition inverter_BRIDGE_NODE_NAME :: string where "inverter_BRIDGE_NODE_NAME = ''inverter_node_pub''"
definition inverter_BRIDGE_PUB_TOPIC :: string where "inverter_BRIDGE_PUB_TOPIC = ''inverter''"
abbreviation inverter_BRIDGE_PUB_PORT :: int where "inverter_BRIDGE_PUB_PORT \<equiv> 13000"

definition ups_BRIDGE_NODE_NAME :: string where "ups_BRIDGE_NODE_NAME = ''ups_node''"
definition ups_BRIDGE_PUB_TOPIC :: string where "ups_BRIDGE_PUB_TOPIC = ''ups''"
abbreviation ups_BRIDGE_PUB_PORT :: int where "ups_BRIDGE_PUB_PORT \<equiv> 12000"

section \<open>Publisher processes\<close>

text \<open>The loop of a publisher process: poll for a subscriber, then publish the turn's messages.\<close>

fun pub_turns :: "'e net_api \<Rightarrow> (bool \<times> pub_msg list) list \<Rightarrow> publisher \<Rightarrow> 'e \<Rightarrow> (publisher \<times> 'e) option" where
  "pub_turns net [] p e = Some (p, e)"
| "pub_turns net ((ready, msgs) # ts) p e =
     (case cmos_pub_poll net ready p e of
        (p1, e1) \<Rightarrow>
          (case cmos_publish_batch net msgs p1 e1 of None \<Rightarrow> None | Some (p2, e2) \<Rightarrow> pub_turns net ts p2 e2))"

definition inverter_cmos_pub_run ::
  "'e net_api \<Rightarrow> (bool \<times> pool) list \<Rightarrow> module_config list \<Rightarrow> publisher \<Rightarrow> 'e \<Rightarrow> (publisher \<times> 'e) option" where
  "inverter_cmos_pub_run net turns cfgs p e =
     (case cmos_pub_init net BRIDGE_MASTER_IP BRIDGE_MASTER_PORT inverter_BRIDGE_NODE_NAME inverter_BRIDGE_PUB_TOPIC
             inverter_BRIDGE_PUB_PORT p e of
        (rc, p1, e1) \<Rightarrow>
          if rc \<noteq> 0 then Some (p1, e1)
          else map_option (\<lambda>(p2, e2). cmos_pub_close net p2 e2)
                 (pub_turns net (map (\<lambda>(ready, pl). (ready, inverter_publish_round pl cfgs)) turns) p1 e1))"

definition ups_cmos_pub_run ::
  "'e net_api \<Rightarrow> (bool \<times> pool) list \<Rightarrow> module_config list \<Rightarrow> publisher \<Rightarrow> 'e \<Rightarrow> (publisher \<times> 'e) option" where
  "ups_cmos_pub_run net turns cfgs p e =
     (case cmos_pub_init net BRIDGE_MASTER_IP BRIDGE_MASTER_PORT ups_BRIDGE_NODE_NAME ups_BRIDGE_PUB_TOPIC
             ups_BRIDGE_PUB_PORT p e of
        (rc, p1, e1) \<Rightarrow>
          if rc \<noteq> 0 then Some (p1, e1)
          else map_option (\<lambda>(p2, e2). cmos_pub_close net p2 e2)
                 (pub_turns net (map (\<lambda>(ready, pl). (ready, ups_publish_round pl cfgs)) turns) p1 e1))"

section \<open>Subscriber threads\<close>

text \<open>The calls of \<^verbatim>\<open>cmos_sub_add\<close>, whose results are not looked at; \<^const>\<open>None\<close> when a look-up
  never ends.\<close>

fun add_subscriptions ::
  "'e net_api \<Rightarrow> (string \<times> string option \<times> string \<times> string \<times> 'cb) list \<Rightarrow> 'cb sub_ctx \<Rightarrow> 'e \<Rightarrow>
     ('cb sub_ctx \<times> 'e) option" where
  "add_subscriptions net [] ctx e = Some (ctx, e)"
| "add_subscriptions net ((topic, fs, ft, fk, h) # subs) ctx e =
     (case cmos_sub_add net topic fs (Some ft) (Some fk) (Some h) ctx e of
        None \<Rightarrow> None
      | Some (_, ctx1, e1) \<Rightarrow> add_subscriptions net subs ctx1 e1)"

fun spin_turns ::
  "'e net_api \<Rightarrow> (bool \<times> nat list) list \<Rightarrow> 'cb sub_ctx \<Rightarrow> 'e \<Rightarrow>
     (('cb \<times> string \<times> string) list \<times> 'cb sub_ctx \<times> 'e) option" where
  "spin_turns net [] ctx e = Some ([], ctx, e)"
| "spin_turns net ((due, events) # ts) ctx e =
     (case spin_turn net due events ctx e of
        None \<Rightarrow> None
      | Some (calls, ctx1, e1) \<Rightarrow>
          map_option (\<lambda>(calls2, ctx2, e2). (calls @ calls2, ctx2, e2)) (spin_turns net ts ctx1 e1))"

definition cleanup_sub_ctx :: "'e net_api \<Rightarrow> 'cb sub_ctx \<Rightarrow> 'e \<Rightarrow> 'e" where
  "cleanup_sub_ctx net ctx e = cmos_sub_destroy net ctx e"

text \<open>The thread up to its cancellation, with the calls it made.\<close>

definition sub_session ::
  "'e net_api \<Rightarrow> string \<Rightarrow> (string \<times> string option \<times> string \<times> string \<times> 'cb) list \<Rightarrow> (bool \<times> nat list) list \<Rightarrow> 'e \<Rightarrow>
     ((('cb \<times> string \<times> string) list \<times> 'cb sub_ctx) option \<times> 'e) option" where
  "sub_session net node subs turns e =
     (case cmos_sub_create net BRIDGE_MASTER_IP BRIDGE_MASTER_PORT node e of
        (None, e1) \<Rightarrow> Some (None, e1)
      | (Some ctx, e1) \<Rightarrow>
          (case add_subscriptions net subs ctx e1 of
             None \<Rightarrow> None
           | Some (ctx1, e2) \<Rightarrow>
               map_option (\<lambda>(calls, ctx2, e3). (Some (calls, ctx2), e3)) (spin_turns net turns ctx1 e2)))"

definition inverter_cmos_sub_thread ::
  "'e net_api \<Rightarrow> (bool \<times> nat list) list \<Rightarrow> 'e \<Rightarrow> ((inverter_handler \<times> string \<times> string) list \<times> 'e) option" where
  "inverter_cmos_sub_thread net turns e =
     map_option (\<lambda>(r, e1). case r of None \<Rightarrow> ([], e1) | Some (calls, ctx) \<Rightarrow> (calls, cleanup_sub_ctx net ctx e1))
       (sub_session net ''inverter_sub'' inverter_subscriptions turns e)"

definition ups_cmos_sub_thread ::
  "'e net_api \<Rightarrow> (bool \<times> nat list) list \<Rightarrow> 'e \<Rightarrow> ((ups_handler \<times> string \<times> string) list \<times> 'e) option" where
  "ups_cmos_sub_thread net turns e =
     map_option (\<lambda>(r, e1). case r of None \<Rightarrow> ([], e1) | Some (calls, ctx) \<Rightarrow> (calls, cleanup_sub_ctx net ctx e1))
       (sub_session net ''ups_sub'' ups_subscriptions turns e)"

section \<open>What the bridges publish can be sent\<close>

lemma decimal_plain: "decimal s \<Longrightarrow> plain s"
proof -
  have "c \<notin> set blank_ends \<and> c \<noteq> CHR 0x00" if "48 \<le> code_of c" for c
  proof -
    have "\<forall>d\<in>set (CHR 0x00 # blank_ends). code_of d < 48" by code_simp
    with that show ?thesis by auto
  qed
  then show "decimal s \<Longrightarrow> plain s" by (simp add: decimal_def plain_def)
qed

lemma plain_take: "plain s \<Longrightarrow> plain (take n s)"
  by (auto simp: plain_def dest: in_set_takeD)

lemma plain_show_nat [simp]: "plain (show_nat n)"
  by (simp add: decimal_plain)

lemma plain_show_fixed2: "plain (show_fixed2 h)"
proof -
  have "h div 10 mod 10 < 10" "h mod 10 < 10" by simp_all
  then have "h div 10 mod 10 \<le> 9" "h mod 10 \<le> 9" by linarith+
  then have "plain [digit_char (h div 10 mod 10), digit_char (h mod 10)]" by (intro decimal_plain) simp
  then show ?thesis by (simp add: show_fixed2_def)
qed

lemma sendable_status:
  assumes "plain st" "length st \<le> 10" "plain key" "length key \<le> 100" "plain v" "length v \<le> 7"
  shows "sendable (Some st, None, Some key, Some v)"
  using assms by (simp add: message_words_def PUB_DATA_CAP_def)

lemma connection_state_plain:
  "plain (connection_pub_state pl)" "length (connection_pub_state pl) \<le> 10"
  "plain (ups_connection_pub_state pl)" "length (ups_connection_pub_state pl) \<le> 10"
  by (simp_all add: connection_pub_state_def ups_connection_pub_state_def split: option.splits)

lemma descriptions_plain:
  "list_all (\<lambda>m. plain (description m) \<and> length (description m) \<le> 100) (rows inverter1_profile)"
  "list_all (\<lambda>m. plain (description m) \<and> length (description m) \<le> 100) (rows ups1_profile)"
  by code_simp+

lemma descriptions_nonempty: "list_all (\<lambda>m. description m \<noteq> []) (rows inverter1_profile)"
  by code_simp

lemma sendable_number:
  assumes "plain st" "length st \<le> 10" "plain key" "length key \<le> 100"
  shows "sendable (Some st, None, Some key, Some (take 7 (show_nat n)))"
  using assms by (intro sendable_status) (simp_all add: plain_take del: take_all)

lemma sendable_duty:
  assumes "plain st" "length st \<le> 10" "plain key" "length key \<le> 100"
  shows "sendable (Some st, None, Some key, Some (take 7 (format_2f (hundredths (frequency_convert_duty pl f)))))"
  using assms unfolding format_hundredths [OF frequency_convert_duty_le]
  by (intro sendable_status plain_take plain_show_fixed2) simp_all

lemma inverter_round_sendable: "list_all sendable (inverter_publish_round pl cfgs)"
proof -
  note c = connection_state_plain(1,2) [of pl]
  have p: "list_all sendable (publish_pool_register pl None (Some key) a)" if "plain key" "length key \<le> 100" for key a
    using sendable_number [OF c that] by (simp add: publish_pool_register_def del: sendable.simps split: option.split)
  have "list_all sendable (publish_all_pool_register pl cfg)" for cfg
    using descriptions_plain(1) p by (auto simp: publish_all_pool_register_def list_all_iff simp del: sendable.simps)
  moreover have "list_all sendable (publish_additional_item pl cfg)" for cfg
    unfolding publish_additional_item_def publish_frequency_cmd_duty_def publish_frequency_out_duty_def
      publish_fault_warning_code_def Let_def
    by (simp add: sendable_duty [OF c] sendable_number [OF c] p del: sendable.simps)
  ultimately show ?thesis by (auto simp: inverter_publish_round_def list_all_iff simp del: sendable.simps)
qed

lemma ups_round_sendable: "list_all sendable (ups_publish_round pl cfgs)"
proof -
  note c = connection_state_plain(3,4) [of pl]
  have p: "list_all sendable (ups_publish_pool_register pl None (Some key) a)" if "plain key" "length key \<le> 100" for key a
    using sendable_number [OF c that] by (simp add: ups_publish_pool_register_def del: sendable.simps split: option.split)
  have "list_all sendable (ups_publish_all_pool_register pl cfg)" for cfg
    using descriptions_plain(2) p by (auto simp: ups_publish_all_pool_register_def list_all_iff simp del: sendable.simps)
  moreover have "list_all sendable (ups_publish_additional_item pl cfg)" for cfg
    by (simp add: ups_publish_additional_item_def p del: sendable.simps)
  ultimately show ?thesis by (auto simp: ups_publish_round_def list_all_iff simp del: sendable.simps)
qed

section \<open>Processes leave no descriptor behind\<close>

lemma batch_owns:
  assumes d: "descriptors_ok net opens"
  shows "owns opens base p e \<Longrightarrow> list_all sendable msgs \<Longrightarrow>
    \<exists>p' e'. cmos_publish_batch net msgs p e = Some (p', e') \<and> owns opens base p' e'"
proof (induction msgs arbitrary: p e)
  case (Cons m msgs)
  obtain st ty key v where m: "m = (st, ty, key, v)" by (cases m)
  have s: "sendable (st, ty, key, v)" using Cons.prems(2) by (simp add: m del: sendable.simps)
  obtain p1 e1 where c: "cmos_publish net st ty key v p e = Some (p1, e1)"
    by (simp add: cmos_publish_def message_data(1) [OF s] case_prod_unfold)
  from publish_owns [OF d Cons.prems(1) c] have "owns opens base p1 e1" by blast
  from Cons.IH [OF this] Cons.prems(2) show ?case by (simp add: m c del: sendable.simps)
qed simp

lemma pub_turns_owns:
  assumes d: "descriptors_ok net opens"
  shows "owns opens base p e \<Longrightarrow> list_all (\<lambda>(ready, msgs). list_all sendable msgs) ts \<Longrightarrow>
    \<exists>p' e'. pub_turns net ts p e = Some (p', e') \<and> owns opens base p' e'"
proof (induction ts arbitrary: p e)
  case (Cons t ts)
  obtain ready msgs where t: "t = (ready, msgs)" by fastforce
  obtain p1 e1 where l: "cmos_pub_poll net ready p e = (p1, e1)" by fastforce
  have "owns opens base p1 e1" using pub_poll_owns [OF d Cons.prems(1), of ready] by (simp add: l)
  from batch_owns [OF d this, of msgs] Cons.prems(2) obtain p2 e2
    where b: "cmos_publish_batch net msgs p1 e1 = Some (p2, e2)" "owns opens base p2 e2" by (auto simp: t)
  from Cons.IH [OF b(2)] Cons.prems(2) show ?case by (simp add: t l b(1))
qed simp

lemma pub_run_opens:
  assumes d: "descriptors_ok net opens" and s: "list_all (\<lambda>(ready, msgs). list_all sendable msgs) ts"
  shows "\<exists>p' e'. (case cmos_pub_init net ip mport node topic port p e of
       (rc, p1, e1) \<Rightarrow> if rc \<noteq> 0 then Some (p1, e1)
         else map_option (\<lambda>(p2, e2). cmos_pub_close net p2 e2) (pub_turns net ts p1 e1)) = Some (p', e') \<and> opens e' = opens e"
proof -
  obtain rc p1 e1 where i: "cmos_pub_init net ip mport node topic port p e = (rc, p1, e1)" by (metis surj_pair)
  show ?thesis
  proof (cases "rc = 0")
    case True
    with pub_init_owns [OF d i] have "owns opens (opens e) p1 e1" by simp
    from pub_turns_owns [OF d this s] obtain p2 e2 where t: "pub_turns net ts p1 e1 = Some (p2, e2)" "owns opens (opens e) p2 e2"
      by blast
    show ?thesis using pub_close_opens [OF d t(2)] by (simp add: i True t(1)) (metis surj_pair snd_conv)
  next
    case False
    with pub_init_owns [OF d i] show ?thesis by (simp add: i)
  qed
qed

text \<open>
  C21. Whatever the operating system answers and whatever the pool holds, both publisher
  processes run through any number of turns, never send uninitialised data, and leave exactly
  the descriptors open that were open before.
\<close>

theorem publisher_processes_clean:
  assumes "descriptors_ok net opens"
  shows "(\<exists>p' e'. inverter_cmos_pub_run net turns cfgs p e = Some (p', e') \<and> opens e' = opens e) \<and>
    (\<exists>p' e'. ups_cmos_pub_run net turns cfgs p e = Some (p', e') \<and> opens e' = opens e)"
proof
  show "\<exists>p' e'. inverter_cmos_pub_run net turns cfgs p e = Some (p', e') \<and> opens e' = opens e"
    unfolding inverter_cmos_pub_run_def
    by (rule pub_run_opens [OF assms]) (auto simp: list_all_iff inverter_round_sendable [unfolded list_all_iff] simp del: sendable.simps)
  show "\<exists>p' e'. ups_cmos_pub_run net turns cfgs p e = Some (p', e') \<and> opens e' = opens e"
    unfolding ups_cmos_pub_run_def
    by (rule pub_run_opens [OF assms]) (auto simp: list_all_iff ups_round_sendable [unfolded list_all_iff] simp del: sendable.simps)
qed

text \<open>What a subscription becomes, and the calls it can cause.\<close>

fun slot_of :: "string \<times> string option \<times> string \<times> string \<times> 'cb \<Rightarrow> 'cb sub_slot" where
  "slot_of (topic, fs, ft, fk, h) =
     \<lparr>sl_topic = take 63 topic, filter_state = filter_of fs, filter_type = filter_of (Some ft),
      filter_key = filter_of (Some fk), sl_cb = Some h\<rparr>"

lemma add_subscriptions_owns:
  assumes d: "descriptors_ok net opens"
  shows "sub_owns opens base ctx e \<Longrightarrow> length (sub_slots ctx) + length subs \<le> 256 \<Longrightarrow>
    add_subscriptions net subs ctx e = Some (ctx', e') \<Longrightarrow>
    sub_owns opens base ctx' e' \<and> sub_slots ctx' = sub_slots ctx @ map slot_of subs"
proof (induction subs arbitrary: ctx e)
  case (Cons s subs)
  obtain topic fs ft fk h where s: "s = (topic, fs, ft, fk, h)" by (cases s)
  from Cons.prems(3) obtain rc ctx1 e1 where a: "cmos_sub_add net topic fs (Some ft) (Some fk) (Some h) ctx e = Some (rc, ctx1, e1)"
    and r: "add_subscriptions net subs ctx1 e1 = Some (ctx', e')" by (auto simp: s split: option.splits)
  have l: "\<not> 256 \<le> length (sub_slots ctx)" using Cons.prems(2) by simp
  from sub_owns_add [OF d Cons.prems(1) a] have o1: "sub_owns opens base ctx1 e1"
    and sl: "sub_slots ctx1 = sub_slots ctx @ [slot_of s]" by (simp_all add: if_not_P [OF l] s)
  from Cons.IH [OF o1 _ r] Cons.prems(2) show ?case by (simp add: sl)
qed simp

text \<open>A call comes from a slot, under the slot's topic.\<close>

definition call_of_slot :: "'cb sub_slot list \<Rightarrow> 'cb \<times> string \<times> string \<Rightarrow> bool" where
  "call_of_slot slots c \<longleftrightarrow> list_ex (\<lambda>s. sl_cb s = Some (fst c) \<and> sl_topic s = fst (snd c)) slots"

lemma slot_receive_call:
  "slot_receive s topic data = Some c \<Longrightarrow> sl_cb s = Some (fst c) \<and> fst (snd c) = topic"
  unfolding slot_receive_def Let_def by (cases "sl_cb s") (simp_all split: if_splits, auto)

lemma handle_line_call: "ctx_handle_line slots k line = Some c \<Longrightarrow> call_of_slot slots c"
proof -
  assume h: "ctx_handle_line slots k line = Some c"
  then have "\<exists>data. \<not> (k < 0 \<or> int (length slots) \<le> k) \<and>
      slot_receive (slots ! nat k) (sl_topic (slots ! nat k)) data = Some c"
    unfolding ctx_handle_line_def by (auto split: option.splits prod.splits if_splits)
  then obtain data where k: "\<not> (k < 0 \<or> int (length slots) \<le> k)"
    and "slot_receive (slots ! nat k) (sl_topic (slots ! nat k)) data = Some c" by blast
  from slot_receive_call [OF this(2)] k show ?thesis unfolding call_of_slot_def list_ex_length
    by (intro exI [of _ "nat k"]) auto
qed

lemma list_all_map_filter: "(\<And>x y. f x = Some y \<Longrightarrow> P y) \<Longrightarrow> list_all P (List.map_filter f xs)"
  by (induction xs) (auto split: option.split)

lemma in_map_filter: "x \<in> set xs \<Longrightarrow> f x = Some y \<Longrightarrow> y \<in> set (List.map_filter f xs)"
  by (induction xs) (auto split: option.split)

lemma receive_event_calls:
  assumes "receive_event net i ctx e = (calls, ctx', e')"
  shows "list_all (call_of_slot (sub_slots ctx)) calls"
proof -
  have "calls = [] \<or> (\<exists>ls. calls = List.map_filter (ctx_handle_line (sub_slots ctx) (conn_slot (pub_conns ctx ! i))) ls)"
    using assms unfolding receive_event_def Let_def by (auto split: if_splits prod.splits option.splits)
  then show ?thesis by (auto intro: list_all_map_filter handle_line_call)
qed

lemma receive_events_calls:
  assumes d: "descriptors_ok net opens"
  shows "sub_owns opens base ctx e \<Longrightarrow> receive_events net is ctx e = (calls, ctx', e') \<Longrightarrow>
    list_all (call_of_slot (sub_slots ctx)) calls"
proof (induction "is" arbitrary: ctx e calls)
  case (Cons i "is")
  obtain c1 ctx1 e1 where v: "receive_event net i ctx e = (c1, ctx1, e1)" by (metis surj_pair)
  obtain c2 where r: "receive_events net is ctx1 e1 = (c2, ctx', e')" and c: "calls = c1 @ c2"
    using Cons.prems(2) v by (auto split: prod.splits)
  note o1 = sub_owns_receive_event [OF d Cons.prems(1) v]
  from Cons.IH [OF conjunct1 [OF o1] r] o1 receive_event_calls [OF v] show ?case by (simp add: c)
qed simp

lemma spin_turn_calls:
  assumes d: "descriptors_ok net opens" and o: "sub_owns opens base ctx e"
    and r: "spin_turn net due events ctx e = Some (calls, ctx', e')"
  shows "list_all (call_of_slot (sub_slots ctx)) calls"
proof -
  from r obtain ctx1 e1 where a: "(if ctx_active_count ctx = 0 then ctx_reconnect_all_pubs net ctx e else Some (ctx, e)) = Some (ctx1, e1)"
    unfolding spin_turn_def by (cases "if ctx_active_count ctx = 0 then ctx_reconnect_all_pubs net ctx e else Some (ctx, e)") auto
  have o1: "sub_owns opens base ctx1 e1 \<and> sub_slots ctx1 = sub_slots ctx"
    using sub_owns_reconnect_all [OF d o] a o by (cases "ctx_active_count ctx = 0") simp_all
  note r' = r [unfolded spin_turn_def a option.case prod.case]
  show ?thesis
  proof (cases "ctx_active_count ctx1 = 0")
    case True
    with r' have "calls = []" by (auto simp: case_prod_unfold)
    then show ?thesis by simp
  next
    case False
    with r' obtain ctx2 e2 where f: "refresh net due ctx1 e1 = Some (ctx2, e2)"
      and v: "receive_events net events ctx2 e2 = (calls, ctx', e')" by (auto simp: case_prod_unfold)
    note o2 = sub_owns_refresh [OF d conjunct1 [OF o1] f]
    from receive_events_calls [OF d conjunct1 [OF o2] v] o1 o2 show ?thesis by simp
  qed
qed

lemma spin_turns_owns:
  assumes d: "descriptors_ok net opens"
  shows "sub_owns opens base ctx e \<Longrightarrow> spin_turns net ts ctx e = Some (calls, ctx', e') \<Longrightarrow>
    sub_owns opens base ctx' e' \<and> sub_slots ctx' = sub_slots ctx \<and> list_all (call_of_slot (sub_slots ctx)) calls"
proof (induction ts arbitrary: ctx e calls)
  case (Cons t ts)
  obtain due events where t: "t = (due, events)" by fastforce
  from Cons.prems(2) obtain c1 ctx1 e1 c2 where s: "spin_turn net due events ctx e = Some (c1, ctx1, e1)"
    and r: "spin_turns net ts ctx1 e1 = Some (c2, ctx', e')" and c: "calls = c1 @ c2"
    by (auto simp: t split: option.splits)
  note o1 = sub_owns_spin_turn [OF d Cons.prems(1) s] and l = spin_turn_calls [OF d Cons.prems(1) s]
  from Cons.IH [OF conjunct1 [OF o1] r] o1 l show ?case by (simp add: c)
qed simp

text \<open>
  C15. A subscriber thread, cancelled after any number of turns of its loop, has at every such
  point a consistent table of 256 connections (an open socket and a subscription for each one
  in use, room in its buffer for at least one byte, the count right), has called only handlers
  that were subscribed, each under its topic, and its clean-up closes exactly the descriptors
  the thread opened. A thread whose subscriber cannot be created leaves none open.
\<close>

theorem subscriber_session_clean:
  fixes subs :: "(string \<times> string option \<times> string \<times> string \<times> 'cb) list"
  assumes "descriptors_ok net opens" and "list_all (\<lambda>(topic, _). length topic \<le> 63) subs" and "length subs \<le> 256"
    and "\<forall>fd\<in>opens e. 0 \<le> fd" and "sub_session net node subs turns e = Some (r, e1)"
  shows "case r of
      None \<Rightarrow> opens e1 = opens e
    | Some (calls, ctx) \<Rightarrow>
        table_ok ctx \<and> sub_slots ctx = map slot_of subs \<and>
        list_all (\<lambda>(h, topic, s). list_ex (\<lambda>(t, _, _, _, h'). h' = h \<and> t = topic) subs) calls \<and>
        opens (cleanup_sub_ctx net ctx e1) = opens e"
proof -
  note d = assms(1)
  obtain res :: "'cb sub_ctx option" and e2 where c: "cmos_sub_create net BRIDGE_MASTER_IP BRIDGE_MASTER_PORT node e = (res, e2)" by fastforce
  note o = sub_owns_create [OF d assms(4) c]
  show ?thesis
  proof (cases res)
    case None
    with assms(5) c o show ?thesis by (auto simp: sub_session_def)
  next
    case (Some ctx0)
    from assms(5) Some c obtain ctx1 e3 where a: "add_subscriptions net subs ctx0 e2 = Some (ctx1, e3)"
      by (auto simp: sub_session_def split: option.splits)
    from assms(5) Some c a obtain calls ctx2 where s: "spin_turns net turns ctx1 e3 = Some (calls, ctx2, e1)" and r: "r = Some (calls, ctx2)"
      by (auto simp: sub_session_def)
    from add_subscriptions_owns [OF d _ _ a, of "opens e"] o Some assms(3)
    have o1: "sub_owns opens (opens e) ctx1 e3" "sub_slots ctx1 = map slot_of subs" by simp_all
    note k = spin_turns_owns [OF d o1(1) s, unfolded o1(2)]
    have "list_ex (\<lambda>(t, _, _, _, h'). h' = h \<and> t = topic) subs" if "call_of_slot (map slot_of subs) (h, topic, s)" for h topic s
      using that assms(2) by (fastforce simp: call_of_slot_def list_ex_iff list_all_iff)
    then have "list_all (\<lambda>(h, topic, s). list_ex (\<lambda>(t, _, _, _, h'). h' = h \<and> t = topic) subs) calls"
      using k by (auto simp: list_all_iff)
    then show ?thesis using k sub_destroy_opens [OF d, of "opens e" ctx2 e1] by (simp add: r cleanup_sub_ctx_def sub_owns_def)
  qed
qed

section \<open>Commands reach their handlers\<close>

text \<open>The text of a command as the subscriptions expect it.\<close>

definition command_line :: "string \<times> string option \<times> string \<times> string \<times> 'cb \<Rightarrow> string \<Rightarrow> string" where
  "command_line sub v = (case sub of (topic, _, ft, fk, _) \<Rightarrow> message_line topic (None, Some ft, Some fk, Some v))"

definition sub_wf :: "(string \<times> string option \<times> string \<times> string \<times> 'cb) list \<Rightarrow> bool" where
  "sub_wf subs \<longleftrightarrow> list_all (\<lambda>(topic, fs, ft, fk, h). topic_ok topic \<and> fs = None \<and> plain ft \<and> ft \<noteq> [] \<and> length ft \<le> 40 \<and>
     plain fk \<and> fk \<noteq> [] \<and> length fk \<le> 40) subs \<and> distinct (map (\<lambda>(topic, fs, ft, fk, h). (topic, ft, fk)) subs)"

lemma command_sendable:
  "plain ft \<Longrightarrow> length ft \<le> 40 \<Longrightarrow> plain fk \<Longrightarrow> length fk \<le> 40 \<Longrightarrow> plain v \<Longrightarrow> length v \<le> 700 \<Longrightarrow>
     sendable (None, Some ft, Some fk, Some v)"
  by (simp add: message_words_def PUB_DATA_CAP_def)

lemma command_handled:
  assumes w: "sub_wf subs" and k: "k < length subs" and j: "j < length subs" and v: "plain v" "length v \<le> 700"
    and s: "subs ! j = (topic, fs, ft, fk, h)"
  shows "ctx_handle_line (map slot_of subs) (int k) (command_line (subs ! j) v) = (if k = j then Some (h, topic, v) else None)"
proof -
  obtain topic' fs' ft' fk' h' where s': "subs ! k = (topic', fs', ft', fk', h')" by (cases "subs ! k")
  have J: "topic_ok topic" "plain ft" "length ft \<le> 40" "plain fk" "length fk \<le> 40"
    and K: "topic_ok topic'" "fs' = None" "ft' \<noteq> []" "length ft' \<le> 40" "fk' \<noteq> []" "length fk' \<le> 40"
    using w j k s s' by (auto simp: sub_wf_def list_all_length)
  have "distinct (map (\<lambda>(topic, fs, ft, fk, h). (topic, ft, fk)) subs)" using w by (simp add: sub_wf_def)
  from nth_eq_iff_index_eq [OF this, of k j] k j s s'
  have e: "topic' = topic \<and> ft' = ft \<and> fk' = fk \<longleftrightarrow> k = j" by auto
  have "ctx_handle_line (map slot_of subs) (int k) (message_line topic (None, Some ft, Some fk, Some v)) =
      delivered (slot_of (topic', fs', ft', fk', h')) topic (None, Some ft, Some fk, Some v)"
    using handle_published [OF J(1) command_sendable [OF J(2-5) v], of k "map slot_of subs"] k s'
    by (simp add: message_line_def)
  also have "\<dots> = (if k = j then Some (h', topic, v) else None)"
    using K J(1) by (auto simp: filter_of_def topic_ok_def simp flip: e)
  also have "\<dots> = (if k = j then Some (h, topic, v) else None)" using s s' by auto
  finally show ?thesis by (simp add: command_line_def s)
qed

lemma subscriptions_wf: "sub_wf inverter_subscriptions" "sub_wf ups_subscriptions"
  by (simp_all add: sub_wf_def inverter_subscriptions_def ups_subscriptions_def topic_ok_def)

lemma list_all_square: "(\<And>j k. j < n \<Longrightarrow> k < n \<Longrightarrow> P j k) \<Longrightarrow> list_all (\<lambda>j. list_all (P j) [0..<n]) [0..<n]"
  by (auto simp: list_all_iff)

text \<open>
  C18. A command published on a subscription's topic with its type, its key and a value without
  blanks makes the subscriber call that subscription's handler with the value, on the
  subscription's own connection, and no other handler on any other connection: no command is
  handled twice, and none by the wrong handler.
\<close>

theorem commands_dispatched_exactly:
  assumes "plain v" and "length v \<le> 700"
  shows "list_all (\<lambda>j. list_all (\<lambda>k.
        ctx_handle_line (map slot_of inverter_subscriptions) (int k) (command_line (inverter_subscriptions ! j) v) =
          (case inverter_subscriptions ! j of (topic, _, _, _, h) \<Rightarrow> if k = j then Some (h, topic, v) else None)) [0..<6]) [0..<6] \<and>
    list_all (\<lambda>j. list_all (\<lambda>k.
        ctx_handle_line (map slot_of ups_subscriptions) (int k) (command_line (ups_subscriptions ! j) v) =
          (case ups_subscriptions ! j of (topic, _, _, _, h) \<Rightarrow> if k = j then Some (h, topic, v) else None)) [0..<2]) [0..<2]"
proof -
  have l: "length inverter_subscriptions = 6" "length ups_subscriptions = 2"
    by (simp_all add: inverter_subscriptions_def ups_subscriptions_def)
  have "ctx_handle_line (map slot_of inverter_subscriptions) (int k) (command_line (inverter_subscriptions ! j) v) =
      (case inverter_subscriptions ! j of (topic, _, _, _, h) \<Rightarrow> if k = j then Some (h, topic, v) else None)" if "k < 6" "j < 6" for k j
    using command_handled [OF subscriptions_wf(1), of k j v] that assms l by (cases "inverter_subscriptions ! j") auto
  moreover have "ctx_handle_line (map slot_of ups_subscriptions) (int k) (command_line (ups_subscriptions ! j) v) =
      (case ups_subscriptions ! j of (topic, _, _, _, h) \<Rightarrow> if k = j then Some (h, topic, v) else None)" if "k < 2" "j < 2" for k j
    using command_handled [OF subscriptions_wf(2), of k j v] that assms l by (cases "ups_subscriptions ! j") auto
  ultimately show ?thesis by (intro conjI list_all_square) blast+
qed

section \<open>Registers reach subscribers\<close>

text \<open>
  The value of every mapped register reaches the subscribers of the inverter's topic: when
  the publisher has published a round with an enabled unit, a subscriber with a filter on the
  register's description that has read its socket, in whatever pieces, has called its callback
  with a text that reads back as the value of the register's pool slot.
\<close>

theorem registers_reach_subscribers:
  assumes "cfg \<in> set cfgs" and "enabled cfg" and "m \<in> set (rows inverter1_profile)"
    and "takes_all net sent" and "pub_topic p = inverter_BRIDGE_PUB_TOPIC" and "distinct (sub_socks p)"
    and "cmos_publish_batch net (inverter_publish_round pl cfgs) p e = Some (p1, e1)"
    and "fd1 \<in> set (sub_socks p)" and "sent e fd1 = []"
    and "byte_source net2 fd2 pending" and "pending e2 = sent e1 fd1"
    and "length (pub_conns ctx) = 256" and "i < 256" and "k < length (sub_slots ctx)" and "0 \<le> fd2"
    and "pub_conns ctx ! i = \<lparr>conn_sock = fd2, conn_node = node, conn_rx = [], conn_active = True, conn_slot = int k\<rparr>"
    and "sub_slots ctx ! k = slot_of (inverter_BRIDGE_PUB_TOPIC, None, [], description m, h)" and "length (description m) \<le> 63"
    and "length (pending e2) \<le> n"
  shows "\<exists>s. (h, inverter_BRIDGE_PUB_TOPIC, s) \<in> set (fst (receive_events net2 (replicate n i) ctx e2)) \<and>
    strtoul s = unat (pl (pool_address m))"
proof -
  have t: "topic_ok (pub_topic p)" by (simp add: assms(5) topic_ok_def inverter_BRIDGE_PUB_TOPIC_def)
  have c: "fst (receive_events net2 (replicate n i) ctx e2) =
      List.map_filter (delivered (sub_slots ctx ! k) inverter_BRIDGE_PUB_TOPIC) (inverter_publish_round pl cfgs)"
    using stream_delivered [OF assms(4) t assms(6) inverter_round_sendable assms(7-16,19)] by (simp only: assms(5))
  obtain st s where s: "(Some st, None, Some (description m), Some s) \<in> set (inverter_publish_round pl cfgs)"
      "strtoul s = unat (pl (pool_address m))"
    using register_published [OF assms(1-3), of pl] by metis
  have "description m \<noteq> []" using assms(3) descriptions_nonempty by (simp add: list_all_iff)
  then have dl: "delivered (sub_slots ctx ! k) inverter_BRIDGE_PUB_TOPIC (Some st, None, Some (description m), Some s) =
      Some (h, inverter_BRIDGE_PUB_TOPIC, s)"
    using assms(18) by (simp add: assms(17) filter_of_def inverter_BRIDGE_PUB_TOPIC_def)
  have "(h, inverter_BRIDGE_PUB_TOPIC, s) \<in> set (List.map_filter (delivered (sub_slots ctx ! k) inverter_BRIDGE_PUB_TOPIC)
      (inverter_publish_round pl cfgs))"
    by (rule in_map_filter [OF s(1)]) (rule dl)
  with s(2) show ?thesis unfolding c by blast
qed

section \<open>Witnesses\<close>

theorem publisher_processes_clean_witness:
  "\<exists>p e. inverter_cmos_pub_run list_net [(True, limit_pool), (False, \<lambda>_. 7)] [rtu_module] publisher_zero [0, 1, 2] = Some (p, e) \<and>
     set e = {0, 1, 2}"
proof -
  have "set [0, 1, 2 :: int] = {0, 1, 2}" by simp
  with publisher_processes_clean [OF list_net_ok, of "[(True, limit_pool), (False, \<lambda>_. 7)]" "[rtu_module]" publisher_zero "[0, 1, 2]"]
  show ?thesis by metis
qed

text \<open>On this interface a receive fails at once, so that every look-up returns.\<close>

lemma list_net_lookup: "\<exists>r. ctx_lookup_slot list_net k ctx e = Some r"
proof -
  have l: "\<exists>r. lookup_loop list_net i buf found ctx e = Some r" for i buf found ctx e
    by (subst lookup_loop.simps) (simp add: list_net_def)
  then show ?thesis by (auto simp: ctx_lookup_slot_def case_prod_unfold)
qed

lemma list_net_add: "\<exists>rc ctx' e'. cmos_sub_add list_net t fs ft fk cb ctx e = Some (rc, ctx', e')"
proof (cases "256 \<le> length (sub_slots ctx)")
  case True
  then show ?thesis by (simp add: cmos_sub_add_def)
next
  case False
  define ctx1 where "ctx1 = ctx\<lparr>sub_slots := sub_slots ctx @ [\<lparr>sl_topic = take 63 t, filter_state = filter_of fs,
    filter_type = filter_of ft, filter_key = filter_of fk, sl_cb = cb\<rparr>]\<rparr>"
  obtain ok e1 where s: "send_line list_net (sub_master_sock ctx1) (register_sub_line t) e = (ok, e1)" by fastforce
  obtain r where l: "ctx_lookup_slot list_net (length (sub_slots ctx)) ctx1 e1 = Some r" using list_net_lookup by blast
  obtain rc2 ctx2 e2 where r: "r = (rc2, ctx2, e2)" by (cases r)
  show ?thesis
    unfolding cmos_sub_add_def if_not_P [OF False] Let_def ctx1_def [symmetric] s prod.case l r option.case by blast
qed

lemma list_net_subscriptions: "\<exists>ctx' e'. add_subscriptions list_net subs ctx e = Some (ctx', e')"
proof (induction subs arbitrary: ctx e)
  case (Cons s subs)
  obtain t fs ft fk h where s: "s = (t, fs, ft, fk, h)" by (cases s)
  obtain rc ctx1 e1 where "cmos_sub_add list_net t fs (Some ft) (Some fk) (Some h) ctx e = Some (rc, ctx1, e1)"
    using list_net_add by blast
  with Cons [of ctx1 e1] show ?case by (simp add: s)
qed simp

theorem subscriber_session_clean_witness:
  "\<exists>ctx e1. sub_session list_net ''inverter_sub'' inverter_subscriptions [] [0, 1, 2] = Some (Some ([], ctx), e1) \<and>
     sub_slots ctx = map slot_of inverter_subscriptions \<and> set (cleanup_sub_ctx list_net ctx e1) = {0, 1, 2}"
proof -
  obtain ctx0 :: "inverter_handler sub_ctx" and e0
    where c: "cmos_sub_create list_net BRIDGE_MASTER_IP BRIDGE_MASTER_PORT ''inverter_sub'' [0, 1, 2] = (Some ctx0, e0)"
    by (simp add: cmos_sub_create_def list_net_def fresh_fd_def connect_tcp_def send_line_def node_line_def)
  obtain ctx e1 where a: "add_subscriptions list_net inverter_subscriptions ctx0 e0 = Some (ctx, e1)"
    using list_net_subscriptions by blast
  have s: "sub_session list_net ''inverter_sub'' inverter_subscriptions [] [0, 1, 2] = Some (Some ([], ctx), e1)"
    by (simp add: sub_session_def c a)
  have w: "list_all (\<lambda>(topic, _). length topic \<le> 63) inverter_subscriptions" "length inverter_subscriptions \<le> 256"
    by (simp_all add: inverter_subscriptions_def)
  from subscriber_session_clean [OF list_net_ok w _ s] s show ?thesis by auto
qed

theorem commands_dispatched_exactly_witness:
  "ctx_handle_line (map slot_of inverter_subscriptions) 3 (command_line (inverter_subscriptions ! 3) ''53.5'') =
     Some (On_main_pump_duty, ''control_output'', ''53.5'')"
proof -
  have "3 \<in> set [0..<6]" by simp
  moreover have "case inverter_subscriptions ! 3 of (topic, _, _, _, h) \<Rightarrow>
      (if (3 :: nat) = 3 then Some (h, topic, ''53.5'') else None) = Some (On_main_pump_duty, ''control_output'', ''53.5'')"
    by (simp add: inverter_subscriptions_def)
  moreover have "plain ''53.5''" "length ''53.5'' \<le> 700" by simp_all
  note commands_dispatched_exactly [OF this]
  ultimately show ?thesis by (fastforce simp only: list_all_iff of_nat_numeral split: prod.splits)
qed

definition register_subscriber :: "nat sub_ctx" where
  "register_subscriber =
     demo_subscriber\<lparr>sub_slots := [slot_of (inverter_BRIDGE_PUB_TOPIC, None, [], description (rows inverter1_profile ! 0), 42)]\<rparr>"

theorem registers_reach_subscribers_witness:
  "\<exists>e1 n s. cmos_publish_batch log_net (inverter_publish_round limit_pool [rtu_module]) demo_publisher (\<lambda>_. []) =
       Some (demo_publisher, e1) \<and>
     (42, inverter_BRIDGE_PUB_TOPIC, s) \<in> set (fst (receive_events piece_net (replicate n 0) register_subscriber (e1 8))) \<and>
     strtoul s = unat (limit_pool (pool_address (rows inverter1_profile ! 0)))"
proof -
  have t: "topic_ok (pub_topic demo_publisher)" "pub_topic demo_publisher = inverter_BRIDGE_PUB_TOPIC"
    and d: "distinct (sub_socks demo_publisher)" "8 \<in> set (sub_socks demo_publisher)"
    by (simp_all add: topic_ok_def demo_publisher_def inverter_BRIDGE_PUB_TOPIC_def)
  from batch_sent [OF log_net_takes t(1) d(1) inverter_round_sendable, of limit_pool "[rtu_module]" "\<lambda>_. []"] obtain e1
    where b: "cmos_publish_batch log_net (inverter_publish_round limit_pool [rtu_module]) demo_publisher (\<lambda>_. []) =
      Some (demo_publisher, e1)" by blast
  have m: "rows inverter1_profile ! 0 \<in> set (rows inverter1_profile)" "length (description (rows inverter1_profile ! 0)) \<le> 63"
    by code_simp+
  have c: "length (pub_conns register_subscriber) = 256" "0 < length (sub_slots register_subscriber)"
    "pub_conns register_subscriber ! 0 =
      \<lparr>conn_sock = 9, conn_node = ''inverter_node_pub'', conn_rx = [], conn_active = True, conn_slot = int 0\<rparr>"
    "sub_slots register_subscriber ! 0 = slot_of (inverter_BRIDGE_PUB_TOPIC, None, [], description (rows inverter1_profile ! 0), 42)"
    by (simp_all add: register_subscriber_def demo_subscriber_def)
  have "enabled rtu_module" by (simp add: rtu_module_def)
  from registers_reach_subscribers [OF _ this m(1) log_net_takes t(2) d(1) b d(2) _ piece_net_source _ c(1) _ c(2) _ c(3,4) m(2), of _ "length (e1 8)"]
  show ?thesis using b by auto
qed

end
