(* ===== verification/Cmos_Returns.thy ===== *)
theory Cmos_Returns
  imports Cmos_Bridges Cmos_Srv
begin

text \<open>
  The loops of the CMOS library that read until a line \<^verbatim>\<open>END\<close> or a failing receive have no bound
  of their own. They return when the peers send only finitely much: \<open>inflow\<close> counts what the peers
  still send, a successful receive takes from it and no call adds to it.
\<close>

definition finite_supply :: "'e net_api \<Rightarrow> ('e \<Rightarrow> nat) \<Rightarrow> bool" where
  "finite_supply net inflow \<longleftrightarrow>
     (\<forall>e. inflow (snd (na_socket net e)) \<le> inflow e \<and> inflow (snd (na_epoll_create net e)) \<le> inflow e) \<and>
     (\<forall>fd e. inflow (na_close net fd e) \<le> inflow e) \<and>
     (\<forall>fd s p e. inflow (snd (na_connect net fd s p e)) \<le> inflow e \<and> inflow (snd (na_send net fd s e)) \<le> inflow e) \<and>
     (\<forall>fd n e. case na_recv net fd n e of
        (None, e1) \<Rightarrow> inflow e1 \<le> inflow e
      | (Some b, e1) \<Rightarrow> inflow e1 < inflow e)"

lemma supplyD:
  assumes "finite_supply net inflow"
  shows "inflow (snd (na_socket net e)) \<le> inflow e" and "inflow (snd (na_epoll_create net e)) \<le> inflow e"
    and "inflow (na_close net fd e) \<le> inflow e" and "inflow (snd (na_connect net fd s p e)) \<le> inflow e"
    and "inflow (snd (na_send net fd s e)) \<le> inflow e"
    and "na_recv net fd n e = (None, e1) \<Longrightarrow> inflow e1 \<le> inflow e"
    and "na_recv net fd n e = (Some b, e1) \<Longrightarrow> inflow e1 < inflow e"
proof -
  have "case na_recv net fd n e of (None, e1) \<Rightarrow> inflow e1 \<le> inflow e | (Some b, e1) \<Rightarrow> inflow e1 < inflow e"
    using assms by (simp add: finite_supply_def)
  then show "na_recv net fd n e = (None, e1) \<Longrightarrow> inflow e1 \<le> inflow e"
    and "na_recv net fd n e = (Some b, e1) \<Longrightarrow> inflow e1 < inflow e" by auto
qed (use assms in \<open>simp_all add: finite_supply_def\<close>)

section \<open>Calls that do not receive\<close>

lemma connect_tcp_supply:
  assumes f: "finite_supply net inflow" and c: "connect_tcp net ip port e = (fd, e')"
  shows "inflow e' \<le> inflow e"
proof -
  obtain s e1 where so: "na_socket net e = (s, e1)" by fastforce
  obtain ok e2 where co: "na_connect net s ip port e1 = (ok, e2)" by fastforce
  have "inflow e1 \<le> inflow e" "inflow e2 \<le> inflow e1"
    using supplyD(1) [OF f, of e] supplyD(4) [OF f, of s ip port e1] by (simp_all add: so co)
  moreover have "inflow (na_close net s e1) \<le> inflow e1" "inflow (na_close net s e2) \<le> inflow e2" by (rule supplyD(3) [OF f])+
  ultimately show ?thesis using c by (auto simp: connect_tcp_def so co split: if_splits)
qed

lemma send_line_supply: "finite_supply net inflow \<Longrightarrow> send_line net fd s e = (ok, e') \<Longrightarrow> inflow e' \<le> inflow e"
  using supplyD(5) [of net inflow fd s e] by (auto simp: send_line_def split: prod.splits)

lemma add_pub_supply:
  assumes f: "finite_supply net inflow" and a: "ctx_add_pub net slot node ip port ctx e = (rc, ctx', e')"
  shows "inflow e' \<le> inflow e"
  using a connect_tcp_supply [OF f, of ip port e] unfolding ctx_add_pub_def
  by (auto split: if_splits option.splits prod.splits)

lemma add_from_line_supply:
  assumes f: "finite_supply net inflow" and a: "add_from_line net slot line ctx e = (b, ctx', e')"
  shows "inflow e' \<le> inflow e"
  using a add_pub_supply [OF f] unfolding add_from_line_def by (auto split: list.splits prod.splits)

lemma lookup_lines_supply:
  assumes f: "finite_supply net inflow"
  shows "lookup_lines net s ls found ctx e = (b, found', ctx', e') \<Longrightarrow> inflow e' \<le> inflow e"
proof (induction ls arbitrary: found ctx e)
  case (Cons l ls)
  obtain added ctx1 e1 where a: "add_from_line net s (line_of l) ctx e = (added, ctx1, e1)" by (metis surj_pair)
  have s: "inflow e1 \<le> inflow e" by (rule add_from_line_supply [OF f a])
  show ?case
    using Cons.prems Cons.IH [of found ctx e] Cons.IH [of "found \<or> added" ctx1 e1] s
    by (auto simp: a split: if_splits)
qed simp

lemma register_slots_supply:
  assumes f: "finite_supply net inflow"
  shows "register_slots net ms ss e = (ok, e') \<Longrightarrow> inflow e' \<le> inflow e"
proof (induction ss arbitrary: e)
  case (Cons s ss)
  obtain ok1 e1 where l: "send_line net ms (register_sub_line (sl_topic s)) e = (ok1, e1)" by fastforce
  from send_line_supply [OF f l] Cons.prems Cons.IH [of e1] show ?case by (auto simp: l split: if_splits)
qed simp

lemma reconnect_master_supply:
  assumes f: "finite_supply net inflow" and r: "ctx_reconnect_master net ctx e = (rc, ctx', e')"
  shows "inflow e' \<le> inflow e"
proof -
  define e0 where "e0 = (if 0 \<le> sub_master_sock ctx then na_close net (sub_master_sock ctx) e else e)"
  obtain ms e1 where c: "connect_tcp net (sub_master_ip ctx) (sub_master_port ctx) e0 = (ms, e1)" by fastforce
  obtain ok e2 where l: "send_line net ms (node_line (sub_node_name ctx)) e1 = (ok, e2)" by fastforce
  obtain ok2 e3 where g: "register_slots net ms (sub_slots ctx) e2 = (ok2, e3)" by fastforce
  have "inflow e0 \<le> inflow e" by (simp add: e0_def supplyD(3) [OF f])
  note s = this connect_tcp_supply [OF f c] send_line_supply [OF f l] register_slots_supply [OF f g]
    supplyD(3) [OF f, of ms e2] supplyD(3) [OF f, of ms e3]
  have "e' \<in> {e1, na_close net ms e2, na_close net ms e3, e3}"
    using r by (auto simp: ctx_reconnect_master_def Let_def e0_def [symmetric] c l g split: if_splits)
  with s show ?thesis by auto
qed

lemma close_conn_supply: "finite_supply net inflow \<Longrightarrow> ctx_close_conn net i ctx e = (ctx', e') \<Longrightarrow> inflow e' \<le> inflow e"
  by (auto simp: ctx_close_conn_def Let_def supplyD(3) split: if_splits)

lemma receive_event_supply:
  assumes f: "finite_supply net inflow" and r: "receive_event net i ctx e = (calls, ctx', e')"
  shows "inflow e' \<le> inflow e"
proof -
  define c where "c = pub_conns ctx ! i"
  obtain b e1 where g: "na_recv net (conn_sock c) (CM_RX_BUF - 1 - length (conn_rx c)) e = (b, e1)" by fastforce
  then have g2: "na_recv net (conn_sock c) (2047 - length (conn_rx c)) e = (b, e1)" by simp
  show ?thesis
  proof (cases b)
    case None
    obtain ctx1 e2 where k: "ctx_close_conn net i ctx e1 = (ctx1, e2)" by fastforce
    from supplyD(6) [OF f g [unfolded None]] close_conn_supply [OF f k] r None show ?thesis
      by (auto simp: receive_event_def Let_def c_def [symmetric] g2 k split: if_splits)
  next
    case (Some x)
    with supplyD(7) [OF f g [unfolded Some]] r show ?thesis
      by (auto simp: receive_event_def Let_def c_def [symmetric] g2 split: if_splits prod.splits)
  qed
qed

lemma receive_events_supply:
  assumes f: "finite_supply net inflow"
  shows "inflow (snd (snd (receive_events net is ctx e))) \<le> inflow e"
proof (induction "is" arbitrary: ctx e)
  case (Cons i "is")
  obtain calls ctx1 e1 where r: "receive_event net i ctx e = (calls, ctx1, e1)" by (metis surj_pair)
  from receive_event_supply [OF f r] Cons.IH [of ctx1 e1] show ?case by (auto simp: r split: prod.splits)
qed simp

section \<open>Look-ups return\<close>

text \<open>A result, with no more to come than before.\<close>

definition returns :: "('e \<Rightarrow> nat) \<Rightarrow> 'e \<Rightarrow> ('a \<times> 'e) option \<Rightarrow> bool" where
  "returns inflow e r \<longleftrightarrow> (\<exists>x e'. r = Some (x, e') \<and> inflow e' \<le> inflow e)"

lemma returnsE: "returns inflow e r \<Longrightarrow> (\<And>x e'. r = Some (x, e') \<Longrightarrow> inflow e' \<le> inflow e \<Longrightarrow> Q) \<Longrightarrow> Q"
  by (auto simp: returns_def)

lemma returns_Some [simp]: "returns inflow e (Some (x, e')) \<longleftrightarrow> inflow e' \<le> inflow e"
  by (simp add: returns_def)

lemma returns_le: "returns inflow e1 r \<Longrightarrow> inflow e1 \<le> inflow e \<Longrightarrow> returns inflow e r"
  by (auto simp: returns_def)

text \<open>The result of a look-up as a context with an environment.\<close>

definition drop_rc :: "(int \<times> 'cb sub_ctx \<times> 'e) option \<Rightarrow> ('cb sub_ctx \<times> 'e) option" where
  "drop_rc r = map_option snd r"

lemma lookup_loop_returns:
  assumes f: "finite_supply net inflow"
  shows "returns inflow e (drop_rc (lookup_loop net s buf found ctx e))"
proof (induction "inflow e" arbitrary: buf found ctx e rule: less_induct)
  case less
  obtain b e1 where r: "na_recv net (sub_master_sock ctx) (CM_RX_BUF - 1 - length buf) e = (b, e1)" by fastforce
  then have r2: "na_recv net (sub_master_sock ctx) (2047 - length buf) e = (b, e1)" by simp
  show ?case
  proof (cases b)
    case None
    have "inflow (na_close net (sub_master_sock ctx) e1) \<le> inflow e"
      using supplyD(6) [OF f r [unfolded None]] supplyD(3) [OF f, of "sub_master_sock ctx" e1] by simp
    then show ?thesis by (subst lookup_loop.simps) (simp add: r2 None drop_rc_def)
  next
    case (Some x)
    obtain ls rest where c: "cut_lines [] (buf @ x) = (ls, rest)" by fastforce
    obtain ended found1 ctx1 e2 where l: "lookup_lines net s ls found ctx e1 = (ended, found1, ctx1, e2)" by (metis surj_pair)
    have lt: "inflow e2 < inflow e" using supplyD(7) [OF f r [unfolded Some]] lookup_lines_supply [OF f l] by simp
    have "returns inflow e (drop_rc (lookup_loop net s (if CM_RX_BUF - 1 \<le> length rest then [] else rest) found1 ctx1 e2))"
      by (rule returns_le [OF less.hyps [OF lt]]) (use lt in simp)
    then show ?thesis using lt by (subst lookup_loop.simps) (simp add: r2 Some c l drop_rc_def)
  qed
qed

lemma lookup_slot_returns:
  assumes f: "finite_supply net inflow"
  shows "returns inflow e (drop_rc (ctx_lookup_slot net s ctx e))"
proof -
  obtain ok e1 where l: "send_line net (sub_master_sock ctx) (lookup_topic_line (sl_topic (sub_slots ctx ! s))) e = (ok, e1)"
    by fastforce
  have s1: "inflow e1 \<le> inflow e" by (rule send_line_supply [OF f l])
  with supplyD(3) [OF f, of "sub_master_sock ctx" e1] returns_le [OF lookup_loop_returns [OF f] s1] show ?thesis
    by (auto simp: ctx_lookup_slot_def l drop_rc_def)
qed

lemma drop_rc_returnsE:
  assumes "returns inflow e (drop_rc r)"
  obtains rc ctx e1 where "r = Some (rc, ctx, e1)" and "inflow e1 \<le> inflow e"
  using assms by (cases r) (auto simp: drop_rc_def returns_def)

lemma lookup_slots_returns:
  assumes f: "finite_supply net inflow"
  shows "returns inflow e (lookup_slots net ss ctx e)"
proof (induction ss arbitrary: ctx e)
  case (Cons s ss)
  obtain rc ctx1 e1 where l: "ctx_lookup_slot net s ctx e = Some (rc, ctx1, e1)" "inflow e1 \<le> inflow e"
    using drop_rc_returnsE [OF lookup_slot_returns [OF f]] by metis
  from returns_le [OF Cons.IH l(2)] show ?case by (simp add: l(1))
qed simp

lemma reconnect_all_returns:
  assumes f: "finite_supply net inflow"
  shows "returns inflow e (ctx_reconnect_all_pubs net ctx e)"
proof -
  obtain rc ctx1 e1 where m: "ctx_reconnect_master net ctx e = (rc, ctx1, e1)" by (metis surj_pair)
  note s = reconnect_master_supply [OF f m]
  from s show ?thesis
    by (simp add: ctx_reconnect_all_pubs_def m lookup_slots_returns [OF f] returns_le [OF lookup_slots_returns [OF f] s])
qed

lemma refresh_returns:
  assumes f: "finite_supply net inflow"
  shows "returns inflow e (refresh net due ctx e)"
proof -
  obtain rc ctx1 e1 where m: "ctx_reconnect_master net ctx e = (rc, ctx1, e1)" by (metis surj_pair)
  note s = reconnect_master_supply [OF f m]
  from s show ?thesis
    by (simp add: refresh_def m lookup_slots_returns [OF f] returns_le [OF lookup_slots_returns [OF f] s])
qed

text \<open>A turn and the thread: the result with the calls as a pair.\<close>

definition drop_calls :: "('a \<times> 'cb sub_ctx \<times> 'e) option \<Rightarrow> ('cb sub_ctx \<times> 'e) option" where
  "drop_calls r = map_option snd r"

lemma drop_calls_returnsE:
  assumes "returns inflow e (drop_calls r)"
  obtains calls ctx e1 where "r = Some (calls, ctx, e1)" and "inflow e1 \<le> inflow e"
  using assms by (cases r) (auto simp: drop_calls_def returns_def)

lemma spin_turn_returns:
  assumes f: "finite_supply net inflow"
  shows "returns inflow e (drop_calls (spin_turn net due events ctx e))"
proof -
  have "returns inflow e (if ctx_active_count ctx = 0 then ctx_reconnect_all_pubs net ctx e else Some (ctx, e))"
    by (simp add: reconnect_all_returns [OF f])
  then obtain ctx1 e1 where a: "(if ctx_active_count ctx = 0 then ctx_reconnect_all_pubs net ctx e else Some (ctx, e)) = Some (ctx1, e1)"
    "inflow e1 \<le> inflow e" by (rule returnsE)
  obtain ctx2 e2 where b: "ctx_reconnect_all_pubs net ctx1 e1 = Some (ctx2, e2)" "inflow e2 \<le> inflow e1"
    using reconnect_all_returns [OF f] by (rule returnsE)
  obtain ctx3 e3 where c: "refresh net due ctx1 e1 = Some (ctx3, e3)" "inflow e3 \<le> inflow e1"
    using refresh_returns [OF f] by (rule returnsE)
  have d: "inflow (snd (snd (receive_events net events ctx3 e3))) \<le> inflow e3" by (rule receive_events_supply [OF f])
  show ?thesis
    using a(2) b(2) c(2) d
    by (cases "receive_events net events ctx3 e3") (simp add: spin_turn_def a(1) b(1) c(1) drop_calls_def)
qed

lemma spin_turns_returns:
  assumes f: "finite_supply net inflow"
  shows "returns inflow e (drop_calls (spin_turns net ts ctx e))"
proof (induction ts arbitrary: ctx e)
  case (Cons t ts)
  obtain due events where t: "t = (due, events)" by fastforce
  obtain calls ctx1 e1 where s: "spin_turn net due events ctx e = Some (calls, ctx1, e1)" "inflow e1 \<le> inflow e"
    using drop_calls_returnsE [OF spin_turn_returns [OF f]] by metis
  obtain calls2 ctx2 e2 where r: "spin_turns net ts ctx1 e1 = Some (calls2, ctx2, e2)" "inflow e2 \<le> inflow e1"
    using drop_calls_returnsE [OF Cons.IH] by metis
  from s r show ?case by (simp add: t drop_calls_def)
qed (simp add: drop_calls_def)

lemma add_subscriptions_returns:
  assumes f: "finite_supply net inflow"
  shows "returns inflow e (add_subscriptions net subs ctx e)"
proof (induction subs arbitrary: ctx e)
  case (Cons sub subs)
  obtain topic fs ft fk h where s: "sub = (topic, fs, ft, fk, h)" by (metis prod_cases5)
  have "returns inflow e (drop_rc (cmos_sub_add net topic fs (Some ft) (Some fk) (Some h) ctx e))"
  proof -
    define ctx1 where "ctx1 = ctx\<lparr>sub_slots := sub_slots ctx @ [\<lparr>sl_topic = take 63 topic, filter_state = filter_of fs,
      filter_type = filter_of (Some ft), filter_key = filter_of (Some fk), sl_cb = Some h\<rparr>]\<rparr>"
    obtain ok e1 where l: "send_line net (sub_master_sock ctx1) (register_sub_line topic) e = (ok, e1)" by fastforce
    have s1: "inflow e1 \<le> inflow e" by (rule send_line_supply [OF f l])
    obtain rc ctx2 e2 where k: "ctx_lookup_slot net (length (sub_slots ctx)) ctx1 e1 = Some (rc, ctx2, e2)" "inflow e2 \<le> inflow e1"
      using drop_rc_returnsE [OF lookup_slot_returns [OF f]] by metis
    from s1 k(2) show ?thesis
      by (simp add: cmos_sub_add_def Let_def ctx1_def [symmetric] l k(1) drop_rc_def)
  qed
  then obtain rc ctx1 e1 where a: "cmos_sub_add net topic fs (Some ft) (Some fk) (Some h) ctx e = Some (rc, ctx1, e1)"
    "inflow e1 \<le> inflow e" using drop_rc_returnsE by metis
  from returns_le [OF Cons.IH a(2)] show ?case by (simp add: s a(1))
qed simp

lemma sub_session_returns:
  fixes subs :: "(string \<times> string option \<times> string \<times> string \<times> 'cb) list"
  assumes f: "finite_supply net inflow"
  shows "\<exists>r. sub_session net node subs turns e = Some r"
proof -
  obtain res :: "'cb sub_ctx option" and e1 where c: "cmos_sub_create net BRIDGE_MASTER_IP BRIDGE_MASTER_PORT node e = (res, e1)" by fastforce
  show ?thesis
  proof (cases res)
    case (Some ctx)
    obtain ctx1 e2 where a: "add_subscriptions net subs ctx e1 = Some (ctx1, e2)"
      using add_subscriptions_returns [OF f] by (rule returnsE)
    obtain calls ctx2 e3 where t: "spin_turns net turns ctx1 e2 = Some (calls, ctx2, e3)"
      using drop_calls_returnsE [OF spin_turns_returns [OF f]] by metis
    show ?thesis by (simp add: sub_session_def c Some a t)
  qed (simp add: sub_session_def c)
qed

section \<open>Services return\<close>

lemma recv_line_loop_supply:
  assumes f: "finite_supply net inflow"
  shows "recv_line_loop net fd n buf e = (r, e') \<Longrightarrow> inflow e' \<le> inflow e \<and> (r \<noteq> None \<longrightarrow> 0 < n \<longrightarrow> inflow e' < inflow e)"
proof (induction n arbitrary: buf e)
  case (Suc n)
  obtain b e1 where g: "na_recv net fd 1 e = (b, e1)" by fastforce
  show ?case
  proof (cases b)
    case None
    with supplyD(6) [OF f g [unfolded None]] Suc.prems g show ?thesis by auto
  next
    case (Some x)
    have lt: "inflow e1 < inflow e" by (rule supplyD(7) [OF f g [unfolded Some]])
    show ?thesis
    proof (cases x)
      case Nil
      with lt Suc.prems g Some show ?thesis by auto
    next
      case (Cons c cs)
      show ?thesis
      proof (cases "c = CHR 0x0A")
        case True
        with lt Suc.prems g Some Cons show ?thesis by auto
      next
        case False
        then have "recv_line_loop net fd n (buf @ [c]) e1 = (r, e')" using Suc.prems g Some Cons by simp
        from Suc.IH [OF this] lt show ?thesis by auto
      qed
    qed
  qed
qed simp

lemma recv_line_supply:
  assumes f: "finite_supply net inflow" and r: "srv_recv_line net fd SRV_LINE_BUF e = (r, e')"
  shows "inflow e' \<le> inflow e" and "r \<noteq> None \<Longrightarrow> inflow e' < inflow e"
proof -
  obtain r1 e1 where l: "recv_line_loop net fd (SRV_LINE_BUF - 1) [] e = (r1, e1)" by fastforce
  have e: "r = map_option c_str r1" "e' = e1" using r l by (auto simp: srv_recv_line_def)
  from recv_line_loop_supply [OF f l] show "inflow e' \<le> inflow e" and "r \<noteq> None \<Longrightarrow> inflow e' < inflow e"
    by (auto simp: e)
qed

lemma srv_lines_returns:
  assumes f: "finite_supply net inflow"
  shows "returns inflow e (srv_lines net fd g a e)"
proof (induction "inflow e" arbitrary: a e rule: less_induct)
  case less
  obtain r e1 where l: "srv_recv_line net fd SRV_LINE_BUF e = (r, e1)" by fastforce
  note s = recv_line_supply [OF f l]
  show ?case
  proof (cases r)
    case None
    with s l show ?thesis by (subst srv_lines.simps) simp
  next
    case (Some line)
    then have lt: "inflow e1 < inflow e" using s(2) by simp
    have "returns inflow e (srv_lines net fd g (g line a) e1)" by (rule returns_le [OF less.hyps [OF lt]]) (use lt in simp)
    with lt show ?thesis by (subst srv_lines.simps) (simp add: l Some)
  qed
qed

lemma ask_master_returns:
  assumes f: "finite_supply net inflow"
  shows "returns inflow e (ask_master net ip port node service g a e)"
proof -
  obtain ms e1 where c: "connect_tcp net ip port e = (ms, e1)" by fastforce
  obtain ok0 e2 where n: "send_line net ms (node_line node) e1 = (ok0, e2)" by fastforce
  obtain ok e3 where l: "send_line net ms (lookup_srv_line service) e2 = (ok, e3)" by fastforce
  obtain b e4 where s: "srv_lines net ms g a e3 = Some (b, e4)" "inflow e4 \<le> inflow e3"
    using srv_lines_returns [OF f] by (rule returnsE)
  note le = connect_tcp_supply [OF f c] send_line_supply [OF f n] send_line_supply [OF f l] s(2)
    supplyD(3) [OF f, of ms e3] supplyD(3) [OF f, of ms e4]
  show ?thesis
    using le by (simp add: ask_master_def c n l s(1))
qed

lemma srv_exists_returns:
  assumes f: "finite_supply net inflow"
  shows "returns inflow e (srv_exists net ip port service e)"
proof -
  obtain r e1 where "ask_master net ip port ''cmos_srv_wait'' service (\<lambda>line found. take 8 line = ''SRVINFO '' \<or> found) False e = Some (r, e1)"
      "inflow e1 \<le> inflow e"
    using ask_master_returns [OF f] by (rule returnsE)
  then show ?thesis by (simp add: srv_exists_def)
qed

lemma srv_wait_returns:
  "finite_supply net inflow \<Longrightarrow> \<exists>r. srv_wait_loop net ip port service left e = Some r"
proof (induction net ip port service left e rule: srv_wait_loop.induct)
  case (1 net ip port service left e)
  obtain rc e1 where x: "srv_exists net ip port service e = Some (rc, e1)"
    using srv_exists_returns [OF "1.prems"] by (rule returnsE)
  show ?case
    using "1.IH" [OF _ x refl _ "1.prems"] by (subst srv_wait_loop.simps) (simp add: x)
qed

lemma srv_call_returns:
  assumes f: "finite_supply net inflow"
  shows "\<exists>r. cmos_srv_call net ip port service req n e = Some r"
proof -
  obtain a e1 where m: "ask_master net ip port ''cmos_srv_client'' service srv_info ([], -1) e = Some (a, e1)"
    using ask_master_returns [OF f] by (rule returnsE)
  then show ?thesis by (simp add: cmos_srv_call_def split: option.split prod.split)
qed

text \<open>
  C24. When the peers send only finitely much, both subscriber threads come to the end of any
  number of turns, and a service call and a wait for a service return.
\<close>

theorem cmos_loops_return:
  assumes "finite_supply net inflow"
  shows "(\<exists>calls e'. inverter_cmos_sub_thread net turns e = Some (calls, e')) \<and>
    (\<exists>calls e'. ups_cmos_sub_thread net turns e = Some (calls, e')) \<and>
    (\<exists>rc resp e'. cmos_srv_call net ip port service req n e = Some (rc, resp, e')) \<and>
    (\<exists>rc e'. cmos_srv_wait net ip port service timeout e = Some (rc, e'))"
proof (intro conjI)
  show "\<exists>calls e'. inverter_cmos_sub_thread net turns e = Some (calls, e')"
    using sub_session_returns [OF assms, of "''inverter_sub''" inverter_subscriptions turns e]
    by (fastforce simp: inverter_cmos_sub_thread_def split: option.split)
  show "\<exists>calls e'. ups_cmos_sub_thread net turns e = Some (calls, e')"
    using sub_session_returns [OF assms, of "''ups_sub''" ups_subscriptions turns e]
    by (fastforce simp: ups_cmos_sub_thread_def split: option.split)
  show "\<exists>rc resp e'. cmos_srv_call net ip port service req n e = Some (rc, resp, e')"
    using srv_call_returns [OF assms, of ip port service req n e] by auto
  show "\<exists>rc e'. cmos_srv_wait net ip port service timeout e = Some (rc, e')"
    using srv_wait_returns [OF assms, of ip port service timeout e] by (simp add: cmos_srv_wait_def) 
qed

text \<open>A master that sends a number of empty lines and then closes.\<close>

definition babbling_net :: "nat net_api" where
  "babbling_net =
     \<lparr>na_socket = Pair 3, na_pton = (\<lambda>ip. True), na_connect = (\<lambda>fd ip port. Pair True), na_bind = (\<lambda>fd port. Pair True),
      na_listen = (\<lambda>fd. Pair True), na_accept = (\<lambda>fd. Pair 4), na_send = (\<lambda>fd s k. (Sent (length s), k)),
      na_recv = (\<lambda>fd n k. if k = 0 then (None, 0) else (Some [CHR 0x0A], k - 1)), na_epoll_create = Pair 5,
      na_close = (\<lambda>fd k. k)\<rparr>"

theorem cmos_loops_return_witness:
  "(\<exists>calls e'. inverter_cmos_sub_thread babbling_net [(True, [0])] 1000 = Some (calls, e')) \<and>
   (\<exists>rc resp e'. cmos_srv_call babbling_net ''127.0.0.1'' 10000 ''s'' None 64 1000 = Some (rc, resp, e')) \<and>
   (\<exists>rc e'. cmos_srv_wait babbling_net ''127.0.0.1'' 10000 ''s'' 2000 1000 = Some (rc, e'))"
proof -
  have "finite_supply babbling_net (\<lambda>k. k)" by (simp add: finite_supply_def babbling_net_def)
  note t = cmos_loops_return [OF this]
  show ?thesis
    using t [where turns = "[(True, [0])]" and e = 1000 and ip = "''127.0.0.1''" and port = 10000 and service = "''s''"
        and req = None and n = 64 and timeout = 2000] by blast
qed

end
