(* ===== verification/Cmos_Parse.thy ===== *)
theory Cmos_Parse
  imports Cmos_Delivery
begin

text \<open>
  \<^verbatim>\<open>cmos_parse\<close> of \<^verbatim>\<open>lib/cmos/cmos_util.h\<close>, which reads type, key and value out of the data of a
  message by searching for the text \<^verbatim>\<open>name=\<close>, and what it makes of the messages \<^verbatim>\<open>cmos_publish\<close>
  sends.
\<close>

record cmos_parsed =
  msg_type :: string
  msg_key :: string
  msg_value :: string
  value_f :: c_float
  value_i :: "32 word"

text \<open>The array a call of \<^verbatim>\<open>cmos_get_field\<close> fills, which is empty when there is no such field.\<close>

definition field_text :: "string \<Rightarrow> string \<Rightarrow> nat \<Rightarrow> string" where
  "field_text data field out_size = (case cmos_get_field data field out_size of None \<Rightarrow> [] | Some s \<Rightarrow> s)"

definition cmos_parse :: "string \<Rightarrow> int \<times> cmos_parsed" where
  "cmos_parse data =
     (let v = field_text data ''value'' 256
      in (if field_text data ''type'' 64 \<noteq> [] then 0 else -1,
          \<lparr>msg_type = field_text data ''type'' 64, msg_key = field_text data ''key'' 64, msg_value = v,
           value_f = (if v \<noteq> [] then atof_single v else Finite False 0 0),
           value_i = (if v \<noteq> [] then atoi v else 0)\<rparr>))"

section \<open>Searching for a field\<close>

text \<open>No text \<^verbatim>\<open>f=\<close> in \<open>s\<close>.\<close>

definition lacks_field :: "string \<Rightarrow> string \<Rightarrow> bool" where
  "lacks_field f s \<longleftrightarrow> (\<forall>a b. s \<noteq> a @ f @ CHR ''='' # b)"

lemma split_at_char:
  "u @ c # v = x @ c # y \<Longrightarrow> c \<notin> set x \<Longrightarrow> u = x \<and> v = y \<or> (\<exists>w. u = x @ c # w \<and> y = w @ c # v)"
proof (induction x arbitrary: u)
  case Nil
  then show ?case by (cases u) auto
next
  case (Cons d x)
  then obtain u' where u: "u = d # u'" by (cases u) auto
  with Cons.prems have "u' @ c # v = x @ c # y" "c \<notin> set x" by auto
  from Cons.IH [OF this] show ?case by (auto simp: u)
qed

lemma lacks_Nil: "lacks_field f []"
  by (simp add: lacks_field_def)

lemma suffix_after:
  assumes "a @ f = x @ c # w" and "c \<notin> set f"
  shows "\<exists>b. w = b @ f"
proof -
  from assms(1) consider us where "a = x @ us" "us @ f = c # w" | us where "a @ us = x" "f = us @ c # w"
    by (auto simp: append_eq_append_conv2)
  then show ?thesis
  proof cases
    case 1
    with assms(2) show ?thesis by (cases us) auto
  next
    case 2
    with assms(2) show ?thesis by simp
  qed
qed

lemma lacks_word:
  assumes "lacks_field f rest" and "CHR '' '' \<notin> set f" and "CHR ''='' \<notin> set name" and "CHR ''='' \<notin> set txt"
    and "\<And>a. a @ f \<noteq> name"
  shows "lacks_field f (name @ CHR ''='' # txt @ CHR '' '' # rest)"
  unfolding lacks_field_def
proof (intro allI notI)
  fix a b
  assume "name @ CHR ''='' # txt @ CHR '' '' # rest = a @ f @ CHR ''='' # b"
  then have "(a @ f) @ CHR ''='' # b = name @ CHR ''='' # (txt @ CHR '' '' # rest)" by simp
  from split_at_char [OF this assms(3)] assms(5)
  obtain w where w: "a @ f = name @ CHR ''='' # w" "txt @ CHR '' '' # rest = w @ CHR ''='' # b" by auto
  have "w \<noteq> txt" using w(2) by auto
  obtain w' where w': "w = txt @ CHR '' '' # w'" "rest = w' @ CHR ''='' # b"
  proof -
    have "w @ CHR ''='' # b = txt @ CHR '' '' # rest" using w(2) by simp
    then consider us where "w = txt @ us" "us @ CHR ''='' # b = CHR '' '' # rest"
      | us where "w @ us = txt" "CHR ''='' # b = us @ CHR '' '' # rest" by (auto simp: append_eq_append_conv2)
    then show ?thesis
    proof cases
      case 1
      then show ?thesis using that by (cases us) auto
    next
      case 2
      then show ?thesis using assms(4) by (cases us) auto
    qed
  qed
  have "a @ f = (name @ CHR ''='' # txt) @ CHR '' '' # w'" by (simp add: w(1) w'(1))
  from suffix_after [OF this assms(2)] obtain a' where "w' = a' @ f" ..
  with w'(2) have "rest = a' @ f @ CHR ''='' # b" by simp
  with assms(1) show False unfolding lacks_field_def by blast
qed

lemma hd_filter_upt:
  assumes "k < n" and "P k" and "\<And>i. i < k \<Longrightarrow> \<not> P i"
  shows "\<exists>is. filter P [0..<n] = k # is"
proof -
  have "[0..<n] = [0..<k] @ k # [Suc k..<n]" using assms(1) by (metis le0 less_imp_le_nat upt_add_eq_append upt_conv_Cons le_add_diff_inverse)
  moreover have "filter P [0..<k] = []" using assms(3) by (simp add: filter_empty_conv)
  ultimately show ?thesis using assms(2) by simp
qed

lemma get_field_at:
  assumes "lacks_field f pre" and "pre \<noteq> [] \<Longrightarrow> last pre = CHR '' ''" and "CHR '' '' \<notin> set f" and "length f \<le> 126"
    and "plain txt" and "tail = [] \<or> hd tail = CHR '' ''"
  shows "cmos_get_field (pre @ f @ CHR ''='' # txt @ tail) f n = Some (take (n - 1) txt)"
proof -
  define s where "s = f @ ''=''"
  define data where "data = pre @ f @ CHR ''='' # txt @ tail"
  have t: "take 126 f @ ''='' = s" using assms(4) by (simp add: s_def)
  have m: "take (length s) (drop (length pre) data) = s" by (simp add: s_def data_def)
  have "\<not> take (length s) (drop i data) = s" if i: "i < length pre" for i
  proof
    assume e: "take (length s) (drop i data) = s"
    have d: "drop i data = drop i pre @ f @ CHR ''='' # txt @ tail" using i by (simp add: data_def)
    show False
    proof (cases "length s \<le> length (drop i pre)")
      case True
      then have "take (length s) (drop i pre) = s" using e d by simp
      then have "drop i pre = s @ drop (length s) (drop i pre)" by (metis append_take_drop_id)
      then have "pre = take i pre @ f @ CHR ''='' # drop (length s) (drop i pre)"
        by (metis append.assoc append_Cons append_Nil append_take_drop_id s_def)
      with assms(1) show False unfolding lacks_field_def by blast
    next
      case False
      have "drop i pre \<noteq> []" using i by simp
      then have "last (drop i pre) \<in> set (drop i pre)" by (rule last_in_set)
      moreover have "set (drop i pre) \<subseteq> set (take (length s) (drop i data))" unfolding d using False by simp
      moreover have "last (drop i pre) = CHR '' ''" using i assms(2) by (cases "pre = []") (simp_all add: last_drop)
      ultimately show False using e assms(3) by (auto simp: s_def)
    qed
  qed
  from hd_filter_upt [of "length pre" "length data" "\<lambda>i. take (length s) (drop i data) = s", OF _ m this]
  obtain "is" where h: "filter (\<lambda>i. take (length s) (drop i data) = s) [0..<length data] = length pre # is"
    by (auto simp: data_def)
  have r: "drop (length pre + length s) data = txt @ tail" by (simp add: data_def s_def)
  have "takeWhile (\<lambda>c. c \<notin> set blank_ends) (txt @ tail) = txt"
    using assms(5,6) by (cases tail) (auto simp: plain_def takeWhile_append takeWhile_eq_all_conv)
  then show ?thesis
    unfolding data_def [symmetric] by (simp add: cmos_get_field_def t h r Let_def)
qed

text \<open>Fields, each with a blank behind it.\<close>

fun field_words :: "(string \<times> string) list \<Rightarrow> string" where
  "field_words [] = []"
| "field_words ((name, txt) # ws) = name @ CHR ''='' # txt @ CHR '' '' # field_words ws"

lemma field_words_last: "field_words ws \<noteq> [] \<Longrightarrow> last (field_words ws) = CHR '' ''"
  by (induction ws rule: field_words.induct) (auto simp: last_append)

lemma lacks_words:
  "CHR '' '' \<notin> set f \<Longrightarrow> \<forall>(name, txt)\<in>set ws. CHR ''='' \<notin> set name \<and> CHR ''='' \<notin> set txt \<and> (\<forall>a. a @ f \<noteq> name) \<Longrightarrow>
    lacks_field f (field_words ws)"
  by (induction ws rule: field_words.induct) (simp_all add: lacks_Nil lacks_word)

section \<open>Parsing a published message\<close>

text \<open>
  What \<^verbatim>\<open>cmos_publish\<close> writes, \<^verbatim>\<open>cmos_parse\<close> reads: type, key and value come back, with the
  value's text as integer and as single, when no text contains a blank, no text but the value an
  equals sign, and each fits its array.
\<close>

theorem parse_published:
  assumes "sendable (st, Some ty, Some key, Some v)" and "ty \<noteq> []" and "length ty \<le> 63" and "length key \<le> 63" and "length v \<le> 255"
    and "list_all (\<lambda>s. CHR ''='' \<notin> set s) [case st of None \<Rightarrow> [] | Some s \<Rightarrow> s, ty, key]"
  shows "map_option cmos_parse (publish_data st (Some ty) (Some key) (Some v)) =
    Some (0, \<lparr>msg_type = ty, msg_key = key, msg_value = v,
      value_f = (if v \<noteq> [] then atof_single v else Finite False 0 0), value_i = (if v \<noteq> [] then atoi v else 0)\<rparr>)"
proof -
  define w0 where "w0 = (case st of None \<Rightarrow> [] | Some s \<Rightarrow> [(''state'', s)])"
  define data where "data = field_words (w0 @ [(''type'', ty), (''key'', key)]) @ ''value'' @ CHR ''='' # v @ []"
  have pl: "plain ty" "plain key" "plain v" using assms(1) by (auto simp: message_words_def split: option.splits)
  have d: "publish_data st (Some ty) (Some key) (Some v) = Some data"
    using message_data(1) [OF assms(1)] by (auto simp: data_def w0_def message_words_def split: option.split)
  have d1: "data = field_words w0 @ ''type'' @ CHR ''='' # ty @ '' key='' @ key @ '' value='' @ v"
    and d2: "data = field_words (w0 @ [(''type'', ty)]) @ ''key'' @ CHR ''='' # key @ '' value='' @ v"
    by (auto simp: data_def w0_def split: option.split)
  have eqs: "CHR ''='' \<notin> set ty" "CHR ''='' \<notin> set key" "\<And>s. st = Some s \<Longrightarrow> CHR ''='' \<notin> set s"
    using assms(6) by auto
  have sfx: "a @ ''type'' \<noteq> ''state''" "a @ ''key'' \<noteq> ''state''" "a @ ''value'' \<noteq> ''state''"
    "a @ ''key'' \<noteq> ''type''" "a @ ''value'' \<noteq> ''type''" "a @ ''value'' \<noteq> ''key''" for a :: string
    by (rule notI, drule arg_cong [where f = rev], simp)+
  have l: "lacks_field ''type'' (field_words w0)" "lacks_field ''key'' (field_words (w0 @ [(''type'', ty)]))"
    "lacks_field ''value'' (field_words (w0 @ [(''type'', ty), (''key'', key)]))"
    by (rule lacks_words; auto simp: w0_def eqs sfx split: option.split)+
  have "cmos_get_field data ''type'' 64 = Some (take (64 - 1) ty)" unfolding d1
    by (rule get_field_at [OF l(1)]) (simp_all add: field_words_last pl)
  moreover have "cmos_get_field data ''key'' 64 = Some (take (64 - 1) key)" unfolding d2
    by (rule get_field_at [OF l(2)]) (simp_all add: field_words_last pl del: field_words.simps)
  moreover have "cmos_get_field data ''value'' 256 = Some (take (256 - 1) v)" unfolding data_def
    by (rule get_field_at [OF l(3)]) (simp_all add: field_words_last pl del: field_words.simps)
  ultimately show ?thesis
    using assms(2-5) by (simp add: d cmos_parse_def field_text_def Let_def)
qed

text \<open>A type that contains another field's name misleads the search.\<close>

theorem parse_published_witness:
  "map_option (fst \<circ> cmos_parse) (publish_data (Some ''running'') (Some ''sensor'') (Some ''temp'') (Some ''-12.5'')) = Some 0 \<and>
   map_option (\<lambda>d. value_i (snd (cmos_parse d))) (publish_data (Some ''running'') (Some ''sensor'') (Some ''temp'') (Some ''-12.5'')) =
     Some (- 12) \<and>
   map_option (\<lambda>d. msg_key (snd (cmos_parse d))) (publish_data None (Some ''key=1'') (Some ''temp'') (Some ''2'')) = Some ''1''"
proof -
  have s: "sendable (Some ''running'', Some ''sensor'', Some ''temp'', Some ''-12.5'')" by code_simp
  have a: "atoi ''-12.5'' = - 12" by code_simp
  have k: "map_option (\<lambda>d. msg_key (snd (cmos_parse d))) (publish_data None (Some ''key=1'') (Some ''temp'') (Some ''2'')) = Some ''1''"
    by code_simp
  have "map_option cmos_parse (publish_data (Some ''running'') (Some ''sensor'') (Some ''temp'') (Some ''-12.5'')) =
    Some (0, \<lparr>msg_type = ''sensor'', msg_key = ''temp'', msg_value = ''-12.5'',
      value_f = atof_single ''-12.5'', value_i = - 12\<rparr>)"
    using parse_published [OF s] by (simp add: a)
  with k show ?thesis by (auto simp: option.map_comp [symmetric] map_option_case split: option.splits)
qed

end
