(* ===== verification/Cmos_Strtok.thy ===== *)
theory Cmos_Strtok
  imports Cmos_Bridges
begin

text \<open>
  \<^verbatim>\<open>ctx_handle_line\<close> of \<^verbatim>\<open>lib/cmos/cmos_sub.c\<close>, one call of \<^verbatim>\<open>strtok\<close> at a time. \<^verbatim>\<open>strtok\<close> keeps
  its position in one variable of the process, and the daemon runs the subscriber of the inverter
  and the subscriber of the UPS as two threads of one process. Here the stack buffers of the
  threads are a memory, a token is a pointer into it, and the position is a component of the
  shared state: a line handled without another thread's call in between is handled as
  \<^const>\<open>ctx_handle_line\<close> says, and two lines handled at the same time are not.
\<close>

section \<open>Memory\<close>

text \<open>The two arrays that a thread has strings in: \<^verbatim>\<open>line\<close> of the receive loop and \<^verbatim>\<open>tmp\<close> of
  \<^verbatim>\<open>ctx_handle_line\<close>. A string ends at a NUL or at the end of the list, where the code has written
  the terminator.\<close>

datatype stack_buf = Line_Buf nat | Tmp_Buf nat

type_synonym char_ptr = "stack_buf \<times> nat"
type_synonym stack_mem = "stack_buf \<Rightarrow> string"

definition str_at :: "stack_mem \<Rightarrow> char_ptr \<Rightarrow> string" where
  "str_at m p = c_str (drop (snd p) (m (fst p)))"

text \<open>\<^verbatim>\<open>strtok\<close> from a position: the token, the memory with the delimiter behind the token
  overwritten, and the position for the next call.\<close>

definition strtok_from :: "char list \<Rightarrow> char_ptr \<Rightarrow> stack_mem \<Rightarrow> char_ptr option \<times> stack_mem \<times> char_ptr" where
  "strtok_from ds p m =
     (case p of
        (b, i) \<Rightarrow>
          let s = str_at m p;
              a = i + length (takeWhile (\<lambda>c. c \<in> set ds) s)
          in if a = i + length s then (None, m, (b, a))
             else
               let z = a + length (takeWhile (\<lambda>c. c \<notin> set ds) (dropWhile (\<lambda>c. c \<in> set ds) s))
               in if z = i + length s then (Some (b, a), m, (b, z))
                  else (Some (b, a), m(b := (m b)[z := CHR 0x00]), (b, Suc z)))"

section \<open>The threads\<close>

text \<open>Where a thread is: outside the function, before the first call of \<^verbatim>\<open>strtok\<close>, or after the
  call for the command, the topic, the data or a word, with the pointers it holds.\<close>

record ptr_fields =
  q_state :: "char_ptr option"
  q_type :: "char_ptr option"
  q_key :: "char_ptr option"
  q_value :: "char_ptr option"

definition no_ptrs :: ptr_fields where
  "no_ptrs = \<lparr>q_state = None, q_type = None, q_key = None, q_value = None\<rparr>"

datatype line_pc =
    Outside
  | Copied int
  | Got_cmd int "char_ptr option"
  | Got_topic int "char_ptr option"
  | Got_data int "char_ptr option" "char_ptr option"
  | Got_word int char_ptr char_ptr ptr_fields "char_ptr option"

record 'cb line_thread =
  lt_pc :: line_pc
  lt_todo :: "(int \<times> string) list"
  lt_calls :: "('cb \<times> string \<times> string) list"

record 'cb strtok_sys =
  ss_mem :: stack_mem
  ss_pos :: char_ptr
  ss_threads :: "nat \<Rightarrow> 'cb line_thread"

text \<open>A word of the data: the pointer behind its prefix is kept.\<close>

definition keep_word :: "stack_mem \<Rightarrow> char_ptr \<Rightarrow> ptr_fields \<Rightarrow> ptr_fields" where
  "keep_word m p f =
     (let t = str_at m p
      in if take 6 t = ''state='' then f\<lparr>q_state := Some (fst p, snd p + 6)\<rparr>
         else if take 5 t = ''type='' then f\<lparr>q_type := Some (fst p, snd p + 5)\<rparr>
         else if take 4 t = ''key='' then f\<lparr>q_key := Some (fst p, snd p + 4)\<rparr>
         else if take 6 t = ''value='' then f\<lparr>q_value := Some (fst p, snd p + 6)\<rparr> else f)"

definition fields_at :: "stack_mem \<Rightarrow> ptr_fields \<Rightarrow> msg_fields" where
  "fields_at m f =
     \<lparr>p_state = map_option (str_at m) (q_state f), p_type = map_option (str_at m) (q_type f),
      p_key = map_option (str_at m) (q_key f), p_value = map_option (str_at m) (q_value f)\<rparr>"

text \<open>The filters behind the loop over the words.\<close>

definition filter_and_call :: "'cb sub_slot \<Rightarrow> string \<Rightarrow> string \<Rightarrow> msg_fields \<Rightarrow> ('cb \<times> string \<times> string) option" where
  "filter_and_call slot topic data f =
     (case sl_cb slot of
        None \<Rightarrow> None
      | Some cb \<Rightarrow>
          if filtered (filter_state slot) (p_state f) then None
          else if filtered (filter_type slot) (p_type f) then None
          else if filtered (filter_key slot) (p_key f) then None
          else if filter_key slot \<noteq> [] then Some (cb, topic, case p_value f of None \<Rightarrow> [] | Some v \<Rightarrow> v)
          else Some (cb, topic, data))"

definition finish :: "nat \<Rightarrow> ('cb \<times> string \<times> string) option \<Rightarrow> 'cb strtok_sys \<Rightarrow> 'cb strtok_sys" where
  "finish t r y =
     y\<lparr>ss_threads := (ss_threads y)(t := (ss_threads y t)\<lparr>lt_pc := Outside,
         lt_calls := lt_calls (ss_threads y t) @ (case r of None \<Rightarrow> [] | Some c \<Rightarrow> [c])\<rparr>)\<rparr>"

text \<open>A call of \<^verbatim>\<open>strtok\<close> by a thread, and where the thread is with the token it gets.\<close>

definition call_strtok :: "nat \<Rightarrow> char list \<Rightarrow> char_ptr \<Rightarrow> (char_ptr option \<Rightarrow> line_pc) \<Rightarrow> 'cb strtok_sys \<Rightarrow> 'cb strtok_sys" where
  "call_strtok t ds p k y =
     (case strtok_from ds p (ss_mem y) of
        (tok, m, pos) \<Rightarrow>
          y\<lparr>ss_mem := m, ss_pos := pos, ss_threads := (ss_threads y)(t := (ss_threads y t)\<lparr>lt_pc := k tok\<rparr>)\<rparr>)"

text \<open>What is done with the three tokens of a line, up to the first word.\<close>

definition dispatch :: "'cb sub_slot list \<Rightarrow> nat \<Rightarrow> int \<Rightarrow> char_ptr \<Rightarrow> char_ptr \<Rightarrow> 'cb strtok_sys \<Rightarrow> 'cb strtok_sys" where
  "dispatch slots t s topic data y =
     (if s < 0 \<or> int (length slots) \<le> s then finish t None y
      else
        let slot = slots ! nat s
        in if str_at (ss_mem y) topic \<noteq> sl_topic slot then finish t None y
           else
             (case sl_cb slot of
                None \<Rightarrow> finish t None y
              | Some cb \<Rightarrow>
                  if filter_state slot = [] \<and> filter_type slot = [] \<and> filter_key slot = []
                  then finish t (Some (cb, str_at (ss_mem y) topic, str_at (ss_mem y) data)) y
                  else call_strtok t [CHR '' ''] (Tmp_Buf t, 0) (Got_word s topic data no_ptrs)
                         (y\<lparr>ss_mem := (ss_mem y)(Tmp_Buf t := take 1023 (str_at (ss_mem y) data))\<rparr>)))"

definition line_step :: "(nat \<Rightarrow> 'cb sub_slot list) \<Rightarrow> nat \<Rightarrow> 'cb strtok_sys \<Rightarrow> 'cb strtok_sys" where
  "line_step slots t y =
     (case lt_pc (ss_threads y t) of
        Outside \<Rightarrow>
          (case lt_todo (ss_threads y t) of
             [] \<Rightarrow> y
           | (s, l) # ls \<Rightarrow>
               y\<lparr>ss_mem := (ss_mem y)(Line_Buf t := take (CM_LINE_BUF - 1) l),
                 ss_threads := (ss_threads y)(t := (ss_threads y t)\<lparr>lt_pc := Copied s, lt_todo := ls\<rparr>)\<rparr>)
      | Copied s \<Rightarrow> call_strtok t blank_ends (Line_Buf t, 0) (Got_cmd s) y
      | Got_cmd s None \<Rightarrow> finish t None y
      | Got_cmd s (Some p) \<Rightarrow>
          if str_at (ss_mem y) p \<noteq> ''MSG'' then finish t None y
          else call_strtok t blank_ends (ss_pos y) (Got_topic s) y
      | Got_topic s topic \<Rightarrow> call_strtok t line_ends (ss_pos y) (Got_data s topic) y
      | Got_data s (Some topic) (Some data) \<Rightarrow> dispatch (slots t) t s topic data y
      | Got_data s _ _ \<Rightarrow> finish t None y
      | Got_word s topic data f None \<Rightarrow>
          finish t (filter_and_call (slots t ! nat s) (str_at (ss_mem y) topic) (str_at (ss_mem y) data)
                      (fields_at (ss_mem y) f)) y
      | Got_word s topic data f (Some p) \<Rightarrow>
          call_strtok t [CHR '' ''] (ss_pos y) (Got_word s topic data (keep_word (ss_mem y) p f)) y)"

definition line_run :: "(nat \<Rightarrow> 'cb sub_slot list) \<Rightarrow> nat list \<Rightarrow> 'cb strtok_sys \<Rightarrow> 'cb strtok_sys" where
  "line_run slots ts y = fold (line_step slots) ts y"

text \<open>The runs in which a thread moves only while every other thread is outside the function.\<close>

inductive serial_run :: "(nat \<Rightarrow> 'cb sub_slot list) \<Rightarrow> 'cb strtok_sys \<Rightarrow> 'cb strtok_sys \<Rightarrow> bool" for slots where
  serial_refl: "serial_run slots y y"
| serial_step: "serial_run slots y y1 \<Longrightarrow> \<forall>u. u \<noteq> t \<longrightarrow> lt_pc (ss_threads y1 u) = Outside \<Longrightarrow>
    serial_run slots y (line_step slots t y1)"

section \<open>The memory and the text\<close>

lemma c_str_drop: "k \<le> length (c_str s) \<Longrightarrow> c_str (drop k s) = drop k (c_str s)"
  unfolding c_str_def
proof (induction s arbitrary: k)
  case (Cons c s)
  then show ?case by (cases k) (auto split: if_splits)
qed simp

lemma str_at_add: "k \<le> length (str_at m (b, i)) \<Longrightarrow> str_at m (b, i + k) = drop k (str_at m (b, i))"
  using c_str_drop [of k "drop i (m b)"] by (simp add: str_at_def add.commute)

lemma c_str_cut: "n < length (c_str s) \<Longrightarrow> c_str (s[n := CHR 0x00]) = take n (c_str s)"
  unfolding c_str_def
proof (induction s arbitrary: n)
  case (Cons c s)
  then show ?case by (cases n) (auto split: if_splits)
qed simp

lemma c_str_update_behind: "length (c_str s) < n \<Longrightarrow> c_str (s[n := x]) = c_str s"
  unfolding c_str_def
proof (induction s arbitrary: n)
  case (Cons c s)
  then show ?case by (cases n) (auto split: if_splits)
qed simp

lemma str_at_update_behind:
  "i + length (str_at m (b, i)) < z \<Longrightarrow> str_at (m(b := (m b)[z := x])) (b, i) = str_at m (b, i)"
  by (simp add: str_at_def drop_update_swap c_str_update_behind)

lemma str_at_update_before: "z < i \<Longrightarrow> str_at (m(b := (m b)[z := x])) (b, i) = str_at m (b, i)"
  by (simp add: str_at_def)

lemma str_at_cut:
  "n < length (str_at m (b, i)) \<Longrightarrow> str_at (m(b := (m b)[i + n := CHR 0x00])) (b, i) = take n (str_at m (b, i))"
  by (simp add: str_at_def drop_update_swap c_str_cut)

lemma str_at_other: "fst q \<noteq> b \<Longrightarrow> str_at (m(b := x)) q = str_at m q"
  by (simp add: str_at_def)

text \<open>A string that ends at or before a position is not changed by a call from that position.\<close>

definition behind :: "stack_mem \<Rightarrow> char_ptr \<Rightarrow> char_ptr \<Rightarrow> bool" where
  "behind m q p \<longleftrightarrow> fst q \<noteq> fst p \<or> snd q + length (str_at m q) \<le> snd p"

lemma strtok_from_cases:
  assumes "strtok_from ds (b, i) m = (tok, m', pos)"
  obtains (none) "tok = None" "m' = m" "next_token ds (str_at m (b, i)) = None" "fst pos = b" "i \<le> snd pos"
  | (last) a s where "tok = Some (b, a)" "m' = m" "pos = (b, a + length s)" "i \<le> a" "s \<noteq> []"
      "next_token ds (str_at m (b, i)) = Some (s, [])" "str_at m (b, a) = s"
  | (inner) a s r where "tok = Some (b, a)" "m' = m(b := (m b)[a + length s := CHR 0x00])"
      "pos = (b, Suc (a + length s))" "i \<le> a" "s \<noteq> []"
      "next_token ds (str_at m (b, i)) = Some (s, r)" "str_at m' (b, a) = s" "str_at m' pos = r"
proof -
  define s where "s = str_at m (b, i)"
  define t where "t = dropWhile (\<lambda>c. c \<in> set ds) s"
  define k where "k = length (takeWhile (\<lambda>c. c \<in> set ds) s)"
  define w where "w = takeWhile (\<lambda>c. c \<notin> set ds) t"
  have t: "t = drop k s" and k: "k \<le> length s" by (simp_all add: t_def k_def length_takeWhile_le dropWhile_eq_drop)
  have e: "strtok_from ds (b, i) m =
      (if k = length s then (None, m, (b, i + k))
       else if k + length w = length s then (Some (b, i + k), m, (b, i + k + length w))
       else (Some (b, i + k), m(b := (m b)[i + k + length w := CHR 0x00]), (b, Suc (i + k + length w))))"
    unfolding strtok_from_def Let_def prod.case s_def [symmetric] t_def [symmetric] k_def [symmetric] w_def [symmetric]
    by (simp add: add.assoc)
  have a: "str_at m (b, i + k) = t" using str_at_add [of k m b i] k unfolding t s_def by simp
  have lt: "length t = length s - k" unfolding t by simp
  show ?thesis
  proof (cases "k = length s")
    case True
    then have "next_token ds s = None" by (simp add: next_token_def t t_def [symmetric])
    with assms True none show ?thesis unfolding s_def [symmetric] e by auto
  next
    case False
    with k lt have ne: "t \<noteq> []" by auto
    have "hd t \<notin> set ds" using ne hd_dropWhile unfolding t_def by metis
    with ne have wn: "w \<noteq> []" unfolding w_def by (cases t) simp_all
    have d: "dropWhile (\<lambda>c. c \<notin> set ds) t = drop (length w) t" unfolding w_def by (rule dropWhile_eq_drop)
    have wt: "w = take (length w) t" unfolding w_def by (rule takeWhile_eq_take)
    have wl: "length w \<le> length t" unfolding w_def by (rule length_takeWhile_le)
    have nx: "next_token ds s = Some (w, drop (Suc (length w)) t)"
      using ne unfolding next_token_def Let_def t_def [symmetric] w_def [symmetric] d by simp
    show ?thesis
    proof (cases "k + length w = length s")
      case True
      then have "length w = length t" using lt by simp
      then have "w = t" using wt by simp
      with assms True False last [of "i + k" w] a wn nx show ?thesis by (simp add: e flip: s_def)
    next
      case False
      with lt k wl have nl: "length w < length t" by linarith
      note c = str_at_cut [of "length w" m b "i + k", unfolded a, OF nl, folded wt]
      have r: "str_at (m(b := (m b)[i + k + length w := CHR 0x00])) (b, Suc (i + k + length w)) = drop (Suc (length w)) t"
        using str_at_add [of "Suc (length w)" m b "i + k"] nl by (simp add: a str_at_update_before)
      from assms False \<open>k \<noteq> length s\<close> inner [of "i + k" w "drop (Suc (length w)) t"] c r wn nx show ?thesis
        unfolding s_def [symmetric] e by auto
    qed
  qed
qed

lemma strtok_text:
  assumes "strtok_from ds p m = (tok, m', pos)"
  shows "next_token ds (str_at m p) = map_option (\<lambda>q. (str_at m' q, str_at m' pos)) tok"
proof -
  obtain b i where p: "p = (b, i)" by (cases p)
  note a = assms [unfolded p]
  from a show ?thesis
  proof (cases rule: strtok_from_cases)
    case (last c s)
    then have "str_at m (b, c + length s) = []" using str_at_add [of "length s" m b c] by simp
    with last show ?thesis by (simp add: p)
  qed (simp_all add: p)
qed

lemma strtok_token:
  assumes "strtok_from ds p m = (tok, m', pos)"
  shows "fst pos = fst p" and "tok = Some q \<Longrightarrow> fst q = fst p \<and> behind m' q pos"
proof -
  obtain b i where p: "p = (b, i)" by (cases p)
  note a = assms [unfolded p]
  from a show "fst pos = fst p" by (cases rule: strtok_from_cases) (simp_all add: p)
  from a show "tok = Some q \<Longrightarrow> fst q = fst p \<and> behind m' q pos"
    by (cases rule: strtok_from_cases) (auto simp: p behind_def)
qed

lemma strtok_keeps:
  assumes "strtok_from ds p m = (tok, m', pos)" and "behind m q p"
  shows "str_at m' q = str_at m q" and "behind m' q pos"
proof -
  obtain b i c j where p: "p = (b, i)" and q: "q = (c, j)" by (cases p; cases q)
  note a = assms(1) [unfolded p]
  have k: "str_at m' q = str_at m q \<and> i \<le> snd pos"
  using a proof (cases rule: strtok_from_cases)
    case (inner d s r)
    have l: "0 < length s" using inner by simp
    show ?thesis
    proof (cases "c = b")
      case True
      then have "j + length (str_at m (b, j)) < d + length s" using assms(2) inner(4) l
        by (auto simp: behind_def p q simp del: length_greater_0_conv)
      from str_at_update_behind [OF this] inner True show ?thesis by (simp add: q)
    next
      case False
      with inner show ?thesis by (simp add: q str_at_other)
    qed
  qed simp_all
  then show "str_at m' q = str_at m q" by blast
  with k assms(2) strtok_token(1) [OF assms(1)] show "behind m' q pos" by (auto simp: behind_def p q)
qed

section \<open>A thread by itself\<close>

text \<open>The pointers a thread holds are in its own buffers and behind the position.\<close>

definition ptrs_of :: "ptr_fields \<Rightarrow> char_ptr set" where
  "ptrs_of f = set_option (q_state f) \<union> set_option (q_type f) \<union> set_option (q_key f) \<union> set_option (q_value f)"

fun holds :: "nat \<Rightarrow> stack_mem \<Rightarrow> char_ptr \<Rightarrow> line_pc \<Rightarrow> bool" where
  "holds t m pos (Got_cmd s tok) \<longleftrightarrow> fst pos = Line_Buf t"
| "holds t m pos (Got_topic s topic) \<longleftrightarrow>
     fst pos = Line_Buf t \<and> (\<forall>q\<in>set_option topic. fst q = Line_Buf t \<and> behind m q pos)"
| "holds t m pos (Got_data s topic data) \<longleftrightarrow> (\<forall>q\<in>set_option topic \<union> set_option data. fst q = Line_Buf t)"
| "holds t m pos (Got_word s topic data f tok) \<longleftrightarrow>
     fst pos = Tmp_Buf t \<and> fst topic = Line_Buf t \<and> fst data = Line_Buf t \<and>
     (\<forall>q\<in>ptrs_of f \<union> set_option tok. fst q = Tmp_Buf t \<and> behind m q pos)"
| "holds t m pos _ \<longleftrightarrow> True"

text \<open>What the rest of the call comes to when nobody else moves.\<close>

definition data_outcome :: "'cb sub_slot list \<Rightarrow> int \<Rightarrow> string \<Rightarrow> string \<Rightarrow> ('cb \<times> string \<times> string) option" where
  "data_outcome slots s topic data =
     (if s < 0 \<or> int (length slots) \<le> s then None
      else if topic \<noteq> sl_topic (slots ! nat s) then None
      else slot_receive (slots ! nat s) topic data)"

definition topic_outcome :: "'cb sub_slot list \<Rightarrow> int \<Rightarrow> string \<Rightarrow> string \<Rightarrow> ('cb \<times> string \<times> string) option" where
  "topic_outcome slots s topic r =
     (case next_token line_ends r of None \<Rightarrow> None | Some (data, _) \<Rightarrow> data_outcome slots s topic data)"

definition cmd_outcome :: "'cb sub_slot list \<Rightarrow> int \<Rightarrow> string \<Rightarrow> string \<Rightarrow> ('cb \<times> string \<times> string) option" where
  "cmd_outcome slots s cmd r =
     (if cmd \<noteq> ''MSG'' then None
      else case next_token blank_ends r of None \<Rightarrow> None | Some (topic, r2) \<Rightarrow> topic_outcome slots s topic r2)"

lemma ctx_handle_line_outcome:
  "ctx_handle_line slots s line = (case next_token blank_ends line of None \<Rightarrow> None | Some (cmd, r) \<Rightarrow> cmd_outcome slots s cmd r)"
  unfolding ctx_handle_line_def cmd_outcome_def topic_outcome_def data_outcome_def by (rule refl)

fun outcome :: "'cb sub_slot list \<Rightarrow> nat \<Rightarrow> stack_mem \<Rightarrow> char_ptr \<Rightarrow> line_pc \<Rightarrow> ('cb \<times> string \<times> string) option" where
  "outcome slots t m pos Outside = None"
| "outcome slots t m pos (Copied s) = ctx_handle_line slots s (str_at m (Line_Buf t, 0))"
| "outcome slots t m pos (Got_cmd s tok) =
     (case tok of None \<Rightarrow> None | Some p \<Rightarrow> cmd_outcome slots s (str_at m p) (str_at m pos))"
| "outcome slots t m pos (Got_topic s tok) =
     (case tok of None \<Rightarrow> None | Some p \<Rightarrow> topic_outcome slots s (str_at m p) (str_at m pos))"
| "outcome slots t m pos (Got_data s topic data) =
     (case topic of None \<Rightarrow> None | Some p \<Rightarrow>
        (case data of None \<Rightarrow> None | Some q \<Rightarrow> data_outcome slots s (str_at m p) (str_at m q)))"
| "outcome slots t m pos (Got_word s topic data f tok) =
     filter_and_call (slots ! nat s) (str_at m topic) (str_at m data)
       (fold read_word (case tok of None \<Rightarrow> [] | Some p \<Rightarrow> str_at m p # tokens_of [CHR '' ''] (str_at m pos)) (fields_at m f))"

definition promise :: "(nat \<Rightarrow> 'cb sub_slot list) \<Rightarrow> 'cb strtok_sys \<Rightarrow> nat \<Rightarrow> ('cb \<times> string \<times> string) list" where
  "promise slots y t =
     lt_calls (ss_threads y t) @
     (case outcome (slots t) t (ss_mem y) (ss_pos y) (lt_pc (ss_threads y t)) of None \<Rightarrow> [] | Some c \<Rightarrow> [c])"

definition sound :: "'cb strtok_sys \<Rightarrow> nat \<Rightarrow> bool" where
  "sound y t \<longleftrightarrow> holds t (ss_mem y) (ss_pos y) (lt_pc (ss_threads y t))"

text \<open>Each call of \<^verbatim>\<open>strtok\<close> keeps the outcome.\<close>

lemma cmd_kept:
  assumes "strtok_from blank_ends (Line_Buf t, 0) m = (tok, m', pos')"
  shows "outcome slots t m' pos' (Got_cmd s tok) = outcome slots t m pos (Copied s)" and "holds t m' pos' (Got_cmd s tok)"
  using strtok_text [OF assms] strtok_token(1) [OF assms]
  by (cases tok; simp add: ctx_handle_line_outcome)+

lemma topic_kept:
  assumes "strtok_from blank_ends pos m = (tok, m', pos')" and "str_at m p = ''MSG''" and "holds t m pos (Got_cmd s (Some p))"
  shows "outcome slots t m' pos' (Got_topic s tok) = outcome slots t m pos (Got_cmd s (Some p))"
    and "holds t m' pos' (Got_topic s tok)"
  using strtok_text [OF assms(1)] assms(2,3)
    strtok_token(1) [OF assms(1)] strtok_token(2) [OF assms(1), of "the tok"]
  by (cases tok; simp add: cmd_outcome_def)+

lemma data_kept:
  assumes "strtok_from line_ends pos m = (tok, m', pos')" and "holds t m pos (Got_topic s topic)"
  shows "outcome slots t m' pos' (Got_data s topic tok) = outcome slots t m pos (Got_topic s topic)"
    and "holds t m' pos' (Got_data s topic tok)"
proof -
  show "outcome slots t m' pos' (Got_data s topic tok) = outcome slots t m pos (Got_topic s topic)"
    using strtok_text [OF assms(1)] assms(2)
    by (cases topic; cases tok) (simp_all add: topic_outcome_def strtok_keeps(1) [OF assms(1)])
  show "holds t m' pos' (Got_data s topic tok)"
    using assms(2) strtok_token(2) [OF assms(1), of "the tok"] by (cases topic; cases tok) simp_all
qed

lemma fold_tokens:
  assumes "strtok_from [CHR '' ''] p m = (tok, m', pos')"
  shows "tokens_of [CHR '' ''] (str_at m p) =
    (case tok of None \<Rightarrow> [] | Some q \<Rightarrow> str_at m' q # tokens_of [CHR '' ''] (str_at m' pos'))"
  by (subst tokens_of.simps) (use strtok_text [OF assms] in \<open>cases tok; simp\<close>)

lemma slot_receive_filter:
  "\<not> (filter_state slot = [] \<and> filter_type slot = [] \<and> filter_key slot = []) \<Longrightarrow>
     slot_receive slot topic data =
       filter_and_call slot topic data (fold read_word (tokens_of [CHR '' ''] (take 1023 data)) no_fields)"
  unfolding slot_receive_def filter_and_call_def Let_def by (auto split: option.split)

lemma first_word_kept:
  assumes "strtok_from [CHR '' ''] (Tmp_Buf t, 0) (m(Tmp_Buf t := take 1023 (str_at m data))) = (tok, m', pos')"
    and "fst topic = Line_Buf t" and "fst data = Line_Buf t"
    and "\<not> (filter_state (slots ! nat s) = [] \<and> filter_type (slots ! nat s) = [] \<and> filter_key (slots ! nat s) = [])"
  shows "outcome slots t m' pos' (Got_word s topic data no_ptrs tok) = slot_receive (slots ! nat s) (str_at m topic) (str_at m data)"
    and "holds t m' pos' (Got_word s topic data no_ptrs tok)"
proof -
  let ?m = "m(Tmp_Buf t := take 1023 (str_at m data))"
  have k: "str_at m' q = str_at m q" if "fst q = Line_Buf t" for q
    using strtok_keeps(1) [OF assms(1), of q] that by (simp add: behind_def str_at_other)
  have "CHR 0x00 \<notin> set (str_at m data)" by (auto simp: str_at_def c_str_def dest: set_takeWhileD)
  then have "c_str (take 1023 (str_at m data)) = take 1023 (str_at m data)"
    unfolding c_str_def takeWhile_eq_all_conv by (metis in_set_takeD)
  then have t: "str_at ?m (Tmp_Buf t, 0) = take 1023 (str_at m data)" by (simp add: str_at_def)
  note f = fold_tokens [OF assms(1), unfolded t]
  show "outcome slots t m' pos' (Got_word s topic data no_ptrs tok) = slot_receive (slots ! nat s) (str_at m topic) (str_at m data)"
    unfolding slot_receive_filter [OF assms(4)] f by (simp add: k assms(2,3) fields_at_def no_ptrs_def no_fields_def)
  show "holds t m' pos' (Got_word s topic data no_ptrs tok)"
    using assms(2,3) strtok_token(1) [OF assms(1)] strtok_token(2) [OF assms(1), of "the tok"]
    by (cases tok) (simp_all add: ptrs_of_def no_ptrs_def)
qed

lemma fields_keep_word: "fields_at m (keep_word m p f) = read_word (str_at m p) (fields_at m f)"
proof -
  obtain b i where p: "p = (b, i)" by (cases p)
  have d: "take k (str_at m (b, i)) = w \<Longrightarrow> length w = k \<Longrightarrow> str_at m (b, i + k) = drop k (str_at m (b, i))" for k w
    by (intro str_at_add) (auto dest: arg_cong [of _ _ length])
  show ?thesis
    unfolding keep_word_def read_word_def Let_def p using d [of 6 "''state=''"] d [of 5 "''type=''"] d [of 4 "''key=''"] d [of 6 "''value=''"]
    by (simp add: fields_at_def)
qed

lemma keep_word_behind:
  assumes "fst p = b \<and> behind m p pos" and "\<forall>q\<in>ptrs_of f. fst q = b \<and> behind m q pos"
  shows "\<forall>q\<in>ptrs_of (keep_word m p f). fst q = b \<and> behind m q pos"
proof -
  obtain i where p: "p = (b, i)" using assms(1) by (cases p) auto
  have d: "behind m (b, i + k) pos" if "take k (str_at m (b, i)) = w" "length w = k" for k w
  proof -
    from that have k: "k \<le> length (str_at m (b, i))" by (auto dest: arg_cong [of _ _ length])
    show ?thesis using assms(1) k unfolding p behind_def by (auto simp: str_at_add [OF k])
  qed
  show ?thesis
    unfolding keep_word_def Let_def p
    using assms(2) d [of 6 "''state=''"] d [of 5 "''type=''"] d [of 4 "''key=''"] d [of 6 "''value=''"]
    by (cases "take 6 (str_at m (b, i)) = ''state=''"; cases "take 5 (str_at m (b, i)) = ''type=''";
        cases "take 4 (str_at m (b, i)) = ''key=''"; cases "take 6 (str_at m (b, i)) = ''value=''")
      (simp_all add: ptrs_of_def ball_Un)
qed

lemma fields_at_kept:
  "(\<And>q. q \<in> ptrs_of f \<Longrightarrow> str_at m' q = str_at m q) \<Longrightarrow> fields_at m' f = fields_at m f"
  unfolding fields_at_def ptrs_of_def by (auto intro!: map_option_cong)

lemma next_word_kept:
  assumes "strtok_from [CHR '' ''] pos m = (tok, m', pos')" and "holds t m pos (Got_word s topic data f (Some p))"
  shows "outcome slots t m' pos' (Got_word s topic data (keep_word m p f) tok) = outcome slots t m pos (Got_word s topic data f (Some p))"
    and "holds t m' pos' (Got_word s topic data (keep_word m p f) tok)"
proof -
  have b: "\<forall>q\<in>ptrs_of (keep_word m p f). fst q = Tmp_Buf t \<and> behind m q pos" using assms(2) by (intro keep_word_behind) simp_all
  have k: "str_at m' q = str_at m q" if "fst q = Line_Buf t \<or> q \<in> ptrs_of (keep_word m p f)" for q
    using strtok_keeps(1) [OF assms(1), of q] that b assms(2) by (auto simp: behind_def)
  have f: "fields_at m' (keep_word m p f) = read_word (str_at m p) (fields_at m f)"
    using k by (subst fields_at_kept [of _ m' m]) (auto simp: fields_keep_word)
  show "outcome slots t m' pos' (Got_word s topic data (keep_word m p f) tok) = outcome slots t m pos (Got_word s topic data f (Some p))"
    using k assms(2) by (simp add: f fold_tokens [OF assms(1)])
  show "holds t m' pos' (Got_word s topic data (keep_word m p f) tok)"
    using b assms(2) strtok_token(1) [OF assms(1)] strtok_token(2) [OF assms(1), of "the tok"]
    by (cases tok) (auto intro: strtok_keeps(2) [OF assms(1)])
qed

text \<open>A step inside the function keeps the promise of the thread.\<close>

definition kept :: "(nat \<Rightarrow> 'cb sub_slot list) \<Rightarrow> nat \<Rightarrow> 'cb strtok_sys \<Rightarrow> 'cb strtok_sys \<Rightarrow> bool" where
  "kept slots t y y1 \<longleftrightarrow> sound y1 t \<and> promise slots y1 t = promise slots y t \<and>
     lt_todo (ss_threads y1 t) = lt_todo (ss_threads y t) \<and> (\<forall>u. u \<noteq> t \<longrightarrow> ss_threads y1 u = ss_threads y u)"

lemma finish_kept:
  "r = outcome (slots t) t (ss_mem y) (ss_pos y) (lt_pc (ss_threads y t)) \<Longrightarrow> kept slots t y (finish t r y)"
  by (simp add: kept_def finish_def sound_def promise_def)

lemma call_kept:
  assumes "ss_threads y1 = ss_threads y"
    and "\<And>tok m pos. strtok_from ds p (ss_mem y1) = (tok, m, pos) \<Longrightarrow>
      outcome (slots t) t m pos (k tok) = outcome (slots t) t (ss_mem y) (ss_pos y) (lt_pc (ss_threads y t)) \<and> holds t m pos (k tok)"
  shows "kept slots t y (call_strtok t ds p k y1)"
proof -
  obtain tok m pos where s: "strtok_from ds p (ss_mem y1) = (tok, m, pos)" by (cases "strtok_from ds p (ss_mem y1)")
  from assms(2) [OF s] assms(1) show ?thesis by (simp add: kept_def call_strtok_def s sound_def promise_def)
qed

lemma dispatch_kept:
  assumes "sound y t" and "lt_pc (ss_threads y t) = Got_data s (Some topic) (Some data)"
  shows "kept slots t y (dispatch (slots t) t s topic data y)"
proof -
  let ?m = "ss_mem y" and ?slot = "slots t ! nat s"
  have q: "fst topic = Line_Buf t" "fst data = Line_Buf t" using assms by (simp_all add: sound_def)
  have o: "outcome (slots t) t ?m (ss_pos y) (lt_pc (ss_threads y t)) = data_outcome (slots t) s (str_at ?m topic) (str_at ?m data)"
    by (simp add: assms(2))
  show ?thesis
  proof (cases "s < 0 \<or> int (length (slots t)) \<le> s \<or> str_at ?m topic \<noteq> sl_topic ?slot \<or> sl_cb ?slot = None")
    case True
    then have n: "data_outcome (slots t) s (str_at ?m topic) (str_at ?m data) = None"
      by (auto simp: data_outcome_def slot_receive_def)
    have "dispatch (slots t) t s topic data y = finish t None y" using True by (auto simp: dispatch_def Let_def)
    then show ?thesis by (simp add: finish_kept o n)
  next
    case False
    then obtain cb where cb: "sl_cb ?slot = Some cb" and r: "\<not> (s < 0 \<or> int (length (slots t)) \<le> s)" "str_at ?m topic = sl_topic ?slot" by blast
    then have d: "data_outcome (slots t) s (str_at ?m topic) (str_at ?m data) = slot_receive ?slot (str_at ?m topic) (str_at ?m data)"
      unfolding data_outcome_def by simp
    show ?thesis
    proof (cases "filter_state ?slot = [] \<and> filter_type ?slot = [] \<and> filter_key ?slot = []")
      case True
      then have "dispatch (slots t) t s topic data y = finish t (Some (cb, str_at ?m topic, str_at ?m data)) y"
        using cb r by (simp add: dispatch_def Let_def)
      moreover have "slot_receive ?slot (str_at ?m topic) (str_at ?m data) = Some (cb, str_at ?m topic, str_at ?m data)"
        using True cb by (simp add: slot_receive_def)
      ultimately show ?thesis using o d by (simp add: finish_kept)
    next
      case False
      then have "dispatch (slots t) t s topic data y = call_strtok t [CHR '' ''] (Tmp_Buf t, 0) (Got_word s topic data no_ptrs)
          (y\<lparr>ss_mem := ?m(Tmp_Buf t := take 1023 (str_at ?m data))\<rparr>)"
        using cb r unfolding dispatch_def Let_def by auto
      then show ?thesis using first_word_kept [OF _ q False] o d by (auto intro!: call_kept simp del: outcome.simps holds.simps)
    qed
  qed
qed

lemma step_inside:
  assumes "sound y t" and "lt_pc (ss_threads y t) \<noteq> Outside"
  shows "kept slots t y (line_step slots t y)"
proof (cases "lt_pc (ss_threads y t)")
  case Outside
  with assms(2) show ?thesis by simp
next
  case (Copied s)
  then show ?thesis unfolding line_step_def
    by (simp del: outcome.simps holds.simps, intro call_kept) (auto simp del: outcome.simps holds.simps dest: cmd_kept)
next
  case (Got_cmd s tok)
  show ?thesis
  proof (cases "\<exists>p. tok = Some p \<and> str_at (ss_mem y) p = ''MSG''")
    case True
    then obtain p where p: "tok = Some p" "str_at (ss_mem y) p = ''MSG''" by blast
    have h: "holds t (ss_mem y) (ss_pos y) (Got_cmd s (Some p))" using assms(1) Got_cmd p by (simp add: sound_def)
    have e: "line_step slots t y = call_strtok t blank_ends (ss_pos y) (Got_topic s) y"
      unfolding line_step_def Got_cmd p(1) line_pc.case option.case p(2) by simp
    show ?thesis
      unfolding e by (rule call_kept, rule refl) (simp only: Got_cmd p(1) topic_kept [OF _ p(2) h] simp_thms)
  next
    case False
    then have e: "line_step slots t y = finish t None y"
      unfolding line_step_def Got_cmd line_pc.case by (cases tok) simp_all
    show ?thesis
      unfolding e by (rule finish_kept) (use False Got_cmd in \<open>auto simp: cmd_outcome_def split: option.split\<close>)
  qed
next
  case (Got_topic s topic)
  then have h: "holds t (ss_mem y) (ss_pos y) (Got_topic s topic)" using assms(1) by (simp add: sound_def)
  have e: "line_step slots t y = call_strtok t line_ends (ss_pos y) (Got_data s topic) y"
    unfolding line_step_def Got_topic by simp
  show ?thesis
    unfolding e by (rule call_kept, rule refl) (simp only: Got_topic data_kept [OF _ h] simp_thms)
next
  case (Got_data s topic data)
  show ?thesis
  proof (cases "\<exists>p q. topic = Some p \<and> data = Some q")
    case True
    with Got_data show ?thesis using dispatch_kept [OF assms(1)] by (auto simp: line_step_def)
  next
    case False
    then have e: "line_step slots t y = finish t None y"
      unfolding line_step_def Got_data line_pc.case by (cases topic; cases data) simp_all
    show ?thesis unfolding e by (rule finish_kept) (use False Got_data in \<open>auto split: option.split\<close>)
  qed
next
  case (Got_word s topic data f tok)
  show ?thesis
  proof (cases tok)
    case None
    then have e: "line_step slots t y = finish t (filter_and_call (slots t ! nat s) (str_at (ss_mem y) topic)
        (str_at (ss_mem y) data) (fields_at (ss_mem y) f)) y"
      unfolding line_step_def Got_word by simp
    show ?thesis unfolding e by (rule finish_kept) (simp add: Got_word None)
  next
    case (Some p)
    have h: "holds t (ss_mem y) (ss_pos y) (Got_word s topic data f (Some p))" using assms(1) Got_word Some by (simp add: sound_def)
    have e: "line_step slots t y = call_strtok t [CHR '' ''] (ss_pos y) (Got_word s topic data (keep_word (ss_mem y) p f)) y"
      unfolding line_step_def Got_word Some by simp
    show ?thesis
      unfolding e by (rule call_kept, rule refl) (simp only: Got_word Some next_word_kept [OF _ h] simp_thms)
  qed
qed

section \<open>Serial runs\<close>

lemma step_start:
  assumes "lt_pc (ss_threads y t) = Outside" and "lt_todo (ss_threads y t) = (s, l) # ls"
  shows "sound (line_step slots t y) t"
    and "promise slots (line_step slots t y) t = promise slots y t @
      (case ctx_handle_line (slots t) s (line_of l) of None \<Rightarrow> [] | Some c \<Rightarrow> [c])"
    and "lt_todo (ss_threads (line_step slots t y) t) = ls"
    and "u \<noteq> t \<Longrightarrow> ss_threads (line_step slots t y) u = ss_threads y u"
  using assms by (simp_all add: line_step_def sound_def promise_def str_at_def line_of_def)

lemma outside_alone:
  assumes "lt_pc (ss_threads y1 u) = Outside"
  shows "sound y1 u" and "promise slots y1 u = lt_calls (ss_threads y1 u)"
  using assms by (simp_all add: sound_def promise_def)

lemma serial_promise:
  assumes "serial_run slots y0 y" and "\<forall>t. lt_pc (ss_threads y0 t) = Outside"
  shows "sound y t \<and> (\<exists>d. lt_todo (ss_threads y0 t) = d @ lt_todo (ss_threads y t) \<and>
    promise slots y t = lt_calls (ss_threads y0 t) @ List.map_filter (\<lambda>(s, l). ctx_handle_line (slots t) s (line_of l)) d)"
  using assms
proof (induction arbitrary: t rule: serial_run.induct)
  case (serial_refl y)
  then show ?case by (auto simp: outside_alone map_filter_simps)
next
  case (serial_step y0 y u)
  note IH = serial_step.IH [OF serial_step.prems]
  let ?y = "line_step slots u y"
  have unchanged: "ss_threads ?y t = ss_threads y t" if "t \<noteq> u"
  proof (cases "lt_pc (ss_threads y u) = Outside")
    case True
    show ?thesis
    proof (cases "lt_todo (ss_threads y u)")
      case Nil
      with True show ?thesis by (simp add: line_step_def)
    next
      case (Cons c ls)
      with True step_start(4) [OF True, of "fst c" "snd c" ls t] that show ?thesis by simp
    qed
  next
    case False
    with step_inside [OF conjunct1 [OF IH] False, of slots] that show ?thesis by (simp add: kept_def)
  qed
  consider (other) "t \<noteq> u" | (outside) "t = u" "lt_pc (ss_threads y u) = Outside" | (inside) "t = u" "lt_pc (ss_threads y u) \<noteq> Outside"
    by blast
  then show ?case
  proof cases
    case other
    then have o: "lt_pc (ss_threads y t) = Outside" using serial_step.hyps(2) by blast
    note same = unchanged [OF other]
    from o have o': "lt_pc (ss_threads ?y t) = Outside" by (simp add: same)
    show ?thesis using IH [of t] by (simp add: outside_alone [OF o] outside_alone [OF o'] same)
  next
    case outside
    show ?thesis
    proof (cases "lt_todo (ss_threads y u)")
      case Nil
      with outside IH [of t] show ?thesis by (simp add: line_step_def)
    next
      case (Cons c ls)
      obtain s l where c: "c = (s, l)" by (cases c)
      obtain d where d: "lt_todo (ss_threads y0 u) = d @ (s, l) # ls"
          "promise slots y u = lt_calls (ss_threads y0 u) @ List.map_filter (\<lambda>(s, l). ctx_handle_line (slots u) s (line_of l)) d"
        using IH [of u] Cons c by auto
      note st = step_start [where slots = slots, OF outside(2) Cons [unfolded c]]
      show ?thesis
        using st(1-3) d by (intro conjI exI [of _ "d @ [(s, l)]"]) (auto simp: outside(1) map_filter_def split: option.split)
    qed
  next
    case inside
    from step_inside [OF _ inside(2), of slots] IH [of u] show ?thesis by (auto simp: kept_def inside(1))
  qed
qed

end
