(* ===== verification/Cmos_Threads.thy ===== *)
theory Cmos_Threads
  imports Cmos_Strtok
begin

text \<open>
  What the shared position of \<^verbatim>\<open>strtok\<close> means for the two subscriber threads: a thread that is
  alone, or never interrupted, handles its lines as \<^const>\<open>ctx_handle_line\<close> says and comes to an
  end; two threads that handle a line each at the same time can give a command the value of
  another message.
\<close>

section \<open>Frames\<close>

lemma strtok_frame:
  assumes "strtok_from ds p m = (tok, m', pos)" and "b \<noteq> fst p"
  shows "m' b = m b"
proof -
  obtain c i where p: "p = (c, i)" by (cases p)
  note a = assms(1) [unfolded p]
  from a show ?thesis by (cases rule: strtok_from_cases) (use assms(2) in \<open>simp_all add: p\<close>)
qed

lemma str_at_same: "m' (fst q) = m (fst q) \<Longrightarrow> str_at m' q = str_at m q"
  by (simp add: str_at_def)

lemma strtok_word:
  assumes "next_token ds (str_at m p) = Some (w, r)"
  obtains q m' pos where "strtok_from ds p m = (Some q, m', pos)" and "str_at m' q = w" and "str_at m' pos = r"
    and "fst q = fst p" and "fst pos = fst p"
proof -
  obtain tok m' pos where s: "strtok_from ds p m = (tok, m', pos)" by (cases "strtok_from ds p m")
  from strtok_text [OF s] assms obtain q where "tok = Some q" "str_at m' q = w" "str_at m' pos = r" by (cases tok) auto
  with s strtok_token [OF s] that show ?thesis by simp
qed

lemma strtok_end:
  assumes "str_at m p = []"
  obtains pos where "strtok_from ds p m = (None, m, pos)"
proof -
  have "strtok_from ds p m = (None, m, p)" using assms by (cases p) (simp add: strtok_from_def)
  with that show ?thesis by blast
qed

section \<open>Two threads\<close>

lemma line_run_simps: "line_run slots [] y = y" "line_run slots (t # ts) y = line_run slots ts (line_step slots t y)"
    "line_run slots (ts @ us) y = line_run slots us (line_run slots ts y)"
  by (simp_all add: line_run_def)

text \<open>The tokens of a command's line, up to the word of the key.\<close>

lemma command_tokens:
  assumes "topic_ok topic" and "sendable (None, Some ft, Some fk, Some v)"
    and "d = join_words (message_words None (Some ft) (Some fk) (Some v))"
  shows "next_token blank_ends (publish_line topic d) = Some (''MSG'', topic @ CHR '' '' # d @ [CHR 0x0A])"
    and "next_token blank_ends (topic @ CHR '' '' # d @ [CHR 0x0A]) = Some (topic, d @ [CHR 0x0A])"
    and "next_token line_ends (d @ [CHR 0x0A]) = Some (d, [])"
    and "next_token [CHR '' ''] d = Some (''type='' @ ft, (''key='' @ fk) @ CHR '' '' # ''value='' @ v)"
    and "next_token [CHR '' ''] ((''key='' @ fk) @ CHR '' '' # ''value='' @ v) = Some (''key='' @ fk, ''value='' @ v)"
proof -
  note md = message_data [OF assms(2), folded assms(3)]
  have l: "\<forall>c\<in>set d. c \<notin> set line_ends" using md(3) by blast
  note parts = publish_line_parts [OF assms(1) l md(2,4)]
  from parts show "next_token blank_ends (publish_line topic d) = Some (''MSG'', topic @ CHR '' '' # d @ [CHR 0x0A])"
    and "next_token blank_ends (topic @ CHR '' '' # d @ [CHR 0x0A]) = Some (topic, d @ [CHR 0x0A])"
    and "next_token line_ends (d @ [CHR 0x0A]) = Some (d, [])" by blast+
  have pl: "plain ft" "plain fk" "plain v" using assms(2) by (simp_all add: message_words_def)
  have d: "d = (''type='' @ ft) @ CHR '' '' # (''key='' @ fk) @ CHR '' '' # ''value='' @ v"
    by (simp add: assms(3) message_words_def)
  show "next_token [CHR '' ''] d = Some (''type='' @ ft, (''key='' @ fk) @ CHR '' '' # ''value='' @ v)"
    unfolding d using pl by (intro next_token_word) (auto simp: plain_def)
  show "next_token [CHR '' ''] ((''key='' @ fk) @ CHR '' '' # ''value='' @ v) = Some (''key='' @ fk, ''value='' @ v)"
    using pl by (intro next_token_word) (auto simp: plain_def)
qed

text \<open>A thread with a command's line to handle, alone for six steps, has read the word of the key
  and would read the value next.\<close>

lemma reach_key:
  fixes y :: "'cb strtok_sys"
  assumes pc: "lt_pc (ss_threads y t) = Outside"
    and todo: "lt_todo (ss_threads y t) = [(int k, message_line topic (None, Some ft, Some fk, Some v))]"
    and ok: "topic_ok topic" "sendable (None, Some ft, Some fk, Some v)"
    and slot: "k < length (slots t)" "sl_topic (slots t ! k) = topic" "sl_cb (slots t ! k) = Some cb" "filter_key (slots t ! k) \<noteq> []"
  obtains y' tp dp f p where "line_run slots (replicate 6 t) y = y'"
    and "lt_pc (ss_threads y' t) = Got_word (int k) tp dp f (Some p)" and "sound y' t"
    and "fields_at (ss_mem y') (keep_word (ss_mem y') p f) = \<lparr>p_state = None, p_type = Some ft, p_key = Some fk, p_value = None\<rparr>"
    and "str_at (ss_mem y') tp = topic" and "str_at (ss_mem y') (ss_pos y') = ''value='' @ v" and "fst (ss_pos y') = Tmp_Buf t"
    and "lt_calls (ss_threads y' t) = lt_calls (ss_threads y t)"
    and "\<And>u. u \<noteq> t \<Longrightarrow> ss_threads y' u = ss_threads y u"
    and "\<And>u. u \<noteq> t \<Longrightarrow> ss_mem y' (Line_Buf u) = ss_mem y (Line_Buf u) \<and> ss_mem y' (Tmp_Buf u) = ss_mem y (Tmp_Buf u)"
proof -
  let ?d = "join_words (message_words None (Some ft) (Some fk) (Some v))" and ?l = "message_line topic (None, Some ft, Some fk, Some v)"
  note md = message_data [OF ok(2)] and parts = command_tokens [OF ok refl]
  define m1 where "m1 = (ss_mem y)(Line_Buf t := take (CM_LINE_BUF - 1) ?l)"
  have "line_of ?l = ?l" by (rule line_of_whole [OF message_line_whole [OF ok]])
  then have s1: "str_at m1 (Line_Buf t, 0) = publish_line topic ?d" by (simp add: m1_def str_at_def line_of_def message_line_def)
  obtain q2 m2 pos2 where k2: "strtok_from blank_ends (Line_Buf t, 0) m1 = (Some q2, m2, pos2)" "str_at m2 q2 = ''MSG''"
      "str_at m2 pos2 = topic @ CHR '' '' # ?d @ [CHR 0x0A]" "fst q2 = Line_Buf t" "fst pos2 = Line_Buf t"
    by (rule strtok_word [OF parts(1) [folded s1]]) simp
  obtain q3 m3 pos3 where k3: "strtok_from blank_ends pos2 m2 = (Some q3, m3, pos3)" "str_at m3 q3 = topic"
      "str_at m3 pos3 = ?d @ [CHR 0x0A]" "fst q3 = Line_Buf t" "fst pos3 = Line_Buf t"
    by (rule strtok_word [OF parts(2) [folded k2(3)]]) (simp add: k2(5))
  obtain q4 m4 pos4 where k4: "strtok_from line_ends pos3 m3 = (Some q4, m4, pos4)" "str_at m4 q4 = ?d"
      "fst q4 = Line_Buf t" "fst pos4 = Line_Buf t"
    by (rule strtok_word [OF parts(3) [folded k3(3)]]) (simp add: k3(5))
  have b3: "behind m3 q3 pos3" using strtok_token(2) [OF k3(1)] by simp
  have t4: "str_at m4 q3 = topic" using strtok_keeps(1) [OF k4(1) b3] k3(2) by simp
  define m4' where "m4' = m4(Tmp_Buf t := take 1023 ?d)"
  have "c_str ?d = ?d" using md(3) unfolding c_str_def takeWhile_eq_all_conv by blast
  then have s4: "str_at m4' (Tmp_Buf t, 0) = ?d" using md(4) by (simp add: m4'_def str_at_def PUB_DATA_CAP_def)
  obtain q5 m5 pos5 where k5: "strtok_from [CHR '' ''] (Tmp_Buf t, 0) m4' = (Some q5, m5, pos5)" "str_at m5 q5 = ''type='' @ ft"
      "str_at m5 pos5 = (''key='' @ fk) @ CHR '' '' # ''value='' @ v" "fst q5 = Tmp_Buf t" "fst pos5 = Tmp_Buf t"
    by (rule strtok_word [OF parts(4) [folded s4]]) simp
  obtain q6 m6 pos6 where k6: "strtok_from [CHR '' ''] pos5 m5 = (Some q6, m6, pos6)" "str_at m6 q6 = ''key='' @ fk"
      "str_at m6 pos6 = ''value='' @ v" "fst q6 = Tmp_Buf t" "fst pos6 = Tmp_Buf t"
    by (rule strtok_word [OF parts(5) [folded k5(3)]]) (simp add: k5(5))
  let ?th = "\<lambda>pc. (ss_threads y)(t := \<lparr>lt_pc = pc, lt_todo = [], lt_calls = lt_calls (ss_threads y t)\<rparr>)"
  have th: "(ss_threads y t)\<lparr>lt_pc := c, lt_todo := []\<rparr> = \<lparr>lt_pc = c, lt_todo = [], lt_calls = lt_calls (ss_threads y t)\<rparr>" for c
    by (cases "ss_threads y t") simp
  let ?y = "\<lambda>m pos pc. y\<lparr>ss_mem := m, ss_pos := pos, ss_threads := ?th pc\<rparr>"
  have e1: "line_step slots t y = ?y m1 (ss_pos y) (Copied (int k))" by (simp add: line_step_def pc todo m1_def th)
  have e2: "line_step slots t (?y m1 (ss_pos y) (Copied (int k))) = ?y m2 pos2 (Got_cmd (int k) (Some q2))"
    by (simp add: line_step_def call_strtok_def k2(1))
  have e3: "line_step slots t (?y m2 pos2 (Got_cmd (int k) (Some q2))) = ?y m3 pos3 (Got_topic (int k) (Some q3))"
    by (simp add: line_step_def call_strtok_def k2(2) k3(1))
  have e4: "line_step slots t (?y m3 pos3 (Got_topic (int k) (Some q3))) = ?y m4 pos4 (Got_data (int k) (Some q3) (Some q4))"
    by (simp add: line_step_def call_strtok_def k4(1))
  have e5: "line_step slots t (?y m4 pos4 (Got_data (int k) (Some q3) (Some q4))) = ?y m5 pos5 (Got_word (int k) q3 q4 no_ptrs (Some q5))"
    using slot by (simp add: line_step_def dispatch_def Let_def t4 k4(2) call_strtok_def k5(1) flip: m4'_def)
  define f where "f = keep_word m5 q5 no_ptrs"
  have e6: "line_step slots t (?y m5 pos5 (Got_word (int k) q3 q4 no_ptrs (Some q5))) = ?y m6 pos6 (Got_word (int k) q3 q4 f (Some q6))"
    by (simp add: line_step_def call_strtok_def k6(1) f_def)
  define y6 where "y6 = ?y m6 pos6 (Got_word (int k) q3 q4 f (Some q6))"
  have six: "replicate 6 t = [t, t, t, t, t, t]" by (simp add: numeral_eq_Suc)
  have run: "line_run slots (replicate 6 t) y = y6"
    by (simp only: six line_run_simps e1 e2 e3 e4 e5 e6 y6_def)
  have fr: "m6 (Line_Buf u) = ss_mem y (Line_Buf u) \<and> m6 (Tmp_Buf u) = ss_mem y (Tmp_Buf u)" if "u \<noteq> t" for u
    using that strtok_frame [OF k2(1)] strtok_frame [OF k3(1)] strtok_frame [OF k4(1)] strtok_frame [OF k5(1)] strtok_frame [OF k6(1)]
    by (simp add: k2(5) k3(5) k5(5) m1_def m4'_def)
  have h5: "holds t m5 pos5 (Got_word (int k) q3 q4 no_ptrs (Some q5))"
    using first_word_kept(2) [where slots = "slots t" and s = "int k", OF k5(1) [unfolded m4'_def, folded k4(2)] k3(4) k4(3)] slot(4) by simp
  have h6: "holds t m6 pos6 (Got_word (int k) q3 q4 f (Some q6))" unfolding f_def by (rule next_word_kept(2) [OF k6(1) h5])
  have "\<forall>q\<in>ptrs_of f. fst q = Tmp_Buf t \<and> behind m5 q pos5"
    unfolding f_def by (rule keep_word_behind) (use h5 in simp_all)
  then have "fields_at m6 f = fields_at m5 f" by (intro fields_at_kept strtok_keeps(1) [OF k6(1)]) blast
  then have "fields_at m6 (keep_word m6 q6 f) = read_word (''key='' @ fk) (read_word (''type='' @ ft) (fields_at m5 no_ptrs))"
    by (simp only: fields_keep_word f_def k5(2) k6(2))
  also have "\<dots> = \<lparr>p_state = None, p_type = Some ft, p_key = Some fk, p_value = None\<rparr>"
    by (simp add: fields_at_def no_ptrs_def read_word_def)
  finally have f6: "fields_at m6 (keep_word m6 q6 f) = \<dots>" .
  have "m6 (Line_Buf t) = m4 (Line_Buf t)"
    using strtok_frame [OF k5(1), of "Line_Buf t"] strtok_frame [OF k6(1), of "Line_Buf t"] by (simp add: k5(5) m4'_def)
  then have t6: "str_at m6 q3 = topic" using str_at_same [of m6 q3 m4] k3(4) t4 by simp
  show ?thesis
    by (rule that [OF run, of q3 q4 f q6]) (use h6 f6 t6 k6(3,5) fr in \<open>simp_all add: y6_def sound_def del: holds.simps\<close>)
qed

text \<open>The last three steps of a thread, when the word at the position is another thread's value.\<close>

lemma finish_with:
  fixes y :: "'cb strtok_sys"
  assumes pc: "lt_pc (ss_threads y t) = Got_word (int k) tp dp f (Some p)"
    and f: "fields_at (ss_mem y) (keep_word (ss_mem y) p f) = \<lparr>p_state = None, p_type = ft, p_key = fk, p_value = None\<rparr>"
    and h: "\<forall>q\<in>ptrs_of (keep_word (ss_mem y) p f) \<union> {tp, dp}. fst q \<noteq> fst (ss_pos y)"
    and pos: "str_at (ss_mem y) (ss_pos y) = ''value='' @ w" and w: "plain w"
  shows "lt_calls (ss_threads (line_run slots (replicate 3 t) y) t) = lt_calls (ss_threads y t) @
    (case filter_and_call (slots t ! k) (str_at (ss_mem y) tp) (str_at (ss_mem y) dp)
       \<lparr>p_state = None, p_type = ft, p_key = fk, p_value = Some w\<rparr> of None \<Rightarrow> [] | Some c \<Rightarrow> [c])"
proof -
  let ?f = "keep_word (ss_mem y) p f"
  have "next_token [CHR '' ''] (''value='' @ w) = Some (''value='' @ w, [])"
    using w by (intro next_token_last) (auto simp: plain_def)
  note nw = this [folded pos]
  obtain q m pos where s: "strtok_from [CHR '' ''] (ss_pos y) (ss_mem y) = (Some q, m, pos)" "str_at m q = ''value='' @ w"
      "str_at m pos = []" "fst pos = fst (ss_pos y)"
    by (rule strtok_word [OF nw]) (simp add: assms(4))
  have sm: "str_at m z = str_at (ss_mem y) z" if "fst z \<noteq> fst (ss_pos y)" for z
    by (rule str_at_same) (rule strtok_frame [OF s(1) that])
  obtain pos' where e: "strtok_from [CHR '' ''] pos m = (None, m, pos')" by (rule strtok_end [OF s(3)])
  have "fields_at m ?f = fields_at (ss_mem y) ?f" using h by (intro fields_at_kept sm) blast
  then have fq: "fields_at m (keep_word m q ?f) = \<lparr>p_state = None, p_type = ft, p_key = fk, p_value = Some w\<rparr>"
    by (simp add: fields_keep_word [of m q] f s(2) read_word_def)
  define y1 where "y1 = line_step slots t y"
  define y2 where "y2 = line_step slots t y1"
  have 1: "ss_mem y1 = m" "ss_pos y1 = pos" "lt_pc (ss_threads y1 t) = Got_word (int k) tp dp ?f (Some q)"
    "lt_calls (ss_threads y1 t) = lt_calls (ss_threads y t)"
    by (simp_all add: y1_def line_step_def pc call_strtok_def s(1))
  have 2: "ss_mem y2 = m" "lt_pc (ss_threads y2 t) = Got_word (int k) tp dp (keep_word m q ?f) None"
    "lt_calls (ss_threads y2 t) = lt_calls (ss_threads y t)"
    by (simp_all add: y2_def line_step_def 1 call_strtok_def e)
  have "line_run slots (replicate 3 t) y = line_step slots t y2"
    by (simp add: numeral_eq_Suc line_run_simps y1_def y2_def)
  then show ?thesis using h by (simp add: line_step_def 2 finish_def fq sm)
qed

section \<open>A thread comes to an end\<close>

lemma step_other: "u \<noteq> t \<Longrightarrow> ss_threads (line_step slots t y) u = ss_threads y u"
  unfolding line_step_def dispatch_def call_strtok_def finish_def Let_def
  by (auto split: line_pc.split option.split prod.split list.split)

fun stage :: "line_pc \<Rightarrow> nat" where
  "stage Outside = 0"
| "stage (Copied s) = 6"
| "stage (Got_cmd s tok) = 5"
| "stage (Got_topic s tok) = 4"
| "stage (Got_data s topic data) = 3"
| "stage (Got_word s topic data f tok) = (case tok of None \<Rightarrow> 1 | Some p \<Rightarrow> 2)"

definition line_left :: "nat \<Rightarrow> 'cb strtok_sys \<Rightarrow> nat \<times> nat \<times> nat" where
  "line_left t y = (length (lt_todo (ss_threads y t)), stage (lt_pc (ss_threads y t)), length (str_at (ss_mem y) (ss_pos y)))"

abbreviation less_left :: "((nat \<times> nat \<times> nat) \<times> (nat \<times> nat \<times> nat)) set" where
  "less_left \<equiv> less_than <*lex*> less_than <*lex*> less_than"

lemma finish_left: "stage (lt_pc (ss_threads y t)) \<noteq> 0 \<Longrightarrow> (line_left t (finish t r y), line_left t y) \<in> less_left"
  by (simp add: line_left_def finish_def)

lemma call_left:
  assumes "\<And>tok. stage (k tok) < stage (lt_pc (ss_threads y t))" and "ss_threads y1 = ss_threads y"
  shows "(line_left t (call_strtok t ds p k y1), line_left t y) \<in> less_left"
  using assms by (cases "strtok_from ds p (ss_mem y1)") (simp add: line_left_def call_strtok_def)

lemma word_left:
  assumes "lt_pc (ss_threads y t) = Got_word s topic data f (Some p)"
  shows "(line_left t (call_strtok t ds (ss_pos y) (Got_word s topic data f') y), line_left t y) \<in> less_left"
proof -
  obtain tok m pos where s: "strtok_from ds (ss_pos y) (ss_mem y) = (tok, m, pos)" by (cases "strtok_from ds (ss_pos y) (ss_mem y)")
  show ?thesis
  proof (cases tok)
    case None
    then show ?thesis by (simp add: line_left_def call_strtok_def s assms)
  next
    case (Some q)
    with strtok_text [OF s] have "length (str_at m pos) < length (str_at (ss_mem y) (ss_pos y))" by (auto dest: next_token_shorter)
    then show ?thesis by (simp add: line_left_def call_strtok_def s assms Some)
  qed
qed

lemma step_left:
  assumes "\<not> (lt_pc (ss_threads y t) = Outside \<and> lt_todo (ss_threads y t) = [])"
  shows "(line_left t (line_step slots t y), line_left t y) \<in> less_left"
proof (cases "lt_pc (ss_threads y t)")
  case Outside
  with assms obtain c ls where "lt_todo (ss_threads y t) = c # ls" by (cases "lt_todo (ss_threads y t)") auto
  then show ?thesis by (cases c) (simp add: line_left_def line_step_def Outside)
next
  case (Copied s)
  then show ?thesis by (simp add: line_step_def call_left)
next
  case (Got_cmd s tok)
  then show ?thesis by (cases tok) (simp_all add: line_step_def call_left finish_left)
next
  case (Got_topic s topic)
  then show ?thesis by (simp add: line_step_def call_left)
next
  case (Got_data s topic data)
  have f: "(line_left t (finish t r y), line_left t y) \<in> less_left" for r by (rule finish_left) (simp add: Got_data)
  have "stage (Got_word s tp dp fs tok) < stage (lt_pc (ss_threads y t))" for tp dp fs tok
    by (cases tok) (simp_all add: Got_data)
  then show ?thesis
    using f by (cases topic; cases data) (auto simp: line_step_def Got_data dispatch_def Let_def intro!: call_left split: option.split)
next
  case (Got_word s topic data f tok)
  then show ?thesis by (cases tok) (simp_all add: line_step_def finish_left word_left)
qed

lemma thread_ends: "\<exists>n. lt_pc (ss_threads (line_run slots (replicate n t) y) t) = Outside \<and>
    lt_todo (ss_threads (line_run slots (replicate n t) y) t) = []"
proof -
  have "wf less_left" by (intro wf_lex_prod wf_less_than)
  then show ?thesis
  proof (induction "line_left t y" arbitrary: y rule: wf_induct_rule)
    case less
    show ?case
    proof (cases "lt_pc (ss_threads y t) = Outside \<and> lt_todo (ss_threads y t) = []")
      case True
      then show ?thesis by (intro exI [of _ 0]) (simp add: line_run_simps)
    next
      case False
      from less [OF step_left [OF False]] obtain n where
        "lt_pc (ss_threads (line_run slots (replicate n t) (line_step slots t y)) t) = Outside \<and>
         lt_todo (ss_threads (line_run slots (replicate n t) (line_step slots t y)) t) = []" by blast
      then show ?thesis by (intro exI [of _ "Suc n"]) (simp add: line_run_simps)
    qed
  qed
qed

lemma alone_serial:
  "\<forall>u. u \<noteq> t \<longrightarrow> lt_pc (ss_threads y u) = Outside \<Longrightarrow>
     serial_run slots y (line_run slots (replicate n t) y) \<and>
     (\<forall>u. u \<noteq> t \<longrightarrow> ss_threads (line_run slots (replicate n t) y) u = ss_threads y u)"
proof (induction n)
  case 0
  show ?case by (simp add: line_run_simps serial_refl)
next
  case (Suc n)
  let ?y = "line_run slots (replicate n t) y"
  have e: "line_run slots (replicate (Suc n) t) y = line_step slots t ?y"
    by (simp only: replicate_append_same [symmetric] replicate_Suc line_run_simps)
  have o: "\<forall>u. u \<noteq> t \<longrightarrow> lt_pc (ss_threads ?y u) = Outside" using Suc by simp
  show ?case unfolding e using serial_step [OF conjunct1 [OF Suc.IH [OF Suc.prems]] o] Suc.IH [OF Suc.prems] by (simp add: step_other)
qed

lemma alone_handles:
  assumes "\<forall>u. lt_pc (ss_threads y u) = Outside"
  obtains n where "lt_pc (ss_threads (line_run slots (replicate n t) y) t) = Outside"
    and "lt_todo (ss_threads (line_run slots (replicate n t) y) t) = []"
    and "lt_calls (ss_threads (line_run slots (replicate n t) y) t) = lt_calls (ss_threads y t) @
      List.map_filter (\<lambda>(s, l). ctx_handle_line (slots t) s (line_of l)) (lt_todo (ss_threads y t))"
proof -
  obtain n where n: "lt_pc (ss_threads (line_run slots (replicate n t) y) t) = Outside"
      "lt_todo (ss_threads (line_run slots (replicate n t) y) t) = []"
    using thread_ends by blast
  have "serial_run slots y (line_run slots (replicate n t) y)" using alone_serial assms by blast
  from serial_promise [OF this assms, of t] n that show ?thesis by (auto simp: outside_alone)
qed

section \<open>The two subscribers of the daemon\<close>

text \<open>Thread 0 is the inverter's subscriber and thread 1 the UPS's; both have subscribed to the
  commands' topic, so that every message on it reaches both.\<close>

fun tag_handler :: "('a \<Rightarrow> 'b) \<Rightarrow> string \<times> string option \<times> string \<times> string \<times> 'a \<Rightarrow> string \<times> string option \<times> string \<times> string \<times> 'b" where
  "tag_handler g (topic, fs, ft, fk, h) = (topic, fs, ft, fk, g h)"

definition daemon_slots :: "nat \<Rightarrow> (inverter_handler + ups_handler) sub_slot list" where
  "daemon_slots u =
     (if u = 0 then map (slot_of \<circ> tag_handler Inl) inverter_subscriptions
      else map (slot_of \<circ> tag_handler Inr) ups_subscriptions)"

definition waiting :: "(nat \<Rightarrow> (int \<times> string) list) \<Rightarrow> 'cb strtok_sys" where
  "waiting todo = \<lparr>ss_mem = \<lambda>_. [], ss_pos = (Line_Buf 0, 0), ss_threads = \<lambda>u. \<lparr>lt_pc = Outside, lt_todo = todo u, lt_calls = []\<rparr>\<rparr>"

text \<open>
  C11. While no two threads are inside the function at once, the subscribers handle their lines as
  the sequential reading of the code says: in every run in which a thread moves only while the
  others are outside, a thread that is outside has called exactly the handlers that the lines it
  has taken call for, in order.
\<close>

theorem serial_threads_handle_lines:
  assumes "\<forall>t. lt_pc (ss_threads y0 t) = Outside" and "serial_run slots y0 y" and "lt_pc (ss_threads y t) = Outside"
  shows "\<exists>d. lt_todo (ss_threads y0 t) = d @ lt_todo (ss_threads y t) \<and>
    lt_calls (ss_threads y t) = lt_calls (ss_threads y0 t) @ List.map_filter (\<lambda>(s, l). ctx_handle_line (slots t) s (line_of l)) d"
  using serial_promise [OF assms(2,1), of t] by (simp add: outside_alone [OF assms(3)])

text \<open>The subscriptions as they stand in the slots of the two threads.\<close>

lemma daemon_slot:
  assumes "u = 0 \<and> k < length inverter_subscriptions \<or> u \<noteq> 0 \<and> k = 0"
  shows "k < length (daemon_slots u)" and "sl_topic (daemon_slots u ! k) = ''control_output''"
    and "\<exists>cb. sl_cb (daemon_slots u ! k) = Some cb" and "filter_key (daemon_slots u ! k) \<noteq> []"
proof -
  have i: "list_all (\<lambda>s. sl_topic s = ''control_output'' \<and> sl_cb s \<noteq> None \<and> filter_key s \<noteq> []) (daemon_slots 0)"
    by (simp add: daemon_slots_def inverter_subscriptions_def filter_of_def)
  have z: "sl_topic (daemon_slots u ! 0) = ''control_output'' \<and> sl_cb (daemon_slots u ! 0) \<noteq> None \<and> filter_key (daemon_slots u ! 0) \<noteq> []"
    if "u \<noteq> 0" using that by (simp add: daemon_slots_def ups_subscriptions_def filter_of_def)
  have l0: "length (daemon_slots 0) = length inverter_subscriptions" by (simp add: daemon_slots_def)
  show "k < length (daemon_slots u)" using assms by (auto simp: daemon_slots_def ups_subscriptions_def)
  have s: "sl_topic (daemon_slots u ! k) = ''control_output'' \<and> sl_cb (daemon_slots u ! k) \<noteq> None \<and> filter_key (daemon_slots u ! k) \<noteq> []"
    using assms i z by (auto simp: list_all_length l0)
  then show "sl_topic (daemon_slots u ! k) = ''control_output''" "\<exists>cb. sl_cb (daemon_slots u ! k) = Some cb"
    "filter_key (daemon_slots u ! k) \<noteq> []" by auto
qed

lemma daemon_command:
  assumes "j < length inverter_subscriptions" and "plain v" and "length v \<le> 700"
  obtains ft fk h where "inverter_subscriptions ! j = (''control_output'', None, ft, fk, h)"
    and "topic_ok ''control_output''" and "sendable (None, Some ft, Some fk, Some v)"
    and "command_line (inverter_subscriptions ! j) v = message_line ''control_output'' (None, Some ft, Some fk, Some v)"
    and "daemon_slots 0 ! j = slot_of (''control_output'', None, ft, fk, Inl h)" and "length ft \<le> 40" and "length fk \<le> 40"
proof -
  obtain topic fs ft fk h where s: "inverter_subscriptions ! j = (topic, fs, ft, fk, h)" by (cases "inverter_subscriptions ! j")
  have "topic_ok topic \<and> fs = None \<and> plain ft \<and> length ft \<le> 40 \<and> plain fk \<and> length fk \<le> 40"
    using subscriptions_wf(1) assms(1) s by (auto simp: sub_wf_def list_all_length)
  moreover have "topic = ''control_output''"
    using daemon_slot(2) [of 0 j] assms(1) s \<open>_ \<and> _\<close> by (simp add: daemon_slots_def topic_ok_def)
  ultimately show ?thesis
    using s assms command_sendable [of ft fk v] by (intro that) (auto simp: command_line_def daemon_slots_def simp del: sendable.simps)
qed

lemma key_parts_kept:
  assumes "lt_pc (ss_threads y t) = Got_word s tp dp f (Some p)" and "sound y t"
    and "\<And>b. b = Line_Buf t \<or> b = Tmp_Buf t \<Longrightarrow> m b = ss_mem y b"
  shows "keep_word m p f = keep_word (ss_mem y) p f"
    and "fields_at m (keep_word (ss_mem y) p f) = fields_at (ss_mem y) (keep_word (ss_mem y) p f)"
    and "str_at m tp = str_at (ss_mem y) tp"
    and "\<forall>q\<in>ptrs_of (keep_word (ss_mem y) p f) \<union> {tp, dp}. fst q = Line_Buf t \<or> fst q = Tmp_Buf t"
proof -
  have h: "holds t (ss_mem y) (ss_pos y) (Got_word s tp dp f (Some p))" using assms(1,2) by (simp add: sound_def)
  have k: "\<forall>q\<in>ptrs_of (keep_word (ss_mem y) p f). fst q = Tmp_Buf t \<and> behind (ss_mem y) q (ss_pos y)"
    by (rule keep_word_behind) (use h in simp_all)
  have e: "str_at m q = str_at (ss_mem y) q" if "fst q = Line_Buf t \<or> fst q = Tmp_Buf t" for q
    using str_at_same assms(3) that by blast
  show "keep_word m p f = keep_word (ss_mem y) p f" using e [of p] h by (simp add: keep_word_def)
  show "fields_at m (keep_word (ss_mem y) p f) = fields_at (ss_mem y) (keep_word (ss_mem y) p f)"
    by (intro fields_at_kept e) (use k in blast)
  show "str_at m tp = str_at (ss_mem y) tp" using e [of tp] h by simp
  show "\<forall>q\<in>ptrs_of (keep_word (ss_mem y) p f) \<union> {tp, dp}. fst q = Line_Buf t \<or> fst q = Tmp_Buf t" using h k by auto
qed

text \<open>Two threads with a line each: after six steps of the one and six of the other, the first gets
  the value of the second.\<close>

lemma value_taken_over:
  fixes y :: "'cb strtok_sys"
  assumes out: "\<forall>u. lt_pc (ss_threads y u) = Outside" and tu: "t \<noteq> u"
    and tt: "lt_todo (ss_threads y t) = [(int j, message_line topic (None, Some ft, Some fk, Some v))]"
    and tu': "lt_todo (ss_threads y u) = [(int k, message_line topic (None, Some ft1, Some fk1, Some w))]"
    and ok: "topic_ok topic" "sendable (None, Some ft, Some fk, Some v)" "sendable (None, Some ft1, Some fk1, Some w)"
    and j: "j < length (slots t)" "slots t ! j = slot_of (topic, None, ft, fk, h)" "length ft \<le> 40" "length fk \<le> 40" "fk \<noteq> []"
    and k: "k < length (slots u)" "sl_topic (slots u ! k) = topic" "sl_cb (slots u ! k) = Some cb" "filter_key (slots u ! k) \<noteq> []"
  shows "lt_calls (ss_threads (line_run slots (replicate 6 t @ replicate 6 u @ replicate 3 t) y) t) =
    lt_calls (ss_threads y t) @ [(h, topic, w)]"
proof -
  have tk: "length topic \<le> 63" using ok(1) by (simp add: topic_ok_def)
  have js: "sl_topic (slots t ! j) = topic" "sl_cb (slots t ! j) = Some h" "filter_key (slots t ! j) \<noteq> []"
    using tk j by (simp_all add: filter_of_def)
  obtain y1 tp dp f p where 1: "line_run slots (replicate 6 t) y = y1" "lt_pc (ss_threads y1 t) = Got_word (int j) tp dp f (Some p)"
    "sound y1 t" "fields_at (ss_mem y1) (keep_word (ss_mem y1) p f) = \<lparr>p_state = None, p_type = Some ft, p_key = Some fk, p_value = None\<rparr>"
    "str_at (ss_mem y1) tp = topic" "lt_calls (ss_threads y1 t) = lt_calls (ss_threads y t)"
    "\<And>z. z \<noteq> t \<Longrightarrow> ss_threads y1 z = ss_threads y z"
    by (rule reach_key [where slots = slots, OF out [rule_format] tt ok(1,2) j(1) js]) blast
  have u1: "lt_pc (ss_threads y1 u) = Outside" "lt_todo (ss_threads y1 u) = [(int k, message_line topic (None, Some ft1, Some fk1, Some w))]"
    using 1(7) [of u] tu tu' out by simp_all
  obtain y2 where 2: "line_run slots (replicate 6 u) y1 = y2" "str_at (ss_mem y2) (ss_pos y2) = ''value='' @ w" "fst (ss_pos y2) = Tmp_Buf u"
    "\<And>z. z \<noteq> u \<Longrightarrow> ss_threads y2 z = ss_threads y1 z"
    "\<And>z. z \<noteq> u \<Longrightarrow> ss_mem y2 (Line_Buf z) = ss_mem y1 (Line_Buf z) \<and> ss_mem y2 (Tmp_Buf z) = ss_mem y1 (Tmp_Buf z)"
    by (rule reach_key [where slots = slots, OF u1 ok(1,3) k]) blast
  have "ss_mem y2 b = ss_mem y1 b" if "b = Line_Buf t \<or> b = Tmp_Buf t" for b using 2(5) [OF tu] that by blast
  note kp = key_parts_kept [OF 1(2,3) this]
  have pc: "lt_pc (ss_threads y2 t) = Got_word (int j) tp dp f (Some p)" using 2(4) [OF tu] 1(2) by simp
  have pw: "plain w" using ok(3) by (simp add: message_words_def)
  have f: "fields_at (ss_mem y2) (keep_word (ss_mem y2) p f) = \<lparr>p_state = None, p_type = Some ft, p_key = Some fk, p_value = None\<rparr>"
    by (simp only: kp(1,2) 1(4))
  have h: "\<forall>q\<in>ptrs_of (keep_word (ss_mem y2) p f) \<union> {tp, dp}. fst q \<noteq> fst (ss_pos y2)"
    using kp(4) tu by (auto simp: kp(1) 2(3))
  have "filter_and_call (slots t ! j) topic d \<lparr>p_state = None, p_type = Some ft, p_key = Some fk, p_value = Some w\<rparr> = Some (h, topic, w)" for d
    using js j by (simp add: filter_and_call_def filtered_def filter_of_def)
  with finish_with [OF pc f h 2(2) pw, of slots] show ?thesis
    by (simp add: line_run_simps 1(1) 2(1) kp(3) 1(5) 2(4) [OF tu] 1(6))
qed

text \<open>
  C8. The position that the two subscriber threads share makes the value of a command depend on
  the schedule: for every command of the inverter with a value \<open>v\<close> and every second command with
  a value \<open>w\<close> that the UPS's subscriber is reading (it is subscribed to the same topic), there is a
  schedule of the two threads in which the inverter's handler is called once with \<open>v\<close>, and one in
  which it is called once with \<open>w\<close>, the value of the other message.
\<close>

theorem command_value_depends_on_schedule:
  assumes "j < length inverter_subscriptions" and "i < length inverter_subscriptions" 
    and "plain v" and "length v \<le> 700" and "plain w" and "length w \<le> 700"
    and "y0 = waiting (\<lambda>u. if u = 0 then [(int j, command_line (inverter_subscriptions ! j) v)]
                            else [(0, command_line (inverter_subscriptions ! i) w)])"
  shows "case inverter_subscriptions ! j of (topic, _, _, _, h) \<Rightarrow>
      (\<exists>ts. set ts \<subseteq> {0, 1} \<and> lt_calls (ss_threads (line_run daemon_slots ts y0) 0) = [(Inl h, topic, v)]) \<and>
      (\<exists>ts. set ts \<subseteq> {0, 1} \<and> lt_calls (ss_threads (line_run daemon_slots ts y0) 0) = [(Inl h, topic, w)])"
proof -
  obtain ft fk h where J: "inverter_subscriptions ! j = (''control_output'', None, ft, fk, h)" "topic_ok ''control_output''"
    "sendable (None, Some ft, Some fk, Some v)"
    "command_line (inverter_subscriptions ! j) v = message_line ''control_output'' (None, Some ft, Some fk, Some v)"
    "daemon_slots 0 ! j = slot_of (''control_output'', None, ft, fk, Inl h)" "length ft \<le> 40" "length fk \<le> 40"
    by (rule daemon_command [OF assms(1,3,4)])
  obtain ft1 fk1 h1 where I: "sendable (None, Some ft1, Some fk1, Some w)"
    "command_line (inverter_subscriptions ! i) w = message_line ''control_output'' (None, Some ft1, Some fk1, Some w)"
    by (rule daemon_command [OF assms(2,5,6)])
  have out: "\<forall>u. lt_pc (ss_threads y0 u) = Outside" by (simp add: assms(7) waiting_def)
  let ?topic = "''control_output''"
  have td: "lt_todo (ss_threads y0 0) = [(int j, message_line ?topic (None, Some ft, Some fk, Some v))]"
    "lt_todo (ss_threads y0 1) = [(int 0, message_line ?topic (None, Some ft1, Some fk1, Some w))]"
    "lt_calls (ss_threads y0 0) = []" by (simp_all add: assms(7) waiting_def J(4) I(2))
  have jl: "j < length (daemon_slots 0)" "filter_key (daemon_slots 0 ! j) \<noteq> []" using daemon_slot [of 0 j] assms(1) by simp_all
  then have fk: "fk \<noteq> []" by (simp add: J(5) filter_of_def)
  have "ctx_handle_line (daemon_slots 0) (int j) (line_of (message_line ?topic (None, Some ft, Some fk, Some v))) = Some (Inl h, ?topic, v)"
    unfolding line_of_whole [OF message_line_whole [OF J(2,3)]]
    using handle_published [OF J(2,3) jl(1)] J(6,7) fk by (simp add: message_line_def J(5) filter_of_def)
  with alone_handles [OF out, of daemon_slots 0] td obtain n where
    "lt_calls (ss_threads (line_run daemon_slots (replicate n 0) y0) 0) = [(Inl h, ?topic, v)]" by (auto simp: map_filter_simps)
  then have "\<exists>ts. set ts \<subseteq> {0, 1} \<and> lt_calls (ss_threads (line_run daemon_slots ts y0) 0) = [(Inl h, ?topic, v)]"
    by (intro exI [of _ "replicate n 0"]) auto
  moreover obtain cb where "sl_cb (daemon_slots 1 ! 0) = Some cb" using daemon_slot(3) [of 1 0] by auto
  with value_taken_over [where slots = daemon_slots, OF out zero_neq_one td(1,2) J(2,3) I(1) jl(1) J(5-7) fk, of cb] daemon_slot [of 1 0] td(3)
  have "lt_calls (ss_threads (line_run daemon_slots (replicate 6 0 @ replicate 6 1 @ replicate 3 0) y0) 0) = [(Inl h, ?topic, w)]" by simp
  then have "\<exists>ts. set ts \<subseteq> {0, 1} \<and> lt_calls (ss_threads (line_run daemon_slots ts y0) 0) = [(Inl h, ?topic, w)]"
    by (intro exI [of _ "replicate 6 0 @ replicate 6 1 @ replicate 3 0"]) auto
  ultimately show ?thesis by (simp add: J(1))
qed

section \<open>Witnesses\<close>

definition stop_and_bypass :: "(inverter_handler + ups_handler) strtok_sys" where
  "stop_and_bypass = waiting (\<lambda>u. if u = 0 then [(int 3, command_line (inverter_subscriptions ! 3) ''0'')]
                                  else [(0, command_line (inverter_subscriptions ! 5) ''100'')])"

lemma stop_handled:
  "ctx_handle_line (daemon_slots 0) 3 (line_of (command_line (inverter_subscriptions ! 3) ''0'')) =
     Some (Inl On_main_pump_duty, ''control_output'', ''0'')"
  by code_simp

theorem serial_threads_handle_lines_witness:
  "\<exists>y. serial_run daemon_slots stop_and_bypass y \<and> lt_pc (ss_threads y 0) = Outside \<and> lt_todo (ss_threads y 0) = [] \<and>
     lt_calls (ss_threads y 0) = [(Inl On_main_pump_duty, ''control_output'', ''0'')]"
proof -
  have out: "\<forall>u. lt_pc (ss_threads stop_and_bypass u) = Outside" by (simp add: stop_and_bypass_def waiting_def)
  obtain n where n: "lt_pc (ss_threads (line_run daemon_slots (replicate n 0) stop_and_bypass) 0) = Outside"
    "lt_todo (ss_threads (line_run daemon_slots (replicate n 0) stop_and_bypass) 0) = []" using thread_ends by blast
  have r: "serial_run daemon_slots stop_and_bypass (line_run daemon_slots (replicate n 0) stop_and_bypass)"
    using alone_serial out by blast
  obtain d where d: "lt_todo (ss_threads stop_and_bypass 0) = d"
    "lt_calls (ss_threads (line_run daemon_slots (replicate n 0) stop_and_bypass) 0) = lt_calls (ss_threads stop_and_bypass 0) @
       List.map_filter (\<lambda>(s, l). ctx_handle_line (daemon_slots 0) s (line_of l)) d"
    using serial_threads_handle_lines [OF out r n(1)] n(2) by auto
  have "d = [(3, command_line (inverter_subscriptions ! 3) ''0'')]" using d(1) by (simp add: stop_and_bypass_def waiting_def)
  then have "List.map_filter (\<lambda>(s, l). ctx_handle_line (daemon_slots 0) s (line_of l)) d =
      [(Inl On_main_pump_duty, ''control_output'', ''0'')]"
    by (simp only: map_filter_simps prod.case stop_handled option.case)
  then show ?thesis using n d(2) r by (intro exI) (simp add: stop_and_bypass_def waiting_def)
qed

theorem command_value_depends_on_schedule_witness:
  "(\<exists>ts. lt_calls (ss_threads (line_run daemon_slots ts stop_and_bypass) 0) = [(Inl On_main_pump_duty, ''control_output'', ''0'')]) \<and>
   (\<exists>ts. lt_calls (ss_threads (line_run daemon_slots ts stop_and_bypass) 0) = [(Inl On_main_pump_duty, ''control_output'', ''100'')])"
proof -
  have l: "3 < length inverter_subscriptions" "5 < length inverter_subscriptions"
    and p: "plain ''0''" "length ''0'' \<le> 700" "plain ''100''" "length ''100'' \<le> 700"
    and s: "inverter_subscriptions ! 3 = (''control_output'', None, ''ctrl'', ''main_pump'', On_main_pump_duty)"
    by (simp_all add: inverter_subscriptions_def)
  from command_value_depends_on_schedule [OF l p stop_and_bypass_def] show ?thesis unfolding s prod.case by blast
qed

end
