(* ===== verification/End_To_End.thy ===== *)
theory End_To_End
  imports Cmos_Bridges Unit_Witness Bridge_Facts
begin

text \<open>
  The components together. Upwards, a register of the device goes through a scan, the pool, the
  publisher process and the socket of a subscriber to the subscriber's callback. Downwards, a
  command goes through the socket of the bridge's subscriber, its handler, the write queue and
  the drain to the bus.
\<close>

section \<open>From the device to a subscriber\<close>

lemma idle_drain:
  assumes "quiet pf" and "queue_inv (u_queue u)" and "queue_items (u_queue u) = []"
  shows "drain_queue pf ma u w = Some (u, w)"
  using unit_pop_quiet [OF assms(1,2), of ma w] assms(3) by (simp add: drain_queue_def)

text \<open>The slot of a row after a scan.\<close>

lemma served_slot:
  assumes "m \<in> set (rows inverter1_profile)"
    and "\<forall>a. pl a = (case List.find (\<lambda>m. pool_address m = a) (rows inverter1_profile) of
       None \<Rightarrow> pl0 a | Some m \<Rightarrow> dev (device_address m))"
  shows "pl (pool_address m) = dev (device_address m)"
proof (cases "List.find (\<lambda>m'. pool_address m' = pool_address m) (rows inverter1_profile)")
  case None
  with assms(1) show ?thesis by (auto simp: find_None_ball)
next
  case (Some m')
  then have "m' \<in> set (rows inverter1_profile)" "pool_address m' = pool_address m" by (auto dest: find_SomeD)
  with profile_wf_inj [OF inverter1_wf this(1) assms(1)] assms(2) Some show ?thesis by simp
qed

lemma idle_process:
  assumes "quiet pf" and "queue_inv (u_queue u)" and "queue_items (u_queue u) = []" and "\<not> init_requested u"
    and "serves pf dev P" and "P u w" and "u_profile u = inverter1_profile"
  obtains u' w' where "inverter_process_callback pf u w = Some (0, u', w')"
    and "\<And>m. m \<in> set (rows inverter1_profile) \<Longrightarrow> uw_pool w' (pool_address m) = dev (device_address m)"
proof -
  have u: "u\<lparr>init_requested := False\<rparr> = u" using assms(4) by simp
  obtain rc u1 w1 where r: "read_profile_to_pool pf True u w = (rc, u1, w1)" by (metis prod.exhaust)
  have c: "0 < table_count (u_profile u)" "read_chunk (u_profile u) \<le> MODBUS_MAX_READ_REGISTERS" "profile_wf (u_profile u)"
    using inverter1_chunk inverter1_wf by (simp_all add: assms(7))
  note s = scan_served [OF assms(5,6) c(3,1,2) r, unfolded assms(7)]
  have p: "inverter_process_callback pf u w = Some (0, u1, unit_usleep pf (MODBUS_DEFAULT_POLL_CYCLE_INTERVAL_MS * 1000) w1)"
    using s c(1) by (simp add: inverter_process_callback_def assms(4) u drain_and_scan_def idle_drain [OF assms(1-3)] r del: One_nat_def)
  show ?thesis
    by (rule that [OF p]) (use served_slot [OF _ conjunct2 [OF conjunct2 [OF s]]] in \<open>simp only: uw_pool_usleep\<close>)
qed

text \<open>
  C6. What the inverter holds reaches the subscribers: when a unit without waiting commands has
  polled its device once, and the publisher has then sent a round to its sockets, a subscriber
  with a filter on a register's description that has read its socket, in whatever pieces the
  bytes come, has called its callback with a text that reads back as the device's register.
\<close>

theorem device_register_reaches_subscriber:
  assumes "quiet pf" and "queue_inv (u_queue u)" and "queue_items (u_queue u) = []" and "\<not> init_requested u"
    and "serves pf dev P" and "P u w" and "u_profile u = inverter1_profile"
    and "inverter_process_callback pf u w = Some (rc, u', w')"
    and "cfg \<in> set cfgs" and "enabled cfg" and "m \<in> set (rows inverter1_profile)"
    and "takes_all net sent" and "pub_topic p = inverter_BRIDGE_PUB_TOPIC" and "distinct (sub_socks p)"
    and "cmos_publish_batch net (inverter_publish_round (uw_pool w') cfgs) p e = Some (p1, e1)"
    and "fd1 \<in> set (sub_socks p)" and "sent e fd1 = []"
    and "byte_source net2 fd2 pending" and "pending e2 = sent e1 fd1"
    and "length (pub_conns ctx) = 256" and "i < 256" and "k < length (sub_slots ctx)" and "0 \<le> fd2"
    and "pub_conns ctx ! i = \<lparr>conn_sock = fd2, conn_node = node, conn_rx = [], conn_active = True, conn_slot = int k\<rparr>"
    and "sub_slots ctx ! k = slot_of (inverter_BRIDGE_PUB_TOPIC, None, [], description m, h)" and "length (description m) \<le> 63"
    and "length (pending e2) \<le> n"
  shows "\<exists>s. (h, inverter_BRIDGE_PUB_TOPIC, s) \<in> set (fst (receive_events net2 (replicate n i) ctx e2)) \<and>
    strtoul s = unat (dev (device_address m))"
proof -
  obtain u1 w1 where p: "inverter_process_callback pf u w = Some (0, u1, w1)"
    "\<And>m. m \<in> set (rows inverter1_profile) \<Longrightarrow> uw_pool w1 (pool_address m) = dev (device_address m)"
    using idle_process [OF assms(1-7)] by blast
  with assms(8) have "uw_pool w' (pool_address m) = dev (device_address m)" using assms(11) by simp
  with registers_reach_subscribers [OF assms(9-27)] show ?thesis by simp
qed

section \<open>From a command to the device\<close>

text \<open>The handlers of a sequence of calls, one after the other, as the spin loop makes them.\<close>

fun handle_calls :: "pool \<Rightarrow> (inverter_handler \<times> string \<times> string) list \<Rightarrow> gw_unit list \<Rightarrow> gw_unit list option" where
  "handle_calls pl [] us = Some us"
| "handle_calls pl ((h, topic, value) # cs) us =
     (case inverter_handle pl h value us of None \<Rightarrow> None | Some us1 \<Rightarrow> handle_calls pl cs us1)"

definition pump_message :: "string \<Rightarrow> pub_msg" where
  "pump_message s = (None, Some ''ctrl'', Some ''main_pump'', Some s)"

text \<open>A push of a write for a mergeable register is accepted when one waits already or there is
  room.\<close>

definition fits :: "u16 \<Rightarrow> cmd_queue \<Rightarrow> bool" where
  "fits a q \<longleftrightarrow> filter (same_register a) (queue_items q) \<noteq> [] \<or> length (queue_items q) < CMD_QUEUE_CAPACITY"

lemma fits_accepted:
  assumes "bridge_queue_ok q" and "inverter_queue_merge_allowed a" and "fits a q"
  shows "fst (inverter_push q (auto_write a v))"
    and "filter (same_register a) (queue_items (snd (inverter_push q (auto_write a v)))) = [auto_write a v]"
proof -
  have r: "queue_inv q \<and> merge_unique inverter_queue_merge_allowed (queue_items q) \<and> list_all cmd_sized (queue_items q)"
    using assms(1) queue_reach_inv by (auto simp: bridge_queue_ok_def)
  have ok: "fst (inverter_push q (auto_write a v))"
    using r assms(2,3) unfolding cmds.push_ok_iff [OF conjunct1 [OF r]]
    by (auto simp: merge_into_def cmd_accepted_def fits_def list_merge_None simp flip: not_None_eq)
  then show "fst (inverter_push q (auto_write a v))" .
  have "length (filter (same_register a) (queue_items q)) \<le> 1" using r assms(2) unfolding merge_unique_def by blast
  then show "filter (same_register a) (queue_items (snd (inverter_push q (auto_write a v)))) = [auto_write a v]"
    using accepted_push_last [of q a inverter_queue_merge_allowed "auto_write a v" v] r ok assms(2) by simp
qed

text \<open>One pump command, and any sequence of them.\<close>

definition pump_room :: "cmd_queue \<Rightarrow> bool" where
  "pump_room q \<longleftrightarrow> bridge_queue_ok q \<and>
     (length (queue_items q) \<le> 14 \<or>
      filter (same_register dev_frequency_cmd_reg) (queue_items q) \<noteq> [] \<and> filter (same_register dev_operation_cmd_reg) (queue_items q) \<noteq> [])"

definition pump_waits :: "u16 \<Rightarrow> u16 \<Rightarrow> cmd_queue \<Rightarrow> bool" where
  "pump_waits f x q \<longleftrightarrow>
     filter (same_register dev_frequency_cmd_reg) (queue_items q) = [auto_write dev_frequency_cmd_reg f] \<and>
     filter (same_register dev_operation_cmd_reg) (queue_items q) = [auto_write dev_operation_cmd_reg x]"

definition others_kept :: "cmd_queue \<Rightarrow> cmd_queue \<Rightarrow> bool" where
  "others_kept q q' \<longleftrightarrow> (\<forall>a. a \<noteq> dev_frequency_cmd_reg \<longrightarrow> a \<noteq> dev_operation_cmd_reg \<longrightarrow>
     filter (same_register a) (queue_items q') = filter (same_register a) (queue_items q))"

lemma pump_command_queued:
  assumes "pump_room (u_queue u)" and "parse_duty s = Some d"
  obtains q where "on_main_pump_duty_cmd pl (u # us) s = Some (u\<lparr>u_queue := q\<rparr> # us)" and "pump_room q"
    and "pump_waits (pump_frequency pl d) (pump_operation d) q" and "others_kept (u_queue u) q"
proof -
  let ?f = "auto_write dev_frequency_cmd_reg (pump_frequency pl d)" and ?x = "auto_write dev_operation_cmd_reg (pump_operation d)"
  let ?q = "u_queue u"
  let ?q1 = "snd (inverter_push ?q ?f)"
  let ?q2 = "snd (inverter_push ?q1 ?x)"
  have b: "bridge_queue_ok ?q" using assms(1) by (simp add: pump_room_def)
  then have i: "queue_inv ?q" using queue_reach_inv by (auto simp: bridge_queue_ok_def)
  have i1: "queue_inv ?q1" using push_cmd_inv [OF i] .
  have b1: "bridge_queue_ok ?q1" using bridge_queue_push [OF b] by simp
  have "fits dev_frequency_cmd_reg ?q" using assms(1) by (auto simp: pump_room_def fits_def)
  note f = fits_accepted [OF b _ this, of "pump_frequency pl d"]
  have "fits dev_operation_cmd_reg ?q1"
    using assms(1) push_other [OF i, of dev_operation_cmd_reg ?f] push_with_room(2) [OF i, of dev_frequency_cmd_reg "pump_frequency pl d"]
    by (auto simp: pump_room_def fits_def)
  note x = fits_accepted [OF b1 _ this, of "pump_operation d"]
  have wf: "filter (same_register dev_frequency_cmd_reg) (queue_items ?q2) = [?f]"
    using push_other [OF i1, of dev_frequency_cmd_reg] f(2) by simp
  have 1: "on_write (u # us) (uid_of u) dev_frequency_cmd_reg (pump_frequency pl d) = (0, u\<lparr>u_queue := ?q1\<rparr> # us)"
    using on_write_accepted [OF pump_registers_writable(1)] f(1) by simp
  have 2: "on_write (u\<lparr>u_queue := ?q1\<rparr> # us) (uid_of u) dev_operation_cmd_reg (pump_operation d) = (0, u\<lparr>u_queue := ?q2\<rparr> # us)"
    using on_write_accepted [OF pump_registers_writable(2), of "u\<lparr>u_queue := ?q1\<rparr>" "pump_operation d" "uid_of u" us] x(1) by simp
  have "on_main_pump_duty_cmd pl (u # us) s = Some (on_write_pair (u # us) (uid_of u)
      (dev_frequency_cmd_reg, pump_frequency pl d) (dev_operation_cmd_reg, pump_operation d))"
    by (simp add: on_main_pump_duty_cmd_def assms(2) resolve_first Let_def pump_frequency_def pump_operation_def)
  then have "on_main_pump_duty_cmd pl (u # us) s = Some (u\<lparr>u_queue := ?q2\<rparr> # us)"
    using 1 2 by (simp add: on_write_pair_def)
  moreover have "pump_waits (pump_frequency pl d) (pump_operation d) ?q2" using wf x(2) by (simp add: pump_waits_def)
  moreover have "bridge_queue_ok ?q2" using bridge_queue_push [OF b1] by simp
  moreover have "others_kept ?q ?q2" unfolding others_kept_def using push_other [OF i1] push_other [OF i] by simp
  ultimately show ?thesis by (intro that) (simp_all add: pump_room_def pump_waits_def)
qed

lemma pump_commands_queued:
  assumes "pump_room (u_queue u)" and "\<forall>s\<in>set ss. parse_duty s \<noteq> None" and "ss \<noteq> []" and "parse_duty (last ss) = Some d"
  obtains q where "handle_calls pl (map (\<lambda>s. (On_main_pump_duty, topic, s)) ss) (u # us) = Some (u\<lparr>u_queue := q\<rparr> # us)"
    and "bridge_queue_ok q" and "pump_waits (pump_frequency pl d) (pump_operation d) q" and "others_kept (u_queue u) q"
proof -
  have "\<exists>q. handle_calls pl (map (\<lambda>s. (On_main_pump_duty, topic, s)) ss) (u # us) = Some (u\<lparr>u_queue := q\<rparr> # us) \<and>
      bridge_queue_ok q \<and> pump_waits (pump_frequency pl d) (pump_operation d) q \<and> others_kept (u_queue u) q"
    using assms
  proof (induction ss arbitrary: u)
    case (Cons s ss)
    obtain c where c: "parse_duty s = Some c" using Cons.prems(2) by auto
    obtain q where q: "on_main_pump_duty_cmd pl (u # us) s = Some (u\<lparr>u_queue := q\<rparr> # us)" "pump_room q"
      "pump_waits (pump_frequency pl c) (pump_operation c) q" "others_kept (u_queue u) q"
      by (rule pump_command_queued [OF Cons.prems(1) c])
    have h: "inverter_handle pl On_main_pump_duty s (u # us) = Some (u\<lparr>u_queue := q\<rparr> # us)" by (simp add: inverter_handle_def q(1))
    show ?case
    proof (cases "ss = []")
      case True
      with c Cons.prems(4) q h show ?thesis by (auto simp: pump_room_def)
    next
      case False
      with Cons.IH [of "u\<lparr>u_queue := q\<rparr>"] Cons.prems q(2,4) show ?thesis by (fastforce simp: h others_kept_def)
    qed
  qed simp
  with that show ?thesis by blast
qed

text \<open>The calls of a process callback that write a register.\<close>

fun writes_register :: "u16 \<Rightarrow> io_call \<Rightarrow> bool" where
  "writes_register a (Call_write b v) \<longleftrightarrow> b = a"
| "writes_register a (Call_write_many b vs) \<longleftrightarrow> b \<le> a \<and> unat (a - b) < length vs"
| "writes_register a _ \<longleftrightarrow> False"

lemma permitted_call: "permitted c \<Longrightarrow> command_call c = Some (Call_write (cmd_addr c) (cmd_values c ! 0))"
  by (simp add: permitted_def command_call_def write_call_def)

lemma command_calls_filter:
  "list_all permitted l \<Longrightarrow>
     filter (writes_register a) (List.map_filter command_call l) = List.map_filter command_call (filter (same_register a) l)"
  by (induction l) (auto simp: map_filter_simps permitted_call, auto simp: permitted_def same_register_def)

lemma scan_writes_nothing:
  assumes "read_profile_to_pool pf track u w = (rc, u', w')"
  shows "\<exists>tr. uw_trace w' = uw_trace w @ tr \<and> (\<forall>a. filter (writes_register a) (io_calls tr) = []) \<and> u_queue u' = u_queue u"
proof (cases "table_count (u_profile u) = 0")
  case True
  with assms show ?thesis by (auto simp: read_profile_to_pool_segments)
next
  case False
  obtain r u1 w1 where run: "run_segments pf track (profile_segments (u_profile u)) (replicate 125 0) u
      (unit_acquire pf (unit_path u) w) = (r, u1, w1)" by (metis prod.exhaust)
  from run_segments_calls [OF run] obtain tr k where t: "uw_trace w1 = uw_trace (unit_acquire pf (unit_path u) w) @ tr"
    "io_calls tr = map (segment_call (u_profile u)) (take k (profile_segments (u_profile u)))" "u_queue u1 = u_queue u"
    by (auto dest: same_linkD)
  let ?t = "Ev_acquire (unit_path u) # tr @ [Ev_release (unit_path u)]"
  have "filter (writes_register a) (io_calls ?t) = []" for a
    by (simp add: t(2) filter_empty_conv segment_call_def split: prod.split)
  moreover have "uw_trace w' = uw_trace w @ ?t" "u_queue u' = u_queue u1"
    using assms False run t(1) by (auto simp: read_profile_to_pool_segments)
  ultimately show ?thesis using t(3) by (intro exI [of _ ?t]) simp
qed

lemma process_writes_queue:
  assumes "quiet pf" and "bridge_queue_ok (u_queue u)" and "\<not> init_requested u"
  obtains rc u' w' tr where "inverter_process_callback pf u w = Some (rc, u', w')" and "uw_trace w' = uw_trace w @ tr"
    and "queue_items (u_queue u') = []"
    and "\<And>a. filter (writes_register a) (io_calls tr) = List.map_filter command_call (filter (same_register a) (queue_items (u_queue u)))"
proof -
  have u: "u\<lparr>init_requested := False\<rparr> = u" using assms(3) by simp
  have q: "queue_inv (u_queue u)" "list_all permitted (queue_items (u_queue u))"
    using assms(2) queue_reach_inv by (auto simp: bridge_queue_ok_def)
  from drain_queue_quiet [OF assms(1) q(1), of inverter_queue_merge_allowed w] obtain u1 w1 t1 where
    d: "drain_queue pf inverter_queue_merge_allowed u w = Some (u1, w1)" "queue_items (u_queue u1) = []"
       "uw_trace w1 = uw_trace w @ t1" "io_calls t1 = List.map_filter command_call (queue_items (u_queue u))" by blast
  obtain rc u2 w2 where r: "read_profile_to_pool pf True u1 w1 = (rc, u2, w2)" by (metis prod.exhaust)
  from scan_writes_nothing [OF r] obtain t2 where t: "uw_trace w2 = uw_trace w1 @ t2"
    "\<And>a. filter (writes_register a) (io_calls t2) = []" "u_queue u2 = u_queue u1" by blast
  have f: "filter (writes_register a) (io_calls (t1 @ t2 @ t3)) = List.map_filter command_call (filter (same_register a) (queue_items (u_queue u)))"
    if "io_calls t3 = []" for a t3
    using that by (simp add: d(4) t(2) command_calls_filter [OF q(2)])
  have p: "inverter_process_callback pf u w = drain_and_scan pf inverter_queue_merge_allowed u w"
    by (simp add: inverter_process_callback_def assms(3) u)
  consider "table_count (u_profile u1) = 0" | "table_count (u_profile u1) \<noteq> 0" "rc \<noteq> 0" | "table_count (u_profile u1) \<noteq> 0" "rc = 0" by blast
  then show ?thesis
  proof cases
    case 1
    then have "inverter_process_callback pf u w = Some (0, u1, w1)" by (simp add: p drain_and_scan_def d(1))
    from that [OF this d(3,2)] f [of "[]"] t(2) show ?thesis by simp
  next
    case 2
    then have "inverter_process_callback pf u w = Some (-1, u2, w2)" by (simp add: p drain_and_scan_def d(1) r)
    from that [OF this, of "t1 @ t2"] f [of "[]"] d(2,3) t(1,3) show ?thesis by simp
  next
    case 3
    let ?s = "Ev_sleep (MODBUS_DEFAULT_POLL_CYCLE_INTERVAL_MS * 1000)"
    from 3 have "inverter_process_callback pf u w = Some (0, u2, unit_usleep pf (MODBUS_DEFAULT_POLL_CYCLE_INTERVAL_MS * 1000) w2)"
      by (simp add: p drain_and_scan_def d(1) r)
    from that [OF this, of "t1 @ t2 @ [?s]"] f [of "[?s]"] d(2,3) t(1,3) show ?thesis by simp
  qed
qed

lemma pump_messages_delivered:
  assumes "\<forall>s\<in>set ss. plain s \<and> length s \<le> 700"
  shows "list_all sendable (map pump_message ss)"
    and "List.map_filter (delivered (map slot_of inverter_subscriptions ! 3) ''control_output'') (map pump_message ss) =
      map (\<lambda>s. (On_main_pump_duty, ''control_output'', s)) ss"
proof -
  show "list_all sendable (map pump_message ss)"
    using assms command_sendable [of "''ctrl''" "''main_pump''"] by (simp add: list_all_iff pump_message_def del: sendable.simps)
  have "delivered (map slot_of inverter_subscriptions ! 3) ''control_output'' (pump_message s) = Some (On_main_pump_duty, ''control_output'', s)" for s
    by (simp add: pump_message_def inverter_subscriptions_def filter_of_def)
  then show "List.map_filter (delivered (map slot_of inverter_subscriptions ! 3) ''control_output'') (map pump_message ss) =
      map (\<lambda>s. (On_main_pump_duty, ''control_output'', s)) ss"
    by (induction ss) (simp_all add: map_filter_simps del: delivered.simps)
qed

text \<open>
  C3. What an operator commands reaches the inverter, and only the newest: when a controller
  publishes one or more pump duties, the bridge's subscriber has read its socket, in whatever
  pieces, and its handlers have run, then the unit's next process callback writes the frequency
  register exactly once and the operation register exactly once, with the values of the last
  duty, whatever was waiting before, and leaves no command waiting.
\<close>

theorem pump_commands_reach_device:
  assumes "takes_all net sent" and "pub_topic p = ''control_output''" and "distinct (sub_socks p)"
    and "\<forall>s\<in>set ss. plain s \<and> length s \<le> 700 \<and> parse_duty s \<noteq> None" and "ss \<noteq> []" and "parse_duty (last ss) = Some d"
    and "cmos_publish_batch net (map pump_message ss) p e = Some (p1, e1)" and "fd1 \<in> set (sub_socks p)" and "sent e fd1 = []"
    and "byte_source net2 fd2 pending" and "pending e2 = sent e1 fd1"
    and "length (pub_conns ctx) = 256" and "i < 256" and "0 \<le> fd2" and "sub_slots ctx = map slot_of inverter_subscriptions"
    and "pub_conns ctx ! i = \<lparr>conn_sock = fd2, conn_node = node, conn_rx = [], conn_active = True, conn_slot = 3\<rparr>"
    and "length (pending e2) \<le> n"
    and "bridge_reach (u # us)" and "length (queue_items (u_queue u)) \<le> 14" and "quiet pf" and "\<not> init_requested u"
  shows "\<exists>u1 rc u2 w2 tr. handle_calls pl (fst (receive_events net2 (replicate n i) ctx e2)) (u # us) = Some (u1 # us) \<and>
    inverter_process_callback pf u1 w = Some (rc, u2, w2) \<and> uw_trace w2 = uw_trace w @ tr \<and>
    filter (writes_register dev_frequency_cmd_reg) (io_calls tr) = [Call_write dev_frequency_cmd_reg (pump_frequency pl d)] \<and>
    filter (writes_register dev_operation_cmd_reg) (io_calls tr) = [Call_write dev_operation_cmd_reg (pump_operation d)] \<and>
    queue_items (u_queue u2) = []"
proof -
  have t: "topic_ok (pub_topic p)" by (simp add: assms(2) topic_ok_def)
  have ss: "\<forall>s\<in>set ss. plain s \<and> length s \<le> 700" "\<forall>s\<in>set ss. parse_duty s \<noteq> None" using assms(4) by blast+
  note m = pump_messages_delivered [OF ss(1)]
  have s3: "3 < length (sub_slots ctx)" by (simp add: assms(15) inverter_subscriptions_def)
  have c3: "pub_conns ctx ! i = \<lparr>conn_sock = fd2, conn_node = node, conn_rx = [], conn_active = True, conn_slot = int 3\<rparr>"
    by (simp add: assms(16))
  have calls: "fst (receive_events net2 (replicate n i) ctx e2) = map (\<lambda>s. (On_main_pump_duty, ''control_output'', s)) ss"
    using stream_delivered [OF assms(1) t assms(3) m(1) assms(7-13) s3 assms(14) c3 assms(17)] m(2) by (simp only: assms(2,15))
  have r: "pump_room (u_queue u)" using bridge_reach_ok [OF assms(18)] assms(19) by (simp add: pump_room_def bridge_unit_ok_def)
  obtain q where q: "handle_calls pl (map (\<lambda>s. (On_main_pump_duty, ''control_output'', s)) ss) (u # us) = Some (u\<lparr>u_queue := q\<rparr> # us)"
    "bridge_queue_ok q" "pump_waits (pump_frequency pl d) (pump_operation d) q"
    by (rule pump_commands_queued [OF r ss(2) assms(5,6)])
  obtain rc u2 w2 tr where w: "inverter_process_callback pf (u\<lparr>u_queue := q\<rparr>) w = Some (rc, u2, w2)" "uw_trace w2 = uw_trace w @ tr"
    "queue_items (u_queue u2) = []"
    "\<And>a. filter (writes_register a) (io_calls tr) = List.map_filter command_call (filter (same_register a) (queue_items q))"
    by (rule process_writes_queue [OF assms(20), of "u\<lparr>u_queue := q\<rparr>" w]) (use q(2) assms(21) in auto)
  have "command_call (auto_write a v) = Some (Call_write a v)" for a v by (simp add: command_call_def write_call_def)
  then show ?thesis using q(1,3) w by (simp add: calls pump_waits_def map_filter_simps)
qed

section \<open>Witnesses\<close>

lemma demo_topic: "topic_ok (pub_topic demo_publisher)" "pub_topic demo_publisher = inverter_BRIDGE_PUB_TOPIC"
  and demo_socks: "distinct (sub_socks demo_publisher)" "8 \<in> set (sub_socks demo_publisher)"
  by (simp_all add: topic_ok_def demo_publisher_def inverter_BRIDGE_PUB_TOPIC_def)

lemma demo_quiet: "quiet (demo_pf r dev [] st)"
  by (simp add: quiet_def)

lemma demo_idle: "connected_idle (tcp_unit p 3) demo_world"
  by (simp add: connected_idle_def demo_world_def)

theorem device_register_reaches_subscriber_witness:
  "\<exists>u' w' e1 n s. inverter_process_callback (demo_pf id (\<lambda>a. a + 1) [] False) (tcp_unit inverter1_profile 3) demo_world = Some (0, u', w') \<and>
     cmos_publish_batch log_net (inverter_publish_round (uw_pool w') [rtu_module]) demo_publisher (\<lambda>_. []) = Some (demo_publisher, e1) \<and>
     (42, inverter_BRIDGE_PUB_TOPIC, s) \<in> set (fst (receive_events piece_net (replicate n 0) register_subscriber (e1 8))) \<and>
     strtoul s = unat (device_address (rows inverter1_profile ! 0) + 1)"
proof -
  let ?pf = "demo_pf id (\<lambda>a. a + 1) [] False" and ?u = "tcp_unit inverter1_profile 3"
  have u: "queue_inv (u_queue ?u)" "queue_items (u_queue ?u) = []" "\<not> init_requested ?u" "u_profile ?u = inverter1_profile"
    by (simp_all add: queue_inv_init)
  obtain u' w' where p: "inverter_process_callback ?pf ?u demo_world = Some (0, u', w')"
    using idle_process [OF demo_quiet u(1-3) server_serves demo_idle u(4)] by blast
  from batch_sent [OF log_net_takes demo_topic(1) demo_socks(1) inverter_round_sendable, of "uw_pool w'" "[rtu_module]" "\<lambda>_. []"] obtain e1
    where b: "cmos_publish_batch log_net (inverter_publish_round (uw_pool w') [rtu_module]) demo_publisher (\<lambda>_. []) =
      Some (demo_publisher, e1)" by blast
  have m: "rows inverter1_profile ! 0 \<in> set (rows inverter1_profile)" "length (description (rows inverter1_profile ! 0)) \<le> 63"
    by code_simp+
  have c: "length (pub_conns register_subscriber) = 256" "0 < length (sub_slots register_subscriber)"
    "pub_conns register_subscriber ! 0 =
      \<lparr>conn_sock = 9, conn_node = ''inverter_node_pub'', conn_rx = [], conn_active = True, conn_slot = int 0\<rparr>"
    "sub_slots register_subscriber ! 0 = slot_of (inverter_BRIDGE_PUB_TOPIC, None, [], description (rows inverter1_profile ! 0), 42)"
    by (simp_all add: register_subscriber_def demo_subscriber_def)
  have "rtu_module \<in> set [rtu_module]" "enabled rtu_module" by (simp_all add: rtu_module_def)
  from device_register_reaches_subscriber [OF demo_quiet u(1-3) server_serves demo_idle u(4) p this m(1) log_net_takes
      demo_topic(2) demo_socks(1) b demo_socks(2) _ piece_net_source _ c(1) _ c(2) _ c(3,4) m(2), of _ "length (e1 8)"]
  show ?thesis using p b by auto
qed

definition controller :: publisher where
  "controller = demo_publisher\<lparr>pub_topic := ''control_output''\<rparr>"

definition bridge_subscriber :: "inverter_handler sub_ctx" where
  "bridge_subscriber =
     \<lparr>sub_master_sock = 3, sub_master_ip = ''127.0.0.1'', sub_master_port = 10000, sub_node_name = ''inverter_sub'',
      sub_slots = map slot_of inverter_subscriptions,
      pub_conns = \<lparr>conn_sock = 9, conn_node = ''controller'', conn_rx = [], conn_active = True, conn_slot = 3\<rparr> # replicate 255 closed_conn,
      pub_count = 1, sub_epfd = 5\<rparr>"

theorem pump_commands_reach_device_witness:
  "\<exists>e1 n u1 rc u2 w2 tr.
     cmos_publish_batch log_net (map pump_message [''0.53'', ''0'']) controller (\<lambda>_. []) = Some (controller, e1) \<and>
     handle_calls limit_pool (fst (receive_events piece_net (replicate n 0) bridge_subscriber (e1 8))) [tcp_unit inverter1_profile 3] = Some [u1] \<and>
     inverter_process_callback (demo_pf id id [] False) u1 demo_world = Some (rc, u2, w2) \<and> uw_trace w2 = tr \<and>
     filter (writes_register dev_frequency_cmd_reg) (io_calls tr) = [Call_write dev_frequency_cmd_reg 0] \<and>
     filter (writes_register dev_operation_cmd_reg) (io_calls tr) = [Call_write dev_operation_cmd_reg stop_operation] \<and>
     queue_items (u_queue u2) = []"
proof -
  let ?ss = "[''0.53'', ''0'']"
  have t: "topic_ok (pub_topic controller)" "pub_topic controller = ''control_output''"
    and d: "distinct (sub_socks controller)" "8 \<in> set (sub_socks controller)"
    by (simp_all add: topic_ok_def controller_def demo_publisher_def)
  have s1: "\<forall>s\<in>set ?ss. plain s \<and> length s \<le> 700" by simp
  have s2: "\<forall>s\<in>set ?ss. plain s \<and> length s \<le> 700 \<and> parse_duty s \<noteq> None"
    using s1 by (simp only: list.set ball_simps parse_duty_53 parse_duty_zero option.distinct) simp
  have s3: "?ss \<noteq> []" "parse_duty (last ?ss) = Some 0" by (simp_all only: last.simps list.distinct if_True if_False parse_duty_zero simp_thms)
  from batch_sent [OF log_net_takes t(1) d(1) pump_messages_delivered(1) [OF s1], of "\<lambda>_. []"] obtain e1
    where b: "cmos_publish_batch log_net (map pump_message ?ss) controller (\<lambda>_. []) = Some (controller, e1)" by blast
  have c: "length (pub_conns bridge_subscriber) = 256" "sub_slots bridge_subscriber = map slot_of inverter_subscriptions"
    "pub_conns bridge_subscriber ! 0 = \<lparr>conn_sock = 9, conn_node = ''controller'', conn_rx = [], conn_active = True, conn_slot = 3\<rparr>"
    by (simp_all add: bridge_subscriber_def)
  have u: "bridge_reach [tcp_unit inverter1_profile 3]" "length (queue_items (u_queue (tcp_unit inverter1_profile 3))) \<le> 14"
    "\<not> init_requested (tcp_unit inverter1_profile 3)"
    by (auto intro: bridge_init simp: queue_init_def)
  from pump_commands_reach_device [OF log_net_takes t(2) d(1) s2 s3 b d(2) _ piece_net_source _ c(1) _ _ c(2,3) _ u(1,2) demo_quiet [of id id False] u(3),
      of _ "length (e1 8)" limit_pool demo_world]
  obtain u1 rc u2 w2 tr where
    r: "handle_calls limit_pool (fst (receive_events piece_net (replicate (length (e1 8)) 0) bridge_subscriber (e1 8))) [tcp_unit inverter1_profile 3] = Some [u1]"
    "inverter_process_callback (demo_pf id id [] False) u1 demo_world = Some (rc, u2, w2)" "uw_trace w2 = uw_trace demo_world @ tr"
    "filter (writes_register dev_frequency_cmd_reg) (io_calls tr) = [Call_write dev_frequency_cmd_reg (pump_frequency limit_pool 0)]"
    "filter (writes_register dev_operation_cmd_reg) (io_calls tr) = [Call_write dev_operation_cmd_reg (pump_operation 0)]"
    "queue_items (u_queue u2) = []" by auto
  have "uw_trace w2 = tr" "pump_frequency limit_pool 0 = 0" "pump_operation 0 = stop_operation"
    using r(3) by (simp_all add: demo_world_def pump_frequency_def pump_operation_def)
  with b r show ?thesis by metis
qed

end
