(* ===== verification/Closed_Loop.thy ===== *)
theory Closed_Loop
  imports End_To_End
begin

text \<open>
  The whole circle: a duty that a controller commands is converted to a frequency, queued,
  written to the inverter, read back by the next scan into the pool, converted to a duty again
  and published.
\<close>

section \<open>A device that keeps what is written to it\<close>

text \<open>\<open>D dev\<close> are the states in which the device answers reads with the registers \<open>dev\<close>; a write of
  one of the registers in \<open>S\<close> is carried out.\<close>

definition keeps_registers :: "'e platform \<Rightarrow> u16 set \<Rightarrow> ((u16 \<Rightarrow> u16) \<Rightarrow> gw_unit \<Rightarrow> 'e unit_world \<Rightarrow> bool) \<Rightarrow> bool" where
  "keeps_registers pf S D \<longleftrightarrow>
     (\<forall>dev. serves pf dev (D dev)) \<and>
     (\<forall>dev u w a v. a \<in> S \<longrightarrow> D dev u w \<longrightarrow>
        (\<exists>u' w'. write_single pf u a v w = (0, u', w') \<and> D (dev(a := v)) u' w')) \<and>
     (\<forall>dev u w q p. D dev u w \<longrightarrow> D dev (u\<lparr>u_queue := q\<rparr>) w \<and> D dev u (unit_release pf p w))"

definition register_write :: "write_cmd \<Rightarrow> (u16 \<Rightarrow> u16) \<Rightarrow> (u16 \<Rightarrow> u16)" where
  "register_write c dev = dev(cmd_addr c := cmd_values c ! 0)"

fun after_writes :: "write_cmd list \<Rightarrow> (u16 \<Rightarrow> u16) \<Rightarrow> (u16 \<Rightarrow> u16)" where
  "after_writes [] dev = dev"
| "after_writes (c # cs) dev = after_writes cs (register_write c dev)"

lemma keepsD:
  assumes "keeps_registers pf S D"
  shows "serves pf dev (D dev)"
    and "a \<in> S \<Longrightarrow> D dev u w \<Longrightarrow> \<exists>u' w'. write_single pf u a v w = (0, u', w') \<and> D (dev(a := v)) u' w'"
    and "D dev u w \<Longrightarrow> D dev (u\<lparr>u_queue := q\<rparr>) w" and "D dev u w \<Longrightarrow> D dev u (unit_release pf p w)"
    and "D dev u w \<Longrightarrow> D dev u (unit_usleep pf us w)" and "D dev u w \<Longrightarrow> D dev u (unit_acquire pf p w)"
  using assms by (auto simp: keeps_registers_def serves_def)

lemma write_queued_kept:
  assumes "keeps_registers pf S D" and "D dev u w" and "permitted c" and "cmd_addr c \<in> S"
  obtains u' w' where "write_queued pf c u w = (u', w')" and "D (register_write c dev) u' w'" and "same_unit u u'"
proof -
  have c: "cmd_count c = 1" "cmd_mode c = WRITE_MODE_AUTO" using assms(3) by (simp_all add: permitted_def)
  obtain u1 w1 where s: "write_single pf u (cmd_addr c) (cmd_values c ! 0) w = (0, u1, w1)" "D (register_write c dev) u1 w1"
    unfolding register_write_def using keepsD(2) [OF assms(1), OF assms(4,2)] by blast
  have q: "write_queued pf c u w = (u1, unit_usleep pf MODBUS_DEFAULT_INTER_SEGMENT_DELAY_US w1)"
    by (simp add: write_queued_def write_registers_locked_def c s(1))
  have "D (register_write c dev) u1 (unit_usleep pf MODBUS_DEFAULT_INTER_SEGMENT_DELAY_US w1)"
    by (rule keepsD(5) [OF assms(1), OF s(2)])
  then show ?thesis by (rule that [OF q]) (use write_single_frame [OF s(1)] in simp)
qed

lemma drain_loop_kept:
  assumes "keeps_registers pf S D" and "quiet pf"
    and "queue_inv (u_queue u)" and "D dev u w" and "list_all (\<lambda>c. permitted c \<and> cmd_addr c \<in> S) (c # queue_items (u_queue u))"
  shows "\<exists>u' w'. drain_loop pf ma c u w = Some (u', w') \<and> D (after_writes (c # queue_items (u_queue u)) dev) u' w' \<and>
    u_profile u' = u_profile u \<and> uw_pool w' = uw_pool w"
  using assms(3-5)
proof (induction "queue_items (u_queue u)" arbitrary: c u w dev)
  case Nil
  obtain u1 w1 where q: "write_queued pf c u w = (u1, w1)" "D (register_write c dev) u1 w1" "same_unit u u1"
    by (rule write_queued_kept [OF assms(1) Nil.prems(2), of c]) (use Nil.prems(3) in simp_all)
  have "unit_pop pf ma u1 w1 = (None, u1, w1)"
    using unit_pop_quiet [OF assms(2), of u1 ma w1] Nil same_unitD(6) [OF q(3)] by simp
  then have "drain_loop pf ma c u w = Some (u1, w1)" using q(1) by (subst drain_loop.simps) simp
  then show ?case using q(2) Nil.hyps same_unitD(2) [OF q(3)] write_queued_calls [OF q(1)] by auto
next
  case (Cons d ds)
  obtain u1 w1 where q: "write_queued pf c u w = (u1, w1)" "D (register_write c dev) u1 w1" "same_unit u u1"
    by (rule write_queued_kept [OF assms(1) Cons.prems(2), of c]) (use Cons.prems(3) in simp_all)
  note f = same_unitD(2,6) [OF q(3)] write_queued_calls [OF q(1)]
  obtain qq where p: "unit_pop pf ma u1 w1 = (Some d, u1\<lparr>u_queue := qq\<rparr>, w1)" "queue_inv qq" "queue_items qq = ds"
    using unit_pop_quiet [OF assms(2), of u1 ma w1] f(2) Cons.hyps(2) Cons.prems(1) by (auto split: list.splits)
  let ?u = "u1\<lparr>u_queue := qq\<rparr>"
  have e: "drain_loop pf ma c u w = drain_loop pf ma d ?u w1" using q(1) p(1) by (subst drain_loop.simps) simp
  have ds: "ds = queue_items (u_queue ?u)" and i: "queue_inv (u_queue ?u)" using p(2,3) by simp_all
  have "list_all (\<lambda>c. permitted c \<and> cmd_addr c \<in> S) (d # queue_items (u_queue ?u))"
    using Cons.prems(3) by (simp add: p(3) Cons.hyps(2) [symmetric])
  from Cons.hyps(1) [OF ds i keepsD(3) [OF assms(1), OF q(2)] this] obtain u' w' where
    "drain_loop pf ma d ?u w1 = Some (u', w')" "D (after_writes (d # ds) (register_write c dev)) u' w'"
    "u_profile u' = u_profile u" "uw_pool w' = uw_pool w1" using f(1) p(3) by auto
  then show ?case using f(3) by (simp add: e Cons.hyps(2) [symmetric])
qed

lemma drain_kept:
  assumes "keeps_registers pf S D" and "quiet pf"
    and "queue_inv (u_queue u)" and "D dev u w" and "list_all (\<lambda>c. permitted c \<and> cmd_addr c \<in> S) (queue_items (u_queue u))"
  shows "\<exists>u' w'. drain_queue pf ma u w = Some (u', w') \<and> D (after_writes (queue_items (u_queue u)) dev) u' w' \<and>
    u_profile u' = u_profile u"
proof (cases "queue_items (u_queue u)")
  case Nil
  with unit_pop_quiet [OF assms(2,3), of ma w] assms(4) show ?thesis by (auto simp: drain_queue_def)
next
  case (Cons c cs)
  with unit_pop_quiet [OF assms(2,3), of ma w] obtain q where
    p: "unit_pop pf ma u w = (Some c, u\<lparr>u_queue := q\<rparr>, w)" "queue_inv q" "queue_items q = cs" by auto
  let ?p = "bus_path_of (u_cfg u)" and ?u = "u\<lparr>u_queue := q\<rparr>"
  have i: "queue_inv (u_queue ?u)" using p(2) by simp
  have l: "list_all (\<lambda>c. permitted c \<and> cmd_addr c \<in> S) (c # queue_items (u_queue ?u))" using assms(5) Cons p(3) by simp
  have "D dev ?u (unit_acquire pf ?p w)"
    by (rule keepsD(6) [OF assms(1), OF keepsD(3) [OF assms(1), OF assms(4)]])
  from drain_loop_kept [OF assms(1,2) i this l, of ma] obtain u' w' where
    d: "drain_loop pf ma c ?u (unit_acquire pf ?p w) = Some (u', w')" "D (after_writes (c # cs) dev) u' w'" "u_profile u' = u_profile u"
    using p(3) by auto
  have "drain_queue pf ma u w = Some (u', unit_release pf ?p (unit_usleep pf 70000 w'))"
    using p(1) d(1) by (simp add: drain_queue_def Let_def)
  moreover have "D (after_writes (c # cs) dev) u' (unit_release pf ?p (unit_usleep pf 70000 w'))"
    by (rule keepsD(4) [OF assms(1), OF keepsD(5) [OF assms(1), OF d(2)]])
  ultimately show ?thesis using d(3) Cons by auto
qed

lemma process_kept:
  assumes "keeps_registers pf S D" and "quiet pf" and "bridge_queue_ok (u_queue u)" and "D dev u w"
    and "list_all (\<lambda>c. cmd_addr c \<in> S) (queue_items (u_queue u))" and "u_profile u = inverter1_profile" and "\<not> init_requested u"
  obtains u' w' where "inverter_process_callback pf u w = Some (0, u', w')"
    and "\<And>m. m \<in> set (rows inverter1_profile) \<Longrightarrow> uw_pool w' (pool_address m) = after_writes (queue_items (u_queue u)) dev (device_address m)"
proof -
  have u: "u\<lparr>init_requested := False\<rparr> = u" using assms(7) by simp
  have q: "queue_inv (u_queue u)" "list_all (\<lambda>c. permitted c \<and> cmd_addr c \<in> S) (queue_items (u_queue u))"
    using assms(3,5) queue_reach_inv by (auto simp: bridge_queue_ok_def list_all_iff)
  obtain u1 w1 where d: "drain_queue pf inverter_queue_merge_allowed u w = Some (u1, w1)"
    "D (after_writes (queue_items (u_queue u)) dev) u1 w1" "u_profile u1 = inverter1_profile"
    using drain_kept [OF assms(1,2) q(1) assms(4) q(2), of inverter_queue_merge_allowed] assms(6) by auto
  obtain rc u2 w2 where r: "read_profile_to_pool pf True u1 w1 = (rc, u2, w2)" by (metis prod.exhaust)
  have c: "0 < table_count (u_profile u1)" "read_chunk (u_profile u1) \<le> MODBUS_MAX_READ_REGISTERS" "profile_wf (u_profile u1)"
    using inverter1_chunk inverter1_wf by (simp_all add: d(3))
  note s = scan_served [OF keepsD(1) [OF assms(1)] d(2) c(3,1,2) r, unfolded d(3)]
  have p: "inverter_process_callback pf u w = Some (0, u2, unit_usleep pf (MODBUS_DEFAULT_POLL_CYCLE_INTERVAL_MS * 1000) w2)"
    using s c(1) by (simp add: inverter_process_callback_def assms(7) u drain_and_scan_def d(1) r del: One_nat_def)
  show ?thesis
    by (rule that [OF p]) (use served_slot [OF _ conjunct2 [OF conjunct2 [OF s]]] in \<open>simp only: uw_pool_usleep\<close>)
qed

section \<open>The values the device ends with\<close>

lemma after_writes_other: "list_all permitted l \<Longrightarrow> filter (same_register a) l = [] \<Longrightarrow> after_writes l dev a = dev a"
  by (induction l arbitrary: dev) (auto simp: register_write_def permitted_def same_register_def split: if_splits)

lemma after_writes_last:
  "list_all permitted l \<Longrightarrow> filter (same_register a) l = [auto_write a v] \<Longrightarrow> after_writes l dev a = v"
proof (induction l arbitrary: dev)
  case (Cons c l)
  show ?case
  proof (cases "same_register a c")
    case True
    with Cons.prems have "c = auto_write a v" "filter (same_register a) l = []" by auto
    with after_writes_other [of l a "register_write c dev"] Cons.prems(1) show ?thesis by (simp add: register_write_def)
  next
    case False
    with Cons show ?thesis by simp
  qed
qed simp

lemma queue_addresses:
  assumes "list_all permitted (queue_items q)" and "others_kept q0 q" and "queue_items q0 = []"
  shows "list_all (\<lambda>c. cmd_addr c \<in> {dev_frequency_cmd_reg, dev_operation_cmd_reg}) (queue_items q)"
  unfolding list_all_iff
proof
  fix c assume c: "c \<in> set (queue_items q)"
  then have "same_register (cmd_addr c) c" using assms(1) by (auto simp: list_all_iff permitted_def same_register_def)
  with c have "filter (same_register (cmd_addr c)) (queue_items q) \<noteq> []" by (auto simp: filter_empty_conv)
  with assms(2,3) show "cmd_addr c \<in> {dev_frequency_cmd_reg, dev_operation_cmd_reg}" by (auto simp: others_kept_def)
qed

lemma frequency_convert_duty_limits:
  "pool_read_or_0 pl int_frequency_upper_limit_reg = pool_read_or_0 pl' int_frequency_upper_limit_reg \<Longrightarrow>
   pool_read_or_0 pl int_frequency_lower_limit_reg = pool_read_or_0 pl' int_frequency_lower_limit_reg \<Longrightarrow>
     frequency_convert_duty pl = frequency_convert_duty pl'"
  by (rule ext) (simp add: frequency_convert_duty_def)

lemma commanded_frequency_read_back:
  assumes "pool_read_or_0 pl int_frequency_lower_limit_reg < pool_read_or_0 pl int_frequency_upper_limit_reg" and "d \<le> 10000"
  shows "unat (frequency_convert_duty pl (pump_frequency pl d)) \<le> unat d \<and>
    unat d \<le> unat (frequency_convert_duty pl (pump_frequency pl d)) +
      20000 div (unat (pool_read_or_0 pl int_frequency_upper_limit_reg) - unat (pool_read_or_0 pl int_frequency_lower_limit_reg)) + 1"
proof (cases "d = 0")
  case True
  then show ?thesis by (simp add: pump_frequency_def frequency_convert_duty_def Let_def)
next
  case False
  then show ?thesis using duty_there_and_back [OF assms] by (simp add: pump_frequency_def)
qed

section \<open>The circle\<close>

text \<open>The rows of the four registers.\<close>

lemma loop_rows:
  obtains mf mo mh ml where "{mf, mo, mh, ml} \<subseteq> set (rows inverter1_profile)"
    and "pool_address mf = int_frequency_write_cmd_reg" and "device_address mf = dev_frequency_cmd_reg"
    and "pool_address mo = int_operation_cmd_reg" and "device_address mo = dev_operation_cmd_reg"
    and "pool_address mh = int_frequency_upper_limit_reg" and "device_address mh = 0x010A"
    and "pool_address ml = int_frequency_lower_limit_reg" and "device_address ml = 0x010B"
proof -
  have "map_row 0x2001 0xA10C ACCESS_RW ''frequency_write_commands'' \<in> set (rows inverter1_profile)"
    "map_row 0x2000 0xA10B ACCESS_RW ''operation_commands'' \<in> set (rows inverter1_profile)"
    "map_row 0x010A 0xA102 ACCESS_RW ''frequency_upper_limit'' \<in> set (rows inverter1_profile)"
    "map_row 0x010B 0xA103 ACCESS_RW ''frequency_lower_limit'' \<in> set (rows inverter1_profile)"
    by (simp_all add: inverter1_rows inverter1_mapping_table_def)
  then show ?thesis
    by (intro that [of "map_row 0x2001 0xA10C ACCESS_RW ''frequency_write_commands''" "map_row 0x2000 0xA10B ACCESS_RW ''operation_commands''"
      "map_row 0x010A 0xA102 ACCESS_RW ''frequency_upper_limit''" "map_row 0x010B 0xA103 ACCESS_RW ''frequency_lower_limit''"]) simp_all
qed

lemma pool_read_or_0_mapped: "a < INTERNAL_POOL_SIZE \<Longrightarrow> pool_read_or_0 pl a = pl a"
  by (simp add: pool_read_or_0_def pool_read_register_def flip: not_le)

text \<open>
  C1. The duty that a controller commands is the duty that the gateway publishes: when one or
  more pump duties are handled while no command waits, and the inverter keeps the two command
  registers, then after the unit's next process callback the pool's command slots hold the
  frequency and the operation of the last duty, and the next round of the publisher contains
  the message \<^verbatim>\<open>duty_command\<close> with a duty that is not above the one commanded and at most
  \<open>20000 div R + 1\<close> hundredths of a percent below it, \<open>R\<close> being the distance of the inverter's
  frequency limits.
\<close>

theorem commanded_duty_comes_back:
  assumes "keeps_registers pf {dev_frequency_cmd_reg, dev_operation_cmd_reg} D" and "D dev u w"
    and "u_profile u = inverter1_profile" and "quiet pf" and "\<not> init_requested u"
    and "bridge_reach (u # us)" and "queue_items (u_queue u) = []"
    and "ss \<noteq> []" and "\<forall>s\<in>set ss. parse_duty s \<noteq> None" and "parse_duty (last ss) = Some d" and "d \<le> 10000"
    and "pool_read_or_0 (uw_pool w) int_frequency_upper_limit_reg = dev 0x010A"
    and "pool_read_or_0 (uw_pool w) int_frequency_lower_limit_reg = dev 0x010B" and "dev 0x010B < dev 0x010A"
    and "enabled cfg"
  shows "\<exists>q u2 w2 g. handle_calls (uw_pool w) (map (\<lambda>s. (On_main_pump_duty, topic, s)) ss) (u # us) = Some (u\<lparr>u_queue := q\<rparr> # us) \<and>
    inverter_process_callback pf (u\<lparr>u_queue := q\<rparr>) w = Some (0, u2, w2) \<and>
    uw_pool w2 int_frequency_write_cmd_reg = pump_frequency (uw_pool w) d \<and>
    uw_pool w2 int_operation_cmd_reg = pump_operation d \<and>
    (Some (connection_pub_state (uw_pool w2)), None, Some ''duty_command'', Some (take 7 (format_2f (hundredths g)))) \<in>
      set (inverter_publish_round (uw_pool w2) [cfg]) \<and>
    unat g \<le> unat d \<and> unat d \<le> unat g + 20000 div (unat (dev 0x010A) - unat (dev 0x010B)) + 1"
proof -
  let ?pl = "uw_pool w"
  have r: "pump_room (u_queue u)" using bridge_reach_ok [OF assms(6)] assms(7) by (simp add: pump_room_def bridge_unit_ok_def)
  obtain q where q: "handle_calls ?pl (map (\<lambda>s. (On_main_pump_duty, topic, s)) ss) (u # us) = Some (u\<lparr>u_queue := q\<rparr> # us)"
    "bridge_queue_ok q" "pump_waits (pump_frequency ?pl d) (pump_operation d) q" "others_kept (u_queue u) q"
    by (rule pump_commands_queued [OF r assms(9,8,10)])
  have p: "list_all permitted (queue_items q)" using q(2) by (simp add: bridge_queue_ok_def)
  have other: "after_writes (queue_items q) dev a = dev a" if "a \<notin> {dev_frequency_cmd_reg, dev_operation_cmd_reg}" for a
    by (rule after_writes_other [OF p]) (use q(4) assms(7) that in \<open>simp add: others_kept_def\<close>)
  have v: "after_writes (queue_items q) dev dev_frequency_cmd_reg = pump_frequency ?pl d"
    "after_writes (queue_items q) dev dev_operation_cmd_reg = pump_operation d"
    using q(3) by (auto intro: after_writes_last [OF p] simp: pump_waits_def)
  have b: "bridge_queue_ok (u_queue (u\<lparr>u_queue := q\<rparr>))" and pr: "u_profile (u\<lparr>u_queue := q\<rparr>) = inverter1_profile"
    and ir: "\<not> init_requested (u\<lparr>u_queue := q\<rparr>)"
    and l: "list_all (\<lambda>c. cmd_addr c \<in> {dev_frequency_cmd_reg, dev_operation_cmd_reg}) (queue_items (u_queue (u\<lparr>u_queue := q\<rparr>)))"
    using q(2) assms(3,5) queue_addresses [OF p q(4) assms(7)] by simp_all
  obtain u2 w2 where w: "inverter_process_callback pf (u\<lparr>u_queue := q\<rparr>) w = Some (0, u2, w2)"
    "\<forall>m\<in>set (rows inverter1_profile). uw_pool w2 (pool_address m) = after_writes (queue_items q) dev (device_address m)"
    by (rule process_kept [OF assms(1,4) b keepsD(3) [OF assms(1), OF assms(2)] l pr ir]) simp
  obtain mf mo mh ml where m: "{mf, mo, mh, ml} \<subseteq> set (rows inverter1_profile)"
    "pool_address mf = int_frequency_write_cmd_reg" "device_address mf = dev_frequency_cmd_reg"
    "pool_address mo = int_operation_cmd_reg" "device_address mo = dev_operation_cmd_reg"
    "pool_address mh = int_frequency_upper_limit_reg" "device_address mh = 0x010A"
    "pool_address ml = int_frequency_lower_limit_reg" "device_address ml = 0x010B" by (rule loop_rows)
  have s: "uw_pool w2 int_frequency_write_cmd_reg = pump_frequency ?pl d" "uw_pool w2 int_operation_cmd_reg = pump_operation d"
    "uw_pool w2 int_frequency_upper_limit_reg = dev 0x010A" "uw_pool w2 int_frequency_lower_limit_reg = dev 0x010B"
    using bspec [OF w(2), of mf] bspec [OF w(2), of mo] bspec [OF w(2), of mh] bspec [OF w(2), of ml] m v
    by (simp_all add: other)
  have "frequency_convert_duty (uw_pool w2) = frequency_convert_duty ?pl"
    by (rule frequency_convert_duty_limits) (simp_all only: assms(12,13), simp_all add: pool_read_or_0_mapped s(3,4))
  then have "publish_frequency_cmd_duty (uw_pool w2) = [(Some (connection_pub_state (uw_pool w2)), None, Some ''duty_command'',
      Some (take 7 (format_2f (hundredths (frequency_convert_duty ?pl (pump_frequency ?pl d))))))]"
    by (simp add: publish_frequency_cmd_duty_def Let_def pool_read_or_0_mapped s(1))
  then have "(Some (connection_pub_state (uw_pool w2)), None, Some ''duty_command'',
      Some (take 7 (format_2f (hundredths (frequency_convert_duty ?pl (pump_frequency ?pl d)))))) \<in>
      set (inverter_publish_round (uw_pool w2) [cfg])"
    using assms(15) by (simp add: inverter_publish_round_def publish_additional_item_def)
  moreover have "unat (frequency_convert_duty ?pl (pump_frequency ?pl d)) \<le> unat d \<and>
      unat d \<le> unat (frequency_convert_duty ?pl (pump_frequency ?pl d)) + 20000 div (unat (dev 0x010A) - unat (dev 0x010B)) + 1"
    using commanded_frequency_read_back [where pl = ?pl and d = d] assms(11,14) by (simp only: assms(12,13))
  ultimately show ?thesis using q(1) w(1) s(1,2) by blast
qed

section \<open>A witness\<close>

text \<open>A Modbus TCP device whose registers are a part of the environment.\<close>

type_synonym loop_env = "u8 list \<times> (u16 \<Rightarrow> u16)"

definition device_os :: "loop_env socket_os" where
  "device_os =
     \<lparr>sk_socket = (\<lambda>e. (3, e)), sk_setsockopt = (\<lambda>fd opt e. (True, e)), sk_inet_pton = (\<lambda>h. True),
      sk_set_nonblock = (\<lambda>fd b e. e), sk_connect = (\<lambda>fd h p e. (Connect_ok, e)),
      sk_wait_writable = (\<lambda>fd t e. (True, e)), sk_so_error = (\<lambda>fd e. (0, e)),
      sk_shutdown = (\<lambda>fd e. e), sk_close = (\<lambda>fd (b, dev). ([], dev)),
      sk_send = (\<lambda>fd req (b, dev). (int (length req), (b @ server_answer dev req,
                   if req ! 7 = MODBUS_FUNC_WRITE_SINGLE_REGISTER
                   then dev(be_join (req ! 8) (req ! 9) := be_join (req ! 10) (req ! 11)) else dev))),
      sk_recv = (\<lambda>fd n (b, dev). if b = [] then (Recv_timeout, (b, dev)) else (Recv_bytes (take n b), (drop n b, dev))),
      sk_stack = (\<lambda>e. replicate 260 0), sk_mutex_ok = (\<lambda>e. True)\<rparr>"

definition no_serial :: "loop_env serial_os" where
  "no_serial =
     \<lparr>os_open = (\<lambda>p e. (-1, e)), os_clear_ndelay = (\<lambda>fd e. e), os_close = (\<lambda>fd e. e), os_tcgetattr = (\<lambda>fd e. (None, e)),
      os_tcsetattr = (\<lambda>fd t e. (False, e)), os_tcflush = (\<lambda>fd e. e), os_write = (\<lambda>fd bs e. (-1, e)),
      os_wait = (\<lambda>fd t e. (0, e)), os_read = (\<lambda>fd n e. (None, e)), os_clock = (\<lambda>e. (0, 0)), os_usleep = (\<lambda>us e. e)\<rparr>"

definition loop_pf :: "loop_env platform" where
  "loop_pf = \<lparr>pf_serial = no_serial, pf_socket = device_os, pf_self = 1, pf_bus_wait = (\<lambda>p s e. (s, e)),
     pf_pushes = (\<lambda>e. ([], e)), pf_stopped = (\<lambda>e. False)\<rparr>"

definition holding :: "(u16 \<Rightarrow> u16) \<Rightarrow> gw_unit \<Rightarrow> loop_env unit_world \<Rightarrow> bool" where
  "holding dev u w \<longleftrightarrow> cfg_format (u_cfg u) = MODBUS_FORMAT_TCP \<and> 0 \<le> sock (u_tcp u) \<and> uw_env w = ([], dev)"

lemma loop_pf_simps [simp]:
  "pf_serial loop_pf = no_serial" "pf_socket loop_pf = device_os" "pf_bus_wait loop_pf p s e = (s, e)"
  "os_usleep no_serial us e = e" "sk_stack device_os e = replicate 260 0"
  by (simp_all add: loop_pf_def no_serial_def device_os_def)

lemma device_os_stream: "byte_stream device_os fd fst"
  by (auto simp: byte_stream_def device_os_def)

text \<open>Receiving and sending keep the registers, but for a write.\<close>

lemma recv_keeps_registers: "recv_exact device_os fd n got e = (rc, bs, e') \<Longrightarrow> snd e' = snd e"
proof (induction "n - length got" arbitrary: got e rule: less_induct)
  case less
  obtain b dev where e: "e = (b, dev)" by (cases e)
  show ?case
  proof (cases "length got < n \<and> b \<noteq> []")
    case True
    let ?k = "n - length got"
    have "recv_exact device_os fd n got e = recv_exact device_os fd n (got @ take ?k b) (drop ?k b, dev)"
      using True by (subst recv_exact.simps) (simp add: e device_os_def)
    moreover have "n - length (got @ take ?k b) < n - length got" using True by (cases b) auto
    ultimately show ?thesis using less.hyps [of "got @ take ?k b" "(drop ?k b, dev)"] less.prems by (simp add: e)
  next
    case False
    then show ?thesis using less.prems by (subst (asm) recv_exact.simps) (auto simp: e device_os_def split: if_splits)
  qed
qed

lemma response_keeps_registers: "recv_response device_os fd cap e = (rc, bs, e') \<Longrightarrow> snd e' = snd e"
  by (auto simp: recv_response_def Let_def dest!: recv_keeps_registers split: prod.splits if_splits)

lemma device_send:
  "sk_send device_os fd req ([], dev) = (int (length req), (server_answer dev req,
     if req ! 7 = MODBUS_FUNC_WRITE_SINGLE_REGISTER
     then dev(be_join (req ! 8) (req ! 9) := be_join (req ! 10) (req ! 11)) else dev))"
  by (simp add: device_os_def)

lemma device_read:
  assumes "holding dev u w" and "0 < n" and "n \<le> MODBUS_MAX_READ_REGISTERS"
  shows "\<exists>u' w'. read_device_value loop_pf u a n w = (0, Some (dev_regs dev a n), u', w') \<and> holding dev u' w'"
proof -
  let ?ctx = "u_tcp u"
  let ?t = "tid_step (tid ?ctx)" and ?uid = "tcp_unit_id (tcp_cfg ?ctx)"
  let ?req = "build_fc03_request ?t ?uid a n"
  obtain rc f where f: "mb_tcp_build_read_registers_response ?t MODBUS_FUNC_READ_HOLDING_REGISTERS ?uid
      (Some (dev_regs dev a n)) n MODBUS_TCP_MAX_ADU_LENGTH = (rc, f)" by fastforce
  have req: "?req ! 0 = be_hi ?t" "?req ! 1 = be_lo ?t" "?req ! 6 = ?uid" "?req ! 7 = 3" "?req ! 8 = be_hi a"
    "?req ! 9 = be_lo a" "?req ! 10 = be_hi n" "?req ! 11 = be_lo n" "length ?req = 12"
    by (simp_all add: build_fc03_request_def)
  have "server_answer dev ?req = f" unfolding server_answer_def req using f by simp
  then have snd: "sk_send device_os (sock ?ctx) ?req (uw_env w) = (12, (f, dev))"
    using assms(1) req(4,9) by (simp add: holding_def device_send)
  have l: "length (dev_regs dev a n) = unat n" by (simp add: dev_regs_def)
  have s: "0 \<le> sock ?ctx" using assms(1) by (simp add: holding_def)
  from tcp_read_response [OF device_os_stream s assms(2,3) l snd f, of "[]"]
  obtain e2 where e2: "mb_tcp_client_read_holding_registers device_os ?ctx a n (uw_env w) =
      (0, Some (dev_regs dev a n), ?ctx\<lparr>tid := ?t\<rparr>, e2)" "fst e2 = []" by auto
  have "snd e2 = dev"
    using e2(1) snd by (auto simp: mb_tcp_client_read_holding_registers_def next_tid_def Let_def dest: response_keeps_registers
        split: if_splits prod.splits)
  with e2(2) have "e2 = ([], dev)" by (simp add: prod_eq_iff)
  with e2(1) show ?thesis using assms(1)
    by (simp add: read_device_value_def holding_def tcp_done_def log_event_def)
qed

lemma device_write:
  assumes "holding dev u w"
  shows "\<exists>u' w'. write_single loop_pf u a v w = (0, u', w') \<and> holding (dev(a := v)) u' w'"
proof -
  let ?ctx = "next_tid (u_tcp u)"
  let ?req = "build_fc06_request (tid ?ctx) (tcp_unit_id (tcp_cfg ?ctx)) a v"
  have req: "?req ! 7 = 6" "be_join (?req ! 8) (?req ! 9) = a" "be_join (?req ! 10) (?req ! 11) = v" "length ?req = 12"
    by (simp_all add: build_fc06_request_def)
  have ans: "server_answer dev ?req = ?req" by (simp add: server_answer_def build_fc06_request_def)
  have snd: "sk_send device_os (sock ?ctx) ?req ([], dev) = (12, (?req, dev(a := v)))"
    unfolding device_send req ans by simp
  have "adu_ok ?req" by (simp add: adu_ok_def build_fc06_request_def be_join_def)
  from recv_response_stream [OF device_os_stream [of "sock ?ctx"] _ this, of "(?req, dev(a := v))" "[]"]
  obtain e2 where e2: "recv_response device_os (sock ?ctx) MODBUS_TCP_MAX_ADU_LENGTH (?req, dev(a := v)) = (0, ?req, e2)" "fst e2 = []"
    by auto
  have r: "e2 = ([], dev(a := v))" using response_keeps_registers [OF e2(1)] e2(2) by (simp add: prod_eq_iff)
  have "validate_write_response ?req (resp_buffer (replicate 260 0) ?req) (length ?req) (tid ?ctx) = 0"
    by (simp add: validate_write_response_def resp_buffer_def build_fc06_request_def)
  then have "tcp_write_transaction device_os ?ctx 12 ?req ([], dev) = (0, ?ctx, ([], dev(a := v)))"
    using snd e2(1) r req(4) by (simp add: tcp_write_transaction_def Let_def)
  then show ?thesis using assms
    by (simp add: write_single_def holding_def mb_tcp_client_write_single_register_def next_tid_def Let_def tcp_done_def log_event_def)
qed

lemma device_keeps: "keeps_registers loop_pf S holding"
  unfolding keeps_registers_def serves_def
  using device_read device_write
  by (auto simp: holding_def unit_usleep_def unit_acquire_def unit_release_def log_event_def split: option.split)

definition loop_world :: "loop_env unit_world" where
  "loop_world = \<lparr>uw_pool = limit_pool, uw_bus = bus_coord_init, uw_rtu = replicate MB_RTU_MAX_SHARED_BUSES zero_bus,
     uw_env = ([], (\<lambda>_. 0)(0x010A := 6000)), uw_trace = [], uw_line = []\<rparr>"

theorem commanded_duty_comes_back_witness:
  "\<exists>q u2 w2 g. handle_calls limit_pool [(On_main_pump_duty, ''control_output'', ''0''), (On_main_pump_duty, ''control_output'', ''0.53'')]
       [tcp_unit inverter1_profile 3] = Some [(tcp_unit inverter1_profile 3)\<lparr>u_queue := q\<rparr>] \<and>
     inverter_process_callback loop_pf ((tcp_unit inverter1_profile 3)\<lparr>u_queue := q\<rparr>) loop_world = Some (0, u2, w2) \<and>
     uw_pool w2 int_frequency_write_cmd_reg = pump_frequency limit_pool 52 \<and>
     (Some (connection_pub_state (uw_pool w2)), None, Some ''duty_command'', Some (take 7 (format_2f (hundredths g)))) \<in>
       set (inverter_publish_round (uw_pool w2) [rtu_module]) \<and>
     unat g \<le> 52 \<and> 52 \<le> unat g + 4"
proof -
  let ?u = "tcp_unit inverter1_profile 3" and ?dev = "(\<lambda>_. 0)(0x010A := 6000) :: u16 \<Rightarrow> u16" and ?ss = "[''0'', ''0.53'']"
  have h: "holding ?dev ?u loop_world" by (simp add: holding_def loop_world_def)
  have q: "quiet loop_pf" by (simp add: quiet_def loop_pf_def)
  have u: "u_profile ?u = inverter1_profile" "\<not> init_requested ?u" "bridge_reach [?u]" "queue_items (u_queue ?u) = []"
    by (auto intro: bridge_init)
  have s: "?ss \<noteq> []" "\<forall>s\<in>set ?ss. parse_duty s \<noteq> None" "parse_duty (last ?ss) = Some 52"
    by (simp_all only: list.set ball_simps last.simps list.distinct if_True if_False parse_duty_zero parse_duty_53 option.distinct simp_thms)
  have l: "pool_read_or_0 (uw_pool loop_world) int_frequency_upper_limit_reg = ?dev 0x010A"
    "pool_read_or_0 (uw_pool loop_world) int_frequency_lower_limit_reg = ?dev 0x010B" "?dev 0x010B < ?dev 0x010A"
    by (simp_all add: pool_read_or_0_mapped loop_world_def limit_pool_def)
  have d: "52 \<le> (10000 :: u16)" "enabled rtu_module" by (simp_all add: rtu_module_def)
  from commanded_duty_comes_back [OF device_keeps h u(1) q u(2-4) s d(1) l d(2), of "''control_output''"]
  show ?thesis by (auto simp: loop_world_def)
qed

end
