(* ===== verification/Spec2Isabelle.thy ===== *)
theory Spec2Isabelle
  imports Unit_Start Unit_Hold Alarm_Units Log_Lib Tcp_Server_Facts Cmos_Srv_Facts Cmos_Returns Cmos_Parse Cmos_Threads Closed_Loop
begin

text \<open>
  A verification development for the LFB gateway daemon, a C program that polls inverters and
  UPS units over Modbus RTU (RS-485) and Modbus TCP, keeps their registers in a shared pool,
  publishes them to and accepts write commands from a message bus (CMOS), and logs register
  alarms to SQLite.

  \<^bold>\<open>The program.\<close> \<^verbatim>\<open>src/main.c\<close> loads \<^verbatim>\<open>config.json\<close>, initialises the bus
  coordinator (\<^verbatim>\<open>src/bus_coord.c\<close>) and the pool (\<^verbatim>\<open>lib/device_map\<close>), forks one publisher
  process per family, starts one thread per enabled unit (\<^verbatim>\<open>src/inverter_module.c\<close>,
  \<^verbatim>\<open>src/ups_module.c\<close>) and one subscriber thread per family (\<^verbatim>\<open>src/inverter_cmos_bridge.c\<close>,
  \<^verbatim>\<open>src/ups_cmos_bridge.c\<close> over \<^verbatim>\<open>lib/cmos\<close>), registers the alarm contexts and starts the
  alarm monitor. A unit thread connects, then repeats: pending requests, the queued
  write commands, a scan of the register profile into the pool; five failed reads in a row end
  the connection, and after a delay it connects again. Units on the same serial line share one
  port (\<^verbatim>\<open>lib/modbus/modbus_rtu_client.c\<close>) and take turns through the bus coordinator. The
  alarm monitor (\<^verbatim>\<open>lib/alarm\<close>) reads the pool every 100 ms and hands changes to
  \<^verbatim>\<open>src/alarm_manager.c\<close>.

  \<^bold>\<open>Theories.\<close> In the order of the code's layers:

  \<^item> \<open>Gateway_Base\<close>, \<open>Modbus_Defs\<close>: machine integers, big-endian registers, Modbus
    constants. \<open>Gateway_Interfaces\<close>: the contracts between components as locales - a register
    store, a keyed look-up, a re-entrant lock, a command FIFO; each is interpreted in the theory
    of the component that provides it.
  \<^item> \<open>Device_Map\<close>: \<^verbatim>\<open>device_register_map.c\<close>; binary search, ingest, access checks, the
    registry of profiles. \<open>Device_Profiles\<close>: the two shipped register tables.
  \<^item> \<open>Gateway_Config\<close>: the configuration types and the timing policy.
  \<^item> \<open>Alarm_Engine\<close>, \<open>Alarm_Bridge\<close>, \<open>Alarm_Manager\<close>, \<open>Alarm_Units\<close>: one scan of an alarm
    table, the monitor thread, the SQLite log with its row rotation, the tables of the two
    families with their registration.
  \<^item> \<open>Bus_Coord\<close>: the re-entrant lock per serial path. \<open>Cmd_Queue\<close>: the ring of write
    commands with its merge rule.
  \<^item> \<open>Rtu_Frame\<close>, \<open>Rtu_Client\<close>: CRC and frames; shared ports, hand-off silence,
    transactions. \<open>Tcp_Codec\<close>, \<open>Tcp_Client\<close>: the codec and the client of Modbus TCP.
    \<open>Tcp_Server\<close>, \<open>Tcp_Server_Facts\<close>: the server and client threads of \<^verbatim>\<open>modbus_tcp.c\<close>, which
    the daemon does not start, and what they keep.
  \<^item> \<open>Unit_Core\<close>: what the two unit modules have in common; \<open>Unit_Scan\<close>, \<open>Unit_Bus\<close>,
    \<open>Unit_Life\<close>: lemmas on the scan, on the use of the bus, on waiting, draining and the
    thread. \<open>Inverter_Module\<close>, \<open>Ups_Module\<close>: each family's own functions. \<open>Unit_Start\<close>:
    starting both families and the states a thread goes through from its start to its end.
    \<open>Unit_Hold\<close>: the coordinator's slots at every exchange of a thread. \<open>Unit_Witness\<close>: a
    concrete platform on which the properties are applied.
  \<^item> \<open>Config_Loader\<close>: \<^verbatim>\<open>config_loader.c\<close>, from a JSON document to \<^verbatim>\<open>global_config\<close>.
    \<open>Daemon_Main\<close>: \<^verbatim>\<open>main.c\<close>, composed of the start and stop operations of the other parts.
    \<open>Log_Lib\<close>: \<^verbatim>\<open>lib/log\<close>.
  \<^item> \<open>C_Numbers\<close>: the number conversions of the C library. \<open>Inverter_Bridge\<close>,
    \<open>Ups_Bridge\<close>: the message handlers and the messages of a publishing round;
    \<open>Bridge_Facts\<close>: what the handlers do to the queues.
  \<^item> \<open>Cmos_Wire\<close>, \<open>Cmos_Pub\<close>, \<open>Cmos_Sub\<close>, \<open>Cmos_Srv\<close>: \<^verbatim>\<open>lib/cmos\<close>, its text lines and socket
    calls, publisher, subscriber and services. \<open>Cmos_Sub_Facts\<close>, \<open>Cmos_Srv_Facts\<close>: their
    invariants; \<open>Cmos_Parse\<close>: \<^verbatim>\<open>cmos_parse\<close>, which the daemon does not call;
    \<open>Cmos_Delivery\<close>: from a publisher to a subscriber's callback; \<open>Cmos_Bridges\<close>:
    the publisher processes and subscriber threads of the two bridges; \<open>Cmos_Returns\<close>: their
    loops return.
  \<^item> \<open>Cmos_Strtok\<close>, \<open>Cmos_Threads\<close>: \<^verbatim>\<open>ctx_handle_line\<close> again, one call of \<^verbatim>\<open>strtok\<close> at a time
    over the stack buffers of several threads and the one position they share, and what the
    two subscriber threads of the daemon make of it.
  \<^item> \<open>End_To_End\<close>, \<open>Closed_Loop\<close>: the components together, from a register of the device to a
    subscriber's callback, from a published command to the write on the bus, and the whole
    circle of a commanded duty.

  \<^bold>\<open>How code becomes definitions.\<close> A C function is a definition of the same name (with the
  family's prefix where the two modules use the same name) from the state it uses to its result
  and the new state: 16-bit registers are \<^typ>\<open>16 word\<close>, C \<^verbatim>\<open>int\<close> is \<^typ>\<open>int\<close>, error
  codes keep their numbers, NULL is \<^const>\<open>None\<close>. Operating system calls, SQLite, json-c and the
  peer devices are records of functions over an environment \<open>'e\<close> (\<open>serial_os\<close>, \<open>socket_os\<close>,
  \<open>server_os\<close>, \<open>net_api\<close>, \<open>sqlite_api\<close>, \<open>json_api\<close>, \<open>platform\<close>, \<open>daemon_os\<close>), which the theorems
  quantify over; what a theorem needs of them is a named hypothesis with a witness: \<open>line_ok\<close>,
  \<open>byte_stream\<close>, \<open>serves\<close> and \<open>keeps_registers\<close> for the devices, \<open>sqlite_rows_ok\<close> for the database
  (whose statements may fail), \<open>bus_waits\<close> for what other threads do to the bus coordinator,
  \<open>descriptors_ok\<close> and \<open>server_descriptors\<close> for what opens and closes descriptors,
  \<open>byte_source\<close> and \<open>takes_all\<close> for a connection that cuts a stream anywhere but loses nothing,
  \<open>drops_whole\<close> for one that takes a line or refuses it,
  \<open>finite_supply\<close> for peers that do not send for ever, \<open>server_links\<close> for an application that
  records the reports it gets.
  A unit's thread runs over \<open>unit_world\<close>, whose \<open>uw_trace\<close> logs calls in program order and
  whose \<open>uw_line\<close> logs the serial ones with the coordinator's slots at the call; other threads
  appear as what they do to the bus before an acquire proceeds, the commands they queue before a
  pop, and the stop flag. The endless loops of the CMOS library and of the TCP threads
  run for any number of turns, and what \<^verbatim>\<open>epoll_wait\<close> or \<^verbatim>\<open>select\<close> answers is an argument or a
  parameter; a subscriber thread is cancelled between two turns. Log output is not state.

  \<^bold>\<open>Loops.\<close> Loops over tables are structural recursions on the rows left. Loops that may not
  end are \<^theory_text>\<open>partial_function (option)\<close>, with \<^const>\<open>None\<close> for not returning: the range
  check of \<open>Device_Map\<close>, the drain of the queue, the interruptible wait, the poll thread, the
  look-up of publishers and the reading of a service's address. The wait and, without new
  commands, the drain are proved to return; with a producer that keeps pace the drain is proved
  not to. The look-ups are proved to return when the peers send finitely much. Reading words of
  a line, command-line arguments and the wait for a service are \<^theory_text>\<open>function\<close>s with a
  measure. A subscriber thread that is alone in \<^verbatim>\<open>ctx_handle_line\<close> is proved to come to its end,
  with a lexicographic measure on the steps. No fuel is used; the number of turns of a thread is an argument, and the theorems
  hold for each.

  \<^bold>\<open>What the lemmas show.\<close> Locks and queues refine abstract objects (a lock per path, a bounded
  list); the frame codecs reject damaged frames and round-trip; a successful read delivers what
  the device sent; a scan reads every row once and stores it in its slot; whatever
  the other threads do, the coordinator's slot of a line's path belongs to a unit's thread at
  each of its exchanges on the line, and the thread gives it back; the pool's connection slot is
  the unit's connection state from the thread's start to its end; the alarm log holds what the
  registers called for, and its tables stay bounded as long as the rows can be counted. The daemon starts exactly for acceptable configurations and leaves
  nothing running or open however its start fails. Every published message that a
  subscriber's socket takes reaches exactly the callbacks whose filters match, in order, so the value of every register reaches its
  subscribers and every command its one handler; publishers, subscribers, services and the TCP
  threads close exactly the descriptors they opened, and the links the TCP threads report are
  those of their tables, except that what stopping closes at last is not reported. A subscriber thread that is not interrupted
  in \<^verbatim>\<open>ctx_handle_line\<close> does what the sequential definition says; for two threads at once there
  is a schedule in which a command gets another message's value. Put together: what the device
  holds reaches the subscribers, the newest of any number of pump commands is written exactly
  once, and the duty that comes back is the one commanded up to the resolution of the frequency
  range. Some properties describe defects the code
  has, and say so.

  \<^bold>\<open>Not modelled.\<close> SQLite is third-party code and a parameter. Left out as having no effect on
  the modelled state: socket options and the \<^verbatim>\<open>epoll\<close> registrations of the CMOS library, receive
  timeouts (a receive that times out fails), terminal output, and which log calls the functions
  make. Other limits of the model: a thread is cancelled between two turns and not inside one,
  and a publishing round reads one state of the pool. The delivery theorem leaves out sends
  that take a part of a line, and slots that filter on type or state but not on the key, which
  the code and its header treat differently (\<open>type_filter_passes_data\<close>). A send that takes 0 bytes of a line, which
  no socket does to a line that is not empty, counts as sent. The position of \<^verbatim>\<open>strtok\<close> is a part of the
  state in \<open>Cmos_Strtok\<close> only; the theories on whole turns of a subscriber take a line as handled
  without interruption. There a string in a buffer that its function has left keeps its
  characters, of which C says nothing, and the look-ups, which call \<^verbatim>\<open>strtok\<close> too, do not move the
  position.
\<close>

end
